(* ===== verification/Prelude.thy ===== *)
theory Prelude
  imports Main "HOL-Library.Char_ord" "HOL-Library.List_Lexorder" "HOL-Library.Product_Lexorder"
    "HOL-Library.Code_Target_Numeral"
begin

text \<open>
  Shared ground of the development. Results that may be refused (an exception of the service is a
  value \<open>Inl\<close>), the row operations that \<^verbatim>\<open>api/database/database.py\<close> offers to the services
  (a table is the list of its rows), an interface for tables with a primary key, and generic facts
  on lists. The collections \<open>result_simps\<close> and \<open>row_simps\<close> carry the component proofs.
\<close>

named_theorems result_simps \<open>unfolding of sequenced results\<close>
named_theorems row_simps \<open>row operations\<close>

section \<open>Results\<close>

text \<open>
  The exceptions by which a handler refuses. \<open>Http\<close> is FastAPI's \<^verbatim>\<open>HTTPException(status, detail)\<close>,
  and the tag keeps the raise sites of one status apart (texts are presentation). \<open>Coded\<close> is a
  \<^verbatim>\<open>CodedAPIException\<close> (\<^verbatim>\<open>EngineRefusal\<close>, \<^verbatim>\<open>PlanRefusal\<close>, the verdict errors) with its stable code,
  \<open>Access\<close> the \<^verbatim>\<open>AccessError\<close> of the daily limit. \<open>Crash\<close> is any Python exception that is not an
  HTTP refusal (\<^verbatim>\<open>ValueError\<close>, \<^verbatim>\<open>KeyError\<close>, \<^verbatim>\<open>AssertionError\<close>); it ends in a 500.
\<close>

datatype err =
    Http nat string
  | Coded nat string
  | Access nat string
  | Crash string

fun status_code :: "err \<Rightarrow> nat" where
  "status_code (Http n d) = n"
| "status_code (Coded n c) = n"
| "status_code (Access n c) = n"
| "status_code (Crash d) = 500"

fun is_access :: "err \<Rightarrow> bool" where
  "is_access (Access n c) = True"
| "is_access e = False"

text \<open>An \<^verbatim>\<open>HTTPException\<close> in the sense of an \<^verbatim>\<open>except HTTPException\<close> clause.\<close>

fun is_http :: "err \<Rightarrow> bool" where
  "is_http (Crash d) = False"
| "is_http e = True"

type_synonym 'a result = "err + 'a"

text \<open>Sequencing: the first refusal ends the handler.\<close>

fun bind_r :: "'a result \<Rightarrow> ('a \<Rightarrow> 'b result) \<Rightarrow> 'b result" where
  "bind_r (Inl e) f = Inl e"
| "bind_r (Inr x) f = f x"

definition guard_r :: "bool \<Rightarrow> err \<Rightarrow> unit result" where
  "guard_r b e = (if b then Inr () else Inl e)"

lemma bind_r_Inr_iff [result_simps]: "bind_r m f = Inr y \<longleftrightarrow> (\<exists>x. m = Inr x \<and> f x = Inr y)"
  by (cases m) auto

lemma bind_r_Inl_iff [result_simps]:
  "bind_r m f = Inl e \<longleftrightarrow> m = Inl e \<or> (\<exists>x. m = Inr x \<and> f x = Inl e)"
  by (cases m) auto

lemma guard_r_Inr [result_simps]: "guard_r b e = Inr u \<longleftrightarrow> b"
  by (simp add: guard_r_def)

lemma guard_r_Inl [result_simps]: "guard_r b e = Inl e' \<longleftrightarrow> \<not> b \<and> e' = e"
  by (auto simp: guard_r_def)

lemma guard_r_True [simp]: "guard_r True e = Inr ()"
  by (simp add: guard_r_def)

lemma guard_r_False [simp]: "guard_r False e = Inl e"
  by (simp add: guard_r_def)

lemma bind_guard [result_simps]: "bind_r (guard_r b e) f = (if b then f () else Inl e)"
  by (simp add: guard_r_def)

lemma bind_r_assoc: "bind_r (bind_r m f) g = bind_r m (\<lambda>x. bind_r (f x) g)"
  by (cases m) auto

lemma bind_r_cong [fundef_cong]:
  "m = n \<Longrightarrow> (\<And>x. n = Inr x \<Longrightarrow> f x = g x) \<Longrightarrow> bind_r m f = bind_r n g"
  by (cases n) auto

text \<open>Left-to-right loops whose body may refuse.\<close>

fun map_r :: "('a \<Rightarrow> 'b result) \<Rightarrow> 'a list \<Rightarrow> 'b list result" where
  "map_r f [] = Inr []"
| "map_r f (x # xs) = bind_r (f x) (\<lambda>y. bind_r (map_r f xs) (\<lambda>ys. Inr (y # ys)))"

fun any_r :: "('a \<Rightarrow> bool result) \<Rightarrow> 'a list \<Rightarrow> bool result" where
  "any_r f [] = Inr False"
| "any_r f (x # xs) = bind_r (f x) (\<lambda>b. if b then Inr True else any_r f xs)"

lemma map_r_Inr: "map_r f xs = Inr ys \<longleftrightarrow> list_all2 (\<lambda>x y. f x = Inr y) xs ys"
proof (induction xs arbitrary: ys)
  case Nil
  then show ?case by auto
next
  case (Cons x xs)
  then show ?case by (cases ys) (auto simp: result_simps)
qed

lemma map_r_length: "map_r f xs = Inr ys \<Longrightarrow> length ys = length xs"
  by (auto simp: map_r_Inr dest: list_all2_lengthD)

lemma map_r_pure: "(\<And>x. x \<in> set xs \<Longrightarrow> f x = Inr (g x)) \<Longrightarrow> map_r f xs = Inr (map g xs)"
  by (induction xs) auto

lemma map_r_cong [fundef_cong]:
  "xs = ys \<Longrightarrow> (\<And>x. x \<in> set ys \<Longrightarrow> f x = g x) \<Longrightarrow> map_r f xs = map_r g ys"
  by (induction ys arbitrary: xs) auto

lemma any_r_cong [fundef_cong]:
  "xs = ys \<Longrightarrow> (\<And>x. x \<in> set ys \<Longrightarrow> f x = g x) \<Longrightarrow> any_r f xs = any_r g ys"
proof (induction ys arbitrary: xs)
  case (Cons y ys)
  then have "any_r f ys = any_r g ys" by auto
  with Cons.prems show ?case by (auto intro: bind_r_cong)
qed auto

lemma any_r_pure: "(\<And>x. x \<in> set xs \<Longrightarrow> f x = Inr (g x)) \<Longrightarrow> any_r f xs = Inr (\<exists>x\<in>set xs. g x)"
  by (induction xs) auto

lemma any_r_True: "any_r f xs = Inr True \<Longrightarrow> \<exists>x\<in>set xs. f x = Inr True"
  by (induction xs) (auto simp: result_simps split: if_splits)

lemma any_r_False: "any_r f xs = Inr False \<Longrightarrow> x \<in> set xs \<Longrightarrow> f x = Inr False"
  by (induction xs) (auto simp: result_simps split: if_splits)

section \<open>Rows of a table\<close>

text \<open>
  A table is the list of its rows. The statements the services issue: the first row of a query
  (\<^verbatim>\<open>db.first\<close>, \<^verbatim>\<open>db.get\<close>), all rows, existence, insertion, \<^verbatim>\<open>UPDATE .. WHERE\<close>,
  \<^verbatim>\<open>DELETE .. WHERE\<close>.
\<close>

definition first_row :: "('r \<Rightarrow> bool) \<Rightarrow> 'r list \<Rightarrow> 'r option" where
  "first_row P t = find P t"

definition all_rows :: "('r \<Rightarrow> bool) \<Rightarrow> 'r list \<Rightarrow> 'r list" where
  "all_rows P t = filter P t"

definition exists_row :: "('r \<Rightarrow> bool) \<Rightarrow> 'r list \<Rightarrow> bool" where
  "exists_row P t = list_ex P t"

definition count_rows :: "('r \<Rightarrow> bool) \<Rightarrow> 'r list \<Rightarrow> nat" where
  "count_rows P t = length (filter P t)"

definition add_row :: "'r \<Rightarrow> 'r list \<Rightarrow> 'r list" where
  "add_row r t = t @ [r]"

definition update_rows :: "('r \<Rightarrow> bool) \<Rightarrow> ('r \<Rightarrow> 'r) \<Rightarrow> 'r list \<Rightarrow> 'r list" where
  "update_rows P f t = map (\<lambda>r. if P r then f r else r) t"

definition delete_rows :: "('r \<Rightarrow> bool) \<Rightarrow> 'r list \<Rightarrow> 'r list" where
  "delete_rows P t = filter (\<lambda>r. \<not> P r) t"

lemma first_row_Nil [simp]: "first_row P [] = None"
  by (simp add: first_row_def)

lemma first_row_Cons [simp]: "first_row P (r # t) = (if P r then Some r else first_row P t)"
  by (simp add: first_row_def)

lemma first_row_SomeD: "first_row P t = Some r \<Longrightarrow> r \<in> set t \<and> P r"
  by (induction t) (auto split: if_splits)

lemma first_row_None: "first_row P t = None \<longleftrightarrow> (\<forall>r\<in>set t. \<not> P r)"
  by (induction t) auto

lemma exists_row_iff [row_simps]: "exists_row P t \<longleftrightarrow> (\<exists>r\<in>set t. P r)"
  by (simp add: exists_row_def list_ex_iff)

lemma set_all_rows [row_simps]: "set (all_rows P t) = {r \<in> set t. P r}"
  by (simp add: all_rows_def)

lemma set_add_row [row_simps]: "set (add_row r t) = insert r (set t)"
  by (simp add: add_row_def)

lemma set_update_rows [row_simps]: "set (update_rows P f t) = (\<lambda>r. if P r then f r else r) ` set t"
  by (simp add: update_rows_def)

lemma set_delete_rows [row_simps]: "set (delete_rows P t) = {r \<in> set t. \<not> P r}"
  by (simp add: delete_rows_def)

lemma first_row_add_row [row_simps]:
  "first_row P (add_row r t) = (case first_row P t of Some x \<Rightarrow> Some x | None \<Rightarrow> if P r then Some r else None)"
  by (induction t) (auto simp: add_row_def)

lemma first_row_delete_disjoint:
  "(\<And>r. r \<in> set t \<Longrightarrow> P r \<Longrightarrow> \<not> Q r) \<Longrightarrow> first_row P (delete_rows Q t) = first_row P t"
  by (induction t) (auto simp: delete_rows_def)

lemma first_row_update_same:
  "(\<And>r. P (f r) = P r) \<Longrightarrow>
    first_row P (update_rows P f t) = map_option f (first_row P t)"
  by (induction t) (auto simp: update_rows_def)

lemma first_row_update_hits:
  "(\<And>r. P r \<Longrightarrow> P (f r)) \<Longrightarrow> first_row P (update_rows P f t) = map_option f (first_row P t)"
  by (induction t) (auto simp: update_rows_def)

lemma first_row_update_disjoint:
  "(\<And>r. r \<in> set t \<Longrightarrow> Q r \<Longrightarrow> \<not> P r \<and> \<not> P (f r)) \<Longrightarrow>
    first_row P (update_rows Q f t) = first_row P t"
  by (induction t) (auto simp: update_rows_def)

lemma update_rows_none: "(\<And>r. r \<in> set t \<Longrightarrow> \<not> P r) \<Longrightarrow> update_rows P f t = t"
  by (induction t) (auto simp: update_rows_def)

lemma delete_rows_none: "(\<And>r. r \<in> set t \<Longrightarrow> \<not> P r) \<Longrightarrow> delete_rows P t = t"
  by (induction t) (auto simp: delete_rows_def)

section \<open>Tables with a primary key\<close>

text \<open>
  What a service may rely on when it reads and writes a table by its primary key. \<open>wf\<close> is the
  uniqueness constraint the database keeps.
\<close>

locale keyed_table =
  fixes key :: "'r \<Rightarrow> 'k"
    and get :: "'k \<Rightarrow> 't \<Rightarrow> 'r option"
    and put :: "'r \<Rightarrow> 't \<Rightarrow> 't"
    and modify :: "'k \<Rightarrow> ('r \<Rightarrow> 'r) \<Rightarrow> 't \<Rightarrow> 't"
    and drop_key :: "'k \<Rightarrow> 't \<Rightarrow> 't"
    and wf :: "'t \<Rightarrow> bool"
  assumes get_key: "get k t = Some r \<Longrightarrow> key r = k"
    and get_put: "get (key r) t = None \<Longrightarrow> get k (put r t) = (if k = key r then Some r else get k t)"
    and get_modify: "(\<And>r. key (f r) = key r) \<Longrightarrow>
      get k (modify k' f t) = (if k = k' then map_option f (get k t) else get k t)"
    and get_drop: "get k (drop_key k' t) = (if k = k' then None else get k t)"
    and wf_put: "wf t \<Longrightarrow> get (key r) t = None \<Longrightarrow> wf (put r t)"
    and wf_modify: "wf t \<Longrightarrow> (\<And>r. key (f r) = key r) \<Longrightarrow> wf (modify k' f t)"
    and wf_drop: "wf t \<Longrightarrow> wf (drop_key k' t)"
begin

text \<open>Insert or overwrite: the form most services use (\<^verbatim>\<open>if row is None: add else: assign\<close>).\<close>

definition upsert :: "'r \<Rightarrow> 't \<Rightarrow> 't" where
  "upsert r t = (case get (key r) t of None \<Rightarrow> put r t | Some r0 \<Rightarrow> modify (key r) (\<lambda>x. if key x = key r then r else x) t)"

lemma get_upsert: "get k (upsert r t) = (if k = key r then Some r else get k t)"
proof (cases "get (key r) t")
  case None
  then show ?thesis by (simp add: upsert_def get_put)
next
  case (Some r0)
  then have "get k (upsert r t) =
      (if k = key r then map_option (\<lambda>x. if key x = key r then r else x) (get k t) else get k t)"
    by (simp add: upsert_def get_modify)
  with Some show ?thesis by (auto dest: get_key)
qed

lemma wf_upsert: "wf t \<Longrightarrow> wf (upsert r t)"
  by (cases "get (key r) t") (auto simp: upsert_def intro: wf_put wf_modify)

lemma upsert_commutes:
  "key r \<noteq> key r' \<Longrightarrow> get k (upsert r (upsert r' t)) = get k (upsert r' (upsert r t))"
  by (auto simp: get_upsert)

end

text \<open>The list of rows provides that interface for any key.\<close>

definition row_by :: "('r \<Rightarrow> 'k) \<Rightarrow> 'k \<Rightarrow> 'r list \<Rightarrow> 'r option" where
  "row_by key k t = first_row (\<lambda>r. key r = k) t"

definition modify_by :: "('r \<Rightarrow> 'k) \<Rightarrow> 'k \<Rightarrow> ('r \<Rightarrow> 'r) \<Rightarrow> 'r list \<Rightarrow> 'r list" where
  "modify_by key k f t = update_rows (\<lambda>r. key r = k) f t"

definition drop_by :: "('r \<Rightarrow> 'k) \<Rightarrow> 'k \<Rightarrow> 'r list \<Rightarrow> 'r list" where
  "drop_by key k t = delete_rows (\<lambda>r. key r = k) t"

definition unique_by :: "('r \<Rightarrow> 'k) \<Rightarrow> 'r list \<Rightarrow> bool" where
  "unique_by key t = distinct (map key t)"

lemma row_by_None: "row_by key k t = None \<longleftrightarrow> k \<notin> key ` set t"
  by (auto simp: row_by_def first_row_None)

lemma row_by_SomeD: "row_by key k t = Some r \<Longrightarrow> r \<in> set t \<and> key r = k"
  unfolding row_by_def by (drule first_row_SomeD) simp

lemma unique_by_row: "unique_by key t \<Longrightarrow> r \<in> set t \<Longrightarrow> row_by key (key r) t = Some r"
  by (induction t) (auto simp: unique_by_def row_by_def image_iff)

lemma unique_by_inj: "unique_by key t \<Longrightarrow> r \<in> set t \<Longrightarrow> r' \<in> set t \<Longrightarrow> key r = key r' \<Longrightarrow> r = r'"
  by (metis option.inject unique_by_row)

lemma map_modify: "(\<And>r. key (f r) = key r) \<Longrightarrow> map key (update_rows P f t) = map key t"
  by (simp add: update_rows_def)

lemma unique_by_add: "unique_by key (add_row r t) \<longleftrightarrow> unique_by key t \<and> key r \<notin> key ` set t"
  by (auto simp: unique_by_def add_row_def)

lemma unique_by_update: "(\<And>r. key (f r) = key r) \<Longrightarrow> unique_by key (update_rows P f t) = unique_by key t"
  by (simp add: unique_by_def map_modify)

lemma unique_by_delete: "unique_by key t \<Longrightarrow> unique_by key (delete_rows P t)"
  by (simp add: unique_by_def delete_rows_def distinct_map_filter)

interpretation rows: keyed_table key "row_by key" add_row "modify_by key" "drop_by key" "unique_by key"
  for key :: "'r \<Rightarrow> 'k"
proof (unfold_locales, goal_cases)
  case (1 k t r)
  then show ?case by (auto dest: row_by_SomeD)
next
  case (2 r t k)
  then show ?case
    by (auto simp: row_by_def first_row_add_row split: option.splits dest: first_row_SomeD)
next
  case (3 f k k' t)
  then show ?case
    by (auto simp: row_by_def modify_by_def intro: first_row_update_same first_row_update_disjoint)
next
  case (4 k k' t)
  then show ?case
    by (auto simp: row_by_def drop_by_def first_row_None row_simps intro: first_row_delete_disjoint)
next
  case (5 t r)
  then show ?case by (simp add: unique_by_add row_by_None)
next
  case (6 t f k')
  then show ?case by (simp add: modify_by_def unique_by_update)
next
  case (7 t k')
  then show ?case by (simp add: drop_by_def unique_by_delete)
qed

definition upsert_by :: "('r \<Rightarrow> 'k) \<Rightarrow> 'r \<Rightarrow> 'r list \<Rightarrow> 'r list" where
  "upsert_by key r t = (if row_by key (key r) t = None then add_row r t
     else modify_by key (key r) (\<lambda>x. if key x = key r then r else x) t)"

lemma row_by_upsert: "row_by key k (upsert_by key r t) = (if k = key r then Some r else row_by key k t)"
proof -
  have "upsert_by key r t = rows.upsert TYPE('b) key r t"
    by (simp add: upsert_by_def rows.upsert_def split: option.splits)
  then show ?thesis by (simp add: rows.get_upsert)
qed

lemma unique_by_upsert: "unique_by key t \<Longrightarrow> unique_by key (upsert_by key r t)"
  by (auto simp: upsert_by_def unique_by_add row_by_None modify_by_def unique_by_update)

section \<open>Lists\<close>

text \<open>\<^verbatim>\<open>list(dict.fromkeys(xs))\<close>: each element once, at its first position.\<close>

definition fromkeys :: "'a list \<Rightarrow> 'a list" where
  "fromkeys xs = rev (remdups (rev xs))"

lemma set_fromkeys [simp]: "set (fromkeys xs) = set xs"
  by (simp add: fromkeys_def)

lemma distinct_fromkeys [simp]: "distinct (fromkeys xs)"
  by (simp add: fromkeys_def)

lemma fromkeys_distinct_id: "distinct xs \<Longrightarrow> fromkeys xs = xs"
  by (simp add: fromkeys_def distinct_remdups_id)

text \<open>\<^verbatim>\<open>sorted(set(xs))\<close>.\<close>

definition sorted_set :: "'a::linorder list \<Rightarrow> 'a list" where
  "sorted_set xs = sort (remdups xs)"

lemma set_sorted_set [simp]: "set (sorted_set xs) = set xs"
  by (simp add: sorted_set_def)

lemma sorted_sorted_set [simp]: "sorted (sorted_set xs)"
  by (simp add: sorted_set_def)

lemma distinct_sorted_set [simp]: "distinct (sorted_set xs)"
  by (simp add: sorted_set_def)

lemma sorted_set_cong: "set xs = set ys \<Longrightarrow> sorted_set xs = sorted_set ys"
  by (rule sorted_distinct_set_unique) simp_all

end
