(* ===== verification/Levels.thy ===== *)
theory Levels
  imports Complex_Main Prelude
begin

text \<open>
  The XP curve of \<^verbatim>\<open>api/services/xp.py\<close>. Levels are \<^verbatim>\<open>int(sqrt(xp // 20))\<close>, so the model
  computes Python's floating-point square root: the argument as a binary64 value (53 significant
  bits, ties to even), its correctly rounded square root, truncated. \<open>level_curve\<close> is what the
  readers of XP rely on; the code's curve provides it below \<open>20 * 2 ^ 52\<close> XP.
\<close>

section \<open>Python's integer square root through binary64\<close>

text \<open>The exact integer square root, by quartering.\<close>

fun isqrt :: "nat \<Rightarrow> nat" where
  "isqrt n = (if n = 0 then 0
     else let r = 2 * isqrt (n div 4) in if (r + 1) * (r + 1) \<le> n then r + 1 else r)"

declare isqrt.simps [simp del]

lemma isqrt_bounds: "isqrt n * isqrt n \<le> n \<and> n < (isqrt n + 1) * (isqrt n + 1)"
proof (induction n rule: isqrt.induct)
  case (1 n)
  show ?case
  proof (cases "n = 0")
    case True
    then show ?thesis by (simp add: isqrt.simps)
  next
    case False
    define q where "q = isqrt (n div 4)"
    from 1 False have IH: "q * q \<le> n div 4" "n div 4 < (q + 1) * (q + 1)"
      by (auto simp: q_def)
    have "4 * (n div 4) \<le> n" by simp
    with IH(1) have lo: "(2 * q) * (2 * q) \<le> n" by linarith
    have "n < 4 * (n div 4) + 4" by presburger
    moreover have "n div 4 + 1 \<le> (q + 1) * (q + 1)" using IH(2) by simp
    ultimately have hi: "n < (2 * q + 1 + 1) * (2 * q + 1 + 1)" by (simp add: algebra_simps)
    from False have "isqrt n = (if (2 * q + 1) * (2 * q + 1) \<le> n then 2 * q + 1 else 2 * q)"
      by (simp add: isqrt.simps [of n] q_def Let_def)
    with lo hi show ?thesis by (auto simp: not_le)
  qed
qed

lemma isqrt_unique: "k * k \<le> n \<Longrightarrow> n < (k + 1) * (k + 1) \<Longrightarrow> isqrt n = k"
proof -
  assume k: "k * k \<le> n" "n < (k + 1) * (k + 1)"
  have "isqrt n < k + 1"
    using isqrt_bounds [of n] k(2) by (metis le_less_trans mult_le_mono not_le)
  moreover have "k < isqrt n + 1"
    using isqrt_bounds [of n] k(1) by (metis le_less_trans mult_le_mono not_le)
  ultimately show ?thesis by simp
qed

lemma isqrt_mono: "m \<le> n \<Longrightarrow> isqrt m \<le> isqrt n"
proof (rule ccontr)
  assume "m \<le> n" "\<not> isqrt m \<le> isqrt n"
  then have "(isqrt n + 1) * (isqrt n + 1) \<le> isqrt m * isqrt m"
    by (intro mult_le_mono) auto
  with \<open>m \<le> n\<close> isqrt_bounds [of m] isqrt_bounds [of n] show False by linarith
qed

text \<open>The number of binary digits.\<close>

fun bit_length :: "nat \<Rightarrow> nat" where
  "bit_length n = (if n = 0 then 0 else Suc (bit_length (n div 2)))"

declare bit_length.simps [simp del]

lemma bit_length_upper: "n < 2 ^ bit_length n"
proof (induction n rule: bit_length.induct)
  case (1 n)
  show ?case
  proof (cases "n = 0")
    case False
    with 1 have "n div 2 < 2 ^ bit_length (n div 2)" by simp
    with False show ?thesis by (subst bit_length.simps) auto
  qed (simp add: bit_length.simps)
qed

lemma bit_length_lower: "0 < n \<Longrightarrow> 2 ^ (bit_length n - 1) \<le> n"
proof (induction n rule: bit_length.induct)
  case (1 n)
  show ?case
  proof (cases "n div 2 = 0")
    case True
    with "1.prems" have "n = 1" by auto
    then show ?thesis by (simp add: bit_length.simps)
  next
    case False
    with 1 have ih: "2 ^ (bit_length (n div 2) - 1) \<le> n div 2" by auto
    from False have "0 < bit_length (n div 2)" by (subst bit_length.simps) simp
    then have "(2::nat) ^ bit_length (n div 2) = 2 * 2 ^ (bit_length (n div 2) - 1)"
      by (cases "bit_length (n div 2)") auto
    with ih have "2 ^ bit_length (n div 2) \<le> n" by linarith
    with "1.prems" show ?thesis by (subst bit_length.simps) simp
  qed
qed

lemma bit_length_le: "n < 2 ^ k \<Longrightarrow> bit_length n \<le> k"
proof (rule ccontr)
  assume a: "n < 2 ^ k" "\<not> bit_length n \<le> k"
  then have "0 < n" by (cases n) (auto simp: bit_length.simps)
  then have "2 ^ (bit_length n - 1) \<le> n" by (rule bit_length_lower)
  moreover from a have "(2::nat) ^ k \<le> 2 ^ (bit_length n - 1)" by (intro power_increasing) auto
  ultimately show False using a(1) by linarith
qed

text \<open>
  \<^verbatim>\<open>float(n)\<close> for \<open>0 \<le> n\<close>: below \<open>2 ^ 53\<close> exact; above, the nearest multiple of
  \<open>2 ^ (bit_length n - 53)\<close>, a tie to the even one.
\<close>

definition float_of_nat :: "nat \<Rightarrow> nat" where
  "float_of_nat n = (let e = bit_length n - 53; q = n div 2 ^ e; r = n mod 2 ^ e
     in if e = 0 then n
        else if 2 * r < 2 ^ e \<or> (2 * r = 2 ^ e \<and> even q) then q * 2 ^ e else (q + 1) * 2 ^ e)"

text \<open>
  \<^verbatim>\<open>int(math.sqrt(x))\<close> for a nonnegative integral \<open>x\<close>. The root lies in
  \<open>[2 ^ e, 2 ^ (e + 1))\<close>, so binary64 keeps multiples of \<open>2 ^ (e - 52)\<close>. Counted in that unit the
  root is \<open>sqrt N\<close> with \<open>N = x * 4 ^ (52 - e)\<close>; \<open>m\<close> is its floor and it is rounded up when it exceeds
  \<open>m + 1/2\<close>, that is when \<open>N > m * m + m\<close> (a tie is impossible). Roots below \<open>2 ^ 53\<close> suffice: XP is
  a 64-bit column.
\<close>

definition int_sqrt_float :: "nat \<Rightarrow> nat" where
  "int_sqrt_float n = (let x = float_of_nat n; s = 52 - (bit_length (isqrt x) - 1);
       N = x * 4 ^ s; m = isqrt N
     in (if m * m + m < N then m + 1 else m) div 2 ^ s)"

lemma float_of_nat_exact: "n < 2 ^ 53 \<Longrightarrow> float_of_nat n = n"
  by (simp add: float_of_nat_def bit_length_le Let_def)

text \<open>Below \<open>2 ^ 52\<close> the rounding never reaches the next integer.\<close>

lemma int_sqrt_float_exact:
  assumes n: "n < 2 ^ 52"
  shows "int_sqrt_float n = isqrt n"
proof (cases "n = 0")
  case True
  then show ?thesis
    by (simp add: int_sqrt_float_def float_of_nat_exact isqrt.simps [of 0] Let_def)
next
  case False
  define k where "k = isqrt n"
  define s where "s = 52 - (bit_length k - 1)"
  define N where "N = n * 4 ^ s"
  define m where "m = isqrt N"
  have k: "k * k \<le> n" "n < (k + 1) * (k + 1)" using isqrt_bounds [of n] by (auto simp: k_def)
  have "0 < k" using k False by (cases k) auto
  have "k < 2 ^ 26"
  proof (rule ccontr)
    assume "\<not> k < 2 ^ 26"
    then have "(2 ^ 26) * (2 ^ 26) \<le> k * k" by (intro mult_le_mono) auto
    with k(1) n show False by simp
  qed
  then have bl: "bit_length k \<le> 26" by (rule bit_length_le)
  have two_s: "k + 1 \<le> 2 ^ s"
  proof -
    have "k + 1 \<le> 2 ^ bit_length k" using bit_length_upper [of k] by simp
    also have "\<dots> \<le> 2 ^ s" using bl by (intro power_increasing) (auto simp: s_def)
    finally show ?thesis .
  qed
  have four: "(4::nat) ^ s = 2 ^ s * 2 ^ s" by (simp add: power_mult_distrib [symmetric])
  have m: "m * m \<le> N" "N < (m + 1) * (m + 1)" using isqrt_bounds [of N] by (auto simp: m_def)
  define K where "K = (k + 1) * 2 ^ s"
  have NK: "N + 4 ^ s \<le> K * K"
  proof -
    have "(n + 1) * (2 ^ s * 2 ^ s) \<le> (k + 1) * (k + 1) * (2 ^ s * 2 ^ s)"
      using k(2) by (intro mult_le_mono1) simp
    then show ?thesis by (simp add: N_def K_def four algebra_simps)
  qed
  have lo: "k * 2 ^ s \<le> m"
  proof (rule ccontr)
    assume "\<not> k * 2 ^ s \<le> m"
    then have "(m + 1) * (m + 1) \<le> (k * 2 ^ s) * (k * 2 ^ s)" by (intro mult_le_mono) auto
    also have "\<dots> = k * k * 4 ^ s" by (simp add: four algebra_simps)
    also have "\<dots> \<le> N" using k(1) by (simp add: N_def)
    finally show False using m(2) by simp
  qed
  have up: "m * m + m < N \<Longrightarrow> m + 1 < K"
  proof (rule ccontr)
    assume r: "m * m + m < N" and "\<not> m + 1 < K"
    then have "K \<le> m + 1" by simp
    have "K * (K - 1) \<le> (m + 1) * m" using \<open>K \<le> m + 1\<close> by (intro mult_le_mono) auto
    then have "K * (K - 1) < N" using r by (simp add: algebra_simps)
    moreover have "K * (K - 1) + K = K * K" using \<open>0 < k\<close> by (cases K) (auto simp: K_def)
    ultimately have "4 ^ s < K" using NK by linarith
    then have "2 ^ s * 2 ^ s < (k + 1) * 2 ^ s" by (simp add: K_def four)
    then show False using two_s by (metis mult_le_mono1 not_le)
  qed
  have "m < K"
  proof (rule ccontr)
    assume "\<not> m < K"
    then have "K * K \<le> m * m" by (intro mult_le_mono) auto
    moreover have "0 < (4::nat) ^ s" by simp
    ultimately show False using NK m(1) by linarith
  qed
  with up have "(if m * m + m < N then m + 1 else m) < (k + 1) * 2 ^ s"
    by (simp add: K_def)
  moreover from lo have "k * 2 ^ s \<le> (if m * m + m < N then m + 1 else m)" by simp
  ultimately have "(if m * m + m < N then m + 1 else m) div 2 ^ s = k"
    by (intro div_nat_eqI) (auto simp: algebra_simps)
  moreover have "float_of_nat n = n" using n by (intro float_of_nat_exact) simp
  then have "int_sqrt_float n = (if m * m + m < N then m + 1 else m) div 2 ^ s"
    by (simp only: int_sqrt_float_def Let_def k_def [symmetric] s_def [symmetric] N_def [symmetric]
        m_def [symmetric])
  ultimately show ?thesis by (simp add: k_def)
qed

section \<open>Levels and progress\<close>

text \<open>\<^verbatim>\<open>math.sqrt\<close> of a negative number raises \<^verbatim>\<open>ValueError\<close>; \<^verbatim>\<open>//\<close> rounds down.\<close>

definition calc_level :: "int \<Rightarrow> int result" where
  "calc_level xp = (let q = xp div 20
     in if q < 0 then Inl (Crash ''math domain error'') else Inr (int (int_sqrt_float (nat q))))"

definition calc_global_level :: "int \<Rightarrow> int result" where
  "calc_global_level xp = calc_level xp"

definition calc_global_xp_needed :: "int \<Rightarrow> int" where
  "calc_global_xp_needed level = level ^ 2 * 20"

definition calc_root_skill_level :: "int \<Rightarrow> int result" where
  "calc_root_skill_level xp = calc_level xp"

definition calc_root_skill_xp_needed :: "int \<Rightarrow> int" where
  "calc_root_skill_xp_needed level = level ^ 2 * 20"

definition calc_sub_skill_level :: "int \<Rightarrow> int result" where
  "calc_sub_skill_level xp = calc_level xp"

definition calc_sub_skill_xp_needed :: "int \<Rightarrow> int" where
  "calc_sub_skill_xp_needed level = level ^ 2 * 20"

text \<open>
  The quotient is kept exact (the code rounds it to binary64, which is monotone, so bounds by 0 and
  1 carry over). The division by zero of \<open>upper = lower\<close> is an exception in Python.
\<close>

definition calc_progress :: "int \<Rightarrow> int \<Rightarrow> (int \<Rightarrow> int) \<Rightarrow> rat result" where
  "calc_progress xp level level_to_xp = (let lower = level_to_xp level; upper = level_to_xp (level + 1)
     in if upper - lower = 0 then Inl (Crash ''division by zero'')
        else Inr (of_int (xp - lower) / of_int (upper - lower)))"

section \<open>What readers of XP rely on\<close>

locale level_curve =
  fixes level :: "int \<Rightarrow> int result" and needed :: "int \<Rightarrow> int" and cap :: int
  assumes level_brackets: "0 \<le> xp \<Longrightarrow> xp < cap \<Longrightarrow>
      \<exists>l\<ge>0. level xp = Inr l \<and> needed l \<le> xp \<and> xp < needed (l + 1)"
    and needed_strict: "0 \<le> l \<Longrightarrow> l < l' \<Longrightarrow> needed l < needed l'"
begin

lemma level_returns: "0 \<le> xp \<Longrightarrow> xp < cap \<Longrightarrow> \<exists>l\<ge>0. level xp = Inr l"
  using level_brackets by blast

lemma level_monotone:
  assumes "0 \<le> xp" "xp \<le> xp'" "xp' < cap" "level xp = Inr l" "level xp' = Inr l'"
  shows "l \<le> l'"
proof (rule ccontr)
  assume less: "\<not> l \<le> l'"
  have l: "needed l \<le> xp" using level_brackets [of xp] assms by auto
  have l': "0 \<le> l'" "xp' < needed (l' + 1)" using level_brackets [of xp'] assms by auto
  have "needed (l' + 1) \<le> needed l"
    using needed_strict [of "l' + 1" l] l' less by (cases "l' + 1 = l") auto
  with l l' assms(2) show False by linarith
qed

lemma level_reached:
  assumes "0 \<le> xp" "xp < cap" "0 \<le> k" "level xp = Inr l"
  shows "k \<le> l \<longleftrightarrow> needed k \<le> xp"
proof -
  from level_brackets [of xp] assms have l: "0 \<le> l" "needed l \<le> xp" "xp < needed (l + 1)"
    by auto
  show ?thesis
  proof
    assume "k \<le> l"
    then have "needed k \<le> needed l" using needed_strict [of k l] assms(3) by (cases "k = l") auto
    with l show "needed k \<le> xp" by simp
  next
    assume "needed k \<le> xp"
    show "k \<le> l"
    proof (rule ccontr)
      assume "\<not> k \<le> l"
      then have "needed (l + 1) \<le> needed k"
        using needed_strict [of "l + 1" k] l(1) by (cases "k = l + 1") auto
      with l \<open>needed k \<le> xp\<close> show False by simp
    qed
  qed
qed

lemma progress_within:
  assumes "0 \<le> xp" "xp < cap" "level xp = Inr l"
  shows "\<exists>p. calc_progress xp l needed = Inr p \<and> 0 \<le> p \<and> p < 1"
proof -
  from level_brackets [of xp] assms have l: "0 \<le> l" "needed l \<le> xp" "xp < needed (l + 1)"
    by auto
  then have d: "(0::rat) < of_int (needed (l + 1) - needed l)" by simp
  have "(of_int (xp - needed l) :: rat) < of_int (needed (l + 1) - needed l)" using l by simp
  then show ?thesis using l d
    by (auto simp: calc_progress_def Let_def divide_less_eq simp del: of_int_diff)
qed

end

definition xp_cap :: int where
  "xp_cap = 20 * 2 ^ 52"

lemma calc_level_brackets:
  assumes "0 \<le> xp" "xp < xp_cap"
  shows "\<exists>l\<ge>0. calc_level xp = Inr l \<and> l ^ 2 * 20 \<le> xp \<and> xp < (l + 1) ^ 2 * 20"
proof -
  define n where "n = nat (xp div 20)"
  define k where "k = isqrt n"
  have n: "int n = xp div 20" using assms(1) by (simp add: n_def)
  have "xp div 20 < 2 ^ 52" using assms(2) by (simp add: xp_cap_def)
  then have "int n < int (2 ^ 52)" using n by simp
  then have "n < 2 ^ 52" by (simp only: of_nat_less_iff)
  then have lv: "calc_level xp = Inr (int k)"
    using assms(1) by (auto simp: calc_level_def Let_def n_def k_def int_sqrt_float_exact)
  have k: "k * k \<le> n" "n < (k + 1) * (k + 1)" using isqrt_bounds [of n] by (auto simp: k_def)
  have "int (k * k) \<le> int n" "int n < int ((k + 1) * (k + 1))" using k by (simp_all only: of_nat_le_iff of_nat_less_iff)
  with n have ik: "int k * int k \<le> xp div 20" "xp div 20 < (int k + 1) * (int k + 1)"
    by (simp_all add: algebra_simps)
  have "20 * (xp div 20) \<le> xp" "xp < 20 * (xp div 20) + 20" by presburger+
  with ik have "int k ^ 2 * 20 \<le> xp" "xp < (int k + 1) ^ 2 * 20"
    by (auto simp: power2_eq_square)
  with lv show ?thesis by (intro exI [of _ "int k"]) simp
qed

lemma square_strict: "0 \<le> l \<Longrightarrow> l < l' \<Longrightarrow> l ^ 2 < (l' ^ 2 :: int)"
  by (rule power_strict_mono) auto

interpretation sub_curve: level_curve calc_sub_skill_level calc_sub_skill_xp_needed xp_cap
  by unfold_locales
    (simp_all add: calc_sub_skill_level_def calc_sub_skill_xp_needed_def calc_level_brackets square_strict)

interpretation root_curve: level_curve calc_root_skill_level calc_root_skill_xp_needed xp_cap
  by unfold_locales
    (simp_all add: calc_root_skill_level_def calc_root_skill_xp_needed_def calc_level_brackets square_strict)

interpretation global_curve: level_curve calc_global_level calc_global_xp_needed xp_cap
  by unfold_locales
    (simp_all add: calc_global_level_def calc_global_xp_needed_def calc_level_brackets square_strict)

lemma calc_level_negative: "xp < 0 \<Longrightarrow> calc_level xp = Inl (Crash ''math domain error'')"
  by (simp add: calc_level_def Let_def)

section \<open>The levels the service shows\<close>

text \<open>
  C28: reading a sub-skill's XP never fails below \<open>20 * 2 ^ 52\<close>: the level exists, is the largest level whose
  XP threshold is reached (exactly, in spite of the binary64 square root), and the progress within the level is
  at least 0 and below 1.
\<close>

theorem sub_skill_level_exact:
  assumes "0 \<le> xp" "xp < xp_cap"
  shows "\<exists>l p. calc_sub_skill_level xp = Inr l \<and> (\<forall>k\<ge>0. k \<le> l \<longleftrightarrow> calc_sub_skill_xp_needed k \<le> xp)
    \<and> calc_progress xp l calc_sub_skill_xp_needed = Inr p \<and> 0 \<le> p \<and> p < 1"
proof -
  obtain l where l: "calc_sub_skill_level xp = Inr l" using sub_curve.level_returns [OF assms] by auto
  moreover have "\<forall>k\<ge>0. k \<le> l \<longleftrightarrow> calc_sub_skill_xp_needed k \<le> xp"
    using sub_curve.level_reached [OF assms _ l] by blast
  ultimately show ?thesis using sub_curve.progress_within [OF assms l] by blast
qed

lemma sub_skill_level_exact_witness:
  "\<exists>l p. calc_sub_skill_level 179 = Inr l \<and> (\<forall>k\<ge>0. k \<le> l \<longleftrightarrow> calc_sub_skill_xp_needed k \<le> 179)
    \<and> calc_progress 179 l calc_sub_skill_xp_needed = Inr p \<and> 0 \<le> p \<and> p < 1"
  by (rule sub_skill_level_exact) (simp_all add: xp_cap_def)

lemma bit_length_unique:
  assumes "2 ^ k \<le> n" "n < 2 ^ (k + 1)"
  shows "bit_length n = k + 1"
proof (rule antisym)
  show "bit_length n \<le> k + 1" using assms(2) by (rule bit_length_le)
  show "k + 1 \<le> bit_length n"
  proof (rule ccontr)
    assume "\<not> k + 1 \<le> bit_length n"
    then have "(2::nat) ^ bit_length n \<le> 2 ^ k" by (intro power_increasing) auto
    with bit_length_upper [of n] assms(1) show False by linarith
  qed
qed

lemma int_sqrt_float_rounds_up: "int_sqrt_float (2 ^ 54 + 2 ^ 28) = 2 ^ 27 + 1"
proof -
  have "bit_length (2 ^ 54 + 2 ^ 28) = 54 + 1" by (rule bit_length_unique) simp_all
  then have float: "float_of_nat (2 ^ 54 + 2 ^ 28) = 2 ^ 54 + 2 ^ 28" by (simp add: float_of_nat_def Let_def)
  have root: "isqrt (2 ^ 54 + 2 ^ 28) = 2 ^ 27" by (rule isqrt_unique) simp_all
  have bits: "bit_length (2 ^ 27) = 27 + 1" by (rule bit_length_unique) simp_all
  have root': "isqrt ((2 ^ 54 + 2 ^ 28) * 4 ^ 25) = (2 ^ 27 + 1) * 2 ^ 25 - 1"
    by (rule isqrt_unique) simp_all
  show ?thesis
    unfolding int_sqrt_float_def Let_def float root bits
    using root' by simp
qed

text \<open>
  A negative XP counter makes every level read fail, and above the bound the rounding of the binary64
  square root may report one level too many: \<open>2 ^ 27 + 1\<close> with a counter below the threshold of that level.
\<close>

theorem level_reads_outside_the_bound:
  "calc_global_level (- 1) = Inl (Crash ''math domain error'') \<and>
   calc_global_level (calc_global_xp_needed (2 ^ 27 + 1) - 20) = Inr (2 ^ 27 + 1)"
proof -
  have "(calc_global_xp_needed (2 ^ 27 + 1) - 20) div 20 = int (2 ^ 54 + 2 ^ 28)"
    by (simp add: calc_global_xp_needed_def)
  then have "calc_global_level (calc_global_xp_needed (2 ^ 27 + 1) - 20) = Inr (int (int_sqrt_float (2 ^ 54 + 2 ^ 28)))"
    by (simp only: calc_global_level_def calc_level_def Let_def nat_int) simp
  then show ?thesis
    by (simp only: int_sqrt_float_rounds_up) (simp add: calc_global_level_def calc_level_negative)
qed

end
