(* ===== verification/Json.thy ===== *)
theory Json
  imports Prelude "HOL-Library.Multiset"
begin

text \<open>
  JSON values and \<^verbatim>\<open>api/utils/canonical.py\<close>: the canonical text over which the lesson engine hashes
  documents, plans and XP operations. A text is the list of its Unicode code points, an object the list
  of its entries (a Python dict: keys are distinct, \<open>wf_json\<close>), a float its binary64 pattern. The
  main result: two values have the same canonical bytes exactly when they are equal up to the order of
  object keys (\<open>norm_json\<close>), so comparing hashes of canonical bytes compares values.
\<close>

type_synonym ustr = "nat list"

definition ustr :: "string \<Rightarrow> ustr" where
  "ustr s = map of_char s"

datatype json =
    JNull
  | JBool bool
  | JInt int
  | JFloat nat
  | JStr ustr
  | JArr "json list"
  | JObj "(ustr \<times> json) list"

fun wf_json :: "json \<Rightarrow> bool" where
  "wf_json (JArr vs) = (\<forall>v\<in>set vs. wf_json v)"
| "wf_json (JObj es) = (distinct (map fst es) \<and> (\<forall>e\<in>set es. wf_json (snd e)))"
| "wf_json v = True"

section \<open>The writer\<close>

definition SAFE_INTEGER :: int where
  "SAFE_INTEGER = 2 ^ 53 - 1"

text \<open>The code points of the punctuation: quote, comma, minus, colon, brackets, backslash, braces.\<close>

abbreviation (input) QUOTE :: nat where "QUOTE \<equiv> 34"
abbreviation (input) COMMA :: nat where "COMMA \<equiv> 44"
abbreviation (input) MINUS :: nat where "MINUS \<equiv> 45"
abbreviation (input) COLON :: nat where "COLON \<equiv> 58"
abbreviation (input) LBRACK :: nat where "LBRACK \<equiv> 91"
abbreviation (input) BACKSLASH :: nat where "BACKSLASH \<equiv> 92"
abbreviation (input) RBRACK :: nat where "RBRACK \<equiv> 93"
abbreviation (input) LBRACE :: nat where "LBRACE \<equiv> 123"
abbreviation (input) RBRACE :: nat where "RBRACE \<equiv> 125"

definition hex_digit :: "nat \<Rightarrow> nat" where
  "hex_digit d = (if d < 10 then 48 + d else 87 + d)"

text \<open>One character of a string: \<open>\u00xx\<close> for control characters, \<open>Inl\<close> for a lone surrogate.\<close>

definition text_char :: "nat \<Rightarrow> ustr result" where
  "text_char code =
    (if code = QUOTE then Inr [BACKSLASH, QUOTE]
     else if code = BACKSLASH then Inr [BACKSLASH, BACKSLASH]
     else if code < 32 then Inr [BACKSLASH, 117, 48, 48, hex_digit (code div 16), hex_digit (code mod 16)]
     else if 55296 \<le> code \<and> code \<le> 57343 then Inl (Crash ''lone surrogate in a string'')
     else Inr [code])"

definition text_json :: "ustr \<Rightarrow> ustr result" where
  "text_json value = bind_r (map_r text_char value) (\<lambda>cs. Inr ([QUOTE] @ concat cs @ [QUOTE]))"

text \<open>\<^verbatim>\<open>str(n)\<close>.\<close>

fun decimal :: "nat \<Rightarrow> ustr" where
  "decimal n = (if n < 10 then [48 + n] else decimal (n div 10) @ [48 + n mod 10])"

declare decimal.simps [simp del]

definition int_text :: "int \<Rightarrow> ustr" where
  "int_text i = (if i < 0 then MINUS # decimal (nat (- i)) else decimal (nat i))"

fun join :: "'a list \<Rightarrow> 'a list list \<Rightarrow> 'a list" where
  "join sep [] = []"
| "join sep [x] = x"
| "join sep (x # y # xs) = x @ sep @ join sep (y # xs)"

definition sort_entries :: "(ustr \<times> 'v) list \<Rightarrow> (ustr \<times> 'v) list" where
  "sort_entries es = sort_key fst es"

lemma set_sort_entries [simp]: "set (sort_entries es) = set es"
  by (simp add: sort_entries_def)

text \<open>\<open>_write\<close>: the parts are written in order, an object's entries in the order of their keys.\<close>

lemma size_json_elem [termination_simp]: "v \<in> set vs \<Longrightarrow> size v < Suc (size_list size vs)"
  by (simp add: size_list_estimation' less_Suc_eq_le)

lemma size_json_entry [termination_simp]:
  "e \<in> set es \<Longrightarrow> size (snd e) < Suc (size_list (\<lambda>x. Suc (size (snd x))) es)"
  by (induction es) auto

lemma size_json_pair [termination_simp]:
  "(k, v) \<in> set es \<Longrightarrow> size v < Suc (size_list (\<lambda>x. Suc (size (snd x))) es)"
  by (induction es) auto

fun write_json :: "json \<Rightarrow> ustr result" where
  "write_json JNull = Inr (ustr ''null'')"
| "write_json (JBool b) = Inr (if b then ustr ''true'' else ustr ''false'')"
| "write_json (JInt i) = (if - SAFE_INTEGER \<le> i \<and> i \<le> SAFE_INTEGER then Inr (int_text i)
     else Inl (Crash ''no safe integer''))"
| "write_json (JStr s) = text_json s"
| "write_json (JArr vs) = bind_r (map_r write_json vs) (\<lambda>ts. Inr ([LBRACK] @ join [COMMA] ts @ [RBRACK]))"
| "write_json (JObj es) = bind_r
     (map_r (\<lambda>e. bind_r (text_json (fst e)) (\<lambda>k. bind_r (write_json (snd e)) (\<lambda>t. Inr (k @ [COLON] @ t))))
       (sort_entries es))
     (\<lambda>ts. Inr ([LBRACE] @ join [COMMA] ts @ [RBRACE]))"
| "write_json (JFloat f) = Inl (Crash ''float has no canonical form'')"

text \<open>UTF-8 of a text without surrogates.\<close>

definition utf8_char :: "nat \<Rightarrow> nat list" where
  "utf8_char c =
    (if c < 128 then [c]
     else if c < 2048 then [192 + c div 64, 128 + c mod 64]
     else if c < 65536 then [224 + c div 4096, 128 + c div 64 mod 64, 128 + c mod 64]
     else [240 + c div 262144, 128 + c div 4096 mod 64, 128 + c div 64 mod 64, 128 + c mod 64])"

definition utf8 :: "ustr \<Rightarrow> nat list" where
  "utf8 s = concat (map utf8_char s)"

definition canonical :: "json \<Rightarrow> nat list result" where
  "canonical value = bind_r (write_json value) (\<lambda>t. Inr (utf8 t))"

text \<open>\<^verbatim>\<open>digest\<close>: SHA-256 of the canonical bytes; the hash function is a parameter.\<close>

definition digest :: "(nat list \<Rightarrow> 'h) \<Rightarrow> json \<Rightarrow> 'h result" where
  "digest sha256 value = bind_r (canonical value) (\<lambda>b. Inr (sha256 b))"

section \<open>Unique readability\<close>

text \<open>What may follow a written value: nothing, or a character that is no digit.\<close>

definition delim :: "ustr \<Rightarrow> bool" where
  "delim r = (case r of [] \<Rightarrow> True | c # _ \<Rightarrow> c < 48 \<or> 57 < c)"

lemma delim_Cons [simp]: "delim (c # r) \<longleftrightarrow> c < 48 \<or> 57 < c"
  by (simp add: delim_def)

lemma div_mod_unique:
  fixes a b d :: nat
  assumes "a div d = b div d" "a mod d = b mod d"
  shows "a = b"
proof -
  have "a = a div d * d + a mod d" by (rule div_mult_mod_eq [symmetric])
  also have "\<dots> = b div d * d + b mod d" by (simp only: assms)
  also have "\<dots> = b" by (rule div_mult_mod_eq)
  finally show ?thesis .
qed

lemma hex_digit_inj: "a < 16 \<Longrightarrow> b < 16 \<Longrightarrow> hex_digit a = hex_digit b \<Longrightarrow> a = b"
  by (auto simp: hex_digit_def split: if_splits)

lemma text_char_cases:
  assumes "text_char a = Inr ca"
  obtains (quote) "a = QUOTE" "ca = [BACKSLASH, QUOTE]"
  | (backslash) "a = BACKSLASH" "ca = [BACKSLASH, BACKSLASH]"
  | (control) "a < 32" "ca = [BACKSLASH, 117, 48, 48, hex_digit (a div 16), hex_digit (a mod 16)]"
  | (plain) "a \<noteq> QUOTE" "a \<noteq> BACKSLASH" "ca = [a]"
proof -
  consider "a = QUOTE" | "a = BACKSLASH" | "a < 32" | "a \<noteq> QUOTE" "a \<noteq> BACKSLASH" "\<not> a < 32" by blast
  then show thesis
  proof cases
    case 1 with assms show ?thesis by (intro quote) (auto simp: text_char_def)
  next
    case 2 with assms show ?thesis by (intro backslash) (auto simp: text_char_def)
  next
    case 3 with assms show ?thesis by (intro control) (auto simp: text_char_def)
  next
    case 4 with assms show ?thesis by (intro plain) (auto simp: text_char_def split: if_splits)
  qed
qed

lemma control_unique:
  assumes "a < 32" "b < 32" "hex_digit (a div 16) = hex_digit (b div 16)"
    "hex_digit (a mod 16) = hex_digit (b mod 16)"
  shows "a = b"
proof -
  have "a div 16 = b div 16" by (rule hex_digit_inj) (use assms in auto)
  moreover have "a mod 16 = b mod 16" by (rule hex_digit_inj) (use assms in auto)
  ultimately show ?thesis by (rule div_mod_unique)
qed

lemma text_char_unique:
  assumes "text_char a = Inr ca" "text_char b = Inr cb" "ca @ r = cb @ s"
  shows "a = b \<and> r = s"
  using assms(1)
proof (cases rule: text_char_cases)
  case quote
  show ?thesis using assms(2) by (cases rule: text_char_cases) (use quote assms(3) in simp_all)
next
  case backslash
  show ?thesis using assms(2) by (cases rule: text_char_cases) (use backslash assms(3) in simp_all)
next
  case control
  show ?thesis using assms(2)
  proof (cases rule: text_char_cases)
    case c: control
    then have "r = s" "hex_digit (a div 16) = hex_digit (b div 16)" "hex_digit (a mod 16) = hex_digit (b mod 16)"
      using control(2) assms(3) by simp_all
    with c(1) control(1) show ?thesis by (simp add: control_unique)
  qed (use control assms(3) in simp_all)
next
  case plain
  show ?thesis using assms(2) by (cases rule: text_char_cases) (use plain assms(3) in simp_all)
qed

lemma text_char_block: "text_char a = Inr ca \<Longrightarrow> \<exists>c cs. ca = c # cs \<and> c \<noteq> QUOTE"
  by (erule text_char_cases) simp_all

lemma text_chars_unique:
  "list_all2 (\<lambda>x c. text_char x = Inr c) xs cs \<Longrightarrow> list_all2 (\<lambda>x c. text_char x = Inr c) ys ds \<Longrightarrow>
    concat cs @ QUOTE # r = concat ds @ QUOTE # s \<Longrightarrow> xs = ys \<and> r = s"
proof (induction xs arbitrary: cs ys ds)
  case Nil
  then show ?case by (cases ys) (auto simp: list_all2_Cons1 dest!: text_char_block)
next
  case (Cons x xs)
  then obtain c cs' where cs: "cs = c # cs'" "text_char x = Inr c"
    "list_all2 (\<lambda>x c. text_char x = Inr c) xs cs'" by (auto simp: list_all2_Cons1)
  show ?case
  proof (cases ys)
    case Nil
    with Cons.prems cs show ?thesis by (auto dest!: text_char_block)
  next
    case (Cons y ys')
    with Cons.prems obtain d ds' where ds: "ds = d # ds'" "text_char y = Inr d"
      "list_all2 (\<lambda>x c. text_char x = Inr c) ys' ds'" by (auto simp: list_all2_Cons1)
    from Cons.prems(3) cs ds have "c @ (concat cs' @ QUOTE # r) = d @ (concat ds' @ QUOTE # s)" by simp
    with cs ds have "x = y" "concat cs' @ QUOTE # r = concat ds' @ QUOTE # s"
      by (auto dest: text_char_unique)
    with Cons.IH [OF cs(3) ds(3)] Cons show ?thesis by simp
  qed
qed

lemma text_json_InrD:
  "text_json x = Inr t \<Longrightarrow> \<exists>cs. list_all2 (\<lambda>x c. text_char x = Inr c) x cs \<and> t = QUOTE # concat cs @ [QUOTE]"
  by (auto simp: text_json_def result_simps map_r_Inr)

lemma text_json_unique:
  assumes "text_json x = Inr t" "text_json y = Inr u" "t @ r = u @ s"
  shows "x = y \<and> r = s"
proof -
  obtain cs ds where
    c: "list_all2 (\<lambda>x c. text_char x = Inr c) x cs" "t = QUOTE # concat cs @ [QUOTE]" and
    d: "list_all2 (\<lambda>x c. text_char x = Inr c) y ds" "u = QUOTE # concat ds @ [QUOTE]"
    using assms(1,2) text_json_InrD by blast
  from assms(3) c d have "concat cs @ QUOTE # r = concat ds @ QUOTE # s" by simp
  with c(1) d(1) show ?thesis by (rule text_chars_unique)
qed

lemma text_json_hd: "text_json x = Inr t \<Longrightarrow> \<exists>t'. t = QUOTE # t'"
  by (auto simp: text_json_def result_simps)

text \<open>Decimal decimal.\<close>

definition digit_value :: "ustr \<Rightarrow> nat" where
  "digit_value = foldl (\<lambda>a d. a * 10 + (d - 48)) 0"

lemma digit_value_decimal: "digit_value (decimal n) = n"
proof (induction n rule: decimal.induct)
  case (1 n)
  show ?case
  proof (cases "n < 10")
    case True
    then show ?thesis by (subst decimal.simps) (simp add: digit_value_def)
  next
    case False
    with 1 have "digit_value (decimal (n div 10)) = n div 10" by simp
    with False show ?thesis by (subst decimal.simps) (simp add: digit_value_def)
  qed
qed

lemma decimal_range: "c \<in> set (decimal n) \<Longrightarrow> 48 \<le> c \<and> c \<le> 57"
proof (induction n rule: decimal.induct)
  case (1 n)
  show ?case
  proof (cases "n < 10")
    case True
    then show ?thesis using "1.prems" by (subst (asm) decimal.simps) auto
  next
    case False
    then have "c \<in> set (decimal (n div 10)) \<or> c = 48 + n mod 10"
      using "1.prems" by (subst (asm) decimal.simps) auto
    then show ?thesis
    proof
      assume "c = 48 + n mod 10"
      moreover have "n mod 10 < 10" by simp
      ultimately show ?thesis by simp
    qed (use 1 False in auto)
  qed
qed

lemma decimal_nonempty: "decimal n \<noteq> []"
  by (subst decimal.simps) simp

lemma digit_run_unique:
  "\<forall>c\<in>set xs. 48 \<le> c \<and> c \<le> 57 \<Longrightarrow> \<forall>c\<in>set ys. 48 \<le> c \<and> c \<le> 57 \<Longrightarrow> xs @ r = ys @ s \<Longrightarrow>
    delim r \<Longrightarrow> delim s \<Longrightarrow> xs = ys \<and> r = s"
proof (induction xs arbitrary: ys)
  case Nil
  then show ?case by (cases ys) auto
next
  case (Cons x xs)
  then show ?case by (cases ys) auto
qed

lemma decimal_unique:
  "decimal m @ r = decimal n @ s \<Longrightarrow> delim r \<Longrightarrow> delim s \<Longrightarrow> m = n \<and> r = s"
  by (metis digit_run_unique digit_value_decimal decimal_range)

lemma decimal_hd: "\<exists>d ds. decimal n = d # ds \<and> 48 \<le> d \<and> d \<le> 57"
  using decimal_nonempty [of n] decimal_range [of _ n] by (cases "decimal n") auto

lemma int_text_unique:
  assumes "int_text i @ r = int_text j @ s" "delim r" "delim s"
  shows "i = j \<and> r = s"
proof -
  obtain d ds where i: "decimal (nat i) = d # ds" "48 \<le> d" using decimal_hd by blast
  obtain e es where j: "decimal (nat j) = e # es" "48 \<le> e" using decimal_hd by blast
  show ?thesis
  proof (cases "i < 0"; cases "j < 0")
    assume "i < 0" "j < 0"
    with assms show ?thesis by (auto simp: int_text_def dest!: decimal_unique)
  next
    assume "i < 0" "\<not> j < 0"
    with assms j show ?thesis by (auto simp: int_text_def)
  next
    assume "\<not> i < 0" "j < 0"
    with assms i show ?thesis by (auto simp: int_text_def)
  next
    assume "\<not> i < 0" "\<not> j < 0"
    with assms show ?thesis by (auto simp: int_text_def dest!: decimal_unique)
  qed
qed

lemma int_text_hd: "\<exists>c cs. int_text i = c # cs \<and> (c = MINUS \<or> 48 \<le> c \<and> c \<le> 57)"
  using decimal_hd [of "nat i"] by (auto simp: int_text_def)

text \<open>Items separated by commas and closed by a bracket.\<close>

lemma join_Cons: "join sep (t # ts) = t @ (if ts = [] then [] else sep @ join sep ts)"
  by (cases ts) auto

lemma join_unique:
  assumes unit: "\<And>x t y u r s. x \<in> set xs \<Longrightarrow> P x t \<Longrightarrow> P y u \<Longrightarrow> t @ r = u @ s \<Longrightarrow> delim r \<Longrightarrow> delim s \<Longrightarrow>
      f x = f y \<and> r = s"
    and start: "\<And>x t. P x t \<Longrightarrow> \<exists>c cs. t = c # cs \<and> c \<noteq> cl"
    and clos: "57 < cl"
  shows "list_all2 P xs ts \<Longrightarrow> list_all2 P ys us \<Longrightarrow>
    join [COMMA] ts @ cl # r = join [COMMA] us @ cl # s \<Longrightarrow> map f xs = map f ys \<and> r = s"
  using unit
proof (induction xs arbitrary: ts ys us)
  case Nil
  then show ?case by (cases ys) (auto simp: list_all2_Cons1 join_Cons dest!: start)
next
  case (Cons x xs)
  from Cons.prems(1) obtain t ts' where ts: "ts = t # ts'" "P x t" "list_all2 P xs ts'"
    by (auto simp: list_all2_Cons1)
  show ?case
  proof (cases ys)
    case Nil
    with Cons.prems ts show ?thesis by (auto simp: join_Cons dest!: start)
  next
    case (Cons y ys')
    with Cons.prems(2) obtain u us' where us: "us = u # us'" "P y u" "list_all2 P ys' us'"
      by (auto simp: list_all2_Cons1)
    define r' where "r' = (if ts' = [] then [] else COMMA # join [COMMA] ts') @ cl # r"
    define s' where "s' = (if us' = [] then [] else COMMA # join [COMMA] us') @ cl # s"
    have "t @ r' = u @ s'"
      using Cons.prems(3) unfolding ts(1) us(1) join_Cons r'_def s'_def
      by (cases "ts' = []"; cases "us' = []") simp_all
    moreover have "delim r'" "delim s'" using clos by (auto simp: r'_def s'_def)
    ultimately have xy: "f x = f y" "r' = s'"
      using Cons.prems(4) [OF _ ts(2) us(2)] by simp_all
    have "join [COMMA] ts' @ cl # r = join [COMMA] us' @ cl # s"
      using xy(2) clos by (auto simp: r'_def s'_def split: if_splits)
    then have "map f xs = map f ys' \<and> r = s"
      by (intro Cons.IH [OF ts(3) us(3)] Cons.prems(4)) simp_all
    with xy(1) Cons show ?thesis by simp
  qed
qed

section \<open>Equality up to the order of keys\<close>

fun norm_json :: "json \<Rightarrow> json" where
  "norm_json (JArr vs) = JArr (map norm_json vs)"
| "norm_json (JObj es) = JObj (map (\<lambda>e. (fst e, norm_json (snd e))) (sort_entries es))"
| "norm_json v = v"

lemma sort_entries_map: "sort_entries (map (\<lambda>e. (fst e, g (snd e))) (sort_entries es)) =
    map (\<lambda>e. (fst e, g (snd e))) (sort_entries es)"
proof -
  have "sorted (map fst (map (\<lambda>e. (fst e, g (snd e))) (sort_entries es)))"
    by (simp add: sort_entries_def comp_def)
  then show ?thesis unfolding sort_entries_def [of "map _ _"] by (rule sort_key_id_if_sorted)
qed

lemma sort_entries_perm:
  assumes "distinct (map fst es)" "distinct (map fst es')" "set es = set es'"
  shows "sort_entries es = sort_entries es'"
proof -
  have "distinct es" "distinct es'" using assms by (auto simp: distinct_map)
  with assms(3) have m: "mset es = mset es'" by (simp add: set_eq_iff_mset_eq_distinct)
  have inj: "inj_on fst (set es)" using assms(1) by (simp add: distinct_map)
  have "sort_key fst es = sort_key fst es'"
    by (rule sort_key_inj_key_eq) (use m inj in simp_all)
  then show ?thesis by (simp add: sort_entries_def)
qed

text \<open>The first character of a written value tells its constructor.\<close>

definition head_ok :: "json \<Rightarrow> nat \<Rightarrow> bool" where
  "head_ok v c = (case v of JNull \<Rightarrow> c = 110 | JBool b \<Rightarrow> c = (if b then 116 else 102)
     | JInt i \<Rightarrow> c = MINUS \<or> 48 \<le> c \<and> c \<le> 57 | JFloat f \<Rightarrow> False | JStr s \<Rightarrow> c = QUOTE
     | JArr vs \<Rightarrow> c = LBRACK | JObj es \<Rightarrow> c = LBRACE)"

lemma write_json_head: "write_json v = Inr t \<Longrightarrow> \<exists>c cs. t = c # cs \<and> head_ok v c"
proof (cases v)
  case (JInt i)
  moreover assume "write_json v = Inr t"
  ultimately have "t = int_text i" by (simp split: if_splits)
  with int_text_hd [of i] JInt show ?thesis by (auto simp: head_ok_def)
qed (auto simp: head_ok_def ustr_def result_simps split: if_splits dest: text_json_hd)

lemma write_json_hd:
  "write_json v = Inr t \<Longrightarrow> \<exists>c cs. t = c # cs \<and> c \<noteq> RBRACK \<and> c \<noteq> RBRACE"
  by (drule write_json_head, cases v) (auto simp: head_ok_def)

lemma write_json_not_brack: "write_json v = Inr t \<Longrightarrow> \<exists>c cs. t = c # cs \<and> c \<noteq> RBRACK"
  by (drule write_json_hd) blast

lemma write_json_same_head:
  assumes "write_json v = Inr t" "write_json w = Inr u" "t @ r = u @ s"
  shows "\<exists>c. head_ok v c \<and> head_ok w c"
  using write_json_head [OF assms(1)] write_json_head [OF assms(2)] assms(3) by auto

lemma write_json_norm: "write_json (norm_json v) = write_json v"
proof (induction v rule: norm_json.induct)
  case (1 vs)
  then have "map_r write_json (map norm_json vs) = map_r write_json vs"
    by (induction vs) auto
  then show ?case by simp
next
  case (2 es)
  define W where "W = (\<lambda>e. bind_r (text_json (fst e)) (\<lambda>k. bind_r (write_json (snd e)) (\<lambda>t. Inr (k @ [COLON] @ t))))"
  have "map_r W (map (\<lambda>e. (fst e, norm_json (snd e))) xs) = map_r W xs" if "set xs \<subseteq> set es" for xs
    using that
  proof (induction xs)
    case (Cons x xs)
    then have "write_json (norm_json (snd x)) = write_json (snd x)" using 2 [of x] by auto
    then have "W (fst x, norm_json (snd x)) = W x" by (simp add: W_def)
    with Cons show ?case by simp
  qed simp
  then show ?case by (simp add: sort_entries_map W_def)
qed auto

lemma write_json_unique:
  "write_json v = Inr t \<Longrightarrow> write_json w = Inr u \<Longrightarrow> t @ r = u @ s \<Longrightarrow> delim r \<Longrightarrow> delim s \<Longrightarrow>
    norm_json v = norm_json w \<and> r = s"
proof (induction v arbitrary: t w u r s)
  case JNull
  with write_json_same_head [OF JNull(1-3)] show ?case
    by (cases w) (auto simp: head_ok_def ustr_def split: if_splits)
next
  case (JBool b)
  with write_json_same_head [OF JBool(1-3)] show ?case
    by (cases w) (auto simp: head_ok_def ustr_def split: if_splits)
next
  case (JInt i)
  with write_json_same_head [OF JInt(1-3)] show ?case
    by (cases w) (auto simp: head_ok_def split: if_splits dest: int_text_unique)
next
  case (JFloat f)
  then show ?case by simp
next
  case (JStr x)
  with write_json_same_head [OF JStr(1-3)] show ?case
    by (cases w) (auto simp: head_ok_def split: if_splits dest: text_json_unique)
next
  case (JArr vs)
  then obtain ts where t: "list_all2 (\<lambda>v t. write_json v = Inr t) vs ts"
    "t = [LBRACK] @ join [COMMA] ts @ [RBRACK]" by (auto simp: result_simps map_r_Inr)
  note vs_unit = JArr.IH
  show ?case
  proof (cases w)
    case (JArr ws)
    with JArr.prems obtain us where u: "list_all2 (\<lambda>v t. write_json v = Inr t) ws us"
      "u = [LBRACK] @ join [COMMA] us @ [RBRACK]" by (auto simp: result_simps map_r_Inr)
    have "join [COMMA] ts @ RBRACK # r = join [COMMA] us @ RBRACK # s"
      using JArr.prems(3) t u by simp
    then have "map norm_json vs = map norm_json ws \<and> r = s"
      by (intro join_unique [OF vs_unit write_json_not_brack _ t(1) u(1)]) simp_all
    then show ?thesis using JArr by simp
  qed (use write_json_same_head [OF JArr.prems(1-3)] in \<open>auto simp: head_ok_def split: if_splits\<close>)
next
  case (JObj es)
  let ?P = "\<lambda>e t. bind_r (text_json (fst e)) (\<lambda>k. bind_r (write_json (snd e)) (\<lambda>t. Inr (k @ [COLON] @ t))) = Inr t"
  from JObj.prems obtain ts where t: "list_all2 ?P (sort_entries es) ts"
    "t = [LBRACE] @ join [COMMA] ts @ [RBRACE]" by (auto simp: result_simps map_r_Inr)
  show ?case
  proof (cases w)
    case (JObj fs)
    with JObj.prems obtain us where u: "list_all2 ?P (sort_entries fs) us"
      "u = [LBRACE] @ join [COMMA] us @ [RBRACE]" by (auto simp: result_simps map_r_Inr)
    have joined: "join [COMMA] ts @ RBRACE # r = join [COMMA] us @ RBRACE # s"
      using JObj.prems(3) t u by simp
    have unit: "(fst e, norm_json (snd e)) = (fst f, norm_json (snd f)) \<and> r = s"
      if e: "e \<in> set (sort_entries es)" "?P e a" "?P f b" "a @ r = b @ s" "delim r" "delim s" for e f a b r s
    proof -
      from e(2,3) obtain k a' l b' where
        a: "text_json (fst e) = Inr k" "write_json (snd e) = Inr a'" "a = k @ [COLON] @ a'"
        and b: "text_json (fst f) = Inr l" "write_json (snd f) = Inr b'" "b = l @ [COLON] @ b'"
        by (auto simp: result_simps)
      from text_json_unique [OF a(1) b(1), of "COLON # a' @ r" "COLON # b' @ s"] a b e(4)
      have "fst e = fst f" "a' @ r = b' @ s" by auto
      moreover from e(1) have "(fst e, snd e) \<in> set es" by simp
      ultimately show ?thesis
        using JObj.IH [of e "snd e", OF _ _ a(2) b(2)] e(1,5,6) by (simp add: snds.simps)
    qed
    have start: "\<exists>c cs. a = c # cs \<and> c \<noteq> RBRACE" if "?P e a" for e a
      using that by (auto simp: result_simps dest!: text_json_hd)
    have "map (\<lambda>e. (fst e, norm_json (snd e))) (sort_entries es) =
        map (\<lambda>e. (fst e, norm_json (snd e))) (sort_entries fs) \<and> r = s"
      by (rule join_unique [where P = ?P and f = "\<lambda>e. (fst e, norm_json (snd e))", OF unit start _ t(1) u(1) joined])
        (assumption | simp)+
    then show ?thesis using JObj by simp
  qed (use write_json_same_head [OF JObj.prems(1-3)] in \<open>auto simp: head_ok_def split: if_splits\<close>)
qed

section \<open>UTF-8\<close>

lemma sextets_unique:
  fixes a b :: nat
  assumes "a div 64 = b div 64" "a mod 64 = b mod 64"
  shows "a = b"
  using assms by (rule div_mod_unique)

lemma sextets3_unique:
  fixes a b :: nat
  assumes "a div 4096 = b div 4096" "a div 64 mod 64 = b div 64 mod 64" "a mod 64 = b mod 64"
  shows "a = b"
proof (rule sextets_unique)
  show "a div 64 = b div 64" 
    by (rule sextets_unique) (use assms(1,2) in \<open>simp_all add: div_mult2_eq [symmetric]\<close>)
qed (rule assms(3))

lemma sextets4_unique:
  fixes a b :: nat
  assumes "a div 262144 = b div 262144" "a div 4096 mod 64 = b div 4096 mod 64"
    "a div 64 mod 64 = b div 64 mod 64" "a mod 64 = b mod 64"
  shows "a = b"
proof (rule sextets3_unique)
  show "a div 4096 = b div 4096" 
    by (rule sextets_unique) (use assms(1,2) in \<open>simp_all add: div_mult2_eq [symmetric]\<close>)
qed (rule assms(3,4))+

text \<open>The first byte tells the length.\<close>

lemma utf8_char_cases:
  obtains (one) "c < 128" "utf8_char c = [c]"
  | (two) "192 + c div 64 < 224" "utf8_char c = [192 + c div 64, 128 + c mod 64]"
  | (three) "224 + c div 4096 < 240" "utf8_char c = [224 + c div 4096, 128 + c div 64 mod 64, 128 + c mod 64]"
  | (four) "utf8_char c = [240 + c div 262144, 128 + c div 4096 mod 64, 128 + c div 64 mod 64, 128 + c mod 64]"
proof -
  consider "c < 128" | "\<not> c < 128" "c < 2048" | "\<not> c < 2048" "c < 65536" | "\<not> c < 65536" by linarith
  then show thesis
  proof cases
    case 1 then show ?thesis by (intro one) (auto simp: utf8_char_def)
  next
    case 2 then show ?thesis by (intro two) (auto simp: utf8_char_def)
  next
    case 3 then show ?thesis by (intro three) (auto simp: utf8_char_def)
  next
    case 4 then show ?thesis by (intro four) (auto simp: utf8_char_def)
  qed
qed

lemma utf8_char_unique:
  assumes "utf8_char a @ r = utf8_char b @ s"
  shows "a = b \<and> r = s"
proof (cases a rule: utf8_char_cases)
  case one
  then show ?thesis using assms by (cases b rule: utf8_char_cases) auto
next
  case two
  then show ?thesis using assms by (cases b rule: utf8_char_cases) (auto intro: sextets_unique)
next
  case three
  then show ?thesis using assms by (cases b rule: utf8_char_cases) (auto intro: sextets3_unique)
next
  case four
  then show ?thesis using assms by (cases b rule: utf8_char_cases) (auto intro: sextets4_unique)
qed

lemma utf8_char_nonempty: "utf8_char c \<noteq> []"
  by (simp add: utf8_char_def)

lemma utf8_inject: "utf8 x = utf8 y \<longleftrightarrow> x = y"
proof
  assume "utf8 x = utf8 y"
  then show "x = y"
  proof (induction x arbitrary: y)
    case Nil
    then show ?case by (cases y) (auto simp: utf8_def utf8_char_nonempty)
  next
    case (Cons c x)
    then show ?case
    proof (cases y)
      case Nil
      with Cons.prems show ?thesis by (auto simp: utf8_def utf8_char_nonempty)
    next
      case (Cons d y')
      with Cons.prems have "utf8_char c @ utf8 x = utf8_char d @ utf8 y'" by (simp add: utf8_def)
      with Cons.IH Cons show ?thesis by (auto dest!: utf8_char_unique)
    qed
  qed
qed simp

section \<open>What equal canonical bytes mean\<close>

lemma write_json_inject:
  assumes "write_json v = Inr t" "write_json w = Inr t"
  shows "norm_json v = norm_json w"
  using write_json_unique [OF assms, of "[]" "[]"] by (simp add: delim_def)

lemma write_json_eq_iff:
  assumes "write_json v = Inr t" "write_json w = Inr u"
  shows "t = u \<longleftrightarrow> norm_json v = norm_json w"
proof
  assume "norm_json v = norm_json w"
  then have "write_json v = write_json w" by (metis write_json_norm)
  with assms show "t = u" by simp
qed (use assms write_json_inject in blast)

lemma canonical_Inr: "canonical v = Inr b \<longleftrightarrow> (\<exists>t. write_json v = Inr t \<and> b = utf8 t)"
  by (auto simp: canonical_def result_simps)

text \<open>
  C29: two JSON values that have canonical bytes have the same bytes exactly when they are equal up to the
  order of object keys; the engine and this service may therefore compare documents, plans and
  operations by their bytes.
\<close>

theorem canonical_decides_equality:
  assumes "canonical v = Inr b" "canonical w = Inr c"
  shows "b = c \<longleftrightarrow> norm_json v = norm_json w"
  using assms write_json_eq_iff [of v _ w] by (auto simp: canonical_Inr utf8_inject)

lemma canonical_decides_equality_witness:
  "[123, 34, 97, 34, 58, 49, 44, 34, 98, 34, 58, 110, 117, 108, 108, 125] = ([123, 34, 97, 34, 58, 49, 44, 34, 98, 34, 58, 110, 117, 108, 108, 125] :: nat list) \<longleftrightarrow>
    norm_json (JObj [(ustr ''b'', JNull), (ustr ''a'', JInt 1)]) = norm_json (JObj [(ustr ''a'', JInt 1), (ustr ''b'', JNull)])"
  by (rule canonical_decides_equality; code_simp)

end
