(* ===== verification/Rows.thy ===== *)
theory Rows
  imports Json
begin

text \<open>
  The database of the service (\<^verbatim>\<open>src/api/models\<close>): one record per row class, the tables as lists of rows, and
  the operations the row classes offer themselves. Identifiers are strings, instants and days integers. A JSON
  column is typed where the service writes it in one fixed shape and \<open>json\<close> where it stores free JSON.

  A handler takes the database and returns it updated (\<open>Inr\<close>) or refuses (\<open>Inl\<close>); a refusal rolls the session
  back (\<^verbatim>\<open>app.py\<close>, \<^verbatim>\<open>rollback_on_exception\<close>), so \<open>Inl\<close> carries no database. The rows SQLAlchemy caches in
  the session are not modelled: the code refreshes every row it decides on (\<^verbatim>\<open>populate_existing\<close>).
\<close>

section \<open>Reading JSON objects\<close>

definition js :: "string \<Rightarrow> json" where
  "js s = JStr (ustr s)"

definition jget :: "string \<Rightarrow> json \<Rightarrow> json option" where
  "jget k v = (case v of JObj es \<Rightarrow> map_of es (ustr k) | _ \<Rightarrow> None)"

definition jobj :: "(string \<times> json) list \<Rightarrow> json" where
  "jobj es = JObj (map (\<lambda>(k, v). (ustr k, v)) es)"

text \<open>Equality of JSON values as Python compares them: the order of keys does not count.\<close>

definition json_eq :: "json \<Rightarrow> json \<Rightarrow> bool" where
  "json_eq v w \<longleftrightarrow> norm_json v = norm_json w"

lemma json_eq_refl [simp]: "json_eq v v"
  by (simp add: json_eq_def)

section \<open>Purchases and course rights\<close>

record purchase_user =
  pu_user :: string
  pu_deleted :: bool

record acceptance =
  ac_order :: string
  ac_hash :: ustr
  ac_accepted :: bool
  ac_early :: bool

record fulfillment =
  ff_course :: string
  ff_at :: int
  ff_smtp :: json
  ff_order :: string
  ff_ledger :: "string option"

record course_purchase =
  cp_id :: string
  cp_user :: string
  cp_course :: string
  cp_state :: string
  cp_active_key :: "string option"
  cp_offer :: json
  cp_acceptance :: "acceptance option"
  cp_result :: "json option"
  cp_created :: int
  cp_fulfillment :: "fulfillment option"
  cp_reported :: bool

record right_original =
  ro_source :: string
  ro_course :: string
  ro_access :: bool
  ro_started :: bool
  ro_purchases :: "string list"

record retained_right =
  rr_id :: string
  rr_source :: string
  rr_course :: string
  rr_observed :: int
  rr_original :: right_original
  rr_subject :: "string option"
  rr_generation :: int

record right_view =
  rv_id :: string
  rv_source :: string
  rv_course :: string
  rv_observed :: int
  rv_original :: right_original

record grant_request =
  gq_source :: string
  gq_scope :: right_view
  gq_grant :: string
  gq_successor :: string

record grant_result =
  gs_course :: string
  gs_scope :: right_view

record right_grant =
  gr_id :: string
  gr_right :: string
  gr_subject :: string
  gr_request :: grant_request
  gr_state :: string
  gr_result :: grant_result
  gr_created :: int

record course_access =
  ca_user :: string
  ca_course :: string

section \<open>Lectures and lesson starts\<close>

record last_watch =
  lw_user :: string
  lw_course :: string
  lw_at :: int

record lecture_progress =
  lp_user :: string
  lp_course :: string
  lp_lecture :: string
  lp_completed :: int

datatype policy_mode = Legacy | Shadow | Daily

datatype limit_mode = Off | Measure | Enforce

datatype exemption = Admin | Premium | Purchase | Started

datatype start_reason =
    Historical
  | Service_unavailable
  | Exempt exemption
  | Charged_daily
  | Charged_shadow
  | Limit_off

record lesson_start =
  ls_user :: string
  ls_course :: string
  ls_lesson :: string
  ls_started :: int
  ls_day :: int
  ls_charged :: bool
  ls_reason :: start_reason
  ls_policy :: "policy_mode option"

record start_receipt =
  lr_user :: string
  lr_request :: string
  lr_course :: string
  lr_lesson :: string
  lr_created :: int

record daily_settings =
  ds_id :: nat
  ds_mode :: limit_mode
  ds_limit :: int
  ds_updated :: int
  ds_by :: string
  ds_note :: string

section \<open>Learning rooms\<close>

datatype room_status = New | In_progress | Completed | Skipped

datatype result_kind = Introduced | Solved | Passed

record room_state =
  rs_user :: string
  rs_unit :: string
  rs_revision :: int
  rs_state :: json
  rs_status :: room_status
  rs_result :: "result_kind option"
  rs_updated :: int
  rs_review_id :: "string option"
  rs_review_status :: "room_status option"
  rs_review_started :: "int option"

record progress =
  pg_revision :: int
  pg_state :: json
  pg_status :: room_status
  pg_result :: "result_kind option"
  pg_review_id :: "string option"

record room_request =
  rq_user :: string
  rq_request :: string
  rq_unit :: string
  rq_revision :: int
  rq_fingerprint :: string
  rq_progress :: progress
  rq_created :: int

record llm_verdict =
  lv_user :: string
  lv_request :: string
  lv_unit :: string
  lv_profile :: string
  lv_profile_sha256 :: string
  lv_answer_sha256 :: string
  lv_locale :: string
  lv_score :: int
  lv_max_score :: int
  lv_model :: ustr
  lv_graded :: int
  lv_used :: int

datatype delivery_state = Pending | Delivered | Erased | Rejected

record milestone_row =
  ms_user :: string
  ms_unit :: string
  ms_skill :: string
  ms_xp :: int
  ms_completion :: string
  ms_state :: delivery_state
  ms_attempts :: nat
  ms_next :: int
  ms_last_status :: "nat option"
  ms_created :: int
  ms_finished :: "int option"

section \<open>The lesson engine\<close>

record band_rule =
  br_bands :: "string list"
  br_initial :: string
  br_lower :: int
  br_raise :: int

record practice =
  pc_case :: string
  pc_config :: json
  pc_initial :: json

datatype input_kind = Program_input | Actions_input

record doc_task =
  dt_goal :: string
  dt_subskill :: string
  dt_concepts :: "ustr list"
  dt_xp :: int
  dt_required :: bool
  dt_input :: input_kind
  dt_criteria :: "ustr list"
  dt_feedback :: "(ustr \<times> (ustr \<times> ustr) list) list"
  dt_practice :: "(string \<times> practice) list"

record sandbox_file =
  sf_name :: string
  sf_content :: ustr

record runner =
  rn_main :: sandbox_file
  rn_parts :: "sandbox_file list"
  rn_sha256 :: string

record server_document =
  sd_format :: int
  sd_engine :: ustr
  sd_unit :: string
  sd_kernel_id :: ustr
  sd_kernel_version :: ustr
  sd_rule :: band_rule
  sd_tasks :: "doc_task list"
  sd_runner :: runner

record task_term =
  tt_goal :: string
  tt_required :: bool
  tt_xp :: int
  tt_subskill :: string
  tt_input :: input_kind

record engine_revision =
  er_id :: string
  er_unit :: string
  er_number :: nat
  er_active_for :: "string option"
  er_module :: string
  er_package :: string
  er_manifest :: string
  er_entry :: string
  er_document :: server_document
  er_server_sha :: string
  er_evidence :: string
  er_tasks :: "task_term list"
  er_created :: int

record public_start =
  st_id :: string
  st_revision :: string
  st_goal :: string
  st_case :: string
  st_config :: json
  st_initial :: json
  st_seed :: string

record task_state =
  ts_user :: string
  ts_unit :: string
  ts_goal :: string
  ts_revision :: string
  ts_band :: string
  ts_fails :: int
  ts_passes :: int
  ts_start_id :: "string option"
  ts_start :: "public_start option"
  ts_start_band :: "string option"
  ts_start_request :: "string option"
  ts_passed_at :: "int option"
  ts_xp_applied :: bool
  ts_xp_operation :: "string option"
  ts_xp_amount :: "int option"
  ts_xp_skill :: "string option"
  ts_updated :: int

datatype verdict = V_passed | V_not_passed

datatype submission_state = Accepted | Booked

record feedback =
  fb_summary :: string
  fb_reasons :: "ustr list"

record job =
  jb_revision :: string
  jb_start :: "public_start option"
  jb_band :: "string option"
  jb_server_sha :: string

record submission =
  sb_id :: string
  sb_user :: string
  sb_unit :: string
  sb_goal :: string
  sb_open_goal :: "string option"
  sb_revision :: string
  sb_start :: string
  sb_input_hash :: string
  sb_input :: json
  sb_job :: job
  sb_state :: submission_state
  sb_verdict :: "verdict option"
  sb_feedback :: "feedback option"
  sb_counts :: "bool option"
  sb_accepted :: int
  sb_booked :: "int option"
  sb_evaluating :: "int option"

record lesson_module =
  lm_id :: string
  lm_api_version :: int
  lm_entry_url :: string

section \<open>Course projects and learning plans\<close>

record course_project =
  pr_user :: string
  pr_course :: string
  pr_revision :: int
  pr_state :: json
  pr_updated :: int

record project_request =
  pq_user :: string
  pq_request :: string
  pq_course :: string
  pq_revision :: int
  pq_fingerprint :: string
  pq_updated :: int

datatype level = Einsteiger | Fortgeschritten | Profi

datatype preference = Breit | Tief

datatype step_state =
    Course_step string "string option" "string option"
  | External_step string string string bool

record plan_state =
  ps_character :: "level option"
  ps_preference :: "preference option"
  ps_steps :: "step_state list"

record learning_plan =
  pl_user :: string
  pl_revision :: int
  pl_state :: json
  pl_request :: string
  pl_fingerprint :: string
  pl_updated :: int

section \<open>Experience points and the skill tree\<close>

record xp_row =
  xp_user :: string
  xp_skill :: string
  xp_xp :: int
  xp_updated :: "int option"

record xp_request =
  xq_user :: string
  xq_skill :: string
  xq_xp :: int
  xq_earning :: string

record xp_receipt =
  xc_operation :: string
  xc_request :: xp_request
  xc_state :: string
  xc_applied :: bool

record xp_operation =
  xo_id :: string
  xo_user :: string
  xo_request :: xp_request
  xo_result :: "xp_receipt option"
  xo_received :: int
  xo_completed :: "int option"

record bookmark =
  bm_user :: string
  bm_root :: string
  bm_sub :: string

record root_skill =
  rk_id :: string
  rk_name :: string
  rk_row :: int
  rk_column :: int
  rk_sub_rows :: int
  rk_sub_columns :: int
  rk_icon :: "string option"

record sub_skill =
  sk_id :: string
  sk_parent :: string
  sk_name :: string
  sk_row :: int
  sk_column :: int
  sk_icon :: "string option"

record dependency =
  dp_dependent :: string
  dp_dependency :: string

record skill_course =
  sc_skill :: string
  sc_course :: string

record tree_settings =
  tr_rows :: int
  tr_columns :: int

end
