(* ===== verification/Store.thy ===== *)
theory Store
  imports Rows
begin

text \<open>
  The database as one record and the operations the row classes offer: the account guard
  (\<^verbatim>\<open>lock_user\<close>, \<^verbatim>\<open>read_user_guard\<close>), course access, viewing history, lecture progress, bookmarks. The
  locale \<open>guarded\<close> states what an operation of the service owes an erased account; the theories of the
  components interpret it on their operations.
\<close>

record database =
  users :: "purchase_user list"
  purchases :: "course_purchase list"
  rights :: "retained_right list"
  grants :: "right_grant list"
  accesses :: "course_access list"
  watches :: "last_watch list"
  lectures :: "lecture_progress list"
  starts :: "lesson_start list"
  start_receipts :: "start_receipt list"
  limits :: "daily_settings list"
  rooms :: "room_state list"
  room_requests :: "room_request list"
  verdicts :: "llm_verdict list"
  milestones :: "milestone_row list"
  revisions :: "engine_revision list"
  task_states :: "task_state list"
  submissions :: "submission list"
  modules :: "lesson_module list"
  projects :: "course_project list"
  project_requests :: "project_request list"
  plans :: "learning_plan list"
  xps :: "xp_row list"
  xp_operations :: "xp_operation list"
  bookmarks :: "bookmark list"
  root_skills :: "root_skill list"
  root_deps :: "dependency list"
  sub_skills :: "sub_skill list"
  sub_deps :: "dependency list"
  skill_courses :: "skill_course list"
  tree :: "tree_settings list"

definition empty_db :: database where
  "empty_db = \<lparr>users = [], purchases = [], rights = [], grants = [], accesses = [], watches = [],
     lectures = [], starts = [], start_receipts = [], limits = [], rooms = [], room_requests = [], verdicts = [],
     milestones = [], revisions = [], task_states = [], submissions = [], modules = [], projects = [],
     project_requests = [], plans = [], xps = [], xp_operations = [], bookmarks = [], root_skills = [],
     root_deps = [], sub_skills = [], sub_deps = [], skill_courses = [], tree = []\<rparr>"

text \<open>A handler: the database before, then the refusal or the answer and the database after.\<close>

type_synonym 'a handler = "database \<Rightarrow> ('a \<times> database) result"

section \<open>The account guard\<close>

definition read_user_guard :: "database \<Rightarrow> string \<Rightarrow> purchase_user option" where
  "read_user_guard db u = row_by pu_user u (users db)"

text \<open>The row is created when missing; a competing insert ends in the same row.\<close>

definition lock_user :: "database \<Rightarrow> string \<Rightarrow> purchase_user \<times> database" where
  "lock_user db u = (case row_by pu_user u (users db) of
      Some g \<Rightarrow> (g, db)
    | None \<Rightarrow> (let g = \<lparr>pu_user = u, pu_deleted = False\<rparr> in (g, db\<lparr>users := add_row g (users db)\<rparr>)))"

definition set_deleted :: "database \<Rightarrow> string \<Rightarrow> database" where
  "set_deleted db u = db\<lparr>users := modify_by pu_user u (\<lambda>g. g\<lparr>pu_deleted := True\<rparr>) (users db)\<rparr>"

text \<open>The account is erased: its guard is a tombstone.\<close>

definition erased :: "database \<Rightarrow> string \<Rightarrow> bool" where
  "erased db u \<longleftrightarrow> (case row_by pu_user u (users db) of Some g \<Rightarrow> pu_deleted g | None \<Rightarrow> False)"

lemma lock_user_deleted [simp]: "pu_deleted (fst (lock_user db u)) = erased db u"
  by (simp add: lock_user_def erased_def Let_def split: option.splits)

lemma erased_lock_user [simp]: "erased (snd (lock_user db u)) v = erased db v"
  by (auto simp: lock_user_def erased_def Let_def rows.get_put split: option.splits)

lemma erased_set_deleted [simp]:
  "erased (set_deleted db u) v \<longleftrightarrow> erased db v \<or> (v = u \<and> row_by pu_user u (users db) \<noteq> None)"
  by (auto simp: set_deleted_def erased_def rows.get_modify split: option.splits)

lemma lock_user_row: "row_by pu_user u (users (snd (lock_user db u))) \<noteq> None"
  by (auto simp: lock_user_def Let_def rows.get_put split: option.splits)

lemma lock_user_fields [simp]:
  "purchases (snd (lock_user db u)) = purchases db" "rights (snd (lock_user db u)) = rights db"
  "grants (snd (lock_user db u)) = grants db" "accesses (snd (lock_user db u)) = accesses db"
  "watches (snd (lock_user db u)) = watches db" "lectures (snd (lock_user db u)) = lectures db"
  "starts (snd (lock_user db u)) = starts db" "start_receipts (snd (lock_user db u)) = start_receipts db"
  "limits (snd (lock_user db u)) = limits db" "rooms (snd (lock_user db u)) = rooms db"
  "room_requests (snd (lock_user db u)) = room_requests db" "verdicts (snd (lock_user db u)) = verdicts db"
  "milestones (snd (lock_user db u)) = milestones db" "revisions (snd (lock_user db u)) = revisions db"
  "task_states (snd (lock_user db u)) = task_states db" "submissions (snd (lock_user db u)) = submissions db"
  "modules (snd (lock_user db u)) = modules db" "projects (snd (lock_user db u)) = projects db"
  "project_requests (snd (lock_user db u)) = project_requests db" "plans (snd (lock_user db u)) = plans db"
  "xps (snd (lock_user db u)) = xps db" "xp_operations (snd (lock_user db u)) = xp_operations db"
  "bookmarks (snd (lock_user db u)) = bookmarks db" "sub_skills (snd (lock_user db u)) = sub_skills db"
  by (simp_all add: lock_user_def Let_def split: option.splits)

section \<open>Row classes\<close>

definition course_access_create :: "database \<Rightarrow> string \<Rightarrow> string \<Rightarrow> database" where
  "course_access_create db u c = db\<lparr>accesses := add_row \<lparr>ca_user = u, ca_course = c\<rparr> (accesses db)\<rparr>"

definition has_access_row :: "database \<Rightarrow> string \<Rightarrow> string \<Rightarrow> bool" where
  "has_access_row db u c = exists_row (\<lambda>a. ca_user a = u \<and> ca_course a = c) (accesses db)"

definition last_watch_update :: "database \<Rightarrow> int \<Rightarrow> string \<Rightarrow> string \<Rightarrow> database" where
  "last_watch_update db now u c = db\<lparr>watches :=
     (if exists_row (\<lambda>w. lw_user w = u \<and> lw_course w = c) (watches db)
      then update_rows (\<lambda>w. lw_user w = u \<and> lw_course w = c) (\<lambda>w. w\<lparr>lw_at := now\<rparr>) (watches db)
      else add_row \<lparr>lw_user = u, lw_course = c, lw_at = now\<rparr> (watches db))\<rparr>"

definition lecture_get_completed :: "database \<Rightarrow> string \<Rightarrow> string \<Rightarrow> string set" where
  "lecture_get_completed db u c = set (map lp_lecture (all_rows (\<lambda>l. lp_user l = u \<and> lp_course l = c) (lectures db)))"

definition lecture_is_completed :: "database \<Rightarrow> string \<Rightarrow> string \<Rightarrow> string \<Rightarrow> bool" where
  "lecture_is_completed db u c l = exists_row (\<lambda>r. lp_user r = u \<and> lp_course r = c \<and> lp_lecture r = l) (lectures db)"

definition lecture_set_completed :: "database \<Rightarrow> int \<Rightarrow> string \<Rightarrow> string \<Rightarrow> string \<Rightarrow> database" where
  "lecture_set_completed db now u c l = db\<lparr>lectures :=
     add_row \<lparr>lp_user = u, lp_course = c, lp_lecture = l, lp_completed = now\<rparr> (lectures db)\<rparr>"

text \<open>\<^verbatim>\<open>get_owned_courses\<close>: purchased courses and courses once opened.\<close>

definition get_owned_courses :: "database \<Rightarrow> string \<Rightarrow> string set" where
  "get_owned_courses db u = set (map ca_course (all_rows (\<lambda>a. ca_user a = u) (accesses db))) \<union>
     set (map lw_course (all_rows (\<lambda>w. lw_user w = u) (watches db)))"

definition bookmark_create :: "string \<Rightarrow> string \<Rightarrow> string \<Rightarrow> bool handler" where
  "bookmark_create u root sub db =
    (let same = (\<lambda>b. bm_user b = u \<and> bm_sub b = sub \<and> bm_root b = root)
     in if exists_row same (bookmarks db) then Inl (Http 409 ''already bookmarked'')
        else Inr (True, db\<lparr>bookmarks := add_row \<lparr>bm_user = u, bm_root = root, bm_sub = sub\<rparr> (bookmarks db)\<rparr>))"

text \<open>\<^verbatim>\<open>db.delete\<close> removes the one row that was found.\<close>

definition bookmark_delete :: "string \<Rightarrow> string \<Rightarrow> string \<Rightarrow> bool handler" where
  "bookmark_delete u root sub db =
    (case first_row (\<lambda>b. bm_user b = u \<and> bm_sub b = sub \<and> bm_root b = root) (bookmarks db) of
       None \<Rightarrow> Inl (Http 404 ''bookmark not found'')
     | Some b \<Rightarrow> Inr (True, db\<lparr>bookmarks := remove1 b (bookmarks db)\<rparr>))"

definition tree_settings_get :: "database \<Rightarrow> tree_settings \<times> database" where
  "tree_settings_get db = (case tree db of
      t # _ \<Rightarrow> (t, db)
    | [] \<Rightarrow> (let t = \<lparr>tr_rows = 20, tr_columns = 20\<rparr> in (t, db\<lparr>tree := add_row t (tree db)\<rparr>)))"

section \<open>What an erased account is owed\<close>

text \<open>
  The tables of \<^verbatim>\<open>USER_MODELS\<close>: \<open>clean\<close> says that no row of live learning data of the account exists.
\<close>

definition no_row :: "('r \<Rightarrow> string) \<Rightarrow> string \<Rightarrow> 'r list \<Rightarrow> bool" where
  "no_row own u t \<longleftrightarrow> (\<forall>r\<in>set t. own r \<noteq> u)"

definition clean :: "database \<Rightarrow> string \<Rightarrow> bool" where
  "clean db u \<longleftrightarrow>
     no_row sb_user u (submissions db) \<and> no_row ts_user u (task_states db) \<and>
     no_row lr_user u (start_receipts db) \<and> no_row ls_user u (starts db) \<and>
     no_row pq_user u (project_requests db) \<and> no_row pr_user u (projects db) \<and>
     no_row pl_user u (plans db) \<and> no_row ms_user u (milestones db) \<and>
     no_row lv_user u (verdicts db) \<and> no_row rq_user u (room_requests db) \<and>
     no_row rs_user u (rooms db) \<and> no_row ca_user u (accesses db) \<and>
     no_row lw_user u (watches db) \<and> no_row lp_user u (lectures db) \<and>
     no_row bm_user u (bookmarks db) \<and> no_row xp_user u (xps db) \<and>
     no_row xo_user u (xp_operations db)"

text \<open>An erased account whose live data is gone.\<close>

definition gone :: "database \<Rightarrow> string \<Rightarrow> bool" where
  "gone db u \<longleftrightarrow> erased db u \<and> clean db u"

text \<open>
  An operation keeps that: whatever it is asked to do, an account that is gone stays gone. \<open>step\<close> is the
  committed database before and after one request.
\<close>

locale guarded =
  fixes step :: "'i \<Rightarrow> database \<Rightarrow> database"
  assumes keeps_gone: "gone db u \<Longrightarrow> gone (step i db) u"
begin

lemma run_keeps_gone: "gone db u \<Longrightarrow> gone (fold step is db) u"
  by (induction "is" arbitrary: db) (auto intro: keeps_gone)

end

text \<open>The committed database after a handler: its own on success, the old one after a refusal.\<close>

fun committed :: "database \<Rightarrow> ('a \<times> database) result \<Rightarrow> database" where
  "committed db (Inl e) = db"
| "committed db (Inr (x, db')) = db'"

lemma committed_Inr: "committed db r = (case r of Inl e \<Rightarrow> db | Inr p \<Rightarrow> snd p)"
  by (cases r) auto

lemma gone_lock_user [simp]: "gone (snd (lock_user db u)) v = gone db v"
  by (simp add: gone_def clean_def)

lemma gone_committed: "gone db u \<Longrightarrow> (\<And>x db'. r = Inr (x, db') \<Longrightarrow> gone db' u) \<Longrightarrow> gone (committed db r) u"
  by (cases r) auto

text \<open>
  The facts by which a handler is shown to keep an account gone: what it may write into each table
  (\<open>gone_write\<close>), and that the rows it finds belong to somebody else (\<open>gone_row\<close>).
\<close>

lemma gone_write:
  assumes "gone db u"
  shows "no_row sb_user u t0 \<Longrightarrow> gone (db\<lparr>submissions := t0\<rparr>) u"
    "no_row ts_user u t1 \<Longrightarrow> gone (db\<lparr>task_states := t1\<rparr>) u"
    "no_row lr_user u t2 \<Longrightarrow> gone (db\<lparr>start_receipts := t2\<rparr>) u"
    "no_row ls_user u t3 \<Longrightarrow> gone (db\<lparr>starts := t3\<rparr>) u"
    "no_row pq_user u t4 \<Longrightarrow> gone (db\<lparr>project_requests := t4\<rparr>) u"
    "no_row pr_user u t5 \<Longrightarrow> gone (db\<lparr>projects := t5\<rparr>) u"
    "no_row pl_user u t6 \<Longrightarrow> gone (db\<lparr>plans := t6\<rparr>) u"
    "no_row ms_user u t7 \<Longrightarrow> gone (db\<lparr>milestones := t7\<rparr>) u"
    "no_row lv_user u t8 \<Longrightarrow> gone (db\<lparr>verdicts := t8\<rparr>) u"
    "no_row rq_user u t9 \<Longrightarrow> gone (db\<lparr>room_requests := t9\<rparr>) u"
    "no_row rs_user u t10 \<Longrightarrow> gone (db\<lparr>rooms := t10\<rparr>) u"
    "no_row ca_user u t11 \<Longrightarrow> gone (db\<lparr>accesses := t11\<rparr>) u"
    "no_row lw_user u t12 \<Longrightarrow> gone (db\<lparr>watches := t12\<rparr>) u"
    "no_row lp_user u t13 \<Longrightarrow> gone (db\<lparr>lectures := t13\<rparr>) u"
    "no_row bm_user u t14 \<Longrightarrow> gone (db\<lparr>bookmarks := t14\<rparr>) u"
    "no_row xp_user u t15 \<Longrightarrow> gone (db\<lparr>xps := t15\<rparr>) u"
    "no_row xo_user u t16 \<Longrightarrow> gone (db\<lparr>xp_operations := t16\<rparr>) u"
  using assms by (simp_all add: gone_def clean_def erased_def)

lemma gone_other [simp]:
  "gone (db\<lparr>purchases := x0\<rparr>) u = gone db u"
  "gone (db\<lparr>rights := x1\<rparr>) u = gone db u"
  "gone (db\<lparr>grants := x2\<rparr>) u = gone db u"
  "gone (db\<lparr>limits := x3\<rparr>) u = gone db u"
  "gone (db\<lparr>revisions := x4\<rparr>) u = gone db u"
  "gone (db\<lparr>modules := x5\<rparr>) u = gone db u"
  "gone (db\<lparr>root_skills := x6\<rparr>) u = gone db u"
  "gone (db\<lparr>root_deps := x7\<rparr>) u = gone db u"
  "gone (db\<lparr>sub_skills := x8\<rparr>) u = gone db u"
  "gone (db\<lparr>sub_deps := x9\<rparr>) u = gone db u"
  "gone (db\<lparr>skill_courses := x10\<rparr>) u = gone db u"
  "gone (db\<lparr>tree := x11\<rparr>) u = gone db u"
  by (simp_all add: gone_def clean_def erased_def)

lemma gone_row:
  assumes "gone db u"
  shows "no_row sb_user u (submissions db)"
    "no_row ts_user u (task_states db)"
    "no_row lr_user u (start_receipts db)"
    "no_row ls_user u (starts db)"
    "no_row pq_user u (project_requests db)"
    "no_row pr_user u (projects db)"
    "no_row pl_user u (plans db)"
    "no_row ms_user u (milestones db)"
    "no_row lv_user u (verdicts db)"
    "no_row rq_user u (room_requests db)"
    "no_row rs_user u (rooms db)"
    "no_row ca_user u (accesses db)"
    "no_row lw_user u (watches db)"
    "no_row lp_user u (lectures db)"
    "no_row bm_user u (bookmarks db)"
    "no_row xp_user u (xps db)"
    "no_row xo_user u (xp_operations db)"
  using assms by (simp_all add: gone_def clean_def)

lemma gone_erased: "gone db u \<Longrightarrow> erased db u"
  by (simp add: gone_def)

lemma gone_users: "gone db u \<Longrightarrow> erased (db\<lparr>users := t\<rparr>) u \<Longrightarrow> gone (db\<lparr>users := t\<rparr>) u"
  by (simp add: gone_def clean_def)

lemma gone_set_deleted: "gone db u \<Longrightarrow> gone (set_deleted db v) u"
  by (simp add: gone_def clean_def) (simp add: set_deleted_def)

text \<open>Rows of other accounts come and go.\<close>

lemma no_row_simps [simp]:
  "no_row own u []"
  "no_row own u (x # t) \<longleftrightarrow> own x \<noteq> u \<and> no_row own u t"
  "no_row own u (t @ t') \<longleftrightarrow> no_row own u t \<and> no_row own u t'"
  "no_row own u (add_row x t) \<longleftrightarrow> own x \<noteq> u \<and> no_row own u t"
  by (auto simp: no_row_def row_simps)

lemma no_row_intros [intro]:
  "no_row own u t \<Longrightarrow> no_row own u (delete_rows P t)"
  "no_row own u t \<Longrightarrow> (\<And>r. own (f r) = own r) \<Longrightarrow> no_row own u (update_rows P f t)"
  "no_row own u t \<Longrightarrow> no_row own u (drop_by key k t)"
  "no_row own u t \<Longrightarrow> (\<And>r. own (f r) = own r) \<Longrightarrow> no_row own u (modify_by key k f t)"
  by (auto simp: no_row_def row_simps drop_by_def modify_by_def)

lemma no_rowD: "no_row own u t \<Longrightarrow> r \<in> set t \<Longrightarrow> own r \<noteq> u"
  by (auto simp: no_row_def)

end
