(* ===== verification/Rewards.thy ===== *)
theory Rewards
  imports Store Levels "HOL-Library.Multiset"
begin

text \<open>
  Experience points: the counter per learner and skill (\<^verbatim>\<open>models/xp.py\<close>), the keyed awards with their receipts
  (\<^verbatim>\<open>services/benefits.py\<close>), the leaderboard, the XP routes (\<^verbatim>\<open>endpoints/xp.py\<close>), and the bookmark routes.
  The locale \<open>receipt_log\<close> is the contract of a keyed command: an exact retry gets the recorded answer and
  changes nothing, another request under the same key is refused.
\<close>

section \<open>Keyed commands\<close>

locale receipt_log =
  fixes run :: "'k \<Rightarrow> 'q \<Rightarrow> 'e \<Rightarrow> 's \<Rightarrow> ('a \<times> 's) result"
    and receipt :: "'s \<Rightarrow> 'k \<Rightarrow> ('q \<times> 'a) option"
    and durable :: "'a \<Rightarrow> bool"
  assumes replay: "receipt s k = Some (q, a) \<Longrightarrow> run k q e s = Inr (a, s)"
    and conflict: "receipt s k = Some (q', a) \<Longrightarrow> q' \<noteq> q \<Longrightarrow> \<exists>er. run k q e s = Inl er"
    and records: "run k q e s = Inr (a, s') \<Longrightarrow> durable a \<Longrightarrow> receipt s' k = Some (q, a)"
begin

lemma retry_same:
  assumes "run k q e s = Inr (a, s')" "durable a"
  shows "run k q e' s' = Inr (a, s')"
  by (rule replay [OF records [OF assms]])

lemma one_request_per_key:
  assumes "run k q e s = Inr (a, s')" "durable a" "run k q' e' s' = Inr (a', s'')"
  shows "q' = q \<and> a' = a \<and> s'' = s'"
proof (cases "q = q'")
  case True
  then show ?thesis using retry_same [OF assms(1,2), of e'] assms(3) by simp
next
  case False
  then show ?thesis using conflict [OF records [OF assms(1,2)] False, of e'] assms(3) by auto
qed

lemma retries_same:
  assumes "run k q e s = Inr (a, s')" "durable a"
  shows "fold (\<lambda>e s. case run k q e s of Inr (a, s') \<Rightarrow> s' | Inl er \<Rightarrow> s) es s' = s'"
  using retry_same [OF assms] by (induction es) auto

end

section \<open>The counter\<close>

text \<open>Writes to the row a query found first.\<close>

fun update_first :: "('r \<Rightarrow> bool) \<Rightarrow> ('r \<Rightarrow> 'r) \<Rightarrow> 'r list \<Rightarrow> 'r list" where
  "update_first P f [] = []"
| "update_first P f (r # t) = (if P r then f r # t else r # update_first P f t)"

lemma set_update_first: "r \<in> set (update_first P f t) \<Longrightarrow> r \<in> set t \<or> (\<exists>r0\<in>set t. P r0 \<and> r = f r0)"
  by (induction t) (auto split: if_splits)

abbreviation (input) xp_of_row :: "string \<Rightarrow> string \<Rightarrow> xp_row \<Rightarrow> bool" where
  "xp_of_row u s \<equiv> \<lambda>x. xp_user x = u \<and> xp_skill x = s"

text \<open>The column is a 64-bit integer; a value outside it is refused by the database.\<close>

definition bigint :: "int \<Rightarrow> bool" where
  "bigint n \<longleftrightarrow> - (2 ^ 63) \<le> n \<and> n < 2 ^ 63"

definition add_xp :: "int \<Rightarrow> string \<Rightarrow> string \<Rightarrow> int \<Rightarrow> unit handler" where
  "add_xp now u s n db0 = (let (guard, db) = lock_user db0 u in
     if pu_deleted guard then Inl (Http 404 ''Learning data was erased'')
     else let t = (if exists_row (xp_of_row u s) (xps db) then xps db
                   else add_row \<lparr>xp_user = u, xp_skill = s, xp_xp = 0, xp_updated = Some now\<rparr> (xps db));
              total = (case first_row (xp_of_row u s) t of Some r \<Rightarrow> xp_xp r + n | None \<Rightarrow> n)
          in if bigint total
             then Inr ((), db\<lparr>xps := update_first (xp_of_row u s)
                     (\<lambda>r. r\<lparr>xp_xp := xp_xp r + n, xp_updated := Some now\<rparr>) t\<rparr>)
             else Inl (Crash ''bigint out of range''))"

definition get_user_skill_xp :: "database \<Rightarrow> string \<Rightarrow> string \<Rightarrow> int" where
  "get_user_skill_xp db u s = sum_list (map xp_xp (all_rows (xp_of_row u s) (xps db)))"

text \<open>\<^verbatim>\<open>get_user_skill_levels\<close>: one level per skill of the learner, a later row over an earlier one.\<close>

definition get_user_skill_levels :: "database \<Rightarrow> string \<Rightarrow> (string \<times> int) list result" where
  "get_user_skill_levels db u = map_r
     (\<lambda>r. bind_r (calc_sub_skill_level (xp_xp r)) (\<lambda>l. Inr (xp_skill r, l)))
     (all_rows (\<lambda>x. xp_user x = u) (xps db))"

definition get_skill_graduates :: "database \<Rightarrow> string \<Rightarrow> int \<Rightarrow> string set" where
  "get_skill_graduates db s level = set (map xp_user
     (all_rows (\<lambda>x. xp_skill x = s \<and> calc_sub_skill_xp_needed level \<le> xp_xp x) (xps db)))"

definition get_user_xp :: "database \<Rightarrow> string \<Rightarrow> int" where
  "get_user_xp db u = sum_list (map xp_xp (all_rows (\<lambda>x. xp_user x = u) (xps db)))"

section \<open>The leaderboard\<close>

text \<open>Without a snapshot of participants every row counts (the legacy set).\<close>

definition published_participants :: "string list option \<Rightarrow> xp_row list \<Rightarrow> xp_row list" where
  "published_participants ps t = (case ps of None \<Rightarrow> t | Some us \<Rightarrow> all_rows (\<lambda>x. xp_user x \<in> set us) t)"

definition group_users :: "xp_row list \<Rightarrow> string list" where
  "group_users t = fromkeys (map xp_user t)"

definition user_total :: "xp_row list \<Rightarrow> string \<Rightarrow> int" where
  "user_total t u = sum_list (map xp_xp (all_rows (\<lambda>x. xp_user x = u) t))"

definition rank_in :: "xp_row list \<Rightarrow> int \<Rightarrow> int" where
  "rank_in t n = int (length (filter (\<lambda>u. user_total t u > n) (group_users t))) + 1"

definition rank_of :: "database \<Rightarrow> int \<Rightarrow> string list option \<Rightarrow> int" where
  "rank_of db n ps = rank_in (published_participants ps (xps db)) n"

definition count_users :: "database \<Rightarrow> string list option \<Rightarrow> nat" where
  "count_users db ps = length (group_users (published_participants ps (xps db)))"

text \<open>
  \<^verbatim>\<open>max(last_update)\<close> of a group: \<open>None\<close> (SQL NULL) when no row has an instant. PostgreSQL sorts NULL last.
\<close>

definition last_update :: "xp_row list \<Rightarrow> string \<Rightarrow> int option" where
  "last_update t u = (let ts = map the (filter (\<lambda>x. x \<noteq> None) (map xp_updated (all_rows (\<lambda>x. xp_user x = u) t)))
     in if ts = [] then None else Some (foldl max (hd ts) (tl ts)))"

definition board_key :: "string list option \<Rightarrow> xp_row list \<Rightarrow> string \<Rightarrow> int \<times> bool \<times> int \<times> string" where
  "board_key ps t u = (- user_total t u, last_update t u = None,
     case last_update t u of Some m \<Rightarrow> m | None \<Rightarrow> 0, if ps = None then [] else u)"

text \<open>The loop over the page: the rank falls to the position of a learner with fewer points.\<close>

fun page_ranks :: "int \<Rightarrow> int \<Rightarrow> int \<Rightarrow> (string \<times> int) list \<Rightarrow> (string \<times> int \<times> int) list" where
  "page_ranks pos rank rank_xp [] = []"
| "page_ranks pos rank rank_xp ((u, n) # rows) =
     (let (rank, rank_xp) = (if n < rank_xp then (pos + 1, n) else (rank, rank_xp))
      in (u, n, rank) # page_ranks (pos + 1) rank rank_xp rows)"

definition get_leaderboard :: "database \<Rightarrow> nat \<Rightarrow> nat \<Rightarrow> string list option \<Rightarrow> (string \<times> int \<times> int) list" where
  "get_leaderboard db limit offset ps = (let t = published_participants ps (xps db);
       rows = take limit (drop offset (map (\<lambda>u. (u, user_total t u)) (sort_key (board_key ps t) (group_users t))));
       rank_xp = (case rows of [] \<Rightarrow> 0 | (u, n) # _ \<Rightarrow> n)
     in page_ranks (int offset) (rank_of db rank_xp ps) rank_xp rows)"

section \<open>Keyed awards\<close>

text \<open>What the service reads from outside in one request: the clock and the account's status at the auth service.\<close>

record award_env =
  ae_now :: int
  ae_status :: nat

definition xo_with :: "string \<Rightarrow> database \<Rightarrow> xp_operation option" where
  "xo_with op db = row_by xo_id op (xp_operations db)"

definition claim_operation :: "int \<Rightarrow> string \<Rightarrow> xp_request \<Rightarrow> database \<Rightarrow> database" where
  "claim_operation now op q db = (if xo_with op db = None
     then db\<lparr>xp_operations := add_row \<lparr>xo_id = op, xo_user = xq_user q, xo_request = q, xo_result = None,
       xo_received = now, xo_completed = None\<rparr> (xp_operations db)\<rparr> else db)"

definition apply_xp :: "string \<Rightarrow> xp_request \<Rightarrow> award_env \<Rightarrow> xp_receipt handler" where
  "apply_xp op q env db0 = (let db = claim_operation (ae_now env) op q db0 in
     case xo_with op db of
       None \<Rightarrow> Inl (Http 503 ''Benefit receipt unavailable'')
     | Some row \<Rightarrow>
       if xo_request row \<noteq> q then Inl (Http 409 ''Conflicting benefit operation'')
       else case xo_result row of Some result \<Rightarrow> Inr (result, db)
       | None \<Rightarrow>
         let (guard, db) = lock_user db (xq_user q) in
         if pu_deleted guard
         then Inr (\<lparr>xc_operation = op, xc_request = q, xc_state = ''recipient_erased'', xc_applied = False\<rparr>,
           db\<lparr>xp_operations := drop_by xo_id op (xp_operations db)\<rparr>)
         else if ae_status env = 200
         then if \<not> exists_row (\<lambda>s. sk_id s = xq_skill q) (sub_skills db)
              then Inl (Http 404 ''Benefit skill unavailable'')
              else bind_r (add_xp (ae_now env) (xq_user q) (xq_skill q) (xq_xp q) db) (\<lambda>(_, db).
                let result = \<lparr>xc_operation = op, xc_request = q, xc_state = ''applied'', xc_applied = True\<rparr>
                in Inr (result, db\<lparr>xp_operations := modify_by xo_id op
                     (\<lambda>r. r\<lparr>xo_result := Some result, xo_completed := Some (ae_now env)\<rparr>) (xp_operations db)\<rparr>))
         else Inl (Http 503 ''Benefit recipient status unavailable''))"

section \<open>The XP routes\<close>

record sub_skill_xp =
  sx_skill :: string
  sx_xp :: int
  sx_level :: int
  sx_progress :: rat

record root_skill_xp =
  rx_skill :: string
  rx_xp :: int
  rx_level :: int
  rx_progress :: rat
  rx_skills :: "sub_skill_xp list"

record xp_response =
  xr_total_xp :: int
  xr_total_level :: int
  xr_progress :: rat
  xr_skills :: "root_skill_xp list"

text \<open>
  The response models demand a progress in \<open>[0, 1]\<close>; anything else fails the response (a 500).
\<close>

definition checked_progress :: "rat \<Rightarrow> rat result" where
  "checked_progress p = (if 0 \<le> p \<and> p \<le> 1 then Inr p else Inl (Crash ''invalid response''))"

definition sub_skill_view :: "string \<Rightarrow> int \<Rightarrow> sub_skill_xp result" where
  "sub_skill_view s n = bind_r (calc_sub_skill_level n) (\<lambda>l.
     bind_r (bind_r (calc_progress n l calc_sub_skill_xp_needed) checked_progress) (\<lambda>p.
     Inr \<lparr>sx_skill = s, sx_xp = n, sx_level = l, sx_progress = p\<rparr>))"

text \<open>\<^verbatim>\<open>{row.skill_id: row.xp ...}\<close>: the last row of a skill wins, a missing skill has 0.\<close>

definition xp_record :: "database \<Rightarrow> string \<Rightarrow> string \<Rightarrow> int" where
  "xp_record db u s = (case first_row (xp_of_row u s) (rev (xps db)) of Some r \<Rightarrow> xp_xp r | None \<Rightarrow> 0)"

definition root_skill_view :: "database \<Rightarrow> string \<Rightarrow> root_skill \<Rightarrow> root_skill_xp result" where
  "root_skill_view db u rt = bind_r
     (map_r (\<lambda>k. sub_skill_view (sk_id k) (xp_record db u (sk_id k)))
        (all_rows (\<lambda>k. sk_parent k = rk_id rt) (sub_skills db))) (\<lambda>subs.
     let total = sum_list (map sx_xp subs) in
     bind_r (calc_root_skill_level total) (\<lambda>l.
     bind_r (bind_r (calc_progress total l calc_root_skill_xp_needed) checked_progress) (\<lambda>p.
     Inr \<lparr>rx_skill = rk_id rt, rx_xp = total, rx_level = l, rx_progress = p, rx_skills = subs\<rparr>)))"

definition get_xp :: "database \<Rightarrow> string \<Rightarrow> xp_response result" where
  "get_xp db u = bind_r (map_r (root_skill_view db u) (root_skills db)) (\<lambda>roots.
     let total = sum_list (map rx_xp roots) in
     bind_r (calc_root_skill_level total) (\<lambda>l.
     bind_r (bind_r (calc_progress total l calc_global_xp_needed) checked_progress) (\<lambda>p.
     Inr \<lparr>xr_total_xp = total, xr_total_level = l, xr_progress = p, xr_skills = roots\<rparr>)))"

text \<open>\<^verbatim>\<open>PATCH /xp\<close>: sets a counter; neither the account guard nor the instant of the last update is touched.\<close>

definition update_xp :: "int option \<Rightarrow> string \<Rightarrow> string \<Rightarrow> string \<Rightarrow> sub_skill_xp handler" where
  "update_xp n rid s u db =
     (if \<not> exists_row (\<lambda>k. sk_id k = s \<and> sk_parent k = rid) (sub_skills db) then Inl (Http 404 ''skill not found'')
      else let t = (if exists_row (xp_of_row u s) (xps db)
                    then update_first (xp_of_row u s) (\<lambda>r. case n of Some v \<Rightarrow> r\<lparr>xp_xp := v\<rparr> | None \<Rightarrow> r) (xps db)
                    else add_row \<lparr>xp_user = u, xp_skill = s, xp_xp = (case n of Some v \<Rightarrow> v | None \<Rightarrow> 0),
                           xp_updated = None\<rparr> (xps db));
               v = (case first_row (xp_of_row u s) t of Some r \<Rightarrow> xp_xp r | None \<Rightarrow> 0)
           in bind_r (sub_skill_view s v) (\<lambda>view. Inr (view, db\<lparr>xps := t\<rparr>)))"

section \<open>Bookmark routes\<close>

definition create_sub_skill_bookmark :: "string \<Rightarrow> string \<Rightarrow> string \<Rightarrow> bool handler" where
  "create_sub_skill_bookmark u rid s db =
     (if exists_row (\<lambda>k. sk_id k = s \<and> sk_parent k = rid) (sub_skills db) then bookmark_create u rid s db
      else Inl (Http 404 ''skill not found''))"

definition delete_sub_skill_bookmark :: "string \<Rightarrow> string \<Rightarrow> string \<Rightarrow> bool handler" where
  "delete_sub_skill_bookmark u rid s db =
     (if exists_row (\<lambda>k. sk_id k = s \<and> sk_parent k = rid) (sub_skills db) then bookmark_delete u rid s db
      else Inl (Http 404 ''skill not found''))"

text \<open>The routes of a root skill act on every sub-skill and pass over the refusals.\<close>

definition create_bookmark :: "string \<Rightarrow> string \<Rightarrow> bool handler" where
  "create_bookmark u rid db =
     (if exists_row (\<lambda>k. rk_id k = rid) (root_skills db)
      then Inr (True, fold (\<lambda>k db. committed db (bookmark_create u (sk_parent k) (sk_id k) db))
             (all_rows (\<lambda>k. sk_parent k = rid) (sub_skills db)) db)
      else Inl (Http 404 ''skill not found''))"

definition delete_bookmark :: "string \<Rightarrow> string \<Rightarrow> bool handler" where
  "delete_bookmark u rid db =
     (if exists_row (\<lambda>k. rk_id k = rid) (root_skills db)
      then Inr (True, fold (\<lambda>k db. committed db (bookmark_delete u (sk_parent k) (sk_id k) db))
             (all_rows (\<lambda>k. sk_parent k = rid) (sub_skills db)) db)
      else Inl (Http 404 ''skill not found''))"

section \<open>The counter after an award\<close>

lemma sum_update_first:
  "first_row P t = Some r \<Longrightarrow> (\<And>r. P (f r) = P r) \<Longrightarrow>
    sum_list (map g (filter P (update_first P f t))) = sum_list (map g (filter P t)) - g r + (g (f r) :: int)"
  by (induction t) (auto split: if_splits)

lemma first_row_add_same: "\<not> exists_row P t \<Longrightarrow> P r \<Longrightarrow> first_row P (add_row r t) = Some r"
  by (auto simp: first_row_add_row exists_row_iff split: option.splits dest: first_row_SomeD)

lemma exists_row_first: "exists_row P t \<longleftrightarrow> (\<exists>r. first_row P t = Some r)"
  by (induction t) (auto simp: exists_row_def)

lemma add_xp_InrD:
  assumes "add_xp now u s n db = Inr (x, db')"
  shows "\<not> erased db u" "get_user_skill_xp db' u s = get_user_skill_xp db u s + n"
    "xp_operations db' = xp_operations db"
    "\<And>r. r \<in> set (xps db') \<Longrightarrow> r \<in> set (xps db) \<or> xp_user r = u"
    "\<exists>t. db' = snd (lock_user db u)\<lparr>xps := t\<rparr>"
proof -
  define t where "t = (if exists_row (xp_of_row u s) (xps db) then xps db
    else add_row \<lparr>xp_user = u, xp_skill = s, xp_xp = 0, xp_updated = Some now\<rparr> (xps db))"
  define f where "f = (\<lambda>r::xp_row. r\<lparr>xp_xp := xp_xp r + n, xp_updated := Some now\<rparr>)"
  have d: "\<not> erased db u" and db': "db' = snd (lock_user db u)\<lparr>xps := update_first (xp_of_row u s) f t\<rparr>"
    using assms by (auto simp: add_xp_def Let_def t_def f_def case_prod_beta split: if_splits)
  from d show "\<not> erased db u" .
  from db' show "\<exists>t. db' = snd (lock_user db u)\<lparr>xps := t\<rparr>" by blast
  from db' show "xp_operations db' = xp_operations db" by simp
  obtain r where r: "first_row (xp_of_row u s) t = Some r"
    unfolding t_def by (cases "exists_row (xp_of_row u s) (xps db)") (auto simp: exists_row_first first_row_add_same)
  have "sum_list (map xp_xp (filter (xp_of_row u s) t)) = get_user_skill_xp db u s"
    by (simp add: t_def get_user_skill_xp_def all_rows_def add_row_def)
  then show "get_user_skill_xp db' u s = get_user_skill_xp db u s + n"
    using sum_update_first [OF r, of f xp_xp] by (simp add: db' f_def get_user_skill_xp_def all_rows_def)
  show "r \<in> set (xps db) \<or> xp_user r = u" if "r \<in> set (xps db')" for r
    using that by (auto simp: db' t_def f_def row_simps split: if_splits dest!: set_update_first)
qed

section \<open>The receipts of awards\<close>

definition award_receipt :: "database \<Rightarrow> string \<Rightarrow> (xp_request \<times> xp_receipt) option" where
  "award_receipt db op = (case xo_with op db of
     Some r \<Rightarrow> map_option (\<lambda>a. (xo_request r, a)) (xo_result r) | None \<Rightarrow> None)"

lemma xo_with_lock_user [simp]: "xo_with op (snd (lock_user db u)) = xo_with op db"
  by (simp add: xo_with_def)

lemma claim_other: "xo_with op db \<noteq> None \<Longrightarrow> claim_operation now op q db = db"
  by (auto simp: claim_operation_def)

lemma xo_with_claim: "xo_with op (claim_operation now op q db) = Some
    (case xo_with op db of Some r \<Rightarrow> r | None \<Rightarrow> \<lparr>xo_id = op, xo_user = xq_user q, xo_request = q,
      xo_result = None, xo_received = now, xo_completed = None\<rparr>)"
  by (auto simp: claim_operation_def xo_with_def rows.get_put split: option.splits)

lemma claim_xps [simp]: "xps (claim_operation now op q db) = xps db"
  by (simp add: claim_operation_def)

text \<open>The three ways an award can succeed.\<close>

lemma apply_xp_cases:
  assumes "apply_xp op q env db = Inr (res, db')"
  obtains (replayed) r where "xo_with op db = Some r" "xo_request r = q" "xo_result r = Some res" "db' = db"
  | (refused) "erased db (xq_user q)" "\<not> xc_applied res" "award_receipt db op = None"
      "db' = (let db1 = snd (lock_user (claim_operation (ae_now env) op q db) (xq_user q))
              in db1\<lparr>xp_operations := drop_by xo_id op (xp_operations db1)\<rparr>)"
      "xc_state res = ''recipient_erased''"
  | (applied) db1 where "\<not> erased db (xq_user q)" "award_receipt db op = None"
      "res = \<lparr>xc_operation = op, xc_request = q, xc_state = ''applied'', xc_applied = True\<rparr>"
      "add_xp (ae_now env) (xq_user q) (xq_skill q) (xq_xp q)
         (snd (lock_user (claim_operation (ae_now env) op q db) (xq_user q))) = Inr ((), db1)"
      "db' = db1\<lparr>xp_operations := modify_by xo_id op
         (\<lambda>r. r\<lparr>xo_result := Some res, xo_completed := Some (ae_now env)\<rparr>) (xp_operations db1)\<rparr>"
      "xo_request (the (xo_with op (claim_operation (ae_now env) op q db))) = q"
proof -
  define db0 where "db0 = claim_operation (ae_now env) op q db"
  define row where "row = the (xo_with op db0)"
  have row: "xo_with op db0 = Some row" by (simp add: row_def db0_def xo_with_claim)
  have er: "erased db0 (xq_user q) = erased db (xq_user q)"
    by (simp add: db0_def claim_operation_def erased_def)
  have q: "xo_request row = q" using assms row by (auto simp: apply_xp_def db0_def [symmetric] Let_def split: if_splits)
  show thesis
  proof (cases "xo_result row")
    case (Some a)
    then have "xo_with op db = Some row" using row by (auto simp: db0_def xo_with_claim split: option.splits)
    moreover from this have "db0 = db" by (simp add: db0_def claim_other)
    moreover have "a = res" "db' = db0" using assms row q Some by (auto simp: apply_xp_def db0_def [symmetric] Let_def)
    ultimately show thesis using Some q replayed by blast
  next
    case None
    have nr: "award_receipt db op = None"
      using row None by (auto simp: award_receipt_def db0_def xo_with_claim split: option.splits)
    show thesis
    proof (cases "erased db (xq_user q)")
      case True
      then show thesis using assms row q None nr er
        by (intro refused) (auto simp: apply_xp_def db0_def [symmetric] Let_def case_prod_beta)
    next
      case False
      with assms row q None er obtain db1 where
        "add_xp (ae_now env) (xq_user q) (xq_skill q) (xq_xp q) (snd (lock_user db0 (xq_user q))) = Inr ((), db1)"
        "res = \<lparr>xc_operation = op, xc_request = q, xc_state = ''applied'', xc_applied = True\<rparr>"
        "db' = db1\<lparr>xp_operations := modify_by xo_id op
         (\<lambda>r. r\<lparr>xo_result := Some res, xo_completed := Some (ae_now env)\<rparr>) (xp_operations db1)\<rparr>"
        by (auto simp: apply_xp_def db0_def [symmetric] Let_def case_prod_beta result_simps split: if_splits)
      with False nr q row show thesis by (intro applied) (auto simp: db0_def)
    qed
  qed
qed

interpretation awards: receipt_log apply_xp award_receipt xc_applied
proof (unfold_locales, goal_cases)
  case (1 s k q a e)
  then show ?case by (auto simp: award_receipt_def apply_xp_def Let_def claim_other split: option.splits)
next
  case (2 s k q' a q e)
  then show ?case by (auto simp: award_receipt_def apply_xp_def Let_def claim_other split: option.splits)
next
  case (3 k q e s a s')
  from 3(1) show ?case
  proof (cases rule: apply_xp_cases)
    case (replayed r)
    then show ?thesis by (simp add: award_receipt_def)
  next
    case refused
    with 3(2) show ?thesis by simp
  next
    case (applied db1)
    from add_xp_InrD(3) [OF applied(4)] have "xp_operations db1 = xp_operations (claim_operation (ae_now e) k q s)"
      by simp
    with applied(5,6) show ?thesis
      by (auto simp: award_receipt_def xo_with_def rows.get_modify xo_with_claim [unfolded xo_with_def]
          split: option.splits)
  qed
qed

section \<open>Awards and erased accounts\<close>

lemma gone_add_xp:
  assumes "gone db v" "add_xp now u s n db = Inr (x, db')"
  shows "gone db' v"
proof -
  obtain t where t: "db' = snd (lock_user db u)\<lparr>xps := t\<rparr>" using add_xp_InrD(5) [OF assms(2)] by blast
  have "u \<noteq> v" using add_xp_InrD(1) [OF assms(2)] assms(1) by (auto simp: gone_def)
  with add_xp_InrD(4) [OF assms(2)] gone_row(16) [OF assms(1)] have "no_row xp_user v t"
    by (auto simp: t no_row_def)
  with assms(1) show ?thesis unfolding t by (intro gone_write) simp_all
qed

lemma gone_claim:
  "gone db v \<Longrightarrow> xq_user q \<noteq> v \<Longrightarrow> gone (claim_operation now op q db) v"
  by (auto simp: claim_operation_def intro!: gone_write gone_row)

lemma claim_and_drop:
  "xp_operations (snd (lock_user (claim_operation now op q db) u)) = xp_operations (claim_operation now op q db)"
  "snd (lock_user (claim_operation now op q db) u)\<lparr>xp_operations := t\<rparr> = snd (lock_user db u)\<lparr>xp_operations := t\<rparr>"
  by (auto simp: claim_operation_def lock_user_def Let_def split: option.splits)

lemma drop_claimed: "drop_by xo_id op (xp_operations (claim_operation now op q db)) = drop_by xo_id op (xp_operations db)"
  by (simp add: claim_operation_def drop_by_def delete_rows_def add_row_def)

lemma gone_apply_xp:
  assumes g: "gone db v" and run: "apply_xp op q env db = Inr (res, db')"
  shows "gone db' v"
  using run
proof (cases rule: apply_xp_cases)
  case (replayed r)
  with g show ?thesis by simp
next
  case refused
  then have "db' = snd (lock_user db (xq_user q))\<lparr>xp_operations := drop_by xo_id op (xp_operations db)\<rparr>"
    by (simp add: Let_def claim_and_drop drop_claimed)
  then show ?thesis using g by (auto intro!: gone_write gone_row no_row_intros)
next
  case (applied db1)
  have "xq_user q \<noteq> v" using applied(1) g by (auto simp: gone_def)
  with g have "gone (snd (lock_user (claim_operation (ae_now env) op q db) (xq_user q))) v"
    by (simp add: gone_claim)
  from gone_add_xp [OF this applied(4)] show ?thesis
    unfolding applied(5) by (auto intro!: gone_write gone_row no_row_intros)
qed

interpretation award_steps: guarded "\<lambda>(op, q, env) db. committed db (apply_xp op q env db)"
  by unfold_locales (auto intro: gone_committed gone_apply_xp)

section \<open>Ranks\<close>

lemma page_ranks_take: "page_ranks p rk rx (take n rows) = take n (page_ranks p rk rx rows)"
proof (induction n arbitrary: p rk rx rows)
  case (Suc n)
  then show ?case by (cases rows) (auto simp: Let_def split: prod.splits if_splits)
qed simp

lemma page_ranks_correct:
  fixes tot :: "string \<Rightarrow> int"
  assumes "sorted_wrt (\<lambda>u v. tot v \<le> tot u) (pre @ us)" "\<forall>v\<in>set pre. rx \<le> tot v" "\<forall>v\<in>set us. tot v \<le> rx"
    and R: "R = (\<lambda>n. int (length (filter (\<lambda>u. n < tot u) (pre @ us))) + 1)" and "rk = R rx"
  shows "page_ranks (int (length pre)) rk rx (map (\<lambda>u. (u, tot u)) us) = map (\<lambda>u. (u, tot u, R (tot u))) us"
  using assms
proof (induction us arbitrary: pre rk rx)
  case (Cons u us)
  define rx' where "rx' = (if tot u < rx then tot u else rx)"
  have eq: "rx' = tot u" using Cons.prems(3) by (auto simp: rx'_def)
  have rk': "(if tot u < rx then int (length pre) + 1 else rk) = R (tot u)"
  proof (cases "tot u < rx")
    case True
    have "filter (\<lambda>v. tot u < tot v) pre = pre" using Cons.prems(2) True by (auto simp: filter_id_conv)
    moreover have "filter (\<lambda>v. tot u < tot v) us = []"
      using Cons.prems(1) by (auto simp: filter_empty_conv sorted_wrt_append not_less)
    ultimately show ?thesis using True Cons.prems(4) by simp
  next
    case False
    then have "tot u = rx" using eq by (simp add: rx'_def)
    with False Cons.prems(5) show ?thesis by simp
  qed
  have "page_ranks (int (length (pre @ [u]))) (R (tot u)) (tot u) (map (\<lambda>u. (u, tot u)) us) =
      map (\<lambda>u. (u, tot u, R (tot u))) us"
  proof (rule Cons.IH)
    show "sorted_wrt (\<lambda>u v. tot v \<le> tot u) ((pre @ [u]) @ us)" using Cons.prems(1) by simp
    show "\<forall>v\<in>set (pre @ [u]). tot u \<le> tot v" using Cons.prems(1) by (auto simp: sorted_wrt_append)
    show "\<forall>v\<in>set us. tot v \<le> tot u" using Cons.prems(1) by (auto simp: sorted_wrt_append)
    show "R = (\<lambda>n. int (length (filter (\<lambda>u. n < tot u) ((pre @ [u]) @ us))) + 1)" using Cons.prems(4) by simp
  qed simp
  then show ?case using rk' eq by (auto simp: rx'_def Let_def add.commute split: if_splits)
qed simp

lemma board_sorted: "sorted_wrt (\<lambda>u v. user_total t v \<le> user_total t u) (sort_key (board_key ps t) us)"
proof -
  have "sorted_wrt (\<lambda>u v. board_key ps t u \<le> board_key ps t v) (sort_key (board_key ps t) us)"
    using sorted_sort_key [of "board_key ps t" us] by (simp add: sorted_map)
  then show ?thesis by (rule sorted_wrt_mono_rel [rotated]) (auto simp: board_key_def less_eq_prod_def)
qed

text \<open>
  The leaderboard. Every entry of a page carries the learner's total and the rank \<open>1 + \<close> the number of
  learners of the comparison set with strictly more XP, whatever the page's offset and limit; so ties share a
  rank and the page agrees with \<^verbatim>\<open>rank_of\<close>.
\<close>

theorem leaderboard_ranks:
  "get_leaderboard db limit offset ps = (let t = published_participants ps (xps db) in
     map (\<lambda>u. (u, user_total t u, rank_of db (user_total t u) ps))
       (take limit (drop offset (sort_key (board_key ps t) (group_users t)))))"
proof -
  define t where "t = published_participants ps (xps db)"
  define L where "L = sort_key (board_key ps t) (group_users t)"
  define us where "us = drop offset L"
  define rows where "rows = map (\<lambda>u. (u, user_total t u)) us"
  have page: "drop offset (map (\<lambda>u. (u, user_total t u)) L) = rows"
    by (simp add: rows_def us_def drop_map)
  have rank: "rank_of db n ps = int (length (filter (\<lambda>u. n < user_total t u) L)) + 1" for n
  proof -
    have "mset (filter (\<lambda>u. n < user_total t u) L) = mset (filter (\<lambda>u. n < user_total t u) (group_users t))"
      by (simp add: L_def)
    then have "length (filter (\<lambda>u. n < user_total t u) L) = length (filter (\<lambda>u. n < user_total t u) (group_users t))"
      by (metis size_mset)
    then show ?thesis by (simp add: rank_of_def rank_in_def t_def)
  qed
  show ?thesis
  proof (cases "take limit rows")
    case Nil
    then have "take limit us = []" by (auto simp: rows_def)
    then show ?thesis using Nil page
      by (simp only: get_leaderboard_def Let_def t_def [symmetric] L_def [symmetric] us_def [symmetric]) simp
  next
    case (Cons a list)
    then obtain u us' where us: "us = u # us'" "a = (u, user_total t u)" by (cases us; cases limit) (auto simp: rows_def)
    have "offset \<le> length L" using us(1) by (cases "offset \<le> length L") (auto simp: us_def)
    then have off: "length (take offset L) = offset" by simp
    have L: "L = take offset L @ us" by (simp add: us_def)
    have s: "sorted_wrt (\<lambda>u v. user_total t v \<le> user_total t u) (take offset L @ us)"
      using board_sorted L by (metis L_def)
    have "page_ranks (int (length (take offset L))) (rank_of db (user_total t u) ps) (user_total t u)
        (map (\<lambda>u. (u, user_total t u)) us) = map (\<lambda>v. (v, user_total t v, (\<lambda>n. rank_of db n ps) (user_total t v))) us"
    proof (rule page_ranks_correct)
      show "sorted_wrt (\<lambda>u v. user_total t v \<le> user_total t u) (take offset L @ us)" by (rule s)
      show "\<forall>v\<in>set (take offset L). user_total t u \<le> user_total t v" using s us by (auto simp: sorted_wrt_append)
      show "\<forall>v\<in>set us. user_total t v \<le> user_total t u" using s us by (auto simp: sorted_wrt_append)
      show "(\<lambda>n. rank_of db n ps) = (\<lambda>n. int (length (filter (\<lambda>u. n < user_total t u) (take offset L @ us))) + 1)"
        using rank L by simp
    qed simp
    then have "page_ranks (int offset) (rank_of db (user_total t u) ps) (user_total t u) (take limit rows) =
        map (\<lambda>v. (v, user_total t v, rank_of db (user_total t v) ps)) (take limit us)"
      unfolding page_ranks_take rows_def off by (simp add: take_map)
    moreover have "get_leaderboard db limit offset ps =
        page_ranks (int offset) (rank_of db (user_total t u) ps) (user_total t u) (take limit rows)"
      using page Cons us(2) by (simp add: get_leaderboard_def Let_def t_def [symmetric] L_def [symmetric])
    ultimately show ?thesis by (simp add: Let_def t_def [symmetric] L_def [symmetric] us_def [symmetric])
  qed
qed

section \<open>Properties\<close>

text \<open>
  C15: a keyed award is booked exactly once. When \<open>apply_xp\<close> answers that the award is applied, every later
  delivery of the same command gets the same answer and leaves the database as it is, every other command under
  the key is refused, and without an earlier receipt the learner's counter has grown by exactly the award.
\<close>

theorem award_exactly_once:
  assumes "apply_xp op q env db = Inr (res, db')" "xc_applied res"
  shows "apply_xp op q env' db' = Inr (res, db') \<and>
    (\<forall>q'. q' \<noteq> q \<longrightarrow> (\<exists>er. apply_xp op q' env' db' = Inl er)) \<and>
    (award_receipt db op = None \<longrightarrow>
      get_user_skill_xp db' (xq_user q) (xq_skill q) = get_user_skill_xp db (xq_user q) (xq_skill q) + xq_xp q)"
proof (intro conjI allI impI)
  show "apply_xp op q env' db' = Inr (res, db')" using assms by (rule awards.retry_same)
  show "\<exists>er. apply_xp op q' env' db' = Inl er" if "q' \<noteq> q" for q'
    using awards.conflict [OF awards.records [OF assms]] that by auto
  show "get_user_skill_xp db' (xq_user q) (xq_skill q) = get_user_skill_xp db (xq_user q) (xq_skill q) + xq_xp q"
    if "award_receipt db op = None"
    using assms(1)
  proof (cases rule: apply_xp_cases)
    case (applied db1)
    have "get_user_skill_xp db' (xq_user q) (xq_skill q) = get_user_skill_xp db1 (xq_user q) (xq_skill q)"
      by (simp add: applied(5) get_user_skill_xp_def)
    then show ?thesis using add_xp_InrD(2) [OF applied(4)] by (simp add: get_user_skill_xp_def)
  qed (use that assms(2) in \<open>auto simp: award_receipt_def\<close>)
qed

text \<open>A database with one sub-skill, and an award of 25 XP on it.\<close>

definition example_db :: database where
  "example_db = empty_db\<lparr>sub_skills := [\<lparr>sk_id = ''loops'', sk_parent = ''python'', sk_name = ''Loops'',
     sk_row = 1, sk_column = 1, sk_icon = None\<rparr>]\<rparr>"

definition example_award :: xp_request where
  "example_award = \<lparr>xq_user = ''u'', xq_skill = ''loops'', xq_xp = 25, xq_earning = ''e''\<rparr>"

lemma example_award_applies:
  "\<exists>res db'. apply_xp ''op'' example_award \<lparr>ae_now = 1, ae_status = 200\<rparr> example_db = Inr (res, db') \<and> xc_applied res"
proof -
  have "case apply_xp ''op'' example_award \<lparr>ae_now = 1, ae_status = 200\<rparr> example_db of
      Inl e \<Rightarrow> False | Inr (res, db') \<Rightarrow> xc_applied res"
    by code_simp
  then show ?thesis by (auto split: sum.splits)
qed

lemma award_exactly_once_witness:
  "\<exists>res db'. xc_applied res \<and> apply_xp ''op'' example_award \<lparr>ae_now = 2, ae_status = 404\<rparr> db' = Inr (res, db') \<and>
    get_user_skill_xp db' ''u'' ''loops'' = 25"
proof -
  obtain res db' where run: "apply_xp ''op'' example_award \<lparr>ae_now = 1, ae_status = 200\<rparr> example_db = Inr (res, db')"
    "xc_applied res"
    using example_award_applies by blast
  have "award_receipt example_db ''op'' = None" "get_user_skill_xp example_db ''u'' ''loops'' = 0" by code_simp+
  with award_exactly_once [OF run, of "\<lparr>ae_now = 2, ae_status = 404\<rparr>"] run(2) show ?thesis
    by (auto simp: example_award_def)
qed

text \<open>
  No keyed award writes live data of an erased account: whatever the order, the requests and the answers of
  the auth service, an account whose data is gone stays without data.
\<close>

theorem awards_respect_erasure:
  assumes "gone db u"
  shows "gone (fold (\<lambda>(op, q, env) db. committed db (apply_xp op q env db)) requests db) u"
  using assms by (rule award_steps.run_keeps_gone)

lemma awards_respect_erasure_witness:
  "gone (fold (\<lambda>(op, q, env) db. committed db (apply_xp op q env db))
     [(''op'', example_award, \<lparr>ae_now = 1, ae_status = 200\<rparr>)]
     (example_db\<lparr>users := [\<lparr>pu_user = ''u'', pu_deleted = True\<rparr>]\<rparr>)) ''u''"
  by (rule awards_respect_erasure) code_simp

end
