(* ===== verification/Content.thy ===== *)
theory Content
  imports Rows
begin

text \<open>
  What the service teaches: courses with their videos (\<^verbatim>\<open>schemas/course.py\<close>), the learning-room catalogue
  (\<^verbatim>\<open>schemas/rooms.py\<close>) and authored curricula (\<^verbatim>\<open>schemas/curriculum.py\<close>), with their validators as
  bool-valued functions: a value the schema accepts is one for which the validator is true. Texts for learners
  are lists of code points (\<open>ustr\<close>), identifiers strings.
\<close>

record localized_text =
  lt_de :: ustr
  lt_en :: ustr

section \<open>Courses\<close>

datatype video = Youtube string | Mp4

record lecture =
  le_id :: string
  le_title :: ustr
  le_description :: "ustr option"
  le_video :: video
  le_duration :: int

record course_section =
  se_id :: string
  se_title :: ustr
  se_description :: "ustr option"
  se_lectures :: "lecture list"

record course_translation =
  tl_title :: "ustr option"
  tl_description :: "ustr option"
  tl_goals :: "ustr list option"
  tl_requirements :: "ustr list option"

section \<open>Authored curricula\<close>

datatype activity_source =
    Room_source string
  | Lecture_source string string string

datatype activity_role = Explanation | Practice_role

record activity_ref =
  ar_id :: string
  ar_source :: activity_source
  ar_title :: "localized_text option"
  ar_roles :: "activity_role list option"

record lesson_def =
  ld_id :: string
  ld_title :: localized_text
  ld_chapter :: "string option"
  ld_activities :: "activity_ref list"

record course_chapter =
  ch_id :: string
  ch_title :: localized_text

record curriculum =
  cu_chapters :: "course_chapter list"
  cu_lessons :: "lesson_def list"

text \<open>A key of 1 to 256 characters.\<close>

definition key256 :: "string \<Rightarrow> bool" where
  "key256 s \<longleftrightarrow> 1 \<le> length s \<and> length s \<le> 256"

definition valid_activity :: "activity_ref \<Rightarrow> bool" where
  "valid_activity a \<longleftrightarrow> key256 (ar_id a) \<and> ar_roles a \<noteq> Some [] \<and>
     (case ar_source a of Room_source u \<Rightarrow> ar_id a = u | Lecture_source _ _ _ \<Rightarrow> True)"

definition valid_lesson :: "lesson_def \<Rightarrow> bool" where
  "valid_lesson l \<longleftrightarrow> key256 (ld_id l) \<and> ld_activities l \<noteq> [] \<and> list_all valid_activity (ld_activities l) \<and>
     distinct (map ar_id (ld_activities l))"

text \<open>\<open>valid_structure\<close>: the identities seen so far are an association list.\<close>

fun activities_consistent :: "(string \<times> activity_source) list \<Rightarrow> activity_ref list \<Rightarrow> bool" where
  "activities_consistent ids [] = True"
| "activities_consistent ids (a # as) =
     ((case map_of ids (ar_id a) of Some s \<Rightarrow> s = ar_source a | None \<Rightarrow> True) \<and>
      activities_consistent ((ar_id a, ar_source a) # ids) as)"

definition valid_structure :: "curriculum \<Rightarrow> bool" where
  "valid_structure c \<longleftrightarrow>
     distinct (map ch_id (cu_chapters c)) \<and> distinct (map ld_id (cu_lessons c)) \<and>
     list_all (\<lambda>l. case ld_chapter l of None \<Rightarrow> True | Some ch \<Rightarrow> ch \<in> set (map ch_id (cu_chapters c))) (cu_lessons c) \<and>
     activities_consistent [] (concat (map ld_activities (cu_lessons c)))"

definition valid_curriculum :: "curriculum \<Rightarrow> bool" where
  "valid_curriculum c \<longleftrightarrow> cu_lessons c \<noteq> [] \<and> list_all (\<lambda>ch. key256 (ch_id ch)) (cu_chapters c) \<and>
     list_all valid_lesson (cu_lessons c) \<and> valid_structure c"

definition agrees :: "(string \<times> activity_source) list \<Rightarrow> activity_ref \<Rightarrow> bool" where
  "agrees ids a = (case map_of ids (ar_id a) of Some s \<Rightarrow> s = ar_source a | None \<Rightarrow> True)"

lemma agrees_Cons: "agrees ((ar_id a, ar_source a) # ids) b = (if ar_id a = ar_id b then ar_source a = ar_source b else agrees ids b)"
  by (simp add: agrees_def)

lemma agrees_cong: "ar_id a = ar_id b \<Longrightarrow> ar_source a = ar_source b \<Longrightarrow> agrees ids a = agrees ids b"
  by (simp add: agrees_def split: option.split)

definition same_work :: "activity_ref \<Rightarrow> activity_ref \<Rightarrow> bool" where
  "same_work a b \<longleftrightarrow> (ar_id a = ar_id b \<longrightarrow> ar_source a = ar_source b)"

lemma same_work_simps [simp]: "same_work a a" "same_work a b \<Longrightarrow> same_work b a"
  by (auto simp: same_work_def)

lemma agrees_step:
  "agrees ids a \<Longrightarrow> agrees ((ar_id a, ar_source a) # ids) b \<longleftrightarrow> same_work a b \<and> agrees ids b"
  using agrees_Cons [of a ids b] agrees_cong [of a b ids] by (auto simp: same_work_def split: if_splits)

lemma activities_consistent_iff:
  "activities_consistent ids as \<longleftrightarrow> (\<forall>a\<in>set as. agrees ids a) \<and> (\<forall>a\<in>set as. \<forall>b\<in>set as. same_work a b)"
proof (induction as arbitrary: ids)
  case (Cons a as)
  have "activities_consistent ids (a # as) \<longleftrightarrow> agrees ids a \<and> activities_consistent ((ar_id a, ar_source a) # ids) as"
    by (simp add: agrees_def)
  also have "\<dots> \<longleftrightarrow> agrees ids a \<and> (\<forall>b\<in>set as. same_work a b \<and> agrees ids b) \<and>
      (\<forall>a\<in>set as. \<forall>b\<in>set as. same_work a b)"
    using agrees_step [of ids a] by (auto simp: Cons.IH)
  finally show ?case by (auto intro: same_work_simps)
qed simp

record course =
  co_id :: string
  co_title :: ustr
  co_description :: "ustr option"
  co_category :: "ustr option"
  co_language :: "ustr option"
  co_image :: "ustr option"
  co_authors :: "(ustr \<times> ustr) list list"
  co_price :: int
  co_goals :: "ustr list"
  co_requirements :: "ustr list"
  co_last_update :: int
  co_path :: "string option"
  co_translations :: "(ustr \<times> course_translation) list"
  co_level :: "level option"
  co_sections :: "course_section list"
  co_curriculum :: "curriculum option"

definition free :: "course \<Rightarrow> bool" where
  "free c \<longleftrightarrow> co_price c = 0"

definition has_explicit_curriculum :: "course \<Rightarrow> bool" where
  "has_explicit_curriculum c \<longleftrightarrow> co_curriculum c \<noteq> None"

text \<open>The summary of a course; its base fields are those of the course.\<close>

record lecture_summary =
  lsu_title :: ustr
  lsu_duration :: int
  lsu_completed :: "bool option"

record section_summary =
  ssu_title :: ustr
  ssu_lectures :: "lecture_summary list"
  ssu_completed :: "bool option"

record course_summary =
  csu_course :: course
  csu_sections :: "section_summary list"
  csu_completed :: "bool option"

definition summary :: "course \<Rightarrow> string set option \<Rightarrow> bool option \<Rightarrow> course_summary" where
  "summary c done learning =
    (let sections = map (\<lambda>s.
           let ls = map (\<lambda>l. \<lparr>lsu_title = le_title l, lsu_duration = le_duration l,
                 lsu_completed = map_option (\<lambda>d. le_id l \<in> d) done\<rparr>) (se_lectures s)
           in \<lparr>ssu_title = se_title s, ssu_lectures = ls,
               ssu_completed = map_option (\<lambda>d. list_all (\<lambda>l. lsu_completed l = Some True) ls) done\<rparr>) (co_sections c)
     in \<lparr>csu_course = c, csu_sections = sections,
         csu_completed = (if co_path c \<noteq> None \<or> co_curriculum c \<noteq> None then learning
           else map_option (\<lambda>d. sections \<noteq> [] \<and> list_all (\<lambda>s. ssu_completed s = Some True) sections) done)\<rparr>)"

definition all_lectures :: "course \<Rightarrow> lecture list" where
  "all_lectures c = concat (map se_lectures (co_sections c))"

text \<open>\<^verbatim>\<open>to_user_course\<close>: every lecture with its completion.\<close>

definition to_user_course :: "course \<Rightarrow> string set \<Rightarrow> course \<times> (course_section \<times> (lecture \<times> bool) list) list" where
  "to_user_course c done = (c, map (\<lambda>s. (s, map (\<lambda>l. (l, le_id l \<in> done)) (se_lectures s))) (co_sections c))"

definition get_lecture :: "course \<Rightarrow> string \<Rightarrow> lecture result" where
  "get_lecture c l = (case find (\<lambda>x. le_id x = l) (all_lectures c) of Some x \<Rightarrow> Inr x
     | None \<Rightarrow> Inl (Http 404 ''lecture not found''))"

definition next_unseen_lecture :: "course \<Rightarrow> string set \<Rightarrow> (course_section \<times> lecture) result" where
  "next_unseen_lecture c seen =
    (let pairs = concat (map (\<lambda>s. map (\<lambda>l. (s, l)) (se_lectures s)) (co_sections c))
     in case find (\<lambda>(s, l). le_id l \<notin> seen) pairs of Some p \<Rightarrow> Inr p
        | None \<Rightarrow> (case find (\<lambda>s. se_lectures s \<noteq> []) (co_sections c) of
            Some s \<Rightarrow> Inr (s, hd (se_lectures s)) | None \<Rightarrow> Inl (Http 404 ''lecture not found'')))"

text \<open>\<^verbatim>\<open>_check_course_definitions\<close>: section ids and lecture ids are unique within a course.\<close>

fun check_lectures :: "string list \<Rightarrow> lecture list \<Rightarrow> string list result" where
  "check_lectures seen [] = Inr seen"
| "check_lectures seen (l # ls) = (if le_id l \<in> set seen then Inl (Crash ''Duplicate lecture id'')
     else check_lectures (le_id l # seen) ls)"

fun check_sections :: "string list \<Rightarrow> string list \<Rightarrow> course_section list \<Rightarrow> unit result" where
  "check_sections sids lids [] = Inr ()"
| "check_sections sids lids (s # ss) = (if se_id s \<in> set sids then Inl (Crash ''Duplicate section id'')
     else bind_r (check_lectures lids (se_lectures s)) (\<lambda>lids. check_sections (se_id s # sids) lids ss))"

definition check_course_definitions :: "course list \<Rightarrow> unit result" where
  "check_course_definitions cs = bind_r (map_r (\<lambda>c. check_sections [] [] (co_sections c)) cs) (\<lambda>_. Inr ())"

lemma check_lectures_Inr:
  "distinct seen \<Longrightarrow> check_lectures seen ls = Inr r \<longleftrightarrow> distinct (map le_id ls @ seen) \<and> r = rev (map le_id ls) @ seen"
  by (induction ls arbitrary: seen) auto

lemma check_sections_Inr:
  "distinct sids \<Longrightarrow> distinct lids \<Longrightarrow> check_sections sids lids ss = Inr () \<longleftrightarrow>
    distinct (map se_id ss @ sids) \<and> distinct (map le_id (concat (map se_lectures ss)) @ lids)"
proof (induction ss arbitrary: sids lids)
  case (Cons s ss)
  show ?case
  proof (cases "se_id s \<in> set sids \<or> \<not> distinct (map le_id (se_lectures s) @ lids)")
    case True
    with Cons.prems show ?thesis by (auto simp: result_simps check_lectures_Inr)
  next
    case False
    then have "distinct (se_id s # sids)" "distinct (rev (map le_id (se_lectures s)) @ lids)" using Cons.prems by auto
    note IH = Cons.IH [OF this]
    have "check_sections sids lids (s # ss) = Inr () \<longleftrightarrow>
        check_sections (se_id s # sids) (rev (map le_id (se_lectures s)) @ lids) ss = Inr ()"
      using False Cons.prems by (simp add: result_simps check_lectures_Inr)
    with IH False show ?thesis by (simp add: Int_Un_distrib Int_commute) blast
  qed
qed simp

lemma check_course_definitions_iff:
  "check_course_definitions cs = Inr () \<longleftrightarrow>
    (\<forall>c\<in>set cs. distinct (map se_id (co_sections c)) \<and> distinct (map le_id (all_lectures c)))"
proof -
  have "check_course_definitions cs = Inr () \<longleftrightarrow> (\<forall>c\<in>set cs. check_sections [] [] (co_sections c) = Inr ())"
    unfolding check_course_definitions_def by (induction cs) (auto simp: result_simps)
  then show ?thesis by (simp add: check_sections_Inr all_lectures_def)
qed

end
