(* ===== verification/Catalogue.thy ===== *)
theory Catalogue
  imports Content
begin

text \<open>
  The learning-room catalogue: units, paths and chapters (\<^verbatim>\<open>schemas/rooms.py\<close>) with the validators
  \<open>completion_matches_room\<close> and \<open>references_are_consistent\<close>; the catalogue a request sees (exercise
  references of the operator, units of the engine that are unavailable, \<^verbatim>\<open>services/rooms.py\<close>); and the
  lookup of a unit with its prerequisites. The catalogue is content: every unit lies in exactly one path, its
  chapters follow the declared order.
\<close>

section \<open>Units\<close>

datatype exercise_type = Multiple_choice | Matching | Coding

record exercise =
  ex_type :: exercise_type
  ex_task :: string
  ex_subtask :: string

text \<open>The rooms; \<open>Explorer\<close> stands for the six rooms the code never tells apart.\<close>

datatype room =
    Explorer string
  | Guided_lesson
  | Exercise_room
  | Custom_room
  | Video_room

datatype completion =
    Introduction json bool
  | Llm_verdict string string
  | Engine_completion

datatype completion_kind = Introduced_kind | Llm_kind | Engine_kind

fun completion_kind_of :: "completion \<Rightarrow> completion_kind" where
  "completion_kind_of (Introduction a s) = Introduced_kind"
| "completion_kind_of (Llm_verdict p h) = Llm_kind"
| "completion_kind_of Engine_completion = Engine_kind"

text \<open>\<^verbatim>\<open>allow_skip\<close>: authored for introductions, always for graded answers, never for the engine.\<close>

fun allow_skip :: "completion \<Rightarrow> bool" where
  "allow_skip (Introduction a s) = s"
| "allow_skip (Llm_verdict p h) = True"
| "allow_skip Engine_completion = False"

record milestone =
  mi_skill :: string
  mi_xp :: int

record unit_def =
  un_id :: string
  un_path :: string
  un_chapter :: "string option"
  un_title :: localized_text
  un_room :: room
  un_content :: json
  un_teaches :: "string list"
  un_practices :: "string list"
  un_requires :: "string list"
  un_exercise :: "exercise option"
  un_retired :: bool
  un_completion :: "completion option"
  un_module :: "string option"
  un_profiles :: "string list"
  un_milestone :: "milestone option"

definition MAX_MILESTONE_XP :: int where
  "MAX_MILESTONE_XP = 50"

definition MAX_LLM_PROFILES :: nat where
  "MAX_LLM_PROFILES = 16"

text \<open>\<open>^[a-z0-9][a-z0-9-]{0,79}$\<close>, the identifiers of units, paths and profiles.\<close>

definition slug_char :: "char \<Rightarrow> bool" where
  "slug_char c \<longleftrightarrow> CHR ''a'' \<le> c \<and> c \<le> CHR ''z'' \<or> CHR ''0'' \<le> c \<and> c \<le> CHR ''9''"

definition slug :: "string \<Rightarrow> bool" where
  "slug s = (case s of [] \<Rightarrow> False
     | c # cs \<Rightarrow> slug_char c \<and> length cs \<le> 79 \<and> list_all (\<lambda>c. slug_char c \<or> c = CHR ''-'') cs)"

definition hex_hash :: "string \<Rightarrow> bool" where
  "hex_hash s \<longleftrightarrow> length s = 64 \<and>
     list_all (\<lambda>c. CHR ''0'' \<le> c \<and> c \<le> CHR ''9'' \<or> CHR ''a'' \<le> c \<and> c \<le> CHR ''f'') s"

definition valid_milestone :: "milestone \<Rightarrow> bool" where
  "valid_milestone m \<longleftrightarrow> (case mi_skill m of [] \<Rightarrow> False
       | c # cs \<Rightarrow> slug_char c \<and> length cs \<le> 255 \<and> list_all (\<lambda>c. slug_char c \<or> c = CHR ''_'' \<or> c = CHR ''-'') cs) \<and>
     1 \<le> mi_xp m \<and> mi_xp m \<le> MAX_MILESTONE_XP"

section \<open>Videos\<close>

text \<open>
  \<^verbatim>\<open>urlsplit\<close> as the code reads it: the scheme before the first colon (letters, digits, \<open>+-.\<close>, compared in
  lower case), after \<open>//\<close> the network location up to \<open>/\<close>, \<open>?\<close> or \<open>#\<close>. A user name is everything before the
  last \<open>@\<close> of it, so none is present exactly without \<open>@\<close>; the host is what precedes the first colon, or the
  content of the brackets. \<open>netloc_ok\<close> stands for the standard library's check of bracketed hosts and of
  characters that change under NFKC (\<^verbatim>\<open>ValueError\<close> otherwise).
\<close>

definition lower_ascii :: "nat \<Rightarrow> nat" where
  "lower_ascii c = (if 65 \<le> c \<and> c \<le> 90 then c + 32 else c)"

definition url_scheme :: "ustr \<Rightarrow> ustr" where
  "url_scheme url = map lower_ascii (takeWhile (\<lambda>c. c \<noteq> 58) url)"

definition url_netloc :: "ustr \<Rightarrow> ustr" where
  "url_netloc url = (case dropWhile (\<lambda>c. c \<noteq> 58) url of
     _ # a # b # rest \<Rightarrow> if a = 47 \<and> b = 47 then takeWhile (\<lambda>c. c \<noteq> 47 \<and> c \<noteq> 63 \<and> c \<noteq> 35) rest else []
   | _ \<Rightarrow> [])"

definition url_host :: "ustr \<Rightarrow> ustr" where
  "url_host netloc = (if netloc \<noteq> [] \<and> hd netloc = 91 then takeWhile (\<lambda>c. c \<noteq> 93) (tl netloc)
     else takeWhile (\<lambda>c. c \<noteq> 58) netloc)"

definition media_url :: "(ustr \<Rightarrow> bool) \<Rightarrow> ustr \<Rightarrow> bool" where
  "media_url netloc_ok url \<longleftrightarrow> url_scheme url = ustr ''https'' \<and> url_host (url_netloc url) \<noteq> [] \<and>
     netloc_ok (url_netloc url) \<and> 64 \<notin> set (url_netloc url) \<and> 92 \<notin> set url \<and> list_all (\<lambda>c. 32 < c) url"

definition youtube_id :: "ustr \<Rightarrow> bool" where
  "youtube_id s \<longleftrightarrow> length s = 11 \<and>
     list_all (\<lambda>c. 97 \<le> c \<and> c \<le> 122 \<or> 65 \<le> c \<and> c \<le> 90 \<or> 48 \<le> c \<and> c \<le> 57 \<or> c = 95 \<or> c = 45) s"

definition obj_field :: "string \<Rightarrow> json \<Rightarrow> json option" where
  "obj_field k v = (case v of JObj es \<Rightarrow> map_of es (ustr k) | _ \<Rightarrow> None)"

definition valid_video :: "(ustr \<Rightarrow> bool) \<Rightarrow> json \<Rightarrow> bool" where
  "valid_video netloc_ok content = list_all (\<lambda>language.
     case Option.bind (obj_field language content) (obj_field ''video'') of
       Some (JObj es) \<Rightarrow>
         (case map_of es (ustr ''type'') of
            Some (JStr t) \<Rightarrow>
              (if t = ustr ''youtube'' then
                 (case map_of es (ustr ''id'') of Some (JStr i) \<Rightarrow> youtube_id i | _ \<Rightarrow> False)
               else if t = ustr ''mp4'' then
                 (case map_of es (ustr ''url'') of Some (JStr u) \<Rightarrow> media_url netloc_ok u | _ \<Rightarrow> False)
               else False)
          | _ \<Rightarrow> False)
     | _ \<Rightarrow> False) [''de'', ''en'']"

definition VIEWED :: json where
  "VIEWED = JObj [(ustr ''viewed'', JBool True)]"

section \<open>The validator of a unit\<close>

text \<open>
  \<open>completion_matches_room\<close> in the order of the code; the fields \<open>module\<close> and \<open>completion_kind\<close> of the
  schema are public only and absent from the record.
\<close>

definition completion_matches_room :: "(ustr \<Rightarrow> bool) \<Rightarrow> unit_def \<Rightarrow> bool" where
  "completion_matches_room netloc_ok u \<longleftrightarrow>
     distinct (un_profiles u) \<and>
     (case un_completion u of
        Some (Llm_verdict p h) \<Rightarrow> un_room u \<noteq> Exercise_room \<and> un_room u \<noteq> Video_room \<and> p \<in> set (un_profiles u)
      | _ \<Rightarrow> True) \<and>
     \<not> (un_milestone u \<noteq> None \<and> (un_completion u = None \<or> un_room u = Exercise_room \<or> un_room u = Video_room)) \<and>
     (un_completion u = Some Engine_completion \<longrightarrow> un_room u = Custom_room \<and> un_milestone u = None) \<and>
     \<not> (un_room u \<noteq> Custom_room \<and> un_module u \<noteq> None) \<and>
     (if un_room u = Custom_room \<or> un_room u = Video_room
      then \<not> (un_completion u \<noteq> None \<and> un_exercise u \<noteq> None) \<and>
        \<not> (un_room u = Custom_room \<and> un_module u = None) \<and>
        (un_room u = Video_room \<longrightarrow> valid_video netloc_ok (un_content u) \<and>
           (case un_completion u of Some (Introduction a s) \<Rightarrow> a = VIEWED | _ \<Rightarrow> True))
      else (un_room u \<noteq> Exercise_room) = (un_completion u \<noteq> None) \<and>
        \<not> (un_room u \<noteq> Exercise_room \<and> un_exercise u \<noteq> None))"

definition valid_unit :: "(ustr \<Rightarrow> bool) \<Rightarrow> unit_def \<Rightarrow> bool" where
  "valid_unit netloc_ok u \<longleftrightarrow> slug (un_id u) \<and> slug (un_path u) \<and>
     (case un_chapter u of None \<Rightarrow> True | Some c \<Rightarrow> slug c) \<and>
     (case un_module u of None \<Rightarrow> True | Some m \<Rightarrow> slug m) \<and>
     list_all slug (un_profiles u) \<and> length (un_profiles u) \<le> MAX_LLM_PROFILES \<and>
     (case un_completion u of Some (Llm_verdict p h) \<Rightarrow> slug p \<and> hex_hash h | _ \<Rightarrow> True) \<and>
     (case un_milestone u of None \<Rightarrow> True | Some m \<Rightarrow> valid_milestone m) \<and>
     completion_matches_room netloc_ok u"

text \<open>What a valid unit has: one completion authority, and a server-side check behind every milestone.\<close>

lemma valid_unit_authority:
  assumes "valid_unit netloc_ok u"
  shows "un_completion u = None \<or> un_exercise u = None"
    and "un_milestone u \<noteq> None \<Longrightarrow> un_exercise u = None \<and>
      (\<exists>c. un_completion u = Some c \<and> c \<noteq> Engine_completion)"
  using assms by (auto simp: valid_unit_def completion_matches_room_def split: if_splits)

section \<open>Paths\<close>

record path_def =
  pa_id :: string
  pa_title :: localized_text
  pa_direction :: "string option"
  pa_chapters :: "course_chapter list"
  pa_units :: "string list"

record catalogue =
  ct_paths :: "path_def list"
  ct_units :: "unit_def list"

definition unit_by :: "unit_def list \<Rightarrow> string \<Rightarrow> unit_def option" where
  "unit_by us i = find (\<lambda>u. un_id u = i) us"

text \<open>The position of a chapter id, \<^verbatim>\<open>chapter_positions\<close>.\<close>

fun position :: "'a \<Rightarrow> 'a list \<Rightarrow> nat option" where
  "position x [] = None"
| "position x (y # ys) = (if x = y then Some 0 else map_option Suc (position x ys))"

text \<open>One path: \<open>seen\<close> are the units of the paths before, \<open>prev\<close> the chapter position reached.\<close>

fun check_path_units :: "unit_def list \<Rightarrow> path_def \<Rightarrow> string list \<Rightarrow> int \<Rightarrow> string list \<Rightarrow> string list option" where
  "check_path_units us p seen prev [] = Some seen"
| "check_path_units us p seen prev (i # is) =
     (case unit_by us i of None \<Rightarrow> None
      | Some u \<Rightarrow>
        if i \<in> set seen \<or> un_path u \<noteq> pa_id p then None
        else case un_chapter u of
          None \<Rightarrow> if pa_chapters p \<noteq> [] then None else check_path_units us p (i # seen) prev is
        | Some c \<Rightarrow> (case position c (map ch_id (pa_chapters p)) of
             None \<Rightarrow> None
           | Some n \<Rightarrow> if int n < prev then None else check_path_units us p (i # seen) (int n) is))"

fun check_paths :: "unit_def list \<Rightarrow> string list \<Rightarrow> path_def list \<Rightarrow> string list option" where
  "check_paths us seen [] = Some seen"
| "check_paths us seen (p # ps) = (if \<not> distinct (map ch_id (pa_chapters p)) then None
     else Option.bind (check_path_units us p seen (- 1) (pa_units p)) (\<lambda>seen. check_paths us seen ps))"

definition references_are_consistent :: "catalogue \<Rightarrow> bool" where
  "references_are_consistent c \<longleftrightarrow>
     distinct (map un_id (ct_units c)) \<and> distinct (map pa_id (ct_paths c)) \<and>
     (case check_paths (ct_units c) [] (ct_paths c) of None \<Rightarrow> False
      | Some seen \<Rightarrow> set seen = set (map un_id (ct_units c)))"

definition valid_path :: "path_def \<Rightarrow> bool" where
  "valid_path p \<longleftrightarrow> slug (pa_id p) \<and> list_all (\<lambda>c. slug (ch_id c)) (pa_chapters p) \<and>
     (case pa_direction p of None \<Rightarrow> True | Some d \<Rightarrow> slug d)"

definition valid_catalogue :: "(ustr \<Rightarrow> bool) \<Rightarrow> catalogue \<Rightarrow> bool" where
  "valid_catalogue netloc_ok c \<longleftrightarrow> list_all (valid_unit netloc_ok) (ct_units c) \<and> list_all valid_path (ct_paths c) \<and>
     references_are_consistent c"

definition chapter_position :: "unit_def list \<Rightarrow> path_def \<Rightarrow> string \<Rightarrow> nat option" where
  "chapter_position us p i = Option.bind (unit_by us i) (\<lambda>u. Option.bind (un_chapter u)
     (\<lambda>c. position c (map ch_id (pa_chapters p))))"

lemma check_path_units_Some:
  "check_path_units us p seen prev is = Some seen' \<Longrightarrow> seen' = rev is @ seen \<and> (distinct seen \<longrightarrow> distinct seen') \<and>
    (\<forall>i\<in>set is. \<exists>u. unit_by us i = Some u \<and> un_path u = pa_id p)"
proof (induction "is" arbitrary: seen prev)
  case (Cons i "is")
  then obtain u where u: "unit_by us i = Some u" "i \<notin> set seen" "un_path u = pa_id p"
    by (auto split: option.splits if_splits)
  with Cons.prems obtain prev' where "check_path_units us p (i # seen) prev' is = Some seen'"
    by (auto split: option.splits if_splits)
  from Cons.IH [OF this] u show ?case by auto
qed auto

lemma check_path_units_order:
  "check_path_units us p seen prev is = Some seen' \<Longrightarrow> pa_chapters p \<noteq> [] \<Longrightarrow>
    \<exists>ns. map (chapter_position us p) is = map Some ns \<and> sorted ns \<and> (\<forall>n\<in>set ns. prev \<le> int n)"
proof (induction "is" arbitrary: seen prev)
  case (Cons i "is")
  then obtain n where n: "chapter_position us p i = Some n" "prev \<le> int n"
    and rest: "check_path_units us p (i # seen) (int n) is = Some seen'"
    by (auto simp: chapter_position_def split: option.splits if_splits)
  from Cons.IH [OF rest Cons.prems(2)] obtain ns where
    "map (chapter_position us p) is = map Some ns" "sorted ns" "\<forall>m\<in>set ns. int n \<le> int m" by blast
  with n show ?case by (intro exI [of _ "n # ns"]) auto
qed auto

lemma check_paths_Some:
  "check_paths us seen ps = Some seen' \<Longrightarrow> distinct seen \<Longrightarrow>
    seen' = rev (concat (map pa_units ps)) @ seen \<and> distinct seen' \<and>
    (\<forall>p\<in>set ps. distinct (map ch_id (pa_chapters p)) \<and>
      (\<forall>i\<in>set (pa_units p). \<exists>u. unit_by us i = Some u \<and> un_path u = pa_id p) \<and>
      (pa_chapters p \<noteq> [] \<longrightarrow> (\<exists>ns. map (chapter_position us p) (pa_units p) = map Some ns \<and> sorted ns)))"
proof (induction ps arbitrary: seen)
  case (Cons p ps)
  then obtain s where s: "check_path_units us p seen (- 1) (pa_units p) = Some s" "check_paths us s ps = Some seen'"
    "distinct (map ch_id (pa_chapters p))"
    by (auto simp: Option.bind_eq_Some_conv split: if_splits)
  note u = check_path_units_Some [OF s(1)] and o = check_path_units_order [OF s(1)]
  have "distinct s" using u Cons.prems(2) by blast
  note IH = Cons.IH [OF s(2) this]
  have "seen' = rev (concat (map pa_units (p # ps))) @ seen" using IH u by simp
  moreover have "distinct seen'" using IH by blast
  ultimately show ?case using IH u o s(3) by simp
qed auto

lemma unit_by_SomeD: "unit_by us i = Some u \<Longrightarrow> u \<in> set us \<and> un_id u = i"
  by (auto simp: unit_by_def find_Some_iff in_set_conv_nth)

lemma unit_by_in: "distinct (map un_id us) \<Longrightarrow> u \<in> set us \<Longrightarrow> unit_by us (un_id u) = Some u"
  by (induction us) (auto simp: unit_by_def image_iff)

text \<open>
  C30: an accepted catalogue places every unit in exactly one path, the one the unit names, and in a path with
  chapters the units follow the declared order of the chapters without going back.
\<close>

theorem catalogue_structure:
  assumes "references_are_consistent c"
  shows "(\<forall>u\<in>set (ct_units c). \<exists>!p. p \<in> set (ct_paths c) \<and> un_id u \<in> set (pa_units p)) \<and>
    (\<forall>u\<in>set (ct_units c). \<forall>p\<in>set (ct_paths c). un_id u \<in> set (pa_units p) \<longrightarrow> un_path u = pa_id p) \<and>
    (\<forall>p\<in>set (ct_paths c). distinct (pa_units p) \<and> (pa_chapters p \<noteq> [] \<longrightarrow>
      (\<exists>ns. map (chapter_position (ct_units c) p) (pa_units p) = map Some ns \<and> sorted ns)))"
proof -
  from assms obtain seen where d: "distinct (map un_id (ct_units c))" "distinct (map pa_id (ct_paths c))"
    and seen: "check_paths (ct_units c) [] (ct_paths c) = Some seen" "set seen = set (map un_id (ct_units c))"
    by (auto simp: references_are_consistent_def split: option.splits)
  note s = check_paths_Some [OF seen(1), simplified]
  have own: "un_path u = pa_id p" if "u \<in> set (ct_units c)" "p \<in> set (ct_paths c)" "un_id u \<in> set (pa_units p)" for u p
    using s that unit_by_in [OF d(1) that(1)] by fastforce
  have "\<exists>!p. p \<in> set (ct_paths c) \<and> un_id u \<in> set (pa_units p)" if u: "u \<in> set (ct_units c)" for u
  proof -
    have "un_id u \<in> set seen" using seen(2) u by auto
    then obtain p where p: "p \<in> set (ct_paths c)" "un_id u \<in> set (pa_units p)" using s by auto
    moreover have "q = p" if "q \<in> set (ct_paths c)" "un_id u \<in> set (pa_units q)" for q
      using own [OF u p] own [OF u that] d(2) p(1) that(1) by (auto simp: distinct_map inj_on_def)
    ultimately show ?thesis by blast
  qed
  moreover have "distinct (pa_units p)" if "p \<in> set (ct_paths c)" for p
    using s that by (metis distinct_concat_iff distinct_rev in_set_conv_decomp list.map(2) map_append concat_append
        concat.simps(2) distinct_append)
  ultimately show ?thesis using own s by blast
qed

text \<open>A path with two chapters and one unit in each.\<close>

definition example_unit :: "string \<Rightarrow> string \<Rightarrow> unit_def" where
  "example_unit i ch = \<lparr>un_id = i, un_path = ''p'', un_chapter = Some ch, un_title = \<lparr>lt_de = [65], lt_en = [65]\<rparr>,
     un_room = Guided_lesson, un_content = JObj [], un_teaches = [i], un_practices = [], un_requires = [],
     un_exercise = None, un_retired = False, un_completion = Some (Introduction (JObj []) True), un_module = None,
     un_profiles = [], un_milestone = None\<rparr>"

definition example_catalogue :: catalogue where
  "example_catalogue = \<lparr>ct_paths = [\<lparr>pa_id = ''p'', pa_title = \<lparr>lt_de = [80], lt_en = [80]\<rparr>, pa_direction = None,
       pa_chapters = [\<lparr>ch_id = ''one'', ch_title = \<lparr>lt_de = [], lt_en = []\<rparr>\<rparr>, \<lparr>ch_id = ''two'', ch_title = \<lparr>lt_de = [], lt_en = []\<rparr>\<rparr>],
       pa_units = [''a'', ''b'']\<rparr>],
     ct_units = [example_unit ''a'' ''one'', example_unit ''b'' ''two'']\<rparr>"

lemma catalogue_structure_witness:
  "references_are_consistent example_catalogue \<and>
    (\<exists>!p. p \<in> set (ct_paths example_catalogue) \<and> un_id (example_unit ''a'' ''one'') \<in> set (pa_units p))"
proof -
  have r: "references_are_consistent example_catalogue" by code_simp
  have "example_unit ''a'' ''one'' \<in> set (ct_units example_catalogue)" by (simp add: example_catalogue_def)
  with catalogue_structure [OF r] r show ?thesis by blast
qed

end
