(* ===== verification/Env.thy ===== *)
theory Env
  imports Store Catalogue
begin

text \<open>
  What one request sees besides the database: settings, content loaded at start-up, the clock, and the answers of
  the services behind it (shop, auth, challenges, sandbox). Those services are not part of this repository, so
  their answers are fields of \<open>env\<close> over which every theorem quantifies. The catalogue of a request
  (\<^verbatim>\<open>rooms.catalogue\<close>) is the loaded one with the operator's exercise references and without the units of the
  engine that cannot be opened.
\<close>

text \<open>The answer of \<^verbatim>\<open>GET /learning-policy\<close>: unusable (outage, wrong shape), 404, or a policy.\<close>

record policy =
  po_mode :: policy_mode
  po_premium :: bool
  po_single_sales :: bool
  po_heart_sales :: bool

datatype policy_answer = No_policy | Policy_not_found | Policy_answer policy

text \<open>
  An answer over HTTP: none, or a status with a JSON body (\<open>None\<close> for a body that is no JSON). An ISO timestamp
  of such a body may be unreadable, without a time zone, or an instant.
\<close>

datatype reply = No_reply | Reply nat "json option"

datatype timestamp = Bad_time | Naive_time | Instant int

record user =
  us_id :: string
  us_admin :: bool
  us_verified :: bool

record env =
  en_now :: int
  en_policy_enabled :: bool
  en_rooms_enabled :: bool
  en_engine_enabled :: bool
  en_content_origin :: "string option"
  en_courses :: "course list"
  en_content :: "catalogue option"
  en_exercise_refs :: "(string \<times> exercise) list"
  en_retained :: "string list"
  en_policy :: "string \<Rightarrow> policy_answer"
  en_premium :: "string \<Rightarrow> bool result"
  en_history :: "string \<Rightarrow> string list \<Rightarrow> (string \<times> string) list \<Rightarrow> (string list \<times> (string \<times> string) list) option"
  en_challenge :: "exercise \<Rightarrow> reply"
  en_attempt :: "exercise \<Rightarrow> string \<Rightarrow> reply"
  en_timestamp :: "ustr \<Rightarrow> timestamp"
  en_module_ok :: "lesson_module \<Rightarrow> bool"
  en_private :: "lesson_module \<Rightarrow> bool option"
  en_allow_save :: "string \<Rightarrow> string \<Rightarrow> bool"
  en_sandbox :: bool
  en_uuid5 :: "nat list \<Rightarrow> string"
  en_dumps :: "json \<Rightarrow> nat list"
  en_uuid :: "string \<Rightarrow> string option"
  en_user_status :: "string \<Rightarrow> nat"
  en_day :: "int \<Rightarrow> int"
  en_day_start :: "int \<Rightarrow> int"
  en_sha256 :: "nat list \<Rightarrow> string"
  en_fresh :: "nat \<Rightarrow> string"

definition course_by :: "env \<Rightarrow> string \<Rightarrow> course option" where
  "course_by e c = find (\<lambda>x. co_id x = c) (en_courses e)"

lemma course_by_SomeD: "course_by e c = Some x \<Longrightarrow> x \<in> set (en_courses e) \<and> co_id x = c"
  by (auto simp: course_by_def find_Some_iff in_set_conv_nth)

section \<open>The catalogue of a request\<close>

definition is_engine_unit :: "unit_def \<Rightarrow> bool" where
  "is_engine_unit u \<longleftrightarrow> un_completion u = Some Engine_completion"

text \<open>\<^verbatim>\<open>load_active_units\<close>, \<^verbatim>\<open>available\<close>: the units of the engine a learner can open.\<close>

definition active_units :: "env \<Rightarrow> database \<Rightarrow> string set" where
  "active_units e db = (if \<not> en_engine_enabled e \<or> en_content_origin e = None then {}
     else set (map er_unit (all_rows (\<lambda>r. er_active_for r \<noteq> None) (revisions db))))"

fun apply_refs :: "(string \<times> exercise) list \<Rightarrow> unit_def list \<Rightarrow> unit_def list result" where
  "apply_refs [] us = Inr us"
| "apply_refs ((i, x) # refs) us = (case unit_by us i of
     None \<Rightarrow> Inl (Http 503 ''exercises unavailable'')
   | Some u \<Rightarrow>
     if un_room u \<noteq> Exercise_room \<and> un_room u \<noteq> Custom_room \<and> un_room u \<noteq> Video_room then Inl (Http 503 ''exercises unavailable'')
     else if un_completion u \<noteq> None then Inl (Http 503 ''exercises unavailable'')
     else apply_refs refs (map (\<lambda>v. if un_id v = i then v\<lparr>un_exercise := Some x\<rparr> else v) us))"

definition catalogue_of :: "env \<Rightarrow> database \<Rightarrow> bool \<Rightarrow> catalogue result" where
  "catalogue_of e db unpublished =
     (if \<not> en_rooms_enabled e then Inl (Http 404 ''rooms unavailable'')
      else case en_content e of None \<Rightarrow> Inl (Http 503 ''rooms unavailable'')
      | Some content \<Rightarrow> bind_r (apply_refs (en_exercise_refs e) (ct_units content)) (\<lambda>us.
          Inr (content\<lparr>ct_units := map (\<lambda>u.
            if is_engine_unit u \<and> \<not> (en_engine_enabled e \<and> (unpublished \<or> un_id u \<in> active_units e db))
            then u\<lparr>un_retired := True\<rparr> else u) us\<rparr>)))"

section \<open>Concepts and prerequisites\<close>

text \<open>\<^verbatim>\<open>read_states\<close>: 401 for an erased account; the rows by their unit. A row is unique per learner and unit.\<close>

definition room_of :: "database \<Rightarrow> string \<Rightarrow> string \<Rightarrow> room_state option" where
  "room_of db u i = first_row (\<lambda>r. rs_user r = u \<and> rs_unit r = i) (rooms db)"

type_synonym states = "string \<Rightarrow> room_state option"

definition read_states :: "database \<Rightarrow> string \<Rightarrow> string set option \<Rightarrow> states result" where
  "read_states db u ids = (if erased db u then Inl (Http 401 ''account gone'')
     else Inr (\<lambda>i. if (case ids of None \<Rightarrow> True | Some s \<Rightarrow> i \<in> s) then room_of db u i else None))"

definition concepts_of :: "unit_def \<Rightarrow> room_state option \<Rightarrow> string list" where
  "concepts_of u row = (case row of None \<Rightarrow> []
     | Some r \<Rightarrow>
       if rs_status r = Skipped \<and> un_completion u \<noteq> None then un_teaches u
       else if rs_status r = Completed \<and> rs_result r = Some Introduced then un_teaches u
       else if rs_status r = Completed \<and> (rs_result r = Some Solved \<or> rs_result r = Some Passed)
       then un_teaches u @ un_practices u else [])"

definition introduced_concepts :: "catalogue \<Rightarrow> states \<Rightarrow> string set" where
  "introduced_concepts c st = set (concat (map (\<lambda>u. concepts_of u (st (un_id u))) (ct_units c)))"

definition find_unit :: "catalogue \<Rightarrow> string \<Rightarrow> states \<Rightarrow> bool \<Rightarrow> unit_def result" where
  "find_unit c i st prerequisites = (case find (\<lambda>u. un_id u = i \<and> \<not> un_retired u) (ct_units c) of
       None \<Rightarrow> Inl (Http 404 ''room unavailable'')
     | Some u \<Rightarrow>
       if un_completion u = None \<and> un_exercise u = None then Inl (Http 404 ''room unavailable'')
       else if prerequisites \<and> \<not> set (un_requires u) \<subseteq> introduced_concepts c st
       then Inl (Http 403 ''introduction first'') else Inr u)"

lemma find_unit_Inr:
  assumes "find_unit c i st p = Inr u"
  shows "u \<in> set (ct_units c)" "un_id u = i" "\<not> un_retired u" "un_completion u \<noteq> None \<or> un_exercise u \<noteq> None"
    "p \<Longrightarrow> set (un_requires u) \<subseteq> introduced_concepts c st"
  using assms by (auto simp: find_unit_def find_Some_iff in_set_conv_nth split: option.splits if_splits)

lemma find_unit_errors: "find_unit c i st p = Inl er \<Longrightarrow> status_code er \<in> {403, 404}"
  by (auto simp: find_unit_def split: option.splits if_splits)

lemma apply_refs_units:
  "apply_refs refs us = Inr us' \<Longrightarrow> map un_id us' = map un_id us \<and> map un_completion us' = map un_completion us \<and>
     map un_retired us' = map un_retired us"
proof (induction refs us rule: apply_refs.induct)
  case (2 i x refs us)
  then obtain u where "unit_by us i = Some u"
    "apply_refs refs (map (\<lambda>v. if un_id v = i then v\<lparr>un_exercise := Some x\<rparr> else v) us) = Inr us'"
    by (auto split: option.splits if_splits)
  with 2 show ?case by (auto split: if_splits)
qed simp

text \<open>Units of the engine that cannot be opened are retired in the catalogue of a request.\<close>

lemma catalogue_engine_units:
  assumes "catalogue_of e db False = Inr c" "u \<in> set (ct_units c)" "is_engine_unit u" "\<not> un_retired u"
  shows "en_engine_enabled e \<and> un_id u \<in> active_units e db"
  using assms by (auto simp: catalogue_of_def result_simps is_engine_unit_def split: option.splits if_splits)

section \<open>An example\<close>

text \<open>A course with one video lecture, and a request of a learner under the daily policy.\<close>

definition example_course :: course where
  "example_course = \<lparr>co_id = ''python'', co_title = [80], co_description = None, co_category = None, co_language = None,
     co_image = None, co_authors = [], co_price = 500, co_goals = [], co_requirements = [], co_last_update = 0,
     co_path = None, co_translations = [], co_level = None,
     co_sections = [\<lparr>se_id = ''s1'', se_title = [65], se_description = None,
       se_lectures = [\<lparr>le_id = ''intro'', le_title = [66], le_description = None, le_video = Mp4, le_duration = 60\<rparr>,
         \<lparr>le_id = ''loops'', le_title = [67], le_description = None, le_video = Mp4, le_duration = 90\<rparr>]\<rparr>],
     co_curriculum = None\<rparr>"

definition example_env :: env where
  "example_env = \<lparr>en_now = 1000, en_policy_enabled = True, en_rooms_enabled = False, en_engine_enabled = False,
     en_content_origin = None, en_courses = [example_course], en_content = None, en_exercise_refs = [], en_retained = [],
     en_policy = (\<lambda>u. Policy_answer \<lparr>po_mode = Daily, po_premium = False, po_single_sales = True, po_heart_sales = True\<rparr>),
     en_premium = (\<lambda>u. Inr False), en_history = (\<lambda>u s l. Some ([], [])), en_challenge = (\<lambda>x. No_reply),
     en_attempt = (\<lambda>x a. No_reply), en_timestamp = (\<lambda>t. Bad_time), en_module_ok = (\<lambda>m. True),
     en_private = (\<lambda>m. None),
     en_allow_save = (\<lambda>u i. True), en_sandbox = True, en_uuid5 = (\<lambda>b. map char_of b), en_dumps = (\<lambda>v. case write_json v of Inr t \<Rightarrow> t | Inl er \<Rightarrow> []), en_uuid = Some,
     en_user_status = (\<lambda>u. 200), en_day = (\<lambda>t. t div 100), en_day_start = (\<lambda>d. d * 100),
     en_sha256 = (\<lambda>b. map char_of b), en_fresh = (\<lambda>n. ''id'')\<rparr>"

definition example_user :: user where
  "example_user = \<lparr>us_id = ''u'', us_admin = False, us_verified = True\<rparr>"

end
