(* ===== verification/Curriculum.thy ===== *)
theory Curriculum
  imports Env
begin

text \<open>
  Course composition (\<^verbatim>\<open>services/curriculum.py\<close>): the lessons of a course from its authored curriculum, or
  from its learning path and its videos. Presentation ids that collide are qualified by repeated hashing
  (\<open>adapter_id\<close>); the loop is followed for as many rounds as there are occupied ids, which decides whether it
  ends at all. The result of \<open>definitions\<close> refers to existing units and lectures of the course only.
\<close>

definition localized :: "ustr \<Rightarrow> localized_text" where
  "localized t = \<lparr>lt_de = t, lt_en = t\<rparr>"

definition course_lectures :: "course \<Rightarrow> (string \<times> string) list" where
  "course_lectures c = concat (map (\<lambda>s. map (\<lambda>l. (se_id s, le_id l)) (se_lectures s)) (co_sections c))"

section \<open>Qualified ids\<close>

definition qualify :: "env \<Rightarrow> string \<Rightarrow> string \<Rightarrow> string" where
  "qualify e kind candidate = ''legacy-'' @ kind @ ''-'' @ take 32 (en_sha256 e (utf8 (ustr candidate)))"

text \<open>
  The loop \<^verbatim>\<open>while candidate in occupied\<close>: \<open>None\<close> when it is still running after \<open>fuel\<close> rounds. With one round
  more than there are occupied ids, \<open>None\<close> means that the loop never ends (\<open>adapter_none_diverges\<close>).
\<close>

fun adapter_loop :: "(string \<Rightarrow> string) \<Rightarrow> nat \<Rightarrow> string list \<Rightarrow> string \<Rightarrow> string option" where
  "adapter_loop f fuel occupied candidate = (if candidate \<notin> set occupied then Some candidate
     else case fuel of 0 \<Rightarrow> None | Suc n \<Rightarrow> adapter_loop f n occupied (f candidate))"

declare adapter_loop.simps [simp del]

definition adapter_id :: "env \<Rightarrow> string \<Rightarrow> string list \<Rightarrow> string \<Rightarrow> (string \<times> string list) result" where
  "adapter_id e original occupied kind =
     (case adapter_loop (qualify e kind) (length occupied) occupied original of
        Some i \<Rightarrow> Inr (i, i # occupied) | None \<Rightarrow> Inl (Crash ''the loop does not end''))"

lemma adapter_loop_Some:
  "adapter_loop f n occ c = Some r \<Longrightarrow> r \<notin> set occ \<and> (\<exists>k\<le>n. r = (f ^^ k) c \<and> (\<forall>j<k. (f ^^ j) c \<in> set occ))"
proof (induction n arbitrary: c)
  case 0
  then show ?case by (auto simp: adapter_loop.simps split: if_splits)
next
  case (Suc n)
  show ?case
  proof (cases "c \<in> set occ")
    case True
    with Suc.prems have "adapter_loop f n occ (f c) = Some r" by (subst (asm) adapter_loop.simps) simp
    from Suc.IH [OF this] obtain k where k: "r \<notin> set occ" "k \<le> n" "r = (f ^^ k) (f c)"
      "\<forall>j<k. (f ^^ j) (f c) \<in> set occ" by blast
    have "\<forall>j<Suc k. (f ^^ j) c \<in> set occ"
      using k(4) True by (auto simp: less_Suc_eq_0_disj funpow_swap1)
    with k show ?thesis by (intro conjI exI [of _ "Suc k"]) (auto simp: funpow_swap1)
  next
    case False
    with Suc.prems show ?thesis by (auto simp: adapter_loop.simps)
  qed
qed

lemma adapter_loop_None: "adapter_loop f n occ c = None \<Longrightarrow> k \<le> n \<Longrightarrow> (f ^^ k) c \<in> set occ"
proof (induction n arbitrary: c k)
  case 0
  then show ?case by (auto simp: adapter_loop.simps split: if_splits)
next
  case (Suc n)
  then have "c \<in> set occ" "adapter_loop f n occ (f c) = None"
    by (auto simp: adapter_loop.simps [of f "Suc n"] split: if_splits)
  with Suc show ?case by (cases k) (auto simp: funpow_swap1)
qed

text \<open>With as many rounds as occupied ids, running out means a cycle: the code's loop would never end.\<close>

lemma adapter_none_diverges:
  assumes "adapter_loop f (length occ) occ c = None"
  shows "(f ^^ k) c \<in> set occ"
proof -
  have sub: "(\<lambda>k. (f ^^ k) c) ` {..length occ} \<subseteq> set occ" using adapter_loop_None [OF assms] by auto
  have "\<not> inj_on (\<lambda>k. (f ^^ k) c) {..length occ}"
  proof
    assume "inj_on (\<lambda>k. (f ^^ k) c) {..length occ}"
    then have "card {..length occ} \<le> card (set occ)" using sub by (intro card_inj_on_le) auto
    then show False using card_length [of occ] by simp
  qed
  then obtain i j where ij: "i < j" "j \<le> length occ" "(f ^^ i) c = (f ^^ j) c"
    unfolding inj_on_def by (metis atMost_iff linorder_neqE_nat)
  have cyc: "(f ^^ (j + m)) c = (f ^^ (i + m)) c" for m
    using ij(3) by (induction m) auto
  show ?thesis
  proof (induction k rule: less_induct)
    case (less k)
    show ?case
    proof (cases "k \<le> length occ")
      case True
      then show ?thesis using adapter_loop_None [OF assms] by blast
    next
      case False
      then have "(f ^^ k) c = (f ^^ (i + (k - j))) c" using cyc [of "k - j"] ij by simp
      moreover have "i + (k - j) < k" using False ij by linarith
      ultimately show ?thesis using less by simp
    qed
  qed
qed

text \<open>The hash qualifies ids apart: then the loop ends, with the first id of the chain that is free.\<close>

lemma adapter_loop_ends:
  assumes "inj_on (\<lambda>k. (f ^^ k) c) {..length occ}"
  shows "\<exists>r. adapter_loop f (length occ) occ c = Some r"
proof (rule ccontr)
  assume "\<nexists>r. adapter_loop f (length occ) occ c = Some r"
  then have "(f ^^ k) c \<in> set occ" for k using adapter_none_diverges by (metis not_Some_eq)
  then have "(\<lambda>k. (f ^^ k) c) ` {..length occ} \<subseteq> set occ" by blast
  then have "card {..length occ} \<le> card (set occ)" using assms by (intro card_inj_on_le) auto
  then show False using card_length [of occ] by simp
qed

section \<open>Definitions\<close>

definition unavailable :: err where
  "unavailable = Http 503 ''course cannot be loaded''"

definition is_room :: "activity_ref \<Rightarrow> bool" where
  "is_room a = (case ar_source a of Room_source _ \<Rightarrow> True | _ \<Rightarrow> False)"

fun room_unit :: "activity_source \<Rightarrow> string option" where
  "room_unit (Room_source u) = Some u"
| "room_unit (Lecture_source c s l) = None"

fun source_lecture :: "activity_source \<Rightarrow> string option" where
  "source_lecture (Room_source u) = None"
| "source_lecture (Lecture_source c s l) = Some l"

definition without_unavailable_engine_units :: "curriculum \<Rightarrow> catalogue option \<Rightarrow> curriculum" where
  "without_unavailable_engine_units cu content =
    (let hidden = (case content of None \<Rightarrow> []
           | Some c \<Rightarrow> map un_id (filter (\<lambda>u. un_retired u \<and> is_engine_unit u) (ct_units c)))
     in if hidden = [] then cu
        else cu\<lparr>cu_lessons := filter (\<lambda>l. ld_activities l \<noteq> [])
          (map (\<lambda>l. l\<lparr>ld_activities := filter (\<lambda>a. case room_unit (ar_source a) of
             Some u \<Rightarrow> u \<notin> set hidden | None \<Rightarrow> True) (ld_activities l)\<rparr>) (cu_lessons cu))\<rparr>)"

text \<open>The lessons the adapter makes of one video section: the occupied lesson and activity ids are threaded.\<close>

fun lecture_lessons :: "env \<Rightarrow> course \<Rightarrow> string \<Rightarrow> string \<Rightarrow> lecture list \<Rightarrow> string list \<Rightarrow> string list \<Rightarrow>
    (lesson_def list \<times> string list \<times> string list) result" where
  "lecture_lessons e c sid chid [] lids aids = Inr ([], lids, aids)"
| "lecture_lessons e c sid chid (l # ls) lids aids =
     bind_r (adapter_id e (le_id l) lids ''lesson'') (\<lambda>(lid, lids).
     bind_r (adapter_id e (le_id l) aids ''activity'') (\<lambda>(aid, aids).
     let lesson = \<lparr>ld_id = lid, ld_title = localized (le_title l), ld_chapter = Some chid,
           ld_activities = [\<lparr>ar_id = aid, ar_source = Lecture_source (co_id c) sid (le_id l), ar_title = None,
             ar_roles = None\<rparr>]\<rparr>
     in if \<not> valid_lesson lesson then Inl (Crash ''invalid lesson'')
        else bind_r (lecture_lessons e c sid chid ls lids aids) (\<lambda>(rest, lids, aids).
          Inr (lesson # rest, lids, aids))))"

fun section_lessons :: "env \<Rightarrow> course \<Rightarrow> course_section list \<Rightarrow> string list \<Rightarrow> string list \<Rightarrow> string list \<Rightarrow>
    (course_chapter list \<times> lesson_def list) result" where
  "section_lessons e c [] chs lids aids = Inr ([], [])"
| "section_lessons e c (s # ss) chs lids aids =
     bind_r (adapter_id e (se_id s) chs ''chapter'') (\<lambda>(chid, chs).
     if \<not> key256 chid then Inl (Crash ''invalid chapter'')
     else bind_r (lecture_lessons e c (se_id s) chid (se_lectures s) lids aids) (\<lambda>(ls, lids, aids).
     bind_r (section_lessons e c ss chs lids aids) (\<lambda>(chapters, rest).
     Inr (\<lparr>ch_id = chid, ch_title = localized (se_title s)\<rparr> # chapters, ls @ rest))))"

definition path_lessons :: "catalogue \<Rightarrow> path_def \<Rightarrow> lesson_def list" where
  "path_lessons content p = map (\<lambda>u. \<lparr>ld_id = un_id u, ld_title = un_title u, ld_chapter = un_chapter u,
       ld_activities = [\<lparr>ar_id = un_id u, ar_source = Room_source (un_id u), ar_title = None, ar_roles = None\<rparr>]\<rparr>)
     (map the (filter (\<lambda>u. u \<noteq> None)
        (map (unit_by (filter (\<lambda>u. \<not> un_retired u) (ct_units content))) (pa_units p))))"

definition adapted_curriculum :: "env \<Rightarrow> course \<Rightarrow> catalogue option \<Rightarrow> curriculum result" where
  "adapted_curriculum e c content =
     bind_r (case content of None \<Rightarrow> Inr ([], [])
       | Some ct \<Rightarrow> (case find (\<lambda>p. Some (pa_id p) = co_path c) (ct_paths ct) of
            None \<Rightarrow> Inl (Http 404 ''course unavailable'')
          | Some p \<Rightarrow> Inr (pa_chapters p, path_lessons ct p))) (\<lambda>(chapters, lessons).
     bind_r (section_lessons e c (co_sections c) (map ch_id chapters) (map ld_id lessons)
         (map ar_id (concat (map ld_activities lessons)))) (\<lambda>(chapters', lessons').
     let cu = \<lparr>cu_chapters = chapters @ chapters', cu_lessons = lessons @ lessons'\<rparr>
     in if cu_lessons cu = [] \<or> valid_curriculum cu then Inr cu else Inl unavailable))"

definition source_ok :: "course \<Rightarrow> catalogue option \<Rightarrow> activity_source \<Rightarrow> bool" where
  "source_ok c content s = (case s of
     Room_source i \<Rightarrow> (case content of None \<Rightarrow> False
       | Some ct \<Rightarrow> (case unit_by (filter (\<lambda>u. \<not> un_retired u) (ct_units ct)) i of
           None \<Rightarrow> False | Some u \<Rightarrow> Some (un_path u) = co_path c))
   | Lecture_source ci sid l \<Rightarrow> ci = co_id c \<and> (sid, l) \<in> set (course_lectures c))"

definition activities :: "curriculum \<Rightarrow> activity_ref list" where
  "activities cu = concat (map ld_activities (cu_lessons cu))"

text \<open>\<open>given\<close> is the catalogue a caller has at hand; without one the request's own is loaded.\<close>

definition definitions :: "env \<Rightarrow> database \<Rightarrow> course \<Rightarrow> catalogue option \<Rightarrow> (curriculum \<times> catalogue option) result" where
  "definitions e db c given =
     bind_r (case co_path c of None \<Rightarrow> Inr None
       | Some _ \<Rightarrow> (case given of Some ct \<Rightarrow> Inr (Some ct)
           | None \<Rightarrow> bind_r (catalogue_of e db False) (\<lambda>ct. Inr (Some ct)))) (\<lambda>content.
     bind_r (case co_curriculum c of Some cu \<Rightarrow> Inr (without_unavailable_engine_units cu content)
       | None \<Rightarrow> adapted_curriculum e c content) (\<lambda>cu.
     if list_all (\<lambda>a. source_ok c content (ar_source a)) (activities cu) then Inr (cu, content)
     else Inl unavailable))"

section \<open>Completion\<close>

definition room_states :: "database \<Rightarrow> string \<Rightarrow> activity_ref list \<Rightarrow> states result" where
  "room_states db u refs = (if erased db u then Inl (Http 401 ''account gone'')
     else Inr (\<lambda>i. if i \<in> set (map the (filter (\<lambda>x. x \<noteq> None) (map (\<lambda>a. room_unit (ar_source a)) refs)))
       then room_of db u i else None))"

definition ref_completed :: "activity_ref \<Rightarrow> states \<Rightarrow> string set \<Rightarrow> bool" where
  "ref_completed a st done = (case ar_source a of
     Room_source i \<Rightarrow> (case st i of None \<Rightarrow> False | Some r \<Rightarrow> rs_status r = Completed \<or> rs_status r = Skipped)
   | Lecture_source c s l \<Rightarrow> l \<in> done)"

definition lesson_completed :: "lesson_def \<Rightarrow> states \<Rightarrow> string set \<Rightarrow> bool" where
  "lesson_completed l st done = list_all (\<lambda>a. ref_completed a st done) (ld_activities l)"

text \<open>One course of \<open>completion_overrides\<close>: unavailable content is an explicit \<open>None\<close>.\<close>

fun collect_definitions :: "env \<Rightarrow> database \<Rightarrow> catalogue option \<Rightarrow> course list \<Rightarrow>
    ((string \<times> curriculum option) list) result" where
  "collect_definitions e db content [] = Inr []"
| "collect_definitions e db content (c # cs) =
     (case definitions e db c content of
        Inl er \<Rightarrow> if status_code er = 404 \<or> status_code er = 503
          then bind_r (collect_definitions e db content cs) (\<lambda>r. Inr ((co_id c, None) # r)) else Inl er
      | Inr (cu, loaded) \<Rightarrow> bind_r (collect_definitions e db (if loaded = None then content else loaded) cs)
          (\<lambda>r. Inr ((co_id c, Some cu) # r)))"

definition completion_overrides :: "env \<Rightarrow> database \<Rightarrow> user option \<Rightarrow> course list \<Rightarrow>
    ((string \<times> bool option) list) result" where
  "completion_overrides e db us courses =
    (let explicit = filter has_explicit_curriculum courses in
     case us of None \<Rightarrow> Inr []
     | Some u \<Rightarrow> if explicit = [] then Inr []
       else bind_r (collect_definitions e db None explicit) (\<lambda>defs.
         bind_r (room_states db (us_id u) (concat (map (\<lambda>(c, cu). case cu of None \<Rightarrow> [] | Some x \<Rightarrow> activities x) defs))) (\<lambda>st.
         Inr (map (\<lambda>(c, cu). (c, map_option (\<lambda>x. list_all
            (\<lambda>a. ref_completed a st (lecture_get_completed db (us_id u) c)) (activities x)) cu)) defs))))"

datatype activity_kind = Video_kind | Explainer | Quiz | Matching_kind | Coding_kind | Custom_kind | Legacy_room

fun exercise_kind :: "exercise_type \<Rightarrow> activity_kind" where
  "exercise_kind Multiple_choice = Quiz"
| "exercise_kind Matching = Matching_kind"
| "exercise_kind Coding = Coding_kind"

definition room_kind :: "unit_def \<Rightarrow> activity_kind result" where
  "room_kind u = (case un_room u of
     Exercise_room \<Rightarrow> (case un_exercise u of None \<Rightarrow> Inl (Http 404 ''task unavailable'')
       | Some x \<Rightarrow> Inr (exercise_kind (ex_type x)))
   | Guided_lesson \<Rightarrow> Inr Explainer
   | Custom_room \<Rightarrow> Inr Custom_kind
   | Video_room \<Rightarrow> Inr Video_kind
   | Explorer n \<Rightarrow> Inr Legacy_room)"

text \<open>
  A course composition refers to existing work only: every activity of the lessons a course is offered with is
  a unit of the course's learning path that is not retired, or a lecture of the course itself.
\<close>

theorem definitions_refer_to_content:
  assumes "definitions e db c given = Inr (cu, content)" "a \<in> set (activities cu)"
  shows "(\<exists>ct u. content = Some ct \<and> ar_source a = Room_source (un_id u) \<and> u \<in> set (ct_units ct) \<and>
      \<not> un_retired u \<and> Some (un_path u) = co_path c) \<or>
    (\<exists>s l. s \<in> set (co_sections c) \<and> l \<in> set (se_lectures s) \<and> ar_source a = Lecture_source (co_id c) (se_id s) (le_id l))"
proof -
  from assms have "source_ok c content (ar_source a)"
    by (auto simp: definitions_def result_simps list_all_iff split: if_splits)
  then show ?thesis
    by (fastforce simp: source_ok_def course_lectures_def split: activity_source.splits option.splits
        dest: unit_by_SomeD)
qed

lemma definitions_refer_to_content_witness:
  "\<exists>cu content a. definitions example_env empty_db example_course None = Inr (cu, content) \<and> a \<in> set (activities cu) \<and>
    (\<exists>s l. s \<in> set (co_sections example_course) \<and> l \<in> set (se_lectures s) \<and>
      ar_source a = Lecture_source ''python'' (se_id s) (le_id l))"
proof -
  have "case definitions example_env empty_db example_course None of Inl er \<Rightarrow> False
      | Inr (cu, content) \<Rightarrow> activities cu \<noteq> [] \<and> content = None"
    by code_simp
  then obtain cu where cu: "definitions example_env empty_db example_course None = Inr (cu, None)" "activities cu \<noteq> []"
    by (auto split: sum.splits prod.splits)
  then obtain a where "a \<in> set (activities cu)" by (cases "activities cu") auto
  with cu have *: "definitions example_env empty_db example_course None = Inr (cu, None)" "a \<in> set (activities cu)" by auto
  from definitions_refer_to_content [OF *] have "\<exists>s l. s \<in> set (co_sections example_course) \<and>
      l \<in> set (se_lectures s) \<and> ar_source a = Lecture_source (co_id example_course) (se_id s) (le_id l)" by blast
  then have "\<exists>s l. s \<in> set (co_sections example_course) \<and> l \<in> set (se_lectures s) \<and>
      ar_source a = Lecture_source ''python'' (se_id s) (le_id l)" by (simp add: example_course_def)
  with * show ?thesis by blast
qed

end
