(* ===== verification/Daily.thy ===== *)
theory Daily
  imports Curriculum
begin

text \<open>
  The daily lesson limit (\<^verbatim>\<open>services/daily_limit.py\<close>): the policy of the shop, the configuration, the status of a
  learner, the durable start of a lesson with its request receipts, the admission of challenges and the
  backfill. The caches of a database session (policy, configuration, snapshot, history) hold what a read
  returns and are left out. The civil day of Berlin is a field of the environment.
\<close>

section \<open>Policy and configuration\<close>

definition legacy_policy :: policy where
  "legacy_policy = \<lparr>po_mode = Legacy, po_premium = False, po_single_sales = True, po_heart_sales = True\<rparr>"

definition access_unavailable :: err where
  "access_unavailable = Access 503 ''learning_access_unavailable''"

definition policy_of :: "env \<Rightarrow> string \<Rightarrow> policy result" where
  "policy_of e u = (if \<not> en_policy_enabled e \<or> u \<in> set (en_retained e) then Inr legacy_policy
     else case en_policy e u of No_policy \<Rightarrow> Inl access_unavailable
       | Policy_not_found \<Rightarrow> Inl (Http 401 ''account gone'')
       | Policy_answer p \<Rightarrow> Inr p)"

definition configuration :: "database \<Rightarrow> limit_mode \<times> int" where
  "configuration db = (case first_row (\<lambda>r. ds_id r = 1) (limits db) of None \<Rightarrow> (Off, 3)
     | Some r \<Rightarrow> (ds_mode r, ds_limit r))"

datatype issue = Curriculum_required string | Curriculum_unavailable string

definition activation_issues :: "env \<Rightarrow> database \<Rightarrow> issue list result" where
  "activation_issues e db = bind_r (map_r (\<lambda>c.
     case definitions e db c None of
       Inr _ \<Rightarrow> Inr (if co_path c \<noteq> None \<and> co_curriculum c = None then [Curriculum_required (co_id c)] else [])
     | Inl er \<Rightarrow> if is_http er
         then Inr ((if co_path c \<noteq> None \<and> co_curriculum c = None then [Curriculum_required (co_id c)] else []) @
           [Curriculum_unavailable (co_id c)])
         else Inl er) (en_courses e)) (\<lambda>iss. Inr (concat iss))"

record limit_configuration =
  lc_mode :: limit_mode
  lc_limit :: int
  lc_by :: string
  lc_note :: string

definition configure :: "env \<Rightarrow> limit_configuration \<Rightarrow> limit_configuration handler" where
  "configure e d db = bind_r (if lc_mode d = Enforce then activation_issues e db else Inr []) (\<lambda>issues.
     if issues \<noteq> [] then Inl (Coded 409 ''daily_limit_activation_blocked'')
     else let row = \<lparr>ds_id = 1, ds_mode = lc_mode d, ds_limit = lc_limit d, ds_updated = en_now e, ds_by = lc_by d,
              ds_note = lc_note d\<rparr>
          in Inr (d, db\<lparr>limits := upsert_by ds_id row (limits db)\<rparr>))"

definition day_window :: "env \<Rightarrow> int \<times> int" where
  "day_window e = (en_day e (en_now e), en_day_start e (en_day e (en_now e) + 1))"

section \<open>Lessons of a course\<close>

definition no_lesson :: err where
  "no_lesson = Http 404 ''no such lesson''"

definition has_unit :: "string \<Rightarrow> lesson_def \<Rightarrow> bool" where
  "has_unit i l \<longleftrightarrow> list_ex (\<lambda>a. room_unit (ar_source a) = Some i) (ld_activities l)"

definition lesson_definition :: "env \<Rightarrow> database \<Rightarrow> course \<Rightarrow> string \<Rightarrow> lesson_def result" where
  "lesson_definition e db c i = bind_r (definitions e db c None) (\<lambda>(cu, _).
     case find (\<lambda>l. ld_id l = i) (cu_lessons cu) of Some l \<Rightarrow> Inr l
     | None \<Rightarrow> (case find (has_unit i) (cu_lessons cu) of Some l \<Rightarrow> Inr l | None \<Rightarrow> Inl no_lesson))"

definition lecture_lesson :: "env \<Rightarrow> database \<Rightarrow> course \<Rightarrow> string \<Rightarrow> lesson_def result" where
  "lecture_lesson e db c i = bind_r (definitions e db c None) (\<lambda>(cu, _).
     case find (\<lambda>l. list_ex (\<lambda>a. source_lecture (ar_source a) = Some i) (ld_activities l)) (cu_lessons cu) of
       Some l \<Rightarrow> Inr l | None \<Rightarrow> Inl no_lesson)"

definition unit_lessons :: "env \<Rightarrow> database \<Rightarrow> string \<Rightarrow> string option \<Rightarrow> (course \<times> lesson_def) list result" where
  "unit_lessons e db i course_id = bind_r (catalogue_of e db False) (\<lambda>ct.
     case unit_by (ct_units ct) i of None \<Rightarrow> Inr []
     | Some un \<Rightarrow> bind_r (map_r (\<lambda>c. bind_r (definitions e db c (Some ct)) (\<lambda>(cu, _).
           Inr (map (\<lambda>l. (c, l)) (filter (has_unit i) (cu_lessons cu)))))
         (filter (\<lambda>c. co_path c = Some (un_path un) \<and> (course_id = None \<or> course_id = Some (co_id c)))
            (sort_key co_id (en_courses e)))) (\<lambda>ps. Inr (concat ps)))"

section \<open>What a learner has begun\<close>

definition start_of :: "database \<Rightarrow> string \<Rightarrow> string \<Rightarrow> string \<Rightarrow> lesson_start option" where
  "start_of db u c l = first_row (\<lambda>r. ls_user r = u \<and> ls_course r = c \<and> ls_lesson r = l) (starts db)"

definition charged_on :: "database \<Rightarrow> string \<Rightarrow> int \<Rightarrow> int" where
  "charged_on db u day = int (count_rows (\<lambda>r. ls_user r = u \<and> ls_charged r \<and> ls_day r = day) (starts db))"

definition history_unavailable :: err where
  "history_unavailable = Access 503 ''learning_history_unavailable''"

definition read_history_batch :: "env \<Rightarrow> string \<Rightarrow> string list \<Rightarrow> (string \<times> string) list \<Rightarrow>
    (string list \<times> (string \<times> string) list) result" where
  "read_history_batch e u subs lecs = (case en_history e u subs lecs of None \<Rightarrow> Inl history_unavailable
     | Some (a, l) \<Rightarrow> if set a \<subseteq> set subs \<and> set l \<subseteq> set lecs then Inr (a, l) else Inl history_unavailable)"

text \<open>The entries asked for, in batches of 500: subtasks of the catalogue, then all lectures.\<close>

fun batches :: "nat \<Rightarrow> 'a list \<Rightarrow> 'a list list" where
  "batches n xs = (if xs = [] \<or> n = 0 then [] else take n xs # batches n (drop n xs))"

declare batches.simps [simp del]

definition history_entries :: "env \<Rightarrow> database \<Rightarrow> (string + string \<times> string) list result" where
  "history_entries e db =
     bind_r (if en_rooms_enabled e then bind_r (catalogue_of e db False) (\<lambda>ct. Inr (sort (remdups
         (map (\<lambda>x. ex_subtask x) (map the (filter (\<lambda>x. x \<noteq> None)
           (map un_exercise (filter (\<lambda>un. \<not> un_retired un) (ct_units ct)))))))))
       else Inr []) (\<lambda>subs.
     let lecs = sort (remdups (concat (map (\<lambda>c. map (\<lambda>l. (co_id c, le_id l)) (all_lectures c)) (en_courses e))))
     in Inr (map Inl subs @ map Inr lecs))"

fun lefts :: "('a + 'b) list \<Rightarrow> 'a list" where
  "lefts [] = []" | "lefts (Inl x # xs) = x # lefts xs" | "lefts (Inr y # xs) = lefts xs"

fun rights_of :: "('a + 'b) list \<Rightarrow> 'b list" where
  "rights_of [] = []" | "rights_of (Inl x # xs) = rights_of xs" | "rights_of (Inr y # xs) = y # rights_of xs"

definition challenge_history :: "env \<Rightarrow> database \<Rightarrow> string \<Rightarrow> (string list \<times> (string \<times> string) list) result" where
  "challenge_history e db u = (if \<not> en_policy_enabled e then Inr ([], [])
     else bind_r (history_entries e db) (\<lambda>entries.
       bind_r (map_r (\<lambda>b. read_history_batch e u (lefts b) (rights_of b)) (batches 500 entries)) (\<lambda>rs.
       Inr (concat (map fst rs), concat (map snd rs)))))"

text \<open>The loop over the activities: \<open>Inl ()\<close> is the early \<^verbatim>\<open>return True\<close>, else the ids to ask for.\<close>

definition room_progress :: "room_state \<Rightarrow> bool" where
  "room_progress r \<longleftrightarrow> rs_status r = In_progress \<or> rs_status r = Completed \<or> rs_state r \<noteq> JObj [] \<or>
     (rs_review_id r \<noteq> None \<and> rs_review_status r = Some In_progress)"

fun scan_activities :: "env \<Rightarrow> database \<Rightarrow> string \<Rightarrow> string \<Rightarrow> activity_ref list \<Rightarrow> string list \<Rightarrow>
    (string \<times> string) list \<Rightarrow> (unit + string list \<times> (string \<times> string) list) result" where
  "scan_activities e db u c [] ex le = Inr (Inr (ex, le))"
| "scan_activities e db u c (a # as) ex le =
     (case ar_source a of
        Lecture_source _ _ l \<Rightarrow> if lecture_is_completed db u c l then Inr (Inl ())
          else scan_activities e db u c as ex ((c, l) # le)
      | Room_source i \<Rightarrow>
          if start_of db u c i \<noteq> None \<or> (case room_of db u i of None \<Rightarrow> False | Some r \<Rightarrow> room_progress r)
          then Inr (Inl ())
          else if \<not> en_rooms_enabled e then scan_activities e db u c as ex le
          else bind_r (catalogue_of e db False) (\<lambda>ct.
            case Option.bind (unit_by (ct_units ct) i) un_exercise of
              Some x \<Rightarrow> scan_activities e db u c as (ex_subtask x # ex) le
            | None \<Rightarrow> scan_activities e db u c as ex le))"

definition historical_progress :: "env \<Rightarrow> database \<Rightarrow> string \<Rightarrow> course \<Rightarrow> lesson_def \<Rightarrow> bool \<Rightarrow> bool result" where
  "historical_progress e db u c l with_history =
     bind_r (scan_activities e db u (co_id c) (ld_activities l) [] []) (\<lambda>r. case r of
       Inl _ \<Rightarrow> Inr True
     | Inr (ex, le) \<Rightarrow> if with_history \<and> (ex \<noteq> [] \<or> le \<noteq> [])
         then bind_r (challenge_history e db u) (\<lambda>(attempted, lecs).
           Inr (set ex \<inter> set attempted \<noteq> {} \<or> set le \<inter> set lecs \<noteq> {}))
         else Inr False)"

definition begun :: "env \<Rightarrow> database \<Rightarrow> string \<Rightarrow> course \<Rightarrow> lesson_def \<Rightarrow> bool result" where
  "begun e db u c l = (if start_of db u (co_id c) (ld_id l) \<noteq> None then Inr True
     else historical_progress e db u c l True)"

section \<open>Status\<close>

record daily_status =
  dy_mode :: policy_mode
  dy_limit :: int
  dy_used :: int
  dy_remaining :: "int option"
  dy_resets :: int
  dy_unlimited :: bool
  dy_enforced :: bool
  dy_started :: bool
  dy_can_start :: bool
  dy_exempt :: "exemption option"

definition status :: "env \<Rightarrow> database \<Rightarrow> user \<Rightarrow> course option \<Rightarrow> lesson_def option \<Rightarrow> daily_status result" where
  "status e db us co le = (if erased db (us_id us) then Inl (Http 401 ''account gone'')
     else bind_r (policy_of e (us_id us)) (\<lambda>current.
       let (mode, limit) = configuration db; (day, reset) = day_window e;
           used = charged_on db (us_id us) day;
           exempt0 = (if us_admin us then Some Admin else if po_premium current then Some Premium else None);
           exempt1 = (case exempt0 of Some x \<Rightarrow> Some x | None \<Rightarrow>
             (case co of Some c \<Rightarrow> if has_access_row db (us_id us) (co_id c) then Some Purchase else None
              | None \<Rightarrow> None));
           unlimited = (exempt1 \<noteq> None)
       in bind_r (case (co, le) of
            (Some c, Some l) \<Rightarrow> if start_of db (us_id us) (co_id c) (ld_id l) \<noteq> None then Inr True
              else historical_progress e db (us_id us) c l (\<not> unlimited)
          | _ \<Rightarrow> Inr False) (\<lambda>started.
          let exempt = (if exempt1 = None \<and> started then Some Started else exempt1);
              enforced = (po_mode current = Daily \<and> mode = Enforce)
          in Inr \<lparr>dy_mode = po_mode current, dy_limit = limit, dy_used = used,
               dy_remaining = (if enforced \<and> \<not> unlimited then Some (max 0 (limit - used)) else None),
               dy_resets = reset, dy_unlimited = unlimited, dy_enforced = enforced, dy_started = started,
               dy_can_start = (\<not> enforced \<or> exempt \<noteq> None \<or> used < limit), dy_exempt = exempt\<rparr>)))"

definition require_available :: "daily_status \<Rightarrow> unit result" where
  "require_available d = guard_r (dy_can_start d) (Access 429 ''daily_limit_reached'')"

definition optional_status :: "env \<Rightarrow> database \<Rightarrow> user \<Rightarrow> course option \<Rightarrow> lesson_def option \<Rightarrow> daily_status option result" where
  "optional_status e db us co le = (if \<not> en_policy_enabled e then Inr None
     else case status e db us co le of Inr d \<Rightarrow> Inr (Some d)
       | Inl er \<Rightarrow> if is_access er \<and> status_code er = 503 then Inr None else Inl er)"

text \<open>\<^verbatim>\<open>choose\<close>: the first candidate with a start, a purchase or local progress, else the first one begun.\<close>

fun choose_known :: "env \<Rightarrow> database \<Rightarrow> string \<Rightarrow> (course \<times> lesson_def) list \<Rightarrow> (course \<times> lesson_def) option result" where
  "choose_known e db u [] = Inr None"
| "choose_known e db u ((c, l) # ps) =
     (if start_of db u (co_id c) (ld_id l) \<noteq> None \<or> has_access_row db u (co_id c) then Inr (Some (c, l))
      else bind_r (historical_progress e db u c l False) (\<lambda>b.
        if b then Inr (Some (c, l)) else choose_known e db u ps))"

fun choose_begun :: "env \<Rightarrow> database \<Rightarrow> string \<Rightarrow> (course \<times> lesson_def) list \<Rightarrow> (course \<times> lesson_def) option result" where
  "choose_begun e db u [] = Inr None"
| "choose_begun e db u ((c, l) # ps) = (case begun e db u c l of
     Inr True \<Rightarrow> Inr (Some (c, l))
   | Inr False \<Rightarrow> choose_begun e db u ps
   | Inl er \<Rightarrow> if is_access er then choose_begun e db u ps else Inl er)"

definition choose_lesson :: "env \<Rightarrow> database \<Rightarrow> user \<Rightarrow> (course \<times> lesson_def) list \<Rightarrow> (course \<times> lesson_def) option result" where
  "choose_lesson e db us ps = bind_r (choose_known e db (us_id us) ps) (\<lambda>r. case r of Some p \<Rightarrow> Inr (Some p)
     | None \<Rightarrow> bind_r (choose_begun e db (us_id us) ps) (\<lambda>r. case r of Some p \<Rightarrow> Inr (Some p)
         | None \<Rightarrow> Inr (case ps of p # _ \<Rightarrow> Some p | [] \<Rightarrow> None)))"

definition confirmed_policy_mode :: "env \<Rightarrow> string \<Rightarrow> policy_mode option result" where
  "confirmed_policy_mode e u = (case policy_of e u of Inr p \<Rightarrow> Inr (Some (po_mode p))
     | Inl er \<Rightarrow> if is_access er then Inr None else Inl er)"

definition heart_policy :: "env \<Rightarrow> database \<Rightarrow> user \<Rightarrow> (course \<times> lesson_def) option \<Rightarrow> policy_mode option result" where
  "heart_policy e db us pair = bind_r (confirmed_policy_mode e (us_id us)) (\<lambda>current.
     case current of Some m \<Rightarrow> Inr (Some (if m = Daily then Daily else Legacy))
     | None \<Rightarrow> (case pair of None \<Rightarrow> Inr None
       | Some (c, l) \<Rightarrow>
         let ids = ld_id l # map the (filter (\<lambda>x. x \<noteq> None) (map (\<lambda>a. room_unit (ar_source a)) (ld_activities l)));
             rs = all_rows (\<lambda>r. ls_user r = us_id us \<and> ls_course r = co_id c \<and> ls_lesson r \<in> set ids) (starts db)
         in Inr (if list_ex (\<lambda>r. ls_policy r = Some Daily \<or> (ls_policy r = None \<and> ls_reason r = Charged_daily)) rs
                 then Some Daily
                 else if list_ex (\<lambda>r. ls_policy r = Some Legacy \<or> ls_policy r = Some Shadow) rs then Some Legacy
                 else None)))"

section \<open>Starting a lesson\<close>

definition confirm_start :: "database \<Rightarrow> string \<Rightarrow> string \<Rightarrow> string \<Rightarrow> policy_mode option \<Rightarrow> database" where
  "confirm_start db u c l m = (case m of None \<Rightarrow> db
     | Some pm \<Rightarrow> db\<lparr>starts := update_rows (\<lambda>r. ls_user r = u \<and> ls_course r = c \<and> ls_lesson r = l)
         (\<lambda>r. r\<lparr>ls_policy := Some pm\<rparr>) (starts db)\<rparr>)"

definition add_receipt :: "env \<Rightarrow> string \<Rightarrow> string option \<Rightarrow> string \<Rightarrow> string \<Rightarrow> database \<Rightarrow> database" where
  "add_receipt e u req c l db = (case req of None \<Rightarrow> db
     | Some r \<Rightarrow> db\<lparr>start_receipts := add_row \<lparr>lr_user = u, lr_request = r, lr_course = c, lr_lesson = l,
         lr_created = en_now e\<rparr> (start_receipts db)\<rparr>)"

text \<open>
  The evidence of an earlier begin for a first start. An unreachable history only refuses the start where the limit
  is enforced by the daily policy; otherwise the start is treated as new.
\<close>

definition old_progress :: "env \<Rightarrow> database \<Rightarrow> user \<Rightarrow> course \<Rightarrow> lesson_def \<Rightarrow> daily_status option \<Rightarrow> limit_mode \<Rightarrow> bool result" where
  "old_progress e db us c l daily mode =
     (case historical_progress e db (us_id us) c l (\<not> (case daily of Some d \<Rightarrow> dy_unlimited d | None \<Rightarrow> False)) of
        Inr b \<Rightarrow> Inr b
      | Inl er \<Rightarrow> if \<not> is_access er then Inl er
          else if mode \<noteq> Enforce then Inr False
          else (case policy_of e (us_id us) of
             Inr p \<Rightarrow> if po_mode p = Daily then Inl er else Inr False
           | Inl er' \<Rightarrow> if is_access er' then Inr False else Inl er'))"

definition reason_of :: "bool \<Rightarrow> bool \<Rightarrow> daily_status option \<Rightarrow> start_reason" where
  "reason_of old charge daily = (if old then Historical
     else case daily of None \<Rightarrow> Service_unavailable
       | Some d \<Rightarrow> (case dy_exempt d of Some x \<Rightarrow> Exempt x
           | None \<Rightarrow> if dy_enforced d then Charged_daily else if charge then Charged_shadow else Limit_off))"

text \<open>The part of \<^verbatim>\<open>start\<close> after the receipt: admission, the durable row, the receipt.\<close>

text \<open>The durable row of an admitted start, with the receipt of its request.\<close>

definition record_start :: "env \<Rightarrow> user \<Rightarrow> course \<Rightarrow> lesson_def \<Rightarrow> string option \<Rightarrow> daily_status option \<Rightarrow> limit_mode \<Rightarrow>
    daily_status option handler" where
  "record_start e us c l req daily mode db = (let u = us_id us in
     bind_r (confirmed_policy_mode e u) (\<lambda>confirmed.
     bind_r (case start_of db u (co_id c) (ld_id l) of
         Some row \<Rightarrow> Inr (confirm_start db u (co_id c) (ld_id l) confirmed)
       | None \<Rightarrow> bind_r (old_progress e db us c l daily mode) (\<lambda>old.
           let charge = (case daily of None \<Rightarrow> False | Some d \<Rightarrow> \<not> old \<and> \<not> dy_unlimited d \<and> mode \<noteq> Off)
           in Inr (db\<lparr>starts := add_row \<lparr>ls_user = u, ls_course = co_id c, ls_lesson = ld_id l, ls_started = en_now e,
                ls_day = fst (day_window e), ls_charged = charge, ls_reason = reason_of old charge daily,
                ls_policy = confirmed\<rparr> (starts db)\<rparr>))) (\<lambda>db.
     let db = add_receipt e u req (co_id c) (ld_id l) db
     in bind_r (optional_status e db us (Some c) (Some l)) (\<lambda>d. Inr (d, db)))))"

text \<open>The part of \<^verbatim>\<open>start\<close> after the receipt: an unknown policy opens only what is proven otherwise.\<close>

definition admit_start :: "env \<Rightarrow> user \<Rightarrow> course \<Rightarrow> lesson_def \<Rightarrow> string option \<Rightarrow> daily_status option handler" where
  "admit_start e us c l req db = (let u = us_id us; mode = fst (configuration db) in
     bind_r (optional_status e db us (Some c) (Some l)) (\<lambda>daily.
     case daily of
       None \<Rightarrow>
         bind_r (if free c \<or> us_admin us \<or> co_id c \<in> get_owned_courses db u then Inr ()
                 else bind_r (begun e db u c l) (\<lambda>b. guard_r b access_unavailable))
           (\<lambda>_. record_start e us c l req None mode db)
     | Some d \<Rightarrow> bind_r (require_available d) (\<lambda>_.
         if dy_mode d = Legacy \<and> mode = Off then Inr (Some d, db)
         else record_start e us c l req (Some d) mode db)))"

definition start :: "env \<Rightarrow> user \<Rightarrow> course \<Rightarrow> lesson_def \<Rightarrow> string option \<Rightarrow> bool \<Rightarrow> daily_status option handler" where
  "start e us c l req locked db0 = (if \<not> en_policy_enabled e then Inr (None, db0)
     else let u = us_id us; (guard, db) = (if locked then (\<lparr>pu_user = u, pu_deleted = False\<rparr>, db0) else lock_user db0 u)
     in if pu_deleted guard then Inl (Http 401 ''account gone'')
        else case Option.bind req (\<lambda>r. first_row (\<lambda>x. lr_user x = u \<and> lr_request x = r) (start_receipts db)) of
          Some receipt \<Rightarrow>
            if (lr_course receipt, lr_lesson receipt) \<noteq> (co_id c, ld_id l) then Inl (Access 409 ''request_id_conflict'')
            else bind_r (if start_of db u (co_id c) (ld_id l) = None then Inr db
                  else bind_r (confirmed_policy_mode e u) (\<lambda>m. Inr (confirm_start db u (co_id c) (ld_id l) m))) (\<lambda>db.
                bind_r (optional_status e db us (Some c) (Some l)) (\<lambda>d. Inr (d, db)))
        | None \<Rightarrow> admit_start e us c l req db)"

definition start_unit :: "env \<Rightarrow> user \<Rightarrow> string \<Rightarrow> string option \<Rightarrow> bool \<Rightarrow> daily_status option handler" where
  "start_unit e us i course_id locked db = (if \<not> en_policy_enabled e then Inr (None, db)
     else bind_r (unit_lessons e db i course_id) (\<lambda>ps. bind_r (choose_lesson e db us ps) (\<lambda>p.
       case p of None \<Rightarrow> Inr (None, db) | Some (c, l) \<Rightarrow> start e us c l None locked db)))"

section \<open>Access\<close>

definition daily_course_access :: "env \<Rightarrow> user \<Rightarrow> bool result" where
  "daily_course_access e us = (if \<not> en_policy_enabled e then Inr False
     else bind_r (policy_of e (us_id us)) (\<lambda>p. Inr (po_mode p = Daily)))"

definition course_daily_access :: "env \<Rightarrow> database \<Rightarrow> user \<Rightarrow> course \<Rightarrow> lesson_def option \<Rightarrow> bool result" where
  "course_daily_access e db us c lesson = (case daily_course_access e us of Inr b \<Rightarrow> Inr b
     | Inl er \<Rightarrow> if \<not> is_access er then Inl er
       else case lesson of
         Some l \<Rightarrow> bind_r (begun e db (us_id us) c l) (\<lambda>b. if b then Inr True else Inl er)
       | None \<Rightarrow> bind_r (definitions e db c None) (\<lambda>(cu, _).
           bind_r (any_r (\<lambda>l. if start_of db (us_id us) (co_id c) (ld_id l) \<noteq> None then Inr True
               else historical_progress e db (us_id us) c l False) (cu_lessons cu)) (\<lambda>b1.
           if b1 then Inr True
           else bind_r (any_r (begun e db (us_id us) c) (cu_lessons cu)) (\<lambda>b2. if b2 then Inr True else Inl er))))"

definition for_unit :: "env \<Rightarrow> database \<Rightarrow> user \<Rightarrow> string \<Rightarrow> string option \<Rightarrow> daily_status option result" where
  "for_unit e db us i course_id = (if \<not> en_policy_enabled e then Inr None
     else bind_r (unit_lessons e db i course_id) (\<lambda>ps. bind_r (choose_lesson e db us ps) (\<lambda>p. case p of None \<Rightarrow> Inr None
       | Some (c, l) \<Rightarrow> bind_r (optional_status e db us (Some c) (Some l)) (\<lambda>daily.
           if daily = None \<and> \<not> (free c \<or> us_admin us \<or> co_id c \<in> get_owned_courses db (us_id us))
           then bind_r (course_daily_access e db us c (Some l)) (\<lambda>_. Inr None) else Inr daily))))"

section \<open>Admission of challenges\<close>

record lecture_binding =
  lb_course :: string
  lb_lecture :: "string option"
  lb_section :: "string option"

record challenge_request =
  cr_task :: "string option"
  cr_subtask :: "string option"
  cr_bindings :: "lecture_binding list"
  cr_admin :: bool
  cr_request :: "string option"

record admission =
  ad_lesson :: "(string \<times> string) option"
  ad_daily :: "daily_status option"
  ad_heart :: "policy_mode option"

text \<open>\<open>Or\<close> of the code: the next question is only asked when the ones before said no.\<close>

definition admitted :: "env \<Rightarrow> database \<Rightarrow> user \<Rightarrow> course \<Rightarrow> lesson_def option \<Rightarrow> bool result" where
  "admitted e db us c l = (if free c \<or> us_admin us \<or> co_id c \<in> get_owned_courses db (us_id us) then Inr True
     else bind_r (course_daily_access e db us c l) (\<lambda>b. if b then Inr True else en_premium e (us_id us)))"

fun filter_r :: "('a \<Rightarrow> bool result) \<Rightarrow> 'a list \<Rightarrow> 'a list result" where
  "filter_r f [] = Inr []"
| "filter_r f (x # xs) = bind_r (f x) (\<lambda>b. bind_r (filter_r f xs) (\<lambda>ys. Inr (if b then x # ys else ys)))"

lemma filter_r_Inr: "filter_r f xs = Inr ys \<Longrightarrow> y \<in> set ys \<Longrightarrow> y \<in> set xs \<and> f y = Inr True"
  by (induction xs arbitrary: ys) (auto simp: result_simps split: if_splits)

definition candidate_of_binding :: "env \<Rightarrow> database \<Rightarrow> lecture_binding \<Rightarrow> (course \<times> lesson_def option) result" where
  "candidate_of_binding e db b = (case course_by e (lb_course b) of
       None \<Rightarrow> Inl (Http 404 ''course unavailable'')
     | Some c \<Rightarrow>
       if (case lb_section b of None \<Rightarrow> False | Some s \<Rightarrow> s \<notin> se_id ` set (co_sections c))
       then Inl (Http 404 ''course unavailable'')
       else case lb_lecture b of None \<Rightarrow> Inr (c, None)
       | Some l \<Rightarrow>
         if (case lb_section b of None \<Rightarrow> False | Some s \<Rightarrow>
               \<not> list_ex (\<lambda>x. se_id x = s \<and> l \<in> le_id ` set (se_lectures x)) (co_sections c))
         then Inl no_lesson else bind_r (lecture_lesson e db c l) (\<lambda>d. Inr (c, Some d)))"

definition task_candidates :: "env \<Rightarrow> database \<Rightarrow> challenge_request \<Rightarrow> (course \<times> lesson_def) list result" where
  "task_candidates e db d = (case (en_rooms_enabled e, cr_task d) of
       (True, Some t) \<Rightarrow> bind_r (catalogue_of e db False) (\<lambda>ct.
         bind_r (map_r (\<lambda>un. unit_lessons e db (un_id un) None)
           (filter (\<lambda>un. \<not> un_retired un \<and> (case un_exercise un of None \<Rightarrow> False
              | Some x \<Rightarrow> ex_task x = t \<and> (cr_subtask d = None \<or> cr_subtask d = Some (ex_subtask x)))) (ct_units ct)))
           (\<lambda>ps. Inr (concat ps)))
     | _ \<Rightarrow> Inr [])"

text \<open>\<open>read_only\<close> is the batch read of the permissions; it never starts a lesson.\<close>

definition challenge_scope_admission :: "env \<Rightarrow> user \<Rightarrow> (course \<times> lesson_def) list \<Rightarrow> course list \<Rightarrow> bool \<Rightarrow>
    string option \<Rightarrow> bool \<Rightarrow> admission handler" where
  "challenge_scope_admission e us candidates broad mutate req read_only db =
     (if candidates = [] \<and> broad = [] then bind_r (heart_policy e db us None) (\<lambda>h.
        Inr (\<lparr>ad_lesson = None, ad_daily = None, ad_heart = h\<rparr>, db))
      else bind_r (filter_r (\<lambda>(c, l). admitted e db us c (Some l)) candidates) (\<lambda>pairs.
        bind_r (filter_r (\<lambda>c. admitted e db us c None) broad) (\<lambda>open_courses.
        let no_access = Http 403 ''course access needed'' in
        if read_only then
          (if pairs = [] \<and> open_courses = [] then Inl no_access
           else if en_policy_enabled e \<and> erased db (us_id us) then Inl (Http 401 ''account gone'')
           else bind_r (confirmed_policy_mode e (us_id us)) (\<lambda>_.
             Inr (\<lparr>ad_lesson = None, ad_daily = None, ad_heart = None\<rparr>, db)))
        else bind_r (choose_lesson e db us pairs) (\<lambda>p. case p of
          None \<Rightarrow> if open_courses = [] then Inl no_access
            else bind_r (optional_status e db us None None) (\<lambda>daily.
              bind_r (heart_policy e db us None) (\<lambda>h. Inr (\<lparr>ad_lesson = None, ad_daily = daily, ad_heart = h\<rparr>, db)))
        | Some (c, l) \<Rightarrow>
            bind_r (if mutate then start e us c l req False db
                    else bind_r (optional_status e db us (Some c) (Some l)) (\<lambda>d. Inr (d, db))) (\<lambda>(daily, db).
            bind_r (heart_policy e db us (Some (c, l))) (\<lambda>h.
              Inr (\<lparr>ad_lesson = Some (co_id c, ld_id l), ad_daily = daily, ad_heart = h\<rparr>, db)))))))"

definition challenge_admission :: "env \<Rightarrow> string \<Rightarrow> challenge_request \<Rightarrow> bool \<Rightarrow> bool \<Rightarrow> admission handler" where
  "challenge_admission e u d mutate read_batch db =
     (if mutate \<and> cr_request d = None then Inl (Http 422 ''request_id is required'')
      else if mutate \<and> read_batch then Inl (Crash ''A read batch cannot start lessons'')
      else bind_r (task_candidates e db d) (\<lambda>candidates.
        bind_r (map_r (candidate_of_binding e db) (cr_bindings d)) (\<lambda>bs.
        challenge_scope_admission e \<lparr>us_id = u, us_admin = cr_admin d, us_verified = True\<rparr>
          (candidates @ map (\<lambda>(c, l). (c, the l)) (filter (\<lambda>(c, l). l \<noteq> None) bs))
          (map fst (filter (\<lambda>(c, l). l = None) bs)) mutate (cr_request d) read_batch db)))"

section \<open>Backfill\<close>

text \<open>
  Every lesson with known progress gets an uncharged row. The starts already there and the evidence are those of
  the snapshot taken before; no row of the backfill is read by a later lesson.
\<close>

fun backfill_lessons :: "env \<Rightarrow> string \<Rightarrow> database \<Rightarrow> (course \<times> lesson_def) list \<Rightarrow> lesson_start list result" where
  "backfill_lessons e u db [] = Inr []"
| "backfill_lessons e u db ((c, l) # ps) =
     (if start_of db u (co_id c) (ld_id l) \<noteq> None then backfill_lessons e u db ps
      else bind_r (historical_progress e db u c l True) (\<lambda>b. bind_r (backfill_lessons e u db ps) (\<lambda>rs.
        Inr (if b then \<lparr>ls_user = u, ls_course = co_id c, ls_lesson = ld_id l, ls_started = en_now e,
            ls_day = fst (day_window e), ls_charged = False, ls_reason = Historical, ls_policy = None\<rparr> # rs else rs))))"

definition backfill_user :: "env \<Rightarrow> string \<Rightarrow> nat handler" where
  "backfill_user e u db0 = (if \<not> en_policy_enabled e then Inr (0, db0)
     else let (guard, db) = lock_user db0 u in
       if pu_deleted guard then Inr (0, db)
       else bind_r (map_r (\<lambda>c. bind_r (definitions e db c None) (\<lambda>(cu, _). Inr (map (\<lambda>l. (c, l)) (cu_lessons cu))))
           (en_courses e)) (\<lambda>ps.
         bind_r (backfill_lessons e u db (concat ps)) (\<lambda>rs. Inr (length rs, db\<lparr>starts := starts db @ rs\<rparr>))))"

section \<open>What a start writes\<close>

definition start_row :: "env \<Rightarrow> user \<Rightarrow> course \<Rightarrow> lesson_def \<Rightarrow> bool \<Rightarrow> daily_status option \<Rightarrow> limit_mode \<Rightarrow>
    policy_mode option \<Rightarrow> lesson_start" where
  "start_row e us c l old daily mode confirmed = (let charge = (case daily of None \<Rightarrow> False
       | Some d \<Rightarrow> \<not> old \<and> \<not> dy_unlimited d \<and> mode \<noteq> Off)
     in \<lparr>ls_user = us_id us, ls_course = co_id c, ls_lesson = ld_id l, ls_started = en_now e,
         ls_day = fst (day_window e), ls_charged = charge, ls_reason = reason_of old charge daily, ls_policy = confirmed\<rparr>)"

lemma add_receipt_starts [simp]: "starts (add_receipt e u req c l db) = starts db"
  by (simp add: add_receipt_def split: option.splits)

lemma record_start_cases:
  assumes "record_start e us c l req daily mode db = Inr (d, db')"
  obtains (again) m where "start_of db (us_id us) (co_id c) (ld_id l) \<noteq> None"
      "db' = add_receipt e (us_id us) req (co_id c) (ld_id l) (confirm_start db (us_id us) (co_id c) (ld_id l) m)"
  | (first) old m where "start_of db (us_id us) (co_id c) (ld_id l) = None" "old_progress e db us c l daily mode = Inr old"
      "db' = add_receipt e (us_id us) req (co_id c) (ld_id l)
        (db\<lparr>starts := add_row (start_row e us c l old daily mode m) (starts db)\<rparr>)"
proof -
  let ?put = "\<lambda>m. case start_of db (us_id us) (co_id c) (ld_id l) of
      Some row \<Rightarrow> Inr (confirm_start db (us_id us) (co_id c) (ld_id l) m)
    | None \<Rightarrow> bind_r (old_progress e db us c l daily mode) (\<lambda>old.
        Inr (db\<lparr>starts := add_row (start_row e us c l old daily mode m) (starts db)\<rparr>))"
  from assms obtain m dbx where w: "?put m = Inr dbx"
    and db': "db' = add_receipt e (us_id us) req (co_id c) (ld_id l) dbx"
    unfolding record_start_def Let_def bind_r_Inr_iff start_row_def by blast
  show thesis
  proof (cases "start_of db (us_id us) (co_id c) (ld_id l)")
    case None
    with w obtain old where "old_progress e db us c l daily mode = Inr old"
      "dbx = db\<lparr>starts := add_row (start_row e us c l old daily mode m) (starts db)\<rparr>"
      by (auto simp: result_simps)
    with None db' show thesis by (intro first) auto
  next
    case (Some row)
    with w db' show thesis by (intro again) auto
  qed
qed

lemma admit_start_cases:
  assumes "admit_start e us c l req db = Inr (d, db')"
  obtains (unknown) "optional_status e db us (Some c) (Some l) = Inr None"
      "free c \<or> us_admin us \<or> co_id c \<in> get_owned_courses db (us_id us) \<or> begun e db (us_id us) c l = Inr True"
      "record_start e us c l req None (fst (configuration db)) db = Inr (d, db')"
  | (legacy) s where "optional_status e db us (Some c) (Some l) = Inr (Some s)" "dy_can_start s" "db' = db" "d = Some s"
      "dy_mode s = Legacy" "fst (configuration db) = Off"
  | (known) s where "optional_status e db us (Some c) (Some l) = Inr (Some s)" "dy_can_start s"
      "record_start e us c l req (Some s) (fst (configuration db)) db = Inr (d, db')"
proof -
  from assms obtain daily where daily: "optional_status e db us (Some c) (Some l) = Inr daily"
    by (auto simp: admit_start_def Let_def result_simps)
  show thesis
  proof (cases daily)
    case None
    with assms daily show thesis
      by (intro unknown) (auto simp: admit_start_def Let_def result_simps split: if_splits)
  next
    case (Some s)
    show thesis
    proof (cases "dy_mode s = Legacy \<and> fst (configuration db) = Off")
      case True
      with assms daily Some show thesis
        by (intro legacy [of s]) (auto simp: admit_start_def Let_def result_simps require_available_def split: if_splits)
    next
      case False
      with assms daily Some have "dy_can_start s \<and> record_start e us c l req (Some s) (fst (configuration db)) db = Inr (d, db')"
        by (auto simp: admit_start_def Let_def result_simps require_available_def split: if_splits)
      with daily Some show thesis by (intro known) auto
    qed
  qed
qed

lemma start_cases:
  assumes "start e us c l req False db = Inr (d, db')" "en_policy_enabled e"
  obtains (receipt) m where "\<not> erased db (us_id us)" "req \<noteq> None"
      "db' = confirm_start (snd (lock_user db (us_id us))) (us_id us) (co_id c) (ld_id l) m"
  | (admit) "\<not> erased db (us_id us)" "admit_start e us c l req (snd (lock_user db (us_id us))) = Inr (d, db')"
proof -
  define db1 where "db1 = snd (lock_user db (us_id us))"
  have ne: "\<not> erased db (us_id us)" using assms by (auto simp: start_def Let_def case_prod_beta)
  let ?found = "Option.bind req (\<lambda>r. first_row (\<lambda>x. lr_user x = us_id us \<and> lr_request x = r) (start_receipts db))"
  show thesis
  proof (cases ?found)
    case None
    then show thesis using assms ne
      by (intro admit) (simp_all add: start_def Let_def case_prod_beta)
  next
    case (Some x)
    then have "req \<noteq> None" by (cases req) auto
    have cs: "confirm_start db1 (us_id us) (co_id c) (ld_id l) None = db1" by (simp add: confirm_start_def)
    obtain m where "db' = confirm_start db1 (us_id us) (co_id c) (ld_id l) m"
    proof (cases "start_of db1 (us_id us) (co_id c) (ld_id l) = None")
      case True
      with Some assms ne have "db' = db1"
        by (auto simp: start_def Let_def case_prod_beta result_simps db1_def split: if_splits)
      then show thesis using that [of None] cs by simp
    next
      case False
      with Some assms ne obtain m where "db' = confirm_start db1 (us_id us) (co_id c) (ld_id l) m"
        by (auto simp: start_def Let_def case_prod_beta result_simps db1_def split: if_splits)
      then show thesis by (rule that)
    qed
    with ne \<open>req \<noteq> None\<close> show thesis by (intro receipt) (simp_all add: db1_def)
  qed
qed

section \<open>The limit\<close>

lemma count_update:
  "(\<And>r. Q (f r) = Q r) \<Longrightarrow> count_rows Q (update_rows P f t) = count_rows Q t"
  by (induction t) (auto simp: count_rows_def update_rows_def)

lemma charged_confirm [simp]: "charged_on (confirm_start db u c l m) v day = charged_on db v day"
  by (auto simp: charged_on_def confirm_start_def count_update split: option.splits)

lemma charged_receipt [simp]: "charged_on (add_receipt e u req c l db) v day = charged_on db v day"
  by (simp add: charged_on_def)

lemma charged_add [simp]: "charged_on (db\<lparr>starts := add_row r (starts db)\<rparr>) v day =
    charged_on db v day + (if ls_user r = v \<and> ls_charged r \<and> ls_day r = day then 1 else 0)"
  by (simp add: charged_on_def count_rows_def add_row_def)

lemma charged_lock_user [simp]: "charged_on (snd (lock_user db u)) v day = charged_on db v day"
  by (simp add: charged_on_def)

lemma optional_status_Some:
  "optional_status e db us co le = Inr (Some s) \<longleftrightarrow> en_policy_enabled e \<and> status e db us co le = Inr s"
  by (auto simp: optional_status_def split: sum.splits if_splits)

text \<open>What the status of a lesson says, in terms of the database.\<close>

lemma status_Inr:
  assumes "status e db us (Some c) (Some l) = Inr s"
  shows "\<exists>p. policy_of e (us_id us) = Inr p \<and> dy_mode s = po_mode p \<and>
      dy_enforced s = (po_mode p = Daily \<and> fst (configuration db) = Enforce)"
    "dy_limit s = snd (configuration db)" "dy_used s = charged_on db (us_id us) (en_day e (en_now e))"
    "dy_can_start s \<longleftrightarrow> \<not> dy_enforced s \<or> dy_exempt s \<noteq> None \<or> dy_used s < dy_limit s"
    "dy_unlimited s \<longleftrightarrow> dy_exempt s \<noteq> None \<and> dy_exempt s \<noteq> Some Started"
    "start_of db (us_id us) (co_id c) (ld_id l) \<noteq> None \<Longrightarrow> dy_exempt s \<noteq> None"
    "start_of db (us_id us) (co_id c) (ld_id l) = None \<Longrightarrow> dy_exempt s = Some Started \<Longrightarrow>
      historical_progress e db (us_id us) c l True = Inr True"
  using assms
  by (auto simp: status_def Let_def result_simps case_prod_beta day_window_def split: if_splits option.splits)

text \<open>A start that is charged was admitted below the limit of an enforced daily policy.\<close>

lemma charged_start_below_limit:
  assumes st: "status e db us (Some c) (Some l) = Inr s" "dy_can_start s"
    and pol: "policy_of e (us_id us) = Inr p" "po_mode p = Daily" "configuration db = (Enforce, limit)"
    and new: "start_of db (us_id us) (co_id c) (ld_id l) = None" "old_progress e db us c l (Some s) mode = Inr old"
    and charged: "ls_charged (start_row e us c l old (Some s) mode m)"
  shows "charged_on db (us_id us) (en_day e (en_now e)) < limit"
proof -
  note si = status_Inr [OF st(1)]
  have no: "\<not> old" "\<not> dy_unlimited s" using charged by (auto simp: start_row_def Let_def)
  have "historical_progress e db (us_id us) c l True \<noteq> Inr True" using new(2) no by (auto simp: old_progress_def)
  then have "dy_exempt s = None" using no(2) si(5) si(7) [OF new(1)] by auto
  moreover have "dy_enforced s" using si(1) pol by auto
  ultimately have "dy_used s < dy_limit s" using st(2) si(4) by simp
  then show ?thesis using si(2,3) pol(3) by simp
qed

lemma recorded_start_within_limit:
  assumes rec: "record_start e us c l req daily mode db = Inr (d, db')"
    and before: "charged_on db (us_id us) (en_day e (en_now e)) \<le> limit"
    and room: "\<And>old m. start_of db (us_id us) (co_id c) (ld_id l) = None \<Longrightarrow> old_progress e db us c l daily mode = Inr old \<Longrightarrow>
      ls_charged (start_row e us c l old daily mode m) \<Longrightarrow> charged_on db (us_id us) (en_day e (en_now e)) < limit"
  shows "charged_on db' (us_id us) (en_day e (en_now e)) \<le> limit"
  using rec
proof (cases rule: record_start_cases)
  case (again m)
  with before show ?thesis by simp
next
  case (first old m)
  show ?thesis
  proof (cases "ls_charged (start_row e us c l old daily mode m)")
    case True
    with room [OF first(1,2)] have "charged_on db (us_id us) (en_day e (en_now e)) < limit" .
    with first show ?thesis by simp
  qed (use first before in simp)
qed

text \<open>
  C1: the daily limit holds. While the shop's daily policy applies to a learner and the limit is enforced, no
  admitted start raises the number of charged lessons of the day above the limit, whatever the course, the lesson
  and the request; starts of exempt learners and of lessons begun before are not charged.
\<close>

theorem daily_limit_holds:
  assumes run: "start e us c l req False db = Inr (d, db')"
    and pol: "policy_of e (us_id us) = Inr p" "po_mode p = Daily"
    and conf: "configuration db = (Enforce, limit)"
    and before: "charged_on db (us_id us) (en_day e (en_now e)) \<le> limit"
  shows "charged_on db' (us_id us) (en_day e (en_now e)) \<le> limit"
proof (cases "en_policy_enabled e")
  case False
  with run before show ?thesis by (simp add: start_def)
next
  case True
  define db1 where "db1 = snd (lock_user db (us_id us))"
  have conf1: "configuration db1 = (Enforce, limit)" using conf by (simp add: configuration_def db1_def)
  have before1: "charged_on db1 (us_id us) (en_day e (en_now e)) \<le> limit" using before by (simp add: db1_def)
  from run True show ?thesis
  proof (cases rule: start_cases)
    case (receipt m)
    with before show ?thesis by simp
  next
    case admit
    from admit(2) [folded db1_def] show ?thesis
    proof (cases rule: admit_start_cases)
      case unknown
      from unknown(3) before1 show ?thesis
        by (rule recorded_start_within_limit) (simp add: start_row_def Let_def)
    next
      case (legacy s)
      with before1 show ?thesis by simp
    next
      case (known s)
      have "status e db1 us (Some c) (Some l) = Inr s" using known(1) by (simp add: optional_status_Some)
      note below = charged_start_below_limit [OF this known(2) pol conf1]
      from known(3) before1 below show ?thesis by (rule recorded_start_within_limit)
    qed
  qed
qed

text \<open>One enforced lesson a day, and the first lesson of the example course.\<close>

definition example_limits :: database where
  "example_limits = empty_db\<lparr>limits := [\<lparr>ds_id = 1, ds_mode = Enforce, ds_limit = 1, ds_updated = 0, ds_by = ''op'',
     ds_note = ''n''\<rparr>]\<rparr>"

definition example_lesson :: "string \<Rightarrow> lesson_def" where
  "example_lesson i = \<lparr>ld_id = i, ld_title = localized [66], ld_chapter = Some ''s1'',
     ld_activities = [\<lparr>ar_id = i, ar_source = Lecture_source ''python'' ''s1'' i, ar_title = None, ar_roles = None\<rparr>]\<rparr>"

lemma daily_limit_holds_witness:
  "\<exists>d db'. start example_env example_user example_course (example_lesson ''intro'') None False example_limits = Inr (d, db') \<and>
     charged_on example_limits ''u'' 10 = 0 \<and> charged_on db' ''u'' 10 = 1 \<and>
     charged_on db' (us_id example_user) (en_day example_env (en_now example_env)) \<le> 1"
proof -
  have "case start example_env example_user example_course (example_lesson ''intro'') None False example_limits of
      Inl er \<Rightarrow> False | Inr (d, db') \<Rightarrow> charged_on db' ''u'' 10 = 1" "charged_on example_limits ''u'' 10 = 0"
    by code_simp+
  then obtain d db' where run:
    "start example_env example_user example_course (example_lesson ''intro'') None False example_limits = Inr (d, db')"
    "charged_on db' ''u'' 10 = 1" "charged_on example_limits ''u'' 10 = 0"
    by (auto split: sum.splits prod.splits)
  have "charged_on db' (us_id example_user) (en_day example_env (en_now example_env)) \<le> 1"
    by (rule daily_limit_holds [OF run(1), of "\<lparr>po_mode = Daily, po_premium = False, po_single_sales = True,
        po_heart_sales = True\<rparr>"]) code_simp+
  with run show ?thesis by blast
qed

section \<open>Durable starts\<close>

lemma start_of_confirm: "start_of (confirm_start db u c l m) u c l \<noteq> None \<longleftrightarrow> start_of db u c l \<noteq> None"
  by (cases m) (simp_all add: confirm_start_def start_of_def first_row_update_same)

lemma start_of_receipt [simp]: "start_of (add_receipt e u req c l db) = start_of db"
  by (simp add: start_of_def fun_eq_iff)

lemma start_of_lock_user [simp]: "start_of (snd (lock_user db u)) = start_of db"
  by (simp add: start_of_def fun_eq_iff)

lemma erased_daily [simp]:
  "erased (confirm_start db u c l m) v = erased db v" "erased (add_receipt e u req c l db) v = erased db v"
  by (simp_all add: erased_def confirm_start_def add_receipt_def split: option.splits)

lemma status_started:
  assumes "start_of db (us_id us) (co_id c) (ld_id l) \<noteq> None" "policy_of e (us_id us) = Inr p" "\<not> erased db (us_id us)"
  shows "\<exists>s. status e db us (Some c) (Some l) = Inr s \<and> dy_can_start s \<and> dy_started s"
  using assms by (auto simp: status_def Let_def case_prod_beta split: option.splits)



text \<open>
  An outage of the shop opens nothing new. While the policy of a learner is unknown, the start of a lesson of a
  paid course is refused with 503 unless the learner owns the course, or has begun this lesson before.
\<close>

theorem outage_opens_nothing_new:
  assumes "en_policy_enabled e" "\<not> erased db (us_id us)" "us_id us \<notin> set (en_retained e)" "en_policy e (us_id us) = No_policy"
    "\<not> free c" "\<not> us_admin us" "co_id c \<notin> get_owned_courses db (us_id us)"
    "begun e (snd (lock_user db (us_id us))) (us_id us) c l = Inr False"
  shows "start e us c l None False db = Inl access_unavailable \<and> status_code access_unavailable = 503"
proof -
  have "policy_of e (us_id us) = Inl access_unavailable" using assms by (simp add: policy_of_def)
  then have "optional_status e (snd (lock_user db (us_id us))) us (Some c) (Some l) = Inr None"
    using assms(1,2) by (simp add: optional_status_def status_def access_unavailable_def)
  moreover have "get_owned_courses (snd (lock_user db (us_id us))) (us_id us) = get_owned_courses db (us_id us)"
    by (simp add: get_owned_courses_def)
  ultimately show ?thesis using assms
    by (simp add: start_def admit_start_def Let_def case_prod_beta access_unavailable_def)
qed

lemma outage_opens_nothing_new_witness:
  "start (example_env\<lparr>en_policy := (\<lambda>u. No_policy)\<rparr>) example_user example_course (example_lesson ''intro'') None False
     example_limits = Inl access_unavailable"
  by (rule outage_opens_nothing_new [THEN conjunct1]) code_simp+

section \<open>What a start changes\<close>

text \<open>Only the lesson starts and their receipts.\<close>

definition same_but_starts :: "database \<Rightarrow> database \<Rightarrow> bool" where
  "same_but_starts db db' \<longleftrightarrow> db' = db\<lparr>starts := starts db', start_receipts := start_receipts db'\<rparr>"

lemma same_but_starts_refl [simp]: "same_but_starts db db"
  by (simp add: same_but_starts_def)

lemma same_but_starts_trans: "same_but_starts a b \<Longrightarrow> same_but_starts b c \<Longrightarrow> same_but_starts a c"
  unfolding same_but_starts_def by (cases a; cases b; cases c) simp

lemma same_but_starts_confirm: "same_but_starts db (confirm_start db u c l m)"
  by (simp add: same_but_starts_def confirm_start_def split: option.split)

lemma same_but_starts_put: "same_but_starts db (db\<lparr>starts := t\<rparr>)"
  by (simp add: same_but_starts_def)

lemma same_but_starts_receipt: "same_but_starts db db' \<Longrightarrow> same_but_starts db (add_receipt e u req c l db')"
  unfolding same_but_starts_def add_receipt_def by (cases db; cases db'; cases req) simp_all

lemma record_start_frame:
  "record_start e us c l req daily mode db = Inr (d, db') \<Longrightarrow> same_but_starts db db'"
  by (erule record_start_cases) (auto intro!: same_but_starts_receipt same_but_starts_confirm same_but_starts_put)

lemma admit_start_frame: "admit_start e us c l req db = Inr (d, db') \<Longrightarrow> same_but_starts db db'"
  by (erule admit_start_cases) (auto dest: record_start_frame)

lemma start_locked_frame: "start e us c l None True db = Inr (d, db') \<Longrightarrow> same_but_starts db db'"
  by (auto simp: start_def Let_def split: if_splits intro: admit_start_frame)

lemma start_unit_frame: "start_unit e us i ci True db = Inr (d, db') \<Longrightarrow> same_but_starts db db'"
  by (auto simp: start_unit_def result_simps split: if_splits option.splits intro: start_locked_frame)

section \<open>Erased accounts\<close>

lemma gone_confirm: "gone db v \<Longrightarrow> gone (confirm_start db u c l m) v"
  by (auto simp: confirm_start_def intro!: gone_write no_row_intros gone_row split: option.splits)

lemma gone_receipt: "gone db v \<Longrightarrow> u \<noteq> v \<Longrightarrow> gone (add_receipt e u req c l db) v"
  by (auto simp: add_receipt_def intro!: gone_write gone_row split: option.splits)

lemma gone_record_start:
  assumes "gone db v" "us_id us \<noteq> v" "record_start e us c l req daily mode db = Inr (d, db')"
  shows "gone db' v"
  using assms(3)
proof (cases rule: record_start_cases)
  case (again m)
  with assms show ?thesis by (simp add: gone_confirm gone_receipt)
next
  case (first old m)
  have "gone (db\<lparr>starts := add_row (start_row e us c l old daily mode m) (starts db)\<rparr>) v"
    using assms(1,2) by (intro gone_write) (simp_all add: start_row_def Let_def gone_row)
  with assms(2) first show ?thesis by (simp add: gone_receipt)
qed

lemma gone_admit_start:
  assumes "gone db v" "us_id us \<noteq> v" "admit_start e us c l req db = Inr (d, db')"
  shows "gone db' v"
  using assms(3)
proof (cases rule: admit_start_cases)
  case unknown
  show ?thesis by (rule gone_record_start [OF assms(1,2) unknown(3)])
next
  case (legacy s)
  with assms show ?thesis by simp
next
  case (known s)
  show ?thesis by (rule gone_record_start [OF assms(1,2) known(3)])
qed

lemma gone_start:
  assumes "gone db v" "start e us c l req False db = Inr (d, db')"
  shows "gone db' v"
proof (cases "en_policy_enabled e")
  case False
  with assms show ?thesis by (simp add: start_def)
next
  case True
  from assms(2) True show ?thesis
  proof (cases rule: start_cases)
    case (receipt m)
    with assms show ?thesis by (simp add: gone_confirm)
  next
    case admit
    with assms(1) have "us_id us \<noteq> v" by (auto simp: gone_def)
    with assms(1) gone_admit_start [OF _ _ admit(2)] show ?thesis by simp
  qed
qed

lemma gone_start_locked:
  assumes "gone db v" "us_id us \<noteq> v" "start e us c l None True db = Inr (d, db')"
  shows "gone db' v"
  using assms by (auto simp: start_def Let_def split: if_splits intro: gone_admit_start)

lemma gone_start_unit:
  assumes "gone db v" "us_id us \<noteq> v" "start_unit e us i ci True db = Inr (d, db')"
  shows "gone db' v"
  using assms
  by (auto simp: start_unit_def result_simps split: if_splits option.splits intro: gone_start_locked)

interpretation start_steps: guarded "\<lambda>(e, us, c, l, req) db. committed db (start e us c l req False db)"
  by unfold_locales (auto intro: gone_committed gone_start)

end
