(* ===== verification/Llm.thy ===== *)
theory Llm
  imports Env
begin

text \<open>
  Grading verdicts (\<^verbatim>\<open>services/llm.py\<close>): the keys of the service, the claims of a signed verdict and the check
  that binds a verdict to one learner, unit, course, answer, rubric version and environment. Decoding a signed
  token is PyJWT's; its outcome is a parameter that depends on the key.
\<close>

section \<open>Keys\<close>

text \<open>A configured value and file; \<open>Some None\<close> is a file that cannot be read as UTF-8 text.\<close>

record key_setting =
  ks_value :: "nat list"
  ks_file :: "nat list option option"

datatype decoded = Expired_token | Invalid_token | Payload json

record llm_env =
  ll_grant :: key_setting
  ll_verdict :: key_setting
  ll_service_keys :: "nat list list"
  ll_env :: string
  ll_grant_ttl :: int
  ll_decode :: "nat list \<Rightarrow> string \<Rightarrow> decoded"

definition MIN_KEY_BYTES :: nat where
  "MIN_KEY_BYTES = 32"

definition strip_newlines :: "nat list \<Rightarrow> nat list" where
  "strip_newlines b = rev (dropWhile (\<lambda>c. c = 10 \<or> c = 13) (rev b))"

text \<open>\<open>Inl\<close> when the configuration cannot be used, \<open>Inr None\<close> when nothing is configured.\<close>

definition secret :: "key_setting \<Rightarrow> nat list option result" where
  "secret k = (if ks_value k \<noteq> [] \<and> ks_file k \<noteq> None then Inl (Crash ''configured twice'')
     else case ks_file k of Some None \<Rightarrow> Inl (Crash ''file cannot be read'')
     | Some (Some b) \<Rightarrow> Inr (if strip_newlines b = [] then None else Some (strip_newlines b))
     | None \<Rightarrow> Inr (if ks_value k = [] then None else Some (ks_value k)))"

definition usable_key :: "key_setting \<Rightarrow> nat list list \<Rightarrow> nat list option" where
  "usable_key k others = (case secret k of Inr (Some b) \<Rightarrow>
       if length b < MIN_KEY_BYTES \<or> b \<in> set others then None else Some b | _ \<Rightarrow> None)"

definition grant_key :: "llm_env \<Rightarrow> nat list option" where
  "grant_key l = usable_key (ll_grant l) (filter (\<lambda>k. k \<noteq> []) (ll_service_keys l))"

definition verdict_key :: "llm_env \<Rightarrow> nat list option" where
  "verdict_key l = usable_key (ll_verdict l) (filter (\<lambda>k. k \<noteq> []) (ll_service_keys l) @
     (case secret (ll_grant l) of Inr (Some g) \<Rightarrow> [g] | _ \<Rightarrow> []))"

definition valid_environment :: "string \<Rightarrow> bool" where
  "valid_environment s = (case s of [] \<Rightarrow> False
     | c # cs \<Rightarrow> CHR ''a'' \<le> c \<and> c \<le> CHR ''z'' \<and> length cs \<le> 31 \<and> list_all (\<lambda>c. slug_char c \<or> c = CHR ''-'') cs)"

definition verdict_env :: "llm_env \<Rightarrow> string option" where
  "verdict_env l = (if ll_env l \<noteq> [] \<and> valid_environment (ll_env l) then Some (ll_env l) else None)"

text \<open>Whoever holds the grant key cannot sign a verdict.\<close>

lemma verdict_key_differs: "verdict_key l = Some k \<Longrightarrow> grant_key l \<noteq> Some k"
  by (auto simp: verdict_key_def grant_key_def usable_key_def split: sum.splits option.splits if_splits)

section \<open>Claims\<close>

record claims =
  cl_exp :: int
  cl_iat :: int
  cl_uid :: string
  cl_unit :: ustr
  cl_course :: "ustr option"
  cl_profile :: string
  cl_profile_hash :: string
  cl_request :: string
  cl_answer_sha256 :: string
  cl_locale :: string
  cl_env :: string
  cl_score :: int
  cl_max_score :: int
  cl_pass_score :: int
  cl_passed :: bool
  cl_model :: ustr

definition json_text :: "json option \<Rightarrow> ustr option" where
  "json_text v = (case v of Some (JStr s) \<Rightarrow> Some s | _ \<Rightarrow> None)"

text \<open>Fields whose pattern admits ASCII only.\<close>

definition json_string :: "json option \<Rightarrow> string option" where
  "json_string v = (case v of Some (JStr s) \<Rightarrow> if list_all (\<lambda>c. c < 128) s then Some (map char_of s) else None
     | _ \<Rightarrow> None)"

definition json_int :: "json option \<Rightarrow> int option" where
  "json_int v = (case v of Some (JInt i) \<Rightarrow> Some i | _ \<Rightarrow> None)"

definition json_bool :: "json option \<Rightarrow> bool option" where
  "json_bool v = (case v of Some (JBool b) \<Rightarrow> Some b | _ \<Rightarrow> None)"

text \<open>The optional claim: absent and null are \<open>None\<close>; \<open>None\<close> outside is a refusal.\<close>

definition json_optional :: "json option \<Rightarrow> ustr option option" where
  "json_optional v = (case v of None \<Rightarrow> Some None | Some JNull \<Rightarrow> Some None | Some (JStr s) \<Rightarrow> Some (Some s)
     | _ \<Rightarrow> None)"

definition require_that :: "('a \<Rightarrow> bool) \<Rightarrow> 'a option \<Rightarrow> 'a option" where
  "require_that P v = (case v of Some x \<Rightarrow> if P x then Some x else None | None \<Rightarrow> None)"

definition parse_claims :: "env \<Rightarrow> json \<Rightarrow> claims option" where
  "parse_claims e p =
     Option.bind (require_that (\<lambda>s. s = ''llm-verdict'') (json_string (jget ''aud'' p))) (\<lambda>_.
     Option.bind (json_int (jget ''exp'' p)) (\<lambda>ex.
     Option.bind (json_int (jget ''iat'' p)) (\<lambda>ia.
     Option.bind (Option.bind (json_string (jget ''uid'' p)) (en_uuid e)) (\<lambda>uid.
     Option.bind (json_text (jget ''unit_id'' p)) (\<lambda>un.
     Option.bind (json_optional (jget ''course_id'' p)) (\<lambda>co.
     Option.bind (require_that slug (json_string (jget ''profile'' p))) (\<lambda>pr.
     Option.bind (require_that hex_hash (json_string (jget ''profile_hash'' p))) (\<lambda>ph.
     Option.bind (Option.bind (json_string (jget ''request_id'' p)) (en_uuid e)) (\<lambda>rq.
     Option.bind (require_that hex_hash (json_string (jget ''answer_sha256'' p))) (\<lambda>ah.
     Option.bind (require_that (\<lambda>s. s = ''de'' \<or> s = ''en'') (json_string (jget ''locale'' p))) (\<lambda>lo.
     Option.bind (require_that valid_environment (json_string (jget ''env'' p))) (\<lambda>en.
     Option.bind (require_that (\<lambda>i. 0 \<le> i) (json_int (jget ''score'' p))) (\<lambda>sc.
     Option.bind (require_that (\<lambda>i. 0 \<le> i) (json_int (jget ''max_score'' p))) (\<lambda>ms.
     Option.bind (require_that (\<lambda>i. 0 \<le> i) (json_int (jget ''pass_score'' p))) (\<lambda>ps.
     Option.bind (json_bool (jget ''passed'' p)) (\<lambda>pa.
     Option.bind (require_that (\<lambda>s. length s \<le> 128) (json_text (jget ''model'' p))) (\<lambda>mo.
     Some \<lparr>cl_exp = ex, cl_iat = ia, cl_uid = uid, cl_unit = un, cl_course = co, cl_profile = pr, cl_profile_hash = ph,
       cl_request = rq, cl_answer_sha256 = ah, cl_locale = lo, cl_env = en, cl_score = sc, cl_max_score = ms,
       cl_pass_score = ps, cl_passed = pa, cl_model = mo\<rparr>)))))))))))))))))"

text \<open>\<^verbatim>\<open>value not in (None, False)\<close>: Python's \<^verbatim>\<open>0 == False\<close> included.\<close>

definition falsy_marker :: "json option \<Rightarrow> bool" where
  "falsy_marker v \<longleftrightarrow> v = None \<or> v = Some JNull \<or> v = Some (JBool False) \<or> v = Some (JInt 0) \<or>
     v = Some (JFloat 0) \<or> v = Some (JFloat (2 ^ 63))"

definition marked_as_practice :: "json \<Rightarrow> bool" where
  "marked_as_practice p \<longleftrightarrow> \<not> falsy_marker (jget ''fake'' p) \<or> \<not> falsy_marker (jget ''test'' p) \<or>
     (jget ''mode'' p \<noteq> None \<and> jget ''mode'' p \<noteq> Some JNull \<and> jget ''mode'' p \<noteq> Some (js ''live'')) \<or>
     jget ''provider'' p = Some (js ''fake'')"

section \<open>The check of a verdict\<close>

definition verdict_unavailable :: err where "verdict_unavailable = Coded 503 ''verdict_unavailable''"
definition verdict_practice :: err where "verdict_practice = Coded 403 ''verdict_practice''"
definition verdict_stale :: err where "verdict_stale = Coded 409 ''verdict_stale''"
definition verdict_foreign :: err where "verdict_foreign = Coded 403 ''verdict_foreign''"

text \<open>\<open>None\<close>: the answer holds a lone surrogate and cannot be encoded.\<close>

definition answer_sha256 :: "env \<Rightarrow> ustr \<Rightarrow> string option" where
  "answer_sha256 e t = (if list_ex (\<lambda>c. 55296 \<le> c \<and> c \<le> 57343) t then None else Some (en_sha256 e (utf8 t)))"

text \<open>\<open>not_before\<close> counts whole seconds, as \<^verbatim>\<open>int(started.timestamp())\<close>.\<close>

definition verify_verdict :: "env \<Rightarrow> llm_env \<Rightarrow> string \<Rightarrow> string \<Rightarrow> string \<Rightarrow> string \<Rightarrow> string \<Rightarrow> string option \<Rightarrow> ustr \<Rightarrow>
    int option \<Rightarrow> claims result" where
  "verify_verdict e l token u i profile profile_sha course_id answer not_before =
     (case (verdict_key l, verdict_env l) of
        (Some key, Some en) \<Rightarrow>
          (case ll_decode l key token of
             Expired_token \<Rightarrow> Inl verdict_stale
           | Invalid_token \<Rightarrow> Inl verdict_foreign
           | Payload p \<Rightarrow>
             if marked_as_practice p then Inl verdict_practice
             else case parse_claims e p of None \<Rightarrow> Inl verdict_foreign
             | Some c \<Rightarrow>
               if cl_env c \<noteq> en then Inl verdict_foreign
               else if \<not> (en_uuid e u = Some (cl_uid c) \<and> answer_sha256 e answer = Some (cl_answer_sha256 c)) \<or>
                  (cl_unit c, cl_course c, cl_profile c) \<noteq> (ustr i, map_option ustr course_id, profile) then Inl verdict_foreign
               else if cl_profile_hash c \<noteq> profile_sha then Inl verdict_stale
               else if (case not_before of None \<Rightarrow> False | Some t \<Rightarrow> cl_iat c < t) then Inl verdict_stale
               else Inr c)
      | _ \<Rightarrow> Inl verdict_unavailable)"

lemma verify_verdict_Inr:
  assumes "verify_verdict e l token u i profile profile_sha course_id answer not_before = Inr c"
  shows "en_uuid e u = Some (cl_uid c)" "answer_sha256 e answer = Some (cl_answer_sha256 c)" "cl_unit c = ustr i"
    "cl_course c = map_option ustr course_id" "cl_profile c = profile" "cl_profile_hash c = profile_sha" "verdict_env l = Some (cl_env c)"
    "\<And>t. not_before = Some t \<Longrightarrow> t \<le> cl_iat c"
    "\<exists>key p. verdict_key l = Some key \<and> ll_decode l key token = Payload p \<and> parse_claims e p = Some c \<and> \<not> marked_as_practice p"
  using assms by (auto simp: verify_verdict_def split: option.splits decoded.splits if_splits)

text \<open>
  A verdict counts only for what it was signed for: a verdict that the check accepts was decoded with the
  verdict key, which is not the grant key, is no practice grading, and is bound to this learner, this unit and
  course, this rubric version, this environment and the hash of exactly this answer; in a repeat it was graded
  after the repeat began.
\<close>

theorem accepted_verdict_is_bound:
  assumes "verify_verdict e l token u i profile profile_sha course_id answer not_before = Inr c"
  shows "en_uuid e u = Some (cl_uid c) \<and> answer_sha256 e answer = Some (cl_answer_sha256 c) \<and> cl_unit c = ustr i \<and>
    cl_course c = map_option ustr course_id \<and> cl_profile c = profile \<and> cl_profile_hash c = profile_sha \<and>
    verdict_env l = Some (cl_env c) \<and> (case not_before of None \<Rightarrow> True | Some t \<Rightarrow> t \<le> cl_iat c) \<and>
    (\<exists>key p. verdict_key l = Some key \<and> grant_key l \<noteq> Some key \<and> ll_decode l key token = Payload p \<and>
      \<not> marked_as_practice p)"
  using verify_verdict_Inr [OF assms] verdict_key_differs [of l] by (auto split: option.split)

definition example_payload :: json where
  "example_payload = jobj [(''aud'', js ''llm-verdict''), (''exp'', JInt 900), (''iat'', JInt 800), (''uid'', js ''u''),
     (''unit_id'', js ''essay''), (''profile'', js ''rubric''), (''profile_hash'', js (replicate 64 (CHR ''a''))),
     (''request_id'', js ''r''), (''answer_sha256'', js (replicate 64 (CHR ''b''))), (''locale'', js ''de''),
     (''env'', js ''live''), (''score'', JInt 8), (''max_score'', JInt 10), (''pass_score'', JInt 6),
     (''passed'', JBool True), (''model'', js ''m'')]"

definition example_llm :: llm_env where
  "example_llm = \<lparr>ll_grant = \<lparr>ks_value = replicate 32 1, ks_file = None\<rparr>, ll_verdict = \<lparr>ks_value = replicate 32 2, ks_file = None\<rparr>,
     ll_service_keys = [], ll_env = ''live'', ll_grant_ttl = 600, ll_decode = (\<lambda>k t. Payload example_payload)\<rparr>"

lemma accepted_verdict_is_bound_witness:
  "\<exists>c. verify_verdict (example_env\<lparr>en_sha256 := (\<lambda>b. replicate 64 (CHR ''b''))\<rparr>) example_llm ''token'' ''u'' ''essay''
      ''rubric'' (replicate 64 (CHR ''a'')) None [72, 105] (Some 700) = Inr c \<and> cl_unit c = ustr ''essay'' \<and> 700 \<le> cl_iat c"
proof -
  let ?run = "verify_verdict (example_env\<lparr>en_sha256 := (\<lambda>b. replicate 64 (CHR ''b''))\<rparr>) example_llm ''token'' ''u'' ''essay''
      ''rubric'' (replicate 64 (CHR ''a'')) None [72, 105] (Some 700)"
  have "case ?run of Inl er \<Rightarrow> False | Inr c \<Rightarrow> True" by code_simp
  then obtain c where run: "?run = Inr c" by (auto split: sum.splits)
  from accepted_verdict_is_bound [OF run] have "cl_unit c = ustr ''essay'' \<and> 700 \<le> cl_iat c" by simp
  with run show ?thesis by blast
qed

section \<open>Grants\<close>

record grant =
  gn_uid :: string
  gn_course :: "string option"
  gn_path :: string
  gn_unit :: string
  gn_profiles :: "string list"
  gn_expires :: int

definition issue_grant :: "env \<Rightarrow> llm_env \<Rightarrow> string \<Rightarrow> unit_def \<Rightarrow> string option \<Rightarrow> grant result" where
  "issue_grant e l u un course_id = (case grant_key l of None \<Rightarrow> Inl (Http 503 ''AI unavailable'')
     | Some key \<Rightarrow> (case en_uuid e u of None \<Rightarrow> Inl (Http 403 ''AI unavailable for this account'')
       | Some uid \<Rightarrow> Inr \<lparr>gn_uid = uid, gn_course = course_id, gn_path = un_path un, gn_unit = un_id un,
           gn_profiles = un_profiles un, gn_expires = en_now e + ll_grant_ttl l\<rparr>))"

end
