(* ===== verification/Milestones.thy ===== *)
theory Milestones
  imports Llm
begin

text \<open>
  Requests that change a learning room, and lesson milestones (\<^verbatim>\<open>services/lesson_milestones.py\<close>): which completion
  earns one, the outbox row (one per learner and unit), the delivery to the challenges service in two transactions
  around the call, the backoff, the recovery loop. The locale \<open>leased_work\<close> states what a worker may rely on that
  claims a row, calls out and finishes; it is interpreted here and on the submissions of the lesson engine.
\<close>

section \<open>Requests of a room\<close>

datatype action = Do_complete | Do_skip

record complete_data =
  cd_review :: "string option"
  cd_attempt :: "string option"
  cd_action :: action
  cd_answer :: json
  cd_verdict :: "string option"

datatype room_op =
    Save_state "string option" json
  | Complete_room complete_data
  | Start_review

record mutation =
  mu_request :: string
  mu_expected :: int
  mu_op :: room_op

section \<open>Which completion earns a milestone\<close>

definition checked_completion :: "unit_def \<Rightarrow> complete_data \<Rightarrow> claims option \<Rightarrow> bool \<Rightarrow> string option" where
  "checked_completion un d verdict repeat =
     (if un_milestone un = None \<or> cd_action d \<noteq> Do_complete \<or> un_exercise un \<noteq> None then None
      else case un_completion un of
        Some (Llm_verdict p h) \<Rightarrow> (case verdict of Some c \<Rightarrow> if cl_passed c then Some ''llm_verdict'' else None | None \<Rightarrow> None)
      | Some (Introduction a s) \<Rightarrow> if \<not> repeat then Some ''deterministic'' else None
      | _ \<Rightarrow> None)"

definition milestone_of :: "database \<Rightarrow> string \<Rightarrow> string \<Rightarrow> milestone_row option" where
  "milestone_of db u i = first_row (\<lambda>r. ms_user r = u \<and> ms_unit r = i) (milestones db)"

definition enqueue :: "int \<Rightarrow> string \<Rightarrow> unit_def \<Rightarrow> string \<Rightarrow> database \<Rightarrow> database" where
  "enqueue now u un completion db = (case un_milestone un of None \<Rightarrow> db
     | Some m \<Rightarrow> if milestone_of db u (un_id un) \<noteq> None then db
       else db\<lparr>milestones := add_row \<lparr>ms_user = u, ms_unit = un_id un, ms_skill = mi_skill m, ms_xp = mi_xp m,
         ms_completion = completion, ms_state = Pending, ms_attempts = 0, ms_next = now, ms_last_status = None,
         ms_created = now, ms_finished = None\<rparr> (milestones db)\<rparr>)"

section \<open>Backoff\<close>

text \<open>Seconds.\<close>

definition FIRST_RETRY :: int where "FIRST_RETRY = 30"
definition LAST_RETRY :: int where "LAST_RETRY = 3600"

definition backoff :: "nat \<Rightarrow> int" where
  "backoff attempts = min (FIRST_RETRY * 2 ^ min (max (attempts - 1) 0) 7) LAST_RETRY"

text \<open>
  The pause between attempts starts at 30 seconds, doubles with each attempt and reaches one hour at the eighth;
  it never shrinks and never exceeds an hour, however often an attempt fails.
\<close>

theorem backoff_schedule:
  "map backoff [1, 2, 3, 4, 5, 6, 7, 8] = [30, 60, 120, 240, 480, 960, 1920, 3600] \<and>
   (\<forall>n. 30 \<le> backoff n \<and> backoff n \<le> 3600 \<and> backoff n \<le> backoff (Suc n)) \<and> (\<forall>n. backoff (n + 8) = 3600)"
proof (intro conjI allI)
  fix n :: nat
  have "(2::int) ^ 0 \<le> 2 ^ min (n - 1) 7" by (rule power_increasing) simp_all
  then show "30 \<le> backoff n" by (simp add: backoff_def FIRST_RETRY_def LAST_RETRY_def)
  show "backoff n \<le> 3600" by (simp add: backoff_def LAST_RETRY_def)
  have "(2::int) ^ min (n - 1) 7 \<le> 2 ^ min n 7" by (rule power_increasing) simp_all
  then show "backoff n \<le> backoff (Suc n)" unfolding backoff_def FIRST_RETRY_def LAST_RETRY_def
    by (intro min.mono mult_left_mono) auto
  show "backoff (n + 8) = 3600" by (simp add: backoff_def FIRST_RETRY_def LAST_RETRY_def)
qed (simp add: backoff_def FIRST_RETRY_def LAST_RETRY_def)

section \<open>Work under a lease\<close>

text \<open>
  A worker claims a job, works outside of any transaction and finishes it. \<open>busy\<close> is the instant until which the
  job is taken; a claim takes it for at least \<open>lease\<close>, and a job that is closed is never claimed or changed again.
\<close>

datatype 'o work_event = Claim_at int | Finish_at int 'o

locale leased_work =
  fixes claim :: "int \<Rightarrow> 'j \<Rightarrow> 'j option"
    and finish :: "int \<Rightarrow> 'o \<Rightarrow> 'j \<Rightarrow> 'j"
    and busy :: "'j \<Rightarrow> int option"
    and closed :: "'j \<Rightarrow> bool"
    and lease :: int
  assumes claim_free: "claim t j = Some j' \<Longrightarrow> \<not> closed j \<and> (case busy j of None \<Rightarrow> True | Some b \<Rightarrow> b \<le> t)"
    and claim_busy: "claim t j = Some j' \<Longrightarrow> \<exists>b. busy j' = Some b \<and> t + lease \<le> b"
    and finish_closed: "closed j \<Longrightarrow> finish t x j = j"
    and finish_busy: "\<not> closed (finish t x j) \<Longrightarrow> busy (finish t x j) = busy j"
begin

fun step :: "'o work_event \<Rightarrow> 'j \<Rightarrow> 'j" where
  "step (Claim_at t) j = (case claim t j of None \<Rightarrow> j | Some j' \<Rightarrow> j')"
| "step (Finish_at t x) j = finish t x j"

text \<open>The instants of the calls a history of events makes.\<close>

fun calls :: "'o work_event list \<Rightarrow> 'j \<Rightarrow> int list" where
  "calls [] j = []"
| "calls (ev # evs) j = (case ev of
     Claim_at t \<Rightarrow> (if claim t j = None then [] else [t]) @ calls evs (step ev j)
   | Finish_at t x \<Rightarrow> calls evs (step ev j))"

lemma claim_closed: "closed j \<Longrightarrow> claim t j = None"
  using claim_free by (cases "claim t j") auto

lemma closed_final: "closed j \<Longrightarrow> fold step evs j = j \<and> calls evs j = []"
proof (induction evs arbitrary: j)
  case (Cons ev evs)
  then show ?case by (cases ev) (simp_all add: claim_closed finish_closed)
qed simp

lemma calls_after_busy: "busy j = Some b \<Longrightarrow> 0 \<le> lease \<Longrightarrow> t \<in> set (calls evs j) \<Longrightarrow> b \<le> t"
proof (induction evs arbitrary: j b)
  case (Cons ev evs)
  show ?case
  proof (cases ev)
    case (Claim_at s)
    show ?thesis
    proof (cases "claim s j")
      case None
      with Cons Claim_at show ?thesis by auto
    next
      case (Some j')
      with claim_free [of s j j'] Cons.prems have "b \<le> s" by auto
      moreover from claim_busy [OF Some] obtain b' where "busy j' = Some b'" "s + lease \<le> b'" by auto
      ultimately show ?thesis using Cons Claim_at Some by fastforce
    qed
  next
    case (Finish_at s x)
    show ?thesis
    proof (cases "closed (finish s x j)")
      case True
      with Cons.prems Finish_at closed_final [OF True] show ?thesis by auto
    next
      case False
      with finish_busy [OF False] Cons Finish_at show ?thesis by auto
    qed
  qed
qed simp

text \<open>Two calls for one job are at least a lease apart.\<close>

lemma calls_spaced: "0 \<le> lease \<Longrightarrow> sorted_wrt (\<lambda>t t'. t + lease \<le> t') (calls evs j)"
proof (induction evs arbitrary: j)
  case (Cons ev evs)
  show ?case
  proof (cases ev)
    case (Claim_at s)
    show ?thesis
    proof (cases "claim s j")
      case None
      with Cons Claim_at show ?thesis by auto
    next
      case (Some j')
      from claim_busy [OF Some] obtain b' where "busy j' = Some b'" "s + lease \<le> b'" by auto
      then have "\<forall>t\<in>set (calls evs j'). s + lease \<le> t"
        using calls_after_busy [of j' b'] Cons.prems by fastforce
      with Cons Claim_at Some show ?thesis by auto
    qed
  next
    case (Finish_at s x)
    with Cons show ?thesis by auto
  qed
qed simp

end

section \<open>Delivery\<close>

text \<open>The answer of the challenges service; \<open>None\<close> as the state means that the row is tried again.\<close>

definition send_outcome :: "string \<Rightarrow> reply \<Rightarrow> delivery_state option \<times> nat option" where
  "send_outcome i r = (case r of No_reply \<Rightarrow> (None, None)
     | Reply st body \<Rightarrow>
       if st = 200 then
         (case Option.bind body (jget ''milestone'') of
            Some (JObj es) \<Rightarrow>
              (if json_bool (Option.bind body (jget ''created'')) \<noteq> None \<and> jget ''unit_id'' (JObj es) = Some (js i)
               then (Some Delivered, Some st) else (None, Some st))
          | _ \<Rightarrow> (None, Some st))
       else if st = 410 then (Some Erased, Some st)
       else if (st = 404 \<and> Option.bind body (jget ''error'') = Some (js ''skill_not_found'')) \<or> st = 422
       then (Some Rejected, Some st)
       else (None, Some st))"

definition claim_row :: "int \<Rightarrow> milestone_row \<Rightarrow> milestone_row option" where
  "claim_row now r = (if ms_state r \<noteq> Pending \<or> ms_next r > now then None
     else Some (r\<lparr>ms_attempts := ms_attempts r + 1, ms_next := now + backoff (ms_attempts r + 1)\<rparr>))"

definition finish_row :: "int \<Rightarrow> delivery_state option \<times> nat option \<Rightarrow> milestone_row \<Rightarrow> milestone_row" where
  "finish_row now out r = (if ms_state r \<noteq> Pending then r
     else case fst out of None \<Rightarrow> r\<lparr>ms_last_status := snd out\<rparr>
     | Some s \<Rightarrow> r\<lparr>ms_last_status := snd out, ms_state := s, ms_finished := Some now\<rparr>)"

interpretation outbox: leased_work claim_row finish_row "\<lambda>r. Some (ms_next r)" "\<lambda>r. ms_state r \<noteq> Pending" 30
proof (unfold_locales, goal_cases)
  case (2 t j j')
  then show ?case using backoff_schedule by (auto simp: claim_row_def split: if_splits)
next
  case (4 t x j)
  then show ?case by (simp add: finish_row_def split: option.splits)
qed (auto simp: claim_row_def finish_row_def split: if_splits)

definition update_milestone :: "string \<Rightarrow> string \<Rightarrow> (milestone_row \<Rightarrow> milestone_row) \<Rightarrow> database \<Rightarrow> database" where
  "update_milestone u i f db = db\<lparr>milestones := update_rows (\<lambda>r. ms_user r = u \<and> ms_unit r = i) f (milestones db)\<rparr>"

text \<open>The transaction before the call; its answer is the body of the request, if one is to be sent.\<close>

definition begin_delivery :: "int \<Rightarrow> string \<Rightarrow> string \<Rightarrow> database \<Rightarrow> (string \<times> int \<times> string) option \<times> database" where
  "begin_delivery now u i db = (case milestone_of db u i of None \<Rightarrow> (None, db)
     | Some r \<Rightarrow> (case claim_row now r of None \<Rightarrow> (None, db)
       | Some r' \<Rightarrow> (Some (ms_skill r, ms_xp r, ms_completion r), update_milestone u i (\<lambda>_. r') db)))"

definition end_delivery :: "int \<Rightarrow> string \<Rightarrow> string \<Rightarrow> delivery_state option \<times> nat option \<Rightarrow> database \<Rightarrow> database" where
  "end_delivery now u i out db = (case milestone_of db u i of None \<Rightarrow> db
     | Some r \<Rightarrow> update_milestone u i (\<lambda>_. finish_row now out r) db)"

definition deliver :: "int \<Rightarrow> int \<Rightarrow> (string \<times> int \<times> string \<Rightarrow> reply) \<Rightarrow> string \<times> string \<Rightarrow> database \<Rightarrow> database" where
  "deliver now later service key db = (let (u, i) = key; (body, db) = begin_delivery now u i db in
     case body of None \<Rightarrow> db | Some b \<Rightarrow> end_delivery later u i (send_outcome i (service b)) db)"

text \<open>One round of the recovery loop.\<close>

definition recover :: "int \<Rightarrow> (string \<times> string \<Rightarrow> string \<times> int \<times> string \<Rightarrow> reply) \<Rightarrow> database \<Rightarrow> database" where
  "recover now service db = fold (\<lambda>k. deliver now now (service k) k)
     (map (\<lambda>r. (ms_user r, ms_unit r)) (sort_key ms_next
       (all_rows (\<lambda>r. ms_state r = Pending \<and> ms_next r \<le> now) (milestones db)))) db"


section \<open>Interleaved senders\<close>

text \<open>
  The completing request, the sender started after it and the recovery loop run side by side: a history is a list
  of their transactions.
\<close>

datatype milestone_event =
    Enqueued int string unit_def string
  | Began int string string
  | Ended int string string "delivery_state option \<times> nat option"

fun milestone_step :: "milestone_event \<Rightarrow> database \<Rightarrow> database" where
  "milestone_step (Enqueued t u un c) db = enqueue t u un c db"
| "milestone_step (Began t u i) db = snd (begin_delivery t u i db)"
| "milestone_step (Ended t u i out) db = end_delivery t u i out db"

text \<open>The instants at which the milestone of a learner and unit is sent.\<close>

fun sends :: "string \<Rightarrow> string \<Rightarrow> milestone_event list \<Rightarrow> database \<Rightarrow> int list" where
  "sends u i [] db = []"
| "sends u i (ev # evs) db = (case ev of
     Began t v k \<Rightarrow> (if v = u \<and> k = i \<and> fst (begin_delivery t v k db) \<noteq> None then [t] else [])
   | _ \<Rightarrow> []) @ sends u i evs (milestone_step ev db)"

definition milestone_key :: "milestone_row \<Rightarrow> string \<times> string" where
  "milestone_key r = (ms_user r, ms_unit r)"

lemma milestone_of_row: "milestone_of db u i = row_by milestone_key (u, i) (milestones db)"
  by (simp add: milestone_of_def row_by_def milestone_key_def)

lemma claim_row_key: "claim_row t r = Some r' \<Longrightarrow> milestone_key r' = milestone_key r"
  by (auto simp: claim_row_def milestone_key_def split: if_splits)

lemma finish_row_key [simp]: "milestone_key (finish_row t out r) = milestone_key r"
  by (simp add: finish_row_def milestone_key_def split: option.split)

lemma milestone_of_update:
  assumes "milestone_of db u i = Some r" "milestone_key r' = milestone_key r"
  shows "milestone_of (update_milestone u i (\<lambda>_. r') db) v k = (if v = u \<and> k = i then Some r' else milestone_of db v k)"
proof -
  have k: "milestone_key r' = (u, i)"
    using assms by (auto simp: milestone_of_def milestone_key_def dest: first_row_SomeD)
  show ?thesis
  proof (cases "v = u \<and> k = i")
    case True
    then show ?thesis using assms(1) k unfolding milestone_of_def update_milestone_def milestone_key_def
      by (auto simp: first_row_update_hits)
  next
    case False
    then show ?thesis using k unfolding milestone_of_def update_milestone_def milestone_key_def
      by (auto intro!: first_row_update_disjoint)
  qed
qed

text \<open>What an event does to the row of one milestone: nothing, or the step of the leased work on it.\<close>

definition work_of :: "string \<Rightarrow> string \<Rightarrow> milestone_event \<Rightarrow> (delivery_state option \<times> nat option) work_event list" where
  "work_of u i ev = (case ev of Enqueued t v un c \<Rightarrow> []
     | Began t v k \<Rightarrow> if v = u \<and> k = i then [Claim_at t] else []
     | Ended t v k out \<Rightarrow> if v = u \<and> k = i then [Finish_at t out] else [])"

lemma milestone_step_row:
  assumes "milestone_of db u i = Some r"
  shows "milestone_of (milestone_step ev db) u i = Some (fold outbox.step (work_of u i ev) r)"
proof (cases ev)
  case (Enqueued t v un c)
  then show ?thesis using assms
    by (auto simp: work_of_def enqueue_def milestone_of_row rows.get_put milestone_key_def split: option.splits)
next
  case (Began t v k)
  then show ?thesis using assms claim_row_key
    by (cases "milestone_of db v k"; cases "claim_row t (the (milestone_of db v k))")
      (auto simp: work_of_def begin_delivery_def milestone_of_update)
next
  case (Ended t v k out)
  then show ?thesis using assms
    by (cases "milestone_of db v k") (auto simp: work_of_def end_delivery_def milestone_of_update)
qed

lemma sends_calls:
  "milestone_of db u i = Some r \<Longrightarrow>
    sends u i evs db = outbox.calls (concat (map (work_of u i) evs)) r \<and>
    milestone_of (fold milestone_step evs db) u i = Some (fold outbox.step (concat (map (work_of u i) evs)) r)"
proof (induction evs arbitrary: db r)
  case (Cons ev evs)
  note step = milestone_step_row [OF Cons.prems, of ev]
  have "(case ev of Began t v k \<Rightarrow> (if v = u \<and> k = i \<and> fst (begin_delivery t v k db) \<noteq> None then [t] else []) | _ \<Rightarrow> []) @
      outbox.calls ws (fold outbox.step (work_of u i ev) r) = outbox.calls (work_of u i ev @ ws) r" for ws
    using Cons.prems by (cases ev) (auto simp: work_of_def begin_delivery_def split: option.splits)
  with Cons.IH [OF step] show ?case by simp
qed simp

text \<open>
  C31: a milestone is sent by one sender at a time and never again after a final answer. In every interleaving of
  completions, senders and recovery rounds, two calls for the milestone of one learner and unit are at least 30
  seconds apart (a call ends within 8), and once the row is delivered, erased or rejected it is neither sent nor
  changed nor queued again.
\<close>

theorem milestone_sent_once_at_a_time:
  "sorted_wrt (\<lambda>t t'. t + 30 \<le> t') (sends u i evs db) \<and>
   (\<forall>r. milestone_of db u i = Some r \<longrightarrow> ms_state r \<noteq> Pending \<longrightarrow>
     sends u i evs db = [] \<and> milestone_of (fold milestone_step evs db) u i = Some r)"
proof (intro conjI allI impI)
  show "sorted_wrt (\<lambda>t t'. t + 30 \<le> t') (sends u i evs db)"
  proof (induction evs arbitrary: db)
    case (Cons ev evs)
    show ?case
    proof (cases "milestone_of db u i")
      case None
      then have "sends u i (ev # evs) db = sends u i evs (milestone_step ev db)"
        by (cases ev) (auto simp: begin_delivery_def split: option.splits)
      with Cons.IH show ?thesis by simp
    next
      case (Some r)
      then have "sends u i (ev # evs) db = outbox.calls (concat (map (work_of u i) (ev # evs))) r"
        using sends_calls by blast
      then show ?thesis by (simp only:) (rule outbox.calls_spaced, simp)
    qed
  qed simp
next
  fix r assume r: "milestone_of db u i = Some r" "ms_state r \<noteq> Pending"
  from outbox.closed_final [OF r(2)] show "sends u i evs db = []"
    "milestone_of (fold milestone_step evs db) u i = Some r"
    by (simp_all add: sends_calls [OF r(1)])
qed

definition example_milestone :: milestone_row where
  "example_milestone = \<lparr>ms_user = ''u'', ms_unit = ''i'', ms_skill = ''s'', ms_xp = 5, ms_completion = ''deterministic'',
     ms_state = Rejected, ms_attempts = 1, ms_next = 0, ms_last_status = Some 422, ms_created = 0, ms_finished = Some 1\<rparr>"

lemma milestone_sent_once_at_a_time_witness:
  "sends ''u'' ''i'' [Began 9 ''u'' ''i'', Began 99 ''u'' ''i''] (empty_db\<lparr>milestones := [example_milestone]\<rparr>) = []"
  using milestone_sent_once_at_a_time [of "''u''" "''i''" "[Began 9 ''u'' ''i'', Began 99 ''u'' ''i'']"
    "empty_db\<lparr>milestones := [example_milestone]\<rparr>"]
  by (simp add: milestone_of_def example_milestone_def)

section \<open>Erased accounts\<close>

lemma gone_enqueue: "gone db v \<Longrightarrow> u \<noteq> v \<Longrightarrow> gone (enqueue t u un c db) v"
  by (auto simp: enqueue_def intro!: gone_write gone_row split: option.splits)

lemma gone_update_milestone:
  assumes "gone db v" "milestone_of db u i = Some r" "milestone_key r' = milestone_key r"
  shows "gone (update_milestone u i (\<lambda>_. r') db) v"
proof -
  have "r \<in> set (milestones db)" "ms_user r = u" using assms(2) by (auto simp: milestone_of_def dest: first_row_SomeD)
  moreover have nr: "no_row ms_user v (milestones db)" using assms(1) by (rule gone_row)
  ultimately have "ms_user r \<noteq> v" by (auto dest: no_rowD)
  then have "no_row ms_user v (update_rows (\<lambda>r. ms_user r = u \<and> ms_unit r = i) (\<lambda>_. r') (milestones db))"
    using nr assms(3) by (auto simp: no_row_def row_simps milestone_key_def)
  with assms(1) show ?thesis unfolding update_milestone_def by (rule gone_write)
qed

lemma gone_begin: "gone db v \<Longrightarrow> gone (snd (begin_delivery t u i db)) v"
  by (auto simp: begin_delivery_def intro: gone_update_milestone claim_row_key split: option.splits)

lemma gone_end: "gone db v \<Longrightarrow> gone (end_delivery t u i out db) v"
  by (auto simp: end_delivery_def intro: gone_update_milestone split: option.splits)

lemma gone_deliver: "gone db v \<Longrightarrow> gone (deliver now later service key db) v"
  using gone_begin [of db v now "fst key" "snd key"]
  by (auto simp: deliver_def Let_def intro: gone_end split: prod.splits option.splits)

interpretation delivery_steps: guarded "\<lambda>(now, later, service, key). deliver now later service key"
  by unfold_locales (auto intro: gone_deliver)

lemma gone_recover: "gone db v \<Longrightarrow> gone (recover now service db) v"
  unfolding recover_def
  using delivery_steps.run_keeps_gone [of db v "map (\<lambda>k. (now, now, service k, k))
    (map (\<lambda>r. (ms_user r, ms_unit r)) (sort_key ms_next (all_rows (\<lambda>r. ms_state r = Pending \<and> ms_next r \<le> now) (milestones db))))"]
  by (simp add: fold_map comp_def)

end
