(* ===== verification/Revisions.thy ===== *)
theory Revisions
  imports Store
begin

text \<open>
  The compare-and-swap contract that rooms, course projects and learning plans share: a request names the revision
  it expects, a change happens only at exactly that revision and raises it by one.
\<close>

lemma first_row_update_key:
  "(\<And>x. Q (f x) = Q x) \<Longrightarrow>
    first_row Q (update_rows P f t) = map_option (\<lambda>x. if P x then f x else x) (first_row Q t)"
  by (induction t) (auto simp: update_rows_def)

lemma count_rows_1D: "count_rows P t = 1 \<Longrightarrow> \<exists>x\<in>set t. P x"
  by (metis One_nat_def count_rows_def filter_False length_0_conv nat.distinct(1))

text \<open>An update guarded by the revision that was read replaces the one row of its key.\<close>

lemma update_one_row:
  assumes "unique_by key t" "r0 \<in> set t" "key r0 = k" "P r0" "\<And>r. P r \<Longrightarrow> key r = k" "key new = k"
  shows "update_rows P (\<lambda>_. new) t = upsert_by key new t"
proof -
  have hit: "P r = (key r = k)" if "r \<in> set t" for r
    using unique_by_inj [OF assms(1,2) that] assms(3-5) by metis
  have "row_by key k t \<noteq> None" using assms(2,3) by (auto simp: row_by_None)
  then show ?thesis
    unfolding upsert_by_def assms(6) modify_by_def update_rows_def
    by simp (use hit in auto)
qed


locale revisioned =
  fixes step :: "'i \<Rightarrow> 's \<Rightarrow> 's"
    and ok :: "'s \<Rightarrow> bool"
    and view :: "'s \<Rightarrow> 'v"
    and revision :: "'v \<Rightarrow> int"
    and expected :: "'i \<Rightarrow> int"
  assumes ok_step: "ok s \<Longrightarrow> ok (step i s)"
    and swaps: "ok s \<Longrightarrow> view (step i s) \<noteq> view s \<Longrightarrow>
      revision (view s) = expected i \<and> revision (view (step i s)) = expected i + 1"
begin

text \<open>The requests of a history that changed the resource.\<close>

fun changing :: "'i list \<Rightarrow> 's \<Rightarrow> 'i list" where
  "changing [] s = []"
| "changing (i # is) s = (if view (step i s) = view s then changing is (step i s) else i # changing is (step i s))"

lemma ok_run: "ok s \<Longrightarrow> ok (fold step is s)"
  by (induction "is" arbitrary: s) (auto intro: ok_step)

text \<open>They expected consecutive revisions, so no two of them the same one, and none is lost.\<close>

lemma no_lost_update:
  "ok s \<Longrightarrow> map expected (changing is s) = map (\<lambda>k. revision (view s) + int k) [0..<length (changing is s)] \<and>
    revision (view (fold step is s)) = revision (view s) + int (length (changing is s))"
proof (induction "is" arbitrary: s)
  case (Cons i "is")
  note IH = Cons.IH [OF ok_step [OF Cons.prems]]
  show ?case
  proof (cases "view (step i s) = view s")
    case True
    with IH [of i] show ?thesis by simp
  next
    case False
    have "map (\<lambda>k. r + int k) [0..<Suc n] = r # map (\<lambda>k. r + 1 + int k) [0..<n]" for r :: int and n
      by (simp add: upt_conv_Cons del: upt_Suc) (simp add: map_Suc_upt [symmetric] o_def del: upt_Suc)
    with IH [of i] swaps [OF Cons.prems False] False show ?thesis by (simp del: upt_Suc)
  qed
qed simp

end

end
