(* ===== verification/Rooms.thy ===== *)
theory Rooms
  imports Daily Milestones Revisions
begin

text \<open>
  Learning rooms (\<^verbatim>\<open>services/rooms.py\<close>): progress of a room, access to a path, what a learner sees of a unit, and
  \<open>mutate_room\<close>, the one handler that saves, completes, skips and repeats a room. Its parts are named
  (\<open>apply_op\<close>, \<open>save_room\<close>) in the order of the code. The flush after the writes can only fail on a lost race,
  which the account lock excludes; it is left out.
\<close>

section \<open>Progress\<close>

definition no_progress :: progress where
  "no_progress = \<lparr>pg_revision = 0, pg_state = JObj [], pg_status = New, pg_result = None, pg_review_id = None\<rparr>"

definition finished :: "room_status \<Rightarrow> bool" where
  "finished s \<longleftrightarrow> s = Completed \<or> s = Skipped"

definition progress_of :: "room_state option \<Rightarrow> progress result" where
  "progress_of row = (case row of None \<Rightarrow> Inr no_progress
     | Some r \<Rightarrow>
       let reviewing = (rs_review_id r \<noteq> None); st = (if reviewing then rs_review_status r else Some (rs_status r))
       in case st of None \<Rightarrow> Inl (Crash ''progress without a status'')
          | Some s \<Rightarrow>
            let res = (if reviewing \<and> s = Completed \<and> rs_status r = Skipped then Some Introduced else rs_result r)
            in Inr \<lparr>pg_revision = rs_revision r, pg_state = rs_state r, pg_status = s,
                 pg_result = (if s = Completed then res else None), pg_review_id = rs_review_id r\<rparr>)"

definition review_available :: "room_state option \<Rightarrow> bool" where
  "review_available row \<longleftrightarrow> (case row of None \<Rightarrow> False
     | Some r \<Rightarrow> finished (rs_status r) \<and> rs_review_status r \<noteq> Some In_progress)"

definition path_completed :: "catalogue \<Rightarrow> states \<Rightarrow> string \<Rightarrow> bool" where
  "path_completed c st p = (let active = filter (\<lambda>u. un_path u = p \<and> \<not> un_retired u) (ct_units c) in
     active \<noteq> [] \<and> list_all (\<lambda>u. case st (un_id u) of None \<Rightarrow> False | Some r \<Rightarrow> finished (rs_status r)) active)"

definition course_completions :: "env \<Rightarrow> database \<Rightarrow> user option \<Rightarrow> (string \<times> bool) list result" where
  "course_completions e db us = (case us of None \<Rightarrow> Inr []
     | Some u \<Rightarrow>
       let ids = map the (filter (\<lambda>x. x \<noteq> None) (map co_path (en_courses e)))
       in if \<not> en_rooms_enabled e \<or> ids = [] then Inr []
          else bind_r (catalogue_of e db False) (\<lambda>c. bind_r (read_states db (us_id u) None) (\<lambda>st.
            Inr (map (\<lambda>p. (pa_id p, path_completed c st (pa_id p))) (filter (\<lambda>p. pa_id p \<in> set ids) (ct_paths c))))))"

section \<open>Access to a path\<close>

definition linked_courses :: "env \<Rightarrow> string \<Rightarrow> string option \<Rightarrow> course list" where
  "linked_courses e p ci = filter (\<lambda>c. co_path c = Some p \<and> (ci = None \<or> ci = Some (co_id c))) (en_courses e)"

text \<open>The daily access of the course, and only then, when it is denied, premium.\<close>

definition daily_or_premium :: "env \<Rightarrow> database \<Rightarrow> user \<Rightarrow> course \<Rightarrow> lesson_def option \<Rightarrow> bool result" where
  "daily_or_premium e db us c l = bind_r (course_daily_access e db us c l) (\<lambda>b.
     if b then Inr True else en_premium e (us_id us))"

definition first_lesson :: "env \<Rightarrow> database \<Rightarrow> string option \<Rightarrow> course \<Rightarrow> lesson_def option result" where
  "first_lesson e db ui c = (case ui of None \<Rightarrow> Inr None
     | Some i \<Rightarrow> bind_r (unit_lessons e db i (Some (co_id c))) (\<lambda>ps. Inr (case ps of p # _ \<Rightarrow> Some (snd p) | [] \<Rightarrow> None)))"

fun path_access :: "env \<Rightarrow> database \<Rightarrow> user \<Rightarrow> string option \<Rightarrow> course list \<Rightarrow> err option \<Rightarrow> unit result" where
  "path_access e db us ui [] failure = Inl (case failure of Some er \<Rightarrow> er | None \<Rightarrow> Http 403 ''open the course'')"
| "path_access e db us ui (c # cs) failure =
     (if free c \<or> us_admin us \<or> co_id c \<in> get_owned_courses db (us_id us) then Inr ()
      else bind_r (first_lesson e db ui c) (\<lambda>l. case daily_or_premium e db us c l of
          Inr True \<Rightarrow> Inr ()
        | Inr False \<Rightarrow> path_access e db us ui cs failure
        | Inl er \<Rightarrow> if is_access er then path_access e db us ui cs (Some er) else Inl er))"

definition require_path_access :: "env \<Rightarrow> database \<Rightarrow> user \<Rightarrow> string \<Rightarrow> string option \<Rightarrow> string option \<Rightarrow> unit result" where
  "require_path_access e db us p ci ui =
     bind_r (case ci of None \<Rightarrow> Inr ()
       | Some c \<Rightarrow> (case course_by e c of None \<Rightarrow> Inl (Http 404 ''not part of that course'')
           | Some co \<Rightarrow> guard_r (co_path co = Some p) (Http 404 ''not part of that course''))) (\<lambda>_.
     let cs = linked_courses e p ci in if cs = [] then Inr () else path_access e db us ui cs None)"

definition require_course_lessons :: "env \<Rightarrow> database \<Rightarrow> user \<Rightarrow> string \<Rightarrow> unit result" where
  "require_course_lessons e db us ci = bind_r (catalogue_of e db False) (\<lambda>content.
     case Option.bind (course_by e ci) co_path of
       None \<Rightarrow> Inl (Http 404 ''course without lessons'')
     | Some p \<Rightarrow> if p \<notin> pa_id ` set (ct_paths content) then Inl (Http 404 ''course without lessons'')
         else require_path_access e db us p (Some ci) None)"

text \<open>The courses linked to a path are asked in turn while the policy is unknown.\<close>

fun any_daily :: "env \<Rightarrow> database \<Rightarrow> user \<Rightarrow> course list \<Rightarrow> bool result" where
  "any_daily e db us [] = Inr False"
| "any_daily e db us (c # cs) = (case course_daily_access e db us c None of
     Inr True \<Rightarrow> Inr True
   | Inr False \<Rightarrow> any_daily e db us cs
   | Inl er \<Rightarrow> if is_access er then any_daily e db us cs else Inl er)"

definition accessible_paths :: "env \<Rightarrow> database \<Rightarrow> user \<Rightarrow> catalogue \<Rightarrow> string list result" where
  "accessible_paths e db us content =
    (let ids = map pa_id (ct_paths content); linked = (\<lambda>p. linked_courses e p None);
         direct = (\<lambda>p. linked p = [] \<or> us_admin us \<or> list_ex free (linked p));
         owned = (\<lambda>p. list_ex (\<lambda>c. co_id c \<in> get_owned_courses db (us_id us)) (linked p));
         rest = filter (\<lambda>p. \<not> direct p \<and> \<not> owned p) ids
     in case daily_course_access e us of
          Inr True \<Rightarrow> Inr ids
        | Inr False \<Rightarrow> if rest = [] then Inr ids
            else bind_r (en_premium e (us_id us)) (\<lambda>b. Inr (filter (\<lambda>p. b \<or> direct p \<or> owned p) ids))
        | Inl er \<Rightarrow> if \<not> is_access er then Inl er
            else bind_r (filter_r (\<lambda>p. any_daily e db us (linked p)) rest) (\<lambda>begun.
              Inr (filter (\<lambda>p. direct p \<or> owned p \<or> p \<in> set begun) ids)))"

section \<open>The exercise behind a unit\<close>

definition expected_type :: "exercise_type \<Rightarrow> string" where
  "expected_type t = (case t of Multiple_choice \<Rightarrow> ''MULTIPLE_CHOICE_QUESTION'' | Matching \<Rightarrow> ''MATCHING''
     | Coding \<Rightarrow> ''CODING_CHALLENGE'')"

definition not_checked :: err where
  "not_checked = Http 503 ''exercise could not be checked''"

definition challenge_status :: "env \<Rightarrow> user \<Rightarrow> unit_def \<Rightarrow> bool result" where
  "challenge_status e us un = (case un_exercise un of None \<Rightarrow> Inr False
     | Some x \<Rightarrow> (case en_challenge e x of No_reply \<Rightarrow> Inl not_checked
       | Reply st body \<Rightarrow>
         if st = 401 then Inl (Http 401 ''sign in again'')
         else if st = 403 \<or> st = 404 then Inl (Http 404 ''exercise unavailable'')
         else if st \<noteq> 200 then Inl not_checked
         else case body of None \<Rightarrow> Inl not_checked
         | Some d \<Rightarrow>
           if jget ''id'' d \<noteq> Some (js (ex_subtask x)) \<or> jget ''task_id'' d \<noteq> Some (js (ex_task x)) \<or>
             jget ''type'' d \<noteq> Some (js (expected_type (ex_type x))) then Inl not_checked
           else (case (json_bool (jget ''solved'' d), json_bool (jget ''enabled'' d), json_bool (jget ''retired'' d),
                       json_text (jget ''creator'' d)) of
               (Some solved, Some enabled, Some retired, Some creator) \<Rightarrow>
                 if \<not> enabled \<or> retired \<or> creator = ustr (us_id us) then Inl (Http 404 ''exercise unavailable'')
                 else Inr solved
             | _ \<Rightarrow> Inl not_checked)))"

text \<open>
  The attempt made during a repeat: bound to the learner, the exercise and the time after the repeat began. Any
  field of the wrong type ends in 503, as the exceptions the code catches.
\<close>

definition attempt_item :: "exercise \<Rightarrow> string \<Rightarrow> json \<Rightarrow> json option result" where
  "attempt_item x a d = (if ex_type x = Coding then
       (case d of JArr items \<Rightarrow> Inr (find (\<lambda>v. jget ''id'' v = Some (js a)) items) | _ \<Rightarrow> Inl not_checked)
     else Inr (Some d))"

definition review_attempt_solved :: "env \<Rightarrow> user \<Rightarrow> unit_def \<Rightarrow> room_state \<Rightarrow> string \<Rightarrow> bool result" where
  "review_attempt_solved e us un row a = (case (un_exercise un, rs_review_started row) of
      (Some x, Some started) \<Rightarrow>
       (case en_attempt e x a of No_reply \<Rightarrow> Inl not_checked
        | Reply st body \<Rightarrow>
          if st = 401 then Inl (Http 401 ''sign in again'')
          else if st = 403 \<or> st = 404 then Inr False
          else if st \<noteq> 200 then Inl not_checked
          else case body of None \<Rightarrow> Inl not_checked
          | Some d \<Rightarrow> bind_r (attempt_item x a d) (\<lambda>item. case item of None \<Rightarrow> Inr False
            | Some v \<Rightarrow> let coding = (ex_type x = Coding) in
              if jget ''id'' v \<noteq> Some (js a) \<or> jget ''subtask_id'' v \<noteq> Some (js (ex_subtask x)) \<or>
                jget (if coding then ''creator'' else ''user_id'') v \<noteq> Some (js (us_id us)) \<or>
                (\<not> coding \<and> jget ''task_id'' v \<noteq> Some (js (ex_task x))) then Inr False
              else (case json_text (jget (if coding then ''creation_timestamp'' else ''created_at'') v) of
                  None \<Rightarrow> Inl not_checked
                | Some t \<Rightarrow> (case en_timestamp e t of Bad_time \<Rightarrow> Inl not_checked | Naive_time \<Rightarrow> Inr False
                  | Instant at \<Rightarrow>
                    if at < started then Inr False
                    else if coding
                    then Inr (Option.bind (jget ''result'' v) (jget ''verdict'') = Some (js ''OK''))
                    else Inr (jget ''solved'' v = Some (JBool True))))))
    | _ \<Rightarrow> Inr False)"

section \<open>What a learner sees of a unit\<close>

text \<open>\<^verbatim>\<open>public\<close> leaves out the completion with its expected answer, the module id, the profiles and the milestone.\<close>

record package_descriptor =
  pd_id :: string
  pd_entry_url :: string
  pd_manifest_url :: string
  pd_manifest :: string
  pd_package :: string
  pd_revision :: string

datatype module_ref =
    Public_module lesson_module
  | Private_module lesson_module string
  | Engine_package package_descriptor

record public_unit =
  pb_id :: string
  pb_path :: string
  pb_chapter :: "string option"
  pb_title :: localized_text
  pb_room :: room
  pb_content :: json
  pb_teaches :: "string list"
  pb_practices :: "string list"
  pb_requires :: "string list"
  pb_exercise :: "exercise option"
  pb_kind :: "completion_kind option"
  pb_module :: "module_ref option"

definition public :: "unit_def \<Rightarrow> public_unit" where
  "public un = \<lparr>pb_id = un_id un, pb_path = un_path un, pb_chapter = un_chapter un, pb_title = un_title un,
     pb_room = un_room un, pb_content = un_content un, pb_teaches = un_teaches un, pb_practices = un_practices un,
     pb_requires = un_requires un, pb_exercise = un_exercise un,
     pb_kind = map_option completion_kind_of (un_completion un), pb_module = None\<rparr>"

definition not_loaded :: err where
  "not_loaded = Http 503 ''lesson cannot be loaded''"

text \<open>The entry as the frontend derives it: a final \<^verbatim>\<open>index.html\<close> or \<^verbatim>\<open>.html\<close> is dropped.\<close>

definition has_suffix :: "string \<Rightarrow> string \<Rightarrow> bool" where
  "has_suffix x s \<longleftrightarrow> length x \<le> length s \<and> drop (length s - length x) s = x"

definition entry_url :: "string \<Rightarrow> string \<Rightarrow> string" where
  "entry_url base entry = base @
     (if has_suffix ''index.html'' entry then take (length entry - 10) entry
      else if has_suffix ''.html'' entry then take (length entry - 5) entry else entry)"

definition active_revision :: "database \<Rightarrow> string \<Rightarrow> engine_revision option" where
  "active_revision db i = first_row (\<lambda>r. er_active_for r = Some i) (revisions db)"

definition descriptor :: "env \<Rightarrow> database \<Rightarrow> unit_def \<Rightarrow> package_descriptor result" where
  "descriptor e db un = (case (en_content_origin e, active_revision db (un_id un)) of
       (Some origin, Some r) \<Rightarrow>
         let base = origin @ ''/packages/'' @ er_package r @ ''/''
         in Inr \<lparr>pd_id = er_module r, pd_entry_url = entry_url base (er_entry r), pd_manifest_url = base @ ''manifest.json'',
              pd_manifest = er_manifest r, pd_package = er_package r, pd_revision = er_id r\<rparr>
     | _ \<Rightarrow> Inl not_loaded)"

text \<open>
  A private package is opened through the first linked course that admits the learner. Whether the reviewed
  package checks out is the file system's answer (\<open>en_private\<close>).
\<close>

fun first_admitting :: "env \<Rightarrow> database \<Rightarrow> user \<Rightarrow> string \<Rightarrow> course list \<Rightarrow> string option result" where
  "first_admitting e db us p [] = Inr None"
| "first_admitting e db us p (c # cs) = (case require_path_access e db us p (Some (co_id c)) None of
     Inr _ \<Rightarrow> Inr (Some (co_id c))
   | Inl er \<Rightarrow> if is_http er \<and> status_code er = 403 then first_admitting e db us p cs else Inl er)"

definition issue_module_grant :: "env \<Rightarrow> database \<Rightarrow> lesson_module \<Rightarrow> bool \<Rightarrow> user \<Rightarrow> string \<Rightarrow> string option \<Rightarrow> module_ref result" where
  "issue_module_grant e db m checks us i ci =
     (if \<not> us_verified us \<and> \<not> us_admin us then Inl (Http 403 ''sign in to open'')
      else bind_r (catalogue_of e db False) (\<lambda>content.
        case find (\<lambda>u. un_id u = i \<and> \<not> un_retired u) (ct_units content) of
          None \<Rightarrow> Inl (Http 404 ''lesson not available'')
        | Some un \<Rightarrow>
          if un_module un \<noteq> Some (lm_id m) then Inl (Http 404 ''lesson not available'')
          else bind_r (first_admitting e db us (un_path un) (linked_courses e (un_path un) ci)) (\<lambda>adm.
            case adm of None \<Rightarrow> Inl (Http 403 ''access to the course needed'')
            | Some c \<Rightarrow> if checks then Inr (Private_module m c) else Inl not_loaded)))"

definition resolve_module :: "env \<Rightarrow> database \<Rightarrow> string \<Rightarrow> user \<Rightarrow> string \<Rightarrow> string option \<Rightarrow> module_ref result" where
  "resolve_module e db mid us i ci = (case row_by lm_id mid (modules db) of None \<Rightarrow> Inl not_loaded
     | Some m \<Rightarrow> if \<not> en_module_ok e m then Inl not_loaded
         else (case en_private e m of None \<Rightarrow> Inr (Public_module m)
           | Some checks \<Rightarrow> issue_module_grant e db m checks us i ci))"

definition public_unit_of :: "env \<Rightarrow> database \<Rightarrow> unit_def \<Rightarrow> user \<Rightarrow> string option \<Rightarrow> public_unit result" where
  "public_unit_of e db un us ci =
     (if is_engine_unit un then bind_r (descriptor e db un) (\<lambda>d. Inr ((public un)\<lparr>pb_module := Some (Engine_package d)\<rparr>))
      else if un_room un = Custom_room then
        (case un_module un of None \<Rightarrow> Inl not_loaded
         | Some mid \<Rightarrow> bind_r (resolve_module e db mid us (un_id un) ci) (\<lambda>m.
             Inr ((public un)\<lparr>pb_module := Some m\<rparr>)))
      else Inr (public un))"

record envelope =
  re_unit :: public_unit
  re_progress :: progress
  re_review :: bool
  re_course :: "string option"
  re_lesson :: "string option"
  re_daily :: "daily_status option"

definition room_envelope :: "env \<Rightarrow> database \<Rightarrow> user \<Rightarrow> string option \<Rightarrow> public_unit \<Rightarrow> progress \<Rightarrow> bool \<Rightarrow> envelope result" where
  "room_envelope e db us ci pu p review =
    (let rv = (review \<and> pb_kind pu \<noteq> Some Engine_kind) in
     if \<not> en_policy_enabled e
     then Inr \<lparr>re_unit = pu, re_progress = p, re_review = rv, re_course = None, re_lesson = None, re_daily = None\<rparr>
     else bind_r (unit_lessons e db (pb_id pu) ci) (\<lambda>ps. bind_r (choose_lesson e db us ps) (\<lambda>pair.
       bind_r (case pair of None \<Rightarrow> Inr None | Some (c, l) \<Rightarrow> optional_status e db us (Some c) (Some l)) (\<lambda>daily.
         Inr \<lparr>re_unit = pu, re_progress = p, re_review = rv, re_course = map_option (co_id \<circ> fst) pair,
           re_lesson = map_option (ld_id \<circ> snd) pair, re_daily = daily\<rparr>))))"

definition show_room :: "env \<Rightarrow> database \<Rightarrow> user \<Rightarrow> string option \<Rightarrow> unit_def \<Rightarrow> progress \<Rightarrow> bool \<Rightarrow> envelope result" where
  "show_room e db us ci un p review = bind_r (public_unit_of e db un us ci) (\<lambda>pu. room_envelope e db us ci pu p review)"

definition unit_scope :: "string \<Rightarrow> string option \<Rightarrow> string set option" where
  "unit_scope i ci = (case ci of None \<Rightarrow> None | Some _ \<Rightarrow> Some {i})"

definition get_room :: "env \<Rightarrow> database \<Rightarrow> user \<Rightarrow> string \<Rightarrow> string option \<Rightarrow> envelope result" where
  "get_room e db us i ci = bind_r (catalogue_of e db False) (\<lambda>content.
     bind_r (read_states db (us_id us) (unit_scope i ci)) (\<lambda>st.
     bind_r (find_unit content i st (ci = None)) (\<lambda>un.
     bind_r (require_path_access e db us (un_path un) ci (Some (un_id un))) (\<lambda>_.
     bind_r (challenge_status e us un) (\<lambda>_.
     bind_r (public_unit_of e db un us ci) (\<lambda>pu.
     bind_r (progress_of (st (un_id un))) (\<lambda>p.
       room_envelope e db us ci pu p (ci \<noteq> None \<and> review_available (st (un_id un))))))))))"

definition issue_llm_grant :: "env \<Rightarrow> llm_env \<Rightarrow> database \<Rightarrow> user \<Rightarrow> string \<Rightarrow> string option \<Rightarrow> grant result" where
  "issue_llm_grant e l db us i ci = bind_r (catalogue_of e db False) (\<lambda>content.
     bind_r (read_states db (us_id us) (unit_scope i ci)) (\<lambda>st.
     bind_r (find_unit content i st (ci = None)) (\<lambda>un.
     bind_r (require_path_access e db us (un_path un) ci None) (\<lambda>_.
       if un_profiles un = [] then Inl (Http 404 ''room without AI'') else issue_grant e l (us_id us) un ci))))"

section \<open>The change of a room\<close>

definition opt_entry :: "string \<Rightarrow> string option \<Rightarrow> (string \<times> json) list" where
  "opt_entry k v = (case v of None \<Rightarrow> [] | Some x \<Rightarrow> [(k, js x)])"

definition action_text :: "action \<Rightarrow> string" where
  "action_text a = (case a of Do_complete \<Rightarrow> ''complete'' | Do_skip \<Rightarrow> ''skip'')"

definition op_payload :: "room_op \<Rightarrow> (string \<times> json) list" where
  "op_payload op = (case op of
     Save_state rv st \<Rightarrow> (''operation'', js ''save'') # opt_entry ''review_id'' rv @ [(''state'', st)]
   | Complete_room d \<Rightarrow> (''operation'', js ''complete'') # opt_entry ''review_id'' (cd_review d) @
       opt_entry ''attempt_id'' (cd_attempt d) @ [(''action'', js (action_text (cd_action d))), (''answer'', cd_answer d)] @
       opt_entry ''verdict'' (cd_verdict d)
   | Start_review \<Rightarrow> [(''operation'', js ''review'')])"

definition request_fingerprint :: "env \<Rightarrow> string \<Rightarrow> mutation \<Rightarrow> string option \<Rightarrow> string" where
  "request_fingerprint e i m ci = en_sha256 e (en_dumps e (jobj ((''unit_id'', js i) # opt_entry ''course_id'' ci @
     op_payload (mu_op m) @ [(''request_id'', js (mu_request m)), (''expected_revision'', JInt (mu_expected m))])))"

definition LLM_FALLBACK_ANSWER :: json where
  "LLM_FALLBACK_ANSWER = JObj [(ustr ''fallback'', JStr (ustr ''example''))]"

definition fallback_completion :: "unit_def \<Rightarrow> complete_data \<Rightarrow> bool" where
  "fallback_completion un d \<longleftrightarrow> (case un_completion un of Some (Llm_verdict p h) \<Rightarrow>
       cd_action d = Do_complete \<and> cd_verdict d = None \<and> json_eq (cd_answer d) LLM_FALLBACK_ANSWER
     | _ \<Rightarrow> False)"

definition completed_progress :: "unit_def \<Rightarrow> progress \<Rightarrow> complete_data \<Rightarrow> bool \<Rightarrow> claims option \<Rightarrow> progress result" where
  "completed_progress un cur d solved verdict =
     (if finished (pg_status cur) then Inl (Http 409 ''already finished'')
      else if cd_action d = Do_skip then
        (if (case un_completion un of None \<Rightarrow> True | Some c \<Rightarrow> \<not> allow_skip c) then Inl (Http 403 ''only introductions can be skipped'')
         else Inr (cur\<lparr>pg_status := Skipped, pg_result := None\<rparr>))
      else if un_exercise un \<noteq> None then
        (if \<not> solved then Inl (Http 409 ''not solved yet'') else Inr (cur\<lparr>pg_status := Completed, pg_result := Some Solved\<rparr>))
      else case un_completion un of
        Some (Llm_verdict p h) \<Rightarrow> (case verdict of
            None \<Rightarrow> if fallback_completion un d then Inr (cur\<lparr>pg_status := Completed, pg_result := Some Introduced\<rparr>)
              else Inl (Coded 422 ''verdict_required'')
          | Some c \<Rightarrow> if cl_passed c then Inr (cur\<lparr>pg_status := Completed, pg_result := Some Introduced\<rparr>)
              else Inl (Coded 422 ''verdict_failed''))
      | Some (Introduction a s) \<Rightarrow> if json_eq (cd_answer d) a
          then Inr (cur\<lparr>pg_status := Completed, pg_result := Some Introduced\<rparr>) else Inl (Http 422 ''check your answer'')
      | _ \<Rightarrow> Inl (Http 422 ''check your answer''))"

definition answer_text :: "json \<Rightarrow> ustr option" where
  "answer_text a = (case a of JObj [(k, JStr t)] \<Rightarrow> if k = ustr ''text'' then Some t else None | _ \<Rightarrow> None)"

definition verdict_used :: "database \<Rightarrow> string \<Rightarrow> string \<Rightarrow> bool" where
  "verdict_used db u r = exists_row (\<lambda>v. lv_user v = u \<and> lv_request v = r) (verdicts db)"

definition graded_verdict :: "env \<Rightarrow> llm_env \<Rightarrow> database \<Rightarrow> string \<Rightarrow> unit_def \<Rightarrow> complete_data \<Rightarrow> string option \<Rightarrow> progress \<Rightarrow>
    room_state option \<Rightarrow> claims option result" where
  "graded_verdict e l db u un d ci cur row = (case un_completion un of
     Some (Llm_verdict p h) \<Rightarrow>
       if cd_action d \<noteq> Do_complete \<or> finished (pg_status cur) \<or> fallback_completion un d then Inr None
       else (case (cd_verdict d, answer_text (cd_answer d)) of
           (Some token, Some text) \<Rightarrow>
             bind_r (verify_verdict e l token u (un_id un) p h ci text
               (case row of Some r \<Rightarrow> if pg_review_id cur \<noteq> None then rs_review_started r else None | None \<Rightarrow> None)) (\<lambda>c.
               if verdict_used db u (cl_request c) then Inl (Coded 409 ''verdict_used'') else Inr (Some c))
         | _ \<Rightarrow> Inl (Coded 422 ''verdict_required''))
   | _ \<Rightarrow> if cd_verdict d \<noteq> None then Inl (Coded 422 ''verdict_unexpected'') else Inr None)"

text \<open>What an operation makes of the room: a confirmation that writes nothing, or the progress to be saved.\<close>

datatype op_outcome =
    Confirmed progress
  | Changed progress "claims option" database

definition is_skip :: "room_op \<Rightarrow> bool" where
  "is_skip op = (case op of Complete_room d \<Rightarrow> cd_action d = Do_skip | _ \<Rightarrow> False)"

definition complete_op :: "env \<Rightarrow> llm_env \<Rightarrow> user \<Rightarrow> unit_def \<Rightarrow> string option \<Rightarrow> room_state option \<Rightarrow> progress \<Rightarrow> bool \<Rightarrow>
    complete_data \<Rightarrow> database \<Rightarrow> op_outcome result" where
  "complete_op e l us un ci row cur solved d db =
     (if is_engine_unit un \<and> cd_action d = Do_complete then
        (case row of Some r \<Rightarrow> if rs_status r = Completed then Inr (Confirmed cur)
             else Inl (Http 409 ''completed by the server'')
         | None \<Rightarrow> Inl (Http 409 ''completed by the server''))
      else bind_r (if pg_review_id cur \<noteq> None \<and> un_exercise un \<noteq> None then
            (case (row, cd_attempt d) of (Some r, Some a) \<Rightarrow> review_attempt_solved e us un r a | _ \<Rightarrow> Inr False)
          else Inr solved) (\<lambda>solved.
        bind_r (graded_verdict e l db (us_id us) un d ci cur row) (\<lambda>verdict.
        bind_r (completed_progress un cur d solved verdict) (\<lambda>p.
          Inr (Changed p verdict
            (if pg_status p = Completed then
               (case checked_completion un d verdict (pg_review_id p \<noteq> None) of None \<Rightarrow> db
                | Some kind \<Rightarrow> enqueue (en_now e) (us_id us) un kind db)
             else db))))))"

definition apply_op :: "env \<Rightarrow> llm_env \<Rightarrow> user \<Rightarrow> unit_def \<Rightarrow> string option \<Rightarrow> mutation \<Rightarrow> room_state option \<Rightarrow> progress \<Rightarrow>
    bool \<Rightarrow> database \<Rightarrow> op_outcome result" where
  "apply_op e l us un ci m row cur solved db = (case mu_op m of
     Start_review \<Rightarrow>
       if is_engine_unit un then Inl (Http 409 ''no practice round yet'')
       else if \<not> review_available row then Inl (Http 409 ''already in progress'')
       else Inr (Changed (no_progress\<lparr>pg_revision := pg_revision cur, pg_status := In_progress,
              pg_review_id := Some (mu_request m)\<rparr>) None db)
   | Save_state rv st \<Rightarrow>
       if is_engine_unit un \<and> \<not> en_allow_save e (us_id us) (un_id un) then Inl (Http 429 ''too many saves'')
       else Inr (Changed (cur\<lparr>pg_state := st, pg_status := (if pg_status cur = New then In_progress else pg_status cur)\<rparr>) None db)
   | Complete_room d \<Rightarrow> complete_op e l us un ci row cur solved d db)"

text \<open>The row written over \<open>row\<close>: during a repeat the original achievement is kept.\<close>

definition room_row :: "env \<Rightarrow> string \<Rightarrow> string \<Rightarrow> room_op \<Rightarrow> room_state option \<Rightarrow> progress \<Rightarrow> room_state" where
  "room_row e u i op row p = (case row of
     None \<Rightarrow> \<lparr>rs_user = u, rs_unit = i, rs_revision = pg_revision p, rs_state = pg_state p, rs_status = pg_status p,
       rs_result = pg_result p, rs_updated = en_now e, rs_review_id = pg_review_id p, rs_review_status = None,
       rs_review_started = None\<rparr>
   | Some r \<Rightarrow>
     let base = r\<lparr>rs_revision := pg_revision p, rs_state := pg_state p, rs_updated := en_now e, rs_review_id := pg_review_id p\<rparr>
     in if pg_review_id p \<noteq> None
        then base\<lparr>rs_review_status := Some (pg_status p),
               rs_review_started := (if op = Start_review then Some (en_now e) else rs_review_started r)\<rparr>
        else base\<lparr>rs_status := pg_status p, rs_result := pg_result p\<rparr>)"

text \<open>Only the four newest receipts of a room are kept.\<close>

definition prune_receipts :: "string \<Rightarrow> string \<Rightarrow> room_request list \<Rightarrow> room_request list" where
  "prune_receipts u i t = (let own = (\<lambda>r. rq_user r = u \<and> rq_unit r = i);
      keep = map rq_request (take 4 (rev (sort_key rq_revision (all_rows own t))))
    in delete_rows (\<lambda>r. own r \<and> rq_request r \<notin> set keep) t)"

definition verdict_row :: "env \<Rightarrow> string \<Rightarrow> string \<Rightarrow> claims \<Rightarrow> llm_verdict" where
  "verdict_row e u i c = \<lparr>lv_user = u, lv_request = cl_request c, lv_unit = i, lv_profile = cl_profile c,
     lv_profile_sha256 = cl_profile_hash c, lv_answer_sha256 = cl_answer_sha256 c, lv_locale = cl_locale c,
     lv_score = cl_score c, lv_max_score = cl_max_score c, lv_model = cl_model c, lv_graded = cl_iat c,
     lv_used = en_now e\<rparr>"

text \<open>\<open>p\<close> carries the revision already raised; the update compares and swaps the one the client expected.\<close>

definition save_room :: "env \<Rightarrow> string \<Rightarrow> string \<Rightarrow> mutation \<Rightarrow> string \<Rightarrow> room_state option \<Rightarrow> progress \<Rightarrow> claims option \<Rightarrow>
    database \<Rightarrow> database result" where
  "save_room e u i m fp row p verdict db =
     bind_r (case row of
         None \<Rightarrow> Inr (db\<lparr>rooms := add_row (room_row e u i (mu_op m) None p) (rooms db)\<rparr>)
       | Some r \<Rightarrow> let hit = (\<lambda>x. rs_user x = u \<and> rs_unit x = i \<and> rs_revision x = mu_expected m) in
           if count_rows hit (rooms db) \<noteq> 1 then Inl (Http 409 ''changed in another session'')
           else Inr (db\<lparr>rooms := update_rows hit (\<lambda>x. room_row e u i (mu_op m) (Some x) p) (rooms db)\<rparr>)) (\<lambda>db.
     let db = (case verdict of None \<Rightarrow> db | Some c \<Rightarrow> db\<lparr>verdicts := add_row (verdict_row e u i c) (verdicts db)\<rparr>);
         receipt = \<lparr>rq_user = u, rq_request = mu_request m, rq_unit = i, rq_revision = pg_revision p, rq_fingerprint = fp,
           rq_progress = p, rq_created = en_now e\<rparr>
     in Inr (db\<lparr>room_requests := prune_receipts u i (add_row receipt (room_requests db))\<rparr>))"

definition receipt_of :: "database \<Rightarrow> string \<Rightarrow> string \<Rightarrow> room_request option" where
  "receipt_of db u r = first_row (\<lambda>x. rq_user x = u \<and> rq_request x = r) (room_requests db)"

definition wrong_round :: "room_op \<Rightarrow> progress \<Rightarrow> bool" where
  "wrong_round op cur = (case op of Start_review \<Rightarrow> False | Save_state rv st \<Rightarrow> rv \<noteq> pg_review_id cur
     | Complete_room d \<Rightarrow> cd_review d \<noteq> pg_review_id cur)"

text \<open>The part after the receipt: the change itself.\<close>

definition change_room :: "env \<Rightarrow> llm_env \<Rightarrow> user \<Rightarrow> string \<Rightarrow> string option \<Rightarrow> mutation \<Rightarrow> string \<Rightarrow> unit_def \<Rightarrow>
    room_state option \<Rightarrow> envelope handler" where
  "change_room e l us i ci m fp un row db =
     bind_r (progress_of row) (\<lambda>cur.
     if pg_revision cur \<noteq> mu_expected m then Inl (Http 409 ''changed in another session'')
     else if wrong_round (mu_op m) cur then Inl (Http 409 ''round changed in another session'')
     else bind_r (challenge_status e us un) (\<lambda>solved.
       bind_r (apply_op e l us un ci m row cur solved db) (\<lambda>out. case out of
         Confirmed p \<Rightarrow> bind_r (show_room e db us ci un p False) (\<lambda>en. Inr (en, db))
       | Changed p verdict db \<Rightarrow>
         bind_r (if is_skip (mu_op m) then Inr db
             else bind_r (start_unit e us i ci True db) (\<lambda>(d, db). Inr db)) (\<lambda>db.
         let p = p\<lparr>pg_revision := pg_revision p + 1\<rparr> in
         bind_r (save_room e (us_id us) i m fp row p verdict db) (\<lambda>db.
         bind_r (show_room e db us ci un p False) (\<lambda>en. Inr (en, db)))))))"

definition mutate_room :: "env \<Rightarrow> llm_env \<Rightarrow> user \<Rightarrow> string \<Rightarrow> string option \<Rightarrow> mutation \<Rightarrow> envelope handler" where
  "mutate_room e l us i ci m db0 =
     bind_r (catalogue_of e db0 False) (\<lambda>content.
     let fp = request_fingerprint e i m ci; (account, db) = lock_user db0 (us_id us) in
     if pu_deleted account then Inl (Http 401 ''account gone'')
     else bind_r (read_states db (us_id us) (unit_scope i ci)) (\<lambda>st.
       bind_r (find_unit content i st (ci = None)) (\<lambda>un.
       bind_r (require_path_access e db us (un_path un) ci (Some (un_id un))) (\<lambda>_.
       case receipt_of db (us_id us) (mu_request m) of
         Some r \<Rightarrow> if rq_fingerprint r \<noteq> fp then Inl (Http 409 ''request used for another change'')
           else bind_r (show_room e db us ci un (rq_progress r) False) (\<lambda>en. Inr (en, db))
       | None \<Rightarrow> change_room e l us i ci m fp un (st i) db))))"

section \<open>Inversion\<close>

lemma same_but_starts_fields:
  assumes "same_but_starts a b"
  shows "rooms b = rooms a" "verdicts b = verdicts a" "room_requests b = room_requests a" "milestones b = milestones a"
    "users b = users a"
proof -
  have b: "b = a\<lparr>starts := starts b, start_receipts := start_receipts b\<rparr>"
    using assms by (simp add: same_but_starts_def)
  show "rooms b = rooms a" by (subst b) simp
  show "verdicts b = verdicts a" by (subst b) simp
  show "room_requests b = room_requests a" by (subst b) simp
  show "milestones b = milestones a" by (subst b) simp
  show "users b = users a" by (subst b) simp
qed

lemma enqueue_fields [simp]:
  "rooms (enqueue t u un c db) = rooms db" "verdicts (enqueue t u un c db) = verdicts db"
  "room_requests (enqueue t u un c db) = room_requests db" "users (enqueue t u un c db) = users db"
  by (simp_all add: enqueue_def split: option.splits)

lemma room_envelope_progress: "room_envelope e db us ci pu p rv = Inr en \<Longrightarrow> re_progress en = p \<and> re_unit en = pu"
  by (auto simp: room_envelope_def Let_def result_simps split: if_splits)

lemma show_room_progress: "show_room e db us ci un p rv = Inr en \<Longrightarrow> re_progress en = p"
  by (auto simp: show_room_def result_simps dest: room_envelope_progress)

lemma read_states_room: "read_states db u (unit_scope i ci) = Inr st \<Longrightarrow> \<not> erased db u \<and> st i = room_of db u i"
  by (auto simp: read_states_def unit_scope_def split: if_splits option.splits)

lemma room_of_lock_user [simp]: "room_of (snd (lock_user db u)) v i = room_of db v i"
  by (simp add: room_of_def)

lemma receipt_of_lock_user [simp]: "receipt_of (snd (lock_user db u)) v r = receipt_of db v r"
  by (simp add: receipt_of_def)

text \<open>The progress a change starts from and what \<open>apply_op\<close> makes of it, by operation.\<close>

lemma apply_op_cases:
  assumes "apply_op e l us un ci m row cur solved db = Inr out"
  obtains (save) rv st where "mu_op m = Save_state rv st"
      "out = Changed (cur\<lparr>pg_state := st, pg_status := (if pg_status cur = New then In_progress else pg_status cur)\<rparr>) None db"
  | (review) "mu_op m = Start_review" "\<not> is_engine_unit un" "review_available row"
      "out = Changed (no_progress\<lparr>pg_revision := pg_revision cur, pg_status := In_progress,
         pg_review_id := Some (mu_request m)\<rparr>) None db"
  | (confirm) d r where "mu_op m = Complete_room d" "is_engine_unit un" "row = Some r" "rs_status r = Completed" "out = Confirmed cur"
  | (complete) d solved' verdict p db' where "mu_op m = Complete_room d" "\<not> (is_engine_unit un \<and> cd_action d = Do_complete)"
      "graded_verdict e l db (us_id us) un d ci cur row = Inr verdict" "completed_progress un cur d solved' verdict = Inr p"
      "out = Changed p verdict db'"
      "db' = db \<or> (pg_status p = Completed \<and> (\<exists>kind. checked_completion un d verdict (pg_review_id p \<noteq> None) = Some kind \<and>
         db' = enqueue (en_now e) (us_id us) un kind db))"
proof (cases "mu_op m")
  case (Save_state rv st)
  with assms show thesis by (intro save) (auto simp: apply_op_def split: if_splits)
next
  case Start_review
  with assms show thesis by (intro review) (auto simp: apply_op_def split: if_splits)
next
  case (Complete_room d)
  then have run: "complete_op e l us un ci row cur solved d db = Inr out" using assms by (simp add: apply_op_def)
  show thesis
  proof (cases "is_engine_unit un \<and> cd_action d = Do_complete")
    case True
    with run show thesis
      by (cases row) (auto simp: complete_op_def Complete_room split: if_splits intro: confirm)
  next
    case False
    with run obtain s verdict p where "graded_verdict e l db (us_id us) un d ci cur row = Inr verdict"
      "completed_progress un cur d s verdict = Inr p"
      "out = Changed p verdict (if pg_status p = Completed then
               (case checked_completion un d verdict (pg_review_id p \<noteq> None) of None \<Rightarrow> db
                | Some kind \<Rightarrow> enqueue (en_now e) (us_id us) un kind db)
             else db)"
      unfolding complete_op_def by (simp only: if_False bind_r_Inr_iff) blast
    with Complete_room False show thesis by (intro complete) (auto split: option.splits if_splits)
  qed
qed

lemma mutate_room_cases:
  assumes "mutate_room e l us i ci m db = Inr (en, db')"
  obtains (replay) r where "receipt_of db (us_id us) (mu_request m) = Some r" "rq_fingerprint r = request_fingerprint e i m ci"
      "db' = snd (lock_user db (us_id us))" "re_progress en = rq_progress r" "\<not> erased db (us_id us)"
  | (confirm) content un r cur where "catalogue_of e db False = Inr content" "un \<in> set (ct_units content)"
      "un_id un = i" "is_engine_unit un" "room_of db (us_id us) i = Some r" "rs_status r = Completed"
      "progress_of (Some r) = Inr cur" "db' = snd (lock_user db (us_id us))" "re_progress en = cur" "\<not> erased db (us_id us)"
  | (change) content un solved cur p verdict db2 db3 where "catalogue_of e db False = Inr content" "un \<in> set (ct_units content)"
      "un_id un = i" "\<not> un_retired un" "\<not> erased db (us_id us)" "receipt_of db (us_id us) (mu_request m) = None"
      "require_path_access e (snd (lock_user db (us_id us))) us (un_path un) ci (Some i) = Inr ()"
      "progress_of (room_of db (us_id us) i) = Inr cur" "pg_revision cur = mu_expected m" "\<not> wrong_round (mu_op m) cur"
      "challenge_status e us un = Inr solved"
      "apply_op e l us un ci m (room_of db (us_id us) i) cur solved (snd (lock_user db (us_id us))) = Inr (Changed p verdict db2)"
      "same_but_starts db2 db3" "is_skip (mu_op m) \<and> db3 = db2 \<or> (\<exists>d. start_unit e us i ci True db2 = Inr (d, db3))"
      "save_room e (us_id us) i m (request_fingerprint e i m ci) (room_of db (us_id us) i)
         (p\<lparr>pg_revision := pg_revision p + 1\<rparr>) verdict db3 = Inr db'"
      "re_progress en = p\<lparr>pg_revision := pg_revision p + 1\<rparr>"
proof -
  define db1 where "db1 = snd (lock_user db (us_id us))"
  define fp where "fp = request_fingerprint e i m ci"
  from assms obtain content st un where pre: "catalogue_of e db False = Inr content" "\<not> erased db (us_id us)"
    "read_states db1 (us_id us) (unit_scope i ci) = Inr st" "find_unit content i st (ci = None) = Inr un"
    "require_path_access e db1 us (un_path un) ci (Some (un_id un)) = Inr ()"
    and body: "(case receipt_of db1 (us_id us) (mu_request m) of
         Some r \<Rightarrow> if rq_fingerprint r \<noteq> fp then Inl (Http 409 ''request used for another change'')
           else bind_r (show_room e db1 us ci un (rq_progress r) False) (\<lambda>en. Inr (en, db1))
       | None \<Rightarrow> change_room e l us i ci m fp un (st i) db1) = Inr (en, db')"
    unfolding mutate_room_def Let_def bind_r_Inr_iff case_prod_beta db1_def fp_def
    by (auto simp: result_simps split: if_splits)
  have st: "st i = room_of db (us_id us) i" using read_states_room [OF pre(3)] by (simp add: db1_def)
  note un = find_unit_Inr [OF pre(4)]
  show thesis
  proof (cases "receipt_of db (us_id us) (mu_request m)")
    case (Some r)
    with body pre(2) show thesis
      by (intro replay [of r]) (auto simp: db1_def fp_def result_simps dest: show_room_progress split: if_splits)
  next
    case None
    then have run: "change_room e l us i ci m fp un (st i) db1 = Inr (en, db')" using body by (simp add: db1_def)
    then obtain cur solved out where c: "progress_of (st i) = Inr cur" "pg_revision cur = mu_expected m"
      "\<not> wrong_round (mu_op m) cur" "challenge_status e us un = Inr solved"
      "apply_op e l us un ci m (st i) cur solved db1 = Inr out"
      and out: "(case out of Confirmed p \<Rightarrow> bind_r (show_room e db1 us ci un p False) (\<lambda>en. Inr (en, db1))
       | Changed p verdict db \<Rightarrow>
         bind_r (if is_skip (mu_op m) then Inr db
             else bind_r (start_unit e us i ci True db) (\<lambda>(d, db). Inr db)) (\<lambda>db.
         let p = p\<lparr>pg_revision := pg_revision p + 1\<rparr> in
         bind_r (save_room e (us_id us) i m fp (st i) p verdict db) (\<lambda>db.
         bind_r (show_room e db us ci un p False) (\<lambda>en. Inr (en, db))))) = Inr (en, db')"
      unfolding change_room_def bind_r_Inr_iff by (auto simp: result_simps split: if_splits)
    show thesis
    proof (cases out)
      case (Confirmed p)
      with c(5) show thesis
      proof (cases rule: apply_op_cases)
        case (confirm d r)
        with out Confirmed c(1) st un pre show thesis
          by (intro that(2) [of content un r cur]) (auto simp: result_simps db1_def dest: show_room_progress)
      qed auto
    next
      case (Changed p verdict db2)
      with out obtain db3 where 3: "is_skip (mu_op m) \<and> db3 = db2 \<or> (\<exists>d. start_unit e us i ci True db2 = Inr (d, db3))"
        "save_room e (us_id us) i m fp (st i) (p\<lparr>pg_revision := pg_revision p + 1\<rparr>) verdict db3 = Inr db'"
        "re_progress en = p\<lparr>pg_revision := pg_revision p + 1\<rparr>"
        by (auto simp: result_simps Let_def dest: show_room_progress split: if_splits)
      have "same_but_starts db2 db3" using 3(1) by (auto dest: start_unit_frame)
      with 3 c st pre un None Changed show thesis
        by (intro that(3) [of content un cur solved p verdict db2 db3]) (auto simp: db1_def fp_def)
    qed
  qed
qed

section \<open>What a change writes\<close>

definition room_key :: "room_state \<Rightarrow> string \<times> string" where
  "room_key r = (rs_user r, rs_unit r)"

lemma room_of_row: "room_of db u i = row_by room_key (u, i) (rooms db)"
  by (simp add: room_of_def row_by_def room_key_def)

lemma room_row_key [simp]: "room_key (room_row e u i op (Some r) p) = room_key r" "room_key (room_row e u i op None p) = (u, i)"
  by (simp_all add: room_row_def room_key_def Let_def)

lemma save_room_frame:
  assumes "save_room e u i m fp row p verdict db = Inr db'"
  shows "milestones db' = milestones db" "users db' = users db"
    "verdicts db' = (case verdict of None \<Rightarrow> verdicts db | Some c \<Rightarrow> add_row (verdict_row e u i c) (verdicts db))"
    "room_requests db' = prune_receipts u i (add_row \<lparr>rq_user = u, rq_request = mu_request m, rq_unit = i,
       rq_revision = pg_revision p, rq_fingerprint = fp, rq_progress = p, rq_created = en_now e\<rparr> (room_requests db))"
  using assms by (cases row; cases verdict; auto simp: save_room_def Let_def split: if_splits)+

lemma save_room_rooms:
  assumes "save_room e u i m fp row p verdict db = Inr db'" "row = room_of db u i" "unique_by room_key (rooms db)"
  shows "room_of db' u i = Some (room_row e u i (mu_op m) row p) \<and>
    ((v, k) \<noteq> (u, i) \<longrightarrow> room_of db' v k = room_of db v k) \<and> unique_by room_key (rooms db')"
proof (cases row)
  case None
  with assms have "rooms db' = add_row (room_row e u i (mu_op m) None p) (rooms db)"
    by (auto simp: save_room_def Let_def split: option.splits)
  moreover have free: "row_by room_key (u, i) (rooms db) = None" using None assms(2) by (simp add: room_of_row)
  then have "row_by room_key (v, k) (add_row (room_row e u i (mu_op m) None p) (rooms db)) =
      (if (v, k) = (u, i) then Some (room_row e u i (mu_op m) None p) else row_by room_key (v, k) (rooms db))" for v k
    using rows.get_put [of room_key "room_row e u i (mu_op m) None p" "rooms db" "(v, k)"] by simp
  ultimately show ?thesis using assms(3) free None by (simp add: room_of_row unique_by_add row_by_None)
next
  case (Some r)
  let ?hit = "\<lambda>x. rs_user x = u \<and> rs_unit x = i \<and> rs_revision x = mu_expected m"
  let ?f = "\<lambda>x. room_row e u i (mu_op m) (Some x) p"
  from Some assms have r': "rooms db' = update_rows ?hit ?f (rooms db)" and c: "count_rows ?hit (rooms db) = 1"
    by (auto simp: save_room_def Let_def result_simps split: option.splits if_splits)
  from count_rows_1D [OF c] obtain x where x: "x \<in> set (rooms db)" "?hit x" by auto
  then have "room_of db u i = Some x" using unique_by_row [OF assms(3) x(1)] by (simp add: room_of_row room_key_def)
  with Some assms(2) x have r: "room_of db u i = Some r" "rs_revision r = mu_expected m" "?hit r" by auto
  have key: "rs_user (?f y) = rs_user y \<and> rs_unit (?f y) = rs_unit y" for y by (simp add: room_row_def Let_def)
  have "room_of db' v k = map_option (\<lambda>x. if ?hit x then ?f x else x) (room_of db v k)" for v k
    unfolding room_of_def r' by (rule first_row_update_key) (simp add: key)
  moreover have "room_of db v k = Some y \<Longrightarrow> rs_user y = v \<and> rs_unit y = k" for v k y
    by (auto simp: room_of_def dest: first_row_SomeD)
  ultimately show ?thesis using r Some assms(3) unfolding r'
    by (cases "room_of db v k") (auto simp: unique_by_update)
qed

lemma progress_of_Inr:
  assumes "progress_of row = Inr cur"
  shows "pg_revision cur = (case row of None \<Rightarrow> 0 | Some r \<Rightarrow> rs_revision r)"
    "pg_review_id cur = Option.bind row rs_review_id"
    "\<And>r. row = Some r \<Longrightarrow> rs_review_id r = None \<Longrightarrow> pg_status cur = rs_status r \<and>
      (rs_status r = Completed \<longrightarrow> pg_result cur = rs_result r)"
    "row = None \<Longrightarrow> pg_status cur = New"
  using assms by (auto simp: progress_of_def no_progress_def Let_def split: option.splits)

lemma completed_progress_Inr:
  assumes "completed_progress un cur d solved verdict = Inr p"
  shows "\<not> finished (pg_status cur)" "pg_revision p = pg_revision cur" "pg_review_id p = pg_review_id cur"
    "pg_status p = Skipped \<and> cd_action d = Do_skip \<and> (\<exists>c. un_completion un = Some c \<and> allow_skip c) \<or>
     pg_status p = Completed \<and> cd_action d = Do_complete \<and>
       (un_exercise un \<noteq> None \<and> solved \<and> pg_result p = Some Solved \<or>
        un_exercise un = None \<and> pg_result p = Some Introduced \<and> (\<exists>c. un_completion un = Some c \<and> (case c of
          Introduction a s \<Rightarrow> json_eq (cd_answer d) a
        | Llm_verdict q h \<Rightarrow> (case verdict of None \<Rightarrow> fallback_completion un d | Some v \<Rightarrow> cl_passed v)
        | Engine_completion \<Rightarrow> False)))"
  using assms by (auto simp: completed_progress_def split: if_splits option.splits completion.splits; (cases "cd_action d"; simp))+

lemma apply_op_revision:
  "apply_op e l us un ci m row cur solved db = Inr (Changed p verdict db') \<Longrightarrow> pg_revision p = pg_revision cur"
  by (erule apply_op_cases) (auto dest: completed_progress_Inr)

lemma apply_op_tables:
  "apply_op e l us un ci m row cur solved db = Inr (Changed p verdict db') \<Longrightarrow>
    rooms db' = rooms db \<and> room_requests db' = room_requests db \<and> verdicts db' = verdicts db \<and> users db' = users db"
  by (erule apply_op_cases) auto

definition room_revision :: "database \<Rightarrow> string \<Rightarrow> string \<Rightarrow> int" where
  "room_revision db u i = (case room_of db u i of None \<Rightarrow> 0 | Some r \<Rightarrow> rs_revision r)"

lemma room_of_cong: "rooms db = rooms db' \<Longrightarrow> room_of db = room_of db'"
  by (simp add: room_of_def fun_eq_iff)

lemma mutate_room_row:
  assumes "mutate_room e l us i ci m db = Inr (en, db')" "unique_by room_key (rooms db)"
  shows "unique_by room_key (rooms db') \<and> (rooms db' = rooms db \<or>
    (\<exists>p. room_of db' (us_id us) i = Some (room_row e (us_id us) i (mu_op m) (room_of db (us_id us) i) p) \<and>
      re_progress en = p \<and> room_revision db (us_id us) i = mu_expected m \<and> pg_revision p = mu_expected m + 1) \<and>
    (\<forall>v k. (v, k) \<noteq> (us_id us, i) \<longrightarrow> room_of db' v k = room_of db v k))"
  using assms(1)
proof (cases rule: mutate_room_cases)
  case (change content un solved cur p verdict db2 db3)
  have r: "rooms db3 = rooms db"
    using same_but_starts_fields [OF change(13)] apply_op_tables [OF change(12)] by simp
  then have "unique_by room_key (rooms db3)" using assms(2) by simp
  from save_room_rooms [OF change(15) _ this] show ?thesis
    using change(8,9,16) apply_op_revision [OF change(12)] room_of_cong [OF r] progress_of_Inr(1) [OF change(8)]
    by (simp add: room_revision_def)
qed (use assms(2) in auto)

section \<open>No update is lost\<close>

type_synonym room_call = "env \<times> llm_env \<times> user \<times> string \<times> string option \<times> mutation"

definition room_step :: "room_call \<Rightarrow> database \<Rightarrow> database" where
  "room_step call db = (case call of (e, l, us, i, ci, m) \<Rightarrow> committed db (mutate_room e l us i ci m db))"

definition call_expected :: "room_call \<Rightarrow> int" where
  "call_expected call = (case call of (e, l, us, i, ci, m) \<Rightarrow> mu_expected m)"

lemma room_step_swaps:
  assumes "unique_by room_key (rooms db)" "room_of (room_step call db) u i \<noteq> room_of db u i"
  shows "room_revision db u i = call_expected call \<and> room_revision (room_step call db) u i = call_expected call + 1"
proof -
  obtain e l us k ci m where c: "call = (e, l, us, k, ci, m)" by (cases call) auto
  with assms(2) obtain en db' where run: "mutate_room e l us k ci m db = Inr (en, db')" "room_step call db = db'"
    by (cases "mutate_room e l us k ci m db") (auto simp: room_step_def)
  from mutate_room_row [OF run(1) assms(1)] assms(2) run(2) show ?thesis
    by (cases "u = us_id us \<and> i = k")
      (auto simp: c call_expected_def room_revision_def room_row_def Let_def dest: room_of_cong split: option.splits)
qed

interpretation room_changes: revisioned room_step "\<lambda>db. unique_by room_key (rooms db)" "\<lambda>db. room_of db u i"
    "\<lambda>r. case r of None \<Rightarrow> 0 | Some r \<Rightarrow> rs_revision r" call_expected for u i
proof (unfold_locales, goal_cases)
  case (1 db call)
  then show ?case
    by (cases call) (auto simp: room_step_def committed_Inr dest: mutate_room_row split: sum.split)
next
  case (2 db call)
  then show ?case using room_step_swaps by (auto simp: room_revision_def)
qed

text \<open>The revisions expected by the requests of a history that changed a room.\<close>

fun swapped :: "string \<Rightarrow> string \<Rightarrow> room_call list \<Rightarrow> database \<Rightarrow> int list" where
  "swapped u i [] db = []"
| "swapped u i (c # cs) db = (if room_of (room_step c db) u i = room_of db u i then [] else [call_expected c]) @
     swapped u i cs (room_step c db)"

lemma swapped_changing: "swapped u i cs db = map call_expected (room_changes.changing u i cs db)"
  by (induction cs arbitrary: db) auto

text \<open>
  C7: no update of a room is lost. Whatever requests of whatever sessions arrive, those that change a room expected
  consecutive revisions, so two sessions that started from the same revision never both succeed, and the revision
  counts the changes exactly.
\<close>

theorem no_room_update_lost:
  assumes "unique_by room_key (rooms db)"
  shows "swapped u i cs db = map (\<lambda>k. room_revision db u i + int k) [0..<length (swapped u i cs db)] \<and>
    room_revision (fold room_step cs db) u i = room_revision db u i + int (length (swapped u i cs db))"
  using room_changes.no_lost_update [OF assms, of u i cs] by (simp add: swapped_changing room_revision_def)

section \<open>A finished room stays finished\<close>

lemma room_row_status:
  "rs_status (room_row e u i op row p) = (case row of Some r \<Rightarrow> if pg_review_id p \<noteq> None then rs_status r else pg_status p
     | None \<Rightarrow> pg_status p)"
  "rs_result (room_row e u i op row p) = (case row of Some r \<Rightarrow> if pg_review_id p \<noteq> None then rs_result r else pg_result p
     | None \<Rightarrow> pg_result p)"
  "rs_revision (room_row e u i op row p) = pg_revision p"
  by (simp_all add: room_row_def Let_def split: option.splits)

text \<open>
  C26: an achievement is never taken back. Once a room is completed or skipped, no save, completion, skip or repeat
  by anybody changes that status, or the result of a completed room; a repeat runs beside it.
\<close>

theorem finished_room_stays:
  assumes "mutate_room e l us k ci m db = Inr (en, db')" "unique_by room_key (rooms db)"
    "room_of db u i = Some r" "finished (rs_status r)"
  shows "\<exists>r'. room_of db' u i = Some r' \<and> rs_status r' = rs_status r \<and>
    (rs_status r = Completed \<longrightarrow> rs_result r' = rs_result r)"
proof (cases "rooms db' = rooms db \<or> (u, i) \<noteq> (us_id us, k)")
  case True
  with mutate_room_row [OF assms(1,2)] assms(3) room_of_cong show ?thesis by metis
next
  case False
  then have ui: "u = us_id us" "i = k" "rooms db' \<noteq> rooms db" by auto
  from assms(1) show ?thesis
  proof (cases rule: mutate_room_cases)
    case (change content un solved cur p verdict db2 db3)
    define p' where "p' = p\<lparr>pg_revision := pg_revision p + 1\<rparr>"
    have row: "room_of db' u i = Some (room_row e u i (mu_op m) (Some r) p')"
      using mutate_room_row [OF assms(1,2)] ui change(16) assms(3) by (auto simp: p'_def)
    show ?thesis
    proof (cases "pg_review_id p = None")
      case False
      with row show ?thesis by (simp add: room_row_status p'_def)
    next
      case True
      have "rs_review_id r = None \<and> pg_status p = pg_status cur \<and> pg_result p = pg_result cur"
        using change(12)
      proof (cases rule: apply_op_cases)
        case (save rv st)
        with True progress_of_Inr(2,3) [OF change(8)] assms(3,4) ui show ?thesis by (auto simp: finished_def)
      next
        case review
        with True show ?thesis by simp
      next
        case (complete d s v q dbx)
        with True have "pg_review_id cur = None" "\<not> finished (pg_status cur)" by (auto dest: completed_progress_Inr)
        with progress_of_Inr(2,3) [OF change(8)] assms(3,4) ui show ?thesis by (auto simp: finished_def)
      qed simp
      with progress_of_Inr(3) [OF change(8)] assms(3) ui row True show ?thesis by (simp add: room_row_status p'_def)
    qed
  qed (use ui in auto)
qed

section \<open>The engine completes its units itself\<close>

text \<open>
  A client cannot complete a unit of the lesson engine. No request turns the room of such a unit completed or
  skipped that was not before; only the booking of the last required pass does.
\<close>

theorem engine_room_not_completed_by_client:
  assumes "mutate_room e l us i ci m db = Inr (en, db')" "unique_by room_key (rooms db)"
    "catalogue_of e db False = Inr content" "distinct (map un_id (ct_units content))"
    "un \<in> set (ct_units content)" "un_id un = i" "is_engine_unit un" "un_exercise un = None"
    "room_of db' (us_id us) i = Some r'" "finished (rs_status r')"
  shows "\<exists>r. room_of db (us_id us) i = Some r \<and> finished (rs_status r)"
  using assms(1)
proof (cases rule: mutate_room_cases)
  case (change content' un' solved cur p verdict db2 db3)
  have "un' = un" using change(1-3) assms(3-6) by (auto simp: distinct_map inj_on_def)
  define p' where "p' = p\<lparr>pg_revision := pg_revision p + 1\<rparr>"
  have st: "\<not> finished (pg_status cur) \<Longrightarrow> \<not> finished (pg_status p)"
    using change(12)
  proof (cases rule: apply_op_cases)
    case (complete d s v q dbx)
    with completed_progress_Inr(4) [OF complete(4)] \<open>un' = un\<close> assms(7,8) show ?thesis
      by (auto simp: is_engine_unit_def split: completion.splits)
  qed (auto simp: finished_def no_progress_def)
  have "rooms db' = rooms db \<or> room_of db' (us_id us) i = Some (room_row e (us_id us) i (mu_op m) (room_of db (us_id us) i) p')"
    using mutate_room_row [OF assms(1,2)] change(16) by (auto simp: p'_def)
  then show ?thesis
  proof
    assume "rooms db' = rooms db"
    with assms(9,10) show ?thesis by (auto dest: room_of_cong)
  next
    assume new: "room_of db' (us_id us) i = Some (room_row e (us_id us) i (mu_op m) (room_of db (us_id us) i) p')"
    show ?thesis
    proof (cases "room_of db (us_id us) i")
      case None
      with new st assms(9,10) progress_of_Inr(4) [OF change(8)] show ?thesis
        by (auto simp: room_row_status p'_def finished_def)
    next
      case (Some r)
      have rid: "pg_review_id p = None \<Longrightarrow> rs_review_id r = None"
        using change(12)
        by (cases rule: apply_op_cases) (use progress_of_Inr(2) [OF change(8)] Some in \<open>auto dest: completed_progress_Inr\<close>)
      show ?thesis
        using new st assms(9,10) progress_of_Inr(3) [OF change(8) Some] rid Some
        by (cases "pg_review_id p = None") (auto simp: room_row_status p'_def)
    qed
  qed
qed (use assms in \<open>auto dest: room_of_cong\<close>)

section \<open>Graded rooms\<close>

lemma graded_verdict_Inr:
  assumes "graded_verdict e l db u un d ci cur row = Inr (Some c)"
  shows "\<exists>p h token text t. un_completion un = Some (Llm_verdict p h) \<and> cd_verdict d = Some token \<and>
    answer_text (cd_answer d) = Some text \<and> verify_verdict e l token u (un_id un) p h ci text t = Inr c"
    "\<not> verdict_used db u (cl_request c)" "cd_action d = Do_complete"
  using assms by (auto simp: graded_verdict_def result_simps split: option.splits completion.splits if_splits)

lemma verdict_used_cong: "verdicts db = verdicts db' \<Longrightarrow> verdict_used db = verdict_used db'"
  by (simp add: verdict_used_def fun_eq_iff)

definition verdict_key_of :: "llm_verdict \<Rightarrow> string \<times> string" where
  "verdict_key_of v = (lv_user v, lv_request v)"

lemma verdict_used_row: "verdict_used db u r \<longleftrightarrow> (u, r) \<in> verdict_key_of ` set (verdicts db)"
  by (auto simp: verdict_used_def verdict_key_of_def row_simps)

text \<open>
  C6: an AI-graded room completes only with a passing verdict that counts once, or by the labelled fallback. When a
  request completes a graded room, either its verdict was accepted for this learner, unit, course and answer, passed,
  had not been used and is used now, or the request was exactly the fallback and no verdict was recorded. A recorded
  verdict stays recorded, so none ever completes two rooms.
\<close>

theorem graded_room_needs_fresh_pass:
  assumes "mutate_room e l us i ci m db = Inr (en, db')" "mu_op m = Complete_room d" "cd_action d = Do_complete"
    "receipt_of db (us_id us) (mu_request m) = None"
    "catalogue_of e db False = Inr content" "distinct (map un_id (ct_units content))" "un \<in> set (ct_units content)"
    "un_id un = i" "un_completion un = Some (Llm_verdict p h)" "un_exercise un = None"
  shows "(\<forall>r. verdict_used db (us_id us) r \<longrightarrow> verdict_used db' (us_id us) r) \<and>
    ((\<exists>c token text t. cd_verdict d = Some token \<and> answer_text (cd_answer d) = Some text \<and>
        verify_verdict e l token (us_id us) i p h ci text t = Inr c \<and> cl_passed c \<and>
        \<not> verdict_used db (us_id us) (cl_request c) \<and> verdict_used db' (us_id us) (cl_request c)) \<or>
     fallback_completion un d \<and> verdicts db' = verdicts db)"
  using assms(1)
proof (cases rule: mutate_room_cases)
  case (confirm content' un' r cur)
  then have "un' = un" using assms(5-8) by (auto simp: distinct_map inj_on_def)
  with confirm assms(9) show ?thesis by (simp add: is_engine_unit_def)
next
  case (change content' un' solved cur q verdict db2 db3)
  have un: "un' = un" using change(1-3) assms(5-8) by (auto simp: distinct_map inj_on_def)
  have ne: "\<not> is_engine_unit un" using assms(9) by (simp add: is_engine_unit_def)
  from change(12) assms(2) obtain s where
    g: "graded_verdict e l (snd (lock_user db (us_id us))) (us_id us) un d ci cur (room_of db (us_id us) i) = Inr verdict"
    and cp: "completed_progress un cur d s verdict = Inr q"
    by (cases rule: apply_op_cases) (auto simp: un ne)
  have v: "verdicts db3 = verdicts db"
    using same_but_starts_fields [OF change(13)] apply_op_tables [OF change(12)] by simp
  note v' = save_room_frame(3) [OF change(15), unfolded v]
  have mono: "\<forall>r. verdict_used db (us_id us) r \<longrightarrow> verdict_used db' (us_id us) r"
    using v' by (auto simp: verdict_used_row row_simps split: option.splits)
  from completed_progress_Inr(4) [OF cp] assms(3,9,10)
  have ok: "case verdict of None \<Rightarrow> fallback_completion un d | Some c \<Rightarrow> cl_passed c" by auto
  show ?thesis
  proof (cases verdict)
    case None
    with ok v' mono show ?thesis by simp
  next
    case (Some c)
    note gv = graded_verdict_Inr [OF g [unfolded Some]]
    have "verdict_used db' (us_id us) (cl_request c)"
      using v' Some by (auto simp: verdict_used_def verdict_row_def row_simps)
    moreover have "\<not> verdict_used db (us_id us) (cl_request c)"
      using gv(2) verdict_used_cong [of "snd (lock_user db (us_id us))" db] by simp
    moreover from gv(1) assms(8,9) obtain token ans t where "cd_verdict d = Some token"
      "answer_text (cd_answer d) = Some ans" "verify_verdict e l token (us_id us) i p h ci ans t = Inr c" by auto
    ultimately show ?thesis using ok Some mono by auto
  qed
qed (use assms(4) in simp)

section \<open>Requests are answered once\<close>

text \<open>The receipts of a room never run ahead of it, and a learner uses a request id once.\<close>

definition request_key :: "room_request \<Rightarrow> string \<times> string" where
  "request_key q = (rq_user q, rq_request q)"

definition rooms_ok :: "database \<Rightarrow> bool" where
  "rooms_ok db \<longleftrightarrow> unique_by room_key (rooms db) \<and> unique_by request_key (room_requests db) \<and>
     (\<forall>q\<in>set (room_requests db). rq_revision q \<le> room_revision db (rq_user q) (rq_unit q))"

lemma receipt_of_row: "receipt_of db u r = row_by request_key (u, r) (room_requests db)"
  by (simp add: receipt_of_def row_by_def request_key_def)

lemma last_sort_key:
  assumes "r \<in> set ys" "\<And>y. y \<in> set ys \<Longrightarrow> y \<noteq> r \<Longrightarrow> f y < (f r :: int)"
  shows "last (sort_key f ys) = r"
proof -
  define xs where "xs = sort_key f ys"
  have r: "r \<in> set xs" using assms(1) by (simp add: xs_def)
  then have xs: "xs = butlast xs @ [last xs]" by (metis append_butlast_last_id empty_iff empty_set)
  have "sorted (map f xs)" by (simp add: xs_def)
  then have "\<forall>x\<in>set (butlast xs). f x \<le> f (last xs)" by (subst (asm) xs) (simp add: sorted_append)
  moreover have "last xs \<in> set xs" using r by (metis last_in_set empty_iff empty_set)
  then have "last xs \<noteq> r \<Longrightarrow> f (last xs) < f r" using assms(2) by (simp add: xs_def)
  moreover have "last xs \<noteq> r \<Longrightarrow> r \<in> set (butlast xs)" using r by (subst (asm) xs) auto
  ultimately show ?thesis unfolding xs_def [symmetric] by force
qed

lemma set_prune: "set (prune_receipts u i t) \<subseteq> set t"
  by (auto simp: prune_receipts_def Let_def row_simps)

lemma prune_keeps_newest:
  assumes "q \<in> set t" "rq_user q = u" "rq_unit q = i"
    "\<And>x. x \<in> set t \<Longrightarrow> rq_user x = u \<Longrightarrow> rq_unit x = i \<Longrightarrow> x \<noteq> q \<Longrightarrow> rq_revision x < rq_revision q"
  shows "q \<in> set (prune_receipts u i t)"
proof -
  let ?own = "all_rows (\<lambda>r. rq_user r = u \<and> rq_unit r = i) t"
  have mem: "q \<in> set ?own" using assms(1-3) by (simp add: row_simps)
  have "last (sort_key rq_revision ?own) = q"
    by (rule last_sort_key [OF mem]) (use assms(4) in \<open>auto simp: row_simps\<close>)
  moreover have "sort_key rq_revision ?own \<noteq> []" using mem by (metis empty_iff empty_set set_sort)
  ultimately obtain xs where "sort_key rq_revision ?own = xs @ [q]" by (metis append_butlast_last_id)
  then have "q \<in> set (take 4 (rev (sort_key rq_revision ?own)))" by simp
  with assms(1) show ?thesis by (auto simp: prune_receipts_def Let_def row_simps)
qed

lemma unique_by_prune: "unique_by k t \<Longrightarrow> unique_by k (prune_receipts u i t)"
  by (simp add: prune_receipts_def Let_def unique_by_delete)

text \<open>The state after a change: the invariant holds, and the receipt of the request is there.\<close>

lemma change_keeps_ok:
  assumes "rooms_ok db" "receipt_of db u (mu_request m) = None" "row = room_of db u i"
    "save_room e u i m fp row p verdict db = Inr db'" "room_revision db u i < pg_revision p"
  shows "rooms_ok db' \<and> (\<exists>q. receipt_of db' u (mu_request m) = Some q \<and> rq_fingerprint q = fp \<and> rq_progress q = p)"
proof -
  define q where "q = \<lparr>rq_user = u, rq_request = mu_request m, rq_unit = i, rq_revision = pg_revision p,
    rq_fingerprint = fp, rq_progress = p, rq_created = en_now e\<rparr>"
  have un: "unique_by room_key (rooms db)" "unique_by request_key (room_requests db)"
    and le: "\<And>x. x \<in> set (room_requests db) \<Longrightarrow> rq_revision x \<le> room_revision db (rq_user x) (rq_unit x)"
    using assms(1) by (auto simp: rooms_ok_def)
  have reqs: "room_requests db' = prune_receipts u i (add_row q (room_requests db))"
    using save_room_frame(4) [OF assms(4)] by (simp add: q_def)
  have rooms': "room_revision db' v k = (if (v, k) = (u, i) then pg_revision p else room_revision db v k)"
    "unique_by room_key (rooms db')" for v k
    using save_room_rooms [OF assms(4,3) un(1), of v k] by (auto simp: room_revision_def room_row_status)
  have new: "unique_by request_key (add_row q (room_requests db))"
    using un(2) assms(2) by (simp add: unique_by_add receipt_of_row row_by_None q_def request_key_def)
  have q: "q \<in> set (room_requests db')"
    unfolding reqs
    by (rule prune_keeps_newest) (use le assms(5) in \<open>fastforce simp: row_simps q_def\<close>)+
  have "unique_by request_key (room_requests db')" unfolding reqs by (rule unique_by_prune [OF new])
  moreover have "request_key q = (u, mu_request m)" by (simp add: request_key_def q_def)
  ultimately have "receipt_of db' u (mu_request m) = Some q"
    using unique_by_row [OF _ q, of request_key] by (simp add: receipt_of_row)
  moreover have "rooms_ok db'"
    unfolding rooms_ok_def
  proof (intro conjI ballI)
    show "unique_by request_key (room_requests db')" using new by (simp add: reqs unique_by_prune)
    fix x assume "x \<in> set (room_requests db')"
    then have "x = q \<or> x \<in> set (room_requests db)" by (auto simp: reqs row_simps dest!: subsetD [OF set_prune])
    then show "rq_revision x \<le> room_revision db' (rq_user x) (rq_unit x)"
      using le [of x] assms(5) by (auto simp: rooms' q_def)
  qed (rule rooms')
  ultimately show ?thesis by (auto simp: q_def)
qed

lemma room_revision_cong: "rooms db = rooms db' \<Longrightarrow> room_revision db = room_revision db'"
  by (simp add: room_revision_def room_of_def fun_eq_iff)

lemma rooms_ok_cong: "rooms db = rooms db' \<Longrightarrow> room_requests db = room_requests db' \<Longrightarrow> rooms_ok db = rooms_ok db'"
  using room_revision_cong [of db db'] by (simp add: rooms_ok_def)

lemma receipt_of_cong: "room_requests db = room_requests db' \<Longrightarrow> receipt_of db = receipt_of db'"
  by (simp add: receipt_of_def fun_eq_iff)

lemma mutate_room_receipt:
  assumes "mutate_room e l us i ci m db = Inr (en, db')" "rooms_ok db"
  shows "rooms_ok db' \<and> (db' = snd (lock_user db (us_id us)) \<or>
    (\<exists>q. receipt_of db' (us_id us) (mu_request m) = Some q \<and> rq_fingerprint q = request_fingerprint e i m ci \<and>
      rq_progress q = re_progress en))"
proof -
  have l: "rooms_ok (snd (lock_user db (us_id us)))" using assms(2) by (subst rooms_ok_cong) auto
  from assms(1) show ?thesis
  proof (cases rule: mutate_room_cases)
    case (change content un solved cur p verdict db2 db3)
    have r: "rooms db3 = rooms db" "room_requests db3 = room_requests db"
      using same_but_starts_fields [OF change(13)] apply_op_tables [OF change(12)] by simp_all
    have "rooms_ok db3" "receipt_of db3 (us_id us) (mu_request m) = None"
      "room_of db (us_id us) i = room_of db3 (us_id us) i"
      "room_revision db3 (us_id us) i < pg_revision (p\<lparr>pg_revision := pg_revision p + 1\<rparr>)"
      using r assms(2) change(6,8) apply_op_revision [OF change(12)] progress_of_Inr(1) [OF change(8)]
        rooms_ok_cong [OF r] receipt_of_cong [OF r(2)] room_of_cong [OF r(1)] room_revision_cong [OF r(1)]
      by (auto simp: room_revision_def)
    from change_keeps_ok [OF this(1-3) change(15) this(4)] change(16) show ?thesis by auto
  qed (use l in auto)
qed

text \<open>
  A request takes effect once. Once a request changed a room, any later request of the learner with the same id
  either is refused or is the same request: it gets the progress the first one got, and no table but the account
  guard is written, as long as the receipt is kept.
\<close>

theorem room_request_once:
  assumes "rooms_ok db" "mutate_room e l us i ci m db = Inr (en, db1)" "db1 \<noteq> snd (lock_user db (us_id us))"
    "receipt_of db2 (us_id us) (mu_request m) = receipt_of db1 (us_id us) (mu_request m)"
    "mutate_room e' l' us' i' ci' m' db2 = Inr (en', db3)" "us_id us' = us_id us" "mu_request m' = mu_request m"
  shows "request_fingerprint e' i' m' ci' = request_fingerprint e i m ci \<and> re_progress en' = re_progress en \<and>
    db3 = snd (lock_user db2 (us_id us))"
proof -
  from mutate_room_receipt [OF assms(2,1)] assms(3) obtain q where
    q: "receipt_of db1 (us_id us) (mu_request m) = Some q" "rq_fingerprint q = request_fingerprint e i m ci"
    "rq_progress q = re_progress en" by auto
  then have r: "receipt_of db2 (us_id us') (mu_request m') = Some q" using assms(4,6,7) by simp
  let ?db = "snd (lock_user db2 (us_id us'))"
  from assms(5) obtain content st un where "(case receipt_of ?db (us_id us') (mu_request m') of
         Some r \<Rightarrow> if rq_fingerprint r \<noteq> request_fingerprint e' i' m' ci' then Inl (Http 409 ''request used for another change'')
           else bind_r (show_room e' ?db us' ci' un (rq_progress r) False) (\<lambda>en. Inr (en, ?db))
       | None \<Rightarrow> change_room e' l' us' i' ci' m' (request_fingerprint e' i' m' ci') un (st i') ?db) = Inr (en', db3)"
    unfolding mutate_room_def Let_def case_prod_beta by (auto simp: result_simps split: if_splits)
  with r q assms(6) show ?thesis
    by (auto simp: result_simps dest: show_room_progress split: if_splits)
qed

section \<open>Access\<close>

text \<open>What opens a course to a learner.\<close>

definition course_open :: "env \<Rightarrow> database \<Rightarrow> user \<Rightarrow> course \<Rightarrow> bool" where
  "course_open e db us c \<longleftrightarrow> free c \<or> us_admin us \<or> co_id c \<in> get_owned_courses db (us_id us) \<or>
     (\<exists>l. course_daily_access e db us c l = Inr True) \<or> en_premium e (us_id us) = Inr True"

lemma path_access_open:
  "path_access e db us ui cs f = Inr () \<Longrightarrow> \<exists>c\<in>set cs. course_open e db us c"
proof (induction cs arbitrary: f)
  case (Cons c cs)
  show ?case
  proof (cases "free c \<or> us_admin us \<or> co_id c \<in> get_owned_courses db (us_id us)")
    case True
    then show ?thesis by (auto simp: course_open_def)
  next
    case False
    with Cons.prems obtain l where l: "(case daily_or_premium e db us c l of
          Inr True \<Rightarrow> Inr () | Inr False \<Rightarrow> path_access e db us ui cs f
        | Inl er \<Rightarrow> if is_access er then path_access e db us ui cs (Some er) else Inl er) = Inr ()"
      by (auto simp: bind_r_Inr_iff)
    then consider "daily_or_premium e db us c l = Inr True" | g where "path_access e db us ui cs g = Inr ()"
      by (auto split: sum.splits bool.splits if_splits)
    then show ?thesis
    proof cases
      case 1
      then have "course_open e db us c"
        by (auto simp: daily_or_premium_def bind_r_Inr_iff course_open_def split: if_splits)
      then show ?thesis by simp
    next
      case 2
      from Cons.IH [OF this] show ?thesis by simp
    qed
  qed
qed simp

lemma require_path_access_open:
  assumes "require_path_access e db us p ci ui = Inr ()"
  shows "linked_courses e p None = [] \<and> ci = None \<or>
    (\<exists>c\<in>set (en_courses e). co_path c = Some p \<and> (ci = None \<or> ci = Some (co_id c)) \<and> course_open e db us c)"
proof -
  have ne: "linked_courses e p ci \<noteq> []" if c: "ci = Some c" for c
  proof -
    from assms c obtain co where "course_by e c = Some co" "co_path co = Some p"
      by (simp add: require_path_access_def result_simps split: option.splits)
    then have "co \<in> set (linked_courses e p ci)"
      using c course_by_SomeD [of e c co] by (simp add: linked_courses_def)
    then show ?thesis by auto
  qed
  have "linked_courses e p ci = [] \<or> path_access e db us ui (linked_courses e p ci) None = Inr ()"
    using assms by (simp add: require_path_access_def Let_def bind_r_Inr_iff split: if_splits)
  then consider "ci = None" "linked_courses e p None = []"
    | c where "c \<in> set (linked_courses e p ci)" "course_open e db us c"
    using ne path_access_open [of e db us ui "linked_courses e p ci" None] by (cases ci) auto
  then show ?thesis by cases (auto simp: linked_courses_def)
qed

text \<open>
  A room of a paid course opens to nobody without access. A room is shown only if its unit is offered and not
  retired, and its path belongs to no course, or a course of the path (the one asked for) is free, owned, open to
  this admin, premium or daily learner; without a course the introductions of the unit's concepts come first.
\<close>

theorem room_needs_access:
  assumes "get_room e db us i ci = Inr en"
  shows "\<exists>content st un. catalogue_of e db False = Inr content \<and> un \<in> set (ct_units content) \<and> un_id un = i \<and>
    \<not> un_retired un \<and> pb_id (re_unit en) = i \<and>
    (linked_courses e (un_path un) None = [] \<and> ci = None \<or>
     (\<exists>c\<in>set (en_courses e). co_path c = Some (un_path un) \<and> (ci = None \<or> ci = Some (co_id c)) \<and> course_open e db us c)) \<and>
    (ci = None \<longrightarrow> read_states db (us_id us) None = Inr st \<and> set (un_requires un) \<subseteq> introduced_concepts content st)"
proof -
  from assms obtain content st un pu p where g: "catalogue_of e db False = Inr content"
    "read_states db (us_id us) (unit_scope i ci) = Inr st" "find_unit content i st (ci = None) = Inr un"
    "require_path_access e db us (un_path un) ci (Some (un_id un)) = Inr ()" "public_unit_of e db un us ci = Inr pu"
    "room_envelope e db us ci pu p (ci \<noteq> None \<and> review_available (st (un_id un))) = Inr en"
    by (auto simp: get_room_def result_simps)
  have "pb_id pu = un_id un"
    using g(5) by (auto simp: public_unit_of_def public_def result_simps split: if_splits option.splits)
  then have "pb_id (re_unit en) = i"
    using room_envelope_progress [OF g(6)] find_unit_Inr(2) [OF g(3)] by simp
  with find_unit_Inr [OF g(3)] require_path_access_open [OF g(4)] g(1,2) show ?thesis
    by (intro exI [of _ content] exI [of _ st] exI [of _ un]) (auto simp: unit_scope_def)
qed

section \<open>Milestones\<close>

lemma milestone_of_cong: "milestones db = milestones db' \<Longrightarrow> milestone_of db = milestone_of db'"
  by (simp add: milestone_of_def fun_eq_iff)

lemma checked_completion_Some:
  assumes "checked_completion un d verdict rp = Some kind"
  shows "un_exercise un = None \<and> cd_action d = Do_complete \<and>
    ((\<exists>a s. un_completion un = Some (Introduction a s) \<and> \<not> rp) \<or>
     (\<exists>p h c. un_completion un = Some (Llm_verdict p h) \<and> verdict = Some c \<and> cl_passed c))"
  using assms by (auto simp: checked_completion_def split: if_splits option.splits completion.splits)

text \<open>
  A milestone is earned by a checked pass only. A request queues the milestone of a unit with the XP the
  catalogue names, for a completion that the server checked itself: the exact answer in the first round, or a
  verified passing verdict. A skip, an exercise and the fallback queue none.
\<close>

theorem milestone_needs_checked_pass:
  assumes "mutate_room e l us i ci m db = Inr (en, db')"
    "milestone_of db (us_id us) i = None" "milestone_of db' (us_id us) i = Some r"
  shows "\<exists>content un mi d. catalogue_of e db False = Inr content \<and> un \<in> set (ct_units content) \<and> un_id un = i \<and>
    un_milestone un = Some mi \<and> ms_xp r = mi_xp mi \<and> ms_skill r = mi_skill mi \<and> ms_state r = Pending \<and>
    mu_op m = Complete_room d \<and> cd_action d = Do_complete \<and> un_exercise un = None \<and> \<not> fallback_completion un d \<and>
    ((\<exists>a s. un_completion un = Some (Introduction a s) \<and> json_eq (cd_answer d) a \<and> cd_review d = None) \<or>
     (\<exists>p h token ans t c. un_completion un = Some (Llm_verdict p h) \<and> cd_verdict d = Some token \<and>
        verify_verdict e l token (us_id us) i p h ci ans t = Inr c \<and> cl_passed c))"
  using assms(1)
proof (cases rule: mutate_room_cases)
  case (change content un solved cur q verdict db2 db3)
  define db1 where "db1 = snd (lock_user db (us_id us))"
  have "milestones db' = milestones db2"
    using same_but_starts_fields [OF change(13)] save_room_frame(1) [OF change(15)] by simp
  then have m2: "milestone_of db2 (us_id us) i = Some r" using assms(3) milestone_of_cong by metis
  have m1: "milestone_of db1 (us_id us) i = None"
    using assms(2) milestone_of_cong [of db1 db] by (simp add: db1_def)
  from change(12) [folded db1_def] show ?thesis
  proof (cases rule: apply_op_cases)
    case (complete d s v p dbx)
    with m1 m2 obtain kind where k: "checked_completion un d v (pg_review_id p \<noteq> None) = Some kind" "pg_status p = Completed"
      "db2 = enqueue (en_now e) (us_id us) un kind db1" by auto
    from m1 m2 change(3) obtain mi where mi: "un_milestone un = Some mi" "ms_xp r = mi_xp mi" "ms_skill r = mi_skill mi"
      "ms_state r = Pending"
      unfolding k(3) by (auto simp: enqueue_def milestone_of_row rows.get_put milestone_key_def split: option.splits)
    note cc = checked_completion_Some [OF k(1)]
    note cp = completed_progress_Inr [OF complete(4)]
    have "cd_review d = pg_review_id p" using change(10) complete(1) cp(3) by (simp add: wrong_round_def)
    moreover have gv: "v = Some c \<Longrightarrow> \<exists>p h token ans t. un_completion un = Some (Llm_verdict p h) \<and> cd_verdict d = Some token \<and>
        verify_verdict e l token (us_id us) i p h ci ans t = Inr c" for c
      using graded_verdict_Inr(1) [of e l db1 "us_id us" un d ci cur] complete(3) change(3) by blast
    moreover have "v = Some c \<Longrightarrow> \<not> fallback_completion un d" for c
      using gv by (auto simp: fallback_completion_def)
    moreover have "json_eq (cd_answer d) a \<and> pg_review_id p = None" if "un_completion un = Some (Introduction a s)" for a s
      using that cc cp(4) by auto
    moreover have "un_completion un = Some (Introduction a s) \<Longrightarrow> \<not> fallback_completion un d" for a s
      by (simp add: fallback_completion_def)
    ultimately show ?thesis using cc mi complete(1) change(1-3)
      by (intro exI [of _ content] exI [of _ un] exI [of _ mi] exI [of _ d]) (simp, blast)
  qed (use m1 m2 in \<open>auto simp: db1_def\<close>)
qed (use assms(2,3) milestone_of_cong [of "snd (lock_user db (us_id us))" db] in auto)

section \<open>Erased accounts\<close>

lemma gone_prune: "no_row rq_user v t \<Longrightarrow> no_row rq_user v (prune_receipts u i t)"
  by (simp add: prune_receipts_def Let_def no_row_intros)

lemma gone_save_room:
  assumes "gone db v" "u \<noteq> v" "save_room e u i m fp row p verdict db = Inr db'"
  shows "gone db' v"
proof -
  define add where "add = (\<lambda>db :: database. (let db = (case verdict of None \<Rightarrow> db | Some c \<Rightarrow> db\<lparr>verdicts := add_row (verdict_row e u i c) (verdicts db)\<rparr>)
     in db\<lparr>room_requests := prune_receipts u i (add_row \<lparr>rq_user = u, rq_request = mu_request m, rq_unit = i,
       rq_revision = pg_revision p, rq_fingerprint = fp, rq_progress = p, rq_created = en_now e\<rparr> (room_requests db))\<rparr>))"
  have add: "gone db v \<Longrightarrow> gone (add db) v" for db
    unfolding add_def Let_def using assms(2)
    by (cases verdict) (auto intro!: gone_write gone_prune gone_row simp: verdict_row_def)
  have nr: "no_row rs_user v (rooms db)" using assms(1) by (rule gone_row)
  from assms(3) obtain t where t: "db' = add (db\<lparr>rooms := t\<rparr>)" "no_row rs_user v t"
  proof (cases row)
    case None
    with assms nr show ?thesis
      by (intro that [of "add_row (room_row e u i (mu_op m) None p) (rooms db)"])
        (cases verdict; simp add: save_room_def Let_def add_def room_row_def)+
  next
    case (Some r)
    have "no_row rs_user v (update_rows (\<lambda>x. rs_user x = u \<and> rs_unit x = i \<and> rs_revision x = mu_expected m)
        (\<lambda>x. room_row e u i (mu_op m) (Some x) p) (rooms db))"
      using nr by (rule no_row_intros) (simp add: room_row_def Let_def)
    with Some assms(3) show ?thesis
      by (intro that [of "update_rows (\<lambda>x. rs_user x = u \<and> rs_unit x = i \<and> rs_revision x = mu_expected m)
        (\<lambda>x. room_row e u i (mu_op m) (Some x) p) (rooms db)"])
        (cases verdict; simp add: save_room_def Let_def add_def split: if_splits)+
  qed
  with assms(1) show ?thesis by (simp add: add gone_write)
qed

lemma gone_mutate_room:
  assumes "gone db v" "mutate_room e l us i ci m db = Inr (en, db')"
  shows "gone db' v"
  using assms(2)
proof (cases rule: mutate_room_cases)
  case (change content un solved cur p verdict db2 db3)
  have ne: "us_id us \<noteq> v" using change(5) assms(1) gone_erased by auto
  have "gone db2 v" using change(12)
    by (cases rule: apply_op_cases) (use assms(1) ne gone_enqueue in auto)
  then have "gone db3 v" using change(14) ne gone_start_unit by auto
  with ne change(15) show ?thesis by (blast intro: gone_save_room)
qed (use assms(1) in auto)

interpretation room_steps: guarded room_step
  by unfold_locales (auto simp: room_step_def intro: gone_committed gone_mutate_room)

section \<open>Examples\<close>

text \<open>A path with an introduction, a graded room with a milestone and a unit of the engine.\<close>

definition graded_unit :: unit_def where
  "graded_unit = (example_unit ''essay'' ''one'')\<lparr>un_completion := Some (Llm_verdict ''rubric'' (replicate 64 (CHR ''a''))),
     un_profiles := [''rubric''], un_milestone := Some \<lparr>mi_skill = ''writing'', mi_xp = 20\<rparr>\<rparr>"

definition quest_unit :: unit_def where
  "quest_unit = (example_unit ''quest'' ''two'')\<lparr>un_room := Custom_room, un_completion := Some Engine_completion,
     un_module := Some ''quest-module''\<rparr>"

definition room_catalogue :: catalogue where
  "room_catalogue = example_catalogue\<lparr>ct_paths := map (\<lambda>p. p\<lparr>pa_units := [''a'', ''essay'', ''quest'']\<rparr>) (ct_paths example_catalogue),
     ct_units := [example_unit ''a'' ''one'', graded_unit, quest_unit]\<rparr>"

definition room_env :: env where
  "room_env = example_env\<lparr>en_rooms_enabled := True, en_policy_enabled := False, en_content := Some room_catalogue,
     en_engine_enabled := True, en_content_origin := Some ''https://content'', en_sha256 := (\<lambda>b. replicate 64 (CHR ''b''))\<rparr>"

definition example_document :: server_document where
  "example_document = \<lparr>sd_format = 1, sd_engine = ustr ''2.1'', sd_unit = ''quest'', sd_kernel_id = ustr ''k'', sd_kernel_version = ustr ''1'',
     sd_rule = \<lparr>br_bands = [''easy'', ''hard''], br_initial = ''easy'', br_lower = 2, br_raise = 2\<rparr>,
     sd_tasks = [\<lparr>dt_goal = ''goal'', dt_subskill = ''loops'', dt_concepts = [], dt_xp = 15, dt_required = True,
       dt_input = Program_input, dt_criteria = [ustr ''done''], dt_feedback = [(ustr ''again'', [(ustr ''de'', ustr ''Nochmal'')])],
       dt_practice = [(''easy'', \<lparr>pc_case = ''c1'', pc_config = JObj [], pc_initial = JObj []\<rparr>),
         (''hard'', \<lparr>pc_case = ''c2'', pc_config = JObj [], pc_initial = JObj []\<rparr>)]\<rparr>],
     sd_runner = \<lparr>rn_main = \<lparr>sf_name = ''main.js'', sf_content = []\<rparr>, rn_parts = [], rn_sha256 = ''h''\<rparr>\<rparr>"

definition example_revision :: engine_revision where
  "example_revision = \<lparr>er_id = ''rev1'', er_unit = ''quest'', er_number = 1, er_active_for = Some ''quest'',
     er_module = ''quest-module'', er_package = ''pk'', er_manifest = ''mf'', er_entry = ''index.html'',
     er_document = example_document, er_server_sha = ''sha'', er_evidence = ''ev'',
     er_tasks = [\<lparr>tt_goal = ''goal'', tt_required = True, tt_xp = 15, tt_subskill = ''loops'', tt_input = Program_input\<rparr>],
     er_created = 0\<rparr>"

definition room_in :: "string \<Rightarrow> int \<Rightarrow> room_status \<Rightarrow> room_state" where
  "room_in i n st = \<lparr>rs_user = ''u'', rs_unit = i, rs_revision = n, rs_state = JObj [], rs_status = st,
     rs_result = (if st = Completed then Some Introduced else None), rs_updated = 0, rs_review_id = None,
     rs_review_status = None, rs_review_started = None\<rparr>"

definition save_request :: "int \<Rightarrow> string \<Rightarrow> mutation" where
  "save_request n r = \<lparr>mu_request = r, mu_expected = n, mu_op = Save_state None (JObj [])\<rparr>"

definition review_request :: "int \<Rightarrow> mutation" where
  "review_request n = \<lparr>mu_request = ''r'', mu_expected = n, mu_op = Start_review\<rparr>"

definition essay_answer :: complete_data where
  "essay_answer = \<lparr>cd_review = None, cd_attempt = None, cd_action = Do_complete,
     cd_answer = JObj [(ustr ''text'', JStr [72, 105])], cd_verdict = Some ''token''\<rparr>"

definition essay_request :: mutation where
  "essay_request = \<lparr>mu_request = ''r'', mu_expected = 0, mu_op = Complete_room essay_answer\<rparr>"

lemma no_room_update_lost_witness:
  "swapped ''u'' ''a'' [(room_env, example_llm, example_user, ''a'', None, save_request 0 ''r1''),
      (room_env, example_llm, example_user, ''a'', None, save_request 0 ''r2'')] empty_db = [0] \<and>
   room_revision (fold room_step [(room_env, example_llm, example_user, ''a'', None, save_request 0 ''r1''),
      (room_env, example_llm, example_user, ''a'', None, save_request 0 ''r2'')] empty_db) ''u'' ''a'' = 1"
proof -
  let ?cs = "[(room_env, example_llm, example_user, ''a'', None, save_request 0 ''r1''),
      (room_env, example_llm, example_user, ''a'', None, save_request 0 ''r2'')]"
  have s: "swapped ''u'' ''a'' ?cs empty_db = [0]" by code_simp
  have "unique_by room_key (rooms empty_db)" "room_revision empty_db ''u'' ''a'' = 0" by code_simp+
  with no_room_update_lost [of empty_db "''u''" "''a''" ?cs] show ?thesis unfolding s by simp
qed

lemma finished_room_stays_witness:
  "\<exists>en db' r'. mutate_room room_env example_llm example_user ''a'' None (review_request 3)
      (empty_db\<lparr>rooms := [room_in ''a'' 3 Completed]\<rparr>) = Inr (en, db') \<and> room_of db' ''u'' ''a'' = Some r' \<and>
    rs_status r' = Completed \<and> rs_result r' = Some Introduced"
proof -
  let ?db = "empty_db\<lparr>rooms := [room_in ''a'' 3 Completed]\<rparr>"
  let ?run = "mutate_room room_env example_llm example_user ''a'' None (review_request 3) ?db"
  have "case ?run of Inl er \<Rightarrow> False | Inr x \<Rightarrow> True" by code_simp
  then obtain en db' where run: "?run = Inr (en, db')" by (auto split: sum.splits)
  have "\<exists>r'. room_of db' ''u'' ''a'' = Some r' \<and> rs_status r' = rs_status (room_in ''a'' 3 Completed) \<and>
    (rs_status (room_in ''a'' 3 Completed) = Completed \<longrightarrow> rs_result r' = rs_result (room_in ''a'' 3 Completed))"
    by (rule finished_room_stays [OF run]) code_simp+
  with run show ?thesis by (auto simp: room_in_def)
qed

lemma engine_room_not_completed_by_client_witness:
  "\<exists>en db' r r'. mutate_room room_env example_llm example_user ''quest'' None (save_request 3 ''r'')
      (empty_db\<lparr>rooms := [room_in ''quest'' 3 Completed], revisions := [example_revision]\<rparr>) = Inr (en, db') \<and>
    room_of db' ''u'' ''quest'' = Some r' \<and> finished (rs_status r') \<and>
    room_of (empty_db\<lparr>rooms := [room_in ''quest'' 3 Completed], revisions := [example_revision]\<rparr>) ''u'' ''quest'' = Some r \<and>
    finished (rs_status r)"
proof -
  let ?db = "empty_db\<lparr>rooms := [room_in ''quest'' 3 Completed], revisions := [example_revision]\<rparr>"
  let ?run = "mutate_room room_env example_llm example_user ''quest'' None (save_request 3 ''r'') ?db"
  have "case ?run of Inl er \<Rightarrow> False | Inr (en, db') \<Rightarrow> (case room_of db' ''u'' ''quest'' of None \<Rightarrow> False
      | Some r \<Rightarrow> finished (rs_status r))" by code_simp
  then obtain en db' r' where run: "?run = Inr (en, db')" "room_of db' ''u'' ''quest'' = Some r'" "finished (rs_status r')"
    by (auto split: sum.splits option.splits)
  have cat: "case catalogue_of room_env ?db False of Inl er \<Rightarrow> False | Inr c \<Rightarrow> distinct (map un_id (ct_units c)) \<and>
      quest_unit \<in> set (ct_units c)" by code_simp
  then obtain c where c: "catalogue_of room_env ?db False = Inr c" "distinct (map un_id (ct_units c))" "quest_unit \<in> set (ct_units c)"
    by (auto split: sum.splits)
  have u: "us_id example_user = ''u''" by (simp add: example_user_def)
  have unique: "unique_by room_key (rooms ?db)" by code_simp
  have q: "un_id quest_unit = ''quest''" "is_engine_unit quest_unit" "un_exercise quest_unit = None" by code_simp+
  have "\<exists>r. room_of ?db (us_id example_user) ''quest'' = Some r \<and> finished (rs_status r)"
    by (rule engine_room_not_completed_by_client [OF run(1) unique c q _ run(3)]) (simp add: u run(2))
  with run u show ?thesis by auto
qed

lemma graded_room_needs_fresh_pass_witness:
  "\<exists>en db'. mutate_room room_env example_llm example_user ''essay'' None essay_request empty_db = Inr (en, db') \<and>
    (\<exists>c token ans t. cd_verdict essay_answer = Some token \<and> answer_text (cd_answer essay_answer) = Some ans \<and>
        verify_verdict room_env example_llm token (us_id example_user) ''essay'' ''rubric'' (replicate 64 (CHR ''a'')) None ans t = Inr c \<and>
        cl_passed c \<and> \<not> verdict_used empty_db (us_id example_user) (cl_request c) \<and>
        verdict_used db' (us_id example_user) (cl_request c))"
proof -
  let ?run = "mutate_room room_env example_llm example_user ''essay'' None essay_request empty_db"
  have "case ?run of Inl er \<Rightarrow> False | Inr x \<Rightarrow> True" by code_simp
  then obtain en db' where run: "?run = Inr (en, db')" by (auto split: sum.splits)
  have "case catalogue_of room_env empty_db False of Inl er \<Rightarrow> False | Inr c \<Rightarrow> distinct (map un_id (ct_units c)) \<and>
      graded_unit \<in> set (ct_units c)" by code_simp
  then obtain c where c: "catalogue_of room_env empty_db False = Inr c" "distinct (map un_id (ct_units c))" "graded_unit \<in> set (ct_units c)"
    by (auto split: sum.splits)
  have r: "receipt_of empty_db (us_id example_user) (mu_request essay_request) = None" by code_simp
  have m: "mu_op essay_request = Complete_room essay_answer" "cd_action essay_answer = Do_complete" by code_simp+
  have g: "un_id graded_unit = ''essay''" "un_completion graded_unit = Some (Llm_verdict ''rubric'' (replicate 64 (CHR ''a'')))"
    "un_exercise graded_unit = None" "\<not> fallback_completion graded_unit essay_answer" by code_simp+
  from graded_room_needs_fresh_pass [OF run m r c g(1-3)] g(4) have
    "\<exists>c token ans t. cd_verdict essay_answer = Some token \<and> answer_text (cd_answer essay_answer) = Some ans \<and>
        verify_verdict room_env example_llm token (us_id example_user) ''essay'' ''rubric'' (replicate 64 (CHR ''a'')) None ans t = Inr c \<and>
        cl_passed c \<and> \<not> verdict_used empty_db (us_id example_user) (cl_request c) \<and>
        verdict_used db' (us_id example_user) (cl_request c)" by blast
  with run show ?thesis by blast
qed

lemma room_request_once_witness:
  "\<exists>en db1 en' db3. mutate_room room_env example_llm example_user ''a'' None (save_request 0 ''r'') empty_db = Inr (en, db1) \<and>
    mutate_room room_env example_llm example_user ''a'' None (save_request 0 ''r'') db1 = Inr (en', db3) \<and>
    re_progress en' = re_progress en \<and> pg_revision (re_progress en) = 1 \<and> db3 = snd (lock_user db1 ''u'')"
proof -
  let ?run = "mutate_room room_env example_llm example_user ''a'' None (save_request 0 ''r'')"
  have "case ?run empty_db of Inl er \<Rightarrow> False | Inr (en, db1) \<Rightarrow> (case ?run db1 of Inl er \<Rightarrow> False
      | Inr p \<Rightarrow> pg_revision (re_progress en) = 1 \<and> room_requests db1 \<noteq> [])" by code_simp
  then obtain en db1 where first: "?run empty_db = Inr (en, db1)" "case ?run db1 of Inl er \<Rightarrow> False
      | Inr p \<Rightarrow> pg_revision (re_progress en) = 1 \<and> room_requests db1 \<noteq> []"
    by (cases "?run empty_db") auto
  from first(2) obtain en' db3 where run: "?run empty_db = Inr (en, db1)" "?run db1 = Inr (en', db3)"
    "pg_revision (re_progress en) = 1" "room_requests db1 \<noteq> []"
    using first(1) by (cases "?run db1") auto
  have ok: "rooms_ok empty_db" by (simp add: rooms_ok_def unique_by_def empty_db_def)
  have "room_requests (snd (lock_user empty_db (us_id example_user))) = []" by (simp add: empty_db_def)
  then have ne: "db1 \<noteq> snd (lock_user empty_db (us_id example_user))" using run(4) by metis
  from room_request_once [OF ok run(1) ne refl run(2) refl refl] run show ?thesis
    by (auto simp: example_user_def)
qed

lemma room_needs_access_witness:
  "\<exists>en. get_room room_env empty_db example_user ''a'' None = Inr en \<and> pb_id (re_unit en) = ''a''"
proof -
  have "case get_room room_env empty_db example_user ''a'' None of Inl er \<Rightarrow> False | Inr en \<Rightarrow> True" by code_simp
  then obtain en where run: "get_room room_env empty_db example_user ''a'' None = Inr en" by (auto split: sum.splits)
  from room_needs_access [OF run] run show ?thesis by blast
qed

lemma milestone_needs_checked_pass_witness:
  "\<exists>en db' r. mutate_room room_env example_llm example_user ''essay'' None essay_request empty_db = Inr (en, db') \<and>
    milestone_of db' (us_id example_user) ''essay'' = Some r \<and> ms_state r = Pending"
proof -
  let ?run = "mutate_room room_env example_llm example_user ''essay'' None essay_request empty_db"
  have "case ?run of Inl er \<Rightarrow> False | Inr (en, db') \<Rightarrow> milestone_of db' (us_id example_user) ''essay'' \<noteq> None" by code_simp
  then obtain en db' r where run: "?run = Inr (en, db')" "milestone_of db' (us_id example_user) ''essay'' = Some r"
    by (auto split: sum.splits)
  have "milestone_of empty_db (us_id example_user) ''essay'' = None" by code_simp
  from milestone_needs_checked_pass [OF run(1) this run(2)] have "ms_state r = Pending" by blast
  with run show ?thesis by blast
qed

end
