(* ===== verification/Documents.thy ===== *)
theory Documents
  imports Rooms
begin

text \<open>
  Package revisions of the lesson engine (\<^verbatim>\<open>services/engine.py\<close>, \<^verbatim>\<open>schemas/engine.py\<close>): the server document an
  operator publishes and its validators, the schema of a submitted plan, and the publication of a revision. At most
  one revision of a unit is active; a later one keeps the tasks, their XP and the bands of the active one.

  Identifiers of the document are ASCII by their patterns; the sub-skill of a task is a text that must name a row.
\<close>

section \<open>Reading a document\<close>

definition exact_keys :: "string list \<Rightarrow> json \<Rightarrow> bool" where
  "exact_keys ks v \<longleftrightarrow> (case v of JObj es \<Rightarrow> set (map fst es) = set (map ustr ks) | _ \<Rightarrow> False)"

definition the_list :: "json option \<Rightarrow> json list option" where
  "the_list v = (case v of Some (JArr vs) \<Rightarrow> Some vs | _ \<Rightarrow> None)"

definition the_entries :: "json option \<Rightarrow> (ustr \<times> json) list option" where
  "the_entries v = (case v of Some (JObj es) \<Rightarrow> Some es | _ \<Rightarrow> None)"

definition all_of :: "('a \<Rightarrow> 'b option) \<Rightarrow> 'a list \<Rightarrow> 'b list option" where
  "all_of f xs = those (map f xs)"

definition ascii :: "ustr \<Rightarrow> string option" where
  "ascii s = json_string (Some (JStr s))"

text \<open>A text whose characters a sub-skill id can have.\<close>

definition latin :: "ustr \<Rightarrow> string option" where
  "latin s = (if list_all (\<lambda>c. c < 256) s then Some (map char_of s) else None)"

definition engine_id :: "json option \<Rightarrow> string option" where
  "engine_id v = require_that slug (json_string v)"

definition bounded_int :: "int \<Rightarrow> int \<Rightarrow> json option \<Rightarrow> int option" where
  "bounded_int lo hi v = require_that (\<lambda>n. lo \<le> n \<and> n \<le> hi) (json_int v)"

definition bounded_text :: "nat \<Rightarrow> nat \<Rightarrow> json option \<Rightarrow> ustr option" where
  "bounded_text lo hi v = require_that (\<lambda>s. lo \<le> length s \<and> length s \<le> hi) (json_text v)"

definition valid_rule :: "band_rule \<Rightarrow> bool" where
  "valid_rule r \<longleftrightarrow> br_bands r \<noteq> [] \<and> length (br_bands r) \<le> 20 \<and> 2 \<le> br_lower r \<and> br_lower r \<le> 1000 \<and>
     2 \<le> br_raise r \<and> br_raise r \<le> 1000 \<and> distinct (br_bands r) \<and> br_initial r \<in> set (br_bands r)"

definition parse_rule :: "json \<Rightarrow> band_rule option" where
  "parse_rule v = (if \<not> exact_keys [''bands'', ''initial'', ''lowerAfter'', ''raiseAfter''] v then None else
     Option.bind (Option.bind (the_list (jget ''bands'' v)) (all_of (\<lambda>b. engine_id (Some b)))) (\<lambda>bs.
     Option.bind (engine_id (jget ''initial'' v)) (\<lambda>i.
     Option.bind (json_int (jget ''lowerAfter'' v)) (\<lambda>lo.
     Option.bind (json_int (jget ''raiseAfter'' v)) (\<lambda>hi.
     require_that valid_rule (Some \<lparr>br_bands = bs, br_initial = i, br_lower = lo, br_raise = hi\<rparr>))))))"

definition parse_practice :: "json \<Rightarrow> practice option" where
  "parse_practice v = (if \<not> exact_keys [''caseId'', ''config'', ''initial''] v then None else
     Option.bind (engine_id (jget ''caseId'' v)) (\<lambda>c.
     Option.bind (the_entries (jget ''config'' v)) (\<lambda>es.
     Option.bind (jget ''initial'' v) (\<lambda>i. Some \<lparr>pc_case = c, pc_config = JObj es, pc_initial = i\<rparr>))))"

definition parse_texts :: "json \<Rightarrow> (ustr \<times> ustr) list option" where
  "parse_texts v = Option.bind (the_entries (Some v)) (all_of (\<lambda>(k, t). map_option (\<lambda>s. (k, s)) (json_text (Some t))))"

definition input_kind_of :: "json option \<Rightarrow> input_kind option" where
  "input_kind_of v = (if v = Some (js ''program'') then Some Program_input
     else if v = Some (js ''actions'') then Some Actions_input else None)"

definition parse_task :: "json \<Rightarrow> doc_task option" where
  "parse_task v = (if \<not> exact_keys [''goalId'', ''subskillId'', ''concepts'', ''xp'', ''required'', ''input'', ''criteria'',
       ''feedback'', ''practice''] v then None else
     Option.bind (engine_id (jget ''goalId'' v)) (\<lambda>g.
     Option.bind (Option.bind (bounded_text 1 256 (jget ''subskillId'' v)) latin) (\<lambda>sk.
     Option.bind (Option.bind (the_list (jget ''concepts'' v)) (all_of (\<lambda>c. json_text (Some c)))) (\<lambda>cs.
     Option.bind (bounded_int 0 SAFE_INTEGER (jget ''xp'' v)) (\<lambda>n.
     Option.bind (json_bool (jget ''required'' v)) (\<lambda>rq.
     Option.bind (input_kind_of (jget ''input'' v)) (\<lambda>inp.
     Option.bind (require_that (\<lambda>l. l \<noteq> []) (Option.bind (the_list (jget ''criteria'' v))
       (all_of (\<lambda>c. json_text (Some c))))) (\<lambda>cr.
     Option.bind (Option.bind (the_entries (jget ''feedback'' v))
       (all_of (\<lambda>(k, t). map_option (\<lambda>ts. (k, ts)) (parse_texts t)))) (\<lambda>fb.
     Option.bind (Option.bind (the_entries (jget ''practice'' v))
       (all_of (\<lambda>(k, p). Option.bind (ascii k) (\<lambda>b. map_option (\<lambda>x. (b, x)) (parse_practice p))))) (\<lambda>pr.
     Some \<lparr>dt_goal = g, dt_subskill = sk, dt_concepts = cs, dt_xp = n, dt_required = rq, dt_input = inp,
       dt_criteria = cr, dt_feedback = fb, dt_practice = pr\<rparr>))))))))))"

definition SANDBOX_FILE_CHARS :: nat where "SANDBOX_FILE_CHARS = 65536"
definition SANDBOX_FILES :: nat where "SANDBOX_FILES = 10"

definition file_name :: "string \<Rightarrow> bool" where
  "file_name s \<longleftrightarrow> s \<noteq> [] \<and> length s \<le> 32 \<and> list_all (\<lambda>c. slug_char c \<or> CHR ''A'' \<le> c \<and> c \<le> CHR ''Z'' \<or>
     c = CHR ''.'' \<or> c = CHR ''_'' \<or> c = CHR ''-'') s"

definition parse_file :: "json \<Rightarrow> sandbox_file option" where
  "parse_file v = (if \<not> exact_keys [''name'', ''content''] v then None else
     Option.bind (require_that file_name (json_string (jget ''name'' v))) (\<lambda>n.
     Option.bind (bounded_text 0 SANDBOX_FILE_CHARS (jget ''content'' v)) (\<lambda>c.
     Some \<lparr>sf_name = n, sf_content = c\<rparr>)))"

definition parse_runner :: "json \<Rightarrow> runner option" where
  "parse_runner v = (if \<not> exact_keys [''main'', ''parts'', ''sha256''] v then None else
     Option.bind (Option.bind (jget ''main'' v) parse_file) (\<lambda>m.
     Option.bind (require_that (\<lambda>ps. ps \<noteq> [] \<and> length ps \<le> SANDBOX_FILES \<and>
         list_all (\<lambda>p. list_all (\<lambda>c. c < 128) (sf_content p)) ps)
       (Option.bind (the_list (jget ''parts'' v)) (all_of parse_file))) (\<lambda>ps.
     Option.bind (require_that hex_hash (json_string (jget ''sha256'' v))) (\<lambda>h.
     Some \<lparr>rn_main = m, rn_parts = ps, rn_sha256 = h\<rparr>))))"

text \<open>\<open>tasks_cover_bands\<close>.\<close>

definition tasks_cover_bands :: "band_rule \<Rightarrow> doc_task list \<Rightarrow> bool" where
  "tasks_cover_bands r ts \<longleftrightarrow> distinct (map dt_goal ts) \<and> list_ex dt_required ts \<and>
     list_all (\<lambda>t. set (map fst (dt_practice t)) = set (br_bands r)) ts"

definition parse_document :: "json \<Rightarrow> server_document option" where
  "parse_document v = (if \<not> exact_keys [''formatVersion'', ''engine'', ''unitId'', ''kernel'', ''bandRule'', ''tasks'', ''runner''] v
     then None else
     Option.bind (bounded_int 1 1 (jget ''formatVersion'' v)) (\<lambda>f.
     Option.bind (bounded_text 1 40 (jget ''engine'' v)) (\<lambda>en.
     Option.bind (engine_id (jget ''unitId'' v)) (\<lambda>un.
     Option.bind (require_that (exact_keys [''id'', ''version'']) (jget ''kernel'' v)) (\<lambda>k.
     Option.bind (bounded_text 1 80 (jget ''id'' k)) (\<lambda>kid.
     Option.bind (bounded_text 1 40 (jget ''version'' k)) (\<lambda>kv.
     Option.bind (Option.bind (jget ''bandRule'' v) parse_rule) (\<lambda>r.
     Option.bind (require_that (\<lambda>ts. ts \<noteq> [] \<and> length ts \<le> 20)
       (Option.bind (the_list (jget ''tasks'' v)) (all_of parse_task))) (\<lambda>ts.
     Option.bind (Option.bind (jget ''runner'' v) parse_runner) (\<lambda>rn.
     if \<not> tasks_cover_bands r ts then None
     else Some \<lparr>sd_format = f, sd_engine = en, sd_unit = un, sd_kernel_id = kid, sd_kernel_version = kv, sd_rule = r,
       sd_tasks = ts, sd_runner = rn\<rparr>))))))))))"

text \<open>What every stored document has.\<close>

definition valid_document :: "server_document \<Rightarrow> bool" where
  "valid_document d \<longleftrightarrow> valid_rule (sd_rule d) \<and> sd_tasks d \<noteq> [] \<and> tasks_cover_bands (sd_rule d) (sd_tasks d) \<and>
     list_all (\<lambda>t. 0 \<le> dt_xp t \<and> dt_xp t \<le> SAFE_INTEGER \<and> dt_criteria t \<noteq> []) (sd_tasks d)"

lemma require_that_Some: "require_that P v = Some x \<longleftrightarrow> v = Some x \<and> P x"
  by (auto simp: require_that_def split: option.splits)

lemma all_of_Some: "all_of f xs = Some ys \<Longrightarrow> y \<in> set ys \<Longrightarrow> \<exists>x\<in>set xs. f x = Some y"
  unfolding all_of_def by (induction xs arbitrary: ys) (auto split: option.splits)

lemma parse_task_valid: "parse_task v = Some t \<Longrightarrow> 0 \<le> dt_xp t \<and> dt_xp t \<le> SAFE_INTEGER \<and> dt_criteria t \<noteq> []"
  by (auto simp: parse_task_def bind_eq_Some_conv require_that_Some bounded_int_def split: if_splits)

lemma parse_rule_valid: "parse_rule v = Some r \<Longrightarrow> valid_rule r"
  by (auto simp: parse_rule_def bind_eq_Some_conv require_that_Some split: if_splits)

lemma parse_tasks_valid: "all_of parse_task xs = Some ts \<Longrightarrow>
    \<forall>t\<in>set ts. 0 \<le> dt_xp t \<and> dt_xp t \<le> SAFE_INTEGER \<and> dt_criteria t \<noteq> []"
  using all_of_Some parse_task_valid by fast

lemma parse_document_valid: "parse_document v = Some d \<Longrightarrow> valid_document d"
  by (auto simp: parse_document_def valid_document_def bind_eq_Some_conv require_that_Some list_all_iff
    dest!: parse_rule_valid parse_tasks_valid split: if_splits)

section \<open>Publishing a revision\<close>

record revision_request =
  rv_unit :: string
  rv_package :: string
  rv_manifest :: string
  rv_entry :: string
  rv_evidence :: string
  rv_server_sha :: string
  rv_document :: json

record published =
  pu_revision :: string
  pu_number :: nat
  pu_created :: bool

definition MAX_DOCUMENT_BYTES :: nat where "MAX_DOCUMENT_BYTES = 1024 * 1024"

definition task_terms :: "server_document \<Rightarrow> task_term list" where
  "task_terms d = map (\<lambda>t. \<lparr>tt_goal = dt_goal t, tt_required = dt_required t, tt_xp = dt_xp t, tt_subskill = dt_subskill t,
     tt_input = dt_input t\<rparr>) (sd_tasks d)"

text \<open>\<open>_bound\<close>: the dictionary by goal, as the set of its entries; goals of a document are distinct.\<close>

definition bound_terms :: "task_term list \<Rightarrow> (string \<times> bool \<times> int \<times> string \<times> input_kind) set" where
  "bound_terms ts = set (map (\<lambda>t. (tt_goal t, tt_required t, tt_xp t, tt_subskill t, tt_input t)) ts)"

definition checked_document :: "env \<Rightarrow> revision_request \<Rightarrow> unit_def \<Rightarrow> server_document result" where
  "checked_document e d un = (case canonical (rv_document d) of
     Inl er \<Rightarrow> Inl (Http 422 ''no canonical form'')
   | Inr bytes \<Rightarrow>
     if length bytes > MAX_DOCUMENT_BYTES then Inl (Http 413 ''document too large'')
     else if en_sha256 e bytes \<noteq> rv_server_sha d then Inl (Http 422 ''not the hash of the document'')
     else case parse_document (rv_document d) of None \<Rightarrow> Inl (Http 422 ''invalid document'')
     | Some doc \<Rightarrow>
       let names = sf_name (rn_main (sd_runner doc)) # map sf_name (rn_parts (sd_runner doc));
           parts = concat (map sf_content (rn_parts (sd_runner doc)))
       in if sd_unit doc \<noteq> un_id un then Inl (Http 422 ''document of another unit'')
          else if \<not> distinct names then Inl (Http 422 ''file names repeat'')
          else if en_sha256 e parts \<noteq> rn_sha256 (sd_runner doc) then Inl (Http 422 ''parts do not match'')
          else Inr doc)"

definition same_content :: "revision_request \<Rightarrow> engine_revision \<Rightarrow> bool" where
  "same_content d r \<longleftrightarrow> er_server_sha r = rv_server_sha d \<and> er_package r = rv_package d"

definition activate :: "string \<Rightarrow> string \<Rightarrow> engine_revision list \<Rightarrow> engine_revision list" where
  "activate un rid t = map (\<lambda>r. if er_unit r = un \<and> er_id r = rid then r\<lparr>er_active_for := Some un\<rparr> else r) t"

definition deactivate :: "string \<Rightarrow> string \<Rightarrow> engine_revision list \<Rightarrow> engine_revision list" where
  "deactivate un rid t = map (\<lambda>r. if er_unit r = un \<and> er_id r = rid then r\<lparr>er_active_for := None\<rparr> else r) t"

text \<open>The part under the lock of the registry row.\<close>

definition publish_document :: "env \<Rightarrow> revision_request \<Rightarrow> unit_def \<Rightarrow> string \<Rightarrow> server_document \<Rightarrow> published handler" where
  "publish_document e d un mid doc db =
    (let own = all_rows (\<lambda>r. er_unit r = un_id un) (revisions db);
         active = first_row (\<lambda>r. er_active_for r \<noteq> None) own; tasks = task_terms doc;
         same = first_row (same_content d) own
     in if (case active of None \<Rightarrow> False | Some a \<Rightarrow> bound_terms (er_tasks a) \<noteq> bound_terms tasks)
        then Inl (Http 409 ''terms of the tasks changed'')
        else if (case active of None \<Rightarrow> False | Some a \<Rightarrow> br_bands (sd_rule (er_document a)) \<noteq> br_bands (sd_rule doc))
        then Inl (Http 409 ''bands changed'')
        else if (case same of None \<Rightarrow> False | Some s \<Rightarrow>
            (er_manifest s, er_entry s, er_evidence s) \<noteq> (rv_manifest d, rv_entry d, rv_evidence d))
        then Inl (Http 409 ''published with another manifest'')
        else
          let t = (case active of None \<Rightarrow> revisions db
                | Some a \<Rightarrow> if same = Some a then revisions db else deactivate (un_id un) (er_id a) (revisions db))
          in case same of
            Some s \<Rightarrow> Inr (\<lparr>pu_revision = er_id s, pu_number = er_number s, pu_created = False\<rparr>,
              db\<lparr>revisions := activate (un_id un) (er_id s) t\<rparr>)
          | None \<Rightarrow>
            let row = \<lparr>er_id = en_fresh e 1, er_unit = un_id un, er_number = foldr max (map er_number own) 0 + 1,
                  er_active_for = Some (un_id un), er_module = mid, er_package = rv_package d, er_manifest = rv_manifest d,
                  er_entry = rv_entry d, er_document = doc, er_server_sha = rv_server_sha d, er_evidence = rv_evidence d,
                  er_tasks = tasks, er_created = en_now e\<rparr>
            in Inr (\<lparr>pu_revision = er_id row, pu_number = er_number row, pu_created = True\<rparr>,
              db\<lparr>revisions := add_row row t\<rparr>))"

definition publish :: "env \<Rightarrow> revision_request \<Rightarrow> published handler" where
  "publish e d db = bind_r (catalogue_of e db True) (\<lambda>content.
     case find (\<lambda>u. un_id u = rv_unit d \<and> \<not> un_retired u) (ct_units content) of
       None \<Rightarrow> Inl (Http 404 ''no engine unit'')
     | Some un \<Rightarrow>
       if \<not> is_engine_unit un then Inl (Http 404 ''no engine unit'')
       else case un_module un of None \<Rightarrow> Inl (Http 404 ''no engine unit'')
       | Some mid \<Rightarrow> bind_r (checked_document e d un) (\<lambda>doc.
           if \<not> set (map tt_subskill (task_terms doc)) \<subseteq> set (map sk_id (sub_skills db))
           then Inl (Http 422 ''unknown sub-skills'')
           else if row_by lm_id mid (modules db) = None then Inl (Http 409 ''register the module first'')
           else publish_document e d un mid doc db))"

section \<open>At most one active revision\<close>

text \<open>
  The constraints of the table: ids and, per unit, numbers and contents are unique; a row is active for its own unit
  only, and at most one of a unit.
\<close>

definition revision_keys :: "engine_revision list \<Rightarrow> bool" where
  "revision_keys t \<longleftrightarrow> unique_by er_id t \<and> unique_by (\<lambda>r. (er_unit r, er_number r)) t \<and>
     unique_by (\<lambda>r. (er_unit r, er_server_sha r, er_package r)) t"

definition revision_ok :: "engine_revision \<Rightarrow> bool" where
  "revision_ok r \<longleftrightarrow> (er_active_for r = None \<or> er_active_for r = Some (er_unit r)) \<and> 1 \<le> er_number r \<and>
     er_tasks r = task_terms (er_document r)"

definition one_active :: "engine_revision list \<Rightarrow> bool" where
  "one_active t \<longleftrightarrow> (\<forall>r\<in>set t. \<forall>s\<in>set t.
     er_active_for r \<noteq> None \<longrightarrow> er_active_for s \<noteq> None \<longrightarrow> er_unit r = er_unit s \<longrightarrow> r = s)"

definition revisions_ok :: "engine_revision list \<Rightarrow> bool" where
  "revisions_ok t \<longleftrightarrow> revision_keys t \<and> list_all revision_ok t \<and> one_active t"

lemma one_activeD:
  "one_active t \<Longrightarrow> r \<in> set t \<Longrightarrow> s \<in> set t \<Longrightarrow> er_active_for r \<noteq> None \<Longrightarrow> er_active_for s \<noteq> None \<Longrightarrow>
    er_unit r = er_unit s \<Longrightarrow> r = s"
  unfolding one_active_def by blast

lemma revision_ok_activate: "revision_ok r \<Longrightarrow> revision_ok (r\<lparr>er_active_for := Some (er_unit r)\<rparr>)"
  by (simp add: revision_ok_def)

lemma activate_set: "set (activate un rid t) = (\<lambda>r. if er_unit r = un \<and> er_id r = rid then r\<lparr>er_active_for := Some un\<rparr> else r) ` set t"
  by (simp add: activate_def)

lemma deactivate_set: "set (deactivate un rid t) = (\<lambda>r. if er_unit r = un \<and> er_id r = rid then r\<lparr>er_active_for := None\<rparr> else r) ` set t"
  by (simp add: deactivate_def)

lemma number_fresh: "r \<in> set own \<Longrightarrow> er_number r < foldr max (map er_number own) 0 + 1"
  by (induction own) auto

text \<open>The rows after a publication: those before with other activity, and possibly a new one.\<close>

definition dormant :: "engine_revision \<Rightarrow> engine_revision" where
  "dormant r = r\<lparr>er_active_for := None\<rparr>"

lemma map_dormant: "map dormant (activate un rid t) = map dormant t" "map dormant (deactivate un rid t) = map dormant t"
  by (simp_all add: activate_def deactivate_def dormant_def)

lemma unique_by_dormant:
  assumes "map dormant t = map dormant t'" "\<And>r. k (dormant r) = k r"
  shows "unique_by k t = unique_by k t'"
proof -
  have k: "map k x = map k (map dormant x)" for x using assms(2) by simp
  show ?thesis unfolding unique_by_def by (subst (1 2) k) (simp only: assms(1))
qed

lemma revision_keys_dormant: "map dormant t = map dormant t' \<Longrightarrow> revision_keys t = revision_keys t'"
  using unique_by_dormant [of t t' er_id] unique_by_dormant [of t t' "\<lambda>r. (er_unit r, er_number r)"]
    unique_by_dormant [of t t' "\<lambda>r. (er_unit r, er_server_sha r, er_package r)"]
  by (simp add: revision_keys_def dormant_def)

text \<open>
  The table that is left once the former active row of the unit made room: \<open>keep\<close> is the id of the row that may
  stay active.
\<close>

definition made_room :: "string \<Rightarrow> string option \<Rightarrow> engine_revision list \<Rightarrow> engine_revision list \<Rightarrow> bool" where
  "made_room un keep t t' \<longleftrightarrow> map dormant t' = map dormant t \<and>
     (\<forall>r\<in>set t'. er_unit r \<noteq> un \<longrightarrow> r \<in> set t) \<and> (\<forall>r\<in>set t. er_unit r \<noteq> un \<longrightarrow> r \<in> set t') \<and>
     (\<forall>r\<in>set t'. er_active_for r = None \<or> r \<in> set t) \<and>
     (\<forall>r\<in>set t'. er_unit r = un \<longrightarrow> er_active_for r \<noteq> None \<longrightarrow> keep = Some (er_id r))"

lemma made_room_publish:
  assumes "one_active t" "active = first_row (\<lambda>r. er_active_for r \<noteq> None) (all_rows (\<lambda>r. er_unit r = un) t)"
  shows "made_room un (map_option er_id same) t (case active of None \<Rightarrow> t
    | Some a \<Rightarrow> if same = Some a then t else deactivate un (er_id a) t)"
proof (cases active)
  case None
  with assms(2) have "\<forall>r\<in>set t. er_unit r = un \<longrightarrow> er_active_for r = None"
    using first_row_None [of "\<lambda>r. er_active_for r \<noteq> None" "all_rows (\<lambda>r. er_unit r = un) t"] by (simp add: row_simps)
  with None show ?thesis by (auto simp: made_room_def)
next
  case (Some a)
  then have a: "a \<in> set t" "er_unit a = un" "er_active_for a \<noteq> None"
    using assms(2) by (auto simp: row_simps dest: first_row_SomeD)
  have only: "r \<in> set t \<Longrightarrow> er_unit r = un \<Longrightarrow> er_active_for r \<noteq> None \<Longrightarrow> r = a" for r
    using one_activeD [OF assms(1), of r a] a by simp
  show ?thesis
  proof (cases "same = Some a")
    case True
    with Some only show ?thesis by (auto simp: made_room_def)
  next
    case False
    with Some only a show ?thesis by (fastforce simp: made_room_def deactivate_set map_dormant)
  qed
qed

lemma made_room_rows:
  assumes "made_room un keep t t'" "r \<in> set t'"
  shows "\<exists>r0\<in>set t. dormant r = dormant r0"
proof -
  have "dormant r \<in> set (map dormant t')" using assms(2) by simp
  with assms(1) show ?thesis by (auto simp: made_room_def)
qed

lemma dormant_eqD:
  "dormant r = dormant s \<Longrightarrow> er_id r = er_id s \<and> er_unit r = er_unit s \<and> er_number r = er_number s \<and>
    er_tasks r = er_tasks s \<and> er_document r = er_document s \<and> er_server_sha r = er_server_sha s \<and> er_package r = er_package s"
  by (cases r; cases s) (simp add: dormant_def)

lemma revisions_ok_made_room:
  assumes "revisions_ok t" "made_room un keep t t'"
  shows "revisions_ok t'"
proof -
  have act: "r \<in> set t' \<Longrightarrow> er_active_for r \<noteq> None \<Longrightarrow> r \<in> set t" for r using assms(2) by (auto simp: made_room_def)
  have "revision_keys t'" using assms revision_keys_dormant [of t' t] by (simp add: made_room_def revisions_ok_def)
  moreover have "one_active t'"
    using assms(1) act one_activeD [of t] unfolding revisions_ok_def one_active_def [of t'] by blast
  moreover have "revision_ok r" if r: "r \<in> set t'" for r
  proof (cases "er_active_for r = None")
    case True
    from made_room_rows [OF assms(2) r] obtain r0 where "r0 \<in> set t" "dormant r = dormant r0" by auto
    then show ?thesis using assms(1) dormant_eqD [of r r0] True by (auto simp: revisions_ok_def list_all_iff revision_ok_def)
  next
    case False
    with act [OF r] assms(1) show ?thesis by (simp add: revisions_ok_def list_all_iff)
  qed
  ultimately show ?thesis by (simp add: revisions_ok_def list_all_iff)
qed

lemma activate_ok:
  assumes "revisions_ok t" "made_room un (Some rid) t t'" "s \<in> set t" "er_unit s = un" "er_id s = rid"
  shows "revisions_ok (activate un rid t')" "s\<lparr>er_active_for := Some un\<rparr> \<in> set (activate un rid t')"
proof -
  let ?f = "\<lambda>r. if er_unit r = un \<and> er_id r = rid then r\<lparr>er_active_for := Some un\<rparr> else r"
  have ok: "revisions_ok t'" by (rule revisions_ok_made_room [OF assms(1,2)])
  have d: "map dormant (activate un rid t') = map dormant t" using assms(2) by (simp add: map_dormant made_room_def)
  have on: "r \<in> set t' \<Longrightarrow> er_unit r = un \<Longrightarrow> er_active_for r \<noteq> None \<Longrightarrow> er_id r = rid" for r
    using assms(2) by (auto simp: made_room_def)
  have same: "dormant r = dormant s" if r: "r \<in> set t'" "er_id r = rid" for r
  proof -
    from made_room_rows [OF assms(2) r(1)] obtain r0 where r0: "r0 \<in> set t" "dormant r = dormant r0" by auto
    with dormant_eqD [OF r0(2)] r assms(1,3,5) have "r0 = s"
      by (intro unique_by_inj [of er_id t]) (simp_all add: revisions_ok_def revision_keys_def)
    with r0 show "dormant r = dormant s" by simp
  qed
  have f: "?f r = s\<lparr>er_active_for := Some un\<rparr>" if "r \<in> set t'" "er_id r = rid" for r
    using same [OF that] dormant_eqD [OF same [OF that]] assms(4) that(2) by (cases r; cases s) (simp add: dormant_def)
  have "revision_ok r" if r: "r \<in> set (activate un rid t')" for r
  proof -
    from r obtain r0 where r0: "r0 \<in> set t'" "r = ?f r0" unfolding activate_set by blast
    with ok have "revision_ok r0" by (simp add: revisions_ok_def list_all_iff)
    with r0(2) revision_ok_activate [of r0] show ?thesis by (cases "er_unit r0 = un \<and> er_id r0 = rid") simp_all
  qed
  moreover have "one_active (activate un rid t')"
    unfolding one_active_def
  proof (intro ballI impI)
    fix r r' assume rr: "r \<in> set (activate un rid t')" "r' \<in> set (activate un rid t')"
      "er_active_for r \<noteq> None" "er_active_for r' \<noteq> None" "er_unit r = er_unit r'"
    then obtain a b where ab: "a \<in> set t'" "r = ?f a" "b \<in> set t'" "r' = ?f b" unfolding activate_set by blast
    have ua: "er_unit a = er_unit r" "er_unit b = er_unit r" using ab rr(5) by (auto split: if_splits)
    show "r = r'"
    proof (cases "er_unit r = un")
      case True
      have act: "er_id x = rid" if "x \<in> set t'" "y = ?f x" "er_active_for y \<noteq> None" "er_unit x = un" for x y
      proof (rule ccontr)
        assume n: "er_id x \<noteq> rid"
        then have "y = x" using that(2) by simp
        with on [OF that(1,4)] that(3) n show False by simp
      qed
      have ids: "er_id a = rid" "er_id b = rid"
        using act [OF ab(1,2) rr(3)] act [OF ab(3,4) rr(4)] ua True by simp_all
      show ?thesis unfolding ab(2,4) f [OF ab(1) ids(1)] f [OF ab(3) ids(2)] by (rule refl)
    next
      case False
      then have "\<not> (er_unit a = un \<and> er_id a = rid)" "\<not> (er_unit b = un \<and> er_id b = rid)" using ua by auto
      then have eq: "r = a" "r' = b" using ab(2,4) by (metis (no_types, lifting))+
      have "one_active t'" using ok by (simp add: revisions_ok_def)
      from one_activeD [OF this ab(1,3)] rr(3-5) show ?thesis unfolding eq by blast
    qed
  qed
  ultimately show "revisions_ok (activate un rid t')"
    using assms(1) revision_keys_dormant [OF d] by (simp add: revisions_ok_def list_all_iff)
  have "dormant s \<in> set (map dormant t')" using assms(2,3) by (simp add: made_room_def)
  then obtain s' where s1: "s' \<in> set t'" "dormant s = dormant s'" by auto
  have s': "s' \<in> set t'" "er_id s' = rid" using s1(1) dormant_eqD [OF s1(2)] assms(5) by simp_all
  show "s\<lparr>er_active_for := Some un\<rparr> \<in> set (activate un rid t')"
    unfolding activate_set f [OF s', symmetric] by (rule imageI) (rule s'(1))
qed

lemma add_revision_ok:
  assumes "revisions_ok t" "made_room un None t t'" "er_unit row = un" "er_active_for row = Some un"
    "er_id row \<notin> er_id ` set t" "er_number row = foldr max (map er_number (all_rows (\<lambda>r. er_unit r = un) t)) 0 + 1"
    "er_tasks row = task_terms (er_document row)"
    "\<And>r. r \<in> set t \<Longrightarrow> er_unit r = un \<Longrightarrow> \<not> (er_server_sha r = er_server_sha row \<and> er_package r = er_package row)"
  shows "revisions_ok (add_row row t')"
proof -
  have ok: "revisions_ok t'" by (rule revisions_ok_made_room [OF assms(1,2)])
  have off: "r \<in> set t' \<Longrightarrow> er_unit r = un \<Longrightarrow> er_active_for r = None" for r
    using assms(2) by (auto simp: made_room_def)
  have "er_id r \<noteq> er_id row \<and> (er_unit r, er_number r) \<noteq> (er_unit row, er_number row) \<and>
      (er_unit r, er_server_sha r, er_package r) \<noteq> (er_unit row, er_server_sha row, er_package row)" if r: "r \<in> set t'" for r
  proof -
    from made_room_rows [OF assms(2) r] obtain r0 where r0: "r0 \<in> set t" "dormant r = dormant r0" by auto
    note dq = dormant_eqD [OF r0(2)]
    have "er_unit r0 = un \<Longrightarrow> er_number r0 < er_number row"
      unfolding assms(6) by (rule number_fresh) (simp add: row_simps r0(1))
    with assms(8) [OF r0(1)] assms(3,5) r0(1) dq show ?thesis by (auto simp: image_iff)
  qed
  then have "revision_keys (add_row row t')"
    using ok by (auto simp: revisions_ok_def revision_keys_def unique_by_add image_iff) metis+
  moreover have "one_active (add_row row t')"
    unfolding one_active_def
  proof (intro ballI impI)
    fix r s assume rs: "r \<in> set (add_row row t')" "s \<in> set (add_row row t')" "er_active_for r \<noteq> None"
      "er_active_for s \<noteq> None" "er_unit r = er_unit s"
    have "one_active t'" using ok by (simp add: revisions_ok_def)
    note old = one_activeD [OF this]
    consider "r = row" "s = row" | "r = row" "s \<in> set t'" | "r \<in> set t'" "s = row" | "r \<in> set t'" "s \<in> set t'"
      using rs(1,2) by (auto simp: row_simps)
    then show "r = s"
    proof cases
      case 4
      with old rs(3-5) show ?thesis by blast
    qed (use off assms(3) rs(3-5) in auto)
  qed
  ultimately show ?thesis using ok assms(3,4,6,7)
    by (simp add: revisions_ok_def list_all_iff row_simps revision_ok_def)
qed

lemma active_revision_unique:
  assumes "revisions_ok (revisions db)" "r \<in> set (revisions db)" "er_active_for r = Some un"
  shows "active_revision db un = Some r"
proof -
  have u: "s \<in> set (revisions db) \<Longrightarrow> er_active_for s = Some un \<Longrightarrow> er_unit s = un" for s
    using assms(1) by (fastforce simp: revisions_ok_def list_all_iff revision_ok_def)
  from assms(2,3) obtain s where s: "active_revision db un = Some s"
    by (cases "active_revision db un") (auto simp: active_revision_def first_row_None)
  then have "s \<in> set (revisions db)" "er_active_for s = Some un" by (auto simp: active_revision_def dest: first_row_SomeD)
  with one_activeD [of "revisions db" s r] assms u show ?thesis using s by (auto simp: revisions_ok_def)
qed

section \<open>Publishing keeps the contract\<close>

text \<open>The steps of a successful publication.\<close>

lemma checked_document_Inr:
  assumes "checked_document e d un = Inr doc"
  shows "parse_document (rv_document d) = Some doc \<and> sd_unit doc = un_id un"
proof (cases "canonical (rv_document d)")
  case (Inr bytes)
  with assms show ?thesis
    by (cases "parse_document (rv_document d)") (auto simp: checked_document_def Let_def split: if_splits)
qed (use assms in \<open>simp add: checked_document_def\<close>)

lemma publish_Inr:
  assumes "publish e d db = Inr (p, db')"
  obtains un mid doc where "un_id un = rv_unit d" "parse_document (rv_document d) = Some doc"
    "publish_document e d un mid doc db = Inr (p, db')" "sd_unit doc = rv_unit d"
proof -
  obtain content where c: "catalogue_of e db True = Inr content"
    using assms by (cases "catalogue_of e db True") (simp_all add: publish_def)
  obtain un where un: "find (\<lambda>u. un_id u = rv_unit d \<and> \<not> un_retired u) (ct_units content) = Some un"
    using assms c by (cases "find (\<lambda>u. un_id u = rv_unit d \<and> \<not> un_retired u) (ct_units content)") (simp_all add: publish_def)
  then have i: "un_id un = rv_unit d" by (auto simp: find_Some_iff)
  obtain mid where mid: "is_engine_unit un" "un_module un = Some mid"
    using assms c un by (cases "un_module un") (auto simp: publish_def split: if_splits)
  obtain doc where "checked_document e d un = Inr doc" "publish_document e d un mid doc db = Inr (p, db')"
    using assms c un mid by (auto simp: publish_def result_simps split: if_splits)
  with checked_document_Inr i that show thesis by metis
qed

lemma first_row_own:
  assumes "first_row P (all_rows (\<lambda>r. er_unit r = un) t) = Some s"
  shows "s \<in> set t" "er_unit s = un" "P s"
  using first_row_SomeD [OF assms] by (auto simp: row_simps)

text \<open>The terms and the bands of the active revision bind the document.\<close>

definition active_terms_kept :: "string \<Rightarrow> server_document \<Rightarrow> database \<Rightarrow> bool" where
  "active_terms_kept un doc db \<longleftrightarrow>
     (case first_row (\<lambda>r. er_active_for r \<noteq> None) (all_rows (\<lambda>r. er_unit r = un) (revisions db)) of None \<Rightarrow> True
      | Some a \<Rightarrow> bound_terms (er_tasks a) = bound_terms (task_terms doc) \<and>
          br_bands (sd_rule (er_document a)) = br_bands (sd_rule doc))"

text \<open>The two ways a publication ends: an earlier row of the same content becomes active again, or a new one.\<close>

lemma publish_document_cases:
  assumes "publish_document e d un mid doc db = Inr (p, db')" "one_active (revisions db)"
  obtains (again) s t' where "s \<in> set (revisions db)" "er_unit s = un_id un" "same_content d s"
      "made_room (un_id un) (Some (er_id s)) (revisions db) t'"
      "db' = db\<lparr>revisions := activate (un_id un) (er_id s) t'\<rparr>" "pu_revision p = er_id s" "\<not> pu_created p"
      "active_terms_kept (un_id un) doc db"
  | (fresh) row t' where "\<forall>r\<in>set (revisions db). er_unit r = un_id un \<longrightarrow> \<not> same_content d r"
      "made_room (un_id un) None (revisions db) t'" "db' = db\<lparr>revisions := add_row row t'\<rparr>"
      "er_id row = en_fresh e 1" "er_unit row = un_id un" "er_active_for row = Some (un_id un)" "er_document row = doc"
      "er_tasks row = task_terms doc" "er_server_sha row = rv_server_sha d" "er_package row = rv_package d"
      "er_number row = foldr max (map er_number (all_rows (\<lambda>r. er_unit r = un_id un) (revisions db))) 0 + 1"
      "pu_revision p = er_id row" "pu_created p" "active_terms_kept (un_id un) doc db"
proof -
  let ?own = "all_rows (\<lambda>r. er_unit r = un_id un) (revisions db)"
  let ?active = "first_row (\<lambda>r. er_active_for r \<noteq> None) ?own"
  let ?same = "first_row (same_content d) ?own"
  let ?t = "case ?active of None \<Rightarrow> revisions db
    | Some a \<Rightarrow> if ?same = Some a then revisions db else deactivate (un_id un) (er_id a) (revisions db)"
  have room: "made_room (un_id un) (map_option er_id ?same) (revisions db) ?t"
    by (rule made_room_publish [OF assms(2) refl])
  have kept: "active_terms_kept (un_id un) doc db"
    using assms(1) unfolding publish_document_def active_terms_kept_def Let_def
    by (cases ?active) (auto simp del: not_None_eq split: if_splits)
  define t where "t = ?t"
  note run = assms(1) [unfolded publish_document_def Let_def, folded t_def]
  show thesis
  proof (cases ?same)
    case (Some s)
    note s = first_row_own [OF Some]
    from run Some have "pu_revision p = er_id s \<and> \<not> pu_created p \<and> db' = db\<lparr>revisions := activate (un_id un) (er_id s) t\<rparr>"
      by (simp del: not_None_eq split: if_splits) auto
    with s room Some kept show thesis by (intro again [of s t]) (simp_all add: t_def)
  next
    case None
    then have "\<forall>r\<in>set (revisions db). er_unit r = un_id un \<longrightarrow> \<not> same_content d r"
      by (simp add: first_row_None row_simps)
    with run room kept None show thesis
      by (intro fresh [of t]) (auto simp del: not_None_eq simp: t_def [symmetric] split: if_splits)
  qed
qed

lemma option_eqI: "(\<And>x. a = Some x \<longleftrightarrow> b = Some x) \<Longrightarrow> a = b"
  by (cases a; cases b) auto

lemma active_revision_iff:
  assumes "revisions_ok (revisions db)"
  shows "active_revision db un = Some r \<longleftrightarrow> r \<in> set (revisions db) \<and> er_active_for r = Some un"
  using active_revision_unique [OF assms] by (auto simp: active_revision_def dest: first_row_SomeD)

lemma active_unit: "revisions_ok t \<Longrightarrow> r \<in> set t \<Longrightarrow> er_active_for r = Some un \<Longrightarrow> er_unit r = un"
  by (fastforce simp: revisions_ok_def list_all_iff revision_ok_def)

text \<open>A publication touches no row of another unit, and leaves the published row active.\<close>

lemma publish_rows:
  assumes "revisions_ok (revisions db)" "en_fresh e 1 \<notin> er_id ` set (revisions db)" "publish e d db = Inr (p, db')"
  obtains r doc where "revisions_ok (revisions db')" "r \<in> set (revisions db')" "er_active_for r = Some (rv_unit d)"
    "er_id r = pu_revision p" "same_content d r" "parse_document (rv_document d) = Some doc"
    "er_document r = doc \<or> (\<exists>r0\<in>set (revisions db). er_document r0 = er_document r \<and> er_server_sha r0 = rv_server_sha d)"
    "er_tasks r = task_terms (er_document r)" "active_terms_kept (rv_unit d) doc db"
    "\<And>x. er_unit x \<noteq> rv_unit d \<Longrightarrow> x \<in> set (revisions db') \<longleftrightarrow> x \<in> set (revisions db)"
proof -
  obtain un mid doc where pub: "un_id un = rv_unit d" "parse_document (rv_document d) = Some doc"
    "publish_document e d un mid doc db = Inr (p, db')" by (rule publish_Inr [OF assms(3)])
  note ok = assms(1) [unfolded revisions_ok_def]
  from pub(3) conjunct2 [OF conjunct2 [OF ok]] show thesis
  proof (cases rule: publish_document_cases)
    case (again s t')
    note act = activate_ok [OF assms(1) again(4,1,2) refl]
    have "er_tasks s = task_terms (er_document s)" using again(1) ok by (simp add: list_all_iff revision_ok_def)
    moreover have "x \<in> set (revisions db') \<longleftrightarrow> x \<in> set (revisions db)" if x: "er_unit x \<noteq> rv_unit d" for x
    proof -
      have "x \<in> set (activate (un_id un) (er_id s) t') \<longleftrightarrow> x \<in> set t'"
        using x pub(1) unfolding activate_set by force
      with x again(4,5) pub(1) show ?thesis by (auto simp: made_room_def)
    qed
    ultimately show thesis using act again pub(1,2)
      by (intro that [of "s\<lparr>er_active_for := Some (un_id un)\<rparr>" doc]) (auto simp: same_content_def)
  next
    case (fresh row t')
    have "revisions_ok (add_row row t')"
      by (rule add_revision_ok [OF assms(1) fresh(2)]) (use fresh assms(2) in \<open>auto simp: same_content_def\<close>)
    with fresh pub(1,2) show thesis
      by (intro that [of row doc]) (auto simp: same_content_def row_simps made_room_def)
  qed
qed

text \<open>
  C11: a publication keeps the contract of the unit. Afterwards exactly the published revision is active for its unit
  and every other unit has the revision it had; the tables keep their constraints; and the revision that becomes
  active has the tasks, XP, sub-skills, kinds of plan and bands of the one it replaces. That a server hash
  identifies the document is the collision resistance of SHA-256; the id of a new row is fresh.
\<close>

theorem publishing_keeps_contract:
  assumes "revisions_ok (revisions db)" "en_fresh e 1 \<notin> er_id ` set (revisions db)"
    and hash: "\<And>r doc. r \<in> set (revisions db) \<Longrightarrow> er_server_sha r = rv_server_sha d \<Longrightarrow>
      parse_document (rv_document d) = Some doc \<Longrightarrow> er_document r = doc"
    and "publish e d db = Inr (p, db')"
  shows "revisions_ok (revisions db') \<and>
    (\<exists>r. active_revision db' (rv_unit d) = Some r \<and> er_id r = pu_revision p \<and> same_content d r \<and>
      (\<forall>a. active_revision db (rv_unit d) = Some a \<longrightarrow> bound_terms (er_tasks a) = bound_terms (er_tasks r) \<and>
        br_bands (sd_rule (er_document a)) = br_bands (sd_rule (er_document r)))) \<and>
    (\<forall>i. i \<noteq> rv_unit d \<longrightarrow> active_revision db' i = active_revision db i)"
proof -
  obtain r doc where r: "revisions_ok (revisions db')" "r \<in> set (revisions db')" "er_active_for r = Some (rv_unit d)"
    "er_id r = pu_revision p" "same_content d r" "parse_document (rv_document d) = Some doc"
    "er_document r = doc \<or> (\<exists>r0\<in>set (revisions db). er_document r0 = er_document r \<and> er_server_sha r0 = rv_server_sha d)"
    "er_tasks r = task_terms (er_document r)" "active_terms_kept (rv_unit d) doc db"
    and others: "\<And>x. er_unit x \<noteq> rv_unit d \<Longrightarrow> x \<in> set (revisions db') \<longleftrightarrow> x \<in> set (revisions db)"
    by (rule publish_rows [OF assms(1,2,4)]) (rule that)
  have doc: "er_document r = doc" using r(6,7) hash by auto
  have kept: "bound_terms (er_tasks a) = bound_terms (er_tasks r) \<and>
      br_bands (sd_rule (er_document a)) = br_bands (sd_rule (er_document r))"
    if a: "active_revision db (rv_unit d) = Some a" for a
  proof -
    have m: "a \<in> set (revisions db)" "er_active_for a = Some (rv_unit d)"
      using a assms(1) by (simp_all add: active_revision_iff)
    then have u: "er_unit a = rv_unit d" by (rule active_unit [OF assms(1)])
    let ?own = "all_rows (\<lambda>x. er_unit x = rv_unit d) (revisions db)"
    obtain b where b: "first_row (\<lambda>x. er_active_for x \<noteq> None) ?own = Some b"
      using m u by (cases "first_row (\<lambda>x. er_active_for x \<noteq> None) ?own") (auto simp: first_row_None row_simps)
    from first_row_own [OF b] m u assms(1) have "b = a"
      by (intro one_activeD [of "revisions db" b a]) (simp_all add: revisions_ok_def)
    with b r(9) show ?thesis by (simp add: active_terms_kept_def doc r(8) del: not_None_eq)
  qed
  have "active_revision db' i = active_revision db i" if "i \<noteq> rv_unit d" for i
  proof (rule option_eqI)
    fix x
    have "er_active_for x = Some i \<Longrightarrow> x \<in> set (revisions db') \<longleftrightarrow> x \<in> set (revisions db)"
      using active_unit [OF r(1), of x i] active_unit [OF assms(1), of x i] others [of x] that by blast
    then show "active_revision db' i = Some x \<longleftrightarrow> active_revision db i = Some x"
      unfolding active_revision_iff [OF r(1)] active_revision_iff [OF assms(1)] by blast
  qed
  moreover have "active_revision db' (rv_unit d) = Some r" using r(1-3) by (simp add: active_revision_iff)
  ultimately show ?thesis using r(1,4,5) kept by blast
qed

section \<open>An example\<close>

text \<open>The document of the example revision as JSON, published under a new package.\<close>

definition document_json :: json where
  "document_json = jobj [(''formatVersion'', JInt 1), (''engine'', js ''2.1''), (''unitId'', js ''quest''),
     (''kernel'', jobj [(''id'', js ''k''), (''version'', js ''1'')]),
     (''bandRule'', jobj [(''bands'', JArr [js ''easy'', js ''hard'']), (''initial'', js ''easy''), (''lowerAfter'', JInt 2),
       (''raiseAfter'', JInt 2)]),
     (''tasks'', JArr [jobj [(''goalId'', js ''goal''), (''subskillId'', js ''loops''), (''concepts'', JArr []), (''xp'', JInt 15),
       (''required'', JBool True), (''input'', js ''program''), (''criteria'', JArr [js ''done'']),
       (''feedback'', jobj [(''again'', jobj [(''de'', js ''Nochmal'')])]),
       (''practice'', jobj [(''easy'', jobj [(''caseId'', js ''c1''), (''config'', JObj []), (''initial'', JObj [])]),
         (''hard'', jobj [(''caseId'', js ''c2''), (''config'', JObj []), (''initial'', JObj [])])])]]),
     (''runner'', jobj [(''main'', jobj [(''name'', js ''main.js''), (''content'', js '''')]),
       (''parts'', JArr [jobj [(''name'', js ''part.js''), (''content'', js ''1'')]]),
       (''sha256'', JStr (replicate 64 98))])]"

definition publish_request :: revision_request where
  "publish_request = \<lparr>rv_unit = ''quest'', rv_package = ''pk2'', rv_manifest = ''mf2'', rv_entry = ''index.html'', rv_evidence = ''ev2'',
     rv_server_sha = replicate 64 (CHR ''b''), rv_document = document_json\<rparr>"

definition publish_db :: database where
  "publish_db = empty_db\<lparr>revisions := [example_revision],
     sub_skills := [\<lparr>sk_id = ''loops'', sk_parent = ''python'', sk_name = ''Loops'', sk_row = 0, sk_column = 0, sk_icon = None\<rparr>],
     modules := [\<lparr>lm_id = ''quest-module'', lm_api_version = 1, lm_entry_url = ''''\<rparr>]\<rparr>"

lemma publishing_keeps_contract_witness:
  "\<exists>p db'. publish room_env publish_request publish_db = Inr (p, db') \<and> pu_created p \<and> revisions_ok (revisions db') \<and>
    (\<exists>r. active_revision db' ''quest'' = Some r \<and> er_id r = pu_revision p)"
proof -
  have "case publish room_env publish_request publish_db of Inl er \<Rightarrow> False | Inr (p, db') \<Rightarrow> pu_created p" by code_simp
  then obtain p db' where run: "publish room_env publish_request publish_db = Inr (p, db')" "pu_created p"
    by (auto split: sum.splits)
  have "revision_keys (revisions publish_db) \<and> list_all revision_ok (revisions publish_db)" by code_simp
  then have ok: "revisions_ok (revisions publish_db)"
    by (auto simp: revisions_ok_def one_active_def publish_db_def)
  have fresh: "en_fresh room_env 1 \<notin> er_id ` set (revisions publish_db)" by code_simp
  have "\<not> list_ex (\<lambda>r. er_server_sha r = rv_server_sha publish_request) (revisions publish_db)" by code_simp
  then have hash: "er_document r = doc" if "r \<in> set (revisions publish_db)" "er_server_sha r = rv_server_sha publish_request"
    for r and doc :: server_document using that by (auto simp: list_ex_iff)
  have "rv_unit publish_request = ''quest''" by (simp add: publish_request_def)
  with publishing_keeps_contract [OF ok fresh hash run(1)] run show ?thesis by auto
qed

end
