(* ===== verification/Plans.thy ===== *)
theory Plans
  imports Documents
begin

text \<open>
  What a learner submits to the lesson engine (\<^verbatim>\<open>schemas/engine.py\<close>): a plan is a program or a list of actions,
  read with the service's own schema and stored as the schema writes it. Reading and writing a plan are inverse, and
  the stored plan has the canonical form of the submitted one.
\<close>

section \<open>Plans\<close>

datatype plan_step =
    Plan_action string ustr "(ustr \<times> json) list" ustr int
  | Plan_wait int

datatype plan =
    Program_plan ustr
  | Actions_plan "plan_step list"

definition PLAN_BYTES :: nat where "PLAN_BYTES = 65536"
definition MAX_TICK :: int where "MAX_TICK = 2 ^ 31 - 1"

definition letter :: "char \<Rightarrow> bool" where
  "letter c \<longleftrightarrow> list_ex (\<lambda>(first, last). first \<le> c \<and> c \<le> last) [(CHR ''a'', CHR ''z''), (CHR ''A'', CHR ''Z'')]"

definition action_name :: "string \<Rightarrow> bool" where
  "action_name s = (case s of [] \<Rightarrow> False
     | c # cs \<Rightarrow> letter c \<and> length cs \<le> 63 \<and> list_all (\<lambda>c. letter c \<or> c = CHR ''_'' \<or> CHR ''0'' \<le> c \<and> c \<le> CHR ''9'') cs)"

definition parse_step :: "json \<Rightarrow> plan_step option" where
  "parse_step v = (if exact_keys [''step'', ''tick''] v
     then (if jget ''step'' v = Some (JBool True) then map_option Plan_wait (bounded_int 0 MAX_TICK (jget ''tick'' v)) else None)
     else if \<not> exact_keys [''name'', ''target'', ''args'', ''actor'', ''tick''] v then None else
     Option.bind (require_that action_name (json_string (jget ''name'' v))) (\<lambda>n.
     Option.bind (bounded_text 1 80 (jget ''target'' v)) (\<lambda>t.
     Option.bind (the_entries (jget ''args'' v)) (\<lambda>es.
     Option.bind (bounded_text 1 80 (jget ''actor'' v)) (\<lambda>a.
     map_option (Plan_action n t es a) (bounded_int 0 MAX_TICK (jget ''tick'' v)))))))"

definition parse_plan :: "json \<Rightarrow> plan option" where
  "parse_plan v = (if jget ''kind'' v = Some (js ''program'') then
       (if \<not> exact_keys [''kind'', ''source''] v then None
        else map_option Program_plan (require_that (\<lambda>s. length (utf8 s) \<le> PLAN_BYTES) (json_text (jget ''source'' v))))
     else if jget ''kind'' v = Some (js ''actions'') then
       (if \<not> exact_keys [''kind'', ''actions''] v then None
        else map_option Actions_plan (Option.bind (require_that (\<lambda>vs. length vs \<le> 4096) (the_list (jget ''actions'' v)))
          (all_of parse_step)))
     else None)"

fun dump_step :: "plan_step \<Rightarrow> json" where
  "dump_step (Plan_action n t es a k) =
     jobj [(''name'', js n), (''target'', JStr t), (''args'', JObj es), (''actor'', JStr a), (''tick'', JInt k)]"
| "dump_step (Plan_wait k) = jobj [(''step'', JBool True), (''tick'', JInt k)]"

fun dump_plan :: "plan \<Rightarrow> json" where
  "dump_plan (Program_plan s) = jobj [(''kind'', js ''program''), (''source'', JStr s)]"
| "dump_plan (Actions_plan ss) = jobj [(''kind'', js ''actions''), (''actions'', JArr (map dump_step ss))]"

fun plan_kind :: "plan \<Rightarrow> input_kind" where
  "plan_kind (Program_plan s) = Program_input"
| "plan_kind (Actions_plan ss) = Actions_input"

fun valid_step :: "plan_step \<Rightarrow> bool" where
  "valid_step (Plan_action n t es a k) \<longleftrightarrow> action_name n \<and> 1 \<le> length t \<and> length t \<le> 80 \<and>
     1 \<le> length a \<and> length a \<le> 80 \<and> 0 \<le> k \<and> k \<le> MAX_TICK"
| "valid_step (Plan_wait k) \<longleftrightarrow> 0 \<le> k \<and> k \<le> MAX_TICK"

fun valid_plan :: "plan \<Rightarrow> bool" where
  "valid_plan (Program_plan s) \<longleftrightarrow> length (utf8 s) \<le> PLAN_BYTES"
| "valid_plan (Actions_plan ss) \<longleftrightarrow> length ss \<le> 4096 \<and> list_all valid_step ss"

section \<open>The requests\<close>

record start_request =
  sq_request :: string
  sq_revision :: string
  sq_course :: "string option"

record submit_request =
  uq_request :: string
  uq_state_revision :: int
  uq_start :: string
  uq_plan :: plan
  uq_course :: "string option"

section \<open>Reading what is written\<close>

lemma ustr_inject [simp]: "ustr s = ustr t \<longleftrightarrow> s = t"
  unfolding ustr_def by (rule inj_map_eq_map) (simp add: inj_on_def)

lemma jget_jobj [simp]: "jget k (jobj kvs) = map_of kvs k"
  unfolding jget_def jobj_def by (induction kvs) auto

lemma exact_keys_jobj [simp]: "exact_keys ks (jobj kvs) \<longleftrightarrow>
    list_all (\<lambda>e. fst e \<in> set ks) kvs \<and> list_all (\<lambda>k. k \<in> set (map fst kvs)) ks"
proof -
  have "inj_on ustr (fst ` set kvs \<union> set ks)" by (simp add: inj_on_def)
  from inj_on_image_eq_iff [OF this, of "fst ` set kvs" "set ks"] show ?thesis
    by (auto simp: exact_keys_def jobj_def image_image case_prod_beta list_all_iff)
qed

lemma json_string_js: "list_all (\<lambda>c. of_char c < (128::nat)) s \<Longrightarrow> json_string (Some (js s)) = Some s"
  by (simp add: json_string_def js_def ustr_def list_all_iff comp_def)

lemma letter_ascii: "letter c \<Longrightarrow> of_char c < (128::nat)"
  by (auto simp: letter_def less_eq_char_def)

lemma action_name_ascii: "action_name s \<Longrightarrow> list_all (\<lambda>c. of_char c < (128::nat)) s"
  by (auto simp: action_name_def list_all_iff letter_ascii less_eq_char_def split: list.splits)

lemma parse_dump_step: "valid_step s \<Longrightarrow> parse_step (dump_step s) = Some s"
  by (cases s) (simp_all add: parse_step_def require_that_def json_string_js action_name_ascii bounded_text_def bounded_int_def
    json_text_def json_int_def the_entries_def)

lemma all_of_map: "(\<And>x. x \<in> set xs \<Longrightarrow> f (g x) = Some x) \<Longrightarrow> all_of f (map g xs) = Some xs"
  unfolding all_of_def by (induction xs) auto

lemma parse_dump_plan: "valid_plan p \<Longrightarrow> parse_plan (dump_plan p) = Some p"
proof (cases p)
  case (Actions_plan ss)
  moreover assume "valid_plan p"
  ultimately have "all_of parse_step (map dump_step ss) = Some ss"
    by (intro all_of_map parse_dump_step) (simp add: list_all_iff)
  with Actions_plan \<open>valid_plan p\<close> show ?thesis by (auto simp: parse_plan_def require_that_def the_list_def js_def)
qed (auto simp: parse_plan_def require_that_def json_text_def js_def)

text \<open>Objects with the same keys and equal values are equal.\<close>

lemma norm_entries:
  assumes "distinct (map fst es)"
  shows "map (\<lambda>e. (fst e, norm_json (snd e))) (sort_entries es) = sort_entries (map (\<lambda>e. (fst e, norm_json (snd e))) es)"
proof -
  have d: "distinct (map fst (sort_entries es))"
    unfolding sort_entries_def by (metis assms distinct_map distinct_sort set_sort)
  let ?g = "\<lambda>e. (fst e, norm_json (snd e))"
  have "sort_entries (map ?g (sort_entries es)) = sort_entries (map ?g es)"
    by (rule sort_entries_perm) (use assms d in \<open>simp_all add: comp_def\<close>)
  then show ?thesis using sort_entries_map [of norm_json es] by simp
qed

lemma json_eq_jobj:
  assumes "wf_json v" "exact_keys (map fst kvs) v" "distinct (map fst kvs)"
    and same: "\<And>k w. (k, w) \<in> set kvs \<Longrightarrow> \<exists>x. jget k v = Some x \<and> json_eq w x"
  shows "json_eq (jobj kvs) v"
proof -
  obtain es where v: "v = JObj es" using assms(2) by (cases v) (auto simp: exact_keys_def)
  let ?g = "\<lambda>e. (fst e, norm_json (snd e))" and ?es = "map (\<lambda>(k, v). (ustr k, v)) kvs"
  have d: "distinct (map fst es)" using assms(1) v by simp
  have k: "fst ` set es = ustr ` fst ` set kvs" using assms(2) v by (simp add: exact_keys_def image_image)
  have d': "distinct (map fst ?es)" using assms(3)
    by (simp add: comp_def case_prod_beta distinct_map inj_on_def)
  have "(ustr a, norm_json w) \<in> ?g ` set es" if "(a, w) \<in> set kvs" for a w
  proof -
    from same [OF that] v obtain x where "map_of es (ustr a) = Some x" "norm_json w = norm_json x"
      by (auto simp: jget_def json_eq_def)
    then show ?thesis by (force dest: map_of_SomeD)
  qed
  then have sub: "set (map ?g ?es) \<subseteq> set (map ?g es)" by auto
  moreover have "e \<in> set (map ?g ?es)" if e: "e \<in> set (map ?g es)" for e
  proof -
    from e have "fst e \<in> fst ` set es" by force
    then obtain a w where a: "(a, w) \<in> set kvs" "fst e = ustr a" unfolding k by force
    then have "(ustr a, norm_json w) \<in> set (map ?g es)" using sub by force
    moreover have "distinct (map fst (map ?g es))" using d by (simp add: comp_def)
    ultimately have "e = (ustr a, norm_json w)" using e a(2) by (metis eq_key_imp_eq_value prod.collapse)
    with a(1) show ?thesis by force
  qed
  ultimately have "set (map ?g ?es) = set (map ?g es)" by blast
  then have "sort_entries (map ?g ?es) = sort_entries (map ?g es)"
    using d d' by (intro sort_entries_perm) (simp_all add: comp_def)
  then show ?thesis by (simp add: json_eq_def v jobj_def norm_entries [OF d] norm_entries [OF d'])
qed

lemma json_string_Some: "json_string x = Some s \<Longrightarrow> x = Some (js s)"
  by (auto simp: json_string_def js_def ustr_def list_all_iff comp_def split: option.splits json.splits if_splits
      intro!: map_idI [symmetric] mod_less) fastforce

lemma json_text_Some: "json_text x = Some s \<Longrightarrow> x = Some (JStr s)"
  by (auto simp: json_text_def split: option.splits json.splits)

lemma json_int_Some: "json_int x = Some i \<Longrightarrow> x = Some (JInt i)"
  by (auto simp: json_int_def split: option.splits json.splits)

lemma the_entries_Some: "the_entries x = Some es \<Longrightarrow> x = Some (JObj es)"
  by (auto simp: the_entries_def split: option.splits json.splits)

lemma the_list_Some: "the_list x = Some vs \<Longrightarrow> x = Some (JArr vs)"
  by (auto simp: the_list_def split: option.splits json.splits)

lemmas read_json = json_string_Some json_text_Some json_int_Some the_entries_Some the_list_Some

lemma parse_step_written:
  assumes "wf_json v" "parse_step v = Some s"
  shows "valid_step s \<and> json_eq (dump_step s) v"
proof (cases s)
  case (Plan_action n t es a k)
  with assms(2) have "exact_keys [''name'', ''target'', ''args'', ''actor'', ''tick''] v \<and> valid_step s \<and>
      jget ''name'' v = Some (js n) \<and> jget ''target'' v = Some (JStr t) \<and> jget ''args'' v = Some (JObj es) \<and>
      jget ''actor'' v = Some (JStr a) \<and> jget ''tick'' v = Some (JInt k)"
    by (auto simp: parse_step_def bind_eq_Some_conv require_that_Some bounded_text_def bounded_int_def dest!: read_json
        split: if_splits)
  with assms(1) Plan_action show ?thesis by (auto intro!: json_eq_jobj)
next
  case (Plan_wait k)
  with assms(2) have "exact_keys [''step'', ''tick''] v \<and> valid_step s \<and> jget ''step'' v = Some (JBool True) \<and>
      jget ''tick'' v = Some (JInt k)"
    by (auto simp: parse_step_def bind_eq_Some_conv require_that_Some bounded_text_def bounded_int_def dest!: read_json
        split: if_splits)
  with assms(1) Plan_wait show ?thesis by (auto intro!: json_eq_jobj)
qed

lemma wf_jget: "wf_json v \<Longrightarrow> jget k v = Some x \<Longrightarrow> wf_json x"
  by (cases v) (auto simp: jget_def dest!: map_of_SomeD)

lemma parse_steps_written:
  "all_of parse_step vs = Some ss \<Longrightarrow> \<forall>v\<in>set vs. wf_json v \<Longrightarrow>
    list_all valid_step ss \<and> json_eq (JArr (map dump_step ss)) (JArr vs) \<and> length ss = length vs"
  unfolding all_of_def
proof (induction vs arbitrary: ss)
  case (Cons v vs)
  then show ?case using parse_step_written [of v] by (fastforce simp: json_eq_def split: option.splits)
qed simp

lemma parse_plan_written:
  assumes "wf_json v" "parse_plan v = Some p"
  shows "valid_plan p \<and> json_eq (dump_plan p) v"
proof (cases p)
  case (Program_plan s)
  with assms(2) have "exact_keys [''kind'', ''source''] v \<and> valid_plan p \<and> jget ''kind'' v = Some (js ''program'') \<and>
      jget ''source'' v = Some (JStr s)"
    by (auto simp: parse_plan_def bind_eq_Some_conv require_that_Some dest!: read_json split: if_splits)
  with assms(1) Program_plan show ?thesis by (auto intro!: json_eq_jobj)
next
  case (Actions_plan ss)
  with assms(2) obtain vs where p: "exact_keys [''kind'', ''actions''] v" "jget ''kind'' v = Some (js ''actions'')"
      "jget ''actions'' v = Some (JArr vs)" "length vs \<le> 4096" "all_of parse_step vs = Some ss"
    by (auto simp: parse_plan_def bind_eq_Some_conv require_that_Some dest!: read_json split: if_splits)
  have "\<forall>v\<in>set vs. wf_json v" using wf_jget [OF assms(1) p(3)] by simp
  from parse_steps_written [OF p(5) this] p(1-4) assms(1) Actions_plan show ?thesis by (auto intro!: json_eq_jobj)
qed

text \<open>
  C32: a plan survives its storage. A plan that is accepted keeps the schema's bounds, the stored form reads back as
  the same plan, and it has the canonical form, so the hash, of what was submitted, whatever the order of its keys.
\<close>

theorem plan_survives_storage:
  assumes "wf_json v" "parse_plan v = Some p"
  shows "valid_plan p \<and> parse_plan (dump_plan p) = Some p \<and> canonical (dump_plan p) = canonical v"
proof -
  from parse_plan_written [OF assms] have "valid_plan p" "json_eq (dump_plan p) v" by simp_all
  moreover from this(2) have "write_json (dump_plan p) = write_json v"
    unfolding json_eq_def by (metis write_json_norm)
  ultimately show ?thesis by (simp add: parse_dump_plan canonical_def)
qed

text \<open>A plan of two steps whose keys come in another order.\<close>

definition plan_json :: json where
  "plan_json = jobj [(''actions'', JArr [jobj [(''tick'', JInt 3), (''step'', JBool True)],
     jobj [(''tick'', JInt 4), (''actor'', js ''bob''), (''args'', JObj []), (''target'', js ''door''), (''name'', js ''open'')]]),
     (''kind'', js ''actions'')]"

lemma plan_survives_storage_witness:
  "\<exists>p. parse_plan plan_json = Some p \<and> valid_plan p \<and> canonical (dump_plan p) = canonical plan_json \<and>
    dump_plan p \<noteq> plan_json"
proof -
  have "wf_json plan_json" by code_simp
  moreover have "case parse_plan plan_json of None \<Rightarrow> False | Some p \<Rightarrow> dump_plan p \<noteq> plan_json" by code_simp
  then obtain p where "parse_plan plan_json = Some p" "dump_plan p \<noteq> plan_json" by (auto split: option.splits)
  ultimately show ?thesis using plan_survives_storage by blast
qed

end
