(* ===== verification/Verdicts.thy ===== *)
theory Verdicts
  imports Plans Rewards
begin

text \<open>
  Evaluation and booking of the lesson engine (\<^verbatim>\<open>services/sandbox.py\<close>, \<^verbatim>\<open>services/engine_verdicts.py\<close>):
  which answer of the sandbox is a result, the band rule, the lease of an evaluation, and the booking of a verdict
  with its XP in one transaction. The sandbox, JSON text and the clock are parameters. An evaluation runs between two
  transactions, so a submission is settled in two steps that other requests may interleave with.
\<close>

section \<open>The sandbox\<close>

record criterion =
  cn_id :: ustr
  cn_passed :: bool

record evaluation =
  ev_verdict :: verdict
  ev_criteria :: "criterion list"
  ev_codes :: "ustr list"
  ev_runs_hash :: ustr

text \<open>The client of the sandbox: JSON text written and read, and the answer to a request.\<close>

record sandbox =
  sa_dumps :: "json \<Rightarrow> ustr"
  sa_loads :: "ustr \<Rightarrow> json option"
  sa_post :: "json \<Rightarrow> reply"

definition job_of :: "job \<Rightarrow> string \<Rightarrow> json \<Rightarrow> json result" where
  "job_of j goal plan = (case (jb_start j, jb_band j) of
     (Some st, Some band) \<Rightarrow> Inr (jobj [(''formatVersion'', JInt 1), (''goalId'', js goal), (''band'', js band),
       (''caseId'', js (st_case st)), (''seed'', js (st_seed st)), (''input'', plan)])
   | _ \<Rightarrow> Inl (Crash ''no start''))"

definition file_json :: "sandbox_file \<Rightarrow> json" where
  "file_json f = jobj [(''name'', js (sf_name f)), (''content'', JStr (sf_content f))]"

definition request_body :: "sandbox \<Rightarrow> server_document \<Rightarrow> json \<Rightarrow> json" where
  "request_body sa d job = jobj [
     (''build'', jobj [(''environment'', js ''javascript''), (''main_file'', file_json (rn_main (sd_runner d))),
       (''files'', JArr (map file_json (rn_parts (sd_runner d))))]),
     (''run'', jobj [(''files'', JArr [jobj [(''name'', js ''job.json''), (''content'', JStr (sa_dumps sa job))]])])]"

text \<open>Python's \<^verbatim>\<open>== 1\<close> and \<^verbatim>\<open>== 0\<close> on a JSON value: booleans and floats compare as numbers.\<close>

definition py_one :: "json option \<Rightarrow> bool" where
  "py_one v \<longleftrightarrow> v = Some (JInt 1) \<or> v = Some (JBool True) \<or> v = Some (JFloat 0x3FF0000000000000)"

definition py_zero :: "json option \<Rightarrow> bool" where
  "py_zero v \<longleftrightarrow> v = Some (JInt 0) \<or> v = Some (JBool False) \<or> v = Some (JFloat 0) \<or> v = Some (JFloat (2 ^ 63))"

text \<open>The pattern ends in a dollar sign, so one final line break is accepted.\<close>

definition runs_hash :: "ustr \<Rightarrow> bool" where
  "runs_hash s \<longleftrightarrow> length (takeWhile (\<lambda>c. 48 \<le> c \<and> c \<le> 57 \<or> 97 \<le> c \<and> c \<le> 102) s) = 64 \<and> drop 64 s \<in> {[], [10]}"

definition read_verdict :: "json option \<Rightarrow> verdict option" where
  "read_verdict v = (if v = Some (js ''passed'') then Some V_passed
     else if v = Some (js ''not_passed'') then Some V_not_passed else None)"

definition read_criterion :: "json \<Rightarrow> criterion option" where
  "read_criterion v = (if \<not> exact_keys [''id'', ''passed''] v then None else
     Option.bind (json_text (jget ''id'' v)) (\<lambda>i. Option.bind (json_bool (jget ''passed'' v)) (\<lambda>p.
       Some \<lparr>cn_id = i, cn_passed = p\<rparr>)))"

text \<open>\<open>_valid\<close>, as the reader of what it accepts.\<close>

definition read_result :: "json \<Rightarrow> evaluation option" where
  "read_result v = (if \<not> exact_keys [''formatVersion'', ''verdict'', ''criteria'', ''feedbackCodes'', ''runsHash''] v \<or>
       \<not> py_one (jget ''formatVersion'' v) then None else
     Option.bind (read_verdict (jget ''verdict'' v)) (\<lambda>r.
     Option.bind (Option.bind (the_list (jget ''criteria'' v)) (all_of read_criterion)) (\<lambda>cs.
     Option.bind (Option.bind (the_list (jget ''feedbackCodes'' v)) (all_of (\<lambda>c. json_text (Some c)))) (\<lambda>fs.
     Option.bind (require_that runs_hash (json_text (jget ''runsHash'' v))) (\<lambda>h.
       Some \<lparr>ev_verdict = r, ev_criteria = cs, ev_codes = fs, ev_runs_hash = h\<rparr>)))))"

text \<open>White space of \<^verbatim>\<open>str.strip\<close>.\<close>

definition space :: "nat \<Rightarrow> bool" where
  "space c \<longleftrightarrow> 9 \<le> c \<and> c \<le> 13 \<or> 28 \<le> c \<and> c \<le> 32 \<or> 8192 \<le> c \<and> c \<le> 8202 \<or>
     c \<in> {133, 160, 5760, 8232, 8233, 8239, 8287, 12288}"

definition strip :: "ustr \<Rightarrow> ustr" where
  "strip s = rev (dropWhile space (rev (dropWhile space s)))"

text \<open>No result (\<open>SandboxUnavailableError\<close>) is \<open>None\<close>.\<close>

definition result_of :: "sandbox \<Rightarrow> nat \<Rightarrow> json option \<Rightarrow> evaluation option" where
  "result_of sa st body = (if st \<noteq> 200 then None
     else Option.bind (Option.bind body (jget ''run'')) (\<lambda>run.
       if \<not> py_zero (jget ''status'' run) then None
       else Option.bind (json_text (jget ''stdout'' run)) (\<lambda>out.
         if 10 \<in> set (strip out) then None else Option.bind (sa_loads sa (strip out)) read_result)))"

definition evaluate :: "env \<Rightarrow> sandbox \<Rightarrow> server_document \<Rightarrow> json \<Rightarrow> evaluation option" where
  "evaluate e sa d job = (if \<not> en_sandbox e then None
     else case sa_post sa (request_body sa d job) of No_reply \<Rightarrow> None | Reply st body \<Rightarrow> result_of sa st body)"

section \<open>Views and feedback\<close>

record assessment =
  am_id :: string
  am_goal :: string
  am_final :: bool
  am_outcome :: "verdict option"
  am_counts :: "bool option"
  am_feedback :: "feedback option"
  am_completed :: bool
  am_xp :: "(string \<times> int) option"

definition view :: "submission \<Rightarrow> bool \<Rightarrow> assessment" where
  "view s completed = (if sb_state s = Accepted
     then \<lparr>am_id = sb_id s, am_goal = sb_goal s, am_final = False, am_outcome = None, am_counts = None, am_feedback = None,
       am_completed = False, am_xp = None\<rparr>
     else \<lparr>am_id = sb_id s, am_goal = sb_goal s, am_final = True, am_outcome = sb_verdict s, am_counts = sb_counts s,
       am_feedback = sb_feedback s, am_completed = (completed \<and> sb_counts s = Some True), am_xp = None\<rparr>)"

definition room_completed :: "database \<Rightarrow> string \<Rightarrow> string \<Rightarrow> bool" where
  "room_completed db u i = (case room_of db u i of None \<Rightarrow> False | Some r \<Rightarrow> rs_status r = Completed)"

definition bound :: "evaluation \<Rightarrow> doc_task \<Rightarrow> bool" where
  "bound ev t \<longleftrightarrow> distinct (map cn_id (ev_criteria ev)) \<and> set (map cn_id (ev_criteria ev)) = set (dt_criteria t) \<and>
     set (ev_codes ev) \<subseteq> set (map fst (dt_feedback t)) \<and>
     (ev_verdict ev = V_not_passed \<or> list_all cn_passed (ev_criteria ev))"

definition feedback_text :: "(ustr \<times> ustr) list \<Rightarrow> ustr" where
  "feedback_text v = (case map_of v (ustr ''de'') of
     Some t \<Rightarrow> if t \<noteq> [] then t else (case v of [] \<Rightarrow> [] | (k, t) # _ \<Rightarrow> t)
   | None \<Rightarrow> (case v of [] \<Rightarrow> [] | (k, t) # _ \<Rightarrow> t))"

definition SUMMARY :: "verdict \<Rightarrow> string" where
  "SUMMARY v = (case v of V_passed \<Rightarrow> '''' | V_not_passed \<Rightarrow> ''Probier es noch einmal.'')"

text \<open>The codes of a bound result have a text.\<close>

definition feedback :: "evaluation \<Rightarrow> doc_task \<Rightarrow> feedback" where
  "feedback ev t = \<lparr>fb_summary = SUMMARY (ev_verdict ev),
     fb_reasons = filter (\<lambda>s. s \<noteq> []) (map (\<lambda>c. feedback_text (the (map_of (dt_feedback t) c)))
       (if ev_verdict ev = V_passed then [] else fromkeys (ev_codes ev)))\<rparr>"

section \<open>The band rule\<close>

definition band_index :: "string list \<Rightarrow> string \<Rightarrow> nat option" where
  "band_index bs b = (if b \<in> set bs then Some (length (takeWhile (\<lambda>x. x \<noteq> b) bs)) else None)"

definition counted :: "band_rule \<Rightarrow> string \<Rightarrow> int \<Rightarrow> int \<Rightarrow> bool \<Rightarrow> (string \<times> int \<times> int) result" where
  "counted rule band fails passes passed = (case band_index (br_bands rule) band of
     None \<Rightarrow> Inl (Crash ''band unknown'')
   | Some pos \<Rightarrow>
     if passed then
       if passes + 1 \<ge> br_raise rule then Inr (br_bands rule ! min (length (br_bands rule) - 1) (pos + 1), 0, 0)
       else Inr (band, 0, passes + 1)
     else if fails + 1 \<ge> br_lower rule then Inr (br_bands rule ! (pos - 1), 0, 0)
       else Inr (band, fails + 1, 0))"

section \<open>Booking\<close>

datatype no_booking =
    Erased_learner
  | No_verdict
  | Broken err

definition xp_operation_id :: "env \<Rightarrow> string \<Rightarrow> string \<Rightarrow> string \<Rightarrow> string result" where
  "xp_operation_id e u i g = bind_r (canonical (JArr [js u, js i, js g, js ''xp''])) (\<lambda>b. Inr (en_uuid5 e b))"

definition submission_of :: "database \<Rightarrow> string \<Rightarrow> string \<Rightarrow> submission option" where
  "submission_of db sid u = first_row (\<lambda>s. sb_id s = sid \<and> sb_user s = u) (submissions db)"

definition task_key :: "task_state \<Rightarrow> string \<times> string \<times> string" where
  "task_key t = (ts_user t, ts_unit t, ts_goal t)"

definition task_of :: "database \<Rightarrow> string \<Rightarrow> string \<Rightarrow> string \<Rightarrow> task_state option" where
  "task_of db u i g = row_by task_key (u, i, g) (task_states db)"

definition revision_by :: "database \<Rightarrow> string \<Rightarrow> engine_revision option" where
  "revision_by db rid = row_by er_id rid (revisions db)"

definition required_passed :: "database \<Rightarrow> string \<Rightarrow> string \<Rightarrow> task_term list \<Rightarrow> bool" where
  "required_passed db u i ts \<longleftrightarrow> list_all (\<lambda>t. tt_required t \<longrightarrow>
     exists_row (\<lambda>s. ts_user s = u \<and> ts_unit s = i \<and> ts_goal s = tt_goal t \<and> ts_passed_at s \<noteq> None) (task_states db)) ts"

definition complete_unit :: "int \<Rightarrow> string \<Rightarrow> string \<Rightarrow> task_term list \<Rightarrow> database \<Rightarrow> bool \<times> database" where
  "complete_unit now u i ts db = (if \<not> required_passed db u i ts then (False, db)
     else let hit = (\<lambda>r. rs_user r = u \<and> rs_unit r = i \<and> rs_status r \<noteq> Completed);
              db' = db\<lparr>rooms := update_rows hit
                (\<lambda>r. r\<lparr>rs_status := Completed, rs_result := Some Passed, rs_updated := now\<rparr>) (rooms db)\<rparr>
          in (count_rows hit (rooms db) = 1 \<or> room_completed db' u i, db'))"

text \<open>The rows a verdict changes: the submission, the task state.\<close>

definition booked_submission :: "int \<Rightarrow> evaluation \<Rightarrow> doc_task \<Rightarrow> submission \<Rightarrow> submission" where
  "booked_submission now ev t s = s\<lparr>sb_state := Booked, sb_open_goal := None, sb_verdict := Some (ev_verdict ev),
     sb_feedback := Some (feedback ev t), sb_counts := Some (ev_verdict ev = V_passed), sb_booked := Some now,
     sb_evaluating := None\<rparr>"

definition booked_task :: "int \<Rightarrow> string \<Rightarrow> task_term \<Rightarrow> bool \<Rightarrow> string \<times> int \<times> int \<Rightarrow> string \<Rightarrow> task_state \<Rightarrow> task_state" where
  "booked_task now op term passed counters sid s =
    (let used = (ts_start_id s = Some sid); first = (passed \<and> \<not> ts_xp_applied s)
     in s\<lparr>ts_band := fst counters, ts_fails := fst (snd counters), ts_passes := snd (snd counters),
       ts_start_id := if used then None else ts_start_id s, ts_start := if used then None else ts_start s,
       ts_start_band := if used then None else ts_start_band s,
       ts_passed_at := if passed \<and> ts_passed_at s = None then Some now else ts_passed_at s,
       ts_xp_applied := first \<or> ts_xp_applied s, ts_xp_operation := if first then Some op else ts_xp_operation s,
       ts_xp_amount := if first then Some (tt_xp term) else ts_xp_amount s,
       ts_xp_skill := if first then Some (tt_subskill term) else ts_xp_skill s, ts_updated := now\<rparr>)"

definition put_submission :: "submission \<Rightarrow> database \<Rightarrow> database" where
  "put_submission s db = db\<lparr>submissions := modify_by sb_id (sb_id s) (\<lambda>_. s) (submissions db)\<rparr>"

definition put_task :: "task_state \<Rightarrow> database \<Rightarrow> database" where
  "put_task s db = db\<lparr>task_states := modify_by task_key (task_key s) (\<lambda>_. s) (task_states db)\<rparr>"

text \<open>The part under the user guard and the row locks.\<close>

definition book_locked :: "env \<Rightarrow> string \<Rightarrow> string \<Rightarrow> evaluation \<Rightarrow> engine_revision \<Rightarrow> doc_task \<Rightarrow> task_term \<Rightarrow> string \<Rightarrow>
    string \<Rightarrow> string \<Rightarrow> database \<Rightarrow> no_booking + (assessment \<times> database)" where
  "book_locked e sid u ev rv t term op i g db =
    (case (task_of db u i g, submission_of db sid u) of
       (Some state, Some row) \<Rightarrow>
         if sb_state row \<noteq> Accepted then Inr (view row (room_completed db u i), db)
         else (case counted (sd_rule (er_document rv)) (ts_band state) (ts_fails state) (ts_passes state)
             (ev_verdict ev = V_passed) of
           Inl er \<Rightarrow> Inl (Broken er)
         | Inr counters \<Rightarrow>
           let passed = (ev_verdict ev = V_passed); first = (passed \<and> \<not> ts_xp_applied state);
               row' = booked_submission (en_now e) ev t row;
               db1 = put_submission row' (put_task (booked_task (en_now e) op term passed counters (sb_start row) state) db);
               (completed, db2) = (if passed then complete_unit (en_now e) u i (er_tasks rv) db1 else (False, db1))
           in Inr ((view row' completed)\<lparr>am_xp := if first then Some (op, tt_xp term) else None\<rparr>, db2))
     | _ \<Rightarrow> Inl Erased_learner)"

definition book_award :: "env \<Rightarrow> string \<Rightarrow> string \<Rightarrow> task_term \<Rightarrow> bool \<Rightarrow> database \<Rightarrow> no_booking + database" where
  "book_award e u op term passed db = (if \<not> passed then Inr db
     else case apply_xp op \<lparr>xq_user = u, xq_skill = tt_subskill term, xq_xp = tt_xp term, xq_earning = op\<rparr>
         \<lparr>ae_now = en_now e, ae_status = en_user_status e u\<rparr> db of
       Inl er \<Rightarrow> Inl No_verdict
     | Inr (receipt, db) \<Rightarrow> if xc_state receipt = ''recipient_erased'' then Inl Erased_learner else Inr db)"

text \<open>A refusal of the award is an \<^verbatim>\<open>HTTPException\<close> or an error of the database; both leave no verdict.\<close>

definition book :: "env \<Rightarrow> string \<Rightarrow> string \<Rightarrow> evaluation \<Rightarrow> database \<Rightarrow> no_booking + (assessment \<times> database)" where
  "book e sid u ev db = (case submission_of db sid u of None \<Rightarrow> Inl Erased_learner
     | Some row \<Rightarrow>
       if sb_state row \<noteq> Accepted then Inr (view row (room_completed db u (sb_unit row)), db)
       else (case revision_by db (sb_revision row) of None \<Rightarrow> Inl (Broken (Crash ''no revision''))
       | Some rv \<Rightarrow>
         (case (find (\<lambda>t. dt_goal t = sb_goal row) (sd_tasks (er_document rv)), find (\<lambda>t. tt_goal t = sb_goal row) (er_tasks rv)) of
            (Some t, Some term) \<Rightarrow>
              if \<not> bound ev t then Inl No_verdict
              else (case xp_operation_id e u (sb_unit row) (sb_goal row) of Inl er \<Rightarrow> Inl (Broken er)
              | Inr op \<Rightarrow>
                (case book_award e u op term (ev_verdict ev = V_passed) db of Inl n \<Rightarrow> Inl n
                | Inr db1 \<Rightarrow>
                  let (guard, db2) = lock_user db1 u
                  in if pu_deleted guard then Inl Erased_learner
                     else book_locked e sid u ev rv t term op (sb_unit row) (sb_goal row) db2))
          | _ \<Rightarrow> Inl (Broken (Crash ''no task'')))))"

section \<open>Settling a submission\<close>

definition LEASE_SECONDS :: int where "LEASE_SECONDS = 30"

definition claim_evaluation :: "int \<Rightarrow> submission \<Rightarrow> submission option" where
  "claim_evaluation now s = (if sb_state s = Accepted \<and> (case sb_evaluating s of None \<Rightarrow> True | Some t \<Rightarrow> t \<le> now)
     then Some (s\<lparr>sb_evaluating := Some (now + LEASE_SECONDS)\<rparr>) else None)"

definition due :: "int \<Rightarrow> submission \<Rightarrow> bool" where
  "due now s \<longleftrightarrow> sb_state s = Accepted \<and> (case sb_evaluating s of None \<Rightarrow> True | Some t \<Rightarrow> t \<le> now)"

text \<open>Up to the commit: the lease, and what is sent to the sandbox.\<close>

definition settle_begin :: "env \<Rightarrow> submission \<Rightarrow> (server_document \<times> json) option handler" where
  "settle_begin e row db = (case (if en_sandbox e then Option.bind (row_by sb_id (sb_id row) (submissions db))
       (claim_evaluation (en_now e)) else None) of
     None \<Rightarrow> Inr (None, db)
   | Some row' \<Rightarrow> (case revision_by db (sb_revision row) of None \<Rightarrow> Inl (Crash ''no revision'')
     | Some rv \<Rightarrow> bind_r (job_of (sb_job row) (sb_goal row) (sb_input row)) (\<lambda>job.
         Inr (Some (er_document rv, job), put_submission row' db))))"

text \<open>After the call: the booking, or a rollback.\<close>

definition settle_end :: "env \<Rightarrow> submission \<Rightarrow> string \<Rightarrow> evaluation option \<Rightarrow> database \<Rightarrow> assessment result \<times> database" where
  "settle_end e row u result db = (case result of None \<Rightarrow> (Inr (view row False), db)
     | Some ev \<Rightarrow> (case book e (sb_id row) u ev db of
         Inr (a, db') \<Rightarrow> (Inr a, db')
       | Inl Erased_learner \<Rightarrow> (Inl (Http 401 ''account gone''), db)
       | Inl No_verdict \<Rightarrow> (Inr (view row False), db)
       | Inl (Broken er) \<Rightarrow> (Inl er, db)))"

text \<open>\<open>base\<close> is what is left when the first transaction fails.\<close>

definition settle :: "env \<Rightarrow> env \<Rightarrow> sandbox \<Rightarrow> submission \<Rightarrow> string \<Rightarrow> database \<Rightarrow> database \<Rightarrow> assessment result \<times> database" where
  "settle e later sa row u base db = (case settle_begin e row db of
     Inl er \<Rightarrow> (Inl er, base)
   | Inr (None, db1) \<Rightarrow> (Inr (view row False), db1)
   | Inr (Some (d, job), db1) \<Rightarrow> settle_end later row u (evaluate e sa d job) db1)"

end
