(* ===== verification/Tasks.thy ===== *)
theory Tasks
  imports Verdicts
begin

text \<open>
  A learner's tasks in a unit of the lesson engine (\<^verbatim>\<open>services/engine_tasks.py\<close>): start, submission and reading
  a submission. A start and a submission run under the account guard; a new submission is committed before it is
  evaluated.
\<close>

definition task_missing :: err where
  "task_missing = Coded 404 ''not_found''"

definition lesson_updated :: err where
  "lesson_updated = Coded 503 ''unavailable''"

definition engine_guarded :: "string \<Rightarrow> unit handler" where
  "engine_guarded u db = (let (guard, db) = lock_user db u in
     if pu_deleted guard then Inl (Http 401 ''account gone'') else Inr ((), db))"

definition engine_unit :: "env \<Rightarrow> database \<Rightarrow> user \<Rightarrow> string \<Rightarrow> string option \<Rightarrow> unit_def result" where
  "engine_unit e db us i ci = bind_r (catalogue_of e db False) (\<lambda>content.
     bind_r (read_states db (us_id us) (unit_scope i ci)) (\<lambda>st.
       case find_unit content i st (ci = None) of
         Inl er \<Rightarrow> Inl (if status_code er = 404 then task_missing else er)
       | Inr un \<Rightarrow>
         if \<not> is_engine_unit un then Inl task_missing
         else bind_r (require_path_access e db us (un_path un) ci (Some (un_id un))) (\<lambda>_. Inr un)))"

definition revision_of :: "database \<Rightarrow> unit_def \<Rightarrow> engine_revision result" where
  "revision_of db un = (case active_revision db (un_id un) of None \<Rightarrow> Inl lesson_updated | Some r \<Rightarrow> Inr r)"

definition document_task :: "engine_revision \<Rightarrow> string \<Rightarrow> doc_task result" where
  "document_task r g = (case find (\<lambda>t. dt_goal t = g) (sd_tasks (er_document r)) of None \<Rightarrow> Inl task_missing | Some t \<Rightarrow> Inr t)"

text \<open>The dictionary by goal: a later pass replaces an earlier one at its place.\<close>

definition unit_assessments :: "database \<Rightarrow> string \<Rightarrow> string \<Rightarrow> assessment list" where
  "unit_assessments db u i =
    (let own = all_rows (\<lambda>s. sb_user s = u \<and> sb_unit s = i \<and> (sb_state s = Accepted \<or> sb_counts s = Some True)) (submissions db);
         completed = room_completed db u i;
         pending = filter (\<lambda>s. sb_state s = Accepted) (sort_key sb_accepted own);
         passes = fold (upsert_by sb_goal) (filter (\<lambda>s. sb_state s = Booked \<and> sb_counts s = Some True)
           (sort_key (\<lambda>s. case sb_booked s of Some t \<Rightarrow> t | None \<Rightarrow> sb_accepted s) own)) []
     in map (\<lambda>s. view s completed) (pending @ passes))"

section \<open>Start\<close>

definition public_start :: "env \<Rightarrow> engine_revision \<Rightarrow> doc_task \<Rightarrow> string \<Rightarrow> public_start result" where
  "public_start e r t band = (case map_of (dt_practice t) band of None \<Rightarrow> Inl (Crash ''no practice in this band'')
     | Some p \<Rightarrow> Inr \<lparr>st_id = en_fresh e 1, st_revision = er_id r, st_goal = dt_goal t, st_case = pc_case p,
         st_config = pc_config p, st_initial = pc_initial p, st_seed = en_fresh e 2\<rparr>)"

definition new_task :: "env \<Rightarrow> string \<Rightarrow> string \<Rightarrow> string \<Rightarrow> engine_revision \<Rightarrow> task_state" where
  "new_task e u i g r = \<lparr>ts_user = u, ts_unit = i, ts_goal = g, ts_revision = er_id r,
     ts_band = br_initial (sd_rule (er_document r)), ts_fails = 0, ts_passes = 0, ts_start_id = None, ts_start = None,
     ts_start_band = None, ts_start_request = None, ts_passed_at = None, ts_xp_applied = False, ts_xp_operation = None,
     ts_xp_amount = None, ts_xp_skill = None, ts_updated = en_now e\<rparr>"

definition pending_of :: "database \<Rightarrow> string \<Rightarrow> string \<Rightarrow> string \<Rightarrow> submission option" where
  "pending_of db u i g = first_row (\<lambda>s. sb_user s = u \<and> sb_unit s = i \<and> sb_goal s = g \<and> sb_state s = Accepted) (submissions db)"

text \<open>The task state a start continues: a new one, one moved to the newer revision, or the one there is.\<close>

definition continued_task :: "env \<Rightarrow> string \<Rightarrow> string \<Rightarrow> string \<Rightarrow> engine_revision \<Rightarrow> bool \<Rightarrow> bool \<Rightarrow> task_state option \<Rightarrow> task_state" where
  "continued_task e u i g r replay pending state = (case state of
     None \<Rightarrow> new_task e u i g r
   | Some s \<Rightarrow> if \<not> replay \<and> \<not> pending \<and> ts_revision s \<noteq> er_id r
     then s\<lparr>ts_revision := er_id r, ts_start_id := None, ts_start := None, ts_start_band := None\<rparr> else s)"

definition with_start :: "env \<Rightarrow> engine_revision \<Rightarrow> doc_task \<Rightarrow> string \<Rightarrow> task_state \<Rightarrow> task_state result" where
  "with_start e r t request s = (if ts_start s \<noteq> None then Inr s
     else bind_r (public_start e r t (ts_band s)) (\<lambda>p. Inr (s\<lparr>ts_start_id := Some (st_id p), ts_start := Some p,
       ts_start_band := Some (ts_band s), ts_start_request := Some request\<rparr>)))"

definition save_task :: "task_state option \<Rightarrow> task_state \<Rightarrow> database \<Rightarrow> database" where
  "save_task old s db = (case old of None \<Rightarrow> db\<lparr>task_states := add_row s (task_states db)\<rparr> | Some _ \<Rightarrow> put_task s db)"

definition start_task :: "env \<Rightarrow> string \<Rightarrow> string \<Rightarrow> start_request \<Rightarrow> user \<Rightarrow> (public_start option \<times> assessment list) handler" where
  "start_task e i g d us db0 = bind_r (engine_guarded (us_id us) db0) (\<lambda>(_, db).
     bind_r (engine_unit e db us i (sq_course d)) (\<lambda>un.
     bind_r (revision_of db un) (\<lambda>r.
     if sq_revision d \<noteq> er_id r then Inl (Coded 409 ''revision_changed'')
     else bind_r (document_task r g) (\<lambda>t.
       let old = task_of db (us_id us) (un_id un) g; pending = pending_of db (us_id us) (un_id un) g;
           replay = (case old of None \<Rightarrow> False | Some s \<Rightarrow> ts_start s \<noteq> None \<and> ts_start_request s = Some (sq_request d))
       in if pending \<noteq> None \<and> \<not> replay \<and> (case old of None \<Rightarrow> False | Some s \<Rightarrow> ts_revision s \<noteq> er_id r)
          then Inl (Coded 409 ''pending'')
          else bind_r (with_start e r t (sq_request d)
              (continued_task e (us_id us) (un_id un) g r replay (pending \<noteq> None) old)) (\<lambda>s.
            bind_r (start_unit e us (un_id un) (sq_course d) True (save_task old (s\<lparr>ts_updated := en_now e\<rparr>) db)) (\<lambda>(_, db').
              Inr ((ts_start s, unit_assessments db' (us_id us) (un_id un)), db')))))))"

section \<open>Submission\<close>

text \<open>The plan that is saved in the room.\<close>

definition saved_plan :: "room_state \<Rightarrow> string \<Rightarrow> json option" where
  "saved_plan r g = (case Option.bind (jget ''plans'' (rs_state r)) (jget g) of Some JNull \<Rightarrow> None | v \<Rightarrow> v)"

definition same_plan :: "json \<Rightarrow> json \<Rightarrow> bool" where
  "same_plan v w = (case (canonical v, canonical w) of (Inr a, Inr b) \<Rightarrow> a = b | _ \<Rightarrow> False)"

definition new_submission :: "env \<Rightarrow> string \<Rightarrow> string \<Rightarrow> string \<Rightarrow> string \<Rightarrow> json \<Rightarrow> task_state \<Rightarrow> engine_revision \<Rightarrow> submission" where
  "new_submission e u i g hash plan s r = \<lparr>sb_id = en_fresh e 1, sb_user = u, sb_unit = i, sb_goal = g, sb_open_goal = Some g,
     sb_revision = ts_revision s, sb_start = the (ts_start_id s), sb_input_hash = hash, sb_input = plan,
     sb_job = \<lparr>jb_revision = er_id r, jb_start = ts_start s, jb_band = ts_start_band s, jb_server_sha = er_server_sha r\<rparr>,
     sb_state = Accepted, sb_verdict = None, sb_feedback = None, sb_counts = None, sb_accepted = en_now e, sb_booked = None,
     sb_evaluating = None\<rparr>"

text \<open>The unique constraints an insertion can meet.\<close>

definition submission_collides :: "submission \<Rightarrow> submission list \<Rightarrow> bool" where
  "submission_collides s t = exists_row (\<lambda>r. sb_id r = sb_id s \<or>
     (sb_user r, sb_unit r) = (sb_user s, sb_unit s) \<and> sb_open_goal r = sb_open_goal s \<and> sb_open_goal s \<noteq> None \<or>
     (sb_user r, sb_unit r, sb_goal r, sb_start r) = (sb_user s, sb_unit s, sb_goal s, sb_start s)) t"

text \<open>Up to the commit: the earlier submission of the same plan (\<open>Inl\<close>), or a new one.\<close>

definition accept_plan :: "env \<Rightarrow> string \<Rightarrow> string \<Rightarrow> submit_request \<Rightarrow> user \<Rightarrow> (submission + submission) handler" where
  "accept_plan e i g d us db0 = bind_r (engine_guarded (us_id us) db0) (\<lambda>(_, db).
     bind_r (engine_unit e db us i (uq_course d)) (\<lambda>un.
     let plan = dump_plan (uq_plan d) in
     case canonical plan of Inl er \<Rightarrow> Inl (Coded 422 ''plan_invalid'')
     | Inr bytes \<Rightarrow>
       let hash = en_sha256 e bytes; u = us_id us; k = un_id un;
           of_start = (\<lambda>sid s. sb_user s = u \<and> sb_unit s = k \<and> sb_goal s = g \<and> sb_start s = sid)
       in (case task_of db u k g of None \<Rightarrow> Inl (Coded 409 ''start_required'')
       | Some state \<Rightarrow>
         (case ts_start_id state of None \<Rightarrow> Inl (Coded 409 ''start_required'')
         | Some sid \<Rightarrow>
           (case first_row (\<lambda>s. of_start (uq_start d) s \<and> sb_input_hash s = hash) (submissions db) of
             Some same \<Rightarrow> Inr (Inl same, db)
           | None \<Rightarrow>
             if sid \<noteq> uq_start d then Inl (Coded 409 ''start_required'')
             else if exists_row (of_start sid) (submissions db) then Inl (Coded 409 ''start_required'')
             else if (case room_of db u k of None \<Rightarrow> True
               | Some r \<Rightarrow> rs_revision r \<noteq> uq_state_revision d \<or>
                   (case saved_plan r g of None \<Rightarrow> True | Some v \<Rightarrow> \<not> same_plan v plan))
             then Inl (Coded 409 ''conflict'')
             else (case revision_by db (ts_revision state) of None \<Rightarrow> Inl lesson_updated
             | Some r \<Rightarrow> bind_r (document_task r g) (\<lambda>t.
                 if plan_kind (uq_plan d) \<noteq> dt_input t then Inl (Coded 422 ''plan_kind'')
                 else let row = new_submission e u k g hash plan state r
                      in if submission_collides row (submissions db) then Inl (Coded 409 ''conflict'')
                         else Inr (Inr row, db\<lparr>submissions := add_row row (submissions db)\<rparr>)))))))) "

definition submit :: "env \<Rightarrow> env \<Rightarrow> sandbox \<Rightarrow> string \<Rightarrow> string \<Rightarrow> submit_request \<Rightarrow> user \<Rightarrow> database \<Rightarrow> (assessment \<times> nat) result \<times> database" where
  "submit e later sa i g d us db = (case accept_plan e i g d us db of
     Inl er \<Rightarrow> (Inl er, db)
   | Inr (Inl same, db1) \<Rightarrow>
       (Inr (view same (room_completed db1 (us_id us) (sb_unit same)), if sb_state same = Accepted then 202 else 200), db1)
   | Inr (Inr row, db1) \<Rightarrow> (case settle e later sa row (us_id us) db db1 of
       (Inl er, db2) \<Rightarrow> (Inl er, db2)
     | (Inr a, db2) \<Rightarrow> (Inr (a, if am_final a then 200 else 202), db2)))"

definition submission_status :: "env \<Rightarrow> env \<Rightarrow> sandbox \<Rightarrow> string \<Rightarrow> user \<Rightarrow> database \<Rightarrow> assessment result \<times> database" where
  "submission_status e later sa aid us db = (case submission_of db aid (us_id us) of
     None \<Rightarrow> (Inl task_missing, db)
   | Some row \<Rightarrow> if due (en_now e) row then settle e later sa row (us_id us) db db
     else (Inr (view row (room_completed db (us_id us) (sb_unit row))), db))"

end
