(* ===== verification/Engine.thy ===== *)
theory Engine
  imports Tasks
begin

text \<open>
  The lesson engine as a transition system: its transactions in any order and by any learners, the constraints of
  its tables as an invariant, and what follows for submissions, XP and units.
\<close>

section \<open>Frames\<close>

lemma apply_xp_frame:
  assumes "apply_xp op q env db = Inr (res, db')"
  shows "submissions db' = submissions db \<and> task_states db' = task_states db \<and> revisions db' = revisions db \<and>
    rooms db' = rooms db"
  using assms
proof (cases rule: apply_xp_cases)
  case (applied db1)
  obtain t where "db1 = snd (lock_user (snd (lock_user (claim_operation (ae_now env) op q db) (xq_user q))) (xq_user q))\<lparr>xps := t\<rparr>"
    using add_xp_InrD(5) [OF applied(4)] by blast
  with applied(5) show ?thesis by (simp add: claim_operation_def)
qed (auto simp: Let_def claim_operation_def)

lemma same_but_starts_engine:
  assumes "same_but_starts a b"
  shows "submissions b = submissions a" "task_states b = task_states a" "revisions b = revisions a"
    "xps b = xps a" "xp_operations b = xp_operations a"
proof -
  have b: "b = a\<lparr>starts := starts b, start_receipts := start_receipts b\<rparr>"
    using assms by (simp add: same_but_starts_def)
  show "submissions b = submissions a" by (subst b) simp
  show "task_states b = task_states a" by (subst b) simp
  show "revisions b = revisions a" by (subst b) simp
  show "xps b = xps a" by (subst b) simp
  show "xp_operations b = xp_operations a" by (subst b) simp
qed

lemma book_award_frame:
  "book_award e u op tm passed db = Inr db' \<Longrightarrow>
    submissions db' = submissions db \<and> task_states db' = task_states db \<and> revisions db' = revisions db \<and> rooms db' = rooms db"
  by (auto simp: book_award_def dest: apply_xp_frame split: if_splits sum.splits)

lemma complete_unit_frame:
  "complete_unit now u i ts db = (c, db') \<Longrightarrow> \<exists>t. db' = db\<lparr>rooms := t\<rparr>"
  by (auto simp: complete_unit_def Let_def split: if_splits intro: exI [of _ "rooms db"])

text \<open>A booking reads a booked submission, or books an accepted one.\<close>

lemma book_cases:
  assumes "book e sid u ev db = Inr (a, db')"
  obtains (old) row where "submission_of db sid u = Some row" "sb_state row \<noteq> Accepted"
      "a = view row (room_completed db u (sb_unit row))" "db' = db"
  | (booked) row rv t tm op db1 state counters completed where
      "submission_of db sid u = Some row" "sb_state row = Accepted" "revision_by db (sb_revision row) = Some rv"
      "find (\<lambda>t. dt_goal t = sb_goal row) (sd_tasks (er_document rv)) = Some t"
      "find (\<lambda>t. tt_goal t = sb_goal row) (er_tasks rv) = Some tm" "bound ev t"
      "xp_operation_id e u (sb_unit row) (sb_goal row) = Inr op"
      "book_award e u op tm (ev_verdict ev = V_passed) db = Inr db1" "\<not> erased db1 u"
      "task_of db u (sb_unit row) (sb_goal row) = Some state"
      "counted (sd_rule (er_document rv)) (ts_band state) (ts_fails state) (ts_passes state) (ev_verdict ev = V_passed) = Inr counters"
      "(completed, db') = (let db2 = put_submission (booked_submission (en_now e) ev t row)
          (put_task (booked_task (en_now e) op tm (ev_verdict ev = V_passed) counters (sb_start row) state) (snd (lock_user db1 u)))
        in if ev_verdict ev = V_passed then complete_unit (en_now e) u (sb_unit row) (er_tasks rv) db2 else (False, db2))"
      "a = (view (booked_submission (en_now e) ev t row) completed)\<lparr>am_xp :=
         if ev_verdict ev = V_passed \<and> \<not> ts_xp_applied state then Some (op, tt_xp tm) else None\<rparr>"
proof -
  obtain row where row: "submission_of db sid u = Some row"
    using assms by (cases "submission_of db sid u") (simp_all add: book_def)
  show thesis
  proof (cases "sb_state row = Accepted")
    case False
    with assms row have "a = view row (room_completed db u (sb_unit row))" "db' = db" by (auto simp: book_def)
    from old [OF row False this] show thesis .
  next
    case True
    obtain rv where rv: "revision_by db (sb_revision row) = Some rv"
      using assms row True by (cases "revision_by db (sb_revision row)") (simp_all add: book_def)
    obtain t where t: "find (\<lambda>t. dt_goal t = sb_goal row) (sd_tasks (er_document rv)) = Some t"
      using assms row True rv by (cases "find (\<lambda>t. dt_goal t = sb_goal row) (sd_tasks (er_document rv))") (simp_all add: book_def)
    obtain tm where tm: "find (\<lambda>t. tt_goal t = sb_goal row) (er_tasks rv) = Some tm"
      using assms row True rv t by (cases "find (\<lambda>t. tt_goal t = sb_goal row) (er_tasks rv)") (simp_all add: book_def)
    have b: "bound ev t" using assms row True rv t tm by (simp add: book_def split: if_splits)
    obtain op where op: "xp_operation_id e u (sb_unit row) (sb_goal row) = Inr op"
      using assms row True rv t tm b by (cases "xp_operation_id e u (sb_unit row) (sb_goal row)") (simp_all add: book_def)
    obtain db1 where db1: "book_award e u op tm (ev_verdict ev = V_passed) db = Inr db1"
      using assms row True rv t tm b op
      by (cases "book_award e u op tm (ev_verdict ev = V_passed) db") (simp_all add: book_def)
    let ?db2 = "snd (lock_user db1 u)"
    have g: "\<not> erased db1 u" and locked: "book_locked e sid u ev rv t tm op (sb_unit row) (sb_goal row) ?db2 = Inr (a, db')"
      using assms row True rv t tm b op db1 by (simp_all add: book_def case_prod_beta split: if_splits)
    note fr = book_award_frame [OF db1]
    have row2: "submission_of ?db2 sid u = Some row" using row fr by (simp add: submission_of_def)
    obtain state where st: "task_of ?db2 u (sb_unit row) (sb_goal row) = Some state"
      using locked by (cases "task_of ?db2 u (sb_unit row) (sb_goal row)") (simp_all add: book_locked_def)
    obtain counters where c: "counted (sd_rule (er_document rv)) (ts_band state) (ts_fails state) (ts_passes state)
        (ev_verdict ev = V_passed) = Inr counters"
      using locked row2 st True by (auto simp: book_locked_def Let_def split: sum.splits prod.splits)
    have st': "task_of db u (sb_unit row) (sb_goal row) = Some state" using st fr by (simp add: task_of_def)
    obtain completed db3 where d: "(completed, db3) = (let db2 = put_submission (booked_submission (en_now e) ev t row)
          (put_task (booked_task (en_now e) op tm (ev_verdict ev = V_passed) counters (sb_start row) state) ?db2)
        in if ev_verdict ev = V_passed then complete_unit (en_now e) u (sb_unit row) (er_tasks rv) db2 else (False, db2))"
      by (metis surj_pair)
    with locked row2 st c True have "db' = db3 \<and> a = (view (booked_submission (en_now e) ev t row) completed)\<lparr>am_xp :=
         if ev_verdict ev = V_passed \<and> \<not> ts_xp_applied state then Some (op, tt_xp tm) else None\<rparr>"
      by (auto simp: book_locked_def Let_def split: prod.splits if_splits)
    with booked [OF row True rv t tm b op db1 g st' c _ ] d show thesis by metis
  qed
qed

section \<open>The constraints of the tables\<close>

definition submission_ok :: "submission \<Rightarrow> bool" where
  "submission_ok s = (case sb_state s of
     Accepted \<Rightarrow> sb_open_goal s = Some (sb_goal s) \<and> sb_verdict s = None \<and> sb_booked s = None \<and> sb_counts s = None \<and>
       sb_feedback s = None
   | Booked \<Rightarrow> sb_open_goal s = None \<and> sb_verdict s \<noteq> None \<and> sb_booked s \<noteq> None \<and> sb_feedback s \<noteq> None \<and>
       sb_counts s = Some (sb_verdict s = Some V_passed))"

definition task_ok :: "task_state \<Rightarrow> bool" where
  "task_ok t \<longleftrightarrow> (ts_start_id t = None) = (ts_start t = None) \<and> (ts_start_band t = None) = (ts_start t = None) \<and>
     (ts_xp_applied t \<longrightarrow> ts_xp_operation t \<noteq> None \<and> ts_xp_amount t \<noteq> None \<and> ts_xp_skill t \<noteq> None \<and> ts_passed_at t \<noteq> None)"

definition start_key :: "submission \<Rightarrow> string \<times> string \<times> string \<times> string" where
  "start_key s = (sb_user s, sb_unit s, sb_goal s, sb_start s)"

definition engine_keys :: "database \<Rightarrow> bool" where
  "engine_keys db \<longleftrightarrow> unique_by sb_id (submissions db) \<and> unique_by start_key (submissions db) \<and> unique_by task_key (task_states db)"

text \<open>An open submission holds the start of its task.\<close>

definition holds_start :: "task_state list \<Rightarrow> submission \<Rightarrow> bool" where
  "holds_start ts s \<longleftrightarrow> (sb_state s = Accepted \<longrightarrow>
     (\<exists>t\<in>set ts. task_key t = (sb_user s, sb_unit s, sb_goal s) \<and> ts_start_id t = Some (sb_start s)))"

definition engine_ok :: "database \<Rightarrow> bool" where
  "engine_ok db \<longleftrightarrow> engine_keys db \<and> list_all submission_ok (submissions db) \<and> list_all task_ok (task_states db) \<and>
     list_all (holds_start (task_states db)) (submissions db)"

lemma engine_ok_cong:
  "submissions db' = submissions db \<Longrightarrow> task_states db' = task_states db \<Longrightarrow> engine_ok db' = engine_ok db"
  by (simp add: engine_ok_def engine_keys_def)

lemma submission_of_SomeD:
  "submission_of db sid u = Some s \<Longrightarrow> s \<in> set (submissions db) \<and> sb_id s = sid \<and> sb_user s = u"
  unfolding submission_of_def by (drule first_row_SomeD) simp

lemma task_of_SomeD: "task_of db u i g = Some t \<Longrightarrow> t \<in> set (task_states db) \<and> task_key t = (u, i, g)"
  unfolding task_of_def by (rule row_by_SomeD)

lemma task_of_unique:
  "unique_by task_key (task_states db) \<Longrightarrow> t \<in> set (task_states db) \<Longrightarrow> task_key t = (u, i, g) \<Longrightarrow> task_of db u i g = Some t"
  unfolding task_of_def by (metis unique_by_row)

lemma set_put_submission:
  "set (submissions (put_submission s db)) = (\<lambda>r. if sb_id r = sb_id s then s else r) ` set (submissions db)"
  by (simp add: put_submission_def modify_by_def row_simps)

lemma set_put_task:
  "set (task_states (put_task s db)) = (\<lambda>r. if task_key r = task_key s then s else r) ` set (task_states db)"
  by (simp add: put_task_def modify_by_def row_simps)

lemma put_frames [simp]:
  "task_states (put_submission s db) = task_states db" "submissions (put_task t db) = submissions db"
  "revisions (put_submission s db) = revisions db" "revisions (put_task t db) = revisions db"
  "rooms (put_submission s db) = rooms db" "rooms (put_task t db) = rooms db"
  "xps (put_submission s db) = xps db" "xps (put_task t db) = xps db"
  "xp_operations (put_submission s db) = xp_operations db" "xp_operations (put_task t db) = xp_operations db"
  by (simp_all add: put_submission_def put_task_def)

lemma unique_put:
  "unique_by k t \<Longrightarrow> (\<And>r. r \<in> set t \<Longrightarrow> key r = key s \<Longrightarrow> k s = k r) \<Longrightarrow> unique_by k (modify_by key (key s) (\<lambda>_. s) t)"
proof -
  assume u: "unique_by k t" and k: "\<And>r. r \<in> set t \<Longrightarrow> key r = key s \<Longrightarrow> k s = k r"
  have "map k (modify_by key (key s) (\<lambda>_. s) t) = map k t"
    using k by (auto simp: modify_by_def update_rows_def)
  with u show ?thesis by (simp add: unique_by_def)
qed

text \<open>At most one submission of a task is open: it holds the task's start, and a start carries one.\<close>

lemma open_unique:
  assumes "engine_ok db" "s \<in> set (submissions db)" "s' \<in> set (submissions db)" "sb_state s = Accepted" "sb_state s' = Accepted"
    "(sb_user s, sb_unit s, sb_goal s) = (sb_user s', sb_unit s', sb_goal s')"
  shows "s = s'"
proof -
  obtain t where t: "t \<in> set (task_states db)" "task_key t = (sb_user s, sb_unit s, sb_goal s)" "ts_start_id t = Some (sb_start s)"
    using assms(1,2,4) by (auto simp: engine_ok_def holds_start_def list_all_iff)
  obtain t' where t': "t' \<in> set (task_states db)" "task_key t' = (sb_user s', sb_unit s', sb_goal s')"
      "ts_start_id t' = Some (sb_start s')"
    using assms(1,3,5) by (auto simp: engine_ok_def holds_start_def list_all_iff)
  have "t = t'" using assms(1,6) t t' unique_by_inj [of task_key "task_states db" t t']
    by (simp add: engine_ok_def engine_keys_def)
  with t t' assms(6) have "start_key s = start_key s'" by (simp add: start_key_def)
  with assms(1-3) show ?thesis using unique_by_inj [of start_key "submissions db" s s']
    by (simp add: engine_ok_def engine_keys_def)
qed

section \<open>The transactions keep them\<close>

lemma engine_guarded_Inr: "engine_guarded u db0 = Inr (x, db) \<Longrightarrow> db = snd (lock_user db0 u) \<and> \<not> erased db0 u"
  by (auto simp: engine_guarded_def case_prod_beta Let_def split: if_splits)

lemma continued_task_key:
  "old = None \<or> (\<exists>s. old = Some s \<and> task_key s = (u, i, g)) \<Longrightarrow> task_key (continued_task e u i g r rp pd old) = (u, i, g)"
  by (auto simp: continued_task_def new_task_def task_key_def)

lemma with_start_Inr:
  assumes "with_start e r t q s = Inr s'" "task_ok s"
  shows "task_key s' = task_key s" "task_ok s'" "ts_start s' \<noteq> None" "ts_start_id s \<noteq> None \<Longrightarrow> s' = s"
    "ts_xp_applied s' = ts_xp_applied s"
  using assms by (auto simp: with_start_def public_start_def task_key_def task_ok_def result_simps split: if_splits option.splits)

lemma set_save_task:
  "set (task_states (save_task old s db)) = (case old of None \<Rightarrow> insert s (set (task_states db))
     | Some _ \<Rightarrow> (\<lambda>r. if task_key r = task_key s then s else r) ` set (task_states db))"
  by (simp add: save_task_def set_put_task row_simps split: option.split)

text \<open>The changes of a start.\<close>

lemma start_task_Inr:
  assumes "start_task e i g d us db0 = Inr (ans, db')"
  obtains db and un :: unit_def and r t old s where "db = snd (lock_user db0 (us_id us))" "\<not> erased db0 (us_id us)"
    "active_revision db (un_id un) = Some r" "er_id r = sq_revision d"
    "find (\<lambda>t. dt_goal t = g) (sd_tasks (er_document r)) = Some t"
    "old = task_of db (us_id us) (un_id un) g"
    "with_start e r t (sq_request d) (continued_task e (us_id us) (un_id un) g r
       (case old of None \<Rightarrow> False | Some s \<Rightarrow> ts_start s \<noteq> None \<and> ts_start_request s = Some (sq_request d))
       (pending_of db (us_id us) (un_id un) g \<noteq> None) old) = Inr s"
    "same_but_starts (save_task old (s\<lparr>ts_updated := en_now e\<rparr>) db) db'" "fst ans = ts_start s"
    "\<exists>x. start_unit e us (un_id un) (sq_course d) True (save_task old (s\<lparr>ts_updated := en_now e\<rparr>) db) = Inr (x, db')"
proof -
  obtain db where db: "engine_guarded (us_id us) db0 = Inr ((), db)"
    using assms by (cases "engine_guarded (us_id us) db0") (auto simp: start_task_def)
  obtain un where un: "engine_unit e db us i (sq_course d) = Inr un"
    using assms db by (cases "engine_unit e db us i (sq_course d)") (auto simp: start_task_def)
  obtain r where r: "revision_of db un = Inr r"
    using assms db un by (cases "revision_of db un") (auto simp: start_task_def)
  then have r': "active_revision db (un_id un) = Some r" by (simp add: revision_of_def split: option.splits)
  have q: "er_id r = sq_revision d" using assms db un r by (auto simp: start_task_def split: if_splits)
  obtain t where t: "document_task r g = Inr t"
    using assms db un r q by (cases "document_task r g") (auto simp: start_task_def)
  let ?old = "task_of db (us_id us) (un_id un) g"
  let ?s = "with_start e r t (sq_request d) (continued_task e (us_id us) (un_id un) g r
       (case ?old of None \<Rightarrow> False | Some s \<Rightarrow> ts_start s \<noteq> None \<and> ts_start_request s = Some (sq_request d))
       (pending_of db (us_id us) (un_id un) g \<noteq> None) ?old)"
  have "bind_r ?s (\<lambda>s. bind_r (start_unit e us (un_id un) (sq_course d) True (save_task ?old (s\<lparr>ts_updated := en_now e\<rparr>) db)) (\<lambda>(_, db').
              Inr ((ts_start s, unit_assessments db' (us_id us) (un_id un)), db'))) = Inr (ans, db')"
    using assms db un r q t by (simp add: start_task_def Let_def split: if_splits)
  then obtain s x where s: "?s = Inr s" "start_unit e us (un_id un) (sq_course d) True
      (save_task ?old (s\<lparr>ts_updated := en_now e\<rparr>) db) = Inr (x, db')" "fst ans = ts_start s"
    by (auto simp: result_simps)
  have "find (\<lambda>t. dt_goal t = g) (sd_tasks (er_document r)) = Some t" using t by (simp add: document_task_def split: option.splits)
  with engine_guarded_Inr [OF db] r' q s start_unit_frame [OF s(2)] that [of db un r t ?old s] show thesis by auto
qed

lemma engine_ok_start:
  assumes ok: "engine_ok db0" and run: "start_task e i g d us db0 = Inr (ans, db')"
  shows "engine_ok db'"
proof -
  obtain db and un :: unit_def and r t old s where st: "db = snd (lock_user db0 (us_id us))"
    "old = task_of db (us_id us) (un_id un) g"
    "with_start e r t (sq_request d) (continued_task e (us_id us) (un_id un) g r
       (case old of None \<Rightarrow> False | Some s \<Rightarrow> ts_start s \<noteq> None \<and> ts_start_request s = Some (sq_request d))
       (pending_of db (us_id us) (un_id un) g \<noteq> None) old) = Inr s"
    "same_but_starts (save_task old (s\<lparr>ts_updated := en_now e\<rparr>) db) db'"
    by (rule start_task_Inr [OF run]) blast
  let ?key = "(us_id us, un_id un, g)" and ?s = "s\<lparr>ts_updated := en_now e\<rparr>"
  define c where "c = continued_task e (us_id us) (un_id un) g r
       (case old of None \<Rightarrow> False | Some s \<Rightarrow> ts_start s \<noteq> None \<and> ts_start_request s = Some (sq_request d))
       (pending_of db (us_id us) (un_id un) g \<noteq> None) old"
  have ok: "engine_ok db" using ok st(1) engine_ok_cong [of "snd (lock_user db0 (us_id us))" db0] by simp
  have old: "old = None \<or> (\<exists>s. old = Some s \<and> s \<in> set (task_states db) \<and> task_key s = ?key)"
    unfolding st(2) by (cases "task_of db (us_id us) (un_id un) g") (auto dest: task_of_SomeD)
  have "task_ok c" using old ok
    by (auto simp: c_def continued_task_def new_task_def engine_ok_def list_all_iff task_ok_def)
  note ws = with_start_Inr [OF st(3) [folded c_def] this]
  have key: "task_key ?s = ?key" using ws(1) continued_task_key [of old] old
    by (auto simp: c_def task_key_def)
  have tables: "submissions db' = submissions db" "task_states db' = task_states (save_task old ?s db)"
    using same_but_starts_engine [OF st(4)] by (simp_all add: save_task_def split: option.split)
  have unique: "unique_by task_key (task_states (save_task old ?s db))"
  proof (cases old)
    case None
    then have "?key \<notin> task_key ` set (task_states db)" using st(2) by (simp add: task_of_def row_by_None)
    with None ok key show ?thesis by (simp add: save_task_def unique_by_add engine_ok_def engine_keys_def)
  next
    case (Some o)
    with ok show ?thesis by (simp add: save_task_def put_task_def unique_put engine_ok_def engine_keys_def)
  qed
  have valid: "list_all task_ok (task_states (save_task old ?s db))"
    using ok ws(2) by (auto simp: list_all_iff set_save_task engine_ok_def task_ok_def split: option.splits)
  have holds: "holds_start (task_states (save_task old ?s db)) x" if x: "x \<in> set (submissions db)" for x
    unfolding holds_start_def
  proof
    assume acc: "sb_state x = Accepted"
    with ok x obtain t0 where t0: "t0 \<in> set (task_states db)" "task_key t0 = (sb_user x, sb_unit x, sb_goal x)"
        "ts_start_id t0 = Some (sb_start x)" by (auto simp: engine_ok_def holds_start_def list_all_iff)
    show "\<exists>t\<in>set (task_states (save_task old ?s db)). task_key t = (sb_user x, sb_unit x, sb_goal x) \<and> ts_start_id t = Some (sb_start x)"
    proof (cases "task_key t0 = ?key")
      case False
      with t0 key show ?thesis by (intro bexI [of _ t0]) (auto simp: set_save_task image_iff split: option.splits intro!: bexI [of _ t0])
    next
      case True
      then have o: "old = Some t0" unfolding st(2)
        using ok t0(1) by (intro task_of_unique) (simp_all add: engine_ok_def engine_keys_def)
      have "pending_of db (us_id us) (un_id un) g \<noteq> None"
        unfolding pending_of_def using x acc t0(2) True by (auto simp: first_row_None)
      then have "c = t0" by (simp add: c_def o continued_task_def)
      with ws(4) t0(3) have "s = t0" by simp
      with t0 key True have "?s \<in> set (task_states (save_task old ?s db))"
        by (auto simp: set_save_task o image_iff intro!: bexI [of _ t0])
      moreover have "task_key ?s = (sb_user x, sb_unit x, sb_goal x)" using key True t0(2) by simp
      moreover have "ts_start_id ?s = Some (sb_start x)" using \<open>s = t0\<close> t0(3) by simp
      ultimately show ?thesis by blast
    qed
  qed
  show ?thesis using ok unique valid holds tables by (simp add: engine_ok_def engine_keys_def list_all_iff)
qed

text \<open>What an accepted plan adds.\<close>

lemma accept_plan_Inr:
  assumes "accept_plan e i g d us db0 = Inr (x, db')"
  obtains (again) same where "x = Inl same" "db' = snd (lock_user db0 (us_id us))" "same \<in> set (submissions db0)"
      "sb_user same = us_id us" "sb_goal same = g" "sb_start same = uq_start d"
  | (fresh) db and un :: unit_def and state r where "db = snd (lock_user db0 (us_id us))" "\<not> erased db0 (us_id us)"
      "task_of db (us_id us) (un_id un) g = Some state" "ts_start_id state = Some (uq_start d)"
      "revision_by db (ts_revision state) = Some r"
      "x = Inr (new_submission e (us_id us) (un_id un) g (en_sha256 e (projr (canonical (dump_plan (uq_plan d))))) (dump_plan (uq_plan d)) state r)"
      "\<not> submission_collides (projr x) (submissions db)" "db' = db\<lparr>submissions := add_row (projr x) (submissions db)\<rparr>"
      "\<exists>row v. room_of db (us_id us) (un_id un) = Some row \<and> rs_revision row = uq_state_revision d \<and>
         saved_plan row g = Some v \<and> same_plan v (dump_plan (uq_plan d))"
proof -
  obtain db where db: "engine_guarded (us_id us) db0 = Inr ((), db)"
    using assms by (cases "engine_guarded (us_id us) db0") (auto simp: accept_plan_def)
  note gd = engine_guarded_Inr [OF db]
  obtain un where un: "engine_unit e db us i (uq_course d) = Inr un"
    using assms db by (cases "engine_unit e db us i (uq_course d)") (auto simp: accept_plan_def)
  obtain bytes where bytes: "canonical (dump_plan (uq_plan d)) = Inr bytes"
    using assms db un by (cases "canonical (dump_plan (uq_plan d))") (auto simp: accept_plan_def Let_def)
  obtain state where state: "task_of db (us_id us) (un_id un) g = Some state"
    using assms db un bytes by (cases "task_of db (us_id us) (un_id un) g") (auto simp: accept_plan_def Let_def)
  obtain sid where sid: "ts_start_id state = Some sid"
    using assms db un bytes state by (cases "ts_start_id state") (auto simp: accept_plan_def Let_def)
  let ?same = "first_row (\<lambda>s. (sb_user s = us_id us \<and> sb_unit s = un_id un \<and> sb_goal s = g \<and> sb_start s = uq_start d) \<and>
    sb_input_hash s = en_sha256 e bytes) (submissions db)"
  show thesis
  proof (cases ?same)
    case (Some same)
    with assms db un bytes state sid have "x = Inl same" "db' = db" by (auto simp: accept_plan_def Let_def)
    with first_row_SomeD [OF Some] gd show thesis by (intro again [of same]) simp_all
  next
    case None
    have sid': "sid = uq_start d" and room: "\<not> (case room_of db (us_id us) (un_id un) of None \<Rightarrow> True
               | Some r \<Rightarrow> rs_revision r \<noteq> uq_state_revision d \<or>
                   (case saved_plan r g of None \<Rightarrow> True | Some v \<Rightarrow> \<not> same_plan v (dump_plan (uq_plan d))))"
      using assms db un bytes state sid None by (auto simp: accept_plan_def Let_def split: if_splits)
    obtain r where r: "revision_by db (ts_revision state) = Some r"
      using assms db un bytes state sid None sid' room
      by (cases "revision_by db (ts_revision state)") (auto simp: accept_plan_def Let_def split: if_splits)
    have "x = Inr (new_submission e (us_id us) (un_id un) g (en_sha256 e bytes) (dump_plan (uq_plan d)) state r)"
      "\<not> submission_collides (projr x) (submissions db)" "db' = db\<lparr>submissions := add_row (projr x) (submissions db)\<rparr>"
      using assms db un bytes state sid None sid' room r
      by (auto simp: accept_plan_def Let_def result_simps split: if_splits)
    moreover have "\<exists>row v. room_of db (us_id us) (un_id un) = Some row \<and> rs_revision row = uq_state_revision d \<and>
         saved_plan row g = Some v \<and> same_plan v (dump_plan (uq_plan d))"
      using room by (auto split: option.splits)
    ultimately show thesis using gd state sid sid' r bytes by (intro fresh [of db un state r]) simp_all
  qed
qed

lemma engine_ok_accept:
  assumes ok: "engine_ok db0" and run: "accept_plan e i g d us db0 = Inr (x, db')"
  shows "engine_ok db'"
  using run
proof (cases rule: accept_plan_Inr)
  case (again same)
  with ok engine_ok_cong [of "snd (lock_user db0 (us_id us))" db0] show ?thesis by simp
next
  case (fresh db un state r)
  let ?row = "projr x"
  have ok: "engine_ok db" using ok fresh(1) engine_ok_cong [of "snd (lock_user db0 (us_id us))" db0] by simp
  have row: "submission_ok ?row" "sb_state ?row = Accepted" "sb_user ?row = us_id us" "sb_unit ?row = un_id un" "sb_goal ?row = g"
    "sb_start ?row = uq_start d"
    using fresh(4) unfolding fresh(6) by (simp_all add: new_submission_def submission_ok_def)
  have "sb_id ?row \<notin> sb_id ` set (submissions db)" "start_key ?row \<notin> start_key ` set (submissions db)"
    using fresh(7) by (auto simp: submission_collides_def exists_row_iff start_key_def)
  then have "engine_keys db'" using ok unfolding fresh(8) by (simp add: engine_ok_def engine_keys_def unique_by_add)
  moreover have "holds_start (task_states db) ?row"
    using task_of_SomeD [OF fresh(3)] fresh(4) row by (auto simp: holds_start_def)
  ultimately show ?thesis using ok row(1) unfolding fresh(8) by (simp add: engine_ok_def list_all_iff row_simps)
qed

lemma claim_evaluation_Some:
  "claim_evaluation now s = Some s' \<Longrightarrow> sb_state s = Accepted \<and> s' = s\<lparr>sb_evaluating := Some (now + LEASE_SECONDS)\<rparr>"
  by (simp add: claim_evaluation_def split: if_splits)

text \<open>The first transaction of an evaluation takes the lease, or changes nothing.\<close>

lemma settle_begin_Inr:
  assumes "settle_begin e row db = Inr (x, db')"
  obtains (held) "x = None" "db' = db"
  | (claimed) s s' doc job where "row_by sb_id (sb_id row) (submissions db) = Some s" "claim_evaluation (en_now e) s = Some s'"
      "x = Some (doc, job)" "db' = put_submission s' db"
proof (cases "if en_sandbox e then Option.bind (row_by sb_id (sb_id row) (submissions db)) (claim_evaluation (en_now e)) else None")
  case None
  with assms have "x = None" "db' = db" by (auto simp: settle_begin_def)
  then show thesis by (rule held)
next
  case (Some s')
  then obtain s where s: "row_by sb_id (sb_id row) (submissions db) = Some s" "claim_evaluation (en_now e) s = Some s'"
    by (auto simp: bind_eq_Some_conv split: if_splits)
  obtain rv where rv: "revision_by db (sb_revision row) = Some rv"
    using assms Some by (cases "revision_by db (sb_revision row)") (simp_all add: settle_begin_def)
  obtain job where "job_of (sb_job row) (sb_goal row) (sb_input row) = Inr job"
    using assms Some rv by (cases "job_of (sb_job row) (sb_goal row) (sb_input row)") (simp_all add: settle_begin_def)
  with assms Some rv have "x = Some (er_document rv, job)" "db' = put_submission s' db" by (auto simp: settle_begin_def)
  with s show thesis by (intro claimed)
qed

lemma engine_ok_put_submission:
  assumes ok: "engine_ok db" and s: "s \<in> set (submissions db)" "submission_ok s'" "start_key s' = start_key s" "sb_id s' = sb_id s"
    and st: "sb_state s' = Accepted \<Longrightarrow> sb_state s = Accepted"
  shows "engine_ok (put_submission s' db)"
proof -
  have same: "r = s" if "r \<in> set (submissions db)" "sb_id r = sb_id s'" for r
    using that s ok unique_by_inj [of sb_id "submissions db" r s] by (simp add: engine_ok_def engine_keys_def)
  have "unique_by sb_id (submissions (put_submission s' db))" "unique_by start_key (submissions (put_submission s' db))"
    unfolding put_submission_def using ok same s(3) by (auto intro!: unique_put simp: engine_ok_def engine_keys_def)
  moreover have "holds_start (task_states db) s'"
    using ok s(1,3) st by (auto simp: engine_ok_def list_all_iff holds_start_def start_key_def)
  ultimately show ?thesis using ok s(2)
    by (auto simp: engine_ok_def engine_keys_def list_all_iff set_put_submission)
qed

lemma engine_ok_claim:
  assumes ok: "engine_ok db" and run: "settle_begin e row db = Inr (x, db')"
  shows "engine_ok db'"
  using run
proof (cases rule: settle_begin_Inr)
  case (claimed s s' doc job)
  have s: "s \<in> set (submissions db)" using row_by_SomeD [OF claimed(1)] by simp
  note c = claim_evaluation_Some [OF claimed(2)]
  have "submission_ok s" using ok s by (simp add: engine_ok_def list_all_iff)
  with c have "submission_ok s'" by (simp add: submission_ok_def)
  with c s show ?thesis unfolding claimed(4)
    by (intro engine_ok_put_submission [OF ok s]) (simp_all add: start_key_def)
qed (use ok in simp)

lemma booked_task_fields:
  "task_key (booked_task now op tm passed c sid s) = task_key s"
  "ts_xp_applied (booked_task now op tm passed c sid s) = (ts_xp_applied s \<or> passed)"
  "task_ok s \<Longrightarrow> task_ok (booked_task now op tm passed c sid s)"
  "ts_passed_at s \<noteq> None \<or> passed \<Longrightarrow> ts_passed_at (booked_task now op tm passed c sid s) \<noteq> None"
proof -
  show "task_key (booked_task now op tm passed c sid s) = task_key s" by (simp add: booked_task_def task_key_def Let_def)
  show "ts_xp_applied (booked_task now op tm passed c sid s) = (ts_xp_applied s \<or> passed)"
    by (simp add: booked_task_def Let_def) blast
  show "task_ok (booked_task now op tm passed c sid s)" if "task_ok s"
    using that by (cases passed; cases "ts_xp_applied s") (simp_all add: booked_task_def task_ok_def Let_def)
  show "ts_passed_at (booked_task now op tm passed c sid s) \<noteq> None" if "ts_passed_at s \<noteq> None \<or> passed"
    using that by (auto simp: booked_task_def Let_def)
qed

lemma booked_submission_fields:
  "sb_id (booked_submission now ev t s) = sb_id s" "start_key (booked_submission now ev t s) = start_key s"
  "sb_state (booked_submission now ev t s) = Booked" "submission_ok (booked_submission now ev t s)"
  "sb_user (booked_submission now ev t s) = sb_user s" "sb_unit (booked_submission now ev t s) = sb_unit s"
  "sb_goal (booked_submission now ev t s) = sb_goal s" "sb_counts (booked_submission now ev t s) = Some (ev_verdict ev = V_passed)"
  by (simp_all add: booked_submission_def start_key_def submission_ok_def)

text \<open>The tables after a booking.\<close>

lemma booked_tables:
  assumes "(completed, db') = (let db2 = put_submission s' (put_task t' (snd (lock_user db1 u)))
        in if passed then complete_unit now u i ts db2 else (False, db2))"
  shows "submissions db' = submissions (put_submission s' db1)" "task_states db' = task_states (put_task t' db1)"
    "xps db' = xps db1" "xp_operations db' = xp_operations db1" "revisions db' = revisions db1"
proof -
  have "\<exists>t. db' = (put_submission s' (put_task t' (snd (lock_user db1 u))))\<lparr>rooms := t\<rparr>"
    using assms complete_unit_frame [of now u i ts "put_submission s' (put_task t' (snd (lock_user db1 u)))" completed db']
    by (auto simp: Let_def split: if_splits intro!: exI [of _ "rooms db1"])
  then show "submissions db' = submissions (put_submission s' db1)" "task_states db' = task_states (put_task t' db1)"
    "xps db' = xps db1" "xp_operations db' = xp_operations db1" "revisions db' = revisions db1"
    by (auto simp: put_submission_def put_task_def)
qed

lemma engine_ok_booked:
  assumes ok: "engine_ok db" and s: "s \<in> set (submissions db)" "sb_state s = Accepted"
    and s': "submission_ok s'" "start_key s' = start_key s" "sb_id s' = sb_id s" "sb_state s' = Booked"
    and t: "t \<in> set (task_states db)" "task_key t = (sb_user s, sb_unit s, sb_goal s)" "task_key t' = task_key t" "task_ok t'"
  shows "engine_ok (put_submission s' (put_task t' db))"
proof -
  let ?subs = "submissions (put_submission s' db)" and ?tasks = "task_states (put_task t' db)"
  have same: "r = s" if "r \<in> set (submissions db)" "sb_id r = sb_id s'" for r
    using that s s'(3) ok unique_by_inj [of sb_id "submissions db" r s] by (simp add: engine_ok_def engine_keys_def)
  have keys: "unique_by sb_id ?subs" "unique_by start_key ?subs" "unique_by task_key ?tasks"
    unfolding put_submission_def put_task_def using ok same s'(2)
    by (auto intro!: unique_put simp: engine_ok_def engine_keys_def)
  have subs: "r \<in> set ?subs \<Longrightarrow> r = s' \<or> r \<in> set (submissions db) \<and> sb_id r \<noteq> sb_id s" for r
    using s'(3) by (auto simp: set_put_submission)
  have tasks: "r \<in> set ?tasks \<Longrightarrow> r = t' \<or> r \<in> set (task_states db)" for r by (auto simp: set_put_task)
  have holds: "holds_start ?tasks r" if r: "r \<in> set ?subs" for r
    unfolding holds_start_def
  proof
    assume acc: "sb_state r = Accepted"
    with subs [OF r] s'(4) have old: "r \<in> set (submissions db)" "sb_id r \<noteq> sb_id s" by auto
    then obtain t0 where t0: "t0 \<in> set (task_states db)" "task_key t0 = (sb_user r, sb_unit r, sb_goal r)"
        "ts_start_id t0 = Some (sb_start r)"
      using ok acc by (auto simp: engine_ok_def holds_start_def list_all_iff)
    have "task_key t0 \<noteq> task_key t'"
    proof
      assume "task_key t0 = task_key t'"
      with t0(2) t(2,3) have "(sb_user r, sb_unit r, sb_goal r) = (sb_user s, sb_unit s, sb_goal s)" by simp
      from open_unique [OF ok old(1) s(1) acc s(2) this] old(2) show False by simp
    qed
    then have "t0 \<in> set ?tasks" using t0(1) by (auto simp: set_put_task image_iff intro!: bexI [of _ t0])
    with t0 show "\<exists>t\<in>set ?tasks. task_key t = (sb_user r, sb_unit r, sb_goal r) \<and> ts_start_id t = Some (sb_start r)" by blast
  qed
  have "list_all submission_ok ?subs" using ok s'(1) subs by (auto simp: engine_ok_def list_all_iff)
  moreover have "list_all task_ok ?tasks" using ok t(4) tasks by (auto simp: engine_ok_def list_all_iff)
  moreover have "submissions (put_submission s' (put_task t' db)) = ?subs" by (simp add: put_submission_def put_task_def)
  ultimately show ?thesis using keys holds by (simp add: engine_ok_def engine_keys_def list_all_iff)
qed

lemma engine_ok_book:
  assumes ok: "engine_ok db" and run: "book e sid u ev db = Inr (a, db')"
  shows "engine_ok db'"
  using run
proof (cases rule: book_cases)
  case (booked row rv t tm op db1 state counters completed)
  note fr = book_award_frame [OF booked(8)]
  note row = submission_of_SomeD [OF booked(1)] and st = task_of_SomeD [OF booked(10)]
  let ?s = "booked_submission (en_now e) ev t row"
    and ?t = "booked_task (en_now e) op tm (ev_verdict ev = V_passed) counters (sb_start row) state"
  have ok1: "engine_ok db1" using ok fr engine_ok_cong [of db1 db] by simp
  have "task_ok state" using ok st by (simp add: engine_ok_def list_all_iff)
  then have "engine_ok (put_submission ?s (put_task ?t db1))"
    using fr row st booked(2)
    by (intro engine_ok_booked [OF ok1, of row _ state]) (simp_all add: booked_submission_fields booked_task_fields)
  then show ?thesis
    using booked_tables [OF booked(12)] engine_ok_cong [of db' "put_submission ?s (put_task ?t db1)"]
    by (simp add: put_submission_def put_task_def)
qed (use ok in simp)

section \<open>XP\<close>

lemma sum_update_first_in:
  "first_row P t = Some r \<Longrightarrow> (\<And>x. Q (f x) = Q x) \<Longrightarrow>
    sum_list (map g (filter Q (update_first P f t))) = sum_list (map g (filter Q t)) + (if Q r then g (f r) - g r else (0::int))"
  by (induction t) (auto split: if_splits)

text \<open>An award raises the total of its learner by its amount, and of nobody else.\<close>

lemma add_xp_total:
  assumes "add_xp now u s n db = Inr (x, db')"
  shows "get_user_xp db' v = get_user_xp db v + (if v = u then n else 0)"
proof -
  define t where "t = (if exists_row (xp_of_row u s) (xps db) then xps db
    else add_row \<lparr>xp_user = u, xp_skill = s, xp_xp = 0, xp_updated = Some now\<rparr> (xps db))"
  define f where "f = (\<lambda>r::xp_row. r\<lparr>xp_xp := xp_xp r + n, xp_updated := Some now\<rparr>)"
  have db': "xps db' = update_first (xp_of_row u s) f t"
    using assms by (auto simp: add_xp_def Let_def t_def f_def case_prod_beta split: if_splits)
  obtain r where r: "first_row (xp_of_row u s) t = Some r"
    unfolding t_def by (cases "exists_row (xp_of_row u s) (xps db)") (auto simp: exists_row_first first_row_add_same)
  then have "xp_user r = u" using first_row_SomeD [OF r] by simp
  moreover have "sum_list (map xp_xp (filter (\<lambda>x. xp_user x = v) t)) = get_user_xp db v"
    by (simp add: t_def get_user_xp_def all_rows_def add_row_def)
  ultimately show ?thesis
    using sum_update_first_in [OF r, of "\<lambda>x. xp_user x = v" f xp_xp] by (simp add: get_user_xp_def all_rows_def db' f_def)
qed

lemma award_receipt_modify:
  "award_receipt (db\<lparr>xp_operations := modify_by xo_id op (\<lambda>r. r\<lparr>xo_result := Some res, xo_completed := c\<rparr>) t\<rparr>) k =
    (if k = op then map_option (\<lambda>r. (xo_request r, res)) (row_by xo_id op t)
     else award_receipt (db\<lparr>xp_operations := t\<rparr>) k)"
  by (simp add: award_receipt_def xo_with_def rows.get_modify split: option.split)

lemma award_receipt_claim:
  "award_receipt (claim_operation now op q db) k = award_receipt db k"
  by (auto simp: award_receipt_def claim_operation_def xo_with_def rows.get_put split: option.splits)

lemma award_receipt_cong: "xp_operations db = xp_operations db' \<Longrightarrow> award_receipt db = award_receipt db'"
  by (simp add: award_receipt_def xo_with_def fun_eq_iff)

definition paid :: "database \<Rightarrow> string \<Rightarrow> bool" where
  "paid db op \<longleftrightarrow> award_receipt db op \<noteq> None"

lemma paid_cong: "xp_operations db = xp_operations db' \<Longrightarrow> paid db = paid db'"
  using award_receipt_cong [of db db'] by (simp add: paid_def fun_eq_iff)

lemma book_award_effect:
  assumes "book_award e u op tm passed db = Inr db'"
  shows "get_user_xp db' v = get_user_xp db v + (if passed \<and> \<not> paid db op \<and> v = u then tt_xp tm else 0)"
    "paid db' k \<longleftrightarrow> paid db k \<or> passed \<and> k = op"
proof -
  let ?q = "\<lparr>xq_user = u, xq_skill = tt_subskill tm, xq_xp = tt_xp tm, xq_earning = op\<rparr>"
    and ?env = "\<lparr>ae_now = en_now e, ae_status = en_user_status e u\<rparr>"
  have "(get_user_xp db' v = get_user_xp db v + (if passed \<and> \<not> paid db op \<and> v = u then tt_xp tm else 0)) \<and>
    (paid db' k \<longleftrightarrow> paid db k \<or> passed \<and> k = op)"
  proof (cases passed)
    case False
    with assms show ?thesis by (simp add: book_award_def)
  next
    case True
    with assms obtain res where run: "apply_xp op ?q ?env db = Inr (res, db')" and st: "xc_state res \<noteq> ''recipient_erased''"
      by (auto simp: book_award_def split: sum.splits if_splits)
    from run show ?thesis
    proof (cases rule: apply_xp_cases)
      case (replayed r)
      then have "paid db op" by (simp add: award_receipt_def paid_def)
      with replayed show ?thesis by auto
    next
      case refused
      with st show ?thesis by simp
    next
      case (applied db1)
      have x: "xps db' = xps db1" and ops: "xp_operations db1 = xp_operations (claim_operation (en_now e) op ?q db)"
        using applied(5) add_xp_InrD(3) [OF applied(4)] by simp_all
      have "get_user_xp db' v = get_user_xp db1 v" by (simp add: get_user_xp_def x)
      moreover have "get_user_xp db1 v = get_user_xp db v + (if v = u then tt_xp tm else 0)"
        using add_xp_total [OF applied(4), of v] by (simp add: get_user_xp_def)
      moreover have "award_receipt db' k = (if k = op then map_option (\<lambda>r. (xo_request r, res)) (row_by xo_id op (xp_operations db1))
          else award_receipt (db1\<lparr>xp_operations := xp_operations db1\<rparr>) k)"
        unfolding applied(5) by (rule award_receipt_modify)
      moreover have "row_by xo_id op (xp_operations db1) \<noteq> None"
        unfolding ops xo_with_def [symmetric] by (simp add: xo_with_claim)
      moreover have "award_receipt (db1\<lparr>xp_operations := xp_operations db1\<rparr>) k = award_receipt db k"
        using award_receipt_cong [of "db1\<lparr>xp_operations := xp_operations db1\<rparr>" "claim_operation (en_now e) op ?q db"] ops
        by (simp add: award_receipt_claim)
      ultimately show ?thesis using True applied(2) by (auto simp: paid_def)
    qed
  qed
  then show "get_user_xp db' v = get_user_xp db v + (if passed \<and> \<not> paid db op \<and> v = u then tt_xp tm else 0)"
    "paid db' k \<longleftrightarrow> paid db k \<or> passed \<and> k = op" by blast+
qed

section \<open>The engine as a transition system\<close>

text \<open>
  The committed transactions: a start, the acceptance of a plan, the lease of an evaluation, a booking, a change of a
  room, a publication. A booking is labelled with its learner and answer. \<open>f\<close> is the hash of names by which XP
  operations are identified (UUIDv5), \<open>E\<close> the set of units that every loaded catalogue gives to the engine.
\<close>

definition engine_catalogue :: "string set \<Rightarrow> env \<Rightarrow> bool" where
  "engine_catalogue E e \<longleftrightarrow> (case en_content e of None \<Rightarrow> True
     | Some c \<Rightarrow> distinct (map un_id (ct_units c)) \<and>
         list_all (\<lambda>un. un_id un \<in> E \<longrightarrow> is_engine_unit un \<and> un_exercise un = None) (ct_units c))"

inductive engine_step :: "(nat list \<Rightarrow> string) \<Rightarrow> string set \<Rightarrow> database \<Rightarrow> (string \<times> assessment) option \<Rightarrow> database \<Rightarrow> bool" for f E where
  step_start: "start_task e i g d us db = Inr (ans, db') \<Longrightarrow> engine_step f E db None db'"
| step_accept: "accept_plan e i g d us db = Inr (x, db') \<Longrightarrow> engine_step f E db None db'"
| step_claim: "settle_begin e row db = Inr (x, db') \<Longrightarrow> engine_step f E db None db'"
| step_book: "en_uuid5 e = f \<Longrightarrow> book e sid u ev db = Inr (a, db') \<Longrightarrow> engine_step f E db (Some (u, a)) db'"
| step_room: "mutate_room e l us i ci m db = Inr (en, db') \<Longrightarrow> engine_catalogue E e \<Longrightarrow> engine_step f E db None db'"
| step_publish: "publish e d db = Inr (p, db') \<Longrightarrow> engine_step f E db None db'"

inductive engine_run :: "(nat list \<Rightarrow> string) \<Rightarrow> string set \<Rightarrow> database \<Rightarrow> (string \<times> assessment) option list \<Rightarrow> database \<Rightarrow> bool" for f E where
  run_stop: "engine_run f E db [] db"
| run_more: "engine_step f E db l db' \<Longrightarrow> engine_run f E db' ls db'' \<Longrightarrow> engine_run f E db (l # ls) db''"

inductive_cases engine_stepE: "engine_step f E db l db'"
inductive_cases run_moreE: "engine_run f E db (l # ls) db'"
inductive_simps run_stop_iff [simp]: "engine_run f E db [] db'"

text \<open>A room and a publication leave the tables of the engine and of XP alone.\<close>

definition engine_tables :: "database \<Rightarrow> submission list \<times> task_state list \<times> xp_row list \<times> xp_operation list" where
  "engine_tables db = (submissions db, task_states db, xps db, xp_operations db)"

lemma save_room_engine: "save_room e u i m fp row p vd db = Inr db' \<Longrightarrow> engine_tables db' = engine_tables db"
  by (cases row; cases vd) (auto simp: save_room_def Let_def engine_tables_def split: if_splits)

lemma mutate_room_engine:
  assumes "mutate_room e l us i ci m db = Inr (en, db')"
  shows "engine_tables db' = engine_tables db"
  using assms
proof (cases rule: mutate_room_cases)
  case (change content un solved cur p verdict db2 db3)
  have "engine_tables db2 = engine_tables db"
    using change(12)
    by (cases rule: apply_op_cases) (auto simp: engine_tables_def enqueue_def split: option.splits)
  with save_room_engine [OF change(15)] same_but_starts_engine [OF change(13)] show ?thesis by (simp add: engine_tables_def)
qed (simp_all add: engine_tables_def)

lemma publish_engine:
  assumes "publish e d db = Inr (p, db')"
  shows "engine_tables db' = engine_tables db \<and> rooms db' = rooms db"
proof (rule publish_Inr [OF assms])
  fix un :: unit_def and mid doc assume "publish_document e d un mid doc db = Inr (p, db')"
  then have "\<exists>t. db' = db\<lparr>revisions := t\<rparr>"
    by (auto simp: publish_document_def Let_def simp del: not_None_eq split: if_splits option.splits)
  then show ?thesis by (auto simp: engine_tables_def)
qed

lemma engine_ok_tables: "engine_tables db' = engine_tables db \<Longrightarrow> engine_ok db' = engine_ok db"
  by (rule engine_ok_cong) (simp_all add: engine_tables_def)

lemma step_engine_ok: "engine_step f E db l db' \<Longrightarrow> engine_ok db \<Longrightarrow> engine_ok db'"
  by (erule engine_stepE)
    (auto dest: engine_ok_start engine_ok_accept engine_ok_claim engine_ok_book mutate_room_engine publish_engine engine_ok_tables)

text \<open>A booked submission is never changed again.\<close>

lemma put_submission_keeps:
  assumes "engine_ok db" "s \<in> set (submissions db)" "sb_state s = Booked" "x \<in> set (submissions db)" "sb_state x = Accepted"
    "sb_id x' = sb_id x"
  shows "s \<in> set (submissions (put_submission x' db))"
proof -
  have "sb_id s \<noteq> sb_id x'"
    using assms unique_by_inj [of sb_id "submissions db" s x] by (auto simp: engine_ok_def engine_keys_def)
  with assms(2) show ?thesis by (auto simp: set_put_submission image_iff intro!: bexI [of _ s])
qed

lemma step_keeps_booked:
  assumes "engine_step f E db l db'" "engine_ok db" "s \<in> set (submissions db)" "sb_state s = Booked"
  shows "s \<in> set (submissions db')"
  using assms(1)
proof cases
  case (step_start e i g d us ans)
  then show ?thesis using assms(3) same_but_starts_engine(1)
    by (elim start_task_Inr) (auto simp: save_task_def split: option.splits)
next
  case (step_accept e i g d us x)
  then have "accept_plan e i g d us db = Inr (x, db')" by simp
  then show ?thesis using assms(3) by (cases rule: accept_plan_Inr) (simp_all add: row_simps)
next
  case (step_claim e row x)
  then have "settle_begin e row db = Inr (x, db')" by simp
  then show ?thesis
  proof (cases rule: settle_begin_Inr)
    case (claimed c c' doc job)
    with row_by_SomeD [OF claimed(1)] claim_evaluation_Some [OF claimed(2)] show ?thesis
      unfolding claimed(4) by (intro put_submission_keeps [OF assms(2-4), of c]) auto
  qed (use assms(3) in simp)
next
  case (step_book e sid u ev a)
  from step_book(3) show ?thesis
  proof (cases rule: book_cases)
    case (booked row rv t tm op db1 state counters completed)
    have "s \<in> set (submissions (put_submission (booked_submission (en_now e) ev t row) db))"
      using submission_of_SomeD [OF booked(1)] booked(2)
      by (intro put_submission_keeps [OF assms(2-4), of row]) (auto simp: booked_submission_fields)
    with booked_tables(1) [OF booked(12)] book_award_frame [OF booked(8)] show ?thesis
      by (simp add: put_submission_def)
  qed (use assms(3) in simp)
next
  case (step_room e l us i ci m en)
  with mutate_room_engine assms(3) show ?thesis by (simp add: engine_tables_def)
next
  case (step_publish e d p)
  with publish_engine assms(3) show ?thesis by (simp add: engine_tables_def)
qed

text \<open>
  C10: submissions are settled for good. In every history of starts, submissions, evaluations, bookings, room changes
  and publications, whoever runs them in whatever order, the constraints of the tables hold; a booked submission
  stays exactly as it was booked; and no task of a learner ever has two open submissions.
\<close>

theorem submissions_settle_once:
  assumes "engine_run f E db ls db'" "engine_ok db"
  shows "engine_ok db' \<and> (\<forall>s. s \<in> set (submissions db) \<and> sb_state s = Booked \<longrightarrow> s \<in> set (submissions db')) \<and>
    (\<forall>s s'. s \<in> set (submissions db') \<and> s' \<in> set (submissions db') \<and> sb_state s = Accepted \<and> sb_state s' = Accepted \<and>
      (sb_user s, sb_unit s, sb_goal s) = (sb_user s', sb_unit s', sb_goal s') \<longrightarrow> s = s')"
proof -
  from assms have "engine_ok db' \<and> (\<forall>s. s \<in> set (submissions db) \<and> sb_state s = Booked \<longrightarrow> s \<in> set (submissions db'))"
  proof (induction rule: engine_run.induct)
    case (run_more db l db1 ls db2)
    with step_engine_ok [OF run_more(1)] step_keeps_booked [OF run_more(1)] show ?case by blast
  qed simp
  with open_unique [of db'] show ?thesis by blast
qed

section \<open>XP of a task\<close>

text \<open>Operations of different tasks differ, as far as the hash of their names does.\<close>

lemma xp_operation_id_Inr:
  "xp_operation_id e u i g = Inr op \<longleftrightarrow> (\<exists>b. canonical (JArr [js u, js i, js g, js ''xp'']) = Inr b \<and> op = en_uuid5 e b)"
  by (auto simp: xp_operation_id_def result_simps)

lemma xp_operation_id_inject:
  assumes "inj (en_uuid5 e)" "en_uuid5 e' = en_uuid5 e" "xp_operation_id e u i g = Inr op" "xp_operation_id e' u' i' g' = Inr op"
  shows "(u, i, g) = (u', i', g')"
proof -
  from assms obtain b where "canonical (JArr [js u, js i, js g, js ''xp'']) = Inr b"
    "canonical (JArr [js u', js i', js g', js ''xp'']) = Inr b"
    by (auto simp: xp_operation_id_Inr dest: injD)
  then obtain t t' where t: "write_json (JArr [js u, js i, js g, js ''xp'']) = Inr t" "write_json (JArr [js u', js i', js g', js ''xp'']) = Inr t'"
    "utf8 t = utf8 t'" unfolding canonical_def bind_r_Inr_iff by auto
  have "norm_json (JArr [js u, js i, js g, js ''xp'']) = norm_json (JArr [js u', js i', js g', js ''xp''])"
    by (rule write_json_inject [OF t(1) t(2) [folded t(3) [unfolded utf8_inject]]])
  then show ?thesis by (simp add: js_def)
qed

text \<open>The receipts of task operations and the marks of the task states agree.\<close>

definition task_op :: "(nat list \<Rightarrow> string) \<Rightarrow> string \<times> string \<times> string \<Rightarrow> string option" where
  "task_op f k = (case canonical (JArr [js (fst k), js (fst (snd k)), js (snd (snd k)), js ''xp'']) of Inr b \<Rightarrow> Some (f b) | Inl er \<Rightarrow> None)"

definition xp_marked :: "database \<Rightarrow> string \<times> string \<times> string \<Rightarrow> bool" where
  "xp_marked db k \<longleftrightarrow> exists_row (\<lambda>t. task_key t = k \<and> ts_xp_applied t) (task_states db)"

definition awards_match :: "(nat list \<Rightarrow> string) \<Rightarrow> database \<Rightarrow> bool" where
  "awards_match f db \<longleftrightarrow> (\<forall>k op. task_op f k = Some op \<longrightarrow> (paid db op \<longleftrightarrow> xp_marked db k))"

lemma task_op_id: "xp_operation_id e u i g = Inr op \<longleftrightarrow> task_op (en_uuid5 e) (u, i, g) = Some op"
  by (auto simp: task_op_def xp_operation_id_def split: sum.split)

lemma task_op_inject: "inj f \<Longrightarrow> task_op f k = Some op \<Longrightarrow> task_op f k' = Some op \<Longrightarrow> k = k'"
  using xp_operation_id_inject [of "room_env\<lparr>en_uuid5 := f\<rparr>" "room_env\<lparr>en_uuid5 := f\<rparr>" "fst k" "fst (snd k)" "snd (snd k)" op
      "fst k'" "fst (snd k')" "snd (snd k')"]
  by (simp add: task_op_id prod_eq_iff)

lemma awards_match_cong:
  "xp_operations db' = xp_operations db \<Longrightarrow> (\<And>k. xp_marked db' k = xp_marked db k) \<Longrightarrow> awards_match f db' = awards_match f db"
  using paid_cong [of db' db] by (simp add: awards_match_def)

lemma get_user_xp_cong: "xps db' = xps db \<Longrightarrow> get_user_xp db' v = get_user_xp db v"
  by (simp add: get_user_xp_def)

lemma xp_marked_put_task:
  assumes "unique_by task_key (task_states db)" "t \<in> set (task_states db)" "task_key t' = task_key t"
  shows "xp_marked (put_task t' db) k \<longleftrightarrow> (if k = task_key t then ts_xp_applied t' else xp_marked db k)"
proof -
  have "r = t" if "r \<in> set (task_states db)" "task_key r = task_key t" for r
    using that assms(1,2) unique_by_inj [of task_key "task_states db" r t] by simp
  with assms(2,3) show ?thesis by (auto simp: xp_marked_def row_simps set_put_task)
qed

lemma xp_marked_task_of:
  assumes "unique_by task_key (task_states db)" "task_of db u i g = Some t"
  shows "xp_marked db (u, i, g) = ts_xp_applied t"
  using assms task_of_SomeD [OF assms(2)] unique_by_inj [of task_key "task_states db" _ t]
  by (auto simp: xp_marked_def row_simps)

text \<open>What a booking announces.\<close>

definition announced :: "(string \<times> assessment) option \<Rightarrow> (string \<times> string \<times> int) option" where
  "announced l = (case l of None \<Rightarrow> None | Some (u, a) \<Rightarrow> map_option (\<lambda>(op, n). (u, op, n)) (am_xp a))"

lemma view_xp [simp]: "am_xp (view s c) = None"
  by (simp add: view_def)

text \<open>One booking: the announced XP are the XP added, and the task is marked.\<close>

lemma book_xp:
  assumes run: "book e sid u ev db = Inr (a, db')" and ok: "engine_ok db" and m: "awards_match (en_uuid5 e) db" and inj: "inj (en_uuid5 e)"
  shows "awards_match (en_uuid5 e) db'"
    "get_user_xp db' v = get_user_xp db v + (case am_xp a of Some (op, n) \<Rightarrow> if v = u then n else 0 | None \<Rightarrow> 0)"
    "am_xp a = Some (op, n) \<Longrightarrow> \<not> paid db op"
    "paid db' k \<longleftrightarrow> paid db k \<or> (\<exists>n. am_xp a = Some (k, n))"
proof -
  have "awards_match (en_uuid5 e) db' \<and>
    (get_user_xp db' v = get_user_xp db v + (case am_xp a of Some (op, n) \<Rightarrow> if v = u then n else 0 | None \<Rightarrow> 0)) \<and>
    (\<forall>op n. am_xp a = Some (op, n) \<longrightarrow> \<not> paid db op) \<and>
    (paid db' k \<longleftrightarrow> paid db k \<or> (\<exists>n. am_xp a = Some (k, n)))"
    using run
  proof (cases rule: book_cases)
    case (booked row rv t tm op db1 state counters completed)
    let ?passed = "ev_verdict ev = V_passed" and ?key = "(u, sb_unit row, sb_goal row)"
    let ?t = "booked_task (en_now e) op tm ?passed counters (sb_start row) state"
    note aw = book_award_effect [OF booked(8)] and fr = book_award_frame [OF booked(8)] and st = task_of_SomeD [OF booked(10)]
      and tb = booked_tables [OF booked(12)]
    have u: "unique_by task_key (task_states db)" using ok by (simp add: engine_ok_def engine_keys_def)
    have op: "task_op (en_uuid5 e) ?key = Some op" using booked(7) by (simp add: task_op_id)
    have mark: "xp_marked db ?key = ts_xp_applied state" by (rule xp_marked_task_of [OF u booked(10)])
    with m op have rec: "paid db op \<longleftrightarrow> ts_xp_applied state" unfolding awards_match_def by metis
    have rec': "paid db' x \<longleftrightarrow> paid db x \<or> ?passed \<and> x = op" for x
      using aw(2) [of x] paid_cong [OF tb(4)] by simp
    have marked': "xp_marked db' x = (if x = ?key then ts_xp_applied state \<or> ?passed else xp_marked db x)" for x
    proof -
      have "xp_marked db' x = xp_marked (put_task ?t db) x"
        using tb(2) fr by (simp add: xp_marked_def put_task_def)
      then show ?thesis using xp_marked_put_task [OF u conjunct1 [OF st], of ?t x] st by (simp add: booked_task_fields)
    qed
    have "awards_match (en_uuid5 e) db'"
      unfolding awards_match_def
    proof (intro allI impI)
      fix x o' assume x: "task_op (en_uuid5 e) x = Some o'"
      have "x = ?key" if "o' = op" by (rule task_op_inject [OF inj x]) (simp add: op that)
      moreover have "o' = op" if "x = ?key" using op x that by simp
      moreover have "paid db o' \<longleftrightarrow> xp_marked db x" using m x unfolding awards_match_def by blast
      ultimately show "paid db' o' \<longleftrightarrow> xp_marked db' x"
        unfolding rec' marked' using mark by (cases "x = ?key") auto
    qed
    moreover
    have axp: "am_xp a = (if ?passed \<and> \<not> ts_xp_applied state then Some (op, tt_xp tm) else None)"
      unfolding booked(13) by simp
    have "get_user_xp db' v = get_user_xp db v + (case am_xp a of Some (op, n) \<Rightarrow> if v = u then n else 0 | None \<Rightarrow> 0)"
      unfolding axp get_user_xp_cong [OF tb(3)] aw(1) using rec by (cases ?passed; cases "ts_xp_applied state") auto
    moreover have "\<forall>op n. am_xp a = Some (op, n) \<longrightarrow> \<not> paid db op"
      unfolding axp using rec by (cases ?passed; cases "ts_xp_applied state") simp_all
    moreover have "paid db' k \<longleftrightarrow> paid db k \<or> (\<exists>n. am_xp a = Some (k, n))"
      unfolding rec' axp using rec by (cases ?passed; cases "ts_xp_applied state") auto
    ultimately show ?thesis by blast
  next
    case (old row)
    with m show ?thesis by simp
  qed
  then show "awards_match (en_uuid5 e) db'"
    "get_user_xp db' v = get_user_xp db v + (case am_xp a of Some (op, n) \<Rightarrow> if v = u then n else 0 | None \<Rightarrow> 0)"
    "am_xp a = Some (op, n) \<Longrightarrow> \<not> paid db op"
    "paid db' k \<longleftrightarrow> paid db k \<or> (\<exists>n. am_xp a = Some (k, n))" by blast+
qed

text \<open>The other transactions leave XP and marks alone.\<close>

lemma xp_marked_cong: "task_states db' = task_states db \<Longrightarrow> xp_marked db' = xp_marked db"
  by (simp add: xp_marked_def fun_eq_iff)

lemma start_task_xp:
  assumes ok: "engine_ok db0" and run: "start_task e i g d us db0 = Inr (ans, db')"
  shows "xp_operations db' = xp_operations db0" "xps db' = xps db0" "xp_marked db' k = xp_marked db0 k"
proof -
  obtain db and un :: unit_def and r t old s where st: "db = snd (lock_user db0 (us_id us))"
    "old = task_of db (us_id us) (un_id un) g"
    "with_start e r t (sq_request d) (continued_task e (us_id us) (un_id un) g r
       (case old of None \<Rightarrow> False | Some s \<Rightarrow> ts_start s \<noteq> None \<and> ts_start_request s = Some (sq_request d))
       (pending_of db (us_id us) (un_id un) g \<noteq> None) old) = Inr s"
    "same_but_starts (save_task old (s\<lparr>ts_updated := en_now e\<rparr>) db) db'"
    by (rule start_task_Inr [OF run]) blast
  let ?s = "s\<lparr>ts_updated := en_now e\<rparr>" and ?key = "(us_id us, un_id un, g)"
  define c where "c = continued_task e (us_id us) (un_id un) g r
       (case old of None \<Rightarrow> False | Some s \<Rightarrow> ts_start s \<noteq> None \<and> ts_start_request s = Some (sq_request d))
       (pending_of db (us_id us) (un_id un) g \<noteq> None) old"
  have u: "unique_by task_key (task_states db)" and tok: "list_all task_ok (task_states db)"
    using ok st(1) by (simp_all add: engine_ok_def engine_keys_def)
  have old: "old = None \<or> (\<exists>s. old = Some s \<and> s \<in> set (task_states db) \<and> task_key s = ?key)"
    unfolding st(2) by (cases "task_of db (us_id us) (un_id un) g") (auto dest: task_of_SomeD)
  have "task_ok c" using old tok by (auto simp: c_def continued_task_def new_task_def list_all_iff task_ok_def)
  note ws = with_start_Inr [OF st(3) [folded c_def] this]
  have ts: "task_states db' = task_states (save_task old ?s db)" by (rule same_but_starts_engine(2) [OF st(4)])
  show "xp_operations db' = xp_operations db0" "xps db' = xps db0"
    using same_but_starts_engine(4,5) [OF st(4)] st(1) by (simp_all add: save_task_def split: option.splits)
  have "xp_marked db' k = xp_marked db k"
  proof (cases old)
    case None
    then have "c = new_task e (us_id us) (un_id un) g r" by (simp add: c_def continued_task_def)
    then have "ts_xp_applied ?s = False" using ws(5) by (simp add: new_task_def)
    with None show ?thesis by (auto simp: xp_marked_def ts row_simps set_save_task)
  next
    case (Some o')
    then have o: "o' \<in> set (task_states db)" "task_key o' = ?key" using old by auto
    have "ts_xp_applied ?s = ts_xp_applied o'" "task_key ?s = task_key o'"
      using ws(1,5) Some o(2) by (auto simp: c_def continued_task_def task_key_def)
    moreover have "xp_marked db (task_key o') = ts_xp_applied o'"
      using xp_marked_task_of [OF u] Some st(2) o(2) by simp
    moreover have "xp_marked db' k = xp_marked (put_task ?s db) k" using Some by (simp add: xp_marked_def ts save_task_def)
    ultimately show ?thesis using xp_marked_put_task [OF u o(1), of ?s k] by auto
  qed
  then show "xp_marked db' k = xp_marked db0 k" using xp_marked_cong [of db db0] st(1) by simp
qed

lemma accept_plan_tables:
  assumes "accept_plan e i g d us db = Inr (x, db')"
  shows "xps db' = xps db" "xp_operations db' = xp_operations db" "task_states db' = task_states db"
  using assms by (cases rule: accept_plan_Inr, simp_all)+

lemma settle_begin_tables:
  assumes "settle_begin e row db = Inr (x, db')"
  shows "xps db' = xps db" "xp_operations db' = xp_operations db" "task_states db' = task_states db"
  using assms by (cases rule: settle_begin_Inr, simp_all)+

text \<open>The list of what a history announces, and what a learner is told to have earned.\<close>

definition announcements :: "(string \<times> assessment) option list \<Rightarrow> (string \<times> string \<times> int) list" where
  "announcements ls = map the (filter (\<lambda>x. x \<noteq> None) (map announced ls))"

definition earned :: "string \<Rightarrow> (string \<times> string \<times> int) list \<Rightarrow> int" where
  "earned u xs = sum_list (map (\<lambda>(v, op, n). if v = u then n else 0) xs)"

lemma announcements_Cons: "announcements (l # ls) = (case announced l of None \<Rightarrow> [] | Some x \<Rightarrow> [x]) @ announcements ls"
  by (simp add: announcements_def split: option.split)

lemma step_xp:
  assumes step: "engine_step f E db l db'" and ok: "engine_ok db" and m: "awards_match f db" and inj: "inj f"
  shows "awards_match f db' \<and> get_user_xp db' v = get_user_xp db v + (case announced l of None \<Rightarrow> 0 | Some x \<Rightarrow> earned v [x]) \<and>
    (\<forall>u op n. announced l = Some (u, op, n) \<longrightarrow> \<not> paid db op \<and> paid db' op) \<and>
    (\<forall>op. paid db op \<longrightarrow> paid db' op)"
proof -
  have silent: ?thesis if "l = None" "xps db' = xps db" "xp_operations db' = xp_operations db" "\<And>k. xp_marked db' k = xp_marked db k"
    using that m awards_match_cong [OF that(3,4)] get_user_xp_cong [OF that(2)] paid_cong [OF that(3)]
    by (simp add: announced_def)
  from step show ?thesis
  proof cases
    case (step_start e i g d us ans)
    show ?thesis by (rule silent [OF step_start(1) start_task_xp(2,1,3) [OF ok step_start(2)]])
  next
    case (step_accept e i g d us x)
    show ?thesis
      by (rule silent [OF step_accept(1) accept_plan_tables(1,2) [OF step_accept(2)]])
        (simp add: xp_marked_cong [OF accept_plan_tables(3) [OF step_accept(2)]])
  next
    case (step_claim e row x)
    show ?thesis
      by (rule silent [OF step_claim(1) settle_begin_tables(1,2) [OF step_claim(2)]])
        (simp add: xp_marked_cong [OF settle_begin_tables(3) [OF step_claim(2)]])
  next
    case (step_book e sid u ev a)
    note b = book_xp [OF step_book(3) ok, unfolded step_book(2), OF m inj]
    have xp: "get_user_xp db' v = get_user_xp db v + (case announced l of None \<Rightarrow> 0 | Some x \<Rightarrow> earned v [x])"
      unfolding b(2) step_book(1) by (auto simp: announced_def earned_def split: option.splits)
    have "\<not> paid db op \<and> paid db' op" if "announced l = Some (w, op, n)" for w op n
    proof -
      have "am_xp a = Some (op, n)" using that step_book(1) by (auto simp: announced_def)
      with b(3) b(4) [of op] show ?thesis by blast
    qed
    moreover have "paid db' op" if "paid db op" for op using that b(4) [of op] by blast
    ultimately show ?thesis using b(1) xp by blast
  next
    case (step_room e us i ci m en lm)
    from mutate_room_engine [OF step_room(2)] have t: "xps db' = xps db" "xp_operations db' = xp_operations db"
      "task_states db' = task_states db" by (simp_all add: engine_tables_def)
    show ?thesis by (rule silent [OF step_room(1) t(1,2)]) (simp add: xp_marked_cong [OF t(3)])
  next
    case (step_publish e d p)
    from publish_engine [OF step_publish(2)] have t: "xps db' = xps db" "xp_operations db' = xp_operations db"
      "task_states db' = task_states db" by (simp_all add: engine_tables_def)
    show ?thesis by (rule silent [OF step_publish(1) t(1,2)]) (simp add: xp_marked_cong [OF t(3)])
  qed
qed

text \<open>
  C3: a task pays its XP once. In every history of the engine, the XP a learner gains are exactly those the bookings
  announce, each under an operation that never appears twice, because it is named by learner, unit and task; so
  neither a second pass, a second evaluation of the same submission nor a newer revision pays again. The hash of
  names (UUIDv5) is taken to be injective, and at the beginning receipts and marks agree.
\<close>

theorem task_pays_once:
  assumes "engine_run f E db ls db'" "engine_ok db" "awards_match f db" "inj f"
  shows "(\<forall>u. get_user_xp db' u = get_user_xp db u + earned u (announcements ls)) \<and>
    distinct (map (\<lambda>(u, op, n). op) (announcements ls)) \<and> awards_match f db' \<and>
    (\<forall>u op n. (u, op, n) \<in> set (announcements ls) \<longrightarrow> \<not> paid db op)"
  using assms(1-3)
proof (induction rule: engine_run.induct)
  case (run_stop db)
  then show ?case by (simp add: announcements_def earned_def)
next
  case (run_more db l db1 ls db2)
  note s = step_xp [OF run_more(1,4,5) assms(4)]
  have IH: "(\<forall>u. get_user_xp db2 u = get_user_xp db1 u + earned u (announcements ls)) \<and>
    distinct (map (\<lambda>(u, op, n). op) (announcements ls)) \<and> awards_match f db2 \<and>
    (\<forall>u op n. (u, op, n) \<in> set (announcements ls) \<longrightarrow> \<not> paid db1 op)"
    using run_more(3) step_engine_ok [OF run_more(1,4)] s by blast
  have "get_user_xp db2 u = get_user_xp db u + earned u (announcements (l # ls))" for u
    using IH s [of u] by (simp add: announcements_Cons earned_def split: option.splits)
  moreover have "distinct (map (\<lambda>(u, op, n). op) (announcements (l # ls)))"
    using IH s by (fastforce simp: announcements_Cons split: option.splits)
  moreover have "\<not> paid db op" if "(u, op, n) \<in> set (announcements (l # ls))" for u op n
    using that IH s [of u] by (cases "announced l") (auto simp: announcements_Cons, blast+)
  ultimately show ?case using IH by blast
qed

end
