(* ===== verification/Assessment.thy ===== *)
theory Assessment
  imports Engine
begin

text \<open>
  What a verdict does: the band rule over a series of verdicts, the lease of an evaluation under interleaving, and
  the completion of a unit, which only the engine can bring about.
\<close>

section \<open>The band rule\<close>

lemma takeWhile_neq_less: "b \<in> set bs \<Longrightarrow> length (takeWhile (\<lambda>x. x \<noteq> b) bs) < length bs"
  by (induction bs) auto

lemma band_index_Some: "band_index bs b = Some n \<Longrightarrow> n < length bs \<and> bs ! n = b"
  using takeWhile_neq_less [of b bs] nth_length_takeWhile [of "\<lambda>x. x \<noteq> b" bs]
  by (auto simp: band_index_def split: if_splits)

lemma band_index_nth:
  assumes "distinct bs" "n < length bs"
  shows "band_index bs (bs ! n) = Some n"
proof -
  have "bs ! n \<in> set bs" using assms(2) by simp
  then obtain k where k: "band_index bs (bs ! n) = Some k" by (simp add: band_index_def)
  with band_index_Some [OF k] assms nth_eq_iff_index_eq [of bs k n] show ?thesis by auto
qed

text \<open>A series of verdicts, oldest first.\<close>

fun count_all :: "band_rule \<Rightarrow> bool list \<Rightarrow> string \<times> int \<times> int \<Rightarrow> (string \<times> int \<times> int) result" where
  "count_all rule [] c = Inr c"
| "count_all rule (p # ps) c = bind_r (counted rule (fst c) (fst (snd c)) (snd (snd c)) p) (count_all rule ps)"

definition counters_ok :: "band_rule \<Rightarrow> string \<times> int \<times> int \<Rightarrow> bool" where
  "counters_ok rule c \<longleftrightarrow> fst c \<in> set (br_bands rule) \<and> 0 \<le> fst (snd c) \<and> fst (snd c) < br_lower rule \<and>
     0 \<le> snd (snd c) \<and> snd (snd c) < br_raise rule"

lemma counted_ok:
  assumes "valid_rule rule" "counters_ok rule (b, f, p)"
  shows "\<exists>c. counted rule b f p passed = Inr c \<and> counters_ok rule c"
proof -
  from assms(2) obtain n where n: "band_index (br_bands rule) b = Some n" by (auto simp: counters_ok_def band_index_def)
  note len = band_index_Some [OF n]
  have m: "br_bands rule ! min (length (br_bands rule) - 1) (n + 1) \<in> set (br_bands rule)" "br_bands rule ! (n - 1) \<in> set (br_bands rule)"
    using len by (auto intro!: nth_mem)
  show ?thesis using assms n m by (cases passed) (simp_all add: counted_def counters_ok_def valid_rule_def)
qed

lemma count_all_ok:
  "valid_rule rule \<Longrightarrow> counters_ok rule c \<Longrightarrow> \<exists>c'. count_all rule ps c = Inr c' \<and> counters_ok rule c'"
proof (induction ps arbitrary: c)
  case (Cons x ps)
  obtain b f p where "c = (b, f, p)" by (cases c)
  with Cons counted_ok [of rule b f p x] show ?case by auto
qed simp

lemma passes_below:
  assumes "b \<in> set (br_bands rule)"
  shows "p + int k < br_raise rule \<Longrightarrow> count_all rule (replicate k True) (b, f, p) = Inr (b, if k = 0 then f else 0, p + int k)"
proof (induction k arbitrary: f p)
  case (Suc k)
  from assms obtain n where "band_index (br_bands rule) b = Some n" by (simp add: band_index_def)
  then have "counted rule b f p True = Inr (b, 0, p + 1)" using Suc.prems by (simp add: counted_def)
  with Suc.IH [of "p + 1" 0] Suc.prems show ?case by (simp add: algebra_simps)
qed simp

lemma fails_below:
  assumes "b \<in> set (br_bands rule)"
  shows "f + int k < br_lower rule \<Longrightarrow> count_all rule (replicate k False) (b, f, p) = Inr (b, f + int k, if k = 0 then p else 0)"
proof (induction k arbitrary: f p)
  case (Suc k)
  from assms obtain n where "band_index (br_bands rule) b = Some n" by (simp add: band_index_def)
  then have "counted rule b f p False = Inr (b, f + 1, 0)" using Suc.prems by (simp add: counted_def)
  with Suc.IH [of "f + 1" 0] Suc.prems show ?case by (simp add: algebra_simps)
qed simp

lemma count_all_append: "count_all rule (ps @ qs) c = bind_r (count_all rule ps c) (count_all rule qs)"
proof (induction ps arbitrary: c)
  case (Cons p ps)
  then show ?case by (simp add: bind_r_assoc cong: bind_r_cong)
qed simp

lemma replicate_last: "0 < n \<Longrightarrow> replicate n x = replicate (n - 1) x @ [x]"
  by (metis Suc_pred' replicate_Suc replicate_append_same)

text \<open>
  C33: the band rule. Every series of verdicts leaves a band of the rule and counters below their thresholds; the
  threshold's number of passes in a row moves the band up by one position and of fails in a row down by one, at the
  edge it stays, and both counters start again; fewer leave the band where it is.
\<close>

theorem band_rule_moves:
  assumes "valid_rule rule" "counters_ok rule (b, f, p)" "b = br_bands rule ! n" "n < length (br_bands rule)"
  shows "(\<forall>ps. \<exists>c. count_all rule ps (b, f, p) = Inr c \<and> counters_ok rule c) \<and>
    count_all rule (replicate (nat (br_raise rule)) True) (b, f, 0) =
      Inr (br_bands rule ! min (length (br_bands rule) - 1) (n + 1), 0, 0) \<and>
    count_all rule (replicate (nat (br_lower rule)) False) (b, 0, p) = Inr (br_bands rule ! (n - 1), 0, 0) \<and>
    (\<forall>k. 0 < k \<and> int k < br_raise rule \<longrightarrow> count_all rule (replicate k True) (b, f, 0) = Inr (b, 0, int k)) \<and>
    (\<forall>k. 0 < k \<and> int k < br_lower rule \<longrightarrow> count_all rule (replicate k False) (b, 0, p) = Inr (b, int k, 0))"
proof -
  have v: "2 \<le> br_raise rule" "2 \<le> br_lower rule" "distinct (br_bands rule)" using assms(1) by (simp_all add: valid_rule_def)
  have b: "b \<in> set (br_bands rule)" "band_index (br_bands rule) b = Some n"
    using assms(2) band_index_nth [OF v(3) assms(4)] assms(3) by (simp_all add: counters_ok_def)
  let ?r = "nat (br_raise rule) - 1" and ?l = "nat (br_lower rule) - 1"
  have "count_all rule (replicate ?r True) (b, f, 0) = Inr (b, 0, br_raise rule - 1)"
    using passes_below [OF b(1), of 0 ?r f] v(1) by auto
  moreover have "count_all rule (replicate ?l False) (b, 0, p) = Inr (b, br_lower rule - 1, 0)"
    using fails_below [OF b(1), of 0 ?l p] v(2) by auto
  ultimately show ?thesis
    using count_all_ok [OF assms(1,2)] v b replicate_last [of "nat (br_raise rule)" True] replicate_last [of "nat (br_lower rule)" False]
      passes_below [OF b(1), of 0] fails_below [OF b(1), of 0]
    by (simp add: count_all_append counted_def)
qed

text \<open>The rule of the example document: two passes raise, two fails lower.\<close>

lemma band_rule_moves_witness:
  "count_all (sd_rule example_document) [True, True] (''easy'', 1, 0) = Inr (''hard'', 0, 0)"
proof -
  have "valid_rule (sd_rule example_document)" "counters_ok (sd_rule example_document) (''easy'', 1, 0)" by code_simp+
  from band_rule_moves [OF this, of 0] show ?thesis by (simp add: example_document_def numeral_2_eq_2)
qed

section \<open>The lease of an evaluation\<close>

definition finish_evaluation :: "int \<Rightarrow> evaluation \<times> doc_task \<Rightarrow> submission \<Rightarrow> submission" where
  "finish_evaluation now r s = (if sb_state s \<noteq> Accepted then s else booked_submission now (fst r) (snd r) s)"

interpretation evaluation_lease: leased_work claim_evaluation finish_evaluation sb_evaluating "\<lambda>s. sb_state s \<noteq> Accepted" LEASE_SECONDS
  by unfold_locales (auto simp: claim_evaluation_def finish_evaluation_def booked_submission_def LEASE_SECONDS_def split: if_splits)

text \<open>The transactions that can touch a submission, as they are committed.\<close>

datatype evaluation_event =
    Task_started env string string start_request user
  | Plan_accepted env string string submit_request user
  | Evaluation_claimed env submission
  | Verdict_booked env string string evaluation

fun evaluation_step :: "evaluation_event \<Rightarrow> database \<Rightarrow> database" where
  "evaluation_step (Task_started e i g d us) db = committed db (start_task e i g d us db)"
| "evaluation_step (Plan_accepted e i g d us) db = committed db (accept_plan e i g d us db)"
| "evaluation_step (Evaluation_claimed e row) db = committed db (settle_begin e row db)"
| "evaluation_step (Verdict_booked e sid u ev) db = (case book e sid u ev db of Inl n \<Rightarrow> db | Inr (a, db') \<Rightarrow> db')"

text \<open>The instants at which a submission is sent to the sandbox.\<close>

fun evaluations :: "string \<Rightarrow> evaluation_event list \<Rightarrow> database \<Rightarrow> int list" where
  "evaluations sid [] db = []"
| "evaluations sid (ev # evs) db = (case ev of
     Evaluation_claimed e row \<Rightarrow> (if sb_id row = sid then (case settle_begin e row db of Inr (Some r, db') \<Rightarrow> [en_now e] | _ \<Rightarrow> []) else [])
   | _ \<Rightarrow> []) @ evaluations sid evs (evaluation_step ev db)"

definition submission_at :: "database \<Rightarrow> string \<Rightarrow> submission option" where
  "submission_at db sid = row_by sb_id sid (submissions db)"

lemma submission_at_put: "submission_at (put_submission s db) sid =
    (if sid = sb_id s then map_option (\<lambda>_. s) (submission_at db sid) else submission_at db sid)"
  by (cases "sid = sb_id s")
    (auto simp: submission_at_def put_submission_def row_by_def modify_by_def intro: first_row_update_hits first_row_update_disjoint)

lemma submission_at_cong: "submissions db' = submissions db \<Longrightarrow> submission_at db' sid = submission_at db sid"
  by (simp add: submission_at_def)

text \<open>Each transaction does nothing to a submission, or a step of the leased work.\<close>

lemma evaluation_step_row:
  assumes "submission_at db sid = Some s" "unique_by sb_id (submissions db)"
  obtains (idle) "submission_at (evaluation_step ev db) sid = Some s" "evaluations sid [ev] db = []"
  | (claimed) e :: env and s' where "claim_evaluation (en_now e) s = Some s'" "submission_at (evaluation_step ev db) sid = Some s'"
      "evaluations sid [ev] db = [en_now e]"
  | (finished) t r where "submission_at (evaluation_step ev db) sid = Some (finish_evaluation t r s)" "evaluations sid [ev] db = []"
proof -
  have sid: "sb_id s = sid" "s \<in> set (submissions db)"
    using assms(1) row_by_SomeD unfolding submission_at_def by fastforce+
  show thesis
  proof (cases ev)
    case (Task_started e i g d us)
    have "submissions db' = submissions db" if "start_task e i g d us db = Inr (ans, db')" for ans db'
      using that same_but_starts_engine(1) by (elim start_task_Inr) (auto simp: save_task_def split: option.splits)
    then have "submissions (committed db (start_task e i g d us db)) = submissions db"
      by (cases "start_task e i g d us db") auto
    then have "submission_at (evaluation_step ev db) sid = Some s"
      using assms(1) Task_started by (simp add: submission_at_def)
    then show thesis by (rule idle) (simp add: Task_started)
  next
    case (Plan_accepted e i g d us)
    have "submission_at db' sid = Some s" if "accept_plan e i g d us db = Inr (x, db')" for x db'
      using that
    proof (cases rule: accept_plan_Inr)
      case (again same)
      with assms(1) submission_at_cong [of db' db] show ?thesis by simp
    next
      case (fresh db1 un state r)
      with assms(1) sid(1) show ?thesis
        by (simp add: submission_at_def row_by_def first_row_add_row submission_at_cong)
    qed
    then have "submission_at (committed db (accept_plan e i g d us db)) sid = Some s"
      by (cases "accept_plan e i g d us db") (use assms(1) in auto)
    with Plan_accepted show thesis by (intro idle) simp_all
  next
    case (Evaluation_claimed e row)
    show thesis
    proof (cases "settle_begin e row db")
      case (Inl er)
      with assms(1) Evaluation_claimed show thesis by (intro idle) simp_all
    next
      case (Inr p)
      obtain x db' where run: "settle_begin e row db = Inr (x, db')" using Inr by (cases p) simp
      then show thesis
      proof (cases rule: settle_begin_Inr)
        case held
        with assms(1) Evaluation_claimed run show thesis by (intro idle) simp_all
      next
        case (claimed c c' doc job)
        note cc = claim_evaluation_Some [OF claimed(2)] row_by_SomeD [OF claimed(1)]
        show thesis
        proof (cases "sb_id row = sid")
          case True
          then have "c = s" using claimed(1) assms(1) by (simp add: submission_at_def)
          with claimed(2-4) run Evaluation_claimed cc assms(1) sid True show thesis
            by (intro that(2) [of e c']) (simp_all add: submission_at_put)
        next
          case False
          with claimed(4) run Evaluation_claimed cc assms(1) show thesis by (intro idle) (simp_all add: submission_at_put)
        qed
      qed
    qed
  next
    case (Verdict_booked e k u ev')
    show thesis
    proof (cases "book e k u ev' db")
      case (Inl n)
      with assms(1) Verdict_booked show thesis by (intro idle) simp_all
    next
      case (Inr p)
      obtain a db' where run: "book e k u ev' db = Inr (a, db')" using Inr by (cases p) simp
      then show thesis
      proof (cases rule: book_cases)
        case (old row)
        with assms(1) Verdict_booked run show thesis by (intro idle) simp_all
      next
        case (booked row rv t tm op db1 state counters completed)
        let ?s' = "booked_submission (en_now e) ev' t row"
        note row = submission_of_SomeD [OF booked(1)]
        have at: "submission_at db' sid = submission_at (put_submission ?s' db) sid"
          using booked_tables(1) [OF booked(12)] book_award_frame [OF booked(8)]
          by (simp add: submission_at_def put_submission_def)
        show thesis
        proof (cases "k = sid")
          case True
          then have "row = s" using row sid assms(2) unique_by_inj [of sb_id "submissions db" row s] by simp
          with at booked(2) True assms(1) sid run Verdict_booked show thesis
            by (intro finished [of "en_now e" "(ev', t)"])
              (simp_all add: submission_at_put booked_submission_fields finish_evaluation_def)
        next
          case False
          with at row assms(1) run Verdict_booked show thesis
            by (intro idle) (simp_all add: submission_at_put booked_submission_fields)
        qed
      qed
    qed
  qed
qed

lemma evaluation_step_ok: "engine_ok db \<Longrightarrow> engine_ok (evaluation_step ev db)"
proof (cases ev)
  case (Verdict_booked e sid u r)
  then show "engine_ok db \<Longrightarrow> ?thesis" by (auto split: sum.splits dest: engine_ok_book)
qed (auto simp: committed_Inr split: sum.splits dest: engine_ok_start engine_ok_accept engine_ok_claim)

lemma evaluations_Cons: "evaluations sid (ev # evs) db = evaluations sid [ev] db @ evaluations sid evs (evaluation_step ev db)"
  by simp

lemma evaluations_are_calls:
  "submission_at db sid = Some s \<Longrightarrow> engine_ok db \<Longrightarrow> \<exists>ws. evaluations sid evs db = evaluation_lease.calls ws s"
proof (induction evs arbitrary: db s)
  case Nil
  have "evaluations sid [] db = evaluation_lease.calls [] s" by simp
  then show ?case by blast
next
  case (Cons ev evs)
  have u: "unique_by sb_id (submissions db)" using Cons.prems(2) by (simp add: engine_ok_def engine_keys_def)
  note IH = Cons.IH [OF _ evaluation_step_ok [OF Cons.prems(2)]]
  show ?case
  proof (cases rule: evaluation_step_row [OF Cons.prems(1) u, of ev, case_names idle claimed finished])
    case idle
    from IH [OF idle(1)] idle(2) show ?thesis unfolding evaluations_Cons [of sid ev evs] by simp
  next
    case (claimed e s')
    from IH [OF claimed(2)] obtain ws where "evaluations sid evs (evaluation_step ev db) = evaluation_lease.calls ws s'" by blast
    with claimed(1,3) have "evaluations sid (ev # evs) db = evaluation_lease.calls (Claim_at (en_now e) # ws) s"
      unfolding evaluations_Cons [of sid ev evs] by simp
    then show ?thesis by blast
  next
    case (finished t r)
    from IH [OF finished(1)] obtain ws
      where "evaluations sid evs (evaluation_step ev db) = evaluation_lease.calls ws (finish_evaluation t r s)" by blast
    with finished(2) have "evaluations sid (ev # evs) db = evaluation_lease.calls (Finish_at t r # ws) s"
      unfolding evaluations_Cons [of sid ev evs] by simp
    then show ?thesis by blast
  qed
qed

text \<open>
  C14: one evaluation at a time. However starts, submissions, evaluations and bookings interleave, two evaluations of one
  submission begin at least the lease of 30 seconds apart, and a booked submission is never evaluated again.
\<close>

theorem one_evaluation_at_a_time:
  assumes "engine_ok db" "submission_at db sid = Some s"
  shows "sorted_wrt (\<lambda>t t'. t + 30 \<le> t') (evaluations sid evs db) \<and> (sb_state s = Booked \<longrightarrow> evaluations sid evs db = [])"
proof -
  obtain ws where ws: "evaluations sid evs db = evaluation_lease.calls ws s"
    using evaluations_are_calls [OF assms(2,1)] by blast
  have "sorted_wrt (\<lambda>t t'. t + LEASE_SECONDS \<le> t') (evaluation_lease.calls ws s)"
    by (rule evaluation_lease.calls_spaced) (simp add: LEASE_SECONDS_def)
  moreover have "sb_state s = Booked \<Longrightarrow> evaluation_lease.calls ws s = []"
    by (rule evaluation_lease.closed_final [THEN conjunct2]) simp
  ultimately show ?thesis unfolding ws by (simp add: LEASE_SECONDS_def)
qed

section \<open>The completion of a unit\<close>

lemma apply_refs_keeps:
  "apply_refs refs us = Inr us' \<Longrightarrow> list_all2 (\<lambda>u u'. un_id u' = un_id u \<and> un_completion u' = un_completion u \<and>
     (un_completion u \<noteq> None \<and> distinct (map un_id us) \<longrightarrow> un_exercise u' = un_exercise u)) us us'"
proof (induction refs us rule: apply_refs.induct)
  case (1 us)
  then show ?case by (simp add: list_all2_same)
next
  case (2 i x refs us)
  then obtain v where v: "unit_by us i = Some v" "un_completion v = None"
    "apply_refs refs (map (\<lambda>v. if un_id v = i then v\<lparr>un_exercise := Some x\<rparr> else v) us) = Inr us'"
    by (auto split: option.splits if_splits)
  let ?us = "map (\<lambda>v. if un_id v = i then v\<lparr>un_exercise := Some x\<rparr> else v) us"
  have ids: "map un_id ?us = map un_id us" by simp
  have IH: "list_all2 (\<lambda>u u'. un_id u' = un_id u \<and> un_completion u' = un_completion u \<and>
     (un_completion u \<noteq> None \<and> distinct (map un_id ?us) \<longrightarrow> un_exercise u' = un_exercise u)) ?us us'"
    using 2 v by (auto split: option.splits if_splits)
  have v': "v \<in> set us" "un_id v = i" using v(1) by (auto simp: unit_by_def find_Some_iff)
  have other: "un_id u \<noteq> i" if "u \<in> set us" "un_completion u \<noteq> None" "distinct (map un_id us)" for u
    using that v' v(2) by (metis distinct_map inj_onD)
  show ?case
    using IH unfolding ids list_all2_conv_all_nth length_map
    by (intro conjI allI impI) (auto simp: other split: if_splits)
qed

text \<open>Under a catalogue that gives them to the engine, the units of \<open>E\<close> are the engine's in every request.\<close>

lemma engine_catalogue_units:
  assumes "engine_catalogue E e" "catalogue_of e db False = Inr c"
  shows "distinct (map un_id (ct_units c)) \<and> (\<forall>un\<in>set (ct_units c). un_id un \<in> E \<longrightarrow> is_engine_unit un \<and> un_exercise un = None)"
proof -
  obtain loaded us where l: "en_content e = Some loaded" "apply_refs (en_exercise_refs e) (ct_units loaded) = Inr us"
    "c = loaded\<lparr>ct_units := map (\<lambda>u. if is_engine_unit u \<and> \<not> (en_engine_enabled e \<and> (False \<or> un_id u \<in> active_units e db))
            then u\<lparr>un_retired := True\<rparr> else u) us\<rparr>"
    using assms(2) by (auto simp: catalogue_of_def result_simps split: if_splits option.splits)
  have d: "distinct (map un_id (ct_units loaded))"
    and en: "\<forall>un\<in>set (ct_units loaded). un_id un \<in> E \<longrightarrow> is_engine_unit un \<and> un_exercise un = None"
    using assms(1) l(1) by (auto simp: engine_catalogue_def list_all_iff)
  note refs = apply_refs_keeps [OF l(2)]
  have ids: "map un_id us = map un_id (ct_units loaded)" using apply_refs_units [OF l(2)] by simp
  have "is_engine_unit u' \<and> un_exercise u' = None" if "u' \<in> set us" "un_id u' \<in> E" for u'
  proof -
    from that(1) obtain n where n: "n < length us" "u' = us ! n" by (auto simp: in_set_conv_nth)
    let ?u = "ct_units loaded ! n"
    have u: "?u \<in> set (ct_units loaded)" "un_id u' = un_id ?u" "un_completion u' = un_completion ?u"
      "un_completion ?u \<noteq> None \<longrightarrow> un_exercise u' = un_exercise ?u"
      using refs n d by (auto simp: list_all2_conv_all_nth)
    with en that(2) show ?thesis by (auto simp: is_engine_unit_def)
  qed
  moreover have "map un_id (ct_units c) = map un_id us" unfolding l(3) by simp
  ultimately show ?thesis using d ids unfolding l(3) by (auto simp: is_engine_unit_def comp_def split: if_splits)
qed

text \<open>A unit is passed by a learner: a booked pass whose revision has every required task passed.\<close>

definition unit_passed :: "database \<Rightarrow> string \<Rightarrow> string \<Rightarrow> bool" where
  "unit_passed db u i \<longleftrightarrow> exists_row (\<lambda>s. sb_user s = u \<and> sb_unit s = i \<and> sb_state s = Booked \<and> sb_counts s = Some True \<and>
     (case revision_by db (sb_revision s) of None \<Rightarrow> False | Some rv \<Rightarrow> required_passed db u i (er_tasks rv))) (submissions db)"

definition task_passed :: "database \<Rightarrow> string \<times> string \<times> string \<Rightarrow> bool" where
  "task_passed db k \<longleftrightarrow> (\<exists>t\<in>set (task_states db). task_key t = k \<and> ts_passed_at t \<noteq> None)"

lemma required_passed_iff:
  "required_passed db u i ts \<longleftrightarrow> (\<forall>t\<in>set ts. tt_required t \<longrightarrow> task_passed db (u, i, tt_goal t))"
  by (auto simp: required_passed_def list_all_iff exists_row_iff task_passed_def task_key_def)

lemma task_passed_put:
  assumes "unique_by task_key (task_states db)" "t \<in> set (task_states db)" "task_key t' = task_key t"
    "ts_passed_at t \<noteq> None \<Longrightarrow> ts_passed_at t' \<noteq> None" "task_passed db k"
  shows "task_passed (put_task t' db) k"
proof -
  obtain x where x: "x \<in> set (task_states db)" "task_key x = k" "ts_passed_at x \<noteq> None" using assms(5) by (auto simp: task_passed_def)
  show ?thesis
  proof (cases "task_key x = task_key t")
    case True
    then have "x = t" using assms(1,2) x(1) unique_by_inj [of task_key "task_states db" x t] by simp
    then have "t' \<in> set (task_states (put_task t' db))" "task_key t' = k" "ts_passed_at t' \<noteq> None"
      using assms(2-4) x by (auto simp: set_put_task image_iff intro!: bexI [of _ t])
    then show ?thesis by (auto simp: task_passed_def)
  next
    case False
    then have "x \<in> set (task_states (put_task t' db))" using assms(3) x(1) by (auto simp: set_put_task image_iff intro!: bexI [of _ x])
    with x show ?thesis by (auto simp: task_passed_def)
  qed
qed

lemma task_passed_cong: "task_states db' = task_states db \<Longrightarrow> task_passed db' k = task_passed db k"
  by (simp add: task_passed_def)

lemma start_keeps_passed:
  assumes ok: "engine_ok db0" and run: "start_task e i g d us db0 = Inr (ans, db')" and p: "task_passed db0 k"
  shows "task_passed db' k"
proof -
  obtain db and un :: unit_def and r t old s where st: "db = snd (lock_user db0 (us_id us))"
    "old = task_of db (us_id us) (un_id un) g"
    "with_start e r t (sq_request d) (continued_task e (us_id us) (un_id un) g r
       (case old of None \<Rightarrow> False | Some s \<Rightarrow> ts_start s \<noteq> None \<and> ts_start_request s = Some (sq_request d))
       (pending_of db (us_id us) (un_id un) g \<noteq> None) old) = Inr s"
    "same_but_starts (save_task old (s\<lparr>ts_updated := en_now e\<rparr>) db) db'"
    by (rule start_task_Inr [OF run]) blast
  let ?s = "s\<lparr>ts_updated := en_now e\<rparr>"
  have p: "task_passed db k" using p st(1) task_passed_cong [of db db0] by simp
  have ts: "task_states db' = task_states (save_task old ?s db)" by (rule same_but_starts_engine(2) [OF st(4)])
  show ?thesis
  proof (cases old)
    case None
    with p show ?thesis by (auto simp: task_passed_def ts set_save_task)
  next
    case (Some o')
    then have o: "o' \<in> set (task_states db)" "task_key o' = (us_id us, un_id un, g)" using st(2) task_of_SomeD by auto
    have u: "unique_by task_key (task_states db)" using ok st(1) by (simp add: engine_ok_def engine_keys_def)
    have "task_key ?s = task_key o' \<and> ts_passed_at ?s = ts_passed_at o'"
      using st(3) Some by (auto simp: with_start_def public_start_def continued_task_def task_key_def result_simps split: if_splits option.splits)
    then have "task_passed (put_task ?s db) k" using u o(1) p by (intro task_passed_put [of db o']) auto
    then show ?thesis using ts Some by (simp add: task_passed_def save_task_def)
  qed
qed

text \<open>A booking of a pass marks the task as passed, and no transaction takes that back.\<close>

lemma book_keeps_passed:
  assumes ok: "engine_ok db" and run: "book e sid u ev db = Inr (a, db')" and p: "task_passed db k"
  shows "task_passed db' k"
  using run
proof (cases rule: book_cases)
  case (booked row rv t tm op db1 state counters completed)
  let ?t = "booked_task (en_now e) op tm (ev_verdict ev = V_passed) counters (sb_start row) state"
  have u: "unique_by task_key (task_states db)" using ok by (simp add: engine_ok_def engine_keys_def)
  have "task_passed (put_task ?t db) k"
    using task_of_SomeD [OF booked(10)] p booked_task_fields(4) [of state]
    by (intro task_passed_put [OF u, of state]) (auto simp: booked_task_fields)
  then show ?thesis using booked_tables(2) [OF booked(12)] book_award_frame [OF booked(8)]
    by (simp add: task_passed_def put_task_def)
qed (use p in simp)

lemma step_keeps_passed:
  assumes "engine_step f E db l db'" "engine_ok db" "task_passed db k"
  shows "task_passed db' k"
  using assms(1)
proof cases
  case (step_accept e i g d us x)
  with assms(3) accept_plan_tables(3) show ?thesis using task_passed_cong by metis
next
  case (step_claim e row x)
  with assms(3) settle_begin_tables(3) show ?thesis using task_passed_cong by metis
next
  case (step_room e l us i ci m en)
  with assms(3) mutate_room_engine [OF step_room(2)] show ?thesis by (simp add: task_passed_def engine_tables_def)
next
  case (step_publish e d p)
  with assms(3) publish_engine [OF step_publish(2)] show ?thesis by (simp add: task_passed_def engine_tables_def)
qed (use assms(2,3) start_keeps_passed book_keeps_passed in blast)+

text \<open>A published revision keeps its tasks.\<close>

lemma publish_keeps_tasks:
  assumes "publish e d db = Inr (p, db')" "revision_by db rid = Some rv"
  shows "\<exists>rv'. revision_by db' rid = Some rv' \<and> er_tasks rv' = er_tasks rv"
proof (rule publish_Inr [OF assms(1)])
  fix un :: unit_def and mid doc assume run: "publish_document e d un mid doc db = Inr (p, db')"
  have find_map: "first_row P (map h t) = map_option h (first_row P t)" if "\<And>r. P (h r) = P r" for P h and t :: "engine_revision list"
    using that by (induction t) auto
  have keep: "\<exists>rv'. first_row (\<lambda>r. er_id r = rid) (map h t) = Some rv' \<and> er_tasks rv' = er_tasks x"
    if "\<exists>rv'. first_row (\<lambda>r. er_id r = rid) t = Some rv' \<and> er_tasks rv' = er_tasks x"
      "\<And>r. er_id (h r) = er_id r" "\<And>r. er_tasks (h r) = er_tasks r" for t and h :: "engine_revision \<Rightarrow> engine_revision" and x :: engine_revision
    using that find_map [of "\<lambda>r. er_id r = rid" h t] by auto
  have act: "\<exists>rv'. first_row (\<lambda>r. er_id r = rid) (activate un' rid' t) = Some rv' \<and> er_tasks rv' = er_tasks x"
    "\<exists>rv'. first_row (\<lambda>r. er_id r = rid) (deactivate un' rid' t) = Some rv' \<and> er_tasks rv' = er_tasks x"
    if "\<exists>rv'. first_row (\<lambda>r. er_id r = rid) t = Some rv' \<and> er_tasks rv' = er_tasks x" for t un' rid' and x :: engine_revision
    unfolding activate_def deactivate_def by (rule keep [OF that]; simp)+
  have start: "\<exists>rv'. first_row (\<lambda>r. er_id r = rid) (revisions db) = Some rv' \<and> er_tasks rv' = er_tasks rv"
    using assms(2) by (simp add: revision_by_def row_by_def)
  let ?own = "all_rows (\<lambda>r. er_unit r = un_id un) (revisions db)"
  define t where "t = (case first_row (\<lambda>r. er_active_for r \<noteq> None) ?own of None \<Rightarrow> revisions db
    | Some a \<Rightarrow> if first_row (same_content d) ?own = Some a then revisions db else deactivate (un_id un) (er_id a) (revisions db))"
  have t: "\<exists>rv'. first_row (\<lambda>r. er_id r = rid) t = Some rv' \<and> er_tasks rv' = er_tasks rv"
    unfolding t_def using start act(2) [OF start] by (simp del: not_None_eq split: option.split)
  note run = run [unfolded publish_document_def Let_def, folded t_def]
  have "(\<exists>s. revisions db' = activate (un_id un) s t) \<or> (\<exists>row. revisions db' = add_row row t)"
    using run by (cases "first_row (same_content d) ?own") (auto simp del: not_None_eq split: if_splits)
  with act(1) [OF t] t show ?thesis by (auto simp: revision_by_def row_by_def first_row_add_row)
qed

lemma step_keeps_tasks:
  assumes "engine_step f E db l db'" "revision_by db rid = Some rv"
  shows "\<exists>rv'. revision_by db' rid = Some rv' \<and> er_tasks rv' = er_tasks rv"
  using assms(1)
proof cases
  case (step_publish e d p)
  with publish_keeps_tasks assms(2) show ?thesis by blast
next
  case (step_start e i g d us ans)
  then have "revisions db' = revisions db" using same_but_starts_engine(3)
    by (elim start_task_Inr) (auto simp: save_task_def split: option.splits)
  with assms(2) show ?thesis by (simp add: revision_by_def)
next
  case (step_accept e i g d us x)
  from step_accept(2) have "revisions db' = revisions db" by (cases rule: accept_plan_Inr) simp_all
  with assms(2) show ?thesis by (simp add: revision_by_def)
next
  case (step_claim e row x)
  from step_claim(2) have "revisions db' = revisions db" by (cases rule: settle_begin_Inr) simp_all
  with assms(2) show ?thesis by (simp add: revision_by_def)
next
  case (step_book e sid u ev a)
  from step_book(3) have "revisions db' = revisions db"
    by (cases rule: book_cases) (use booked_tables(5) book_award_frame in auto)
  with assms(2) show ?thesis by (simp add: revision_by_def)
next
  case (step_room e l us i ci m en)
  from step_room(2) have "revisions db' = revisions db"
  proof (cases rule: mutate_room_cases)
    case (change content un solved cur p verdict db2 db3)
    have "revisions db2 = revisions db" using change(12)
      by (cases rule: apply_op_cases) (auto simp: enqueue_def split: option.splits)
    moreover have "revisions db' = revisions db3" using change(15)
      by (cases "room_of db (us_id us) i"; cases verdict) (auto simp: save_room_def Let_def split: if_splits)
    ultimately show ?thesis using same_but_starts_engine(3) [OF change(13)] by simp
  qed simp_all
  with assms(2) show ?thesis by (simp add: revision_by_def)
qed

lemma step_keeps_unit_passed:
  assumes step: "engine_step f E db l db'" and ok: "engine_ok db" and p: "unit_passed db u i"
  shows "unit_passed db' u i"
proof -
  obtain s rv where s: "s \<in> set (submissions db)" "sb_user s = u" "sb_unit s = i" "sb_state s = Booked" "sb_counts s = Some True"
    "revision_by db (sb_revision s) = Some rv" "required_passed db u i (er_tasks rv)"
    using p by (auto simp: unit_passed_def exists_row_iff split: option.splits)
  obtain rv' where rv': "revision_by db' (sb_revision s) = Some rv'" "er_tasks rv' = er_tasks rv"
    using step_keeps_tasks [OF step s(6)] by blast
  have "required_passed db' u i (er_tasks rv')"
    using s(7) step_keeps_passed [OF step ok] rv'(2) by (auto simp: required_passed_iff)
  with s rv' step_keeps_booked [OF step ok s(1,4)] show ?thesis by (auto simp: unit_passed_def exists_row_iff intro!: bexI [of _ s])
qed

text \<open>A booking completes the room exactly when every required task is passed.\<close>

lemma room_of_complete:
  assumes "complete_unit now u i ts db = (c, db')"
  shows "room_of db' v k = (if (v, k) = (u, i) \<and> required_passed db u i ts
    then map_option (\<lambda>r. if rs_status r \<noteq> Completed then r\<lparr>rs_status := Completed, rs_result := Some Passed, rs_updated := now\<rparr> else r)
      (room_of db v k) else room_of db v k)"
    "map room_key (rooms db') = map room_key (rooms db)"
proof -
  let ?hit = "\<lambda>r. rs_user r = u \<and> rs_unit r = i \<and> rs_status r \<noteq> Completed"
  let ?f = "\<lambda>r. r\<lparr>rs_status := Completed, rs_result := Some Passed, rs_updated := now\<rparr>"
  have db': "rooms db' = (if required_passed db u i ts then update_rows ?hit ?f (rooms db) else rooms db)"
    using assms by (auto simp: complete_unit_def Let_def split: if_splits)
  show "map room_key (rooms db') = map room_key (rooms db)" unfolding db' by (simp add: map_modify room_key_def)
  have "first_row (\<lambda>r. rs_user r = v \<and> rs_unit r = k) (update_rows ?hit ?f (rooms db)) =
      map_option (\<lambda>r. if ?hit r then ?f r else r) (first_row (\<lambda>r. rs_user r = v \<and> rs_unit r = k) (rooms db))"
    by (rule first_row_update_key) simp
  then show "room_of db' v k = (if (v, k) = (u, i) \<and> required_passed db u i ts
    then map_option (\<lambda>r. if rs_status r \<noteq> Completed then r\<lparr>rs_status := Completed, rs_result := Some Passed, rs_updated := now\<rparr> else r)
      (room_of db v k) else room_of db v k)"
    unfolding room_of_def db'
    by (cases "first_row (\<lambda>r. rs_user r = v \<and> rs_unit r = k) (rooms db)") (auto dest: first_row_SomeD)
qed

definition completions_earned :: "string set \<Rightarrow> database \<Rightarrow> bool" where
  "completions_earned E db \<longleftrightarrow> unique_by room_key (rooms db) \<and>
     (\<forall>u i r. i \<in> E \<longrightarrow> room_of db u i = Some r \<longrightarrow> rs_status r = Completed \<longrightarrow> unit_passed db u i)"

lemma room_step_completed:
  assumes run: "mutate_room e l us k ci m db = Inr (en, db')" and cat: "engine_catalogue E e"
    and u: "unique_by room_key (rooms db)" and i: "i \<in> E" "room_of db' v i = Some r'" "rs_status r' = Completed"
  shows "\<exists>r. room_of db v i = Some r \<and> rs_status r = Completed"
proof (cases "(v, i) = (us_id us, k)")
  case False
  with mutate_room_row [OF run u] i room_of_cong [of db' db] show ?thesis by metis
next
  case True
  have other: ?thesis if "rooms db' = rooms db" using that i room_of_cong [of db' db] by metis
  from run show ?thesis
  proof (cases rule: mutate_room_cases)
    case (change content un solved cur p verdict db2 db3)
    note units = engine_catalogue_units [OF cat change(1)]
    have "\<exists>r. room_of db (us_id us) k = Some r \<and> finished (rs_status r)"
      using units change(2,3) i True
      by (intro engine_room_not_completed_by_client [OF run u change(1) _ change(2,3)]) (auto simp: finished_def)
    then obtain r where r: "room_of db (us_id us) k = Some r" "finished (rs_status r)" by blast
    with finished_room_stays [OF run u r] i True show ?thesis by auto
  qed (use other in simp_all)
qed

lemma step_completions:
  assumes step: "engine_step f E db l db'" and ok: "engine_ok db" and c: "completions_earned E db"
  shows "completions_earned E db'"
proof -
  have keep: ?thesis if "rooms db' = rooms db"
    using c that room_of_cong [OF that] step_keeps_unit_passed [OF step ok] by (auto simp: completions_earned_def)
  from step show ?thesis
  proof cases
    case (step_start e i g d us ans)
    from step_start(2) have "rooms db' = rooms db" using same_but_starts_fields(1)
      by (elim start_task_Inr) (auto simp: save_task_def split: option.splits)
    then show ?thesis by (rule keep)
  next
    case (step_accept e i g d us x)
    from step_accept(2) have "rooms db' = rooms db" by (cases rule: accept_plan_Inr) simp_all
    then show ?thesis by (rule keep)
  next
    case (step_claim e row x)
    from step_claim(2) have "rooms db' = rooms db" by (cases rule: settle_begin_Inr) simp_all
    then show ?thesis by (rule keep)
  next
    case (step_publish e d p)
    with publish_engine keep show ?thesis by blast
  next
    case (step_room e l us i ci m en)
    have u: "unique_by room_key (rooms db)" using c by (simp add: completions_earned_def)
    with mutate_room_row [OF step_room(2)] room_step_completed [OF step_room(2,3) u] c step_keeps_unit_passed [OF step ok]
    show ?thesis unfolding completions_earned_def by blast
  next
    case (step_book e sid u ev a)
    from step_book(3) show ?thesis
    proof (cases rule: book_cases)
      case (old row)
      with keep show ?thesis by simp
    next
      case (booked row rv t tm op db1 state counters completed)
      note fr = book_award_frame [OF booked(8)] and row = submission_of_SomeD [OF booked(1)]
      let ?s = "booked_submission (en_now e) ev t row"
      define db2 where "db2 = put_submission ?s
          (put_task (booked_task (en_now e) op tm (ev_verdict ev = V_passed) counters (sb_start row) state) (snd (lock_user db1 u)))"
      have r2: "rooms db2 = rooms db" using fr by (simp add: db2_def)
      show ?thesis
      proof (cases "ev_verdict ev = V_passed")
        case False
        with booked(12) r2 have "rooms db' = rooms db" by (simp add: db2_def)
        then show ?thesis by (rule keep)
      next
        case True
        with booked(12) have cu: "complete_unit (en_now e) u (sb_unit row) (er_tasks rv) db2 = (completed, db')"
          by (simp add: db2_def)
        note rc = room_of_complete [OF cu]
        have u: "unique_by room_key (rooms db')" using c rc(2) r2 by (simp add: completions_earned_def unique_by_def)
        have "unit_passed db' v i" if "i \<in> E" "room_of db' v i = Some r" "rs_status r = Completed" for v i r
        proof (cases "(v, i) = (u, sb_unit row) \<and> required_passed db2 u (sb_unit row) (er_tasks rv)")
          case False
          then have "room_of db v i = Some r" using that(2) rc(1) [of v i] room_of_cong [OF r2] by auto
          with c that show ?thesis by (intro step_keeps_unit_passed [OF step ok]) (auto simp: completions_earned_def)
        next
          case True
          have tb: "task_states db' = task_states db2" "revisions db' = revisions db" "submissions db' = submissions (put_submission ?s db)"
            using booked_tables [OF booked(12)] fr by (simp_all add: db2_def put_submission_def put_task_def)
          have "?s \<in> set (submissions db')" using row unfolding tb(3)
            by (auto simp: set_put_submission booked_submission_fields image_iff intro!: bexI [of _ row])
          moreover have "required_passed db' u (sb_unit row) (er_tasks rv)" using True tb(1) by (simp add: required_passed_def)
          moreover have "revision_by db' (sb_revision ?s) = Some rv"
            using booked(3) tb(2) by (simp add: revision_by_def booked_submission_def)
          ultimately show ?thesis using True row \<open>ev_verdict ev = V_passed\<close>
            by (auto simp: unit_passed_def exists_row_iff booked_submission_fields intro!: bexI [of _ ?s])
        qed
        with u show ?thesis by (auto simp: completions_earned_def)
      qed
    qed
  qed
qed

text \<open>
  C8: a unit of the engine is completed by its passes only. In every history in which the catalogue gives the units
  \<open>E\<close> to the engine, a room of such a unit is completed only if the learner has a booked pass in it and every task
  its revision requires is passed; no save, skip, answer or verdict sent by a client can bring it about.
\<close>

theorem unit_completed_by_passes:
  assumes "engine_run f E db ls db'" "engine_ok db" "completions_earned E db"
    "i \<in> E" "room_of db' u i = Some r" "rs_status r = Completed"
  shows "\<exists>s rv. s \<in> set (submissions db') \<and> sb_user s = u \<and> sb_unit s = i \<and> sb_state s = Booked \<and> sb_verdict s = Some V_passed \<and>
    revision_by db' (sb_revision s) = Some rv \<and>
    (\<forall>t. t \<in> set (er_tasks rv) \<and> tt_required t \<longrightarrow> task_passed db' (u, i, tt_goal t))"
proof -
  from assms(1-3) have inv: "engine_ok db' \<and> completions_earned E db'"
    by (induction rule: engine_run.induct) (auto intro: step_engine_ok step_completions)
  with assms(4-6) have "unit_passed db' u i" by (auto simp: completions_earned_def)
  then obtain s rv where s: "s \<in> set (submissions db')" "sb_user s = u" "sb_unit s = i" "sb_state s = Booked" "sb_counts s = Some True"
    "revision_by db' (sb_revision s) = Some rv" "required_passed db' u i (er_tasks rv)"
    by (auto simp: unit_passed_def exists_row_iff split: option.splits)
  moreover have "sb_verdict s = Some V_passed"
    using inv s(1,4,5) by (auto simp: engine_ok_def list_all_iff submission_ok_def)
  ultimately show ?thesis by (auto simp: required_passed_iff)
qed

section \<open>A tour\<close>

text \<open>A hash of names without collisions: bytes as characters, anything else in unary.\<close>

definition unary :: "nat list \<Rightarrow> string" where
  "unary b = concat (map (\<lambda>n. replicate n (CHR ''a'') @ ''b'') b)"

definition name_hash :: "nat list \<Rightarrow> string" where
  "name_hash b = (if list_all (\<lambda>n. n < 256) b then ''A'' @ map char_of b else ''B'' @ unary b)"

lemma unary_inject: "unary x = unary y \<Longrightarrow> x = y"
proof (induction x arbitrary: y)
  case Nil
  then show ?case by (cases y) (simp_all add: unary_def)
next
  case (Cons n x)
  then obtain m y' where y: "y = m # y'" by (cases y) (auto simp: unary_def)
  with Cons.prems have eq: "replicate n (CHR ''a'') @ CHR ''b'' # unary x = replicate m (CHR ''a'') @ CHR ''b'' # unary y'"
    by (simp add: unary_def)
  have tw: "takeWhile (\<lambda>c. c = CHR ''a'') (replicate k (CHR ''a'') @ CHR ''b'' # z) = replicate k (CHR ''a'')" for k z
    by (induction k) auto
  from eq tw [of n "unary x"] tw [of m "unary y'"] have "n = m" by (metis length_replicate)
  with eq Cons.IH [of y'] y show ?case by simp
qed

lemma inj_name_hash: "inj name_hash"
proof (rule injI)
  fix x y assume e: "name_hash x = name_hash y"
  have m: "map of_char (map char_of z) = z" if "list_all (\<lambda>n. n < 256) z" for z :: "nat list"
    using that by (induction z) simp_all
  show "x = y"
  proof (cases "list_all (\<lambda>n. n < 256) x \<and> list_all (\<lambda>n. n < 256) y")
    case True
    with e have "map char_of x = (map char_of y :: string)" by (simp add: name_hash_def)
    with True m [of x] m [of y] show ?thesis by metis
  next
    case False
    with e have "unary x = unary y" by (auto simp: name_hash_def split: if_splits)
    then show ?thesis by (rule unary_inject)
  qed
qed

definition tour_env :: env where
  "tour_env = room_env\<lparr>en_uuid5 := name_hash\<rparr>"

definition tour_plan :: plan where
  "tour_plan = Program_plan (ustr ''go()'')"

definition tour_db :: database where
  "tour_db = publish_db\<lparr>rooms := [(room_in ''quest'' 3 In_progress)\<lparr>rs_state := jobj [(''plans'', jobj [(''goal'', dump_plan tour_plan)])]\<rparr>]\<rparr>"

definition tour_start :: start_request where
  "tour_start = \<lparr>sq_request = ''r1'', sq_revision = ''rev1'', sq_course = None\<rparr>"

definition tour_submit :: submit_request where
  "tour_submit = \<lparr>uq_request = ''r2'', uq_state_revision = 3, uq_start = ''id'', uq_plan = tour_plan, uq_course = None\<rparr>"

definition tour_result :: evaluation where
  "tour_result = \<lparr>ev_verdict = V_passed, ev_criteria = [\<lparr>cn_id = ustr ''done'', cn_passed = True\<rparr>], ev_codes = [], ev_runs_hash = replicate 64 97\<rparr>"

definition tour_ends :: "(database \<Rightarrow> submission \<Rightarrow> database \<Rightarrow> assessment \<Rightarrow> database \<Rightarrow> bool) \<Rightarrow> bool" where
  "tour_ends P = (case start_task tour_env ''quest'' ''goal'' tour_start example_user tour_db of Inl er \<Rightarrow> False
   | Inr (ans, db1) \<Rightarrow> (case accept_plan tour_env ''quest'' ''goal'' tour_submit example_user db1 of Inl er \<Rightarrow> False
     | Inr (old, db2) \<Rightarrow> (case old of Inl same \<Rightarrow> False | Inr row \<Rightarrow>
       (case settle_begin tour_env row db2 of Inl er \<Rightarrow> False
       | Inr (x, db3) \<Rightarrow> (case book tour_env (sb_id row) ''u'' tour_result db3 of Inl n \<Rightarrow> False
         | Inr (a, db4) \<Rightarrow> x \<noteq> None \<and> P db1 row db3 a db4)))))"

lemma tour_runs:
  assumes "tour_ends P"
  obtains a db1 row db3 db4 where "P db1 row db3 a db4"
    "engine_run name_hash {''quest''} tour_db [None, None, None, Some (''u'', a)] db4"
proof -
  obtain ans db1 where 1: "start_task tour_env ''quest'' ''goal'' tour_start example_user tour_db = Inr (ans, db1)"
    using assms by (auto simp: tour_ends_def split: sum.splits)
  obtain old db2 where o: "accept_plan tour_env ''quest'' ''goal'' tour_submit example_user db1 = Inr (old, db2)"
    using assms 1 by (cases "accept_plan tour_env ''quest'' ''goal'' tour_submit example_user db1") (auto simp: tour_ends_def)
  obtain row where row: "old = Inr row" using assms 1 o by (cases old) (simp_all add: tour_ends_def)
  note 2 = o [unfolded row]
  obtain x db3 where 3: "settle_begin tour_env row db2 = Inr (x, db3)"
    using assms 1 2 by (cases "settle_begin tour_env row db2") (auto simp: tour_ends_def)
  obtain a db4 where 4: "book tour_env (sb_id row) ''u'' tour_result db3 = Inr (a, db4)"
    using assms 1 2 3 by (cases "book tour_env (sb_id row) ''u'' tour_result db3") (auto simp: tour_ends_def)
  have h: "en_uuid5 tour_env = name_hash" by (simp add: tour_env_def)
  have "engine_run name_hash {''quest''} tour_db [None, None, None, Some (''u'', a)] db4"
    by (rule run_more [OF step_start [OF 1]], rule run_more [OF step_accept [OF 2]], rule run_more [OF step_claim [OF 3]],
        rule run_more [OF step_book [OF h 4]], rule run_stop)
  moreover have "P db1 row db3 a db4" using assms 1 2 3 4 by (simp add: tour_ends_def)
  ultimately show thesis by (rule that [rotated])
qed

lemma tour_db_ok: "engine_ok tour_db" "awards_match name_hash tour_db" "completions_earned {''quest''} tour_db"
proof -
  show "engine_ok tour_db" by code_simp
  show "awards_match name_hash tour_db"
    by (simp add: awards_match_def paid_def award_receipt_def xo_with_def row_by_def xp_marked_def exists_row_def tour_db_def publish_db_def empty_db_def)
  have "unique_by room_key (rooms tour_db)" by code_simp
  moreover have "rs_status r \<noteq> Completed" if "room_of tour_db u i = Some r" for u i r
  proof -
    have "r \<in> set (rooms tour_db)" using that unfolding room_of_def by (auto dest: first_row_SomeD)
    moreover have "list_all (\<lambda>r. rs_status r \<noteq> Completed) (rooms tour_db)" by code_simp
    ultimately show ?thesis by (auto simp: list_all_iff)
  qed
  ultimately show "completions_earned {''quest''} tour_db" by (auto simp: completions_earned_def)
qed

lemma submissions_settle_once_witness:
  "\<exists>ls db'. engine_run name_hash {''quest''} tour_db ls db' \<and> submissions db' \<noteq> [] \<and> engine_ok db'"
proof -
  have "tour_ends (\<lambda>db1 row db3 a db4. submissions db4 \<noteq> [])" by code_simp
  then obtain a db4 where "submissions db4 \<noteq> []" "engine_run name_hash {''quest''} tour_db [None, None, None, Some (''u'', a)] db4"
    by (rule tour_runs)
  with submissions_settle_once [OF this(2) tour_db_ok(1)] show ?thesis by blast
qed

lemma task_pays_once_witness:
  "\<exists>ls db'. engine_run name_hash {''quest''} tour_db ls db' \<and> get_user_xp db' ''u'' = 15 \<and> earned ''u'' (announcements ls) = 15"
proof -
  have "tour_ends (\<lambda>db1 row db3 a db4. get_user_xp db4 ''u'' = 15)" by code_simp
  then obtain a db4 where xp: "get_user_xp db4 ''u'' = 15"
      and run: "engine_run name_hash {''quest''} tour_db [None, None, None, Some (''u'', a)] db4"
    by (rule tour_runs)
  have "get_user_xp tour_db ''u'' = 0" by code_simp
  with task_pays_once [OF run tour_db_ok(1,2) inj_name_hash] xp have "earned ''u'' (announcements [None, None, None, Some (''u'', a)]) = 15"
    by simp
  with run xp show ?thesis by blast
qed

lemma unit_completed_by_passes_witness:
  "\<exists>ls db' s. engine_run name_hash {''quest''} tour_db ls db' \<and> room_completed db' ''u'' ''quest'' \<and>
    s \<in> set (submissions db') \<and> sb_verdict s = Some V_passed"
proof -
  have "tour_ends (\<lambda>db1 row db3 a db4. room_completed db4 ''u'' ''quest'')" by code_simp
  then obtain a db4 where c: "room_completed db4 ''u'' ''quest''"
      and run: "engine_run name_hash {''quest''} tour_db [None, None, None, Some (''u'', a)] db4"
    by (rule tour_runs)
  from c obtain r where r: "room_of db4 ''u'' ''quest'' = Some r" "rs_status r = Completed"
    by (auto simp: room_completed_def split: option.splits)
  from unit_completed_by_passes [OF run tour_db_ok(1,3) _ r] run c show ?thesis by blast
qed

text \<open>The submission of the tour after its acceptance, claimed twice at the same time.\<close>

lemma one_evaluation_at_a_time_witness:
  "\<exists>db s. submission_at db ''id'' = Some s \<and> evaluations ''id'' [Evaluation_claimed tour_env s, Evaluation_claimed tour_env s] db = [] \<and>
    sorted_wrt (\<lambda>t t'. t + 30 \<le> t') (evaluations ''id'' [Evaluation_claimed tour_env s, Evaluation_claimed tour_env s] db)"
proof -
  have "tour_ends (\<lambda>db1 row db3 a db4. case submission_at db4 ''id'' of None \<Rightarrow> False | Some s \<Rightarrow> sb_state s = Booked)" by code_simp
  then obtain a db4 where c: "case submission_at db4 ''id'' of None \<Rightarrow> False | Some s \<Rightarrow> sb_state s = Booked"
      and run: "engine_run name_hash {''quest''} tour_db [None, None, None, Some (''u'', a)] db4"
    by (rule tour_runs)
  obtain s where s: "submission_at db4 ''id'' = Some s" "sb_state s = Booked" using c by (auto split: option.splits)
  have ok: "engine_ok db4" using run tour_db_ok(1) by (induction rule: engine_run.induct) (auto intro: step_engine_ok)
  from one_evaluation_at_a_time [OF ok s(1)] s show ?thesis by blast
qed

end
