(* ===== verification/Outages.thy ===== *)
theory Outages
  imports Assessment
begin

text \<open>
  What the lesson engine owes when something is missing: without a result of the sandbox nothing is booked, and
  nothing is written for an account that was erased.
\<close>

section \<open>No verdict without a result\<close>

text \<open>The sandbox fails: it cannot be reached, or no answer of it is a result.\<close>

definition sandbox_fails :: "sandbox \<Rightarrow> bool" where
  "sandbox_fails sa \<longleftrightarrow> (\<forall>b. case sa_post sa b of No_reply \<Rightarrow> True | Reply st body \<Rightarrow> result_of sa st body = None)"

lemma fails_evaluate: "sandbox_fails sa \<Longrightarrow> evaluate e sa d job = None"
  by (simp add: sandbox_fails_def evaluate_def split: reply.splits)

text \<open>What counts as a result: an answer of 200, a run that ended with 0, and one line that is a valid result.\<close>

lemma result_of_Some:
  assumes "result_of sa st body = Some ev"
  shows "st = 200" "\<exists>b run out v. body = Some b \<and> jget ''run'' b = Some run \<and> py_zero (jget ''status'' run) \<and>
    jget ''stdout'' run = Some (JStr out) \<and> 10 \<notin> set (strip out) \<and> sa_loads sa (strip out) = Some v \<and> read_result v = Some ev"
  using assms by (auto simp: result_of_def bind_eq_Some_conv dest: json_text_Some split: if_splits)

lemma settle_fails:
  assumes "sandbox_fails sa" "settle e later sa row u base db = (x, db')"
  shows "db' = base \<or> db' = db \<or>
    (\<exists>s s'. s \<in> set (submissions db) \<and> claim_evaluation (en_now e) s = Some s' \<and> db' = put_submission s' db)"
proof (cases "settle_begin e row db")
  case (Inr p)
  obtain y db1 where run: "settle_begin e row db = Inr (y, db1)" using Inr by (cases p) simp
  have "db' = db1" using assms run by (cases y) (auto simp: settle_def fails_evaluate settle_end_def)
  with run show ?thesis by (cases rule: settle_begin_Inr) (auto dest: row_by_SomeD)
qed (use assms in \<open>simp add: settle_def\<close>)


definition dead_sandbox :: sandbox where
  "dead_sandbox = \<lparr>sa_dumps = (\<lambda>v. []), sa_loads = (\<lambda>t. None), sa_post = (\<lambda>b. Reply 400 None)\<rparr>"


section \<open>A booked verdict fits its task\<close>

text \<open>
  C35: a booked pass met every criterion. A booking of a pass needs a result with exactly the criteria of the task, each once
  and each met; a booking shows the learner only texts that the package holds for codes of its own, and none after a pass.
\<close>

theorem booked_verdict_fits:
  assumes "book e sid u ev db = Inr (a, db')" "submission_of db sid u = Some s" "sb_state s = Accepted"
  shows "\<exists>rv t fb. revision_by db (sb_revision s) = Some rv \<and> t \<in> set (sd_tasks (er_document rv)) \<and> dt_goal t = sb_goal s \<and>
    am_outcome a = Some (ev_verdict ev) \<and> am_counts a = Some (ev_verdict ev = V_passed) \<and> am_feedback a = Some fb \<and>
    distinct (map cn_id (ev_criteria ev)) \<and> set (map cn_id (ev_criteria ev)) = set (dt_criteria t) \<and>
    (ev_verdict ev = V_passed \<longrightarrow> (\<forall>c. c \<in> set (ev_criteria ev) \<longrightarrow> cn_passed c) \<and> fb_reasons fb = []) \<and>
    (\<forall>r. r \<in> set (fb_reasons fb) \<longrightarrow> (\<exists>code ts. (code, ts) \<in> set (dt_feedback t) \<and> code \<in> set (ev_codes ev) \<and> r \<in> snd ` set ts))"
  using assms(1)
proof (cases rule: book_cases)
  case (booked row rv t tm op db1 state counters completed)
  have row: "row = s" using booked(1) assms(2) by simp
  have t: "t \<in> set (sd_tasks (er_document rv))" "dt_goal t = sb_goal s"
    using booked(4) row by (auto simp: find_Some_iff)
  have shown: "\<exists>code ts. (code, ts) \<in> set (dt_feedback t) \<and> code \<in> set (ev_codes ev) \<and> r \<in> snd ` set ts"
    if r: "r \<in> set (fb_reasons (feedback ev t))" for r
  proof -
    obtain c where c: "c \<in> set (ev_codes ev)" "r = feedback_text (the (map_of (dt_feedback t) c))" "r \<noteq> []"
      using r by (auto simp: feedback_def split: if_splits)
    then obtain ts where ts: "map_of (dt_feedback t) c = Some ts"
      using booked(6) by (cases "map_of (dt_feedback t) c") (auto simp: bound_def map_of_eq_None_iff)
    have "feedback_text ts \<in> snd ` set ts" if "feedback_text ts \<noteq> []"
      using that by (force simp: feedback_text_def dest: map_of_SomeD split: option.splits list.splits if_splits)
    with c ts map_of_SomeD [OF ts] show ?thesis by auto
  qed
  have "am_outcome a = Some (ev_verdict ev) \<and> am_counts a = Some (ev_verdict ev = V_passed) \<and> am_feedback a = Some (feedback ev t)"
    unfolding booked(13) by (simp add: view_def booked_submission_def)
  with booked(3,6) row t shown show ?thesis
    by (intro exI [of _ rv] exI [of _ t] exI [of _ "feedback ev t"])
      (auto simp: bound_def list_all_iff feedback_def)
qed (use assms(2,3) in simp)

lemma booked_verdict_fits_witness:
  "\<exists>a db'. book tour_env ''id'' ''u'' tour_result (tour_db\<lparr>submissions := [(new_submission tour_env ''u'' ''quest'' ''goal'' ''h'' JNull
      (new_task tour_env ''u'' ''quest'' ''goal'' example_revision) example_revision)\<lparr>sb_start := ''s''\<rparr>],
      task_states := [new_task tour_env ''u'' ''quest'' ''goal'' example_revision]\<rparr>) = Inr (a, db') \<and>
    am_outcome a = Some (ev_verdict tour_result)"
proof -
  let ?row = "(new_submission tour_env ''u'' ''quest'' ''goal'' ''h'' JNull (new_task tour_env ''u'' ''quest'' ''goal'' example_revision)
     example_revision)\<lparr>sb_start := ''s''\<rparr>"
  let ?db = "tour_db\<lparr>submissions := [?row], task_states := [new_task tour_env ''u'' ''quest'' ''goal'' example_revision]\<rparr>"
  have "case book tour_env ''id'' ''u'' tour_result ?db of Inl n \<Rightarrow> False | Inr p \<Rightarrow> True" by code_simp
  then obtain a db' where run: "book tour_env ''id'' ''u'' tour_result ?db = Inr (a, db')" by (auto split: sum.splits)
  have s: "submission_of ?db ''id'' ''u'' = Some ?row" by code_simp
  have acc: "sb_state ?row = Accepted" by (simp add: new_submission_def)
  have "am_outcome a = Some (ev_verdict tour_result)" using booked_verdict_fits [OF run s acc] by (elim exE conjE)
  with run show ?thesis by blast
qed

section \<open>Erased accounts\<close>

lemma gone_put_submission: "gone db v \<Longrightarrow> s \<in> set (submissions db) \<Longrightarrow> sb_user s' = sb_user s \<Longrightarrow> gone (put_submission s' db) v"
  unfolding put_submission_def
  by (rule gone_write(1), simp) (use gone_row(1) [of db v] in \<open>auto simp: no_row_def modify_by_def row_simps\<close>)

lemma gone_put_task: "gone db v \<Longrightarrow> ts_user t \<noteq> v \<Longrightarrow> gone (put_task t db) v"
  unfolding put_task_def
  by (rule gone_write(2), simp) (use gone_row(2) [of db v] in \<open>auto simp: no_row_def modify_by_def row_simps\<close>)

lemma gone_not_erased: "gone db v \<Longrightarrow> \<not> erased db u \<Longrightarrow> u \<noteq> v"
  by (auto simp: gone_def)

lemma gone_start_task:
  assumes g: "gone db0 v" and run: "start_task e i g d us db0 = Inr (ans, db')"
  shows "gone db' v"
proof -
  obtain db and un :: unit_def and r t old s x where st: "db = snd (lock_user db0 (us_id us))" "\<not> erased db0 (us_id us)"
    "old = task_of db (us_id us) (un_id un) g"
    "with_start e r t (sq_request d) (continued_task e (us_id us) (un_id un) g r
       (case old of None \<Rightarrow> False | Some s \<Rightarrow> ts_start s \<noteq> None \<and> ts_start_request s = Some (sq_request d))
       (pending_of db (us_id us) (un_id un) g \<noteq> None) old) = Inr s"
    "start_unit e us (un_id un) (sq_course d) True (save_task old (s\<lparr>ts_updated := en_now e\<rparr>) db) = Inr (x, db')"
    by (rule start_task_Inr [OF run]) blast
  have u: "us_id us \<noteq> v" by (rule gone_not_erased [OF g st(2)])
  have g: "gone db v" using g st(1) by simp
  have "old = None \<or> (\<exists>s. old = Some s \<and> ts_user s = us_id us)"
    unfolding st(3) by (cases "task_of db (us_id us) (un_id un) g") (auto dest: task_of_SomeD simp: task_key_def)
  then have "ts_user s = us_id us"
    using st(4) by (auto simp: with_start_def public_start_def continued_task_def new_task_def result_simps split: if_splits option.splits)
  then have "gone (save_task old (s\<lparr>ts_updated := en_now e\<rparr>) db) v"
    using g u gone_row(2) [OF g] by (cases old) (auto simp: save_task_def intro!: gone_put_task gone_write)
  from gone_start_unit [OF this u st(5)] show ?thesis .
qed

lemma gone_accept_plan:
  assumes g: "gone db0 v" and run: "accept_plan e i g d us db0 = Inr (x, db')"
  shows "gone db' v"
  using run
proof (cases rule: accept_plan_Inr)
  case (fresh db un state r)
  have "us_id us \<noteq> v" by (rule gone_not_erased [OF g fresh(2)])
  moreover have "gone db v" using g fresh(1) by simp
  ultimately show ?thesis using gone_row(1) [of db v] unfolding fresh(8)
    by (auto intro!: gone_write simp: fresh(6) new_submission_def)
qed (use g in simp)

lemma gone_settle_begin:
  assumes g: "gone db v" and run: "settle_begin e row db = Inr (x, db')"
  shows "gone db' v"
  using run
proof (cases rule: settle_begin_Inr)
  case (claimed s s' doc job)
  with row_by_SomeD [OF claimed(1)] claim_evaluation_Some [OF claimed(2)] show ?thesis
    unfolding claimed(4) by (intro gone_put_submission [OF g, of s]) auto
qed (use g in simp)

lemma gone_book:
  assumes g: "gone db v" and run: "book e sid u ev db = Inr (a, db')"
  shows "gone db' v"
  using run
proof (cases rule: book_cases)
  case (booked row rv t tm op db1 state counters completed)
  have g1: "gone db1 v" using booked(8) g by (auto simp: book_award_def dest: gone_apply_xp split: if_splits sum.splits)
  have u: "u \<noteq> v" by (rule gone_not_erased [OF g1 booked(9)])
  let ?s = "booked_submission (en_now e) ev t row"
    and ?t = "booked_task (en_now e) op tm (ev_verdict ev = V_passed) counters (sb_start row) state"
  have row: "row \<in> set (submissions db1)" "sb_user ?s = sb_user row"
    using submission_of_SomeD [OF booked(1)] book_award_frame [OF booked(8)] by (simp_all add: booked_submission_fields)
  have "ts_user ?t = u" using task_of_SomeD [OF booked(10)] booked_task_fields(1) [of "en_now e" op tm _ counters _ state]
    by (simp add: task_key_def)
  then have g2: "gone (put_submission ?s (put_task ?t (snd (lock_user db1 u)))) v"
    using g1 u row by (intro gone_put_submission [of _ v row] gone_put_task) simp_all
  have "gone db' v" if "complete_unit n u k ts db2 = (completed, db')" "gone db2 v" for n k ts db2
    using that gone_row(11) [OF that(2)] by (auto simp: complete_unit_def Let_def intro!: gone_write no_row_intros split: if_splits)
  with g2 booked(12) show ?thesis by (auto simp: Let_def split: if_splits)
qed (use g in simp)

interpretation engine_steps: guarded evaluation_step
proof
  fix db u i assume g: "gone db u"
  show "gone (evaluation_step i db) u"
  proof (cases i)
    case (Verdict_booked e sid w ev)
    with g show ?thesis by (auto split: sum.splits dest: gone_book)
  qed (use g in \<open>auto intro: gone_committed gone_start_task gone_accept_plan gone_settle_begin\<close>)
qed

end
