(* ===== verification/Rights.thy ===== *)
theory Rights
  imports Llm
begin

text \<open>
  Erasure of an account and what survives it: \<^verbatim>\<open>services/user_deletion.py\<close>, \<^verbatim>\<open>services/retained_rights.py\<close> and the
  internal endpoints \<^verbatim>\<open>endpoints/internal/users.py\<close>. The erasure observes which courses the account could open,
  keeps that observation as a retained right without any personal history, and leaves a tombstone. A later account
  of the same person continues a right when the shop elects it (\<open>deliver_right\<close>).

  The answers of the shop are a parameter (\<open>claims_env\<close>). Fresh ids come from \<open>env\<close>; an id that is already in
  use makes the insert fail, as the primary key does.
\<close>

section \<open>The right as others see it\<close>

text \<open>The election of the shop, asked twice within one delivery, and \<^verbatim>\<open>datetime.isoformat\<close>.\<close>

record claims_env =
  cl_authority :: "nat \<Rightarrow> string \<Rightarrow> string \<Rightarrow> reply"
  cl_iso :: "int \<Rightarrow> ustr"

definition original :: "retained_right \<Rightarrow> right_view" where
  "original r = \<lparr>rv_id = rr_id r, rv_source = rr_source r, rv_course = rr_course r, rv_observed = rr_observed r,
     rv_original = rr_original r\<rparr>"

definition SCOPE :: ustr where
  "SCOPE = ustr ''Existing course admission at erasure; no original payment, performance, duration or new terms inferred''"

text \<open>The JSON of a right, as it is compared with the scope the shop names.\<close>

definition observation_json :: "right_original \<Rightarrow> json" where
  "observation_json o' = jobj [(''source_user_id'', js (ro_source o')), (''course_id'', js (ro_course o')),
     (''observed_course_access'', JBool (ro_access o')), (''observed_started_course_access'', JBool (ro_started o')),
     (''purchase_ids'', JArr (map js (ro_purchases o'))), (''scope'', JStr SCOPE), (''viewing_history_retained'', JBool False)]"

definition original_json :: "claims_env \<Rightarrow> right_view \<Rightarrow> json" where
  "original_json ce v = jobj [(''id'', js (rv_id v)), (''source_user_id'', js (rv_source v)), (''course_id'', js (rv_course v)),
     (''observed_at'', JStr (cl_iso ce (rv_observed v))), (''original'', observation_json (rv_original v))]"

definition list_rights :: "database \<Rightarrow> string \<Rightarrow> (right_view \<times> string option \<times> int) list" where
  "list_rights db u = map (\<lambda>r. (original r, rr_subject r, rr_generation r))
     (sort_key rr_id (all_rows (\<lambda>r. rr_source r = u) (rights db)))"

definition get_original :: "database \<Rightarrow> string \<Rightarrow> string \<Rightarrow> right_view result" where
  "get_original db u i = (case first_row (\<lambda>r. rr_id r = i \<and> rr_source r = u) (rights db) of
     None \<Rightarrow> Inl (Http 404 ''observed course right unavailable'') | Some r \<Rightarrow> Inr (original r))"

section \<open>Preserving rights before an erasure\<close>

definition accessed_courses :: "database \<Rightarrow> string \<Rightarrow> string set" where
  "accessed_courses db u = set (map ca_course (all_rows (\<lambda>a. ca_user a = u) (accesses db)))"

definition started_courses :: "database \<Rightarrow> string \<Rightarrow> string set" where
  "started_courses db u = set (map lw_course (all_rows (\<lambda>w. lw_user w = u) (watches db)))"

definition continued_courses :: "database \<Rightarrow> string \<Rightarrow> string set" where
  "continued_courses db u = set (map rr_course (all_rows (\<lambda>r. rr_subject r = Some u) (rights db)))"

definition observed_right :: "env \<Rightarrow> database \<Rightarrow> string \<Rightarrow> string \<Rightarrow> string \<Rightarrow> retained_right" where
  "observed_right e db u i c = \<lparr>rr_id = i, rr_source = u, rr_course = c, rr_observed = en_now e,
     rr_original = \<lparr>ro_source = u, ro_course = c, ro_access = c \<in> accessed_courses db u,
       ro_started = c \<in> started_courses db u,
       ro_purchases = map cp_id (all_rows (\<lambda>p. cp_user p = u \<and> cp_course p = c) (purchases db))\<rparr>,
     rr_subject = None, rr_generation = 0\<rparr>"

fun preserve_courses :: "env \<Rightarrow> string \<Rightarrow> nat \<Rightarrow> string list \<Rightarrow> database \<Rightarrow> database result" where
  "preserve_courses e u n [] db = Inr db"
| "preserve_courses e u n (c # cs) db =
     (if exists_row (\<lambda>r. rr_source r = u \<and> rr_course r = c) (rights db) then preserve_courses e u n cs db
      else if exists_row (\<lambda>r. rr_id r = en_fresh e n) (rights db) then Inl (Crash ''IntegrityError'')
      else preserve_courses e u (n + 1) cs (db\<lparr>rights := add_row (observed_right e db u (en_fresh e n) c) (rights db)\<rparr>))"

definition release_rights :: "string \<Rightarrow> database \<Rightarrow> database" where
  "release_rights u db = db\<lparr>
     rights := update_rows (\<lambda>r. rr_subject r = Some u) (\<lambda>r. r\<lparr>rr_subject := None, rr_generation := rr_generation r + 1\<rparr>)
       (rights db),
     grants := update_rows (\<lambda>g. gr_subject g = u \<and> gr_state g = ''granted'') (\<lambda>g. g\<lparr>gr_state := ''withdrawn''\<rparr>) (grants db)\<rparr>"

definition preserve_before_erasure :: "env \<Rightarrow> string \<Rightarrow> database \<Rightarrow> database result" where
  "preserve_before_erasure e u db = preserve_courses e u 0
     (sorted_list_of_set ((accessed_courses db u \<union> started_courses db u) - continued_courses db u)) (release_rights u db)"

section \<open>Erasure\<close>

text \<open>The tables of \<^verbatim>\<open>USER_MODELS\<close>; \<open>clean\<close> (theory \<open>Store\<close>) says that they are empty for the account.\<close>

definition delete_user_rows :: "string \<Rightarrow> database \<Rightarrow> database" where
  "delete_user_rows u db = db\<lparr>
     submissions := delete_rows (\<lambda>r. sb_user r = u) (submissions db), task_states := delete_rows (\<lambda>r. ts_user r = u) (task_states db),
     start_receipts := delete_rows (\<lambda>r. lr_user r = u) (start_receipts db), starts := delete_rows (\<lambda>r. ls_user r = u) (starts db),
     project_requests := delete_rows (\<lambda>r. pq_user r = u) (project_requests db), projects := delete_rows (\<lambda>r. pr_user r = u) (projects db),
     plans := delete_rows (\<lambda>r. pl_user r = u) (plans db), milestones := delete_rows (\<lambda>r. ms_user r = u) (milestones db),
     verdicts := delete_rows (\<lambda>r. lv_user r = u) (verdicts db), room_requests := delete_rows (\<lambda>r. rq_user r = u) (room_requests db),
     rooms := delete_rows (\<lambda>r. rs_user r = u) (rooms db), accesses := delete_rows (\<lambda>r. ca_user r = u) (accesses db),
     watches := delete_rows (\<lambda>r. lw_user r = u) (watches db), lectures := delete_rows (\<lambda>r. lp_user r = u) (lectures db),
     bookmarks := delete_rows (\<lambda>r. bm_user r = u) (bookmarks db), xps := delete_rows (\<lambda>r. xp_user r = u) (xps db),
     xp_operations := delete_rows (\<lambda>r. xo_user r = u) (xp_operations db)\<rparr>"

definition suspend_purchases :: "string \<Rightarrow> database \<Rightarrow> database" where
  "suspend_purchases u db = db\<lparr>purchases := update_rows (\<lambda>p. cp_user p = u \<and> cp_state p \<in> {''prepared'', ''paid''})
     (\<lambda>p. p\<lparr>cp_state := ''review''\<rparr>) (purchases db)\<rparr>"

definition delete_user_data :: "env \<Rightarrow> string \<Rightarrow> unit handler" where
  "delete_user_data e u db = bind_r (preserve_before_erasure e u (snd (lock_user db u))) (\<lambda>db.
     Inr ((), delete_user_rows u (suspend_purchases u (set_deleted db u))))"

section \<open>Continuing a right\<close>

definition continuation_unavailable :: err where
  "continuation_unavailable = Http 503 ''current course continuation admission unavailable''"

definition has_entries :: "json \<Rightarrow> bool" where
  "has_entries v = (case v of JObj es \<Rightarrow> True | _ \<Rightarrow> False)"

text \<open>
  \<^verbatim>\<open>successor_authority\<close>. A body that is neither null nor an object ends in an \<^verbatim>\<open>AttributeError\<close>, which the code
  does not catch.
\<close>

definition successor_authority :: "claims_env \<Rightarrow> nat \<Rightarrow> string \<Rightarrow> string \<Rightarrow> json option result" where
  "successor_authority ce n source gid = (case cl_authority ce n source gid of
     Reply st (Some v) \<Rightarrow>
       if st \<noteq> 200 then Inl continuation_unavailable
       else if v = JNull then Inr None
       else if \<not> has_entries v then Inl (Crash ''AttributeError'')
       else if jget ''id'' v \<noteq> Some (js gid) \<or> jget ''source'' v \<noteq> Some (js ''skills'') \<or>
         jget ''purpose'' v \<noteq> Some (js ''existing_course_continuation'') \<or> jget ''new_purchase'' v \<noteq> Some (JBool False)
       then Inl (Http 503 ''invalid course continuation admission'')
       else (case jget ''claimant_authorization'' v of
           None \<Rightarrow> Inl (Http 503 ''invalid course continuation admission'')
         | Some a \<Rightarrow> if \<not> has_entries a then Inl (Crash ''AttributeError'')
             else if jget ''source_subject'' a \<noteq> Some (js source) then Inl (Http 503 ''invalid course continuation admission'')
             else Inr (Some v))
   | _ \<Rightarrow> Inl continuation_unavailable)"

record delivery =
  de_grant :: string
  de_right :: string
  de_subject :: string
  de_state :: string
  de_result :: grant_result

definition delivery_result :: "right_grant \<Rightarrow> delivery" where
  "delivery_result g = \<lparr>de_grant = gr_id g, de_right = gr_right g, de_subject = gr_subject g, de_state = gr_state g,
     de_result = gr_result g\<rparr>"

definition required_field :: "string \<Rightarrow> json \<Rightarrow> json result" where
  "required_field k v = (case jget k v of None \<Rightarrow> Inl (Crash ''KeyError'') | Some x \<Rightarrow> Inr x)"

definition new_grant :: "env \<Rightarrow> string \<Rightarrow> string \<Rightarrow> string \<Rightarrow> retained_right \<Rightarrow> right_grant" where
  "new_grant e gid source subject r = \<lparr>gr_id = gid, gr_right = rr_id r, gr_subject = subject,
     gr_request = \<lparr>gq_source = source, gq_scope = original r, gq_grant = gid, gq_successor = subject\<rparr>,
     gr_state = ''granted'', gr_result = \<lparr>gs_course = rr_course r, gs_scope = original r\<rparr>, gr_created = en_now e\<rparr>"

definition grant_access :: "string \<Rightarrow> string \<Rightarrow> database \<Rightarrow> database" where
  "grant_access u c db = (if has_access_row db u c then db else course_access_create db u c)"

text \<open>The last part of a delivery: the exact preserved right, unused or used by this very account.\<close>

definition continue_right :: "env \<Rightarrow> claims_env \<Rightarrow> string \<Rightarrow> string \<Rightarrow> string \<Rightarrow> json \<Rightarrow> string option \<Rightarrow> delivery handler" where
  "continue_right e ce source gid subject scope contract db =
     (case first_row (\<lambda>r. Some (rr_id r) = contract \<and> rr_source r = source) (rights db) of
        None \<Rightarrow> Inl (Http 409 ''exact preserved course admission required'')
      | Some r \<Rightarrow>
        if \<not> erased db source \<or> \<not> json_eq (original_json ce (original r)) scope
        then Inl (Http 409 ''exact preserved course admission required'')
        else if rr_subject r \<noteq> None \<and> rr_subject r \<noteq> Some subject then Inl (Http 409 ''already in use'')
        else if course_by e (rr_course r) = None then Inl (Http 409 ''course supply requires resolution'')
        else let g = new_grant e gid source subject r; db = grant_access subject (rr_course r) db
          in Inr (delivery_result g, db\<lparr>rights := modify_by rr_id (rr_id r) (\<lambda>x. x\<lparr>rr_subject := Some subject\<rparr>) (rights db),
               grants := add_row g (grants db)\<rparr>))"

definition deliver_right :: "env \<Rightarrow> claims_env \<Rightarrow> string \<Rightarrow> string \<Rightarrow> delivery handler" where
  "deliver_right e ce source gid db = (case row_by gr_id gid (grants db) of
     Some prior \<Rightarrow> bind_r (get_original db source (gr_right prior)) (\<lambda>_.
       Inr (delivery_result prior, snd (lock_user db (gr_subject prior))))
   | None \<Rightarrow> bind_r (successor_authority ce 0 source gid) (\<lambda>au. case au of
       None \<Rightarrow> Inl (Http 409 ''current continuation election unavailable'')
     | Some authority \<Rightarrow> bind_r (required_field ''successor'' authority) (\<lambda>succ. case json_string (Some succ) of
         None \<Rightarrow> Inl (Crash ''successor'')
       | Some subject \<Rightarrow> let (guard, db) = lock_user db subject in
           if pu_deleted guard then Inl (Http 409 ''target learning data was erased'')
           else bind_r (successor_authority ce 1 source gid) (\<lambda>cu. case cu of
             None \<Rightarrow> Inl (Http 409 ''continuation admission changed'')
           | Some current \<Rightarrow>
             bind_r (required_field ''successor'' current) (\<lambda>succ'.
             if succ' \<noteq> succ then Inl (Http 409 ''continuation admission changed'')
             else bind_r (required_field ''original_scope'' current) (\<lambda>scope'.
             bind_r (required_field ''original_scope'' authority) (\<lambda>scope.
             if \<not> json_eq scope' scope then Inl (Http 409 ''continuation admission changed'')
             else bind_r (required_field ''original_contract'' authority) (\<lambda>contract.
               continue_right e ce source gid subject scope (json_string (Some contract)) db))))))))"

datatype right_answer =
    Rights_list "(right_view \<times> string option \<times> int) list"
  | Right_original right_view
  | Right_delivery delivery

text \<open>The endpoint \<^verbatim>\<open>course_rights\<close>: three operations, each with exactly its body.\<close>

definition only_string :: "string \<Rightarrow> json \<Rightarrow> string option" where
  "only_string k body = (case body of JObj [(k', v)] \<Rightarrow> if k' = ustr k then json_string (Some v) else None | _ \<Rightarrow> None)"

definition course_rights :: "env \<Rightarrow> claims_env \<Rightarrow> string \<Rightarrow> string \<Rightarrow> json \<Rightarrow> right_answer handler" where
  "course_rights e ce u op body db =
     (if op = ''list'' \<and> body = JObj [] then Inr (Rights_list (list_rights db u), db)
      else case (op = ''original'', only_string ''right_id'' body) of
        (True, Some i) \<Rightarrow> bind_r (get_original db u i) (\<lambda>v. Inr (Right_original v, db))
      | _ \<Rightarrow> (case (op = ''deliver'', only_string ''grant_id'' body) of
          (True, Some g) \<Rightarrow> bind_r (deliver_right e ce u g db) (\<lambda>(d, db). Inr (Right_delivery d, db))
        | _ \<Rightarrow> Inl (Http 400 ''unsupported course-right operation'')))"

section \<open>What an erasure leaves\<close>

lemma preserve_courses_adds:
  assumes "preserve_courses e u n cs db = Inr db'"
  shows "\<exists>new. db' = db\<lparr>rights := rights db @ new\<rparr> \<and>
    (\<forall>r\<in>set new. r = observed_right e db u (rr_id r) (rr_course r) \<and> rr_course r \<in> set cs) \<and>
    (\<forall>c\<in>set cs. \<exists>r\<in>set (rights db @ new). rr_source r = u \<and> rr_course r = c) \<and>
    (unique_by rr_id (rights db) \<longrightarrow> unique_by rr_id (rights db @ new))"
  using assms
proof (induction e u n cs db rule: preserve_courses.induct)
  case (1 e u n db)
  then show ?case by (intro exI [of _ "[]"]) simp
next
  case (2 e u n c cs db)
  show ?case
  proof (cases "exists_row (\<lambda>r. rr_source r = u \<and> rr_course r = c) (rights db)")
    case True
    with 2 obtain new where "db' = db\<lparr>rights := rights db @ new\<rparr>"
      "\<forall>r\<in>set new. r = observed_right e db u (rr_id r) (rr_course r) \<and> rr_course r \<in> set cs"
      "\<forall>c\<in>set cs. \<exists>r\<in>set (rights db @ new). rr_source r = u \<and> rr_course r = c"
      "unique_by rr_id (rights db) \<longrightarrow> unique_by rr_id (rights db @ new)" by auto
    with True show ?thesis by (intro exI [of _ new]) (auto simp: row_simps)
  next
    case False
    define o' where "o' = observed_right e db u (en_fresh e n) c"
    define db1 where "db1 = db\<lparr>rights := add_row o' (rights db)\<rparr>"
    have same: "observed_right e db1 = observed_right e db"
      by (intro ext) (simp add: observed_right_def db1_def accessed_courses_def started_courses_def)
    from False 2(3) have free: "\<not> exists_row (\<lambda>r. rr_id r = en_fresh e n) (rights db)"
      and run: "preserve_courses e u (n + 1) cs db1 = Inr db'"
      by (auto simp: db1_def o'_def split: if_splits)
    from 2(2) [OF False free] run obtain new where new: "db' = db1\<lparr>rights := rights db1 @ new\<rparr>"
      "\<forall>r\<in>set new. r = observed_right e db1 u (rr_id r) (rr_course r) \<and> rr_course r \<in> set cs"
      "\<forall>c\<in>set cs. \<exists>r\<in>set (rights db1 @ new). rr_source r = u \<and> rr_course r = c"
      "unique_by rr_id (rights db1) \<longrightarrow> unique_by rr_id (rights db1 @ new)" unfolding db1_def o'_def by blast
    have o': "rr_id o' = en_fresh e n" "rr_source o' = u" "rr_course o' = c" by (simp_all add: o'_def observed_right_def)
    have "unique_by rr_id (rights db1)" if "unique_by rr_id (rights db)"
      using that free by (auto simp: db1_def unique_by_add o' row_simps)
    with new o' same show ?thesis
      by (intro exI [of _ "o' # new"]) (auto simp: db1_def add_row_def o'_def)
  qed
qed

lemma release_fields [simp]:
  "accesses (release_rights u db) = accesses db" "watches (release_rights u db) = watches db"
  "purchases (release_rights u db) = purchases db" "users (release_rights u db) = users db"
  "erased (release_rights u db) v = erased db v"
  by (simp_all add: release_rights_def erased_def)

lemma observed_release [simp]: "observed_right e (release_rights u db) = observed_right e db"
  by (intro ext) (simp add: observed_right_def accessed_courses_def started_courses_def)

lemma course_sets_lock [simp]:
  "accessed_courses (snd (lock_user db u)) v = accessed_courses db v"
  "started_courses (snd (lock_user db u)) v = started_courses db v"
  "continued_courses (snd (lock_user db u)) v = continued_courses db v"
  by (simp_all add: accessed_courses_def started_courses_def continued_courses_def)

lemma observed_lock [simp]: "observed_right e (snd (lock_user db u)) = observed_right e db"
  by (intro ext) (simp add: observed_right_def)

lemma finite_courses [simp]: "finite (accessed_courses db u \<union> started_courses db u - continued_courses db u)"
  by (simp add: accessed_courses_def started_courses_def)

definition lost_courses :: "database \<Rightarrow> string \<Rightarrow> string set" where
  "lost_courses db u = (accessed_courses db u \<union> started_courses db u) - continued_courses db u"

text \<open>The erasure as one equation: the rights it adds, the tables it empties, the purchases it suspends.\<close>

lemma delete_user_data_cases:
  assumes "delete_user_data e u db = Inr (x, db')"
  obtains new db1 where "db1 = release_rights u (snd (lock_user db u))"
    "db' = delete_user_rows u (suspend_purchases u (set_deleted (db1\<lparr>rights := rights db1 @ new\<rparr>) u))"
    "\<forall>r\<in>set new. r = observed_right e db u (rr_id r) (rr_course r) \<and> rr_course r \<in> lost_courses db u"
    "\<forall>c\<in>lost_courses db u. \<exists>r\<in>set (rights db1 @ new). rr_source r = u \<and> rr_course r = c"
    "unique_by rr_id (rights db1) \<Longrightarrow> unique_by rr_id (rights db1 @ new)"
proof -
  define db1 where "db1 = release_rights u (snd (lock_user db u))"
  from assms obtain db2 where run: "preserve_courses e u 0 (sorted_list_of_set (lost_courses db u)) db1 = Inr db2"
    and db': "db' = delete_user_rows u (suspend_purchases u (set_deleted db2 u))"
    by (auto simp: delete_user_data_def preserve_before_erasure_def result_simps db1_def lost_courses_def)
  from preserve_courses_adds [OF run] obtain new where new: "db2 = db1\<lparr>rights := rights db1 @ new\<rparr>"
    "\<forall>r\<in>set new. r = observed_right e db1 u (rr_id r) (rr_course r) \<and> rr_course r \<in> set (sorted_list_of_set (lost_courses db u))"
    "\<forall>c\<in>set (sorted_list_of_set (lost_courses db u)). \<exists>r\<in>set (rights db1 @ new). rr_source r = u \<and> rr_course r = c"
    "unique_by rr_id (rights db1) \<longrightarrow> unique_by rr_id (rights db1 @ new)" by blast
  have "set (sorted_list_of_set (lost_courses db u)) = lost_courses db u"
    by (simp add: lost_courses_def)
  with new db' show thesis by (intro that [OF db1_def]) (auto simp: db1_def)
qed

lemma delete_user_rows_fields [simp]:
  "rights (delete_user_rows u db) = rights db" "grants (delete_user_rows u db) = grants db"
  "purchases (delete_user_rows u db) = purchases db" "users (delete_user_rows u db) = users db"
  "erased (delete_user_rows u db) v = erased db v"
  by (simp_all add: delete_user_rows_def erased_def)

lemma suspend_fields [simp]:
  "rights (suspend_purchases u db) = rights db" "grants (suspend_purchases u db) = grants db"
  "accesses (suspend_purchases u db) = accesses db" "erased (suspend_purchases u db) v = erased db v"
  by (simp_all add: suspend_purchases_def erased_def)

lemma set_deleted_fields [simp]:
  "rights (set_deleted db u) = rights db" "grants (set_deleted db u) = grants db"
  "accesses (set_deleted db u) = accesses db" "purchases (set_deleted db u) = purchases db"
  by (simp_all add: set_deleted_def)

lemma delete_user_rows_clean: "clean (delete_user_rows u db) u"
  by (simp add: clean_def delete_user_rows_def no_row_def row_simps)

lemma clean_lock_user [simp]: "clean (snd (lock_user db v)) u = clean db u"
  by (simp add: clean_def)

lemma erased_rights [simp]: "erased (db\<lparr>rights := r\<rparr>) u = erased db u"
  by (simp add: erased_def)

lemma delete_user_data_gone:
  assumes "delete_user_data e u db = Inr (x, db')"
  shows "gone db' u"
  using assms
proof (cases rule: delete_user_data_cases)
  case (1 new db1)
  have "row_by pu_user u (users (snd (lock_user db u))) \<noteq> None" by (rule lock_user_row)
  with 1(1,2) show ?thesis by (simp add: gone_def delete_user_rows_clean release_rights_def)
qed

text \<open>The live data of another account, table by table.\<close>

definition same_data :: "string \<Rightarrow> database \<Rightarrow> database \<Rightarrow> bool" where
  "same_data v db db' \<longleftrightarrow>
     all_rows (\<lambda>r. sb_user r = v) (submissions db') = all_rows (\<lambda>r. sb_user r = v) (submissions db) \<and>
     all_rows (\<lambda>r. ts_user r = v) (task_states db') = all_rows (\<lambda>r. ts_user r = v) (task_states db) \<and>
     all_rows (\<lambda>r. lr_user r = v) (start_receipts db') = all_rows (\<lambda>r. lr_user r = v) (start_receipts db) \<and>
     all_rows (\<lambda>r. ls_user r = v) (starts db') = all_rows (\<lambda>r. ls_user r = v) (starts db) \<and>
     all_rows (\<lambda>r. pq_user r = v) (project_requests db') = all_rows (\<lambda>r. pq_user r = v) (project_requests db) \<and>
     all_rows (\<lambda>r. pr_user r = v) (projects db') = all_rows (\<lambda>r. pr_user r = v) (projects db) \<and>
     all_rows (\<lambda>r. pl_user r = v) (plans db') = all_rows (\<lambda>r. pl_user r = v) (plans db) \<and>
     all_rows (\<lambda>r. ms_user r = v) (milestones db') = all_rows (\<lambda>r. ms_user r = v) (milestones db) \<and>
     all_rows (\<lambda>r. lv_user r = v) (verdicts db') = all_rows (\<lambda>r. lv_user r = v) (verdicts db) \<and>
     all_rows (\<lambda>r. rq_user r = v) (room_requests db') = all_rows (\<lambda>r. rq_user r = v) (room_requests db) \<and>
     all_rows (\<lambda>r. rs_user r = v) (rooms db') = all_rows (\<lambda>r. rs_user r = v) (rooms db) \<and>
     all_rows (\<lambda>r. ca_user r = v) (accesses db') = all_rows (\<lambda>r. ca_user r = v) (accesses db) \<and>
     all_rows (\<lambda>r. lw_user r = v) (watches db') = all_rows (\<lambda>r. lw_user r = v) (watches db) \<and>
     all_rows (\<lambda>r. lp_user r = v) (lectures db') = all_rows (\<lambda>r. lp_user r = v) (lectures db) \<and>
     all_rows (\<lambda>r. bm_user r = v) (bookmarks db') = all_rows (\<lambda>r. bm_user r = v) (bookmarks db) \<and>
     all_rows (\<lambda>r. xp_user r = v) (xps db') = all_rows (\<lambda>r. xp_user r = v) (xps db) \<and>
     all_rows (\<lambda>r. xo_user r = v) (xp_operations db') = all_rows (\<lambda>r. xo_user r = v) (xp_operations db)"

lemma other_rows: "v \<noteq> u \<Longrightarrow> all_rows (\<lambda>r. own r = v) (delete_rows (\<lambda>r. own r = u) t) = all_rows (\<lambda>r. own r = v) t"
  unfolding all_rows_def delete_rows_def filter_filter by (rule filter_cong) auto

lemma same_data_delete: "v \<noteq> u \<Longrightarrow> same_data v (delete_user_rows u db) db' = same_data v db db'"
  by (simp add: same_data_def delete_user_rows_def other_rows)

lemma same_data_keeps:
  "same_data v (db\<lparr>rights := a\<rparr>) db' = same_data v db db'" "same_data v (db\<lparr>grants := b\<rparr>) db' = same_data v db db'"
  "same_data v (db\<lparr>purchases := c\<rparr>) db' = same_data v db db'" "same_data v (db\<lparr>users := d\<rparr>) db' = same_data v db db'"
  "same_data v (snd (lock_user db u)) db' = same_data v db db'"
  by (simp_all add: same_data_def)

lemma same_data_refl [simp]: "same_data v db db"
  by (simp add: same_data_def)

text \<open>The evidence of a purchase: everything but its state and whether it was reported.\<close>

definition evidence :: "course_purchase \<Rightarrow> course_purchase" where
  "evidence p = p\<lparr>cp_state := '''', cp_reported := False\<rparr>"

lemma suspend_evidence: "map evidence (purchases (suspend_purchases u db)) = map evidence (purchases db)"
  by (simp add: suspend_purchases_def update_rows_def evidence_def comp_def)

lemma suspend_open:
  assumes "p \<in> set (purchases (suspend_purchases u db))" "cp_user p = u"
  shows "cp_state p \<notin> {''prepared'', ''paid''}"
proof -
  define waits where "waits = (\<lambda>q :: course_purchase. cp_user q = u \<and> cp_state q \<in> {''prepared'', ''paid''})"
  have "p \<in> (\<lambda>q. if waits q then q\<lparr>cp_state := ''review''\<rparr> else q) ` set (purchases db)"
    using assms(1) by (simp add: suspend_purchases_def set_update_rows waits_def)
  then obtain q where p: "p = (if waits q then q\<lparr>cp_state := ''review''\<rparr> else q)" by (rule imageE)
  show ?thesis
  proof (cases "waits q")
    case False
    then have "p = q" using p by simp
    with False assms(2) show ?thesis by (simp add: waits_def)
  qed (simp add: p)
qed

lemma lost_or_continued:
  "c \<in> accessed_courses db u \<union> started_courses db u \<Longrightarrow> c \<in> lost_courses db u \<or> c \<in> continued_courses db u"
  by (auto simp: lost_courses_def)

text \<open>The rights after an erasure: the learner's courses are kept on record, and no right serves the learner any more.\<close>

lemma courses_on_record:
  assumes new: "\<forall>c\<in>lost_courses db u. \<exists>r\<in>set (rights (release_rights u (snd (lock_user db u))) @ new). rr_source r = u \<and> rr_course r = c"
    and c: "c \<in> accessed_courses db u \<union> started_courses db u"
  shows "\<exists>r\<in>set (rights (release_rights u (snd (lock_user db u))) @ new). rr_course r = c \<and>
    (rr_source r = u \<or> (\<exists>r0\<in>set (rights db). rr_subject r0 = Some u \<and> original r0 = original r))"
proof -
  from c have "c \<in> lost_courses db u \<or> c \<in> continued_courses db u" by (rule lost_or_continued)
  then show ?thesis
  proof
    assume "c \<in> lost_courses db u"
    with new show ?thesis by blast
  next
    assume "c \<in> continued_courses db u"
    then obtain r where "r \<in> set (rights db)" "rr_subject r = Some u" "rr_course r = c"
      by (auto simp: continued_courses_def row_simps)
    then show ?thesis
      by (intro bexI [of _ "r\<lparr>rr_subject := None, rr_generation := rr_generation r + 1\<rparr>"])
        (auto simp: release_rights_def row_simps original_def image_iff intro!: bexI [of _ r])
  qed
qed

lemma released_rights_free:
  assumes "\<forall>r\<in>set new. r = observed_right e db u (rr_id r) (rr_course r) \<and> P r"
    "r \<in> set (rights (release_rights u (snd (lock_user db u))) @ new)"
  shows "rr_subject r \<noteq> Some u"
proof -
  from assms(2) consider "r \<in> set (rights (release_rights u (snd (lock_user db u))))" | "r \<in> set new" by auto
  then show ?thesis
  proof cases
    case 1
    then show ?thesis by (auto simp: release_rights_def row_simps split: if_splits)
  next
    case 2
    with assms(1) have "r = observed_right e db u (rr_id r) (rr_course r)" by blast
    then have "rr_subject r = None" by (rule ssubst) (simp add: observed_right_def)
    then show ?thesis by simp
  qed
qed


section \<open>Continuation\<close>

text \<open>The successful delivery: a replay of a recorded one, or the continuation of an exact, free right.\<close>

lemma continue_right_cases:
  assumes "continue_right e ce source gid subject scope contract db = Inr (d, db')"
  obtains r where "r \<in> set (rights db)" "rr_source r = source" "erased db source"
    "rr_subject r = None \<or> rr_subject r = Some subject" "course_by e (rr_course r) \<noteq> None"
    "json_eq (original_json ce (original r)) scope" "d = delivery_result (new_grant e gid source subject r)"
    "db' = (grant_access subject (rr_course r) db)\<lparr>
       rights := modify_by rr_id (rr_id r) (\<lambda>x. x\<lparr>rr_subject := Some subject\<rparr>) (rights db),
       grants := add_row (new_grant e gid source subject r) (grants db)\<rparr>"
proof -
  from assms obtain r where r: "first_row (\<lambda>r. Some (rr_id r) = contract \<and> rr_source r = source) (rights db) = Some r"
    "erased db source" "json_eq (original_json ce (original r)) scope"
    "rr_subject r = None \<or> rr_subject r = Some subject" "course_by e (rr_course r) \<noteq> None"
    "d = delivery_result (new_grant e gid source subject r)"
    "db' = (let db1 = grant_access subject (rr_course r) db in
       db1\<lparr>rights := modify_by rr_id (rr_id r) (\<lambda>x. x\<lparr>rr_subject := Some subject\<rparr>) (rights db1),
       grants := add_row (new_grant e gid source subject r) (grants db1)\<rparr>)"
    unfolding continue_right_def Let_def by (auto split: option.splits if_splits)
  have "rights (grant_access subject (rr_course r) db) = rights db" "grants (grant_access subject (rr_course r) db) = grants db"
    by (simp_all add: grant_access_def course_access_create_def)
  with r(7) have db': "db' = (grant_access subject (rr_course r) db)\<lparr>
       rights := modify_by rr_id (rr_id r) (\<lambda>x. x\<lparr>rr_subject := Some subject\<rparr>) (rights db),
       grants := add_row (new_grant e gid source subject r) (grants db)\<rparr>" by (simp add: Let_def)
  from first_row_SomeD [OF r(1)] have "r \<in> set (rights db)" "rr_source r = source" by auto
  from this r(2,4,5,3,6) db' show thesis by (rule that)
qed

lemma deliver_right_cases:
  assumes "deliver_right e ce source gid db = Inr (d, db')"
  obtains (replay) g where "row_by gr_id gid (grants db) = Some g" "d = delivery_result g" "db' = snd (lock_user db (gr_subject g))"
  | (continue) subject scope contract where "row_by gr_id gid (grants db) = None" "\<not> erased db subject"
      "continue_right e ce source gid subject scope contract (snd (lock_user db subject)) = Inr (d, db')"
proof (cases "row_by gr_id gid (grants db)")
  case (Some g)
  with assms show ?thesis by (intro replay) (auto simp: deliver_right_def result_simps)
next
  case None
  show ?thesis
  proof (rule ccontr)
    assume no: "\<not> thesis"
    then have "continue_right e ce source gid subject scope contract (snd (lock_user db subject)) \<noteq> Inr (d, db')"
      if "\<not> erased db subject" for subject scope contract using continue [OF None that] by blast
    with assms None show False
      by (auto simp: deliver_right_def result_simps Let_def case_prod_beta split: option.splits if_splits)
  qed
qed

text \<open>
  What holds of rights and grants. Ids are unique; the source of a right is erased; a right in use gives its learner
  the course; a granted delivery names the learner who uses the right.
\<close>

definition right_ok :: "database \<Rightarrow> retained_right \<Rightarrow> bool" where
  "right_ok db r \<longleftrightarrow> erased db (rr_source r) \<and>
     (case rr_subject r of None \<Rightarrow> True | Some s \<Rightarrow> has_access_row db s (rr_course r))"

definition grant_ok :: "database \<Rightarrow> right_grant \<Rightarrow> bool" where
  "grant_ok db g \<longleftrightarrow> (gr_state g = ''granted'' \<longrightarrow>
     (\<exists>r\<in>set (rights db). rr_id r = gr_right g \<and> rr_subject r = Some (gr_subject g) \<and> rr_course r = gs_course (gr_result g)))"

definition rights_ok :: "database \<Rightarrow> bool" where
  "rights_ok db \<longleftrightarrow> unique_by rr_id (rights db) \<and> unique_by gr_id (grants db) \<and>
     list_all (right_ok db) (rights db) \<and> list_all (grant_ok db) (grants db)"

lemma has_access_iff: "has_access_row db u c \<longleftrightarrow> \<lparr>ca_user = u, ca_course = c\<rparr> \<in> set (accesses db)"
proof -
  have "ca_user a = u \<and> ca_course a = c \<longleftrightarrow> a = \<lparr>ca_user = u, ca_course = c\<rparr>" for a :: course_access
    by (cases a) auto
  then show ?thesis by (simp add: has_access_row_def row_simps)
qed

lemma grant_access_fields [simp]:
  "rights (grant_access u c db) = rights db" "grants (grant_access u c db) = grants db"
  "purchases (grant_access u c db) = purchases db" "users (grant_access u c db) = users db"
  "erased (grant_access u c db) v = erased db v"
  "set (accesses (grant_access u c db)) = insert \<lparr>ca_user = u, ca_course = c\<rparr> (set (accesses db))"
  by (auto simp: grant_access_def course_access_create_def erased_def row_simps has_access_iff)

lemma gone_grant_access: "gone db v \<Longrightarrow> v \<noteq> u \<Longrightarrow> gone (grant_access u c db) v"
  using gone_row(12) [of db v] by (auto simp: grant_access_def course_access_create_def intro!: gone_write(12))

lemma deliver_right_gone:
  assumes "deliver_right e ce source gid db = Inr (d, db')" "gone db v"
  shows "gone db' v"
  using assms(1)
proof (cases rule: deliver_right_cases)
  case (replay g)
  with assms(2) show ?thesis by simp
next
  case (continue subject scope contract)
  have "v \<noteq> subject" using continue(2) gone_erased [OF assms(2)] by blast
  from continue(3) show ?thesis
  proof (cases rule: continue_right_cases)
    case (1 r)
    with \<open>v \<noteq> subject\<close> assms(2) show ?thesis by (simp add: gone_grant_access)
  qed
qed

lemma delete_user_rows_gone: "gone db v \<Longrightarrow> gone (delete_user_rows u db) v"
  using gone_row [of db v] unfolding gone_def clean_def
  by (simp add: delete_user_rows_def erased_def no_row_def row_simps)

lemma gone_release [simp]: "gone (release_rights u db) v = gone db v"
proof -
  have "release_rights u db = (db\<lparr>rights := rights (release_rights u db)\<rparr>)\<lparr>grants := grants (release_rights u db)\<rparr>"
    by (simp add: release_rights_def)
  then show ?thesis using gone_other(2,3) by metis
qed

lemma delete_user_data_keeps_gone:
  assumes "delete_user_data e u db = Inr (x, db')" "gone db v"
  shows "gone db' v"
  using assms(1)
proof (cases rule: delete_user_data_cases)
  case (1 new db1)
  have "gone (set_deleted (db1\<lparr>rights := rights db1 @ new\<rparr>) u) v"
    by (intro gone_set_deleted) (simp add: 1(1) assms(2))
  then show ?thesis unfolding 1(2) by (intro delete_user_rows_gone) (simp add: suspend_purchases_def)
qed

text \<open>An account that is gone stays gone under erasures and deliveries.\<close>

datatype account_request =
    Erase env string
  | Course_rights env claims_env string string json

fun account_step :: "account_request \<Rightarrow> database \<Rightarrow> database" where
  "account_step (Erase e u) db = committed db (delete_user_data e u db)"
| "account_step (Course_rights e ce u op body) db = committed db (course_rights e ce u op body db)"

lemma course_rights_gone:
  assumes "course_rights e ce u op body db = Inr (a, db')" "gone db v"
  shows "gone db' v"
proof -
  from assms(1) have "db' = db \<or> (\<exists>g d. deliver_right e ce u g db = Inr (d, db'))"
    unfolding course_rights_def by (auto simp: result_simps split: if_splits option.splits bool.splits)
  with deliver_right_gone assms(2) show ?thesis by blast
qed

interpretation account_steps: guarded account_step
proof
  fix db u i
  assume "gone db u"
  then show "gone (account_step i db) u"
    by (cases i) (auto intro!: gone_committed intro: delete_user_data_keeps_gone course_rights_gone)
qed

section \<open>Deliveries and erasures keep the rights in order\<close>

text \<open>Everything \<open>rights_ok\<close> reads only grows, except for rights that change hands.\<close>

lemma right_ok_mono:
  assumes "right_ok db r" "erased db (rr_source r) \<Longrightarrow> erased db' (rr_source r)"
    "\<And>s. rr_subject r = Some s \<Longrightarrow> has_access_row db s (rr_course r) \<Longrightarrow> has_access_row db' s (rr_course r)"
  shows "right_ok db' r"
  using assms by (auto simp: right_ok_def split: option.splits)

lemma rights_ok_lock [simp]: "rights_ok (snd (lock_user db u)) = rights_ok db"
proof -
  have ac: "has_access_row (snd (lock_user db u)) = has_access_row db"
    by (intro ext) (simp add: has_access_row_def)
  have "right_ok (snd (lock_user db u)) = right_ok db"
    by (intro ext) (simp add: right_ok_def ac split: option.split)
  moreover have "grant_ok (snd (lock_user db u)) = grant_ok db"
    by (intro ext) (simp add: grant_ok_def)
  ultimately show ?thesis by (simp add: rights_ok_def)
qed

lemma delete_rows_access: "has_access_row (delete_user_rows u db) s c \<longleftrightarrow> s \<noteq> u \<and> has_access_row db s c"
  by (auto simp: has_access_iff delete_user_rows_def row_simps)

lemma observed_right_fields [simp]:
  "rr_id (observed_right e db u i c) = i" "rr_source (observed_right e db u i c) = u"
  "rr_course (observed_right e db u i c) = c" "rr_subject (observed_right e db u i c) = None"
  by (simp_all add: observed_right_def)

lemma delete_user_data_rights_ok:
  assumes run: "delete_user_data e u db = Inr (x, db')" and ok: "rights_ok db"
  shows "rights_ok db'"
  using run
proof (cases rule: delete_user_data_cases)
  case (1 new db1)
  have rights: "rights db' = rights db1 @ new" and grants: "grants db' = grants db1"
    by (simp_all add: 1(2))
  have db1: "rights db1 = update_rows (\<lambda>r. rr_subject r = Some u)
      (\<lambda>r. r\<lparr>rr_subject := None, rr_generation := rr_generation r + 1\<rparr>) (rights db)"
    "grants db1 = update_rows (\<lambda>g. gr_subject g = u \<and> gr_state g = ''granted'') (\<lambda>g. g\<lparr>gr_state := ''withdrawn''\<rparr>) (grants db)"
    by (simp_all add: 1(1) release_rights_def)
  have "row_by pu_user u (users (snd (lock_user db u))) \<noteq> None" by (rule lock_user_row)
  then have er: "erased db' v \<longleftrightarrow> erased db v \<or> v = u" for v
    by (simp add: 1)
  have ac: "has_access_row db' s c \<longleftrightarrow> s \<noteq> u \<and> has_access_row db s c" for s c
    by (simp add: 1 delete_rows_access) (simp add: has_access_row_def release_rights_def)
  have "unique_by rr_id (rights db')" "unique_by gr_id (grants db')"
    using ok 1(5) by (simp_all add: rights grants db1 unique_by_update rights_ok_def)
  moreover have "right_ok db' r" if "r \<in> set (rights db')" for r
  proof -
    define f where "f = (\<lambda>r0 :: retained_right. if rr_subject r0 = Some u
      then r0\<lparr>rr_subject := None, rr_generation := rr_generation r0 + 1\<rparr> else r0)"
    have "set (rights db') = f ` set (rights db) \<union> set new"
      by (simp add: rights db1 set_update_rows f_def)
    with that have "r \<in> set new \<or> (\<exists>r0\<in>set (rights db). r = f r0)" by blast
    then consider "r \<in> set new" | r0 where "r0 \<in> set (rights db)" "rr_subject r0 = Some u"
        "r = r0\<lparr>rr_subject := None, rr_generation := rr_generation r0 + 1\<rparr>"
      | "r \<in> set (rights db)" "rr_subject r \<noteq> Some u"
      by (metis f_def)
    then show ?thesis
    proof cases
      case 1
      with \<open>\<forall>r\<in>set new. _ r\<close> have "r = observed_right e db u (rr_id r) (rr_course r)" by blast
      then have "rr_source r = u" "rr_subject r = None" by (metis observed_right_fields(2), metis observed_right_fields(4))
      then show ?thesis by (simp add: right_ok_def er)
    next
      case 2
      with ok have "erased db (rr_source r0)" by (auto simp: rights_ok_def list_all_iff right_ok_def)
      with 2 show ?thesis by (simp add: right_ok_def er)
    next
      case 3
      with ok have "right_ok db r" by (simp add: rights_ok_def list_all_iff)
      then show ?thesis by (rule right_ok_mono) (use 3 in \<open>auto simp: er ac\<close>)
    qed
  qed
  moreover have "grant_ok db' g" if "g \<in> set (grants db')" for g
    unfolding grant_ok_def
  proof
    assume granted: "gr_state g = ''granted''"
    from that obtain g0 where g0: "g0 \<in> set (grants db)"
      "g = (if gr_subject g0 = u \<and> gr_state g0 = ''granted'' then g0\<lparr>gr_state := ''withdrawn''\<rparr> else g0)"
      by (auto simp: grants db1 set_update_rows)
    have not: "\<not> (gr_subject g0 = u \<and> gr_state g0 = ''granted'')"
      using g0(2) granted by (cases "gr_subject g0 = u \<and> gr_state g0 = ''granted''") simp_all
    with g0 granted have g: "g \<in> set (grants db)" "gr_subject g \<noteq> u" by auto
    from g(1) ok granted obtain r where "r \<in> set (rights db)" "rr_id r = gr_right g" "rr_subject r = Some (gr_subject g)"
      "rr_course r = gs_course (gr_result g)" by (auto simp: rights_ok_def list_all_iff grant_ok_def)
    with g(2) show "\<exists>r\<in>set (rights db'). rr_id r = gr_right g \<and> rr_subject r = Some (gr_subject g) \<and>
        rr_course r = gs_course (gr_result g)"
      by (intro bexI [of _ r]) (auto simp: rights db1 row_simps image_iff)
  qed
  ultimately show ?thesis by (simp add: rights_ok_def list_all_iff)
qed

lemma deliver_right_rights_ok:
  assumes run: "deliver_right e ce source gid db = Inr (d, db')" and ok: "rights_ok db"
  shows "rights_ok db'"
  using run
proof (cases rule: deliver_right_cases)
  case (replay g)
  with ok show ?thesis by simp
next
  case (continue subject scope contract)
  define db1 where "db1 = snd (lock_user db subject)"
  have ok1: "rights_ok db1" using ok by (simp add: db1_def)
  have "row_by gr_id gid (grants db1) = None" using continue(1) by (simp add: db1_def)
  then have fresh: "gid \<notin> gr_id ` set (grants db1)" by (simp add: row_by_None)
  from continue(3) [folded db1_def] show ?thesis
  proof (cases rule: continue_right_cases)
    case (1 r)
    define r' where "r' = r\<lparr>rr_subject := Some subject\<rparr>"
    have inj: "rr_id x = rr_id r \<longleftrightarrow> x = r" if "x \<in> set (rights db1)" for x
      using unique_by_inj [of rr_id "rights db1" x r] ok1 1(1) that by (auto simp: rights_ok_def)
    have rights: "set (rights db') = insert r' (set (rights db1) - {r})"
      using 1(1) inj by (auto simp: 1(8) modify_by_def row_simps image_iff r'_def)
    have grants: "grants db' = add_row (new_grant e gid source subject r) (grants db1)" by (simp add: 1(8))
    have er: "erased db' v = erased db1 v" for v by (simp add: 1(8)) (simp add: erased_def)
    have ac: "has_access_row db' s c \<longleftrightarrow> has_access_row db1 s c \<or> s = subject \<and> c = rr_course r" for s c
      by (auto simp: has_access_iff 1(8))
    have "unique_by rr_id (rights db')" "unique_by gr_id (grants db')"
      using ok1 fresh by (simp_all add: 1(8) modify_by_def unique_by_update unique_by_add rights_ok_def new_grant_def)
    moreover have "right_ok db' x" if "x \<in> set (rights db')" for x
    proof (cases "x = r'")
      case True
      then show ?thesis using 1(2,3) by (simp add: right_ok_def er ac r'_def)
    next
      case False
      with that ok1 have "right_ok db1 x" by (auto simp: rights rights_ok_def list_all_iff)
      then show ?thesis by (rule right_ok_mono) (auto simp: er ac)
    qed
    moreover have "grant_ok db' g" if "g \<in> set (grants db')" for g
    proof (cases "g = new_grant e gid source subject r")
      case True
      then show ?thesis unfolding grant_ok_def rights by (auto simp: new_grant_def r'_def)
    next
      case False
      with that have "g \<in> set (grants db1)" by (simp add: grants row_simps)
      with ok1 have g: "grant_ok db1 g" by (simp add: rights_ok_def list_all_iff)
      show ?thesis unfolding grant_ok_def
      proof
        assume "gr_state g = ''granted''"
        with g obtain x where x: "x \<in> set (rights db1)" "rr_id x = gr_right g" "rr_subject x = Some (gr_subject g)"
          "rr_course x = gs_course (gr_result g)" by (auto simp: grant_ok_def)
        show "\<exists>y\<in>set (rights db'). rr_id y = gr_right g \<and> rr_subject y = Some (gr_subject g) \<and>
            rr_course y = gs_course (gr_result g)"
        proof (cases "x = r")
          case True
          with x 1(4) show ?thesis by (auto simp: rights r'_def)
        next
          case False
          with x show ?thesis by (auto simp: rights)
        qed
      qed
    qed
    ultimately show ?thesis by (simp add: rights_ok_def list_all_iff)
  qed
qed

text \<open>No right is ever lost or rewritten: what was observed stays, only its use changes.\<close>

lemma originals_update: "(\<And>r. original (f r) = original r) \<Longrightarrow> original ` set (update_rows P f t) = original ` set t"
  unfolding set_update_rows image_image by (rule image_cong) auto

lemma original_update [simp]:
  "original (r\<lparr>rr_subject := s\<rparr>) = original r" "original (r\<lparr>rr_generation := n\<rparr>) = original r"
  by (simp_all add: original_def)

lemma delete_user_data_originals:
  assumes "delete_user_data e u db = Inr (x, db')"
  shows "original ` set (rights db) \<subseteq> original ` set (rights db')"
  using assms
proof (cases rule: delete_user_data_cases)
  case (1 new db1)
  have "original ` set (rights db1) = original ` set (rights db)"
    by (simp add: 1(1) release_rights_def originals_update)
  then show ?thesis by (auto simp: 1(2))
qed

lemma deliver_right_originals:
  assumes "deliver_right e ce source gid db = Inr (d, db')"
  shows "original ` set (rights db) \<subseteq> original ` set (rights db')"
  using assms
proof (cases rule: deliver_right_cases)
  case (continue subject scope contract)
  from continue(3) show ?thesis
  proof (cases rule: continue_right_cases)
    case (1 r)
    have "original ` set (rights db') = original ` set (rights db)"
      by (simp add: 1(8) modify_by_def originals_update)
    then show ?thesis by simp
  qed
qed simp

text \<open>Recorded deliveries keep their id, right, learner and result; only their state may become withdrawn.\<close>

lemma first_row_conditional:
  "(\<And>r. P (f r) = P r) \<Longrightarrow> first_row P (update_rows Q f t) = map_option (\<lambda>r. if Q r then f r else r) (first_row P t)"
  by (induction t) (auto simp: update_rows_def)

lemma delete_user_data_grants:
  assumes "delete_user_data e u db = Inr (x, db')" "row_by gr_id i (grants db) = Some g"
  shows "\<exists>g'. row_by gr_id i (grants db') = Some g' \<and> gr_right g' = gr_right g \<and> gr_subject g' = gr_subject g \<and>
    gr_result g' = gr_result g"
  using assms(1)
proof (cases rule: delete_user_data_cases)
  case (1 new db1)
  have "row_by gr_id i (grants db') = map_option (\<lambda>g. if gr_subject g = u \<and> gr_state g = ''granted''
      then g\<lparr>gr_state := ''withdrawn''\<rparr> else g) (row_by gr_id i (grants db))"
    by (simp add: 1 release_rights_def row_by_def first_row_conditional)
  with assms(2) show ?thesis by simp
qed

lemma deliver_right_grants:
  assumes "deliver_right e ce source gid db = Inr (d, db')" "row_by gr_id i (grants db) = Some g"
  shows "row_by gr_id i (grants db') = Some g"
  using assms(1)
proof (cases rule: deliver_right_cases)
  case (replay g')
  with assms(2) show ?thesis by simp
next
  case (continue subject scope contract)
  from continue(3) show ?thesis
  proof (cases rule: continue_right_cases)
    case (1 r)
    with assms(2) show ?thesis by (simp add: row_by_def first_row_add_row)
  qed
qed

end
