(* ===== verification/Purchases.thy ===== *)
theory Purchases
  imports Rights
begin

text \<open>
  Course purchases, \<^verbatim>\<open>services/purchases.py\<close>: the exact offer of a course, its acceptance under an order id, the
  delivery of an accepted order and its report, and the recovery of open orders. Money and acceptance are decided by
  the shop, whose answers are a parameter (\<open>shop\<close>); this service keeps the command so that it can be repeated.

  One order passes through several transactions: the acceptance commits before the shop is asked, and the delivery
  commits before it is reported. Each is a function of its own here (\<open>accept_order\<close>, \<open>deliver_commit\<close>,
  \<open>report_order\<close>); \<open>buy\<close>, \<open>deliver_order\<close> and \<open>recover_orders\<close> compose them and return what was committed
  together with the answer. The guard row an untouched order leaves in the session counts as committed.
\<close>

section \<open>The product\<close>

record shop =
  sh_offer :: "string \<Rightarrow> json \<Rightarrow> reply"
  sh_buy :: "string \<Rightarrow> acceptance option \<Rightarrow> reply"
  sh_report :: "string \<Rightarrow> string \<Rightarrow> fulfillment \<Rightarrow> reply"
  sh_dumps :: "json \<Rightarrow> nat list"

definition json_opt :: "('a \<Rightarrow> json) \<Rightarrow> 'a option \<Rightarrow> json" where
  "json_opt f v = (case v of None \<Rightarrow> JNull | Some x \<Rightarrow> f x)"

definition level_json :: "level \<Rightarrow> json" where
  "level_json l = js (case l of Einsteiger \<Rightarrow> ''einsteiger'' | Fortgeschritten \<Rightarrow> ''fortgeschritten'' | Profi \<Rightarrow> ''profi'')"

definition texts_json :: "ustr list \<Rightarrow> json" where
  "texts_json ts = JArr (map JStr ts)"

definition translation_json :: "course_translation \<Rightarrow> json" where
  "translation_json t = jobj [(''title'', json_opt JStr (tl_title t)), (''description'', json_opt JStr (tl_description t)),
     (''learning_goals'', json_opt texts_json (tl_goals t)), (''requirements'', json_opt texts_json (tl_requirements t))]"

definition base_course_json :: "course \<Rightarrow> (string \<times> json) list" where
  "base_course_json c = [(''id'', js (co_id c)), (''title'', JStr (co_title c)),
     (''description'', json_opt JStr (co_description c)), (''category'', json_opt JStr (co_category c)),
     (''language'', json_opt JStr (co_language c)), (''image'', json_opt JStr (co_image c)),
     (''authors'', JArr (map (\<lambda>a. JObj (map (\<lambda>(k, v). (k, JStr v)) a)) (co_authors c))), (''price'', JInt (co_price c)),
     (''learning_goals'', texts_json (co_goals c)), (''requirements'', texts_json (co_requirements c)),
     (''last_update'', JInt (co_last_update c)), (''learning_path_id'', json_opt js (co_path c)),
     (''translations'', JObj (map (\<lambda>(k, t). (k, translation_json t)) (co_translations c))),
     (''has_explicit_curriculum'', JBool (has_explicit_curriculum c)), (''level'', json_opt level_json (co_level c))]"

definition summary_json :: "course_summary \<Rightarrow> json" where
  "summary_json s = jobj (base_course_json (csu_course s) @
     [(''sections'', JArr (map (\<lambda>x. jobj [(''title'', JStr (ssu_title x)),
         (''lectures'', JArr (map (\<lambda>l. jobj [(''title'', JStr (lsu_title l)), (''duration'', JInt (lsu_duration l)),
            (''completed'', json_opt JBool (lsu_completed l))]) (ssu_lectures x))),
         (''completed'', json_opt JBool (ssu_completed x))]) (csu_sections s))),
      (''completed'', json_opt JBool (csu_completed s))])"

text \<open>The sentences of the offer; 228 and 252 are the umlauts.\<close>

definition ACCESS :: ustr where
  "ACCESS = ustr ''Du erh'' @ [228] @ ustr ''ltst Zugang zu diesem Kurs. Es gibt keine automatische Verl'' @ [228] @ ustr ''ngerung.''"

definition UNLOCKED :: ustr where
  "UNLOCKED = ustr ''Dein Kurs wird nach der Vertragsbest'' @ [228] @ ustr ''tigung freigeschaltet. Solange du auf die Freischaltung wartest, bleibt deine Bestellung in der Bestell'' @ [252] @ ustr ''bersicht.''"

definition or_else :: "ustr option \<Rightarrow> ustr \<Rightarrow> ustr" where
  "or_else v d = (case v of None \<Rightarrow> d | Some s \<Rightarrow> if s = [] then d else s)"

definition product_description :: "course \<Rightarrow> ustr" where
  "product_description c = join [10]
     [or_else (co_description c) [], ACCESS, ustr ''Sprache: '' @ or_else (co_language c) (ustr ''wie im Kurs angegeben''),
      ustr ''Lernziele: '' @ join (ustr ''; '') (co_goals c), ustr ''Voraussetzungen: '' @ join (ustr ''; '') (co_requirements c),
      ustr ''Inhalte: '' @ join (ustr ''; '') (map (\<lambda>s. se_title s @ ustr '': '' @ join (ustr '', '') (map le_title (se_lectures s)))
        (co_sections c)),
      ustr ''Gesamte Videodauer: '' @ int_text (sum_list (map le_duration (all_lectures c))) @ ustr '' Sekunden.'', UNLOCKED]"

definition product_facts :: "course \<Rightarrow> json" where
  "product_facts c = jobj [(''course_id'', js (co_id c)), (''course'', summary_json (summary c None None)), (''access'', JStr ACCESS)]"

definition product_of :: "env \<Rightarrow> shop \<Rightarrow> course \<Rightarrow> json" where
  "product_of e sh c = jobj [(''kind'', js ''course''), (''reference'', js (co_id c)), (''title'', JStr (co_title c)),
     (''description'', JStr (product_description c)), (''coins'', JInt (co_price c)), (''facts'', product_facts c),
     (''revision'', js (en_sha256 e (sh_dumps sh (product_facts c)))), (''service_starts_at'', JNull)]"

section \<open>Answers of the shop\<close>

text \<open>The error hook of \<^verbatim>\<open>InternalService.client\<close>: 401, 403 and 5xx raise, as no answer does.\<close>

definition hook_raises :: "nat \<Rightarrow> bool" where
  "hook_raises st \<longleftrightarrow> st = 401 \<or> st = 403 \<or> (500 \<le> st \<and> st < 600)"

definition answer_of :: "reply \<Rightarrow> (nat \<times> json option) result" where
  "answer_of r = (case r of No_reply \<Rightarrow> Inl (Crash ''transport'')
     | Reply st body \<Rightarrow> if hook_raises st then Inl (Crash ''InternalServiceError'') else Inr (st, body))"

definition body_of :: "json option \<Rightarrow> json result" where
  "body_of b = (case b of None \<Rightarrow> Inl (Crash ''JSONDecodeError'') | Some v \<Rightarrow> Inr v)"

text \<open>A field that names a state or an id: a string, in the shop's contract.\<close>

definition text_field :: "string \<Rightarrow> json \<Rightarrow> string result" where
  "text_field k v = bind_r (required_field k v) (\<lambda>x. case json_string (Some x) of None \<Rightarrow> Inl (Crash ''TypeError'') | Some s \<Rightarrow> Inr s)"

text \<open>Truth of a JSON value in Python.\<close>

definition truthy :: "json option \<Rightarrow> bool" where
  "truthy v \<longleftrightarrow> \<not> falsy_marker v \<and> v \<noteq> Some (JStr []) \<and> v \<noteq> Some (JArr []) \<and> v \<noteq> Some (JObj [])"

section \<open>Offers\<close>

record order_view =
  ov_offer :: json
  ov_state :: string
  ov_fulfillment :: "json option"

definition order_view :: "course_purchase \<Rightarrow> order_view" where
  "order_view p = \<lparr>ov_offer = cp_offer p, ov_state = cp_state p, ov_fulfillment = cp_result p\<rparr>"

datatype offer_answer = Pending_order order_view | Shop_answer json

abbreviation open_states :: "string set" where
  "open_states \<equiv> {''prepared'', ''paid'', ''review''}"

abbreviation live_states :: "string set" where
  "live_states \<equiv> {''prepared'', ''paid'', ''review'', ''fulfilled''}"

definition new_order :: "env \<Rightarrow> string \<Rightarrow> course \<Rightarrow> string \<Rightarrow> json \<Rightarrow> course_purchase" where
  "new_order e u c i off = \<lparr>cp_id = i, cp_user = u, cp_course = co_id c, cp_state = ''offered'', cp_active_key = None,
     cp_offer = off, cp_acceptance = None, cp_result = None, cp_created = en_now e, cp_fulfillment = None, cp_reported = False\<rparr>"

definition offer :: "env \<Rightarrow> shop \<Rightarrow> string \<Rightarrow> course \<Rightarrow> offer_answer handler" where
  "offer e sh u c db = (let (guard, db) = lock_user db u in
     if pu_deleted guard \<or> free c then Inl (Http 412 ''purchase unavailable'')
     else if has_access_row db u (co_id c) then Inl (Http 409 ''course already owned'')
     else case first_row (\<lambda>p. cp_user p = u \<and> cp_course p = co_id c \<and> cp_state p \<in> open_states) (purchases db) of
       Some p \<Rightarrow> Inr (Pending_order (order_view p), db)
     | None \<Rightarrow> bind_r (answer_of (sh_offer sh u (product_of e sh c))) (\<lambda>(st, body).
         if st \<noteq> 200 then Inl (Http (if st = 409 \<or> st = 412 then st else 503) ''offer unavailable'')
         else bind_r (body_of body) (\<lambda>v. bind_r (required_field ''state'' v) (\<lambda>s.
           if s \<noteq> js ''offered'' then Inr (Shop_answer v, db)
           else bind_r (required_field ''offer'' v) (\<lambda>off. bind_r (text_field ''id'' off) (\<lambda>i.
             if exists_row (\<lambda>p. cp_id p = i) (purchases db) then Inl (Crash ''IntegrityError'')
             else Inr (Shop_answer v, db\<lparr>purchases := add_row (new_order e u c i off) (purchases db)\<rparr>)))))))"

section \<open>Acceptance\<close>

definition owner_key :: "string \<Rightarrow> string \<Rightarrow> string" where
  "owner_key u c = u @ '':'' @ c"

datatype accepted_order = Order string | Existing order_view

text \<open>The first acceptance of an order: everything that must hold before it counts.\<close>

definition exact_acceptance :: "env \<Rightarrow> shop \<Rightarrow> string \<Rightarrow> course \<Rightarrow> acceptance \<Rightarrow> course_purchase \<Rightarrow> database \<Rightarrow> unit result" where
  "exact_acceptance e sh u c a p db =
     (if cp_state p \<noteq> ''offered'' then Inl (Http 409 ''offer changed'')
      else bind_r (required_field ''product'' (cp_offer p)) (\<lambda>pr.
        if \<not> json_eq pr (product_of e sh c) then Inl (Http 409 ''offer changed'')
        else if \<not> ac_accepted a \<or> \<not> ac_early a then Inl (Http 409 ''exact offer acceptance required'')
        else bind_r (required_field ''hash'' (cp_offer p)) (\<lambda>h.
          if h \<noteq> JStr (ac_hash a) then Inl (Http 409 ''exact offer acceptance required'')
          else if has_access_row db u (co_id c) then Inl (Http 409 ''course already owned'')
          else if exists_row (\<lambda>q. cp_user q = u \<and> cp_course q = co_id c \<and> cp_state q \<in> live_states \<and> cp_id q \<noteq> cp_id p)
              (purchases db)
          then Inl (Http 409 ''another course purchase already exists'') else Inr ())))"

definition accept_row :: "string \<Rightarrow> string \<Rightarrow> acceptance \<Rightarrow> course_purchase \<Rightarrow> course_purchase" where
  "accept_row u c a p = p\<lparr>cp_acceptance := Some a, cp_state := ''prepared'', cp_active_key := Some (owner_key u c)\<rparr>"

text \<open>Up to the commit. The unique key of an active order decides last: on a conflict the session is rolled back.\<close>

definition accept_order :: "env \<Rightarrow> shop \<Rightarrow> string \<Rightarrow> course \<Rightarrow> acceptance \<Rightarrow> accepted_order handler" where
  "accept_order e sh u c a db0 = (let (guard, db) = lock_user db0 u in
     case first_row (\<lambda>p. cp_id p = ac_order a \<and> cp_user p = u \<and> cp_course p = co_id c) (purchases db) of
       None \<Rightarrow> Inl (Http 404 ''purchase not found'')
     | Some p \<Rightarrow>
       if pu_deleted guard then Inl (Http 404 ''purchase not found'')
       else if cp_acceptance p \<noteq> None
       then if cp_acceptance p \<noteq> Some a then Inl (Http 409 ''conflicting acceptance'') else Inr (Order (cp_id p), db)
       else bind_r (exact_acceptance e sh u c a p db) (\<lambda>_.
         case first_row (\<lambda>q. cp_active_key q = Some (owner_key u (co_id c)) \<and> cp_id q \<noteq> cp_id p) (purchases db) of
           Some q \<Rightarrow> Inr (Existing (order_view q), db0)
         | None \<Rightarrow> Inr (Order (cp_id p), db\<lparr>purchases := modify_by cp_id (cp_id p)
             (accept_row u (co_id c) a) (purchases db)\<rparr>)))"

section \<open>Delivery\<close>

definition put_order :: "course_purchase \<Rightarrow> database \<Rightarrow> database" where
  "put_order p db = db\<lparr>purchases := modify_by cp_id (cp_id p) (\<lambda>x. if cp_id x = cp_id p then p else x) (purchases db)\<rparr>"

text \<open>Whether the provision deadline of an outcome has passed. An unreadable one ends in an exception.\<close>

definition too_late :: "env \<Rightarrow> json \<Rightarrow> bool result" where
  "too_late e v = (let d = jget ''provision_deadline'' v in
     if \<not> truthy d then Inr False
     else case json_text d of None \<Rightarrow> Inl (Crash ''AttributeError'')
     | Some t \<Rightarrow> (case en_timestamp e t of Bad_time \<Rightarrow> Inl (Crash ''ValueError'') | Naive_time \<Rightarrow> Inl (Crash ''TypeError'')
         | Instant at \<Rightarrow> Inr (at \<le> en_now e)))"

text \<open>What an accepted command did, by the shop's outcome: the order and whether it now gives access.\<close>

definition noted :: "json \<Rightarrow> string \<Rightarrow> course_purchase \<Rightarrow> course_purchase" where
  "noted v s p = p\<lparr>cp_result := Some v, cp_state := s, cp_active_key := if s = ''failed'' then None else cp_active_key p\<rparr>"

definition fulfilled_row :: "env \<Rightarrow> json \<Rightarrow> bool \<Rightarrow> course_purchase \<Rightarrow> course_purchase" where
  "fulfilled_row e v paid p = p\<lparr>cp_state := ''fulfilled'', cp_fulfillment := Some \<lparr>ff_course = cp_course p, ff_at = en_now e,
     ff_smtp = the (jget ''confirmation_smtp_accepted_at'' v), ff_order = cp_id p,
     ff_ledger = if paid then Some (cp_id p) else None\<rparr>\<rparr>"

definition provide :: "env \<Rightarrow> json \<Rightarrow> course_purchase \<Rightarrow> (course_purchase \<times> bool) result" where
  "provide e v p = bind_r (too_late e v) (\<lambda>late.
     if late then Inr (p\<lparr>cp_state := ''review''\<rparr>, False)
     else bind_r (required_field ''product'' (cp_offer p)) (\<lambda>pr. bind_r (required_field ''coins'' pr) (\<lambda>n.
       Inr (fulfilled_row e v (truthy (Some n)) p, True))))"

definition outcome_order :: "env \<Rightarrow> json \<Rightarrow> course_purchase \<Rightarrow> (course_purchase \<times> bool) result" where
  "outcome_order e v p = bind_r (text_field ''state'' v) (\<lambda>s.
     if s = ''paid'' \<and> truthy (jget ''confirmation_smtp_accepted_at'' v) then provide e v (noted v s p)
     else Inr (noted v s p, False))"

text \<open>
  What the shop answered to the command of an order; the answer here says whether the order is to be reported.
  Rejections before acceptance are final, other failures retain the command.
\<close>

definition take_answer :: "env \<Rightarrow> course_purchase \<Rightarrow> nat \<Rightarrow> json option \<Rightarrow> bool handler" where
  "take_answer e p st body db =
     (if st = 409 \<or> st = 412 then Inr (False, put_order (p\<lparr>cp_state := ''failed'', cp_active_key := None\<rparr>) db)
      else if st = 200
      then bind_r (body_of body) (\<lambda>v. bind_r (outcome_order e v p) (\<lambda>(p', access).
        Inr (cp_state p' = ''fulfilled'',
          if access then grant_access (cp_user p) (cp_course p) (put_order p' db) else put_order p' db)))
      else Inr (False, db))"

text \<open>The transaction of a delivery.\<close>

definition deliver_commit :: "env \<Rightarrow> shop \<Rightarrow> string \<Rightarrow> bool handler" where
  "deliver_commit e sh i db = (case row_by cp_id i (purchases db) of
     None \<Rightarrow> Inr (False, db)
   | Some p \<Rightarrow> let (guard, db) = lock_user db (cp_user p); st = en_user_status e (cp_user p) in
       if cp_state p = ''fulfilled'' then Inr (True, db)
       else if cp_state p \<notin> {''prepared'', ''paid''} then Inr (False, db)
       else if pu_deleted guard then Inr (False, put_order (p\<lparr>cp_state := ''review''\<rparr>) db)
       else if hook_raises st then Inl (Crash ''InternalServiceError'')
       else if st = 404 then Inr (False, put_order (p\<lparr>cp_state := ''review''\<rparr>) (set_deleted db (cp_user p)))
       else if st \<noteq> 200 then Inr (False, db)
       else bind_r (answer_of (sh_buy sh (cp_user p) (cp_acceptance p))) (\<lambda>(st, body). take_answer e p st body db))"

text \<open>\<^verbatim>\<open>report\<close>, a transaction of its own.\<close>

definition report_order :: "shop \<Rightarrow> string \<Rightarrow> unit handler" where
  "report_order sh i db = (case row_by cp_id i (purchases db) of
     None \<Rightarrow> Inr ((), db)
   | Some p \<Rightarrow> (case cp_fulfillment p of
       None \<Rightarrow> Inr ((), db)
     | Some f \<Rightarrow> if cp_reported p then Inr ((), db)
       else bind_r (answer_of (sh_report sh (cp_user p) (cp_id p) f)) (\<lambda>(st, body).
         Inr ((), if st = 200 then put_order (p\<lparr>cp_reported := True\<rparr>) db else db))))"

definition deliver_order :: "env \<Rightarrow> shop \<Rightarrow> string \<Rightarrow> database \<Rightarrow> unit result \<times> database" where
  "deliver_order e sh i db = (case deliver_commit e sh i db of
     Inl er \<Rightarrow> (Inl er, db)
   | Inr (rep, db1) \<Rightarrow> if \<not> rep then (Inr (), db1)
     else (case report_order sh i db1 of Inl er \<Rightarrow> (Inl er, db1) | Inr (_, db2) \<Rightarrow> (Inr (), db2)))"

definition buy :: "env \<Rightarrow> shop \<Rightarrow> string \<Rightarrow> course \<Rightarrow> acceptance \<Rightarrow> database \<Rightarrow> order_view result \<times> database" where
  "buy e sh u c a db = (case accept_order e sh u c a db of
     Inl er \<Rightarrow> (Inl er, db)
   | Inr (Existing v, db1) \<Rightarrow> (Inr v, db1)
   | Inr (Order i, db1) \<Rightarrow> (case deliver_order e sh i db1 of
       (Inl er, db2) \<Rightarrow> (Inl er, db2)
     | (Inr _, db2) \<Rightarrow> (case row_by cp_id i (purchases db2) of None \<Rightarrow> (Inl (Crash ''AssertionError''), db2)
         | Some p \<Rightarrow> (Inr (order_view p), db2))))"

text \<open>Open orders and unreported deliveries in the order of their offers; one that fails does not stop the rest.\<close>

definition open_orders :: "database \<Rightarrow> string list" where
  "open_orders db = map cp_id (sort_key cp_created (all_rows (\<lambda>p. cp_state p \<in> {''prepared'', ''paid''} \<or>
     cp_state p = ''fulfilled'' \<and> \<not> cp_reported p) (purchases db)))"

definition recover_orders :: "env \<Rightarrow> shop \<Rightarrow> database \<Rightarrow> database" where
  "recover_orders e sh db = fold (\<lambda>i db. snd (deliver_order e sh i db)) (open_orders db) db"

end
