(* ===== verification/Entitlements.thy ===== *)
theory Entitlements
  imports Purchases
begin

text \<open>
  What entitles a learner to a course: an order fulfilled by the shop, or the continued right of an erased account.
  The steps are the transactions of purchases, continuations and erasures in any order and under any answers of the
  shop, between any other work of the service (\<open>title_step\<close>).
\<close>

section \<open>Orders in good order\<close>

definition accepted_exactly :: "course_purchase \<Rightarrow> bool" where
  "accepted_exactly p \<longleftrightarrow> (case cp_acceptance p of None \<Rightarrow> False
     | Some a \<Rightarrow> ac_accepted a \<and> ac_early a \<and> jget ''hash'' (cp_offer p) = Some (JStr (ac_hash a)))"

definition provided :: "course_purchase \<Rightarrow> bool" where
  "provided p \<longleftrightarrow> cp_state p = ''fulfilled'' \<and> (case (cp_fulfillment p, cp_result p) of
     (Some f, Some v) \<Rightarrow> ff_order f = cp_id p \<and> ff_course f = cp_course p \<and> jget ''state'' v = Some (js ''paid'') \<and>
       truthy (jget ''confirmation_smtp_accepted_at'' v)
   | _ \<Rightarrow> False)"

text \<open>An order that is alive holds the unique key of its learner and course and was accepted exactly as offered.\<close>

definition order_ok :: "course_purchase \<Rightarrow> bool" where
  "order_ok p \<longleftrightarrow> (cp_state p \<in> live_states \<longrightarrow> cp_active_key p \<noteq> None) \<and>
     (cp_active_key p \<noteq> None \<longrightarrow> cp_active_key p = Some (owner_key (cp_user p) (cp_course p)) \<and> accepted_exactly p) \<and>
     (cp_fulfillment p \<noteq> None \<longrightarrow> provided p)"

definition one_key :: "course_purchase list \<Rightarrow> bool" where
  "one_key t \<longleftrightarrow> (\<forall>p\<in>set t. \<forall>q\<in>set t. cp_active_key p \<noteq> None \<and> cp_active_key p = cp_active_key q \<longrightarrow> cp_id p = cp_id q)"

definition orders_ok :: "database \<Rightarrow> bool" where
  "orders_ok db \<longleftrightarrow> unique_by cp_id (purchases db) \<and> list_all order_ok (purchases db) \<and> one_key (purchases db)"

lemma orders_okD:
  assumes "orders_ok db"
  shows "unique_by cp_id (purchases db)" "p \<in> set (purchases db) \<Longrightarrow> order_ok p" "one_key (purchases db)"
  using assms by (auto simp: orders_ok_def list_all_iff)

lemma orders_ok_cong: "purchases db' = purchases db \<Longrightarrow> orders_ok db' = orders_ok db"
  by (simp add: orders_ok_def)

lemma orders_ok_lock [simp]: "orders_ok (snd (lock_user db u)) = orders_ok db"
  by (rule orders_ok_cong) simp

lemma set_put_order:
  assumes "orders_ok db" "row_by cp_id (cp_id p') (purchases db) = Some p"
  shows "set (purchases (put_order p' db)) = insert p' (set (purchases db) - {p})"
proof -
  from row_by_SomeD [OF assms(2)] have p: "p \<in> set (purchases db)" "cp_id p = cp_id p'" by auto
  have "cp_id x = cp_id p' \<longleftrightarrow> x = p" if "x \<in> set (purchases db)" for x
    using unique_by_inj [OF orders_okD(1) [OF assms(1)], of x p] that p by auto
  with p show ?thesis by (auto simp: put_order_def modify_by_def row_simps image_iff)
qed

lemma put_order_ok:
  assumes ok: "orders_ok db" and row: "row_by cp_id (cp_id p') (purchases db) = Some p" and "order_ok p'"
    and key: "cp_active_key p' = None \<or> cp_active_key p' = cp_active_key p \<or>
      (\<forall>q\<in>set (purchases db). cp_active_key q = cp_active_key p' \<longrightarrow> cp_id q = cp_id p')"
  shows "orders_ok (put_order p' db)"
proof -
  note s = set_put_order [OF ok row]
  from row_by_SomeD [OF row] have p: "p \<in> set (purchases db)" "cp_id p = cp_id p'" by auto
  have "one_key (purchases (put_order p' db))"
    using orders_okD(3) [OF ok] key p unfolding one_key_def s by (metis Diff_iff insert_iff)
  moreover have "unique_by cp_id (purchases (put_order p' db))"
    using orders_okD(1) [OF ok] by (simp add: put_order_def modify_by_def unique_by_update)
  moreover have "list_all order_ok (purchases (put_order p' db))"
    using orders_okD(2) [OF ok] assms(3) by (auto simp: list_all_iff s)
  ultimately show ?thesis by (simp add: orders_ok_def)
qed

lemma put_order_fields [simp]:
  "accesses (put_order p db) = accesses db" "rights (put_order p db) = rights db" "grants (put_order p db) = grants db"
  "users (put_order p db) = users db" "erased (put_order p db) u = erased db u" "gone (put_order p db) u = gone db u"
  by (simp_all add: put_order_def erased_def)

section \<open>The transactions of an order\<close>

lemma offer_cases:
  assumes "offer e sh u c db = Inr (a, db')"
  obtains (none) "db' = snd (lock_user db u)"
  | (new) i off where "db' = (snd (lock_user db u))\<lparr>purchases := add_row (new_order e u c i off) (purchases db)\<rparr>"
      "row_by cp_id i (purchases db) = None" "\<not> erased db u"
proof -
  define db1 where "db1 = snd (lock_user db u)"
  have same: "purchases db1 = purchases db" "pu_deleted (fst (lock_user db u)) = erased db u" by (simp_all add: db1_def)
  show ?thesis
  proof (rule ccontr)
    assume no: "\<not> thesis"
    have "db' \<noteq> db1" "\<And>i off. db' = db1\<lparr>purchases := add_row (new_order e u c i off) (purchases db)\<rparr> \<Longrightarrow>
        \<not> erased db u \<Longrightarrow> row_by cp_id i (purchases db) \<noteq> None"
      using no none new unfolding db1_def by blast+
    with assms show False unfolding offer_def case_prod_beta Let_def db1_def [symmetric] same
      by (auto simp: result_simps row_by_None row_simps split: option.splits if_splits)
  qed
qed

lemma exact_acceptance_Inr:
  assumes "exact_acceptance e sh u c a p db = Inr x"
  shows "cp_state p = ''offered''" "ac_accepted a" "ac_early a" "jget ''hash'' (cp_offer p) = Some (JStr (ac_hash a))"
    "\<not> has_access_row db u (co_id c)"
    "\<exists>pr. jget ''product'' (cp_offer p) = Some pr \<and> json_eq pr (product_of e sh c)"
  using assms by (auto simp: exact_acceptance_def required_field_def result_simps split: if_splits option.splits)

lemma accept_order_cases:
  assumes "accept_order e sh u c a db = Inr (r, db')"
  obtains (again) "db' = snd (lock_user db u)" | (other) "db' = db"
  | (first) p where "p \<in> set (purchases db)" "cp_user p = u" "cp_course p = co_id c" "cp_acceptance p = None" "\<not> erased db u"
      "exact_acceptance e sh u c a p (snd (lock_user db u)) = Inr ()"
      "\<forall>q\<in>set (purchases db). cp_active_key q = Some (owner_key u (co_id c)) \<longrightarrow> cp_id q = cp_id p"
      "r = Order (cp_id p)" "db' = (snd (lock_user db u))\<lparr>purchases :=
         modify_by cp_id (cp_id p) (accept_row u (co_id c) a) (purchases db)\<rparr>"
proof -
  define db1 where "db1 = snd (lock_user db u)"
  have same: "purchases db1 = purchases db" "pu_deleted (fst (lock_user db u)) = erased db u" by (simp_all add: db1_def)
  show ?thesis
  proof (cases "first_row (\<lambda>p. cp_id p = ac_order a \<and> cp_user p = u \<and> cp_course p = co_id c) (purchases db)")
    case None
    with assms show ?thesis by (simp add: accept_order_def case_prod_beta Let_def)
  next
    case (Some p)
    from first_row_SomeD [OF Some] have p: "p \<in> set (purchases db)" "cp_user p = u" "cp_course p = co_id c" by auto
    show ?thesis
    proof (cases "cp_acceptance p = None")
      case False
      with assms Some same show ?thesis
        by (intro again) (auto simp: accept_order_def case_prod_beta Let_def split: if_splits)
    next
      case True
      with assms Some have x: "exact_acceptance e sh u c a p db1 = Inr ()" and live: "\<not> erased db u"
        and rest: "(case first_row (\<lambda>q. cp_active_key q = Some (owner_key u (co_id c)) \<and> cp_id q \<noteq> cp_id p) (purchases db) of
           Some q \<Rightarrow> Inr (Existing (order_view q), db)
         | None \<Rightarrow> Inr (Order (cp_id p), (snd (lock_user db u))\<lparr>purchases :=
             modify_by cp_id (cp_id p) (accept_row u (co_id c) a) (purchases (snd (lock_user db u)))\<rparr>))
           = (Inr (r, db') :: (accepted_order \<times> database) result)"
        by (auto simp: accept_order_def case_prod_beta Let_def result_simps db1_def split: if_splits)
      show ?thesis
      proof (cases "first_row (\<lambda>q. cp_active_key q = Some (owner_key u (co_id c)) \<and> cp_id q \<noteq> cp_id p) (purchases db)")
        case None
        with rest have "r = Order (cp_id p)"
          "db' = db1\<lparr>purchases := modify_by cp_id (cp_id p) (accept_row u (co_id c) a) (purchases db)\<rparr>" by (auto simp: db1_def)
        moreover have "\<forall>q\<in>set (purchases db). cp_active_key q = Some (owner_key u (co_id c)) \<longrightarrow> cp_id q = cp_id p"
          using None by (auto simp: first_row_None)
        ultimately show ?thesis using p True live x unfolding db1_def by (intro first)
      next
        case (Some q)
        with rest show ?thesis by (intro other) simp
      qed
    qed
  qed
qed

lemma json_string_SomeD: "json_string (Some x) = Some s \<Longrightarrow> x = js s"
proof (cases x)
  case (JStr t)
  assume "json_string (Some x) = Some s"
  with JStr have t: "list_all (\<lambda>c. c < 128) t" "s = map char_of t" by (auto simp: json_string_def split: if_splits)
  from t(1) have "map of_char (map char_of t :: string) = t" by (induction t) auto
  with t(2) JStr show ?thesis by (simp add: js_def ustr_def)
qed (simp_all add: json_string_def)

lemma text_field_Inr: "text_field k v = Inr s \<Longrightarrow> jget k v = Some (js s)"
  by (auto simp: text_field_def required_field_def result_simps split: option.splits dest: json_string_SomeD)

text \<open>What a delivery may do to an order.\<close>

definition moved :: "course_purchase \<Rightarrow> course_purchase \<Rightarrow> bool" where
  "moved p p' \<longleftrightarrow> cp_id p' = cp_id p \<and> cp_user p' = cp_user p \<and> cp_course p' = cp_course p \<and> cp_offer p' = cp_offer p \<and>
     cp_acceptance p' = cp_acceptance p \<and> cp_reported p' = cp_reported p \<and>
     (cp_active_key p' = cp_active_key p \<or> cp_state p' = ''failed'' \<and> cp_active_key p' = None) \<and>
     (cp_fulfillment p' = cp_fulfillment p \<or> provided p')"

lemma moved_state: "moved p (p\<lparr>cp_state := s\<rparr>)"
  by (simp add: moved_def)

lemma moved_failed: "moved p (p\<lparr>cp_state := ''failed'', cp_active_key := None\<rparr>)"
  by (simp add: moved_def)

lemma noted_fields [simp]:
  "cp_id (noted v s p) = cp_id p" "cp_user (noted v s p) = cp_user p" "cp_course (noted v s p) = cp_course p"
  "cp_offer (noted v s p) = cp_offer p" "cp_result (noted v s p) = Some v" "cp_acceptance (noted v s p) = cp_acceptance p"
  "cp_fulfillment (noted v s p) = cp_fulfillment p" "cp_reported (noted v s p) = cp_reported p"
  by (simp_all add: noted_def)

lemma outcome_order_moved:
  assumes "outcome_order e v p = Inr (p', access)"
  shows "moved p p'" "access \<Longrightarrow> provided p'" "access \<Longrightarrow> \<exists>f. cp_fulfillment p' = Some f \<and> ff_at f = en_now e"
    "access \<Longrightarrow> too_late e v = Inr False"
proof -
  from assms obtain s where s: "text_field ''state'' v = Inr s"
    by (auto simp: outcome_order_def result_simps)
  have st: "jget ''state'' v = Some (js s)" by (rule text_field_Inr [OF s])
  have "moved p p' \<and> (access \<longrightarrow> provided p' \<and> (\<exists>f. cp_fulfillment p' = Some f \<and> ff_at f = en_now e) \<and> too_late e v = Inr False)"
  proof (cases "s = ''paid'' \<and> truthy (jget ''confirmation_smtp_accepted_at'' v)")
    case False
    with assms s have "p' = noted v s p" "\<not> access" by (auto simp: outcome_order_def)
    then show ?thesis by (simp add: noted_def moved_def)
  next
    case True
    with assms s have "provide e v (noted v ''paid'' p) = Inr (p', access)" by (simp add: outcome_order_def)
    then consider "p' = noted v ''paid'' p\<lparr>cp_state := ''review''\<rparr>" "\<not> access"
      | paid where "access" "too_late e v = Inr False" "p' = fulfilled_row e v paid (noted v ''paid'' p)"
      unfolding provide_def by (auto simp: result_simps split: if_splits)
    then show ?thesis
    proof cases
      case 1
      then show ?thesis by (simp add: noted_def moved_def)
    next
      case (2 paid)
      have "provided p'" using st True by (simp add: 2(3) provided_def noted_def fulfilled_row_def)
      with 2 show ?thesis by (simp add: moved_def noted_def fulfilled_row_def)
    qed
  qed
  then show "moved p p'" "access \<Longrightarrow> provided p'" "access \<Longrightarrow> \<exists>f. cp_fulfillment p' = Some f \<and> ff_at f = en_now e"
    "access \<Longrightarrow> too_late e v = Inr False" by auto
qed

text \<open>
  A delivery leaves the orders alone, or moves the one it delivers while it is waiting. Access comes only with an
  outcome that provides it, for a learner whose account is alive.
\<close>

lemma deliver_commit_cases:
  assumes "deliver_commit e sh i db = Inr (b, db')"
  obtains (keep) u where "db' = snd (lock_user db u)" | (gone) "db' = db"
  | (change) p p' where "row_by cp_id i (purchases db) = Some p" "cp_state p \<in> {''prepared'', ''paid''}" "moved p p'"
      "db' = put_order p' (snd (lock_user db (cp_user p))) \<or>
       db' = put_order p' (set_deleted (snd (lock_user db (cp_user p))) (cp_user p))"
  | (access) p p' v where "row_by cp_id i (purchases db) = Some p" "cp_state p \<in> {''prepared'', ''paid''}" "moved p p'"
      "provided p'" "\<not> erased db (cp_user p)" "en_user_status e (cp_user p) = 200"
      "sh_buy sh (cp_user p) (cp_acceptance p) = Reply 200 (Some v)" "outcome_order e v p = Inr (p', True)"
      "db' = grant_access (cp_user p) (cp_course p) (put_order p' (snd (lock_user db (cp_user p))))"
proof (cases "row_by cp_id i (purchases db)")
  case None
  with assms show ?thesis by (intro gone) (simp add: deliver_commit_def)
next
  case (Some p)
  define db1 where "db1 = snd (lock_user db (cp_user p))"
  show ?thesis
  proof (cases "cp_state p \<in> {''prepared'', ''paid''}")
    case False
    with assms Some show ?thesis
      by (intro keep [of "cp_user p"]) (auto simp: deliver_commit_def case_prod_beta Let_def split: if_splits)
  next
    case True
    then have nf: "cp_state p \<noteq> ''fulfilled''" by auto
    show ?thesis
    proof (cases "erased db (cp_user p) \<or> en_user_status e (cp_user p) \<noteq> 200")
      case True
      with assms Some nf \<open>cp_state p \<in> _\<close> have "db' = db1 \<or> db' = put_order (p\<lparr>cp_state := ''review''\<rparr>) db1 \<or>
          db' = put_order (p\<lparr>cp_state := ''review''\<rparr>) (set_deleted db1 (cp_user p))"
        unfolding deliver_commit_def db1_def by (auto simp: case_prod_beta Let_def split: if_splits)
      then show ?thesis using keep [of "cp_user p"] change [OF Some \<open>cp_state p \<in> _\<close> moved_state] unfolding db1_def by blast
    next
      case False
      have "hook_raises 200 = False" by (simp add: hook_raises_def)
      moreover have "(cp_state p \<noteq> ''prepared'' \<and> cp_state p \<noteq> ''paid'') = False" using \<open>cp_state p \<in> _\<close> by auto
      ultimately have "bind_r (answer_of (sh_buy sh (cp_user p) (cp_acceptance p)))
          (\<lambda>(st, body). take_answer e p st body db1) = Inr (b, db')"
        using False assms Some nf by (simp add: deliver_commit_def case_prod_beta Let_def db1_def)
      then obtain st body where ans: "answer_of (sh_buy sh (cp_user p) (cp_acceptance p)) = Inr (st, body)"
        and r: "take_answer e p st body db1 = Inr (b, db')"
        by (auto simp: result_simps)
      consider "db' = put_order (p\<lparr>cp_state := ''failed'', cp_active_key := None\<rparr>) db1" | "db' = db1"
        | v p' where "st = 200" "body = Some v" "outcome_order e v p = Inr (p', False)" "db' = put_order p' db1"
        | v p' where "st = 200" "body = Some v" "outcome_order e v p = Inr (p', True)"
            "db' = grant_access (cp_user p) (cp_course p) (put_order p' db1)"
        using r by (auto simp: take_answer_def result_simps body_of_def split: if_splits option.splits)
      then show ?thesis
      proof cases
        case 1
        then show ?thesis using change [OF Some \<open>cp_state p \<in> _\<close> moved_failed] unfolding db1_def by blast
      next
        case 2
        then show ?thesis using keep unfolding db1_def by blast
      next
        case (3 v p')
        then show ?thesis using change [OF Some \<open>cp_state p \<in> _\<close> outcome_order_moved(1)] unfolding db1_def by blast
      next
        case (4 v p')
        have "sh_buy sh (cp_user p) (cp_acceptance p) = Reply 200 (Some v)"
          using ans 4 by (auto simp: answer_of_def split: reply.splits if_splits)
        with access [OF Some \<open>cp_state p \<in> _\<close> outcome_order_moved(1,2) [OF 4(3)] _ _ this 4(3) 4(4) [unfolded db1_def]] False
        show ?thesis by simp
      qed
    qed
  qed
qed

lemma report_order_cases:
  assumes "report_order sh i db = Inr (x, db')"
  obtains "db' = db" | p where "row_by cp_id i (purchases db) = Some p" "cp_fulfillment p \<noteq> None"
    "db' = put_order (p\<lparr>cp_reported := True\<rparr>) db"
  using assms by (auto simp: report_order_def result_simps split: option.splits if_splits)

lemma moved_ok:
  assumes "order_ok p" "cp_state p \<in> {''prepared'', ''paid''}" "moved p p'"
  shows "order_ok p'"
proof -
  have m: "cp_user p' = cp_user p" "cp_course p' = cp_course p" "accepted_exactly p' = accepted_exactly p"
    "cp_fulfillment p' = cp_fulfillment p \<or> provided p'"
    "cp_active_key p' = cp_active_key p \<or> cp_state p' = ''failed'' \<and> cp_active_key p' = None"
    using assms(3) by (simp_all add: moved_def accepted_exactly_def split: option.split)
  have "cp_state p \<in> live_states" "cp_state p \<noteq> ''fulfilled''" using assms(2) by auto
  with assms(1) have p: "cp_active_key p = Some (owner_key (cp_user p) (cp_course p))" "accepted_exactly p"
    "cp_fulfillment p = None" by (auto simp: order_ok_def provided_def)
  from m(4) p(3) have "cp_fulfillment p' \<noteq> None \<longrightarrow> provided p'" by auto
  moreover from m(5) p(1) have "cp_state p' \<in> live_states \<longrightarrow> cp_active_key p' \<noteq> None" by auto
  ultimately show ?thesis using m p unfolding order_ok_def by metis
qed

section \<open>Every interleaving\<close>

text \<open>
  One transaction of the service. \<open>by_other_work\<close> is any transaction of the rest: it leaves purchases, rights and
  accesses alone and never revives an erased account.
\<close>

inductive title_step :: "database \<Rightarrow> database \<Rightarrow> bool" where
  by_offer: "offer e sh u c db = Inr (a, db') \<Longrightarrow> title_step db db'"
| by_acceptance: "accept_order e sh u c acc db = Inr (r, db') \<Longrightarrow> title_step db db'"
| by_delivery: "deliver_commit e sh i db = Inr (b, db') \<Longrightarrow> title_step db db'"
| by_report: "report_order sh i db = Inr (x, db') \<Longrightarrow> title_step db db'"
| by_continuation: "deliver_right e ce source gid db = Inr (d, db') \<Longrightarrow> title_step db db'"
| by_erasure: "delete_user_data e u db = Inr (x, db') \<Longrightarrow> title_step db db'"
| by_other_work: "purchases db' = purchases db \<Longrightarrow> rights db' = rights db \<Longrightarrow> grants db' = grants db \<Longrightarrow>
    accesses db' = accesses db \<Longrightarrow> (\<And>u. erased db u \<Longrightarrow> erased db' u) \<Longrightarrow> title_step db db'"

abbreviation title_run :: "database \<Rightarrow> database \<Rightarrow> bool" where
  "title_run \<equiv> title_step\<^sup>*\<^sup>*"

lemma orders_ok_add:
  assumes "orders_ok db" "row_by cp_id (cp_id p) (purchases db) = None" "order_ok p" "cp_active_key p = None"
  shows "orders_ok (db\<lparr>purchases := add_row p (purchases db)\<rparr>)"
proof -
  have "one_key (add_row p (purchases db))"
    using orders_okD(3) [OF assms(1)] assms(4) unfolding one_key_def set_add_row by (metis insert_iff)
  moreover have "list_all order_ok (add_row p (purchases db))"
    using orders_okD(2) [OF assms(1)] assms(3) by (simp add: list_all_iff set_add_row)
  ultimately show ?thesis using assms(1,2) by (simp add: orders_ok_def unique_by_add row_by_None)
qed

lemma accept_row_put:
  assumes "row_by cp_id (cp_id p) (purchases db) = Some p" "unique_by cp_id (purchases db)"
  shows "db\<lparr>purchases := modify_by cp_id (cp_id p) (accept_row u c a) (purchases db)\<rparr> = put_order (accept_row u c a p) db"
proof -
  have id: "cp_id (accept_row u c a p) = cp_id p" by (simp add: accept_row_def)
  have "x = p" if "x \<in> set (purchases db)" "cp_id x = cp_id p" for x
    using unique_by_inj [OF assms(2) that(1) _ that(2)] row_by_SomeD [OF assms(1)] by blast
  then have "modify_by cp_id (cp_id p) (accept_row u c a) (purchases db) =
      modify_by cp_id (cp_id p) (\<lambda>x. if cp_id x = cp_id (accept_row u c a p) then accept_row u c a p else x) (purchases db)"
    unfolding modify_by_def update_rows_def id by (intro map_cong refl) (metis (full_types))
  then show ?thesis by (simp add: put_order_def id)
qed

lemma suspended_ok: "orders_ok db \<Longrightarrow> orders_ok (suspend_purchases u db)"
proof -
  assume ok: "orders_ok db"
  define waits where "waits = (\<lambda>p :: course_purchase. cp_user p = u \<and> cp_state p \<in> {''prepared'', ''paid''})"
  define f where "f = (\<lambda>p :: course_purchase. if waits p then p\<lparr>cp_state := ''review''\<rparr> else p)"
  have t: "purchases (suspend_purchases u db) = map f (purchases db)"
    by (simp add: suspend_purchases_def update_rows_def f_def waits_def)
  have same: "cp_id (f p) = cp_id p" "cp_active_key (f p) = cp_active_key p" for p by (simp_all add: f_def)
  have "order_ok (f p)" if "p \<in> set (purchases db)" for p
  proof (cases "waits p")
    case True
    then have w: "cp_state p \<in> {''prepared'', ''paid''}" by (simp add: waits_def)
    have "order_ok (p\<lparr>cp_state := ''review''\<rparr>)" by (rule moved_ok [OF orders_okD(2) [OF ok that] w moved_state])
    with True show ?thesis by (simp add: f_def)
  next
    case False
    with orders_okD(2) [OF ok that] show ?thesis by (simp add: f_def)
  qed
  moreover have "unique_by cp_id (map f (purchases db))"
    using orders_okD(1) [OF ok] by (simp add: unique_by_def comp_def same)
  moreover have "one_key (map f (purchases db))"
    using orders_okD(3) [OF ok] by (auto simp: one_key_def same)
  ultimately show ?thesis by (auto simp: orders_ok_def t list_all_iff)
qed

lemma reported_ok: "order_ok p \<Longrightarrow> order_ok (p\<lparr>cp_reported := True\<rparr>)"
proof -
  have "accepted_exactly (p\<lparr>cp_reported := True\<rparr>) = accepted_exactly p" "provided (p\<lparr>cp_reported := True\<rparr>) = provided p"
    by (simp_all add: accepted_exactly_def provided_def split: option.split)
  then show "order_ok p \<Longrightarrow> order_ok (p\<lparr>cp_reported := True\<rparr>)" by (simp add: order_ok_def)
qed

lemma grant_access_ok [simp]: "orders_ok (grant_access u c db) = orders_ok db"
  by (rule orders_ok_cong) simp

lemma set_deleted_ok [simp]: "orders_ok (set_deleted db u) = orders_ok db"
  by (rule orders_ok_cong) simp

lemma new_order_ok: "order_ok (new_order e u c i off)" "cp_active_key (new_order e u c i off) = None"
    "cp_id (new_order e u c i off) = i"
  by (simp_all add: order_ok_def new_order_def)

lemma put_moved:
  assumes "orders_ok db" "row_by cp_id i (purchases db) = Some p" "cp_state p \<in> {''prepared'', ''paid''}" "moved p p'"
  shows "orders_ok (put_order p' db)"
proof -
  have "cp_id p' = i" using assms(4) row_by_SomeD [OF assms(2)] by (simp add: moved_def)
  with assms(2) have row: "row_by cp_id (cp_id p') (purchases db) = Some p" by simp
  have "order_ok p" using orders_okD(2) [OF assms(1)] row_by_SomeD [OF row] by blast
  from moved_ok [OF this assms(3,4)] show ?thesis
    by (rule put_order_ok [OF assms(1) row]) (use assms(4) in \<open>auto simp: moved_def\<close>)
qed

lemma delete_user_data_purchases:
  assumes "delete_user_data e u db = Inr (x, db')"
  shows "purchases db' = purchases (suspend_purchases u db)"
  using assms by (cases rule: delete_user_data_cases) (simp add: suspend_purchases_def release_rights_def set_deleted_def)

lemma accept_row_ok:
  assumes "cp_user p = u" "cp_course p = c" "ac_accepted a" "ac_early a" "cp_fulfillment p = None"
    "jget ''hash'' (cp_offer p) = Some (JStr (ac_hash a))"
  shows "order_ok (accept_row u c a p)"
  using assms by (simp add: order_ok_def accept_row_def accepted_exactly_def)

lemma title_step_orders:
  assumes "title_step db db'" "orders_ok db"
  shows "orders_ok db'"
  using assms(1)
proof cases
  case (by_offer e sh u c a)
  from by_offer show ?thesis
  proof (cases rule: offer_cases)
    case none
    with assms(2) show ?thesis by simp
  next
    case (new i off)
    have "orders_ok (snd (lock_user db u))" using assms(2) by simp
    from orders_ok_add [OF this, of "new_order e u c i off"] new(1,2) new_order_ok show ?thesis by simp
  qed
next
  case (by_acceptance e sh u c acc r)
  from by_acceptance show ?thesis
  proof (cases rule: accept_order_cases)
    case again
    with assms(2) show ?thesis by simp
  next
    case other
    with assms(2) show ?thesis by simp
  next
    case (first p)
    define db1 where "db1 = snd (lock_user db u)"
    have ok1: "orders_ok db1" and same: "purchases db1 = purchases db" using assms(2) by (simp_all add: db1_def)
    have row: "row_by cp_id (cp_id p) (purchases db1) = Some p"
      using unique_by_row [OF orders_okD(1) [OF assms(2)] first(1)] by (simp add: same)
    have db': "db' = put_order (accept_row u (co_id c) acc p) db1"
      using first(9) accept_row_put [OF row orders_okD(1) [OF ok1]] by (simp add: db1_def)
    note x = exact_acceptance_Inr [OF first(6)]
    have "order_ok p" using orders_okD(2) [OF assms(2)] first(1) by blast
    with x(1) have "cp_fulfillment p = None" by (auto simp: order_ok_def provided_def)
    from accept_row_ok [OF first(2,3) x(2,3) this x(4)] have "order_ok (accept_row u (co_id c) acc p)" .
    moreover have "cp_id (accept_row u (co_id c) acc p) = cp_id p"
      "cp_active_key (accept_row u (co_id c) acc p) = Some (owner_key u (co_id c))" by (simp_all add: accept_row_def)
    ultimately show ?thesis unfolding db' using row first(7)
      by (intro put_order_ok [OF ok1, of _ p]) (auto simp: same)
  qed
next
  case (by_delivery e sh i b)
  from by_delivery show ?thesis
  proof (cases rule: deliver_commit_cases)
    case (change p p')
    define db1 where "db1 = snd (lock_user db (cp_user p))"
    have row: "row_by cp_id i (purchases db1) = Some p" "row_by cp_id i (purchases (set_deleted db1 (cp_user p))) = Some p"
      and ok: "orders_ok db1" "orders_ok (set_deleted db1 (cp_user p))"
      using change(1) assms(2) by (simp_all add: db1_def)
    from change(4) put_moved [OF ok(1) row(1) change(2,3)] put_moved [OF ok(2) row(2) change(2,3)] show ?thesis
      unfolding db1_def by blast
  next
    case (access p p' v)
    have "row_by cp_id i (purchases (snd (lock_user db (cp_user p)))) = Some p" using access(1) by simp
    from put_moved [OF _ this access(2,3)] assms(2) access(9) show ?thesis by simp
  qed (use assms(2) in simp_all)
next
  case (by_report sh i x)
  from by_report show ?thesis
  proof (cases rule: report_order_cases)
    case 1
    with assms(2) show ?thesis by simp
  next
    case (2 p)
    have "order_ok p" using orders_okD(2) [OF assms(2)] row_by_SomeD [OF 2(1)] by blast
    from reported_ok [OF this] 2 row_by_SomeD [OF 2(1)] show ?thesis
      by (auto intro!: put_order_ok [OF assms(2), of _ p])
  qed
next
  case (by_continuation e ce source gid d)
  have "purchases db' = purchases db"
    using by_continuation by (cases rule: deliver_right_cases) (auto elim!: continue_right_cases)
  with assms(2) orders_ok_cong show ?thesis by blast
next
  case (by_erasure e u x)
  with suspended_ok [OF assms(2), of u] delete_user_data_purchases orders_ok_cong show ?thesis by blast
next
  case by_other_work
  with assms(2) orders_ok_cong show ?thesis by blast
qed

section \<open>Settled orders\<close>

text \<open>What only the transactions of purchases touch: rights stay, accesses and erasures only grow.\<close>

definition quiet :: "database \<Rightarrow> database \<Rightarrow> bool" where
  "quiet db db' \<longleftrightarrow> rights db' = rights db \<and> grants db' = grants db \<and> set (accesses db) \<subseteq> set (accesses db') \<and>
     (\<forall>u. erased db u \<longrightarrow> erased db' u)"

lemma erased_purchases [simp]: "erased (db\<lparr>purchases := t\<rparr>) u = erased db u"
  by (simp add: erased_def)

lemma quiet_lock: "quiet db (snd (lock_user db u))"
  by (simp add: quiet_def)

lemma offer_quiet: "offer e sh u c db = Inr (a, db') \<Longrightarrow> quiet db db' \<and> accesses db' = accesses db"
  by (erule offer_cases) (simp_all add: quiet_def)

lemma accept_order_quiet: "accept_order e sh u c a db = Inr (r, db') \<Longrightarrow> quiet db db' \<and> accesses db' = accesses db"
proof (erule accept_order_cases)
  fix p
  assume "db' = (snd (lock_user db u))\<lparr>purchases := modify_by cp_id (cp_id p) (accept_row u (co_id c) a) (purchases db)\<rparr>"
  then show ?thesis by (simp add: quiet_def)
qed (simp_all add: quiet_def)

lemma report_order_quiet: "report_order sh i db = Inr (x, db') \<Longrightarrow> quiet db db' \<and> accesses db' = accesses db"
  by (erule report_order_cases) (simp_all add: quiet_def)

lemma deliver_commit_quiet:
  assumes "deliver_commit e sh i db = Inr (b, db')"
  shows "quiet db db'"
  using assms
proof (cases rule: deliver_commit_cases)
  case (change p p')
  then show ?thesis by (auto simp: quiet_def)
next
  case (access p p' v)
  then show ?thesis by (auto simp: quiet_def)
qed (simp_all add: quiet_def)

lemma rights_ok_quiet:
  assumes "quiet db db'" "rights_ok db"
  shows "rights_ok db'"
proof -
  have "right_ok db' r" if "right_ok db r" for r
    by (rule right_ok_mono [OF that]) (use assms(1) in \<open>auto simp: quiet_def has_access_iff\<close>)
  moreover have "grant_ok db' = grant_ok db" using assms(1) by (intro ext) (simp add: grant_ok_def quiet_def)
  ultimately show ?thesis using assms by (auto simp: rights_ok_def quiet_def list_all_iff)
qed

lemma title_step_rights:
  assumes "title_step db db'" "rights_ok db"
  shows "rights_ok db'" "original ` set (rights db) \<subseteq> original ` set (rights db')"
proof -
  have "rights_ok db' \<and> original ` set (rights db) \<subseteq> original ` set (rights db')"
    using assms(1)
  proof cases
    case by_continuation
    then show ?thesis using deliver_right_rights_ok [OF _ assms(2)] deliver_right_originals by blast
  next
    case by_erasure
    then show ?thesis using delete_user_data_rights_ok [OF _ assms(2)] delete_user_data_originals by blast
  next
    case by_other_work
    then have "quiet db db'" by (simp add: quiet_def)
    with rights_ok_quiet assms(2) show ?thesis by (simp add: quiet_def)
  qed (use offer_quiet accept_order_quiet deliver_commit_quiet report_order_quiet rights_ok_quiet [OF _ assms(2)] in
    \<open>auto simp: quiet_def\<close>)
  then show "rights_ok db'" "original ` set (rights db) \<subseteq> original ` set (rights db')" by auto
qed

definition settled :: "course_purchase \<Rightarrow> bool" where
  "settled p \<longleftrightarrow> cp_state p \<notin> {''offered'', ''prepared'', ''paid''}"

lemma put_other:
  assumes "orders_ok db" "row_by cp_id i (purchases db) = Some q" "cp_id q' = i" "p \<in> set (purchases db)" "p \<noteq> q"
  shows "p \<in> set (purchases (put_order q' db))"
proof -
  have "row_by cp_id (cp_id q') (purchases db) = Some q" using assms(2,3) by simp
  from set_put_order [OF assms(1) this] assms(4,5) show ?thesis by simp
qed

lemma title_step_settled:
  assumes "title_step db db'" "orders_ok db" "p \<in> set (purchases db)" "settled p"
  shows "p \<in> set (purchases db') \<or> p\<lparr>cp_reported := True\<rparr> \<in> set (purchases db')"
  using assms(1)
proof cases
  case (by_offer e sh u c a)
  from by_offer assms(3) show ?thesis by (cases rule: offer_cases) (auto simp: row_simps)
next
  case (by_acceptance e sh u c acc r)
  from by_acceptance show ?thesis
  proof (cases rule: accept_order_cases)
    case (first q)
    define db1 where "db1 = snd (lock_user db u)"
    have ok1: "orders_ok db1" and same: "purchases db1 = purchases db" using assms(2) by (simp_all add: db1_def)
    have row: "row_by cp_id (cp_id q) (purchases db1) = Some q"
      using unique_by_row [OF orders_okD(1) [OF assms(2)] first(1)] by (simp add: same)
    have db': "db' = put_order (accept_row u (co_id c) acc q) db1"
      using first(9) accept_row_put [OF row orders_okD(1) [OF ok1]] by (simp add: db1_def)
    have "p \<noteq> q" using exact_acceptance_Inr(1) [OF first(6)] assms(4) by (auto simp: settled_def)
    then show ?thesis unfolding db' using assms(3)
      by (intro disjI1 put_other [OF ok1 row]) (simp_all add: accept_row_def same)
  qed (use assms(3) in auto)
next
  case (by_delivery e sh i b)
  from by_delivery show ?thesis
  proof (cases rule: deliver_commit_cases)
    case (change q q')
    have ids: "cp_id q' = i" using change(3) row_by_SomeD [OF change(1)] by (simp add: moved_def)
    have "p \<noteq> q" using change(2) assms(4) by (auto simp: settled_def)
    have "p \<in> set (purchases (put_order q' d))" if "orders_ok d" "purchases d = purchases db" for d
      by (rule put_other [OF that(1) _ ids _ \<open>p \<noteq> q\<close>]) (use that(2) change(1) assms(3) in simp_all)
    from this [of "snd (lock_user db (cp_user q))"] this [of "set_deleted (snd (lock_user db (cp_user q))) (cp_user q)"]
    show ?thesis using change(4) assms(2) by auto
  next
    case (access q q' v)
    have ids: "cp_id q' = i" using access(3) row_by_SomeD [OF access(1)] by (simp add: moved_def)
    have "p \<noteq> q" using access(2) assms(4) by (auto simp: settled_def)
    have "p \<in> set (purchases (put_order q' (snd (lock_user db (cp_user q)))))"
      by (rule put_other [OF _ _ ids _ \<open>p \<noteq> q\<close>]) (use access(1) assms(2,3) in simp_all)
    then show ?thesis by (simp add: access(9))
  qed (use assms(3) in auto)
next
  case (by_report sh i x)
  from by_report show ?thesis
  proof (cases rule: report_order_cases)
    case 1
    with assms(3) show ?thesis by simp
  next
    case (2 q)
    have row: "row_by cp_id (cp_id (q\<lparr>cp_reported := True\<rparr>)) (purchases db) = Some q"
      using 2(1) row_by_SomeD [OF 2(1)] by simp
    from set_put_order [OF assms(2) row] assms(3) show ?thesis unfolding 2(3) by (cases "p = q") auto
  qed
next
  case (by_continuation e ce source gid d)
  have "purchases db' = purchases db"
    using by_continuation by (cases rule: deliver_right_cases) (auto elim!: continue_right_cases)
  with assms(3) show ?thesis by simp
next
  case (by_erasure e u x)
  have "cp_state p \<notin> {''prepared'', ''paid''}" using assms(4) by (simp add: settled_def)
  then have "p = (if cp_user p = u \<and> cp_state p \<in> {''prepared'', ''paid''} then p\<lparr>cp_state := ''review''\<rparr> else p)" by simp
  then have "p \<in> (\<lambda>p. if cp_user p = u \<and> cp_state p \<in> {''prepared'', ''paid''} then p\<lparr>cp_state := ''review''\<rparr> else p) `
      set (purchases db)" using assms(3) by (rule image_eqI [where x = p])
  then have "p \<in> set (purchases (suspend_purchases u db))"
    by (simp add: suspend_purchases_def set_update_rows)
  with delete_user_data_purchases [OF by_erasure] show ?thesis by simp
next
  case by_other_work
  with assms(3) show ?thesis by simp
qed

lemma settled_reported [simp]: "settled (p\<lparr>cp_reported := r\<rparr>) = settled p"
  by (simp add: settled_def)

lemma title_run_orders: "title_run db db' \<Longrightarrow> orders_ok db \<Longrightarrow> orders_ok db'"
  by (induction rule: rtranclp_induct) (auto intro: title_step_orders)

lemma title_run_settled:
  assumes "title_run db db'" "orders_ok db" "p \<in> set (purchases db)" "settled p"
  shows "p \<in> set (purchases db') \<or> p\<lparr>cp_reported := True\<rparr> \<in> set (purchases db')"
  using assms(1)
proof (induction rule: rtranclp_induct)
  case base
  with assms(3) show ?case by simp
next
  case (step db1 db2)
  have ok: "orders_ok db1" by (rule title_run_orders [OF step.hyps(1) assms(2)])
  from step.IH show ?case
  proof
    assume "p \<in> set (purchases db1)"
    from title_step_settled [OF step.hyps(2) ok this assms(4)] show ?thesis .
  next
    assume "p\<lparr>cp_reported := True\<rparr> \<in> set (purchases db1)"
    from title_step_settled [OF step.hyps(2) ok this] assms(4) show ?thesis by simp
  qed
qed

section \<open>Titles\<close>

definition bought :: "database \<Rightarrow> string \<Rightarrow> string \<Rightarrow> bool" where
  "bought db u c \<longleftrightarrow> (\<exists>p\<in>set (purchases db). cp_user p = u \<and> cp_course p = c \<and> provided p \<and> accepted_exactly p)"

definition continued :: "database \<Rightarrow> string \<Rightarrow> string \<Rightarrow> bool" where
  "continued db u c \<longleftrightarrow> (\<exists>r\<in>set (rights db). rr_subject r = Some u \<and> rr_course r = c \<and> erased db (rr_source r))"

definition titled :: "course_access set \<Rightarrow> database \<Rightarrow> bool" where
  "titled A db \<longleftrightarrow> (\<forall>a\<in>set (accesses db). a \<in> A \<or> bought db (ca_user a) (ca_course a) \<or> continued db (ca_user a) (ca_course a))"

lemma provided_settled: "provided p \<Longrightarrow> settled p"
  by (simp add: provided_def settled_def)

lemma bought_step:
  assumes "title_step db db'" "orders_ok db" "bought db u c"
  shows "bought db' u c"
proof -
  from assms(3) obtain p where p: "p \<in> set (purchases db)" "cp_user p = u" "cp_course p = c" "provided p" "accepted_exactly p"
    by (auto simp: bought_def)
  have same: "provided (p\<lparr>cp_reported := True\<rparr>) = provided p" "accepted_exactly (p\<lparr>cp_reported := True\<rparr>) = accepted_exactly p"
    by (simp_all add: accepted_exactly_def provided_def split: option.split)
  from title_step_settled [OF assms(1,2) p(1) provided_settled [OF p(4)]] show ?thesis
  proof
    assume "p \<in> set (purchases db')"
    with p show ?thesis unfolding bought_def by blast
  next
    assume "p\<lparr>cp_reported := True\<rparr> \<in> set (purchases db')"
    moreover have "cp_user (p\<lparr>cp_reported := True\<rparr>) = u" "cp_course (p\<lparr>cp_reported := True\<rparr>) = c" using p by simp_all
    ultimately show ?thesis using p(4,5) same unfolding bought_def by blast
  qed
qed

lemma continued_quiet: "quiet db db' \<Longrightarrow> continued db u c \<Longrightarrow> continued db' u c"
  by (auto simp: quiet_def continued_def)

lemma titled_quiet:
  assumes "titled A db" "title_step db db'" "orders_ok db" "quiet db db'" "set (accesses db') \<subseteq> set (accesses db) \<union> N"
    "\<And>a. a \<in> N \<Longrightarrow> bought db' (ca_user a) (ca_course a)"
  shows "titled A db'"
  unfolding titled_def
proof
  fix a assume "a \<in> set (accesses db')"
  with assms(5) consider "a \<in> N" | "a \<in> set (accesses db)" by blast
  then show "a \<in> A \<or> bought db' (ca_user a) (ca_course a) \<or> continued db' (ca_user a) (ca_course a)"
  proof cases
    case 1
    with assms(6) show ?thesis by blast
  next
    case 2
    with assms(1) have "a \<in> A \<or> bought db (ca_user a) (ca_course a) \<or> continued db (ca_user a) (ca_course a)"
      unfolding titled_def by blast
    with bought_step [OF assms(2,3)] continued_quiet [OF assms(4)] show ?thesis by blast
  qed
qed

lemma erased_grants [simp]: "erased (db\<lparr>grants := t\<rparr>) u = erased db u"
  by (simp add: erased_def)

lemma titled_continuation:
  assumes "titled A db" "orders_ok db" "rights_ok db" "deliver_right e ce source gid db = Inr (d, db')"
  shows "titled A db'"
  unfolding titled_def
proof
  fix a assume a: "a \<in> set (accesses db')"
  have st: "title_step db db'" by (rule by_continuation [OF assms(4)])
  from assms(4) have "a \<in> set (accesses db) \<and> (\<forall>u c. continued db u c \<longrightarrow> continued db' u c) \<or>
      continued db' (ca_user a) (ca_course a) \<or> a \<in> set (accesses db) \<and> (\<forall>u c. continued db u c \<longrightarrow> continued db' u c)"
  proof (cases rule: deliver_right_cases)
    case (replay g)
    with a show ?thesis using continued_quiet [OF quiet_lock] by auto
  next
    case (continue subject scope contract)
    define db1 where "db1 = snd (lock_user db subject)"
    have uni: "unique_by rr_id (rights db1)" using assms(3) by (simp add: db1_def rights_ok_def)
    from continue(3) [folded db1_def] show ?thesis
    proof (cases rule: continue_right_cases)
      case (1 r)
      have er: "erased db' v = erased db v" for v by (simp add: 1(8) db1_def)
      have new: "r\<lparr>rr_subject := Some subject\<rparr> \<in> set (rights db')"
        using 1(1) by (auto simp: 1(8) modify_by_def set_update_rows)
      have keep: "continued db' u c" if "continued db u c" for u c
      proof -
        from that obtain x where x: "x \<in> set (rights db1)" "rr_subject x = Some u" "rr_course x = c" "erased db (rr_source x)"
          by (auto simp: continued_def db1_def)
        show ?thesis
        proof (cases "x = r")
          case True
          with x 1(4) new show ?thesis unfolding continued_def er by (intro bexI [OF _ new]) auto
        next
          case False
          then have "rr_id x \<noteq> rr_id r" using unique_by_inj [OF uni x(1) 1(1)] by blast
          then have "x \<in> set (rights db')" using x(1)
            by (simp add: 1(8) modify_by_def set_update_rows)
          with x show ?thesis unfolding continued_def er by blast
        qed
      qed
      have "continued db' subject (rr_course r)"
        unfolding continued_def er using 1(2,3) by (intro bexI [OF _ new]) (simp_all add: db1_def)
      moreover from a have "a = \<lparr>ca_user = subject, ca_course = rr_course r\<rparr> \<or> a \<in> set (accesses db)"
        by (auto simp: 1(8) db1_def)
      ultimately show ?thesis using keep by auto
    qed
  qed
  then show "a \<in> A \<or> bought db' (ca_user a) (ca_course a) \<or> continued db' (ca_user a) (ca_course a)"
    using assms(1) bought_step [OF st assms(2)] unfolding titled_def by blast
qed

lemma titled_erasure:
  assumes "titled A db" "orders_ok db" "delete_user_data e u db = Inr (x, db')"
  shows "titled A db'"
  unfolding titled_def
proof
  fix a assume a: "a \<in> set (accesses db')"
  have st: "title_step db db'" by (rule by_erasure [OF assms(3)])
  have "a \<in> set (accesses db) \<and> (continued db (ca_user a) (ca_course a) \<longrightarrow> continued db' (ca_user a) (ca_course a))"
    using assms(3)
  proof (cases rule: delete_user_data_cases)
    case (1 new db1)
    have ac: "accesses db' = delete_rows (\<lambda>r. ca_user r = u) (accesses db)"
      by (simp add: 1 delete_user_rows_def)
    have er: "erased db v \<Longrightarrow> erased db' v" for v by (simp add: 1)
    from a ac have other: "ca_user a \<noteq> u" "a \<in> set (accesses db)" by (auto simp: row_simps)
    have "continued db' (ca_user a) c" if "continued db (ca_user a) c" for c
    proof -
      from that obtain r where r: "r \<in> set (rights db)" "rr_subject r = Some (ca_user a)" "rr_course r = c" "erased db (rr_source r)"
        by (auto simp: continued_def)
      have "r \<in> set (rights db1)" unfolding 1(1) release_rights_def using r(1,2) other(1)
        by (simp add: set_update_rows)
      then have "r \<in> set (rights db')" by (simp add: 1(2))
      with r er show ?thesis unfolding continued_def by blast
    qed
    with other show ?thesis by blast
  qed
  then show "a \<in> A \<or> bought db' (ca_user a) (ca_course a) \<or> continued db' (ca_user a) (ca_course a)"
    using assms(1) bought_step [OF st assms(2)] unfolding titled_def by blast
qed

lemma title_step_titled:
  assumes "title_step db db'" "orders_ok db" "rights_ok db" "titled A db"
  shows "titled A db'"
  using assms(1)
proof cases
  case (by_offer e sh u c a)
  with offer_quiet [OF by_offer] show ?thesis by (intro titled_quiet [OF assms(4,1,2), of "{}"]) auto
next
  case (by_acceptance e sh u c acc r)
  with accept_order_quiet [OF by_acceptance] show ?thesis by (intro titled_quiet [OF assms(4,1,2), of "{}"]) auto
next
  case (by_report sh i x)
  with report_order_quiet [OF by_report] show ?thesis by (intro titled_quiet [OF assms(4,1,2), of "{}"]) auto
next
  case (by_delivery e sh i b)
  note q = deliver_commit_quiet [OF by_delivery]
  from by_delivery show ?thesis
  proof (cases rule: deliver_commit_cases)
    case (change p p')
    then show ?thesis by (intro titled_quiet [OF assms(4,1,2) q, of "{}"]) auto
  next
    case (access p p' v)
    have ids: "cp_id p' = i" "cp_user p' = cp_user p" "cp_course p' = cp_course p"
      using access(3) row_by_SomeD [OF access(1)] by (simp_all add: moved_def)
    have row: "row_by cp_id (cp_id p') (purchases (snd (lock_user db (cp_user p)))) = Some p" using access(1) ids(1) by simp
    have "orders_ok (snd (lock_user db (cp_user p)))" using assms(2) by simp
    from set_put_order [OF this row] have "p' \<in> set (purchases db')" by (simp add: access(9))
    moreover have "accepted_exactly p'"
    proof -
      have "order_ok p'" using title_step_orders [OF assms(1,2)] \<open>p' \<in> _\<close> orders_okD(2) by blast
      moreover have "cp_state p' \<in> live_states" using access(4) by (simp add: provided_def)
      ultimately show ?thesis by (auto simp: order_ok_def)
    qed
    ultimately have "bought db' (cp_user p) (cp_course p)" using access(4) ids unfolding bought_def by auto
    then show ?thesis
      by (intro titled_quiet [OF assms(4,1,2) q, of "{\<lparr>ca_user = cp_user p, ca_course = cp_course p\<rparr>}"])
        (auto simp: access(9))
  next
    case (keep u)
    with q show ?thesis by (intro titled_quiet [OF assms(4,1,2), of "{}"]) auto
  next
    case gone
    with q show ?thesis by (intro titled_quiet [OF assms(4,1,2), of "{}"]) auto
  qed
next
  case (by_continuation e ce source gid d)
  with titled_continuation assms(2-4) show ?thesis by blast
next
  case (by_erasure e u x)
  with titled_erasure assms(2,4) show ?thesis by blast
next
  case by_other_work
  then have "quiet db db'" by (simp add: quiet_def)
  with by_other_work show ?thesis by (intro titled_quiet [OF assms(4,1,2), of "{}"]) auto
qed

lemma title_run_ok:
  assumes "title_run db db'" "orders_ok db" "rights_ok db"
  shows "orders_ok db' \<and> rights_ok db' \<and> original ` set (rights db) \<subseteq> original ` set (rights db') \<and>
    titled (set (accesses db)) db'"
  using assms(1)
proof (induction rule: rtranclp_induct)
  case base
  then show ?case using assms(2,3) by (simp add: titled_def)
next
  case (step db1 db2)
  then have ok: "orders_ok db1" "rights_ok db1" "titled (set (accesses db)) db1" by auto
  note s = title_step_rights [OF step.hyps(2) ok(2)]
  from title_step_orders [OF step.hyps(2) ok(1)] title_step_titled [OF step.hyps(2) ok] s step.IH show ?case by blast
qed

section \<open>Recovery\<close>

lemma deliver_commit_erased:
  assumes "deliver_commit e sh i db = Inr (b, db')" "en_user_status e u = 200"
  shows "erased db' u = erased db u"
proof (cases "row_by cp_id i (purchases db)")
  case None
  with assms show ?thesis by (simp add: deliver_commit_def)
next
  case (Some p)
  have t: "erased d' v = erased d v" if "take_answer e p st body d = Inr (x, d')" for st body d d' x v
    using that by (auto simp: take_answer_def result_simps split: if_splits)
  from assms Some show ?thesis
    by (auto simp: deliver_commit_def case_prod_beta Let_def result_simps t split: if_splits)
qed

lemma deliver_order_steps:
  assumes "orders_ok db"
  shows "title_run db (snd (deliver_order e sh i db))"
proof (cases "deliver_commit e sh i db")
  case (Inr x)
  obtain rep db1 where c: "deliver_commit e sh i db = Inr (rep, db1)" using Inr by (cases x) auto
  then have s: "title_step db db1" by (rule by_delivery)
  show ?thesis
  proof (cases "rep \<and> (\<exists>y. report_order sh i db1 = Inr y)")
    case True
    then obtain x db2 where r: "report_order sh i db1 = Inr (x, db2)" by auto
    then have "title_step db1 db2" by (rule by_report)
    with s c r True show ?thesis by (auto simp: deliver_order_def intro: rtranclp.rtrancl_into_rtrancl)
  next
    case False
    with c have "snd (deliver_order e sh i db) = db1" by (cases "report_order sh i db1") (auto simp: deliver_order_def)
    with s show ?thesis by auto
  qed
qed (simp add: deliver_order_def)

text \<open>After the delivery of a paid order, whatever follows, and before it, whatever precedes.\<close>

definition done_order :: "course_purchase \<Rightarrow> database \<Rightarrow> bool" where
  "done_order p db \<longleftrightarrow> orders_ok db \<and> settled p \<and> (p \<in> set (purchases db) \<or> p\<lparr>cp_reported := True\<rparr> \<in> set (purchases db))"

lemma done_order_run: "title_run db db' \<Longrightarrow> done_order p db \<Longrightarrow> done_order p db'"
  using title_run_settled [of db db' p] title_run_settled [of db db' "p\<lparr>cp_reported := True\<rparr>"] title_run_orders [of db db']
  by (auto simp: done_order_def)

lemma deliver_order_accesses: "set (accesses db) \<subseteq> set (accesses (snd (deliver_order e sh i db)))"
proof (cases "deliver_commit e sh i db")
  case (Inr x)
  obtain rep db1 where c: "deliver_commit e sh i db = Inr (rep, db1)" using Inr by (cases x) auto
  have "set (accesses db) \<subseteq> set (accesses db1)" using deliver_commit_quiet [OF c] by (simp add: quiet_def)
  with c show ?thesis
    by (auto simp: deliver_order_def report_order_quiet split: sum.split dest!: report_order_quiet)
qed (simp add: deliver_order_def)

lemma deliver_order_other:
  assumes "orders_ok db" "p \<in> set (purchases db)" "cp_id p \<noteq> i" "en_user_status e (cp_user p) = 200"
  shows "p \<in> set (purchases (snd (deliver_order e sh i db))) \<and>
    erased (snd (deliver_order e sh i db)) (cp_user p) = erased db (cp_user p)"
proof (cases "deliver_commit e sh i db")
  case (Inr x)
  obtain rep db1 where c: "deliver_commit e sh i db = Inr (rep, db1)" using Inr by (cases x) auto
  have put: "p \<in> set (purchases (put_order q' d))"
    if "orders_ok d" "row_by cp_id i (purchases d) = Some q" "cp_id q' = i" "p \<in> set (purchases d)" for q q' d
    by (rule put_other [OF that]) (use row_by_SomeD [OF that(2)] assms(3) in auto)
  have p1: "p \<in> set (purchases db1)" using c
  proof (cases rule: deliver_commit_cases)
    case (change q q')
    have "cp_id q' = i" using change(3) row_by_SomeD [OF change(1)] by (simp add: moved_def)
    with put [of "snd (lock_user db (cp_user q))" q q'] put [of "set_deleted (snd (lock_user db (cp_user q))) (cp_user q)" q q']
      change(1,4) assms(1,2) show ?thesis by auto
  next
    case (access q q' v)
    have "cp_id q' = i" using access(3) row_by_SomeD [OF access(1)] by (simp add: moved_def)
    with put [of "snd (lock_user db (cp_user q))" q q'] access(1,9) assms(1,2) show ?thesis by simp
  qed (use assms(2) in auto)
  note er = deliver_commit_erased [OF c assms(4)]
  have ok1: "orders_ok db1" by (rule title_step_orders [OF by_delivery [OF c] assms(1)])
  show ?thesis
  proof (cases "rep \<and> (\<exists>y. report_order sh i db1 = Inr y)")
    case True
    then obtain x db2 where r: "report_order sh i db1 = Inr (x, db2)" by auto
    have "p \<in> set (purchases db2) \<and> erased db2 (cp_user p) = erased db1 (cp_user p)"
      using r
    proof (cases rule: report_order_cases)
      case (2 q)
      with put [OF ok1 2(1) _ p1, of "q\<lparr>cp_reported := True\<rparr>"] row_by_SomeD [OF 2(1)] show ?thesis by simp
    qed (use p1 in simp)
    with c r True er show ?thesis by (simp add: deliver_order_def)
  next
    case False
    with c have "snd (deliver_order e sh i db) = db1" by (cases "report_order sh i db1") (auto simp: deliver_order_def)
    with p1 er show ?thesis by simp
  qed
qed (use assms(2) in \<open>simp add: deliver_order_def\<close>)

lemma deliver_order_own:
  assumes "orders_ok db" "p \<in> set (purchases db)" "cp_state p \<in> {''prepared'', ''paid''}" "\<not> erased db (cp_user p)"
    "en_user_status e (cp_user p) = 200" "sh_buy sh (cp_user p) (cp_acceptance p) = Reply 200 (Some v)"
    "outcome_order e v p = Inr (p', True)"
  shows "done_order p' (snd (deliver_order e sh (cp_id p) db)) \<and>
    has_access_row (snd (deliver_order e sh (cp_id p) db)) (cp_user p) (cp_course p)"
proof -
  define db1 where "db1 = snd (lock_user db (cp_user p))"
  define db2 where "db2 = grant_access (cp_user p) (cp_course p) (put_order p' db1)"
  have row: "row_by cp_id (cp_id p) (purchases db) = Some p" by (rule unique_by_row [OF orders_okD(1) [OF assms(1)] assms(2)])
  note m = outcome_order_moved [OF assms(7)]
  have pr: "provided p'" using m(2) by simp
  then have st: "cp_state p' = ''fulfilled''" by (simp add: provided_def)
  have nots: "cp_state p \<noteq> ''fulfilled''" "(cp_state p \<noteq> ''prepared'' \<and> cp_state p \<noteq> ''paid'') = False" using assms(3) by auto
  have hook: "hook_raises 200 = False" by (simp add: hook_raises_def)
  have ta: "take_answer e p 200 (Some v) db1 = Inr (True, db2)"
    using assms(7) st by (simp add: take_answer_def body_of_def db2_def)
  have an: "answer_of (sh_buy sh (cp_user p) (cp_acceptance p)) = Inr (200, Some v)"
    using assms(6) hook by (simp add: answer_of_def)
  have c: "deliver_commit e sh (cp_id p) db = Inr (True, db2)"
    using row nots hook assms(4,5) an ta by (simp add: deliver_commit_def case_prod_beta Let_def db1_def)
  have "orders_ok db2" by (rule title_step_orders [OF by_delivery [OF c] assms(1)])
  have ids: "cp_id p' = cp_id p" using m(1) by (simp add: moved_def)
  have "orders_ok db1" "row_by cp_id (cp_id p') (purchases db1) = Some p" using assms(1) row ids by (simp_all add: db1_def)
  from set_put_order [OF this] have "p' \<in> set (purchases db2)" by (simp add: db2_def)
  with \<open>orders_ok db2\<close> provided_settled [OF pr] have d2: "done_order p' db2" by (simp add: done_order_def)
  have a2: "has_access_row db2 (cp_user p) (cp_course p)" by (simp add: has_access_iff db2_def)
  show ?thesis
  proof (cases "\<exists>y. report_order sh (cp_id p) db2 = Inr y")
    case True
    then obtain x db3 where r: "report_order sh (cp_id p) db2 = Inr (x, db3)" by auto
    have "title_run db2 db3" using by_report [OF r] by auto
    from done_order_run [OF this d2] report_order_quiet [OF r] a2 c r show ?thesis
      by (simp add: deliver_order_def has_access_iff)
  next
    case False
    with c have "snd (deliver_order e sh (cp_id p) db) = db2"
      by (cases "report_order sh (cp_id p) db2") (auto simp: deliver_order_def)
    with d2 a2 show ?thesis by simp
  qed
qed

lemma recover_done:
  assumes "done_order p db" "has_access_row db u c"
  shows "done_order p (fold (\<lambda>i db. snd (deliver_order e sh i db)) is db) \<and>
    has_access_row (fold (\<lambda>i db. snd (deliver_order e sh i db)) is db) u c"
  using assms
proof (induction "is" arbitrary: db)
  case (Cons i "is")
  have "done_order p (snd (deliver_order e sh i db))"
    by (rule done_order_run [OF deliver_order_steps Cons.prems(1)]) (use Cons.prems(1) in \<open>simp add: done_order_def\<close>)
  moreover have "has_access_row (snd (deliver_order e sh i db)) u c"
    using Cons.prems(2) subsetD [OF deliver_order_accesses] by (simp add: has_access_iff)
  ultimately show ?case using Cons.IH by simp
qed simp

lemma recover_reaches:
  assumes "cp_id p \<in> set is" "orders_ok db" "p \<in> set (purchases db)" "cp_state p \<in> {''prepared'', ''paid''}"
    "\<not> erased db (cp_user p)" "en_user_status e (cp_user p) = 200"
    "sh_buy sh (cp_user p) (cp_acceptance p) = Reply 200 (Some v)" "outcome_order e v p = Inr (p', True)"
  shows "done_order p' (fold (\<lambda>i db. snd (deliver_order e sh i db)) is db) \<and>
    has_access_row (fold (\<lambda>i db. snd (deliver_order e sh i db)) is db) (cp_user p) (cp_course p)"
  using assms(1-5)
proof (induction "is" arbitrary: db)
  case (Cons i "is")
  show ?case
  proof (cases "i = cp_id p")
    case True
    have "done_order p' (snd (deliver_order e sh (cp_id p) db))"
      "has_access_row (snd (deliver_order e sh (cp_id p) db)) (cp_user p) (cp_course p)"
      using deliver_order_own [OF Cons.prems(2-5) assms(6-8)] by auto
    from recover_done [OF this] True show ?thesis by simp
  next
    case False
    with deliver_order_other [OF Cons.prems(2,3) _ assms(6)] Cons.prems(5)
    have "p \<in> set (purchases (snd (deliver_order e sh i db)))" "\<not> erased (snd (deliver_order e sh i db)) (cp_user p)" by auto
    moreover have "orders_ok (snd (deliver_order e sh i db))"
      by (rule title_run_orders [OF deliver_order_steps [OF Cons.prems(2)] Cons.prems(2)])
    ultimately show ?thesis using Cons.IH Cons.prems(1,4) False by simp
  qed
qed simp
section \<open>Purchases and rights over every history\<close>

text \<open>
  C9: one order per course. In every history of offers, acceptances, deliveries, reports, continuations and erasures,
  whatever the shop answers, a learner has at most one order for a course that is prepared, paid, under review or
  fulfilled; every such order was accepted exactly as offered.
\<close>

theorem one_live_order_per_course:
  assumes "title_run db db'" "orders_ok db"
  shows "orders_ok db' \<and> (\<forall>p\<in>set (purchases db'). cp_state p \<in> live_states \<longrightarrow> accepted_exactly p) \<and>
    (\<forall>p\<in>set (purchases db'). \<forall>q\<in>set (purchases db'). cp_state p \<in> live_states \<and> cp_state q \<in> live_states \<and>
      cp_user p = cp_user q \<and> cp_course p = cp_course q \<longrightarrow> p = q)"
proof -
  have ok: "orders_ok db'" by (rule title_run_orders [OF assms])
  have live: "accepted_exactly p \<and> cp_active_key p = Some (owner_key (cp_user p) (cp_course p))"
    if "p \<in> set (purchases db')" "cp_state p \<in> live_states" for p
    using orders_okD(2) [OF ok that(1)] that(2) unfolding order_ok_def by blast
  have "p = q" if "p \<in> set (purchases db')" "q \<in> set (purchases db')" "cp_state p \<in> live_states"
    "cp_state q \<in> live_states" "cp_user p = cp_user q" "cp_course p = cp_course q" for p q
  proof -
    have "cp_active_key p = cp_active_key q" "cp_active_key p \<noteq> None"
      using live [OF that(1,3)] live [OF that(2,4)] that(5,6) by simp_all
    then have "cp_id p = cp_id q" using orders_okD(3) [OF ok] that(1,2) unfolding one_key_def by blast
    with unique_by_inj [OF orders_okD(1) [OF ok] that(1,2)] show ?thesis by blast
  qed
  with ok live show ?thesis by blast
qed

text \<open>
  C23: a settled order stays. Once an order is fulfilled, failed or under review, no later transaction changes anything
  of it but the mark that its delivery was reported, and delivering it again grants nothing.
\<close>

theorem settled_orders_stay:
  assumes "title_run db db'" "orders_ok db" "p \<in> set (purchases db)" "settled p"
  shows "(p \<in> set (purchases db') \<or> p\<lparr>cp_reported := True\<rparr> \<in> set (purchases db')) \<and>
    (\<forall>e sh b db''. deliver_commit e sh (cp_id p) db' = Inr (b, db'') \<longrightarrow> accesses db'' = accesses db')"
proof -
  note s = title_run_settled [OF assms]
  have uni: "unique_by cp_id (purchases db')" by (rule orders_okD(1) [OF title_run_orders [OF assms(1,2)]])
  from s obtain q where q: "q \<in> set (purchases db')" "settled q" "cp_id q = cp_id p"
    using assms(4) by (cases "p \<in> set (purchases db')") auto
  have row: "row_by cp_id (cp_id p) (purchases db') = Some q" using unique_by_row [OF uni q(1)] q(3) by simp
  have nq: "cp_state q \<notin> {''prepared'', ''paid''}" using q(2) by (simp add: settled_def)
  have "accesses db'' = accesses db'" if "deliver_commit e sh (cp_id p) db' = Inr (b, db'')" for e sh b db''
    using that by (cases rule: deliver_commit_cases) (use row nq in auto)
  with s show ?thesis by blast
qed


text \<open>
  C20: a preserved right serves one learner at a time and is never lost. In every such history all rights stay as they
  were observed; two deliveries of one right that are both granted name the same learner; and that learner has the
  course while the account the right comes from is erased.
\<close>

theorem rights_serve_one_learner:
  assumes "title_run db db'" "orders_ok db" "rights_ok db"
  shows "original ` set (rights db) \<subseteq> original ` set (rights db') \<and>
    (\<forall>g\<in>set (grants db'). \<forall>g'\<in>set (grants db'). gr_state g = ''granted'' \<and> gr_state g' = ''granted'' \<and> gr_right g = gr_right g' \<longrightarrow>
      gr_subject g = gr_subject g') \<and>
    (\<forall>g\<in>set (grants db'). gr_state g = ''granted'' \<longrightarrow> has_access_row db' (gr_subject g) (gs_course (gr_result g)) \<and>
      (\<exists>r\<in>set (rights db'). rr_id r = gr_right g \<and> erased db' (rr_source r)))"
proof -
  from title_run_ok [OF assms] have ok: "rights_ok db'" and kept: "original ` set (rights db) \<subseteq> original ` set (rights db')"
    by auto
  have g: "\<exists>r\<in>set (rights db'). rr_id r = gr_right g \<and> rr_subject r = Some (gr_subject g) \<and>
      has_access_row db' (gr_subject g) (gs_course (gr_result g)) \<and> erased db' (rr_source r)"
    if "g \<in> set (grants db')" "gr_state g = ''granted''" for g
  proof -
    from ok that have "grant_ok db' g" by (simp add: rights_ok_def list_all_iff)
    with that(2) obtain r where r: "r \<in> set (rights db')" "rr_id r = gr_right g" "rr_subject r = Some (gr_subject g)"
      "rr_course r = gs_course (gr_result g)" by (auto simp: grant_ok_def)
    with ok have "right_ok db' r" by (simp add: rights_ok_def list_all_iff)
    with r show ?thesis by (auto simp: right_ok_def)
  qed
  have "gr_subject g = gr_subject g'" if "g \<in> set (grants db')" "g' \<in> set (grants db')" "gr_state g = ''granted''"
    "gr_state g' = ''granted''" "gr_right g = gr_right g'" for g g'
  proof -
    from g [OF that(1,3)] g [OF that(2,4)] that(5) obtain r r' where "r \<in> set (rights db')" "r' \<in> set (rights db')"
      "rr_id r = rr_id r'" "rr_subject r = Some (gr_subject g)" "rr_subject r' = Some (gr_subject g')" by metis
    with unique_by_inj [of rr_id "rights db'" r r'] ok show ?thesis by (simp add: rights_ok_def)
  qed
  with kept g show ?thesis by blast
qed

text \<open>
  C24: recovery delivers what was paid. If the shop confirms an accepted order of a living account as paid in time, then
  one pass of the recovery fulfils it and gives the course, whatever happens to the other open orders in the same pass.
\<close>

theorem recovery_fulfils_paid_orders:
  assumes "orders_ok db" "p \<in> set (purchases db)" "cp_state p \<in> {''prepared'', ''paid''}"
    "\<not> erased db (cp_user p)" "en_user_status e (cp_user p) = 200"
    "sh_buy sh (cp_user p) (cp_acceptance p) = Reply 200 (Some v)" "outcome_order e v p = Inr (p', True)"
  shows "has_access_row (recover_orders e sh db) (cp_user p) (cp_course p) \<and> provided p' \<and>
    (p' \<in> set (purchases (recover_orders e sh db)) \<or> p'\<lparr>cp_reported := True\<rparr> \<in> set (purchases (recover_orders e sh db)))"
proof -
  have "cp_id p \<in> set (open_orders db)" using assms(2,3) by (auto simp: open_orders_def row_simps)
  from recover_reaches [OF this assms] outcome_order_moved(2) [OF assms(7)] show ?thesis
    by (simp add: recover_orders_def done_order_def)
qed

section \<open>Purchases of an erased account\<close>

datatype purchase_request =
    Offer env shop string course
  | Accept env shop string course acceptance
  | Deliver env shop string
  | Report shop string

fun purchase_step :: "purchase_request \<Rightarrow> database \<Rightarrow> database" where
  "purchase_step (Offer e sh u c) db = committed db (offer e sh u c db)"
| "purchase_step (Accept e sh u c a) db = committed db (accept_order e sh u c a db)"
| "purchase_step (Deliver e sh i) db = committed db (deliver_commit e sh i db)"
| "purchase_step (Report sh i) db = committed db (report_order sh i db)"

lemma offer_gone: "offer e sh u c db = Inr (a, db') \<Longrightarrow> gone db v \<Longrightarrow> gone db' v"
  by (erule offer_cases) simp_all

lemma accept_order_gone: "accept_order e sh u c a db = Inr (r, db') \<Longrightarrow> gone db v \<Longrightarrow> gone db' v"
  by (erule accept_order_cases) simp_all

lemma report_order_gone: "report_order sh i db = Inr (x, db') \<Longrightarrow> gone db v \<Longrightarrow> gone db' v"
  by (erule report_order_cases) simp_all

lemma deliver_commit_gone:
  assumes "deliver_commit e sh i db = Inr (b, db')" "gone db v"
  shows "gone db' v"
  using assms(1)
proof (cases rule: deliver_commit_cases)
  case (change p p')
  with assms(2) gone_set_deleted [of "snd (lock_user db (cp_user p))" v "cp_user p"] show ?thesis by auto
next
  case (access p p' w)
  have "v \<noteq> cp_user p" using access(5) gone_erased [OF assms(2)] by blast
  with access(9) assms(2) show ?thesis by (simp add: gone_grant_access)
qed (use assms(2) in simp_all)

interpretation purchase_steps: guarded purchase_step
proof
  fix db u i
  assume "gone db u"
  then show "gone (purchase_step i db) u"
    by (cases i) (auto intro!: gone_committed intro: offer_gone accept_order_gone report_order_gone deliver_commit_gone)
qed

end
