(* ===== verification/Titles_Example.thy ===== *)
theory Titles_Example
  imports Entitlements
begin

text \<open>
  A history of one course: an accepted order is delivered to a learner, whose account is then erased, and the right is
  continued by a new account of the same person. The theorems of \<open>Entitlements\<close> and \<open>Rights\<close> are applied to it.
\<close>

definition paying_shop :: shop where
  "paying_shop = \<lparr>sh_offer = (\<lambda>u d. Reply 200 (Some (jobj [(''state'', js ''offered''),
       (''offer'', jobj [(''id'', js ''o1''), (''hash'', js ''h''), (''product'', d)])]))),
     sh_buy = (\<lambda>u a. Reply 200 (Some (jobj [(''state'', js ''paid''), (''confirmation_smtp_accepted_at'', js ''t'')]))),
     sh_report = (\<lambda>u i f. Reply 200 None), sh_dumps = (\<lambda>v. [])\<rparr>"

definition example_acceptance :: acceptance where
  "example_acceptance = \<lparr>ac_order = ''o1'', ac_hash = ustr ''h'', ac_accepted = True, ac_early = True\<rparr>"

definition waiting_order :: course_purchase where
  "waiting_order = \<lparr>cp_id = ''o1'', cp_user = ''u'', cp_course = ''python'', cp_state = ''prepared'',
     cp_active_key = Some ''u:python'', cp_offer = jobj [(''id'', js ''o1''), (''hash'', js ''h''),
       (''product'', jobj [(''coins'', JInt 500)])],
     cp_acceptance = Some example_acceptance, cp_result = None, cp_created = 900, cp_fulfillment = None, cp_reported = False\<rparr>"

definition accepted_db :: database where
  "accepted_db = empty_db\<lparr>users := [\<lparr>pu_user = ''u'', pu_deleted = False\<rparr>], purchases := [waiting_order]\<rparr>"

definition delivered_db :: database where
  "delivered_db = committed accepted_db (deliver_commit example_env paying_shop ''o1'' accepted_db)"

definition erased_db :: database where
  "erased_db = committed delivered_db (delete_user_data example_env ''u'' delivered_db)"

definition example_claims :: claims_env where
  "example_claims = \<lparr>cl_authority = (\<lambda>n source gid. Reply 200 (Some (jobj [(''id'', js gid), (''source'', js ''skills''),
       (''purpose'', js ''existing_course_continuation''), (''new_purchase'', JBool False),
       (''claimant_authorization'', jobj [(''source_subject'', js source)]), (''successor'', js ''v''),
       (''original_contract'', js ''id''),
       (''original_scope'', original_json \<lparr>cl_authority = (\<lambda>n s g. No_reply), cl_iso = (\<lambda>t. [])\<rparr>
          \<lparr>rv_id = ''id'', rv_source = source, rv_course = ''python'', rv_observed = 1000,
           rv_original = \<lparr>ro_source = source, ro_course = ''python'', ro_access = True, ro_started = False,
             ro_purchases = [''o1'']\<rparr>\<rparr>)]))),
     cl_iso = (\<lambda>t. [])\<rparr>"

definition continued_db :: database where
  "continued_db = committed erased_db (deliver_right example_env example_claims ''u'' ''g1'' erased_db)"

lemma committed_run: "\<not> isl r \<Longrightarrow> \<exists>x. r = Inr (x, committed db r)"
  by (cases r) auto

lemma example_deliver: "\<not> isl (deliver_commit example_env paying_shop ''o1'' accepted_db)"
  by code_simp

lemma example_erase: "\<not> isl (delete_user_data example_env ''u'' delivered_db)"
  by code_simp

lemma example_continue: "\<not> isl (deliver_right example_env example_claims ''u'' ''g1'' erased_db)"
  by code_simp

lemma example_steps:
  "title_step accepted_db delivered_db" "title_step delivered_db erased_db" "title_step erased_db continued_db"
proof -
  show "title_step accepted_db delivered_db" unfolding delivered_db_def
    using committed_run [OF example_deliver] by (blast intro: by_delivery)
  show "title_step delivered_db erased_db" unfolding erased_db_def
    using committed_run [OF example_erase] by (blast intro: by_erasure)
  show "title_step erased_db continued_db" unfolding continued_db_def
    using committed_run [OF example_continue] by (blast intro: by_continuation)
qed

lemma accepted_ok: "orders_ok accepted_db" "rights_ok accepted_db"
  by (simp_all add: orders_ok_def rights_ok_def accepted_db_def empty_db_def unique_by_def one_key_def order_ok_def
    waiting_order_def owner_key_def accepted_exactly_def example_acceptance_def js_def jget_def jobj_def ustr_def)

lemma example_runs: "title_run accepted_db delivered_db" "title_run delivered_db continued_db" "title_run accepted_db continued_db"
  using example_steps by (meson converse_rtranclp_into_rtranclp rtranclp.rtrancl_refl)+

definition example_order :: course_purchase where
  "example_order = hd (purchases delivered_db)"

lemma example_facts:
  "length (purchases delivered_db) = 1" "settled example_order"
  "has_access_row delivered_db ''u'' ''python''" "\<not> has_access_row accepted_db ''u'' ''python''"
  "cp_state example_order = ''fulfilled''"
  by code_simp+

lemma example_order_in: "example_order \<in> set (purchases delivered_db)"
  using example_facts(1) unfolding example_order_def by (intro hd_in_set) auto

lemma waiting_outcome:
  "\<exists>v p. sh_buy paying_shop ''u'' (cp_acceptance waiting_order) = Reply 200 (Some v) \<and>
    outcome_order example_env v waiting_order = Inr (p, True)"
proof -
  define v where "v = jobj [(''state'', js ''paid''), (''confirmation_smtp_accepted_at'', js ''t'')]"
  have "case outcome_order example_env v waiting_order of Inl er \<Rightarrow> False | Inr x \<Rightarrow> snd x"
    unfolding v_def by code_simp
  then obtain p where "outcome_order example_env v waiting_order = Inr (p, True)"
    by (cases "outcome_order example_env v waiting_order") auto
  moreover have "sh_buy paying_shop ''u'' (cp_acceptance waiting_order) = Reply 200 (Some v)"
    by (simp add: paying_shop_def v_def)
  ultimately show ?thesis by blast
qed

definition example_grant :: right_grant where
  "example_grant = hd (grants continued_db)"

lemma example_grant_in: "example_grant \<in> set (grants continued_db)" "gr_state example_grant = ''granted''"
proof -
  have "length (grants continued_db) = 1" by code_simp
  then show "example_grant \<in> set (grants continued_db)" unfolding example_grant_def by (intro hd_in_set) auto
  show "gr_state example_grant = ''granted''" by code_simp
qed

theorem one_live_order_per_course_witness: "orders_ok continued_db \<and> accepted_exactly example_order"
proof -
  have "cp_state example_order \<in> live_states" using example_facts(5) by simp
  then show ?thesis
    using one_live_order_per_course [OF example_runs(3) accepted_ok(1)]
      one_live_order_per_course [OF example_runs(1) accepted_ok(1)] example_order_in by blast
qed

theorem settled_orders_stay_witness:
  "example_order \<in> set (purchases continued_db) \<or> example_order\<lparr>cp_reported := True\<rparr> \<in> set (purchases continued_db)"
  using settled_orders_stay [OF example_runs(2) title_run_orders [OF example_runs(1) accepted_ok(1)] example_order_in example_facts(2)] by blast


theorem rights_serve_one_learner_witness:
  "has_access_row continued_db (gr_subject example_grant) (gs_course (gr_result example_grant)) \<and>
    (\<exists>r\<in>set (rights continued_db). rr_id r = gr_right example_grant)"
  using rights_serve_one_learner [OF example_runs(3) accepted_ok] example_grant_in by blast

theorem recovery_fulfils_paid_orders_witness:
  "has_access_row (recover_orders example_env paying_shop accepted_db) ''u'' ''python''"
proof -
  obtain v p where v: "sh_buy paying_shop ''u'' (cp_acceptance waiting_order) = Reply 200 (Some v)"
    "outcome_order example_env v waiting_order = Inr (p, True)" using waiting_outcome by blast
  have w: "waiting_order \<in> set (purchases accepted_db)" "cp_state waiting_order \<in> {''prepared'', ''paid''}"
    "\<not> erased accepted_db (cp_user waiting_order)" "en_user_status example_env (cp_user waiting_order) = 200"
    "cp_user waiting_order = ''u''" "cp_course waiting_order = ''python''"
    by (simp_all add: accepted_db_def waiting_order_def example_env_def erased_def row_by_def)
  from recovery_fulfils_paid_orders [OF accepted_ok(1) w(1-4), of paying_shop v p] v w(5,6) show ?thesis by simp
qed


end
