(* ===== verification/Skilltree.thy ===== *)
theory Skilltree
  imports Env
begin

text \<open>
  The skill tree: root skills with dependencies on each other, sub skills with dependencies on their siblings, the
  courses of a sub skill (\<^verbatim>\<open>endpoints/skill.py\<close>, \<^verbatim>\<open>schemas/skill.py\<close>, \<^verbatim>\<open>endpoints/internal/skills.py\<close>). Sets of ids in a
  request are lists without order. The relationship lists of SQLAlchemy are read from the dependency rows.

  Main results: the search for dependents ends and finds exactly the transitive dependents, and every history of
  administration keeps both levels of the tree free of cycles.
\<close>

section \<open>Requests and answers\<close>

record create_root =
  cr_id :: string
  cr_name :: string
  cr_deps :: "string list"
  cr_row :: int
  cr_column :: int
  cr_sub_rows :: int
  cr_sub_columns :: int
  cr_icon :: "string option"

record update_root =
  ur_name :: "string option"
  ur_deps :: "string list option"
  ur_row :: "int option"
  ur_column :: "int option"
  ur_sub_rows :: "int option"
  ur_sub_columns :: "int option"
  ur_icon :: "string option"

record create_sub =
  cs_id :: string
  cs_name :: string
  cs_deps :: "string list"
  cs_courses :: "string list"
  cs_row :: int
  cs_column :: int
  cs_icon :: "string option"

record update_sub =
  us_name :: "string option"
  us_deps :: "string list option"
  us_courses :: "string list option"
  us_row :: "int option"
  us_column :: "int option"
  us_icon :: "string option"

record update_tree =
  ut_rows :: "int option"
  ut_columns :: "int option"

text \<open>The bounds of the schemas: texts of at most 256 characters, 31-bit positions and sizes.\<close>

definition text256 :: "string \<Rightarrow> bool" where
  "text256 s \<longleftrightarrow> length s \<le> 256"

definition int31 :: "int \<Rightarrow> int \<Rightarrow> bool" where
  "int31 least n \<longleftrightarrow> least \<le> n \<and> n < 2 ^ 31"

definition opt_all :: "('a \<Rightarrow> bool) \<Rightarrow> 'a option \<Rightarrow> bool" where
  "opt_all P v = (case v of None \<Rightarrow> True | Some x \<Rightarrow> P x)"

definition valid_create_root :: "create_root \<Rightarrow> bool" where
  "valid_create_root d \<longleftrightarrow> text256 (cr_id d) \<and> text256 (cr_name d) \<and> int31 0 (cr_row d) \<and> int31 0 (cr_column d) \<and>
     int31 1 (cr_sub_rows d) \<and> int31 1 (cr_sub_columns d) \<and> opt_all text256 (cr_icon d)"

definition valid_update_root :: "update_root \<Rightarrow> bool" where
  "valid_update_root d \<longleftrightarrow> opt_all text256 (ur_name d) \<and> opt_all (int31 0) (ur_row d) \<and> opt_all (int31 0) (ur_column d) \<and>
     opt_all (int31 1) (ur_sub_rows d) \<and> opt_all (int31 1) (ur_sub_columns d) \<and> opt_all text256 (ur_icon d)"

definition valid_create_sub :: "create_sub \<Rightarrow> bool" where
  "valid_create_sub d \<longleftrightarrow> text256 (cs_id d) \<and> text256 (cs_name d) \<and> int31 0 (cs_row d) \<and> int31 0 (cs_column d) \<and>
     opt_all text256 (cs_icon d)"

definition valid_update_sub :: "update_sub \<Rightarrow> bool" where
  "valid_update_sub d \<longleftrightarrow> opt_all text256 (us_name d) \<and> opt_all (int31 0) (us_row d) \<and> opt_all (int31 0) (us_column d) \<and>
     opt_all text256 (us_icon d)"

definition valid_update_tree :: "update_tree \<Rightarrow> bool" where
  "valid_update_tree d \<longleftrightarrow> opt_all (int31 1) (ut_rows d) \<and> opt_all (int31 1) (ut_columns d)"

record root_view =
  rt_skill :: root_skill
  rt_dependencies :: "string list"
  rt_dependents :: "string list"
  rt_skills :: "string list"
  rt_bookmarked :: "bool option"

record sub_view =
  sv_skill :: sub_skill
  sv_dependencies :: "string list"
  sv_dependents :: "string list"
  sv_courses :: "string list"
  sv_bookmarked :: "bool option"

section \<open>Relationships\<close>

definition skill_missing :: err where "skill_missing = Http 404 ''skill not found''"
definition skill_exists :: err where "skill_exists = Http 409 ''skill already exists''"
definition skill_cycle :: err where "skill_cycle = Http 409 ''cycle in skill tree''"

definition deps_of :: "dependency list \<Rightarrow> string \<Rightarrow> string list" where
  "deps_of t i = map dp_dependency (all_rows (\<lambda>d. dp_dependent d = i) t)"

definition dependents_of :: "dependency list \<Rightarrow> string \<Rightarrow> string list" where
  "dependents_of t i = map dp_dependent (all_rows (\<lambda>d. dp_dependency d = i) t)"

definition set_deps :: "string \<Rightarrow> string list \<Rightarrow> dependency list \<Rightarrow> dependency list" where
  "set_deps i ds t = delete_rows (\<lambda>d. dp_dependent d = i) t @ map (\<lambda>d. \<lparr>dp_dependent = i, dp_dependency = d\<rparr>) (remdups ds)"

definition drop_deps :: "string set \<Rightarrow> dependency list \<Rightarrow> dependency list" where
  "drop_deps is t = delete_rows (\<lambda>d. dp_dependent d \<in> is \<or> dp_dependency d \<in> is) t"

definition root_by :: "database \<Rightarrow> string \<Rightarrow> root_skill option" where
  "root_by db i = row_by rk_id i (root_skills db)"

definition sub_by :: "database \<Rightarrow> string \<Rightarrow> string \<Rightarrow> sub_skill option" where
  "sub_by db root i = first_row (\<lambda>s. sk_id s = i \<and> sk_parent s = root) (sub_skills db)"

definition sub_skills_of :: "database \<Rightarrow> string \<Rightarrow> sub_skill list" where
  "sub_skills_of db root = all_rows (\<lambda>s. sk_parent s = root) (sub_skills db)"

definition courses_of :: "database \<Rightarrow> string \<Rightarrow> string list" where
  "courses_of db i = map sc_course (all_rows (\<lambda>c. sc_skill c = i) (skill_courses db))"

definition root_answer :: "database \<Rightarrow> root_skill \<Rightarrow> root_view" where
  "root_answer db r = \<lparr>rt_skill = r, rt_dependencies = deps_of (root_deps db) (rk_id r),
     rt_dependents = dependents_of (root_deps db) (rk_id r), rt_skills = map sk_id (sub_skills_of db (rk_id r)),
     rt_bookmarked = None\<rparr>"

definition sub_answer :: "database \<Rightarrow> sub_skill \<Rightarrow> sub_view" where
  "sub_answer db s = \<lparr>sv_skill = s, sv_dependencies = deps_of (sub_deps db) (sk_id s),
     sv_dependents = dependents_of (sub_deps db) (sk_id s), sv_courses = courses_of db (sk_id s), sv_bookmarked = None\<rparr>"

section \<open>The search for dependents\<close>

text \<open>
  \<^verbatim>\<open>get_skill_dependents\<close>: the queue is a stack whose end is the head of the list here; \<open>Inl\<close> is the \<^verbatim>\<open>KeyError\<close> of a
  dependent that is not among the skills, \<open>None\<close> a search that does not end.
\<close>

partial_function (option) dependents_loop ::
  "(string \<Rightarrow> string list option) \<Rightarrow> string set \<Rightarrow> string list \<Rightarrow> string set result option" where
  "dependents_loop g seen queue = (case queue of
     [] \<Rightarrow> Some (Inr seen)
   | i # rest \<Rightarrow> (case g i of
       None \<Rightarrow> Some (Inl (Crash ''KeyError''))
     | Some ds \<Rightarrow> dependents_loop g (insert i seen) (rev (filter (\<lambda>d. d \<notin> insert i seen) ds) @ rest)))"

definition get_skill_dependents :: "string \<Rightarrow> (string \<Rightarrow> string list option) \<Rightarrow> string set result option" where
  "get_skill_dependents i g = dependents_loop g {} [i]"

text \<open>The skills of one level by id, with their dependents.\<close>

definition level_graph :: "string set \<Rightarrow> dependency list \<Rightarrow> string \<Rightarrow> string list option" where
  "level_graph ids t i = (if i \<in> ids then Some (dependents_of t i) else None)"

text \<open>
  New dependencies of a skill: known skills of its level, none of them a dependent. A search without end would be no
  answer; \<open>search_ends\<close> below excludes it.
\<close>

definition checked_deps :: "string set \<Rightarrow> dependency list \<Rightarrow> string \<Rightarrow> string list \<Rightarrow> dependency list result" where
  "checked_deps ids t i ds =
     (if \<not> set ds \<subseteq> ids then Inl skill_missing
      else case get_skill_dependents i (level_graph ids t) of
        None \<Rightarrow> Inl (Crash ''no end'')
      | Some (Inl er) \<Rightarrow> Inl er
      | Some (Inr down) \<Rightarrow> if down \<inter> set ds \<noteq> {} then Inl skill_cycle else Inr (set_deps i ds t))"

definition new_deps :: "string set \<Rightarrow> dependency list \<Rightarrow> string \<Rightarrow> string list option \<Rightarrow> dependency list result" where
  "new_deps ids t i v = (case v of None \<Rightarrow> Inr t
     | Some ds \<Rightarrow> if set ds = set (deps_of t i) then Inr t else checked_deps ids t i ds)"

section \<open>Root skills\<close>

definition change :: "'a option \<Rightarrow> 'a \<Rightarrow> 'a" where
  "change v x = (case v of None \<Rightarrow> x | Some y \<Rightarrow> y)"

definition root_ids :: "database \<Rightarrow> string set" where
  "root_ids db = rk_id ` set (root_skills db)"

definition list_root_skills :: "string option \<Rightarrow> (root_view list \<times> tree_settings) handler" where
  "list_root_skills u db = (let (t, db) = tree_settings_get db;
       marked = (\<lambda>i. map_option (\<lambda>u. exists_row (\<lambda>b. bm_user b = u \<and> bm_root b = i) (bookmarks db)) u)
     in Inr ((map (\<lambda>r. (root_answer db r)\<lparr>rt_bookmarked := marked (rk_id r)\<rparr>) (root_skills db), t), db))"

definition update_root_tree_settings :: "update_tree \<Rightarrow> tree_settings handler" where
  "update_root_tree_settings d db = (let (t, db) = tree_settings_get db;
       t' = \<lparr>tr_rows = change (ut_rows d) (tr_rows t), tr_columns = change (ut_columns d) (tr_columns t)\<rparr>
     in Inr (t', db\<lparr>tree := t' # tl (tree db)\<rparr>))"

definition new_root :: "create_root \<Rightarrow> root_skill" where
  "new_root d = \<lparr>rk_id = cr_id d, rk_name = cr_name d, rk_row = cr_row d, rk_column = cr_column d,
     rk_sub_rows = cr_sub_rows d, rk_sub_columns = cr_sub_columns d, rk_icon = cr_icon d\<rparr>"

definition create_root_skill :: "create_root \<Rightarrow> root_view handler" where
  "create_root_skill d db =
     (if root_by db (cr_id d) \<noteq> None then Inl skill_exists
      else if \<not> set (cr_deps d) \<subseteq> root_ids db then Inl skill_missing
      else let db = db\<lparr>root_skills := add_row (new_root d) (root_skills db),
             root_deps := set_deps (cr_id d) (cr_deps d) (root_deps db)\<rparr>
           in Inr (root_answer db (new_root d), db))"

definition changed_root :: "update_root \<Rightarrow> root_skill \<Rightarrow> root_skill" where
  "changed_root d r = r\<lparr>rk_name := change (ur_name d) (rk_name r), rk_row := change (ur_row d) (rk_row r),
     rk_column := change (ur_column d) (rk_column r), rk_sub_rows := change (ur_sub_rows d) (rk_sub_rows r),
     rk_sub_columns := change (ur_sub_columns d) (rk_sub_columns r),
     rk_icon := (if ur_icon d = None then rk_icon r else ur_icon d)\<rparr>"

definition update_root_skill :: "string \<Rightarrow> update_root \<Rightarrow> root_view handler" where
  "update_root_skill i d db = (case root_by db i of
     None \<Rightarrow> Inl skill_missing
   | Some r \<Rightarrow> bind_r (new_deps (root_ids db) (root_deps db) i (ur_deps d)) (\<lambda>t.
       let db = db\<lparr>root_skills := modify_by rk_id i (changed_root d) (root_skills db), root_deps := t\<rparr>
       in Inr (root_answer db (changed_root d r), db)))"

text \<open>Deleting a sub skill deletes its XP, courses and dependencies on either side; a root skill goes with its sub skills.\<close>

definition remove_sub_skills :: "string set \<Rightarrow> database \<Rightarrow> database" where
  "remove_sub_skills is db = db\<lparr>sub_skills := delete_rows (\<lambda>s. sk_id s \<in> is) (sub_skills db),
     sub_deps := drop_deps is (sub_deps db), skill_courses := delete_rows (\<lambda>c. sc_skill c \<in> is) (skill_courses db),
     xps := delete_rows (\<lambda>x. xp_skill x \<in> is) (xps db)\<rparr>"

definition delete_root_skill :: "string \<Rightarrow> bool handler" where
  "delete_root_skill i db = (case root_by db i of
     None \<Rightarrow> Inl skill_missing
   | Some r \<Rightarrow> Inr (True, (remove_sub_skills (sk_id ` set (sub_skills_of db i)) db)\<lparr>
       root_skills := drop_by rk_id i (root_skills db), root_deps := drop_deps {i} (root_deps db)\<rparr>))"

section \<open>Sub skills\<close>

definition sub_ids :: "database \<Rightarrow> string \<Rightarrow> string set" where
  "sub_ids db root = sk_id ` set (sub_skills_of db root)"

definition list_sub_skills :: "string \<Rightarrow> string option \<Rightarrow> database \<Rightarrow> (sub_view list \<times> int \<times> int) result" where
  "list_sub_skills root u db = (case root_by db root of
     None \<Rightarrow> Inl skill_missing
   | Some r \<Rightarrow>
     let marked = (\<lambda>i. map_option (\<lambda>u. exists_row (\<lambda>b. bm_user b = u \<and> bm_root b = root \<and> bm_sub b = i) (bookmarks db)) u)
     in Inr (map (\<lambda>s. (sub_answer db s)\<lparr>sv_bookmarked := marked (sk_id s)\<rparr>) (sub_skills_of db root), rk_sub_rows r, rk_sub_columns r))"

definition set_courses :: "string \<Rightarrow> string list \<Rightarrow> skill_course list \<Rightarrow> skill_course list" where
  "set_courses i cs t = delete_rows (\<lambda>c. sc_skill c = i) t @ map (\<lambda>c. \<lparr>sc_skill = i, sc_course = c\<rparr>) (remdups cs)"

definition new_sub :: "string \<Rightarrow> create_sub \<Rightarrow> sub_skill" where
  "new_sub root d = \<lparr>sk_id = cs_id d, sk_parent = root, sk_name = cs_name d, sk_row = cs_row d, sk_column = cs_column d,
     sk_icon = cs_icon d\<rparr>"

definition create_sub_skill :: "env \<Rightarrow> string \<Rightarrow> create_sub \<Rightarrow> sub_view handler" where
  "create_sub_skill e root d db = (case root_by db root of
     None \<Rightarrow> Inl skill_missing
   | Some r \<Rightarrow>
     if row_by sk_id (cs_id d) (sub_skills db) \<noteq> None then Inl skill_exists
     else if \<not> set (cs_deps d) \<subseteq> sub_ids db root then Inl skill_missing
     else if list_ex (\<lambda>c. course_by e c = None) (cs_courses d) then Inl (Http 404 ''course not found'')
     else let db = db\<lparr>sub_skills := add_row (new_sub root d) (sub_skills db),
              sub_deps := set_deps (cs_id d) (cs_deps d) (sub_deps db),
              skill_courses := set_courses (cs_id d) (cs_courses d) (skill_courses db)\<rparr>
          in Inr (sub_answer db (new_sub root d), db))"

definition changed_sub :: "update_sub \<Rightarrow> sub_skill \<Rightarrow> sub_skill" where
  "changed_sub d s = s\<lparr>sk_name := change (us_name d) (sk_name s), sk_row := change (us_row d) (sk_row s),
     sk_column := change (us_column d) (sk_column s), sk_icon := (if us_icon d = None then sk_icon s else us_icon d)\<rparr>"

definition update_sub_skill :: "env \<Rightarrow> string \<Rightarrow> string \<Rightarrow> update_sub \<Rightarrow> sub_view handler" where
  "update_sub_skill e root i d db = (case sub_by db root i of
     None \<Rightarrow> Inl skill_missing
   | Some s \<Rightarrow> bind_r (new_deps (sub_ids db root) (sub_deps db) i (us_deps d)) (\<lambda>t.
       bind_r (case us_courses d of None \<Rightarrow> Inr (skill_courses db)
         | Some cs \<Rightarrow> if set cs = set (courses_of db i) then Inr (skill_courses db)
             else if list_ex (\<lambda>c. course_by e c = None) cs then Inl (Http 404 ''course not found'')
             else Inr (set_courses i cs (skill_courses db))) (\<lambda>cs.
       let db = db\<lparr>sub_skills := modify_by sk_id i (changed_sub d) (sub_skills db), sub_deps := t, skill_courses := cs\<rparr>
       in Inr (sub_answer db (changed_sub d s), db))))"

definition delete_sub_skill :: "string \<Rightarrow> string \<Rightarrow> bool handler" where
  "delete_sub_skill root i db = (case sub_by db root i of
     None \<Rightarrow> Inl skill_missing | Some s \<Rightarrow> Inr (True, remove_sub_skills {i} db))"

section \<open>What other services read\<close>

definition get_skills :: "database \<Rightarrow> sub_view list" where
  "get_skills db = map (sub_answer db) (sub_skills db)"

text \<open>Everything a learner needs first: the dependencies of the skill and all skills of the roots its root depends on.\<close>

definition get_skill_dependencies :: "string \<Rightarrow> database \<Rightarrow> string set result" where
  "get_skill_dependencies i db = (case row_by sk_id i (sub_skills db) of
     None \<Rightarrow> Inl skill_missing
   | Some s \<Rightarrow> Inr (set (deps_of (sub_deps db) i) \<union>
       (\<Union>r \<in> set (deps_of (root_deps db) (sk_parent s)). sub_ids db r)))"

section \<open>The search ends and is exact\<close>

definition edge :: "(string \<Rightarrow> string list option) \<Rightarrow> (string \<times> string) set" where
  "edge g = {(a, b). \<exists>ds. g a = Some ds \<and> b \<in> set ds}"

text \<open>A finite level: every dependent of one of its skills is one of its skills.\<close>

definition closed_level :: "string set \<Rightarrow> (string \<Rightarrow> string list option) \<Rightarrow> bool" where
  "closed_level N g \<longleftrightarrow> finite N \<and> (\<forall>a\<in>N. \<exists>ds. g a = Some ds \<and> set ds \<subseteq> N)"

text \<open>
  A skill that waits on the stack a second time has all its dependents seen or above it. So it adds nothing when its
  turn comes, and the pair of unseen skills and stack height decreases in every round.
\<close>

fun stack_ok :: "(string \<times> string) set \<Rightarrow> string set \<Rightarrow> string set \<Rightarrow> string list \<Rightarrow> bool" where
  "stack_ok E seen A [] \<longleftrightarrow> True"
| "stack_ok E seen A (x # q) \<longleftrightarrow> (x \<in> seen \<longrightarrow> E `` {x} \<subseteq> A) \<and> stack_ok E seen (insert x A) q"

lemma stack_ok_append: "stack_ok E seen A (p @ q) \<longleftrightarrow> stack_ok E seen A p \<and> stack_ok E seen (A \<union> set p) q"
  by (induction p arbitrary: A) simp_all

lemma stack_ok_unseen: "set p \<inter> seen = {} \<Longrightarrow> stack_ok E seen A p"
  by (induction p arbitrary: A) auto

lemma stack_ok_insert: "stack_ok E seen A q \<Longrightarrow> A \<subseteq> B \<Longrightarrow> E `` {x} \<subseteq> B \<Longrightarrow> stack_ok E (insert x seen) B q"
proof (induction q arbitrary: A B)
  case (Cons y q)
  have "stack_ok E (insert x seen) (insert y B) q"
    by (rule Cons.IH [of "insert y A"]) (use Cons.prems in auto)
  with Cons.prems show ?case by auto
qed simp

lemma stack_step:
  assumes ok: "stack_ok (edge g) seen seen (i # q)" and i: "g i = Some ds"
  shows "stack_ok (edge g) (insert i seen) (insert i seen) (rev (filter (\<lambda>d. d \<notin> insert i seen) ds) @ q)"
proof -
  define new where "new = rev (filter (\<lambda>d. d \<notin> insert i seen) ds)"
  have "edge g `` {i} \<subseteq> insert i seen \<union> set new" using i by (auto simp: edge_def new_def)
  then have "stack_ok (edge g) (insert i seen) (insert i seen \<union> set new) q"
    using ok by (intro stack_ok_insert [of _ seen "insert i seen"]) auto
  moreover have "stack_ok (edge g) (insert i seen) (insert i seen) new"
    by (rule stack_ok_unseen) (auto simp: new_def)
  ultimately show ?thesis by (simp add: stack_ok_append new_def)
qed

definition frontier_ok :: "(string \<times> string) set \<Rightarrow> string set \<Rightarrow> string list \<Rightarrow> bool" where
  "frontier_ok E seen q \<longleftrightarrow> stack_ok E seen seen q \<and> E `` seen \<subseteq> seen \<union> set q"

lemma frontier_step:
  assumes "frontier_ok (edge g) seen (i # q)" "g i = Some ds"
  shows "frontier_ok (edge g) (insert i seen) (rev (filter (\<lambda>d. d \<notin> insert i seen) ds) @ q)"
  using assms stack_step [of g seen i q ds] by (auto simp: frontier_ok_def edge_def)

lemma reached_step:
  assumes "g i = Some ds"
  shows "(edge g)\<^sup>* `` (insert i seen \<union> set (rev (filter (\<lambda>d. d \<notin> insert i seen) ds) @ q)) =
    (edge g)\<^sup>* `` (seen \<union> set (i # q))"
proof -
  have "d \<in> (edge g)\<^sup>* `` {i}" if "d \<in> set ds" for d using assms that by (auto simp: edge_def)
  then have "set ds \<subseteq> (edge g)\<^sup>* `` {i}" by blast
  then have "(edge g)\<^sup>* `` set ds \<subseteq> (edge g)\<^sup>* `` {i}" by (meson Image_mono order_trans subset_refl rtrancl_trans ImageE Image_singleton_iff subsetI subsetD)
  then show ?thesis by auto
qed

lemma dependents_loop_ends:
  assumes "closed_level N g" "seen \<subseteq> N" "set queue \<subseteq> N" "frontier_ok (edge g) seen queue"
  shows "dependents_loop g seen queue = Some (Inr ((edge g)\<^sup>* `` (seen \<union> set queue)))"
  using assms(2-4)
proof (induction "(seen, queue)" arbitrary: seen queue
    rule: wf_induct_rule [OF wf_measures [of "[\<lambda>(s, q). card (N - s), \<lambda>(s, q). length q]"]])
  case 1
  have fin: "finite N" using assms(1) by (simp add: closed_level_def)
  show ?case
  proof (cases queue)
    case Nil
    have "(edge g)\<^sup>* `` seen = seen"
      using "1.prems"(3) Nil by (intro Image_closed_trancl) (simp add: frontier_ok_def)
    with Nil show ?thesis by (simp add: dependents_loop.simps)
  next
    case (Cons i q)
    with "1.prems"(2) assms(1) obtain ds where ds: "g i = Some ds" "set ds \<subseteq> N" by (auto simp: closed_level_def)
    define new where "new = rev (filter (\<lambda>d. d \<notin> insert i seen) ds)"
    have front: "frontier_ok (edge g) (insert i seen) (new @ q)"
      unfolding new_def by (rule frontier_step) (use "1.prems"(3) Cons ds(1) in simp_all)
    have less: "((insert i seen, new @ q), (seen, queue)) \<in> measures [\<lambda>(s, q). card (N - s), \<lambda>(s, q). length q]"
    proof (cases "i \<in> seen")
      case True
      with "1.prems"(3) Cons have "edge g `` {i} \<subseteq> seen" by (simp add: frontier_ok_def)
      then have "new = []" using ds(1) by (auto simp: new_def edge_def filter_empty_conv)
      with True Cons show ?thesis by (simp add: insert_absorb)
    next
      case False
      have "i \<in> N" using "1.prems"(2) Cons by simp
      then have "card (N - insert i seen) < card (N - seen)" using fin False by (intro psubset_card_mono) auto
      then show ?thesis by simp
    qed
    have "dependents_loop g (insert i seen) (new @ q) = Some (Inr ((edge g)\<^sup>* `` (insert i seen \<union> set (new @ q))))"
      by (rule "1.hyps" [OF less]) (use "1.prems" Cons ds front in \<open>auto simp: new_def\<close>)
    moreover have "(edge g)\<^sup>* `` (insert i seen \<union> set (new @ q)) = (edge g)\<^sup>* `` (seen \<union> set queue)"
      unfolding new_def Cons by (rule reached_step) (rule ds(1))
    moreover have "dependents_loop g seen queue = dependents_loop g (insert i seen) (new @ q)"
      by (subst dependents_loop.simps) (simp add: Cons ds(1) new_def)
    ultimately show ?thesis by simp
  qed
qed

lemma search_ends:
  assumes "finite ids" "i \<in> ids" "\<forall>d\<in>set t. dp_dependency d \<in> ids \<longrightarrow> dp_dependent d \<in> ids"
  shows "get_skill_dependents i (level_graph ids t) =
    Some (Inr {j. (i, j) \<in> {(dp_dependency d, dp_dependent d) | d. d \<in> set t \<and> dp_dependency d \<in> ids}\<^sup>*})"
proof -
  have lev: "closed_level ids (level_graph ids t)"
    using assms(1,3) by (auto simp: closed_level_def level_graph_def dependents_of_def row_simps)
  have e: "edge (level_graph ids t) = {(dp_dependency d, dp_dependent d) | d. d \<in> set t \<and> dp_dependency d \<in> ids}"
    by (force simp: edge_def level_graph_def dependents_of_def row_simps split: if_splits)
  have "frontier_ok (edge (level_graph ids t)) {} [i]" by (simp add: frontier_ok_def)
  from dependents_loop_ends [OF lev _ _ this] assms(2) show ?thesis
    by (auto simp: get_skill_dependents_def e)
qed

text \<open>
  C37: the search for dependents ends. On a level of the skill tree whose dependencies stay within it, the search
  returns for every skill, and its result is exactly the skill and everything that depends on it, directly or not.
\<close>

theorem search_finds_all_dependents:
  assumes "finite ids" "i \<in> ids" "\<forall>d\<in>set t. dp_dependency d \<in> ids \<longrightarrow> dp_dependent d \<in> ids"
  shows "get_skill_dependents i (level_graph ids t) =
    Some (Inr {j. (i, j) \<in> {(dp_dependency d, dp_dependent d) | d. d \<in> set t \<and> dp_dependency d \<in> ids}\<^sup>*})"
  using assms by (rule search_ends)

section \<open>The tree stays a tree\<close>

definition deps_rel :: "dependency list \<Rightarrow> (string \<times> string) set" where
  "deps_rel t = (\<lambda>d. (dp_dependent d, dp_dependency d)) ` set t"

lemma deps_rel_set_deps: "deps_rel (set_deps i ds t) = {p \<in> deps_rel t. fst p \<noteq> i} \<union> {i} \<times> set ds"
  by (force simp: deps_rel_def set_deps_def row_simps image_Un image_image)

lemma deps_rel_drop: "deps_rel (drop_deps is t) = {p \<in> deps_rel t. fst p \<notin> is \<and> snd p \<notin> is}"
  by (auto simp: deps_rel_def drop_deps_def row_simps)

lemma acyclic_new_edges:
  assumes "finite D" "acyclic R" "\<And>d. d \<in> D \<Longrightarrow> (d, i) \<notin> R\<^sup>*"
  shows "acyclic (R \<union> {i} \<times> D)"
  using assms(1,3)
proof (induction D)
  case empty
  then show ?case using assms(2) by simp
next
  case (insert d D)
  have "(x, i) \<in> R\<^sup>*" if "(x, i) \<in> (R \<union> {i} \<times> D)\<^sup>*" for x
    using that by (induction rule: converse_rtrancl_induct) (auto intro: converse_rtrancl_into_rtrancl)
  with insert.prems have "(d, i) \<notin> (R \<union> {i} \<times> D)\<^sup>*" by blast
  moreover have "acyclic (R \<union> {i} \<times> D)" by (rule insert.IH) (use insert.prems in simp)
  moreover have "R \<union> {i} \<times> insert d D = insert (i, d) (R \<union> {i} \<times> D)" by auto
  ultimately show ?case by (simp add: acyclic_insert)
qed

text \<open>What the checks of an update guarantee: the new dependencies close no cycle and stay within the level.\<close>

lemma new_deps_ok:
  assumes run: "new_deps ids t i v = Inr t'" and fin: "finite ids" and i: "i \<in> ids"
    and level: "\<And>a b. (a, b) \<in> deps_rel t \<Longrightarrow> a \<in> ids \<longleftrightarrow> b \<in> ids" and ac: "acyclic (deps_rel t)"
  shows "acyclic (deps_rel t')" "\<And>a b. (a, b) \<in> deps_rel t' \<Longrightarrow> (a, b) \<in> deps_rel t \<or> a = i \<and> b \<in> ids"
proof -
  have "acyclic (deps_rel t') \<and> (\<forall>a b. (a, b) \<in> deps_rel t' \<longrightarrow> (a, b) \<in> deps_rel t \<or> a = i \<and> b \<in> ids)"
  proof (cases "t' = t")
    case True
    with ac show ?thesis by simp
  next
    case False
    define E where "E = {(dp_dependency d, dp_dependent d) | d. d \<in> set t \<and> dp_dependency d \<in> ids}"
    have cl: "\<forall>d\<in>set t. dp_dependency d \<in> ids \<longrightarrow> dp_dependent d \<in> ids" using level by (auto simp: deps_rel_def)
    from run False obtain ds where ds: "set ds \<subseteq> ids" "t' = set_deps i ds t" "{j. (i, j) \<in> E\<^sup>*} \<inter> set ds = {}"
      using search_ends [OF fin i cl]
      by (auto simp: new_deps_def checked_deps_def E_def split: option.splits if_splits)
    define R where "R = {p \<in> deps_rel t. fst p \<noteq> i}"
    have "(d, i) \<notin> R\<^sup>*" if "d \<in> set ds" for d
    proof
      assume "(d, i) \<in> R\<^sup>*"
      then have "(i, d) \<in> E\<^sup>* \<and> d \<in> ids"
      proof (induction rule: converse_rtrancl_induct)
        case base
        then show ?case using i by simp
      next
        case (step x y)
        then have "(x, y) \<in> deps_rel t" by (simp add: R_def)
        with step.IH level have "(y, x) \<in> E" "x \<in> ids" by (auto simp: E_def deps_rel_def)
        with step.IH show ?case by (meson rtrancl.rtrancl_into_rtrancl)
      qed
      with ds(3) that show False by blast
    qed
    moreover have "acyclic R" by (rule acyclic_subset [OF ac]) (auto simp: R_def)
    ultimately have "acyclic (R \<union> {i} \<times> set ds)" by (intro acyclic_new_edges) auto
    with ds(1) show ?thesis by (auto simp: ds(2) deps_rel_set_deps R_def)
  qed
  then show "acyclic (deps_rel t')" "\<And>a b. (a, b) \<in> deps_rel t' \<Longrightarrow> (a, b) \<in> deps_rel t \<or> a = i \<and> b \<in> ids" by auto
qed

lemma created_deps_ok:
  assumes "i \<notin> Field (deps_rel t)" "i \<notin> set ds" "acyclic (deps_rel t)"
  shows "acyclic (deps_rel (set_deps i ds t))"
    "\<And>a b. (a, b) \<in> deps_rel (set_deps i ds t) \<Longrightarrow> (a, b) \<in> deps_rel t \<or> a = i \<and> b \<in> set ds"
proof -
  have R: "{p \<in> deps_rel t. fst p \<noteq> i} = deps_rel t" using assms(1) by (auto simp: Field_def)
  have "(d, i) \<notin> (deps_rel t)\<^sup>*" if "d \<in> set ds" for d
    using assms(1,2) that by (auto simp: Field_def elim: rtranclE)
  then show "acyclic (deps_rel (set_deps i ds t))"
    unfolding deps_rel_set_deps R by (intro acyclic_new_edges assms(3)) auto
  show "\<And>a b. (a, b) \<in> deps_rel (set_deps i ds t) \<Longrightarrow> (a, b) \<in> deps_rel t \<or> a = i \<and> b \<in> set ds"
    by (auto simp: deps_rel_set_deps)
qed

text \<open>
  The tree in order: ids are unique, sub skills have a root, dependencies connect root skills, or sub skills of one
  root, and neither level has a cycle.
\<close>

definition siblings :: "database \<Rightarrow> string \<Rightarrow> string \<Rightarrow> bool" where
  "siblings db a b \<longleftrightarrow> (\<exists>r. a \<in> sub_ids db r \<and> b \<in> sub_ids db r)"

definition tree_ok :: "database \<Rightarrow> bool" where
  "tree_ok db \<longleftrightarrow> unique_by rk_id (root_skills db) \<and> unique_by sk_id (sub_skills db) \<and>
     sk_parent ` set (sub_skills db) \<subseteq> root_ids db \<and>
     deps_rel (root_deps db) \<subseteq> root_ids db \<times> root_ids db \<and> acyclic (deps_rel (root_deps db)) \<and>
     (\<forall>(a, b) \<in> deps_rel (sub_deps db). siblings db a b) \<and> acyclic (deps_rel (sub_deps db))"

lemma in_sub_ids: "i \<in> sub_ids db r \<longleftrightarrow> (\<exists>s\<in>set (sub_skills db). sk_id s = i \<and> sk_parent s = r)"
  by (auto simp: sub_ids_def sub_skills_of_def row_simps)

lemma sub_ids_unique: "unique_by sk_id (sub_skills db) \<Longrightarrow> i \<in> sub_ids db r \<Longrightarrow> i \<in> sub_ids db r' \<Longrightarrow> r = r'"
  by (auto simp: in_sub_ids dest: unique_by_inj)

lemma sub_level:
  assumes "tree_ok db" "(a, b) \<in> deps_rel (sub_deps db)"
  shows "a \<in> sub_ids db r \<longleftrightarrow> b \<in> sub_ids db r"
proof -
  from assms obtain r' where "a \<in> sub_ids db r'" "b \<in> sub_ids db r'" by (auto simp: tree_ok_def siblings_def)
  with sub_ids_unique [of db] assms(1) show ?thesis by (auto simp: tree_ok_def)
qed

datatype tree_request =
    Create_root create_root
  | Update_root string update_root
  | Delete_root string
  | Create_sub env string create_sub
  | Update_sub env string string update_sub
  | Delete_sub string string
  | Resize update_tree

fun tree_step :: "tree_request \<Rightarrow> database \<Rightarrow> database" where
  "tree_step (Create_root d) db = committed db (create_root_skill d db)"
| "tree_step (Update_root i d) db = committed db (update_root_skill i d db)"
| "tree_step (Delete_root i) db = committed db (delete_root_skill i db)"
| "tree_step (Create_sub e r d) db = committed db (create_sub_skill e r d db)"
| "tree_step (Update_sub e r i d) db = committed db (update_sub_skill e r i d db)"
| "tree_step (Delete_sub r i) db = committed db (delete_sub_skill r i db)"
| "tree_step (Resize d) db = committed db (update_root_tree_settings d db)"

lemma tree_ok_cong:
  assumes "root_skills db' = root_skills db" "sub_skills db' = sub_skills db" "root_deps db' = root_deps db" "sub_deps db' = sub_deps db"
  shows "tree_ok db' = tree_ok db"
  using assms by (simp add: tree_ok_def root_ids_def siblings_def sub_ids_def sub_skills_of_def)

lemma ids_modify: "(\<And>r. key (f r) = key r) \<Longrightarrow> key ` set (modify_by key i f t) = key ` set t"
  unfolding modify_by_def set_update_rows image_image by (rule image_cong) auto

section \<open>Administration keeps the tree\<close>

lemma tree_okD:
  assumes "tree_ok db"
  shows "unique_by rk_id (root_skills db)" "unique_by sk_id (sub_skills db)"
    "s \<in> set (sub_skills db) \<Longrightarrow> sk_parent s \<in> root_ids db" "deps_rel (root_deps db) \<subseteq> root_ids db \<times> root_ids db"
    "acyclic (deps_rel (root_deps db))" "(a, b) \<in> deps_rel (sub_deps db) \<Longrightarrow> siblings db a b" "acyclic (deps_rel (sub_deps db))"
  using assms by (auto simp: tree_ok_def)

lemma finite_ids [simp]: "finite (root_ids db)" "finite (sub_ids db r)"
  by (simp_all add: root_ids_def sub_ids_def)

lemma root_by_ids: "root_by db i \<noteq> None \<longleftrightarrow> i \<in> root_ids db"
  by (simp add: root_by_def root_ids_def row_by_None)

lemma tree_ok_create_root:
  assumes ok: "tree_ok db" and run: "create_root_skill d db = Inr (a, db')"
  shows "tree_ok db'"
proof -
  have r: "rk_id (new_root d) = cr_id d" by (simp add: new_root_def)
  have new: "cr_id d \<notin> root_ids db" and ds: "set (cr_deps d) \<subseteq> root_ids db"
    and db': "db' = db\<lparr>root_skills := add_row (new_root d) (root_skills db), root_deps := set_deps (cr_id d) (cr_deps d) (root_deps db)\<rparr>"
    using run root_by_ids [of db "cr_id d"] by (auto simp: create_root_skill_def Let_def split: if_splits)
  have f: "cr_id d \<notin> Field (deps_rel (root_deps db))" using tree_okD(4) [OF ok] new by (auto simp: Field_def)
  have nd: "cr_id d \<notin> set (cr_deps d)" using new ds by blast
  note c = created_deps_ok [OF f nd tree_okD(5) [OF ok]]
  have ids: "root_ids db' = insert (cr_id d) (root_ids db)" by (simp add: db' root_ids_def row_simps r)
  have "deps_rel (root_deps db') \<subseteq> root_ids db' \<times> root_ids db'"
    using c(2) tree_okD(4) [OF ok] ds unfolding ids by (fastforce simp: db')
  moreover have "siblings db' = siblings db" by (intro ext) (simp add: siblings_def sub_ids_def sub_skills_of_def db')
  moreover have "unique_by rk_id (root_skills db')"
    using tree_okD(1) [OF ok] new r by (simp add: db' unique_by_add root_ids_def)
  ultimately show ?thesis using ok c(1) ids by (auto simp: tree_ok_def db')
qed

lemma tree_ok_update_root:
  assumes ok: "tree_ok db" and run: "update_root_skill i d db = Inr (a, db')"
  shows "tree_ok db'"
proof -
  obtain r t where r: "root_by db i = Some r" and t: "new_deps (root_ids db) (root_deps db) i (ur_deps d) = Inr t"
    and db': "db' = db\<lparr>root_skills := modify_by rk_id i (changed_root d) (root_skills db), root_deps := t\<rparr>"
    using run by (auto simp: update_root_skill_def Let_def result_simps split: option.splits)
  have i: "i \<in> root_ids db" using r root_by_ids [of db i] by simp
  have lev: "a \<in> root_ids db \<longleftrightarrow> b \<in> root_ids db" if "(a, b) \<in> deps_rel (root_deps db)" for a b
    using tree_okD(4) [OF ok] that by blast
  note n = new_deps_ok [OF t finite_ids(1) i lev tree_okD(5) [OF ok]]
  have key: "rk_id (changed_root d x) = rk_id x" for x by (simp add: changed_root_def)
  have ids: "root_ids db' = root_ids db" unfolding root_ids_def db' by simp (rule ids_modify, rule key)
  have "deps_rel (root_deps db') \<subseteq> root_ids db' \<times> root_ids db'"
    using n(2) tree_okD(4) [OF ok] i unfolding ids by (fastforce simp: db')
  moreover have "siblings db' = siblings db" by (intro ext) (simp add: siblings_def sub_ids_def sub_skills_of_def db')
  moreover have "unique_by rk_id (root_skills db')"
    using tree_okD(1) [OF ok] unique_by_update [of rk_id "changed_root d", OF key, of "\<lambda>r. rk_id r = i" "root_skills db"]
    by (simp add: db' modify_by_def)
  ultimately show ?thesis using ok n(1) ids by (auto simp: tree_ok_def db')
qed

lemma tree_ok_create_sub:
  assumes ok: "tree_ok db" and run: "create_sub_skill e root d db = Inr (a, db')"
  shows "tree_ok db'"
proof -
  define s where "s = new_sub root d"
  have s: "sk_id s = cs_id d" "sk_parent s = root" by (simp_all add: s_def new_sub_def)
  have root: "root \<in> root_ids db"
    and new: "cs_id d \<notin> sk_id ` set (sub_skills db)" and ds: "set (cs_deps d) \<subseteq> sub_ids db root"
    and db': "root_skills db' = root_skills db" "root_deps db' = root_deps db" "sub_skills db' = add_row s (sub_skills db)"
      "sub_deps db' = set_deps (cs_id d) (cs_deps d) (sub_deps db)"
    using run root_by_ids [of db root]
    by (auto simp: create_sub_skill_def Let_def row_by_None s_def split: if_splits option.splits)
  have sib: "siblings db' x y" if "siblings db x y" for x y
    using that by (auto simp: siblings_def in_sub_ids db' row_simps)
  have notin: "cs_id d \<notin> sub_ids db r" for r using new by (force simp: in_sub_ids image_iff)
  then have f: "cs_id d \<notin> Field (deps_rel (sub_deps db))"
    using tree_okD(6) [OF ok] by (auto simp: Field_def siblings_def)
  have nd: "cs_id d \<notin> set (cs_deps d)" using notin ds by blast
  note c = created_deps_ok [OF f nd tree_okD(7) [OF ok]]
  have "siblings db' x y" if "(x, y) \<in> deps_rel (sub_deps db')" for x y
  proof -
    have "(x, y) \<in> deps_rel (sub_deps db) \<or> x = cs_id d \<and> y \<in> set (cs_deps d)" using c(2) that by (simp add: db')
    then show ?thesis
    proof (elim disjE)
      assume "(x, y) \<in> deps_rel (sub_deps db)"
      with tree_okD(6) [OF ok] sib show ?thesis by blast
    next
      assume "x = cs_id d \<and> y \<in> set (cs_deps d)"
      moreover have "insert (cs_id d) (sub_ids db root) \<subseteq> sub_ids db' root" using s by (auto simp: in_sub_ids db' row_simps)
      ultimately have "x \<in> sub_ids db' root" "y \<in> sub_ids db' root" using ds by blast+
      then show ?thesis by (auto simp: siblings_def)
    qed
  qed
  moreover have "unique_by sk_id (sub_skills db')"
    using tree_okD(2) [OF ok] new s by (simp add: db' unique_by_add)
  moreover have "root_ids db' = root_ids db" by (simp add: root_ids_def db')
  ultimately show ?thesis using ok c(1) root s by (auto simp: tree_ok_def db' row_simps)
qed

lemma tree_ok_update_sub:
  assumes ok: "tree_ok db" and run: "update_sub_skill e root i d db = Inr (a, db')"
  shows "tree_ok db'"
proof -
  obtain s t where s: "sub_by db root i = Some s" and t: "new_deps (sub_ids db root) (sub_deps db) i (us_deps d) = Inr t"
    and db': "root_skills db' = root_skills db" "root_deps db' = root_deps db" "sub_deps db' = t"
      "sub_skills db' = modify_by sk_id i (changed_sub d) (sub_skills db)"
    using run by (auto simp: update_sub_skill_def Let_def result_simps split: option.splits)
  from first_row_SomeD [OF s [unfolded sub_by_def]] have in_s: "s \<in> set (sub_skills db)" "sk_id s = i" "sk_parent s = root" by auto
  then have i: "i \<in> sub_ids db root" by (auto simp: in_sub_ids)
  note n = new_deps_ok [OF t finite_ids(2) i sub_level [OF ok] tree_okD(7) [OF ok]]
  define f where "f = (\<lambda>x. if sk_id x = i then changed_sub d x else x)"
  have same: "sk_id (f x) = sk_id x" "sk_parent (f x) = sk_parent x" for x by (simp_all add: f_def changed_sub_def)
  have tab: "sub_skills db' = map f (sub_skills db)" by (simp add: db' modify_by_def update_rows_def f_def)
  have ids: "sub_ids db' r = sub_ids db r" for r
  proof -
    have "x \<in> sub_ids db' r \<longleftrightarrow> (\<exists>y\<in>set (sub_skills db). sk_id (f y) = x \<and> sk_parent (f y) = r)" for x
      by (auto simp: in_sub_ids tab)
    then show ?thesis using same by (auto simp: in_sub_ids)
  qed
  have sib: "siblings db' = siblings db" by (intro ext) (simp add: siblings_def ids)
  have "siblings db' x y" if "(x, y) \<in> deps_rel (sub_deps db')" for x y
    using n(2) [of x y] that tree_okD(6) [OF ok, of x y] i unfolding sib db'(3) by (auto simp: siblings_def)
  moreover have "unique_by sk_id (sub_skills db')"
  proof -
    have "map (\<lambda>x. sk_id (f x)) (sub_skills db) = map sk_id (sub_skills db)" by (rule map_cong [OF refl]) (rule same(1))
    with tree_okD(2) [OF ok] show ?thesis unfolding tab unique_by_def map_map comp_def by (simp only:)
  qed
  moreover have "sk_parent ` set (sub_skills db') \<subseteq> root_ids db'"
    using tree_okD(3) [OF ok] same by (auto simp: tab root_ids_def db')
  moreover have "root_ids db' = root_ids db" by (simp add: root_ids_def db')
  ultimately show ?thesis using ok n(1) by (auto simp: tree_ok_def db'(1-3))
qed

text \<open>Deleting skills with the dependencies they stand in.\<close>

lemma tree_ok_delete:
  assumes ok: "tree_ok db"
    and db': "root_skills db' = delete_rows (\<lambda>r. rk_id r \<in> rs) (root_skills db)" "root_deps db' = drop_deps rs (root_deps db)"
      "sub_skills db' = delete_rows (\<lambda>s. sk_id s \<in> is) (sub_skills db)" "sub_deps db' = drop_deps is (sub_deps db)"
    and sub: "\<And>s. s \<in> set (sub_skills db) \<Longrightarrow> sk_parent s \<in> rs \<Longrightarrow> sk_id s \<in> is"
  shows "tree_ok db'"
proof -
  have ids: "root_ids db' = root_ids db - rs" by (auto simp: root_ids_def db' row_simps)
  have sids: "sub_ids db' r = sub_ids db r - is" for r by (auto simp: in_sub_ids db' row_simps)
  have "unique_by rk_id (root_skills db')" "unique_by sk_id (sub_skills db')"
    using tree_okD(1,2) [OF ok] by (simp_all add: db' unique_by_delete)
  moreover have "sk_parent ` set (sub_skills db') \<subseteq> root_ids db'"
    using tree_okD(3) [OF ok] sub by (auto simp: ids db' row_simps)
  moreover have "deps_rel (root_deps db') \<subseteq> root_ids db' \<times> root_ids db'"
    using tree_okD(4) [OF ok] by (auto simp: ids db' deps_rel_drop)
  moreover have "acyclic (deps_rel (root_deps db'))"
    by (rule acyclic_subset [OF tree_okD(5) [OF ok]]) (auto simp: db' deps_rel_drop)
  moreover have "acyclic (deps_rel (sub_deps db'))"
    by (rule acyclic_subset [OF tree_okD(7) [OF ok]]) (auto simp: db' deps_rel_drop)
  moreover have "siblings db' x y" if "(x, y) \<in> deps_rel (sub_deps db')" for x y
    using tree_okD(6) [OF ok, of x y] that by (auto simp: siblings_def sids db'(4) deps_rel_drop)
  ultimately show ?thesis by (auto simp: tree_ok_def)
qed

lemma delete_none: "delete_rows (\<lambda>r. r \<in> {} ) t = t" "delete_rows (\<lambda>r. False) t = t" "drop_deps {} d = d"
  by (simp_all add: delete_rows_def drop_deps_def)

lemma tree_step_ok:
  assumes "tree_ok db"
  shows "tree_ok (tree_step q db)"
proof (cases q)
  case (Create_root d)
  with assms tree_ok_create_root show ?thesis by (cases "create_root_skill d db") auto
next
  case (Update_root i d)
  with assms tree_ok_update_root show ?thesis by (cases "update_root_skill i d db") auto
next
  case (Create_sub e r d)
  with assms tree_ok_create_sub show ?thesis by (cases "create_sub_skill e r d db") auto
next
  case (Update_sub e r i d)
  with assms tree_ok_update_sub show ?thesis by (cases "update_sub_skill e r i d db") auto
next
  case (Resize d)
  have "tree_ok (db\<lparr>tree := t\<rparr>) = tree_ok db" for t by (rule tree_ok_cong) simp_all
  with assms Resize show ?thesis
    by (auto simp: update_root_tree_settings_def tree_settings_get_def Let_def split: list.splits)
next
  case (Delete_root i)
  show ?thesis
  proof (cases "root_by db i")
    case (Some r)
    then have "tree_step q db = (remove_sub_skills (sk_id ` set (sub_skills_of db i)) db)\<lparr>
        root_skills := drop_by rk_id i (root_skills db), root_deps := drop_deps {i} (root_deps db)\<rparr>"
      using Delete_root by (simp add: delete_root_skill_def)
    then show ?thesis
      by (intro tree_ok_delete [OF assms, of _ "{i}" "sk_id ` set (sub_skills_of db i)"])
        (simp_all add: remove_sub_skills_def drop_by_def sub_skills_of_def row_simps)
  qed (use assms Delete_root in \<open>simp add: delete_root_skill_def\<close>)
next
  case (Delete_sub r i)
  show ?thesis
  proof (cases "sub_by db r i")
    case (Some s)
    then have "tree_step q db = remove_sub_skills {i} db" using Delete_sub by (simp add: delete_sub_skill_def)
    then show ?thesis
      by (intro tree_ok_delete [OF assms, of _ "{}" "{i}"]) (simp_all add: remove_sub_skills_def delete_none)
  qed (use assms Delete_sub in \<open>simp add: delete_sub_skill_def\<close>)
qed

text \<open>
  C13: the skill tree never gets a cycle. Whatever sequence of creations, changes and deletions of root and sub skills
  administrators request, ids stay unique, every sub skill has a root, dependencies connect root skills or sub skills
  of one root, no skill depends on itself, directly or through others, and the search for dependents never meets an
  unknown skill.
\<close>

theorem skill_tree_stays_acyclic:
  assumes "tree_ok db"
  shows "tree_ok (fold tree_step qs db) \<and> acyclic (deps_rel (root_deps (fold tree_step qs db))) \<and>
    acyclic (deps_rel (sub_deps (fold tree_step qs db))) \<and>
    (\<forall>i \<in> root_ids (fold tree_step qs db). \<exists>down.
       get_skill_dependents i (level_graph (root_ids (fold tree_step qs db)) (root_deps (fold tree_step qs db))) = Some (Inr down))"
proof -
  have ok: "tree_ok (fold tree_step qs db)" using assms by (induction qs arbitrary: db) (simp_all add: tree_step_ok)
  define db' where "db' = fold tree_step qs db"
  have "\<forall>d\<in>set (root_deps db'). dp_dependency d \<in> root_ids db' \<longrightarrow> dp_dependent d \<in> root_ids db'"
    using tree_okD(4) [OF ok] by (auto simp: db'_def deps_rel_def)
  with search_ends [OF finite_ids(1) _ this] have
    "\<forall>i \<in> root_ids db'. \<exists>down. get_skill_dependents i (level_graph (root_ids db') (root_deps db')) = Some (Inr down)" by blast
  with ok show ?thesis by (auto simp: tree_ok_def db'_def)
qed

section \<open>An example\<close>

text \<open>Two root skills; the second depends on the first, and the reverse dependency is refused.\<close>

definition root_request :: "string \<Rightarrow> string list \<Rightarrow> create_root" where
  "root_request i ds = \<lparr>cr_id = i, cr_name = i, cr_deps = ds, cr_row = 0, cr_column = 0, cr_sub_rows = 1, cr_sub_columns = 1,
     cr_icon = None\<rparr>"

definition relink :: "string list \<Rightarrow> update_root" where
  "relink ds = \<lparr>ur_name = None, ur_deps = Some ds, ur_row = None, ur_column = None, ur_sub_rows = None,
     ur_sub_columns = None, ur_icon = None\<rparr>"

definition small_tree :: database where
  "small_tree = fold tree_step [Create_root (root_request ''a'' []), Create_root (root_request ''b'' [''a''])] empty_db"

lemma empty_tree_ok: "tree_ok empty_db"
  by (simp add: tree_ok_def empty_db_def unique_by_def deps_rel_def acyclic_def)

lemma small_tree_eq: "root_ids small_tree = {''a'', ''b''}" "deps_rel (root_deps small_tree) = {(''b'', ''a'')}"
  "root_deps small_tree = [\<lparr>dp_dependent = ''b'', dp_dependency = ''a''\<rparr>]"
  by (simp_all add: small_tree_def create_root_skill_def new_root_def root_request_def root_by_def row_by_def root_ids_def empty_db_def
    Let_def set_deps_def deps_rel_def add_row_def delete_rows_def insert_commute)

theorem skill_tree_stays_acyclic_witness:
  "acyclic (deps_rel (root_deps (tree_step (Update_root ''a'' (relink [''b''])) small_tree)))"
  using skill_tree_stays_acyclic [OF empty_tree_ok, of "[Create_root (root_request ''a'' []),
    Create_root (root_request ''b'' [''a'']), Update_root ''a'' (relink [''b''])]"] by (simp add: small_tree_def)

theorem search_finds_all_dependents_witness:
  "\<exists>down. get_skill_dependents ''a'' (level_graph {''a'', ''b''} (root_deps small_tree)) = Some (Inr down) \<and> ''b'' \<in> down"
proof -
  have "get_skill_dependents ''a'' (level_graph {''a'', ''b''} (root_deps small_tree)) = Some (Inr {j. (''a'', j) \<in>
      {(dp_dependency d, dp_dependent d) | d. d \<in> set (root_deps small_tree) \<and> dp_dependency d \<in> {''a'', ''b''}}\<^sup>*})"
    by (rule search_finds_all_dependents) (simp_all add: small_tree_eq)
  then show ?thesis by (auto simp: small_tree_eq intro!: r_into_rtrancl)
qed

end
