(* ===== verification/Tracks.thy ===== *)
theory Tracks
  imports Rooms
begin

text \<open>
  Progress of a learner per course (\<^verbatim>\<open>services/course_progress.py\<close>) and the curated tracks over courses
  (\<^verbatim>\<open>schemas/tracks.py\<close>, \<^verbatim>\<open>services/tracks.py\<close>, \<^verbatim>\<open>endpoints/tracks.py\<close>). Tracks are content and a parameter
  of the operations; the language of a request is an argument. The model of progress reads the rows only.
\<close>

section \<open>Progress of a course\<close>

datatype item_status = Item_done | Item_in_progress | Item_open

record course_state =
  cg_status :: item_status
  cg_done :: "nat option"
  cg_total :: "nat option"

definition progress_result :: "bool \<Rightarrow> bool \<Rightarrow> nat \<Rightarrow> nat \<Rightarrow> course_state" where
  "progress_result completed started n units =
     \<lparr>cg_status = (if completed then Item_done else if started \<or> n \<noteq> 0 then Item_in_progress else Item_open),
      cg_done = (if units \<noteq> 0 then Some n else None), cg_total = (if units \<noteq> 0 then Some units else None)\<rparr>"

definition unknown_progress :: course_state where
  "unknown_progress = \<lparr>cg_status = Item_open, cg_done = None, cg_total = None\<rparr>"

definition lesson_marks :: "curriculum \<Rightarrow> states \<Rightarrow> string set \<Rightarrow> bool list list" where
  "lesson_marks cu st seen = map (\<lambda>l. map (\<lambda>a. ref_completed a st seen) (ld_activities l)) (cu_lessons cu)"

definition explicit_progress :: "env \<Rightarrow> database \<Rightarrow> course \<Rightarrow> catalogue option \<Rightarrow> states \<Rightarrow> string set \<Rightarrow> course_state result" where
  "explicit_progress e db c content st seen = (case definitions e db c content of
     Inl er \<Rightarrow> if is_http er then Inr unknown_progress else Inl er
   | Inr (cu, _) \<Rightarrow>
     let acts = lesson_marks cu st seen;
         started = list_ex (\<lambda>a. case room_unit (ar_source a) of None \<Rightarrow> False | Some i \<Rightarrow> st i \<noteq> None) (activities cu)
     in Inr (progress_result (list_all (list_all id) acts) (started \<or> list_ex (list_ex id) acts)
          (length (filter (list_all id) acts)) (length acts)))"

definition path_progress :: "course \<Rightarrow> catalogue option \<Rightarrow> states \<Rightarrow> course_state" where
  "path_progress c content st = (case (content, co_path c) of
     (Some ct, Some p) \<Rightarrow>
       let active = map un_id (filter (\<lambda>u. un_path u = p \<and> \<not> un_retired u) (ct_units ct));
           fin = filter (\<lambda>i. case st i of None \<Rightarrow> False | Some r \<Rightarrow> finished (rs_status r)) active;
           started = list_ex (\<lambda>i. case st i of None \<Rightarrow> False | Some r \<Rightarrow> rs_status r \<noteq> New) active
       in progress_result (path_completed ct st p) started (length fin) (length active)
   | _ \<Rightarrow> unknown_progress)"

definition video_progress :: "course \<Rightarrow> string set \<Rightarrow> course_state" where
  "video_progress c seen = (let ids = map le_id (all_lectures c); watched = length (filter (\<lambda>i. i \<in> seen) ids)
     in progress_result (co_sections c \<noteq> [] \<and> watched = length ids) False watched (length ids))"

text \<open>The catalogue and the room states, as far as a course of the request has a path and the rooms can be read.\<close>

definition progress_rooms :: "env \<Rightarrow> database \<Rightarrow> string \<Rightarrow> course list \<Rightarrow> (catalogue option \<times> states) result" where
  "progress_rooms e db u courses =
     (if en_rooms_enabled e \<and> list_ex (\<lambda>c. co_path c \<noteq> None) courses then
        (case catalogue_of e db False of
           Inl er \<Rightarrow> if is_http er then Inr (None, \<lambda>i. None) else Inl er
         | Inr ct \<Rightarrow> bind_r (read_states db u None) (\<lambda>st. Inr (Some ct, st)))
      else Inr (None, \<lambda>i. None))"

definition one_progress :: "env \<Rightarrow> database \<Rightarrow> string \<Rightarrow> catalogue option \<Rightarrow> states \<Rightarrow> course \<Rightarrow> course_state result" where
  "one_progress e db u content st c = (let seen = lecture_get_completed db u (co_id c) in
     if co_curriculum c \<noteq> None then explicit_progress e db c content st seen
     else if co_path c \<noteq> None then Inr (path_progress c content st)
     else Inr (video_progress c seen))"

definition known_courses :: "env \<Rightarrow> string list \<Rightarrow> course list" where
  "known_courses e ids = map (\<lambda>i. the (course_by e i)) (filter (\<lambda>i. course_by e i \<noteq> None) (sorted_set ids))"

definition course_progress :: "env \<Rightarrow> database \<Rightarrow> user \<Rightarrow> string list \<Rightarrow> (string \<times> course_state) list result" where
  "course_progress e db us ids =
     (if known_courses e ids = [] then Inr []
      else bind_r (progress_rooms e db (us_id us) (known_courses e ids)) (\<lambda>(content, st).
        map_r (\<lambda>c. bind_r (one_progress e db (us_id us) content st c) (\<lambda>p. Inr (co_id c, p))) (known_courses e ids)))"

section \<open>Tracks\<close>

datatype language = De | En

record localized_def =
  lo_de :: ustr
  lo_en :: "ustr option"

definition text_in :: "localized_def \<Rightarrow> language \<Rightarrow> ustr" where
  "text_in t lang = (case lo_en t of Some en \<Rightarrow> if lang = En \<and> en \<noteq> [] then en else lo_de t | None \<Rightarrow> lo_de t)"

record provider_def =
  pv_name :: ustr
  pv_url :: "ustr option"

record external_def =
  xd_id :: string
  xd_title :: localized_def
  xd_url :: "ustr option"

datatype item_def = Course_item string | External_item external_def

fun item_key :: "item_def \<Rightarrow> string \<times> string" where
  "item_key (Course_item c) = (''course'', c)"
| "item_key (External_item x) = (''external'', xd_id x)"

record stage_def =
  sd_id :: string
  sd_title :: localized_def
  sd_kind :: string
  sd_repeat :: "int option"
  sd_items :: "item_def list"

record track_def =
  td_id :: string
  td_title :: localized_def
  td_description :: "localized_def option"
  td_provider :: "provider_def option"
  td_level :: level
  td_stages :: "stage_def list"

definition valid_text :: "localized_def \<Rightarrow> bool" where
  "valid_text t \<longleftrightarrow> lo_de t \<noteq> [] \<and> lo_en t \<noteq> Some []"

text \<open>\<open>^[a-z0-9][a-z0-9_-]{0,255}$\<close>, and the label of a stage.\<close>

definition course_ref :: "string \<Rightarrow> bool" where
  "course_ref s = (case s of [] \<Rightarrow> False
     | c # cs \<Rightarrow> slug_char c \<and> length cs \<le> 255 \<and> list_all (\<lambda>c. slug_char c \<or> c = CHR ''_'' \<or> c = CHR ''-'') cs)"

definition stage_kind :: "string \<Rightarrow> bool" where
  "stage_kind s = (case s of [] \<Rightarrow> False
     | c # cs \<Rightarrow> CHR ''a'' \<le> c \<and> c \<le> CHR ''z'' \<and> length cs \<le> 39 \<and> list_all (\<lambda>c. slug_char c \<or> c = CHR ''-'') cs)"

definition valid_item :: "item_def \<Rightarrow> bool" where
  "valid_item i = (case i of Course_item c \<Rightarrow> course_ref c | External_item x \<Rightarrow> slug (xd_id x) \<and> valid_text (xd_title x))"

definition valid_stage :: "stage_def \<Rightarrow> bool" where
  "valid_stage s \<longleftrightarrow> slug (sd_id s) \<and> valid_text (sd_title s) \<and> stage_kind (sd_kind s) \<and>
     (case sd_repeat s of None \<Rightarrow> True | Some n \<Rightarrow> 1 \<le> n \<and> n \<le> 120) \<and>
     list_all valid_item (sd_items s) \<and> distinct (map item_key (sd_items s))"

definition valid_track :: "track_def \<Rightarrow> bool" where
  "valid_track t \<longleftrightarrow> slug (td_id t) \<and> valid_text (td_title t) \<and>
     (case td_description t of None \<Rightarrow> True | Some d \<Rightarrow> valid_text d) \<and>
     (case td_provider t of None \<Rightarrow> True | Some p \<Rightarrow> pv_name p \<noteq> []) \<and>
     td_stages t \<noteq> [] \<and> list_all valid_stage (td_stages t) \<and> distinct (map sd_id (td_stages t))"

definition stage_of :: "track_def \<Rightarrow> string option \<Rightarrow> stage_def option" where
  "stage_of t i = find (\<lambda>s. Some (sd_id s) = i) (td_stages t)"

fun item_course :: "item_def \<Rightarrow> string option" where
  "item_course (Course_item c) = Some c"
| "item_course (External_item x) = None"

fun item_external :: "item_def \<Rightarrow> external_def option" where
  "item_external (Course_item c) = None"
| "item_external (External_item x) = Some x"

definition track_courses :: "track_def \<Rightarrow> string list" where
  "track_courses t = fromkeys (List.map_filter item_course (concat (map sd_items (td_stages t))))"

type_synonym tracks = "track_def list"

definition track_by :: "tracks \<Rightarrow> string \<Rightarrow> track_def option" where
  "track_by ts i = find (\<lambda>t. td_id t = i) ts"

section \<open>What a track shows\<close>

definition language_key :: "language \<Rightarrow> ustr" where
  "language_key lang = ustr (case lang of De \<Rightarrow> ''de'' | En \<Rightarrow> ''en'')"

definition course_title :: "course \<Rightarrow> language \<Rightarrow> ustr" where
  "course_title c lang = (case Option.bind (map_of (co_translations c) (language_key lang)) tl_title of
     Some t \<Rightarrow> if t \<noteq> [] then t else co_title c | None \<Rightarrow> co_title c)"

datatype item_view =
    Course_view string ustr
  | External_view string ustr "ustr option"

record 'i stage_view =
  sw_id :: string
  sw_title :: ustr
  sw_kind :: string
  sw_repeat :: "int option"
  sw_items :: "'i list"

record 'i track_view =
  tw_id :: string
  tw_title :: ustr
  tw_description :: "ustr option"
  tw_provider :: "provider_def option"
  tw_level :: level
  tw_stages :: "'i stage_view list"

text \<open>An item whose course does not exist is left out.\<close>

definition public_item :: "env \<Rightarrow> language \<Rightarrow> item_def \<Rightarrow> item_view option" where
  "public_item e lang i = (case i of
     Course_item c \<Rightarrow> map_option (\<lambda>co. Course_view c (course_title co lang)) (course_by e c)
   | External_item x \<Rightarrow> Some (External_view (xd_id x) (text_in (xd_title x) lang) (xd_url x)))"

definition public_track :: "env \<Rightarrow> language \<Rightarrow> track_def \<Rightarrow> item_view track_view" where
  "public_track e lang t = \<lparr>tw_id = td_id t, tw_title = text_in (td_title t) lang,
     tw_description = map_option (\<lambda>d. text_in d lang) (td_description t), tw_provider = td_provider t, tw_level = td_level t,
     tw_stages = map (\<lambda>s. \<lparr>sw_id = sd_id s, sw_title = text_in (sd_title s) lang, sw_kind = sd_kind s, sw_repeat = sd_repeat s,
       sw_items = List.map_filter (public_item e lang) (sd_items s)\<rparr>) (td_stages t)\<rparr>"

definition list_tracks :: "env \<Rightarrow> tracks \<Rightarrow> language \<Rightarrow> item_view track_view list" where
  "list_tracks e ts lang = map (public_track e lang) (sort_key td_id ts)"

definition item_status_of :: "string \<Rightarrow> string \<Rightarrow> (string \<times> course_state) list \<Rightarrow> (string \<times> string \<times> string) set \<Rightarrow>
    item_view \<Rightarrow> item_status" where
  "item_status_of track stage progress confirmed i = (case i of
     Course_view c _ \<Rightarrow> (case map_of progress c of None \<Rightarrow> Item_open | Some p \<Rightarrow> cg_status p)
   | External_view x _ _ \<Rightarrow> if (track, stage, x) \<in> confirmed then Item_done else Item_open)"

definition user_track :: "env \<Rightarrow> track_def \<Rightarrow> language \<Rightarrow> (string \<times> course_state) list \<Rightarrow> (string \<times> string \<times> string) set \<Rightarrow>
    (item_view \<times> item_status) track_view" where
  "user_track e t lang progress confirmed = (let p = public_track e lang t in
     \<lparr>tw_id = tw_id p, tw_title = tw_title p, tw_description = tw_description p, tw_provider = tw_provider p,
      tw_level = tw_level p, tw_stages = map (\<lambda>s. \<lparr>sw_id = sw_id s, sw_title = sw_title s, sw_kind = sw_kind s,
        sw_repeat = sw_repeat s, sw_items = map (\<lambda>i. (i, item_status_of (td_id t) (sw_id s) progress confirmed i)) (sw_items s)\<rparr>)
        (tw_stages p)\<rparr>)"

section \<open>Progress is consistent\<close>

text \<open>Counted units are never more than there are, and a course without an open unit is done.\<close>

definition progress_ok :: "course_state \<Rightarrow> bool" where
  "progress_ok p \<longleftrightarrow> (case (cg_done p, cg_total p) of
     (None, None) \<Rightarrow> True | (Some n, Some k) \<Rightarrow> n \<le> k \<and> 0 < k \<and> (cg_status p = Item_open \<longrightarrow> n = 0) \<and>
       (cg_status p = Item_done \<longleftrightarrow> n = k)
   | _ \<Rightarrow> False)"

lemma list_all_filter: "list_all P xs \<longleftrightarrow> length (filter P xs) = length xs"
proof (induction xs)
  case (Cons x xs)
  have "length (filter P xs) \<noteq> Suc (length xs)" using length_filter_le [of P xs] by linarith
  with Cons show ?case by auto
qed simp

lemma progress_result_ok: "n \<le> k \<Longrightarrow> (0 < k \<Longrightarrow> finish \<longleftrightarrow> n = k) \<Longrightarrow> progress_ok (progress_result finish started n k)"
  by (auto simp: progress_ok_def progress_result_def)

lemma path_progress_ok: "progress_ok (path_progress c content st)"
proof (cases "\<exists>ct p. content = Some ct \<and> co_path c = Some p")
  case True
  then obtain ct p where ct: "content = Some ct" "co_path c = Some p" by blast
  define active where "active = filter (\<lambda>u. un_path u = p \<and> \<not> un_retired u) (ct_units ct)"
  define fin where "fin = (\<lambda>u :: unit_def. case st (un_id u) of None \<Rightarrow> False | Some r \<Rightarrow> finished (rs_status r))"
  have "path_progress c content st = progress_result (active \<noteq> [] \<and> list_all fin active)
      (list_ex (\<lambda>i. case st i of None \<Rightarrow> False | Some r \<Rightarrow> rs_status r \<noteq> New) (map un_id active))
      (length (filter fin active)) (length active)"
    by (simp add: path_progress_def ct path_completed_def Let_def active_def [symmetric] fin_def [symmetric])
      (simp add: filter_map comp_def fin_def)
  then show ?thesis by (auto simp: list_all_filter intro!: progress_result_ok)
next
  case False
  then show ?thesis
    by (auto simp: path_progress_def unknown_progress_def progress_ok_def split: option.splits)
qed

lemma video_progress_ok: "progress_ok (video_progress c ls)"
proof -
  have "all_lectures c \<noteq> [] \<Longrightarrow> co_sections c \<noteq> []" by (auto simp: all_lectures_def)
  then show ?thesis
    by (simp add: video_progress_def Let_def) (rule progress_result_ok; auto)
qed

lemma explicit_progress_ok:
  assumes "explicit_progress e db c content st ls = Inr p"
  shows "progress_ok p"
proof (cases "definitions e db c content")
  case (Inl er)
  with assms show ?thesis
    by (auto simp: explicit_progress_def unknown_progress_def progress_ok_def split: if_splits)
next
  case (Inr r)
  then obtain cu ct where "definitions e db c content = Inr (cu, ct)" by (cases r) auto
  with assms show ?thesis
    by (auto simp: explicit_progress_def Let_def list_all_filter intro!: progress_result_ok)
qed

lemma one_progress_ok: "one_progress e db u content st c = Inr p \<Longrightarrow> progress_ok p"
  by (auto simp: one_progress_def Let_def path_progress_ok video_progress_ok intro: explicit_progress_ok split: if_splits)

lemma map_r_mem: "map_r f xs = Inr ys \<Longrightarrow> y \<in> set ys \<Longrightarrow> \<exists>x\<in>set xs. f x = Inr y"
  by (induction xs arbitrary: ys) (auto simp: result_simps)

lemma course_progress_ok:
  assumes "course_progress e db us ids = Inr ps" "(i, p) \<in> set ps"
  shows "progress_ok p \<and> i \<in> set ids"
proof -
  from assms obtain content st where
    run: "map_r (\<lambda>c. bind_r (one_progress e db (us_id us) content st c) (\<lambda>p. Inr (co_id c, p))) (known_courses e ids) = Inr ps"
    by (auto simp: course_progress_def result_simps split: if_splits)
  from map_r_mem [OF run assms(2)] obtain c where
    c: "c \<in> set (known_courses e ids)" "one_progress e db (us_id us) content st c = Inr p" "i = co_id c"
    by (auto simp: result_simps)
  from c(1) have "co_id c \<in> set ids" by (auto simp: known_courses_def dest: course_by_SomeD)
  with c one_progress_ok show ?thesis by blast
qed

end
