(* ===== verification/Learnplan.thy ===== *)
theory Learnplan
  imports Tracks Plans
begin

text \<open>
  The learner's own plan (\<^verbatim>\<open>services/learning_plan.py\<close>, \<^verbatim>\<open>schemas/learning_plan.py\<close>): one row per learner whose
  state is JSON, saved by compare and swap on its revision, with the latest request kept for an exact retry. A
  conflict carries the rendered plan in its body; the model keeps its code and that the plan could be rendered.

  Main results: the stored form reads back as the plan that was saved, so every row of every history is a valid plan
  and a read never ends in the 503 of an unreadable one; no save of a plan is lost.
\<close>

section \<open>The state and its stored form\<close>

definition PLAN_STATE_LIMIT :: nat where "PLAN_STATE_LIMIT = 16384"

definition opt_slug :: "string option \<Rightarrow> bool" where
  "opt_slug v = (case v of None \<Rightarrow> True | Some s \<Rightarrow> slug s)"

definition valid_step_state :: "step_state \<Rightarrow> bool" where
  "valid_step_state s = (case s of
     Course_step c t st \<Rightarrow> course_ref c \<and> opt_slug t \<and> opt_slug st
   | External_step t st i d \<Rightarrow> slug t \<and> slug st \<and> slug i)"

definition valid_state :: "plan_state \<Rightarrow> bool" where
  "valid_state p \<longleftrightarrow> list_all valid_step_state (ps_steps p)"

definition level_text :: "level \<Rightarrow> string" where
  "level_text l = (case l of Einsteiger \<Rightarrow> ''einsteiger'' | Fortgeschritten \<Rightarrow> ''fortgeschritten'' | Profi \<Rightarrow> ''profi'')"

definition preference_text :: "preference \<Rightarrow> string" where
  "preference_text p = (case p of Breit \<Rightarrow> ''breit'' | Tief \<Rightarrow> ''tief'')"

fun step_json :: "step_state \<Rightarrow> json" where
  "step_json (Course_step c t s) =
     jobj ([(''type'', js ''course''), (''course'', js c)] @ opt_entry ''track'' t @ opt_entry ''stage'' s)"
| "step_json (External_step t s i d) =
     jobj [(''type'', js ''external''), (''track'', js t), (''stage'', js s), (''id'', js i), (''done'', JBool d)]"

text \<open>\<^verbatim>\<open>normalized\<close>: unset optional fields left out.\<close>

definition normalized :: "plan_state \<Rightarrow> json" where
  "normalized p = jobj (opt_entry ''character'' (map_option level_text (ps_character p)) @
     opt_entry ''preference'' (map_option preference_text (ps_preference p)) @
     [(''steps'', JArr (map step_json (ps_steps p)))])"

text \<open>The size of the compact JSON; identifiers only, so the canonical text has the same size.\<close>

definition state_size :: "json \<Rightarrow> nat" where
  "state_size v = (case canonical v of Inr b \<Rightarrow> length b | Inl er \<Rightarrow> 0)"

section \<open>Reading a stored plan\<close>

text \<open>A field that may be absent or null, else a text with the given property.\<close>

definition within_keys :: "string list \<Rightarrow> json \<Rightarrow> bool" where
  "within_keys ks v \<longleftrightarrow> (case v of JObj es \<Rightarrow> list_all (\<lambda>e. fst e \<in> set (map ustr ks)) es | _ \<Rightarrow> False)"

definition optional_by :: "(string \<Rightarrow> 'a option) \<Rightarrow> json option \<Rightarrow> 'a option option" where
  "optional_by f v = (case v of None \<Rightarrow> Some None | Some JNull \<Rightarrow> Some None
     | _ \<Rightarrow> map_option Some (Option.bind (json_string v) f))"

definition as_slug :: "string \<Rightarrow> string option" where
  "as_slug s = (if slug s then Some s else None)"

definition as_level :: "string \<Rightarrow> level option" where
  "as_level s = find (\<lambda>l. level_text l = s) [Einsteiger, Fortgeschritten, Profi]"

definition as_preference :: "string \<Rightarrow> preference option" where
  "as_preference s = find (\<lambda>p. preference_text p = s) [Breit, Tief]"

definition parse_step_state :: "json \<Rightarrow> step_state option" where
  "parse_step_state v = (if jget ''type'' v = Some (js ''course'') then
       (if \<not> within_keys [''type'', ''course'', ''track'', ''stage''] v then None else
        Option.bind (require_that course_ref (json_string (jget ''course'' v))) (\<lambda>c.
        Option.bind (optional_by as_slug (jget ''track'' v)) (\<lambda>t.
        map_option (Course_step c t) (optional_by as_slug (jget ''stage'' v)))))
     else if jget ''type'' v = Some (js ''external'') then
       (if \<not> within_keys [''type'', ''track'', ''stage'', ''id'', ''done''] v then None else
        Option.bind (require_that slug (json_string (jget ''track'' v))) (\<lambda>t.
        Option.bind (require_that slug (json_string (jget ''stage'' v))) (\<lambda>s.
        Option.bind (require_that slug (json_string (jget ''id'' v))) (\<lambda>i.
        map_option (External_step t s i) (case jget ''done'' v of None \<Rightarrow> Some False | x \<Rightarrow> json_bool x)))))
     else None)"

definition parse_state :: "json \<Rightarrow> plan_state option" where
  "parse_state v = (if \<not> within_keys [''character'', ''preference'', ''steps''] v then None else
     Option.bind (optional_by as_level (jget ''character'' v)) (\<lambda>c.
     Option.bind (optional_by as_preference (jget ''preference'' v)) (\<lambda>p.
     map_option (\<lambda>ss. \<lparr>ps_character = c, ps_preference = p, ps_steps = ss\<rparr>)
       (case jget ''steps'' v of None \<Rightarrow> Some [] | x \<Rightarrow> Option.bind (the_list x) (all_of parse_step_state)))))"

definition empty_plan :: plan_state where
  "empty_plan = \<lparr>ps_character = None, ps_preference = None, ps_steps = []\<rparr>"

definition stored_state :: "learning_plan option \<Rightarrow> plan_state result" where
  "stored_state row = (case row of None \<Rightarrow> Inr empty_plan
     | Some r \<Rightarrow> (case parse_state (pl_state r) of None \<Rightarrow> Inl (Http 503 ''plan cannot be read'') | Some p \<Rightarrow> Inr p))"

section \<open>Tracks of the steps\<close>

definition stage_course :: "tracks \<Rightarrow> string option \<Rightarrow> string option \<Rightarrow> string \<Rightarrow> bool" where
  "stage_course ts t s c = (case Option.bind (track_by ts (case t of None \<Rightarrow> '''' | Some i \<Rightarrow> i)) (\<lambda>tr. stage_of tr s) of
     None \<Rightarrow> False | Some st \<Rightarrow> list_ex (\<lambda>i. item_course i = Some c) (sd_items st))"

definition stage_external :: "tracks \<Rightarrow> string \<Rightarrow> string \<Rightarrow> string \<Rightarrow> external_def option" where
  "stage_external ts t s i = (case Option.bind (track_by ts t) (\<lambda>tr. stage_of tr (Some s)) of
     None \<Rightarrow> None | Some st \<Rightarrow> find (\<lambda>x. xd_id x = i) (List.map_filter item_external (sd_items st)))"

fun step_key :: "step_state \<Rightarrow> string list" where
  "step_key (Course_step c t s) = [''course'', c]"
| "step_key (External_step t s i d) = [''external'', t, s, i]"

text \<open>The checks of one step, in the order of the code; then the duplicate check of the loop.\<close>

definition check_track :: "tracks \<Rightarrow> string option \<Rightarrow> string option \<Rightarrow> bool \<Rightarrow> unit result" where
  "check_track ts t s held = (case Option.bind t (track_by ts) of
     None \<Rightarrow> Inl (Coded 422 ''unknown_track'')
   | Some tr \<Rightarrow> if stage_of tr s = None then Inl (Coded 422 ''unknown_stage'')
       else guard_r held (Coded 422 ''unknown_step''))"

fun check_step :: "env \<Rightarrow> tracks \<Rightarrow> step_state \<Rightarrow> unit result" where
  "check_step e ts (Course_step c t s) = (if course_by e c = None then Inl (Coded 422 ''unknown_course'')
     else if t \<noteq> None \<or> s \<noteq> None then check_track ts t s (stage_course ts t s c) else Inr ())"
| "check_step e ts (External_step t s i d) = check_track ts (Some t) (Some s) (stage_external ts t s i \<noteq> None)"

fun check_steps :: "env \<Rightarrow> tracks \<Rightarrow> string list set \<Rightarrow> step_state list \<Rightarrow> unit result" where
  "check_steps e ts seen [] = Inr ()"
| "check_steps e ts seen (s # ss) = bind_r (check_step e ts s) (\<lambda>_.
     if step_key s \<in> seen then Inl (Coded 422 ''duplicate_step'') else check_steps e ts (insert (step_key s) seen) ss)"

section \<open>The plan with its progress\<close>

datatype plan_step_view =
    Course_step_view string ustr "string option" "string option" course_state
  | External_step_view string ustr "ustr option" string string bool

datatype plan_next = Next_course string | Next_external string string string

record plan_view =
  pw_revision :: int
  pw_character :: "level option"
  pw_preference :: "preference option"
  pw_steps :: "plan_step_view list"
  pw_next :: "plan_next option"

fun step_view :: "env \<Rightarrow> tracks \<Rightarrow> language \<Rightarrow> (string \<times> course_state) list \<Rightarrow> step_state \<Rightarrow> plan_step_view option result" where
  "step_view e ts lang progress (Course_step c t s) = (case course_by e c of None \<Rightarrow> Inr None
     | Some co \<Rightarrow> (case map_of progress c of None \<Rightarrow> Inl (Crash ''KeyError'')
       | Some p \<Rightarrow> let linked = stage_course ts t s c in
           Inr (Some (Course_step_view c (course_title co lang) (if linked then t else None) (if linked then s else None) p))))"
| "step_view e ts lang progress (External_step t s i d) = (case stage_external ts t s i of None \<Rightarrow> Inr None
     | Some x \<Rightarrow> Inr (Some (External_step_view i (text_in (xd_title x) lang) (xd_url x) t s d)))"

fun view_done :: "plan_step_view \<Rightarrow> bool" where
  "view_done (Course_step_view c n t s p) \<longleftrightarrow> cg_status p = Item_done"
| "view_done (External_step_view i n r t s d) \<longleftrightarrow> d"

fun view_next :: "plan_step_view \<Rightarrow> plan_next" where
  "view_next (Course_step_view c n t s p) = Next_course c"
| "view_next (External_step_view i n r t s d) = Next_external i t s"

fun step_course :: "step_state \<Rightarrow> string option" where
  "step_course (Course_step c t s) = Some c"
| "step_course (External_step t s i d) = None"

definition render :: "env \<Rightarrow> tracks \<Rightarrow> user \<Rightarrow> int \<Rightarrow> plan_state \<Rightarrow> language \<Rightarrow> database \<Rightarrow> plan_view result" where
  "render e ts us revision st lang db =
     bind_r (course_progress e db us (List.map_filter step_course (ps_steps st))) (\<lambda>progress.
     bind_r (map_r (step_view e ts lang progress) (ps_steps st)) (\<lambda>views.
     let steps = List.map_filter id views in
     Inr \<lparr>pw_revision = revision, pw_character = ps_character st, pw_preference = ps_preference st, pw_steps = steps,
       pw_next = map_option view_next (find (\<lambda>v. \<not> view_done v) steps)\<rparr>))"

definition require_account :: "database \<Rightarrow> string \<Rightarrow> unit result" where
  "require_account db u = guard_r (\<not> erased db u) (Http 401 ''account gone'')"

definition plan_row :: "database \<Rightarrow> string \<Rightarrow> learning_plan option" where
  "plan_row db u = first_row (\<lambda>r. pl_user r = u) (plans db)"

definition plan_revision :: "learning_plan option \<Rightarrow> int" where
  "plan_revision row = (case row of None \<Rightarrow> 0 | Some r \<Rightarrow> pl_revision r)"

definition get_plan :: "env \<Rightarrow> tracks \<Rightarrow> user \<Rightarrow> language \<Rightarrow> database \<Rightarrow> plan_view result" where
  "get_plan e ts us lang db = bind_r (require_account db (us_id us)) (\<lambda>_. let row = plan_row db (us_id us) in
     bind_r (stored_state row) (\<lambda>st. render e ts us (plan_revision row) st lang db))"

section \<open>Saving\<close>

record plan_save =
  sp_request :: string
  sp_expected :: int
  sp_state :: plan_state

definition valid_save :: "plan_save \<Rightarrow> bool" where
  "valid_save d \<longleftrightarrow> 0 \<le> sp_expected d \<and> sp_expected d \<le> 2147483646 \<and> valid_state (sp_state d)"

definition plan_fingerprint :: "env \<Rightarrow> int \<Rightarrow> json \<Rightarrow> string" where
  "plan_fingerprint e expected st = en_sha256 e (en_dumps e (jobj [(''expected_revision'', JInt expected), (''state'', st)]))"

definition plan_conflict :: "env \<Rightarrow> tracks \<Rightarrow> user \<Rightarrow> language \<Rightarrow> string \<Rightarrow> database \<Rightarrow> 'a result" where
  "plan_conflict e ts us lang code db = (let row = plan_row db (us_id us) in
     bind_r (stored_state row) (\<lambda>st. bind_r (render e ts us (plan_revision row) st lang db) (\<lambda>_. Inl (Coded 409 code))))"

definition saved_plan_row :: "env \<Rightarrow> string \<Rightarrow> plan_save \<Rightarrow> string \<Rightarrow> learning_plan" where
  "saved_plan_row e u d fp = \<lparr>pl_user = u, pl_revision = sp_expected d + 1, pl_state = normalized (sp_state d),
     pl_request = sp_request d, pl_fingerprint = fp, pl_updated = en_now e\<rparr>"

text \<open>The change after the checks: a new row, or the row at exactly the expected revision.\<close>

definition write_plan :: "env \<Rightarrow> tracks \<Rightarrow> user \<Rightarrow> language \<Rightarrow> plan_save \<Rightarrow> string \<Rightarrow> plan_view handler" where
  "write_plan e ts us lang d fp db =
     bind_r (case plan_row db (us_id us) of
         None \<Rightarrow> Inr (db\<lparr>plans := add_row (saved_plan_row e (us_id us) d fp) (plans db)\<rparr>)
       | Some r \<Rightarrow> let hit = (\<lambda>r. pl_user r = us_id us \<and> pl_revision r = sp_expected d) in
           if count_rows hit (plans db) \<noteq> 1 then plan_conflict e ts us lang ''plan_conflict'' db
           else Inr (db\<lparr>plans := update_rows hit (\<lambda>_. saved_plan_row e (us_id us) d fp) (plans db)\<rparr>)) (\<lambda>db.
     case parse_state (normalized (sp_state d)) of None \<Rightarrow> Inl (Crash ''ValidationError'')
     | Some st \<Rightarrow> bind_r (render e ts us (sp_expected d + 1) st lang db) (\<lambda>p. Inr (p, db)))"

definition save_plan :: "env \<Rightarrow> tracks \<Rightarrow> user \<Rightarrow> language \<Rightarrow> plan_save \<Rightarrow> plan_view handler" where
  "save_plan e ts us lang d db0 = (let (account, db) = lock_user db0 (us_id us); st = normalized (sp_state d) in
     if pu_deleted account then Inl (Http 401 ''account gone'')
     else if state_size st > PLAN_STATE_LIMIT then Inl (Coded 413 ''plan_too_large'')
     else let fp = plan_fingerprint e (sp_expected d) st; row = plan_row db (us_id us) in
       if map_option pl_request row = Some (sp_request d) then
         (if map_option pl_fingerprint row = Some fp then
            bind_r (stored_state row) (\<lambda>p. bind_r (render e ts us (plan_revision row) p lang db) (\<lambda>v. Inr (v, db)))
          else plan_conflict e ts us lang ''request_reused'' db)
       else bind_r (check_steps e ts {} (ps_steps (sp_state d))) (\<lambda>_.
         if plan_revision row \<noteq> sp_expected d then plan_conflict e ts us lang ''plan_conflict'' db
         else write_plan e ts us lang d fp db))"

definition track_for_user :: "env \<Rightarrow> tracks \<Rightarrow> user \<Rightarrow> track_def \<Rightarrow> language \<Rightarrow> database \<Rightarrow> (item_view \<times> item_status) track_view result" where
  "track_for_user e ts us t lang db = bind_r (require_account db (us_id us)) (\<lambda>_.
     bind_r (course_progress e db us (track_courses t)) (\<lambda>progress.
     bind_r (stored_state (plan_row db (us_id us))) (\<lambda>st.
     Inr (user_track e t lang progress (set (List.map_filter (\<lambda>s. case s of External_step a b c d \<Rightarrow>
       if d then Some (a, b, c) else None | _ \<Rightarrow> None) (ps_steps st)))))))"

definition get_track :: "env \<Rightarrow> tracks \<Rightarrow> user option \<Rightarrow> string \<Rightarrow> language \<Rightarrow> database \<Rightarrow>
    (item_view track_view + (item_view \<times> item_status) track_view) result" where
  "get_track e ts us i lang db = (case track_by ts i of None \<Rightarrow> Inl (Http 404 ''no track'')
     | Some t \<Rightarrow> (case us of None \<Rightarrow> Inr (Inl (public_track e lang t))
       | Some u \<Rightarrow> bind_r (track_for_user e ts u t lang db) (\<lambda>v. Inr (Inr v))))"

section \<open>What is stored reads back\<close>

lemma within_keys_jobj [simp]: "within_keys ks (jobj kvs) \<longleftrightarrow> list_all (\<lambda>e. fst e \<in> set ks) kvs"
  by (auto simp: within_keys_def jobj_def list_all_iff)

lemma slug_char_ascii: "slug_char c \<Longrightarrow> of_char c < (128::nat)"
  by (auto simp: slug_char_def less_eq_char_def)

lemma slug_ascii: "slug s \<Longrightarrow> list_all (\<lambda>c. of_char c < (128::nat)) s"
  by (auto simp: slug_def list_all_iff slug_char_ascii split: list.splits)

lemma course_ref_ascii: "course_ref s \<Longrightarrow> list_all (\<lambda>c. of_char c < (128::nat)) s"
  by (auto simp: course_ref_def list_all_iff slug_char_ascii split: list.splits)

lemma opt_slug_entry:
  "opt_slug v \<Longrightarrow> optional_by as_slug (map_of (opt_entry k v) k) = Some v"
  by (cases v) (simp_all add: opt_slug_def as_slug_def slug_ascii opt_entry_def optional_by_def js_def json_string_js [unfolded js_def])

lemma opt_entry_keys [simp]: "list_all P (opt_entry k v) \<longleftrightarrow> (case v of None \<Rightarrow> True | Some x \<Rightarrow> P (k, js x))"
  by (simp add: opt_entry_def split: option.split)

lemma js_neq [simp]: "js s = js t \<longleftrightarrow> s = t"
  by (simp add: js_def)

lemma parse_step_json: "valid_step_state s \<Longrightarrow> parse_step_state (step_json s) = Some s"
proof (cases s)
  case (Course_step c t st)
  moreover assume "valid_step_state s"
  ultimately have v: "course_ref c" "opt_slug t" "opt_slug st" by (simp_all add: valid_step_state_def)
  have "map_of (opt_entry ''track'' t @ opt_entry ''stage'' st) ''track'' = map_of (opt_entry ''track'' t) ''track''"
    "map_of (opt_entry ''track'' t @ opt_entry ''stage'' st) ''stage'' = map_of (opt_entry ''stage'' st) ''stage''"
    by (cases t; cases st; simp add: opt_entry_def)+
  with v show ?thesis
    by (simp add: Course_step parse_step_state_def require_that_def json_string_js course_ref_ascii opt_slug_entry split: option.split)
next
  case (External_step t st i d)
  moreover assume "valid_step_state s"
  ultimately show ?thesis
    by (simp add: valid_step_state_def parse_step_state_def require_that_def json_string_js slug_ascii json_bool_def)
qed

lemma level_entry: "optional_by as_level (map_of (opt_entry k (map_option level_text l)) k) = Some l"
proof (cases l)
  case (Some x)
  then show ?thesis by (cases x) (simp_all add: opt_entry_def optional_by_def js_def json_string_js [unfolded js_def] level_text_def as_level_def)
qed (simp add: opt_entry_def optional_by_def)

lemma preference_entry: "optional_by as_preference (map_of (opt_entry k (map_option preference_text q)) k) = Some q"
proof (cases q)
  case (Some x)
  then show ?thesis by (cases x) (simp_all add: opt_entry_def optional_by_def js_def json_string_js [unfolded js_def]
    preference_text_def as_preference_def)
qed (simp add: opt_entry_def optional_by_def)

lemma parse_normalized:
  assumes "valid_state p"
  shows "parse_state (normalized p) = Some p"
proof -
  let ?c = "map_option level_text (ps_character p)" and ?q = "map_option preference_text (ps_preference p)"
  let ?kvs = "opt_entry ''character'' ?c @ opt_entry ''preference'' ?q @ [(''steps'', JArr (map step_json (ps_steps p)))]"
  have f: "map_of ?kvs ''character'' = map_of (opt_entry ''character'' ?c) ''character''"
    "map_of ?kvs ''preference'' = map_of (opt_entry ''preference'' ?q) ''preference''"
    "map_of ?kvs ''steps'' = Some (JArr (map step_json (ps_steps p)))"
    by (cases "ps_character p"; cases "ps_preference p"; simp add: opt_entry_def)+
  have "all_of parse_step_state (map step_json (ps_steps p)) = Some (ps_steps p)"
    by (rule all_of_map) (use assms in \<open>auto simp: valid_state_def list_all_iff parse_step_json\<close>)
  moreover have "within_keys [''character'', ''preference'', ''steps''] (normalized p)"
    by (simp add: normalized_def split: option.split)
  moreover have "jget k (normalized p) = map_of ?kvs k" for k by (simp add: normalized_def del: map_of_append)
  ultimately show ?thesis
    by (simp add: parse_state_def f level_entry preference_entry the_list_def del: map_of_append)
qed

section \<open>Histories of saves\<close>

definition plan_ok :: "learning_plan \<Rightarrow> bool" where
  "plan_ok r \<longleftrightarrow> 1 \<le> pl_revision r \<and> (\<exists>st. valid_state st \<and> distinct (map step_key (ps_steps st)) \<and>
     pl_state r = normalized st \<and> state_size (pl_state r) \<le> PLAN_STATE_LIMIT)"

definition plans_ok :: "database \<Rightarrow> bool" where
  "plans_ok db \<longleftrightarrow> unique_by pl_user (plans db) \<and> list_all plan_ok (plans db)"

lemma check_steps_distinct:
  "check_steps e ts seen ss = Inr u \<Longrightarrow> distinct (map step_key ss) \<and> step_key ` set ss \<inter> seen = {}"
proof (induction ss arbitrary: seen)
  case (Cons s ss)
  then have "step_key s \<notin> seen" "check_steps e ts (insert (step_key s) seen) ss = Inr u"
    by (auto simp: result_simps split: if_splits)
  with Cons.IH [OF this(2)] show ?case by auto
qed simp

lemma plan_conflict_not_Inr [simp]: "plan_conflict e ts us lang code db \<noteq> Inr x"
  by (simp add: plan_conflict_def Let_def result_simps)

lemma save_plan_cases [consumes 1, case_names same change]:
  assumes "save_plan e ts us lang d db0 = Inr (v, db')"
  obtains (same) "db' = snd (lock_user db0 (us_id us))" "\<not> erased db0 (us_id us)"
  | (change) t fp where "\<not> erased db0 (us_id us)" "state_size (normalized (sp_state d)) \<le> PLAN_STATE_LIMIT"
      "check_steps e ts {} (ps_steps (sp_state d)) = Inr ()" "plan_revision (plan_row db0 (us_id us)) = sp_expected d"
      "db' = (snd (lock_user db0 (us_id us)))\<lparr>plans := t\<rparr>"
      "(case plan_row db0 (us_id us) of None \<Rightarrow> t = add_row (saved_plan_row e (us_id us) d fp) (plans db0)
        | Some r \<Rightarrow> t = update_rows (\<lambda>r. pl_user r = us_id us \<and> pl_revision r = sp_expected d)
            (\<lambda>_. saved_plan_row e (us_id us) d fp) (plans db0))"
proof -
  define db where "db = snd (lock_user db0 (us_id us))"
  have lock: "lock_user db0 (us_id us) = (fst (lock_user db0 (us_id us)), db)" by (simp add: db_def)
  have row: "plan_row db = plan_row db0" "plans db = plans db0" by (simp_all add: plan_row_def fun_eq_iff db_def)
  define fp where "fp = plan_fingerprint e (sp_expected d) (normalized (sp_state d))"
  from assms have ne: "\<not> erased db0 (us_id us)" "state_size (normalized (sp_state d)) \<le> PLAN_STATE_LIMIT"
    by (auto simp: save_plan_def Let_def case_prod_beta split: if_splits)
  show thesis
  proof (cases "db' = db")
    case True
    with same ne show thesis by (simp add: db_def)
  next
    case False
    with assms have w: "check_steps e ts {} (ps_steps (sp_state d)) = Inr ()" "plan_revision (plan_row db0 (us_id us)) = sp_expected d"
      "write_plan e ts us lang d fp db = Inr (v, db')"
      by (auto simp: save_plan_def Let_def case_prod_beta result_simps row db_def [symmetric] fp_def split: if_splits)
    show thesis
    proof (rule change [OF ne w(1,2)])
      show "db' = (snd (lock_user db0 (us_id us)))\<lparr>plans := plans db'\<rparr>"
        using w(3) by (auto simp: write_plan_def result_simps db_def Let_def split: option.splits if_splits)
      show "case plan_row db0 (us_id us) of None \<Rightarrow> plans db' = add_row (saved_plan_row e (us_id us) d fp) (plans db0)
        | Some r \<Rightarrow> plans db' = update_rows (\<lambda>r. pl_user r = us_id us \<and> pl_revision r = sp_expected d)
            (\<lambda>_. saved_plan_row e (us_id us) d fp) (plans db0)"
        using w(3) by (auto simp: write_plan_def result_simps row Let_def split: option.splits if_splits)
    qed
  qed
qed

text \<open>One request: the schema first, then the handler.\<close>

type_synonym plan_request = "env \<times> tracks \<times> user \<times> language \<times> plan_save"

definition plan_step :: "plan_request \<Rightarrow> database \<Rightarrow> database" where
  "plan_step q db = (case q of (e, ts, us, lang, d) \<Rightarrow>
     if valid_save d then committed db (save_plan e ts us lang d db) else db)"

definition plan_expected :: "plan_request \<Rightarrow> int" where
  "plan_expected q = (case q of (e, ts, us, lang, d) \<Rightarrow> sp_expected d)"

lemma plan_row_by: "plan_row db u = row_by pl_user u (plans db)"
  by (simp add: plan_row_def row_by_def)

lemma saved_row_ok:
  assumes "valid_save d" "state_size (normalized (sp_state d)) \<le> PLAN_STATE_LIMIT"
    "check_steps e ts {} (ps_steps (sp_state d)) = Inr ()"
  shows "plan_ok (saved_plan_row e u d fp)"
  using assms check_steps_distinct [OF assms(3)]
  by (auto simp: plan_ok_def saved_plan_row_def valid_save_def)

text \<open>A save that changes the tables writes exactly one row, at the expected revision.\<close>

lemma plan_step_effect:
  assumes "plans_ok db"
  obtains "plans (plan_step q db) = plans db"
  | u r where "plan_ok r" "pl_user r = u" "pl_revision r = plan_expected q + 1"
      "plan_revision (plan_row db u) = plan_expected q" "\<And>v. plan_row (plan_step q db) v = (if v = u then Some r else plan_row db v)"
      "plans_ok (plan_step q db)"
proof -
  obtain e ts us lang d where q: "q = (e, ts, us, lang, d)" by (cases q) auto
  show thesis
  proof (cases "valid_save d \<and> (\<exists>v db'. save_plan e ts us lang d db = Inr (v, db'))")
    case False
    then have "plan_step q db = db"
      by (cases "save_plan e ts us lang d db") (auto simp: plan_step_def q)
    with that(1) show thesis by simp
  next
    case True
    then obtain v db' where vs: "valid_save d" and run: "save_plan e ts us lang d db = Inr (v, db')" by blast
    then have st: "plan_step q db = db'" by (simp add: plan_step_def q)
    show thesis using run
    proof (cases rule: save_plan_cases)
      case same
      with that(1) st show thesis by simp
    next
      case (change t fp)
      define r where "r = saved_plan_row e (us_id us) d fp"
      have r: "plan_ok r" "pl_user r = us_id us" "pl_revision r = plan_expected q + 1"
        using saved_row_ok [OF vs change(2,3)] by (simp_all add: r_def q plan_expected_def saved_plan_row_def)
      have u: "unique_by pl_user (plans db)" "list_all plan_ok (plans db)" using assms by (simp_all add: plans_ok_def)
      have t: "plans db' = t" by (simp add: change(5))
      have up: "t = upsert_by pl_user r (plans db)"
      proof (cases "plan_row db (us_id us)")
        case None
        with change(6) show ?thesis by (simp add: upsert_by_def r_def plan_row_by r(2) [unfolded r_def])
      next
        case (Some r0)
        then have r0: "r0 \<in> set (plans db)" "pl_user r0 = us_id us" "pl_revision r0 = sp_expected d"
          using change(4) by (auto simp: plan_row_by plan_revision_def dest: row_by_SomeD)
        have "update_rows (\<lambda>x. pl_user x = us_id us \<and> pl_revision x = sp_expected d) (\<lambda>_. r) (plans db) = upsert_by pl_user r (plans db)"
          by (rule update_one_row [OF u(1) r0(1,2)]) (use r0 r(2) in auto)
        with change(6) Some show ?thesis by (simp add: r_def [symmetric])
      qed
      have "plan_row (plan_step q db) v = (if v = us_id us then Some r else plan_row db v)" for v
        by (simp add: plan_row_by st t up row_by_upsert r(2))
      moreover have "plans_ok (plan_step q db)"
        using unique_by_upsert [OF u(1), of r] u(2) r(1)
        by (auto simp: plans_ok_def st t up upsert_by_def modify_by_def list_all_iff row_simps)
      ultimately show thesis using that(2) r change(4) by (simp add: q plan_expected_def)
    qed
  qed
qed

interpretation plan_changes: revisioned plan_step plans_ok "\<lambda>db. plan_row db u" plan_revision plan_expected for u
proof (unfold_locales, goal_cases)
  case (1 db q)
  then show ?case
    by (rule plan_step_effect [of db q]) (use 1 in \<open>simp_all add: plans_ok_def\<close>)
next
  case (2 db q)
  from 2(1) show ?case
  proof (rule plan_step_effect [of db q])
    assume "plans (plan_step q db) = plans db"
    with 2(2) show ?thesis by (simp add: plan_row_def)
  next
    fix v r
    assume r: "pl_user r = v" "pl_revision r = plan_expected q + 1" "plan_revision (plan_row db v) = plan_expected q"
      "\<And>w. plan_row (plan_step q db) w = (if w = v then Some r else plan_row db w)"
    with 2(2) have "u = v" by (auto split: if_splits)
    with r show ?thesis by (simp add: plan_revision_def)
  qed
qed

text \<open>The revisions expected by the requests of a history that changed a learner's plan.\<close>

fun plan_swaps :: "string \<Rightarrow> plan_request list \<Rightarrow> database \<Rightarrow> int list" where
  "plan_swaps u [] db = []"
| "plan_swaps u (q # qs) db = (if plan_row (plan_step q db) u = plan_row db u then [] else [plan_expected q]) @
     plan_swaps u qs (plan_step q db)"

lemma plan_swaps_changing: "plan_swaps u qs db = map plan_expected (plan_changes.changing u qs db)"
  by (induction qs arbitrary: db) auto

lemma stored_state_ok:
  assumes "plans_ok db"
  shows "\<exists>st. stored_state (plan_row db u) = Inr st \<and> valid_state st \<and> distinct (map step_key (ps_steps st))"
proof (cases "plan_row db u")
  case None
  then show ?thesis by (simp add: stored_state_def empty_plan_def valid_state_def)
next
  case (Some r)
  then have "plan_ok r" using assms by (auto simp: plans_ok_def list_all_iff plan_row_by dest: row_by_SomeD)
  then show ?thesis by (auto simp: Some stored_state_def plan_ok_def parse_normalized)
qed

text \<open>
  C22: stored plans are well-formed. After any history of saves by any learners every stored plan is a valid state of
  the schema within the size limit, with distinct steps, and reads back, so no learner gets the 503 of an unreadable
  plan. The saves that changed a plan expected consecutive revisions, so none was lost.
\<close>

theorem stored_plans_stay_valid:
  assumes "plans_ok db"
  shows "plans_ok (fold plan_step qs db) \<and>
    (\<exists>st. stored_state (plan_row (fold plan_step qs db) u) = Inr st \<and> valid_state st \<and> distinct (map step_key (ps_steps st))) \<and>
    plan_swaps u qs db = map (\<lambda>k. plan_revision (plan_row db u) + int k) [0..<length (plan_swaps u qs db)] \<and>
    plan_revision (plan_row (fold plan_step qs db) u) = plan_revision (plan_row db u) + int (length (plan_swaps u qs db))"
  using plan_changes.ok_run [OF assms, of qs] stored_state_ok [OF plan_changes.ok_run [OF assms], of qs u]
    plan_changes.no_lost_update [OF assms, of u qs] by (simp add: plan_swaps_changing)

section \<open>Erased accounts\<close>

lemma gone_save_plan:
  assumes "save_plan e ts us lang d db = Inr (v, db')" "gone db w"
  shows "gone db' w"
  using assms(1)
proof (cases rule: save_plan_cases)
  case (change t fp)
  have w: "us_id us \<noteq> w" using change(1) assms(2) gone_erased by auto
  then have new: "pl_user (saved_plan_row e (us_id us) d fp) \<noteq> w" by (simp add: saved_plan_row_def)
  have "no_row pl_user w t"
    using change(6) gone_row(7) [OF assms(2)] new by (cases "plan_row db (us_id us)") (auto simp: no_row_def row_simps)
  with assms(2) show ?thesis unfolding change(5) by (intro gone_write) simp_all
qed (use assms(2) in simp)

interpretation plan_steps: guarded plan_step
  by unfold_locales (auto simp: plan_step_def intro!: gone_committed elim: gone_save_plan)

section \<open>An example\<close>

definition python_plan :: "int \<Rightarrow> plan_save" where
  "python_plan n = \<lparr>sp_request = ''r1'', sp_expected = n, sp_state = \<lparr>ps_character = Some Einsteiger, ps_preference = None,
     ps_steps = [Course_step ''python'' None None]\<rparr>\<rparr>"

lemma stored_plans_stay_valid_witness:
  "plan_swaps ''u'' [(example_env, [], example_user, De, python_plan 0), (example_env, [], example_user, De, python_plan 5)] empty_db = [0] \<and>
    (\<exists>st. stored_state (plan_row (fold plan_step [(example_env, [], example_user, De, python_plan 0),
      (example_env, [], example_user, De, python_plan 5)] empty_db) ''u'') = Inr st \<and> valid_state st)"
proof -
  have ok: "plans_ok empty_db" by (simp add: plans_ok_def empty_db_def unique_by_def)
  have "plan_swaps ''u'' [(example_env, [], example_user, De, python_plan 0), (example_env, [], example_user, De, python_plan 5)] empty_db = [0]"
    by code_simp
  with stored_plans_stay_valid [OF ok, of _ "''u''"] show ?thesis by blast
qed

end
