(* ===== verification/Recommend.thy ===== *)
theory Recommend
  imports Learnplan Skilltree
begin

text \<open>
  Suggestions of courses for a learner's plan (\<^verbatim>\<open>services/recommendations.py\<close>, \<open>skill_graph\<close> and
  \<open>suggestions\<close> of \<^verbatim>\<open>services/learning_plan.py\<close>): a pure function of the skill tree, the learner and the content.
  Mappings to sets are association lists of lists; the order within a set is never read.

  Main results: the depth of a root is computed by a search that ends on every graph, cyclic or not, and a suggestion is
  an existing course that is neither planned nor done, with a reason that holds, and the best ones come first.
\<close>

section \<open>The graph and the learner\<close>

record skill_graph =
  sg_roots :: "(string \<times> string list) list"
  sg_sub_roots :: "(string \<times> string) list"
  sg_sub_deps :: "(string \<times> string list) list"
  sg_courses :: "(string \<times> string list) list"

record learner =
  ln_character :: "level option"
  ln_preference :: "preference option"
  ln_planned :: "string list"
  ln_tracks :: "string list"
  ln_xp :: "string list"
  ln_completed :: "string list"

datatype reason = Next_after string | In_track string | New_area | Deepen | Level_fit

record suggestion =
  su_course :: string
  su_reason :: reason
  su_score :: int

definition LIMIT :: nat where "LIMIT = 6"
definition NEXT_AFTER :: int where "NEXT_AFTER = 4"
definition IN_TRACK :: int where "IN_TRACK = 3"
definition PREFERENCE :: int where "PREFERENCE = 2"
definition NOT_READY :: int where "NOT_READY = - 2"

definition LEVEL_FIT :: "int \<Rightarrow> int" where
  "LEVEL_FIT d = (if d = 0 then 2 else if d = 1 then 0 else - 3)"

definition level_rank :: "level \<Rightarrow> int" where
  "level_rank l = (case l of Einsteiger \<Rightarrow> 0 | Fortgeschritten \<Rightarrow> 1 | Profi \<Rightarrow> 2)"

definition set_at :: "(string \<times> string list) list \<Rightarrow> string \<Rightarrow> string list" where
  "set_at t k = (case map_of t k of None \<Rightarrow> [] | Some xs \<Rightarrow> xs)"

section \<open>Depth of a root skill\<close>

definition nodes :: "(string \<times> string list) list \<Rightarrow> string set" where
  "nodes t = fst ` set t \<union> (\<Union>e \<in> set t. set (snd e))"

lemma finite_nodes [simp]: "finite (nodes t)"
  by (simp add: nodes_def)

lemma set_at_node: "x \<in> set (set_at t k) \<Longrightarrow> k \<in> nodes t"
proof -
  assume "x \<in> set (set_at t k)"
  then obtain xs where "map_of t k = Some xs" by (cases "map_of t k") (auto simp: set_at_def)
  from map_of_SomeD [OF this] show ?thesis by (force simp: nodes_def)
qed

lemma visit_smaller:
  assumes "filter P (sorted_set (set_at t root)) \<noteq> []" "root \<notin> set visiting"
  shows "card (nodes t - insert root (set visiting)) < card (nodes t - set visiting)"
proof -
  from assms(1) obtain x where "x \<in> set (set_at t root)" by (auto simp: filter_empty_conv)
  then have "root \<in> nodes t" by (rule set_at_node)
  with assms(2) show ?thesis by (intro psubset_card_mono) auto
qed

text \<open>
  \<open>depth_visit\<close> is the inner function \<open>depth\<close>, with the dictionary of depths passed along; \<open>depths_below\<close> its list
  comprehension. A root on the way is never visited again, so the first case is not reached from outside.
\<close>

function (sequential) depth_visit :: "(string \<times> string list) list \<Rightarrow> string \<Rightarrow> string list \<Rightarrow> (string \<rightharpoonup> int) \<Rightarrow> int \<times> (string \<rightharpoonup> int)"
  and depths_below :: "(string \<times> string list) list \<Rightarrow> string list \<Rightarrow> string list \<Rightarrow> (string \<rightharpoonup> int) \<Rightarrow> int list \<times> (string \<rightharpoonup> int)" where
  "depth_visit t root visiting depths = (case depths root of Some v \<Rightarrow> (v, depths)
     | None \<Rightarrow>
       let deps = filter (\<lambda>d. d \<notin> set visiting \<and> d \<noteq> root) (sorted_set (set_at t root)) in
       if deps = [] \<or> root \<in> set visiting then (0, depths(root \<mapsto> 0))
       else let (below, depths) = depths_below t deps (root # visiting) depths; v = 1 + Max (set below)
         in (v, depths(root \<mapsto> v)))"
| "depths_below t [] visiting depths = ([], depths)"
| "depths_below t (d # ds) visiting depths =
     (let (v, depths) = depth_visit t d visiting depths; (vs, depths) = depths_below t ds visiting depths in (v # vs, depths))"
  by pat_completeness auto

termination
proof (relation "measures [\<lambda>a. case a of Inl (t, r, vis, m) \<Rightarrow> card (nodes t - set vis) | Inr (t, ds, vis, m) \<Rightarrow> card (nodes t - set vis),
    \<lambda>a. case a of Inl _ \<Rightarrow> 0 | Inr _ \<Rightarrow> 1, \<lambda>a. case a of Inl _ \<Rightarrow> 0 | Inr (t, ds, vis, m) \<Rightarrow> length ds]", goal_cases)
  case (2 t root visiting depths deps)
  then show ?case using visit_smaller [of "\<lambda>d. d \<notin> set visiting \<and> d \<noteq> root" t root visiting] by simp
qed simp_all

definition root_depths :: "(string \<times> string list) list \<Rightarrow> string \<rightharpoonup> int" where
  "root_depths t = fold (\<lambda>root depths. snd (depth_visit t root [] depths)) (sorted_set (map fst t)) Map.empty"

section \<open>The graph seen from one learner\<close>

definition course_skills :: "skill_graph \<Rightarrow> string \<Rightarrow> string list" where
  "course_skills g c = set_at (sg_courses g) c"

definition course_roots :: "skill_graph \<Rightarrow> string \<Rightarrow> string list" where
  "course_roots g c = List.map_filter (map_of (sg_sub_roots g)) (course_skills g c)"

definition plan_roots :: "skill_graph \<Rightarrow> learner \<Rightarrow> string set" where
  "plan_roots g l = set (concat (map (course_roots g) (ln_planned l)))"

text \<open>Roots with progress, and those with progress or a planned course.\<close>

definition satisfied_roots :: "skill_graph \<Rightarrow> learner \<Rightarrow> string set" where
  "satisfied_roots g l = set (List.map_filter (map_of (sg_sub_roots g)) (ln_xp l)) \<union>
     set (concat (map (course_roots g) (ln_completed l)))"

definition known_roots :: "skill_graph \<Rightarrow> learner \<Rightarrow> string set" where
  "known_roots g l = satisfied_roots g l \<union> plan_roots g l"

definition covered_skills :: "skill_graph \<Rightarrow> learner \<Rightarrow> string set" where
  "covered_skills g l = set (ln_xp l) \<union> set (concat (map (course_skills g) (ln_completed l @ ln_planned l)))"

definition course_level :: "skill_graph \<Rightarrow> (string \<times> level option) list \<Rightarrow> string \<Rightarrow> int option" where
  "course_level g levels c = (case map_of levels c of
     Some (Some l) \<Rightarrow> Some (level_rank l)
   | _ \<Rightarrow> if course_roots g c = [] then None
       else Some (Min (set (map (\<lambda>r. min (case root_depths (sg_roots g) r of None \<Rightarrow> 0 | Some d \<Rightarrow> d) 2) (course_roots g c)))))"

definition course_ready :: "skill_graph \<Rightarrow> learner \<Rightarrow> string \<Rightarrow> bool" where
  "course_ready g l c \<longleftrightarrow> list_all (\<lambda>s. set (set_at (sg_sub_deps g) s) \<subseteq> covered_skills g l) (course_skills g c)"

definition follows :: "skill_graph \<Rightarrow> learner \<Rightarrow> string \<Rightarrow> string \<Rightarrow> bool" where
  "follows g l c anchor \<longleftrightarrow>
     list_ex (\<lambda>s. set (set_at (sg_sub_deps g) s) \<inter> set (course_skills g anchor) \<noteq> {}) (course_skills g c) \<or>
     list_ex (\<lambda>r. set (set_at (sg_roots g) r) \<inter> set (course_roots g anchor) \<noteq> {} \<and>
       set (set_at (sg_roots g) r) \<subseteq> satisfied_roots g l \<union> plan_roots g l) (course_roots g c)"

section \<open>Suggestions\<close>

definition anchors :: "learner \<Rightarrow> string list" where
  "anchors l = fromkeys (ln_planned l) @ sorted_set (filter (\<lambda>c. c \<notin> set (ln_planned l)) (ln_completed l))"

definition eligible :: "skill_graph \<Rightarrow> learner \<Rightarrow> (string \<times> level option) list \<Rightarrow> string \<Rightarrow> bool" where
  "eligible g l levels c \<longleftrightarrow> c \<in> fst ` set levels \<and> c \<notin> set (ln_planned l) \<and> c \<notin> set (ln_completed l)"

definition points :: "bool \<Rightarrow> int \<Rightarrow> int" where
  "points b n = (if b then n else 0)"

definition rate :: "skill_graph \<Rightarrow> learner \<Rightarrow> (string \<times> level option) list \<Rightarrow> (string \<times> string list) list \<Rightarrow> string \<Rightarrow> suggestion" where
  "rate g l levels tracks c =
     (let character = (case ln_character l of None \<Rightarrow> 0 | Some x \<Rightarrow> level_rank x);
          preference = (case ln_preference l of None \<Rightarrow> Breit | Some p \<Rightarrow> p);
          ready = course_ready g l c; own = course_roots g c;
          after = (if ready then find (\<lambda>a. a \<noteq> c \<and> follows g l c a) (anchors l) else None);
          track = find (\<lambda>t. c \<in> set (set_at tracks t)) (ln_tracks l);
          new_area = (preference = Breit \<and> ready \<and>
            list_ex (\<lambda>r. r \<notin> known_roots g l \<and> set (set_at (sg_roots g) r) \<subseteq> satisfied_roots g l) own);
          deepen = (preference = Tief \<and> set own \<inter> known_roots g l \<noteq> {});
          score = (case course_level g levels c of None \<Rightarrow> 0 | Some x \<Rightarrow> LEVEL_FIT \<bar>x - character\<bar>) +
            points (after \<noteq> None) NEXT_AFTER + points (track \<noteq> None) IN_TRACK +
            points (new_area \<or> deepen) PREFERENCE + points (\<not> ready) NOT_READY
      in \<lparr>su_course = c, su_reason = (case after of Some a \<Rightarrow> Next_after a
           | None \<Rightarrow> (case track of Some t \<Rightarrow> In_track t
             | None \<Rightarrow> if new_area then New_area else if deepen then Deepen else Level_fit)), su_score = score\<rparr>)"

definition rank_of :: "suggestion \<Rightarrow> int \<times> string" where
  "rank_of s = (- su_score s, su_course s)"

definition candidates :: "skill_graph \<Rightarrow> learner \<Rightarrow> (string \<times> level option) list \<Rightarrow> (string \<times> string list) list \<Rightarrow> suggestion list" where
  "candidates g l levels tracks = map (rate g l levels tracks) (filter (eligible g l levels) (sorted_set (map fst (sg_courses g))))"

definition suggest :: "skill_graph \<Rightarrow> learner \<Rightarrow> (string \<times> level option) list \<Rightarrow> (string \<times> string list) list \<Rightarrow> suggestion list" where
  "suggest g l levels tracks = take LIMIT (sort_key rank_of (candidates g l levels tracks))"

section \<open>The handler\<close>

definition graph_of :: "database \<Rightarrow> skill_graph" where
  "graph_of db = \<lparr>
     sg_roots = map (\<lambda>k. (k, deps_of (root_deps db) k)) (fromkeys (map rk_id (root_skills db) @ map dp_dependent (root_deps db))),
     sg_sub_roots = map (\<lambda>s. (sk_id s, sk_parent s)) (sub_skills db),
     sg_sub_deps = map (\<lambda>k. (k, deps_of (sub_deps db) k)) (fromkeys (map dp_dependent (sub_deps db))),
     sg_courses = map (\<lambda>c. (c, map sc_skill (all_rows (\<lambda>r. sc_course r = c) (skill_courses db)))) (fromkeys (map sc_course (skill_courses db)))\<rparr>"

fun step_track :: "step_state \<Rightarrow> string option" where
  "step_track (Course_step c t s) = t"
| "step_track (External_step t s i d) = Some t"

definition learner_of :: "env \<Rightarrow> tracks \<Rightarrow> database \<Rightarrow> string \<Rightarrow> plan_state \<Rightarrow> (string \<times> course_state) list \<Rightarrow> string list \<Rightarrow> learner" where
  "learner_of e ts db u st progress planned = \<lparr>ln_character = ps_character st, ln_preference = ps_preference st, ln_planned = planned,
     ln_tracks = fromkeys (filter (\<lambda>t. track_by ts t \<noteq> None) (List.map_filter step_track (ps_steps st))),
     ln_xp = map xp_skill (all_rows (\<lambda>x. xp_user x = u \<and> 0 < xp_xp x) (xps db)),
     ln_completed = map fst (filter (\<lambda>p. cg_status (snd p) = Item_done) progress)\<rparr>"

definition suggestions :: "env \<Rightarrow> tracks \<Rightarrow> user \<Rightarrow> language \<Rightarrow> database \<Rightarrow> (suggestion \<times> ustr) list result" where
  "suggestions e ts us lang db = bind_r (require_account db (us_id us)) (\<lambda>_.
     bind_r (stored_state (plan_row db (us_id us))) (\<lambda>st.
     let planned = filter (\<lambda>c. course_by e c \<noteq> None) (List.map_filter step_course (ps_steps st)); g = graph_of db in
     bind_r (course_progress e db us (map fst (sg_courses g) @ planned)) (\<lambda>progress.
     map_r (\<lambda>s. case course_by e (su_course s) of None \<Rightarrow> Inl (Crash ''KeyError'') | Some co \<Rightarrow> Inr (s, course_title co lang))
       (suggest g (learner_of e ts db (us_id us) st progress planned) (map (\<lambda>c. (co_id c, co_level c)) (en_courses e))
         (map (\<lambda>t. (td_id t, track_courses t)) ts)))))"

section \<open>What is suggested\<close>

text \<open>The reason given holds.\<close>

definition reason_holds :: "skill_graph \<Rightarrow> learner \<Rightarrow> (string \<times> string list) list \<Rightarrow> suggestion \<Rightarrow> bool" where
  "reason_holds g l tracks s \<longleftrightarrow> (case su_reason s of
     Next_after a \<Rightarrow> course_ready g l (su_course s) \<and> a \<noteq> su_course s \<and> a \<in> set (ln_planned l) \<union> set (ln_completed l) \<and>
       follows g l (su_course s) a
   | In_track t \<Rightarrow> t \<in> set (ln_tracks l) \<and> su_course s \<in> set (set_at tracks t)
   | New_area \<Rightarrow> course_ready g l (su_course s) \<and> ln_preference l \<noteq> Some Tief \<and>
       \<not> set (course_roots g (su_course s)) \<subseteq> known_roots g l
   | Deepen \<Rightarrow> ln_preference l = Some Tief \<and> set (course_roots g (su_course s)) \<inter> known_roots g l \<noteq> {}
   | Level_fit \<Rightarrow> True)"

lemma rate_course [simp]: "su_course (rate g l levels tracks c) = c"
  by (simp add: rate_def Let_def)

lemma find_SomeD: "find P xs = Some x \<Longrightarrow> P x \<and> x \<in> set xs"
  by (auto simp: find_Some_iff)

lemma rate_reason: "reason_holds g l tracks (rate g l levels tracks c)"
  unfolding reason_holds_def rate_def Let_def
  by (auto simp: anchors_def list_ex_iff split: option.splits if_splits preference.splits dest!: find_SomeD)

lemma take_sorted_best:
  assumes "x \<in> set xs" "x \<notin> set (take n (sort_key f xs))"
  shows "length (take n (sort_key f xs)) = n \<and> (\<forall>y \<in> set (take n (sort_key f xs)). f y \<le> f x)"
proof -
  let ?ys = "sort_key f xs"
  have "x \<in> set (take n ?ys @ drop n ?ys)" using assms(1) by simp
  with assms(2) have d: "x \<in> set (drop n ?ys)" by (metis Un_iff set_append)
  then have "n < length ?ys" by (metis drop_all empty_iff empty_set leI)
  moreover have "sorted (map f (take n ?ys @ drop n ?ys))" by (simp only: append_take_drop_id) simp
  then have "\<forall>y\<in>set (take n ?ys). \<forall>z\<in>set (drop n ?ys). f y \<le> f z" unfolding map_append sorted_append by simp
  ultimately show ?thesis using d by simp
qed

text \<open>
  C25: suggestions are sound and the best ones. At most six courses are suggested, each once, best first; every one exists,
  is in the skill tree and is neither planned nor done, and its reason holds. A course that could be suggested and is
  not has been displaced by six that rank at least as high.
\<close>

theorem suggestions_are_best:
  assumes "ss = suggest g l levels tracks"
  shows "length ss \<le> LIMIT \<and> distinct (map su_course ss) \<and> sorted (map rank_of ss) \<and>
    (\<forall>s\<in>set ss. eligible g l levels (su_course s) \<and> su_course s \<in> fst ` set (sg_courses g) \<and> reason_holds g l tracks s) \<and>
    (\<forall>c \<in> fst ` set (sg_courses g). eligible g l levels c \<longrightarrow> c \<notin> su_course ` set ss \<longrightarrow>
      length ss = LIMIT \<and> (\<forall>s\<in>set ss. rank_of s \<le> rank_of (rate g l levels tracks c)))"
proof -
  let ?cs = "candidates g l levels tracks"
  have sub: "set ss \<subseteq> set ?cs" using assms set_take_subset [of LIMIT "sort_key rank_of ?cs"] by (simp add: suggest_def)
  have names: "map su_course ?cs = filter (eligible g l levels) (sorted_set (map fst (sg_courses g)))"
    by (simp add: candidates_def comp_def)
  have dcs: "distinct (map su_course ?cs)" by (simp add: names)
  then have "distinct ?cs" by (simp add: distinct_map)
  have inj: "inj_on su_course (set ?cs)" using dcs by (simp add: distinct_map)
  have "distinct ss" using \<open>distinct ?cs\<close> by (simp add: assms suggest_def)
  moreover have "inj_on su_course (set ss)" by (rule inj_on_subset [OF inj sub])
  ultimately have d: "distinct (map su_course ss)" by (simp add: distinct_map)
  have s: "sorted (map rank_of ss)" by (simp add: assms suggest_def take_map [symmetric] sorted_wrt_take)
  have each: "eligible g l levels (su_course s) \<and> su_course s \<in> fst ` set (sg_courses g) \<and> reason_holds g l tracks s" if "s \<in> set ss" for s
  proof -
    have "s \<in> set ?cs" using sub that by blast
    then obtain c where "s = rate g l levels tracks c" "eligible g l levels c" "c \<in> fst ` set (sg_courses g)"
      by (auto simp: candidates_def)
    then show ?thesis by (simp add: rate_reason)
  qed
  have best: "length ss = LIMIT \<and> (\<forall>s\<in>set ss. rank_of s \<le> rank_of (rate g l levels tracks c))"
    if c: "c \<in> fst ` set (sg_courses g)" "eligible g l levels c" "c \<notin> su_course ` set ss" for c
  proof -
    have "rate g l levels tracks c \<in> set ?cs" using c(1,2) by (auto simp: candidates_def)
    moreover have "rate g l levels tracks c \<notin> set ss" using c(3) by (metis image_eqI rate_course)
    ultimately show ?thesis using take_sorted_best [of _ ?cs LIMIT rank_of] by (simp add: assms suggest_def)
  qed
  show ?thesis using d s each best by (auto simp: assms suggest_def)
qed

text \<open>Two courses of one root, the second after the first, which is done: the second is suggested for that reason.\<close>

definition two_courses :: skill_graph where
  "two_courses = \<lparr>sg_roots = [(''data'', [])], sg_sub_roots = [(''sql'', ''data''), (''models'', ''data'')],
     sg_sub_deps = [(''models'', [''sql''])], sg_courses = [(''c1'', [''sql'']), (''c2'', [''models''])]\<rparr>"

definition example_learner :: learner where
  "example_learner = \<lparr>ln_character = None, ln_preference = None, ln_planned = [], ln_tracks = [], ln_xp = [], ln_completed = [''c1'']\<rparr>"

lemma suggestions_are_best_witness:
  "suggest two_courses example_learner [(''c1'', None), (''c2'', None)] [] =
     [\<lparr>su_course = ''c2'', su_reason = Next_after ''c1'', su_score = 6\<rparr>] \<and>
   reason_holds two_courses example_learner [] \<lparr>su_course = ''c2'', su_reason = Next_after ''c1'', su_score = 6\<rparr>"
proof -
  have s: "suggest two_courses example_learner [(''c1'', None), (''c2'', None)] [] =
     [\<lparr>su_course = ''c2'', su_reason = Next_after ''c1'', su_score = 6\<rparr>]" by code_simp
  from suggestions_are_best [OF s [symmetric]] s show ?thesis by simp
qed

end
