(* ===== verification/Projects.thy ===== *)
theory Projects
  imports Rooms
begin

text \<open>
  The private project of a learner in a course (\<^verbatim>\<open>services/course_project.py\<close>), shared by the lessons of the course
  and admitted like one of them. The state is any JSON object; the size of its compact UTF-8 text (\<open>size\<close>) is a
  parameter. The newest sixteen receipts of a course are kept for exact retries.
\<close>

section \<open>Requests and answers\<close>

definition PROJECT_STATE_LIMIT :: int where "PROJECT_STATE_LIMIT = 65536"
definition KEPT_RECEIPTS :: nat where "KEPT_RECEIPTS = 16"

record project_save =
  sv_request :: string
  sv_expected :: int
  sv_state :: json

record project_view =
  px_course :: string
  px_revision :: int
  px_state :: json
  px_updated :: "int option"

definition valid_project :: "project_save \<Rightarrow> bool" where
  "valid_project d \<longleftrightarrow> 0 \<le> sv_expected d \<and> sv_expected d \<le> 2147483646 \<and> (case sv_state d of JObj es \<Rightarrow> True | _ \<Rightarrow> False)"

definition project_envelope :: "string \<Rightarrow> course_project option \<Rightarrow> project_view" where
  "project_envelope c row = (case row of
     None \<Rightarrow> \<lparr>px_course = c, px_revision = 0, px_state = JObj [], px_updated = None\<rparr>
   | Some r \<Rightarrow> \<lparr>px_course = c, px_revision = pr_revision r, px_state = pr_state r, px_updated = Some (pr_updated r)\<rparr>)"

definition project_fingerprint :: "env \<Rightarrow> string \<Rightarrow> project_save \<Rightarrow> string" where
  "project_fingerprint e c d = en_sha256 e (en_dumps e (jobj [(''course_id'', js c), (''expected_revision'', JInt (sv_expected d)),
     (''state'', sv_state d)]))"

definition project_of :: "database \<Rightarrow> string \<Rightarrow> string \<Rightarrow> course_project option" where
  "project_of db u c = first_row (\<lambda>r. pr_user r = u \<and> pr_course r = c) (projects db)"

definition project_receipt :: "database \<Rightarrow> string \<Rightarrow> string \<Rightarrow> project_request option" where
  "project_receipt db u r = first_row (\<lambda>x. pq_user x = u \<and> pq_request x = r) (project_requests db)"

definition get_project :: "env \<Rightarrow> string \<Rightarrow> user \<Rightarrow> database \<Rightarrow> project_view result" where
  "get_project e c us db = (if erased db (us_id us) then Inl (Http 401 ''account gone'')
     else bind_r (require_course_lessons e db us c) (\<lambda>_. Inr (project_envelope c (project_of db (us_id us) c))))"

section \<open>Saving\<close>

definition prune_projects :: "string \<Rightarrow> string \<Rightarrow> project_request list \<Rightarrow> project_request list" where
  "prune_projects u c t = (let own = (\<lambda>r. pq_user r = u \<and> pq_course r = c);
       keep = map pq_request (take KEPT_RECEIPTS (rev (sort_key pq_revision (all_rows own t))))
     in delete_rows (\<lambda>r. own r \<and> pq_request r \<notin> set keep) t)"

definition project_row :: "env \<Rightarrow> string \<Rightarrow> string \<Rightarrow> project_save \<Rightarrow> course_project" where
  "project_row e u c d = \<lparr>pr_user = u, pr_course = c, pr_revision = sv_expected d + 1, pr_state = sv_state d, pr_updated = en_now e\<rparr>"

definition write_project :: "env \<Rightarrow> string \<Rightarrow> user \<Rightarrow> project_save \<Rightarrow> string \<Rightarrow> project_view handler" where
  "write_project e c us d fp db = (let u = us_id us; hit = (\<lambda>r. pr_user r = u \<and> pr_course r = c \<and> pr_revision r = sv_expected d) in
     bind_r (case project_of db u c of
         None \<Rightarrow> Inr (add_row (project_row e u c d) (projects db))
       | Some r \<Rightarrow> if count_rows hit (projects db) \<noteq> 1 then Inl (Http 409 ''changed in another session'')
           else Inr (update_rows hit (\<lambda>_. project_row e u c d) (projects db))) (\<lambda>t.
     let receipt = \<lparr>pq_user = u, pq_request = sv_request d, pq_course = c, pq_revision = sv_expected d + 1, pq_fingerprint = fp,
           pq_updated = en_now e\<rparr>
     in Inr (\<lparr>px_course = c, px_revision = sv_expected d + 1, px_state = sv_state d, px_updated = Some (en_now e)\<rparr>,
          db\<lparr>projects := t, project_requests := prune_projects u c (add_row receipt (project_requests db))\<rparr>)))"

definition save_project :: "env \<Rightarrow> (json \<Rightarrow> int) \<Rightarrow> string \<Rightarrow> user \<Rightarrow> project_save \<Rightarrow> project_view handler" where
  "save_project e size_of c us d db0 = (let (account, db) = lock_user db0 (us_id us) in
     if pu_deleted account then Inl (Http 401 ''account gone'')
     else bind_r (require_course_lessons e db us c) (\<lambda>_.
       if size_of (sv_state d) > PROJECT_STATE_LIMIT then Inl (Http 413 ''project too large'')
       else let fp = project_fingerprint e c d in
       case project_receipt db (us_id us) (sv_request d) of
         Some r \<Rightarrow> if pq_fingerprint r \<noteq> fp then Inl (Http 409 ''request used for another change'')
           else Inr (\<lparr>px_course = c, px_revision = pq_revision r, px_state = sv_state d, px_updated = Some (pq_updated r)\<rparr>, db)
       | None \<Rightarrow> if px_revision (project_envelope c (project_of db (us_id us) c)) \<noteq> sv_expected d
           then Inl (Http 409 ''changed in another session'')
           else write_project e c us d fp db))"

section \<open>What a save changes\<close>

definition project_key :: "course_project \<Rightarrow> string \<times> string" where
  "project_key r = (pr_user r, pr_course r)"

lemma project_of_by: "project_of db u c = row_by project_key (u, c) (projects db)"
  by (simp add: project_of_def row_by_def project_key_def)

definition project_revision :: "course_project option \<Rightarrow> int" where
  "project_revision row = (case row of None \<Rightarrow> 0 | Some r \<Rightarrow> pr_revision r)"

lemma envelope_revision [simp]: "px_revision (project_envelope c row) = project_revision row"
  by (simp add: project_envelope_def project_revision_def split: option.split)

lemma save_project_cases [consumes 1, case_names replay change]:
  assumes "save_project e sz c us d db0 = Inr (v, db')"
  obtains (replay) r where "db' = snd (lock_user db0 (us_id us))" "\<not> erased db0 (us_id us)"
      "project_receipt db0 (us_id us) (sv_request d) = Some r" "pq_fingerprint r = project_fingerprint e c d"
      "px_revision v = pq_revision r" "px_state v = sv_state d"
  | (change) t where "\<not> erased db0 (us_id us)" "project_receipt db0 (us_id us) (sv_request d) = None"
      "sz (sv_state d) \<le> PROJECT_STATE_LIMIT" "project_revision (project_of db0 (us_id us) c) = sv_expected d"
      "db' = (snd (lock_user db0 (us_id us)))\<lparr>projects := t, project_requests := prune_projects (us_id us) c (add_row
         \<lparr>pq_user = us_id us, pq_request = sv_request d, pq_course = c, pq_revision = sv_expected d + 1,
           pq_fingerprint = project_fingerprint e c d, pq_updated = en_now e\<rparr> (project_requests db0))\<rparr>"
      "(case project_of db0 (us_id us) c of None \<Rightarrow> t = add_row (project_row e (us_id us) c d) (projects db0)
        | Some r \<Rightarrow> t = update_rows (\<lambda>r. pr_user r = us_id us \<and> pr_course r = c \<and> pr_revision r = sv_expected d)
            (\<lambda>_. project_row e (us_id us) c d) (projects db0))"
proof -
  define db where "db = snd (lock_user db0 (us_id us))"
  have same: "project_receipt db = project_receipt db0" "project_of db = project_of db0"
    "projects db = projects db0" "project_requests db = project_requests db0"
    by (simp_all add: db_def project_receipt_def project_of_def fun_eq_iff)
  show thesis
  proof (cases "project_receipt db0 (us_id us) (sv_request d)")
    case (Some r)
    with assms replay show thesis
      by (auto simp: save_project_def Let_def case_prod_beta result_simps db_def [symmetric] same split: if_splits)
  next
    case None
    with assms have w: "\<not> erased db0 (us_id us)" "sz (sv_state d) \<le> PROJECT_STATE_LIMIT"
        "project_revision (project_of db0 (us_id us) c) = sv_expected d"
        "write_project e c us d (project_fingerprint e c d) db = Inr (v, db')"
      by (auto simp: save_project_def Let_def case_prod_beta result_simps db_def [symmetric] same split: if_splits)
    from w(4) obtain t where t: "db' = db\<lparr>projects := t, project_requests := prune_projects (us_id us) c (add_row
         \<lparr>pq_user = us_id us, pq_request = sv_request d, pq_course = c, pq_revision = sv_expected d + 1,
           pq_fingerprint = project_fingerprint e c d, pq_updated = en_now e\<rparr> (project_requests db0))\<rparr>"
      "(case project_of db0 (us_id us) c of None \<Rightarrow> t = add_row (project_row e (us_id us) c d) (projects db0)
        | Some r \<Rightarrow> t = update_rows (\<lambda>r. pr_user r = us_id us \<and> pr_course r = c \<and> pr_revision r = sv_expected d)
            (\<lambda>_. project_row e (us_id us) c d) (projects db0))"
      by (auto simp: write_project_def Let_def result_simps same split: option.splits if_splits)
    show thesis using change [OF w(1) None w(2,3) _ t(2)] t(1) by (simp add: db_def)
  qed
qed

text \<open>
  The course projects of the tables: one per learner and course, a request id is used once, no receipt runs ahead of its
  project, and at most sixteen are kept per learner and course.
\<close>

definition request_id :: "project_request \<Rightarrow> string \<times> string" where
  "request_id x = (pq_user x, pq_request x)"

definition kept_receipts :: "database \<Rightarrow> string \<Rightarrow> string \<Rightarrow> nat" where
  "kept_receipts db u c = count_rows (\<lambda>x. pq_user x = u \<and> pq_course x = c) (project_requests db)"

definition projects_ok :: "database \<Rightarrow> bool" where
  "projects_ok db \<longleftrightarrow> unique_by project_key (projects db) \<and> unique_by request_id (project_requests db) \<and>
     (\<forall>x\<in>set (project_requests db). pq_revision x \<le> project_revision (project_of db (pq_user x) (pq_course x))) \<and>
     (\<forall>u c. kept_receipts db u c \<le> KEPT_RECEIPTS)"

lemma receipt_by: "project_receipt db u r = row_by request_id (u, r) (project_requests db)"
  by (simp add: project_receipt_def row_by_def request_id_def)

lemma save_project_rows:
  assumes "save_project e sz c us d db0 = Inr (v, db')" "unique_by project_key (projects db0)"
    "project_receipt db0 (us_id us) (sv_request d) = None"
  shows "projects db' = upsert_by project_key (project_row e (us_id us) c d) (projects db0)"
  using assms(1)
proof (cases rule: save_project_cases)
  case (change t)
  have key: "project_key (project_row e (us_id us) c d) = (us_id us, c)" by (simp add: project_row_def project_key_def)
  show ?thesis
  proof (cases "project_of db0 (us_id us) c")
    case None
    with change(5,6) key show ?thesis by (simp add: upsert_by_def project_of_by)
  next
    case (Some r0)
    then have r0: "r0 \<in> set (projects db0)" "project_key r0 = (us_id us, c)" by (auto simp: project_of_by dest: row_by_SomeD)
    have rev: "pr_revision r0 = sv_expected d" using Some change(4) by (simp add: project_revision_def)
    have "update_rows (\<lambda>r. pr_user r = us_id us \<and> pr_course r = c \<and> pr_revision r = sv_expected d) (\<lambda>_. project_row e (us_id us) c d)
        (projects db0) = upsert_by project_key (project_row e (us_id us) c d) (projects db0)"
      by (rule update_one_row [OF assms(2) r0])
        (use r0(2) rev key in \<open>simp_all add: project_key_def\<close>)
    with change(5,6) Some show ?thesis by simp
  qed
qed (use assms(3) in simp)

text \<open>Pruning keeps the newest receipt and at most sixteen of the learner's receipts of the course.\<close>

lemma set_prune_projects: "set (prune_projects u c t) \<subseteq> set t"
  by (auto simp: prune_projects_def Let_def row_simps)

lemma count_other: "(v, k) \<noteq> (u, c) \<Longrightarrow>
    count_rows (\<lambda>x. pq_user x = v \<and> pq_course x = k) (prune_projects u c t) = count_rows (\<lambda>x. pq_user x = v \<and> pq_course x = k) t"
  unfolding prune_projects_def Let_def delete_rows_def count_rows_def filter_filter
  by (rule arg_cong [where f = length], rule filter_cong) auto

lemma count_pruned:
  assumes "unique_by request_id t"
  shows "count_rows (\<lambda>x. pq_user x = u \<and> pq_course x = c) (prune_projects u c t) \<le> KEPT_RECEIPTS"
proof -
  define keep where "keep = map pq_request (take KEPT_RECEIPTS (rev (sort_key pq_revision (all_rows (\<lambda>x. pq_user x = u \<and> pq_course x = c) t))))"
  define left where "left = filter (\<lambda>x. pq_user x = u \<and> pq_course x = c) (prune_projects u c t)"
  have sub: "set left \<subseteq> {x \<in> set t. pq_user x = u \<and> pq_request x \<in> set keep}"
    by (auto simp: left_def prune_projects_def Let_def row_simps keep_def)
  have "distinct (map request_id (prune_projects u c t))"
    using unique_by_delete [OF assms] by (simp add: prune_projects_def Let_def unique_by_def)
  then have "distinct (map request_id left)" unfolding left_def by (rule distinct_map_filter)
  moreover have "inj_on snd (request_id ` set left)" using sub by (auto simp: inj_on_def request_id_def)
  ultimately have "distinct (map (snd \<circ> request_id) left)"
    by (simp only: list.map_comp [symmetric] distinct_map [of snd] set_map)
  then have d: "distinct (map pq_request left)" by (simp add: comp_def request_id_def)
  have "length left = card (set (map pq_request left))" using distinct_card [OF d] by simp
  also have "\<dots> \<le> card (set keep)" using sub by (intro card_mono) auto
  also have "\<dots> \<le> length keep" by (rule card_length)
  also have "\<dots> \<le> KEPT_RECEIPTS" by (simp add: keep_def)
  finally show ?thesis by (simp add: left_def count_rows_def)
qed

lemma prune_keeps_newest_receipt:
  assumes "q \<in> set t" "pq_user q = u" "pq_course q = c"
    "\<And>x. x \<in> set t \<Longrightarrow> pq_user x = u \<Longrightarrow> pq_course x = c \<Longrightarrow> x \<noteq> q \<Longrightarrow> pq_revision x < pq_revision q"
  shows "q \<in> set (prune_projects u c t)"
proof -
  let ?own = "all_rows (\<lambda>x. pq_user x = u \<and> pq_course x = c) t"
  have mem: "q \<in> set ?own" using assms(1-3) by (simp add: row_simps)
  have "last (sort_key pq_revision ?own) = q"
    by (rule last_sort_key [OF mem]) (use assms(4) in \<open>auto simp: row_simps\<close>)
  moreover have "sort_key pq_revision ?own \<noteq> []" using mem by (metis empty_iff empty_set set_sort)
  ultimately obtain xs where "sort_key pq_revision ?own = xs @ [q]" by (metis append_butlast_last_id)
  then have "q \<in> set (take KEPT_RECEIPTS (rev (sort_key pq_revision ?own)))" by (simp add: KEPT_RECEIPTS_def)
  with assms(1) show ?thesis by (auto simp: prune_projects_def Let_def row_simps)
qed

lemma kept_lock [simp]: "projects_ok (snd (lock_user db u)) = projects_ok db"
  by (simp add: projects_ok_def kept_receipts_def project_of_def)

text \<open>A save that changes the tables: the row, the receipt and the invariant.\<close>

lemma save_project_ok:
  assumes run: "save_project e sz c us d db0 = Inr (v, db')" and ok: "projects_ok db0"
  shows "projects_ok db' \<and> (db' = snd (lock_user db0 (us_id us)) \<or>
    project_revision (project_of db0 (us_id us) c) = sv_expected d \<and>
    (\<forall>w k. project_of db' w k = (if (w, k) = (us_id us, c) then Some (project_row e (us_id us) c d) else project_of db0 w k))) \<and>
    (\<exists>q. project_receipt db' (us_id us) (sv_request d) = Some q \<and> pq_fingerprint q = project_fingerprint e c d \<and>
       pq_revision q = px_revision v \<and> px_state v = sv_state d)"
  using run
proof (cases rule: save_project_cases)
  case (replay r)
  then show ?thesis using ok by (auto simp: project_receipt_def)
next
  case (change t)
  define u where "u = us_id us"
  define q where "q = \<lparr>pq_user = u, pq_request = sv_request d, pq_course = c, pq_revision = sv_expected d + 1,
    pq_fingerprint = project_fingerprint e c d, pq_updated = en_now e\<rparr>"
  have un: "unique_by project_key (projects db0)" "unique_by request_id (project_requests db0)"
    and le: "\<And>x. x \<in> set (project_requests db0) \<Longrightarrow> pq_revision x \<le> project_revision (project_of db0 (pq_user x) (pq_course x))"
    and few: "\<And>w k. kept_receipts db0 w k \<le> KEPT_RECEIPTS"
    using ok by (auto simp: projects_ok_def)
  have rows: "projects db' = upsert_by project_key (project_row e u c d) (projects db0)"
    using save_project_rows [OF run un(1) change(2)] by (simp add: u_def)
  have key: "project_key (project_row e u c d) = (u, c)" by (simp add: project_row_def project_key_def)
  have of': "project_of db' w k = (if (w, k) = (u, c) then Some (project_row e u c d) else project_of db0 w k)" for w k
    by (simp add: project_of_by rows row_by_upsert key)
  have reqs: "project_requests db' = prune_projects u c (add_row q (project_requests db0))" by (simp add: change(5) q_def u_def)
  have new: "unique_by request_id (add_row q (project_requests db0))"
    using un(2) change(2) by (simp add: unique_by_add receipt_by row_by_None q_def request_id_def u_def)
  have q: "q \<in> set (project_requests db')"
    unfolding reqs
    by (rule prune_keeps_newest_receipt) (use le change(4) in \<open>fastforce simp: row_simps q_def u_def\<close>)+
  have uq: "unique_by request_id (project_requests db')"
    using unique_by_delete [OF new] by (simp add: reqs prune_projects_def Let_def)
  have rec: "project_receipt db' u (sv_request d) = Some q"
    using unique_by_row [OF uq q] by (simp add: receipt_by request_id_def q_def)
  have "kept_receipts db' w k \<le> KEPT_RECEIPTS" for w k
  proof (cases "(w, k) = (u, c)")
    case True
    then show ?thesis using count_pruned [OF new] by (simp add: kept_receipts_def reqs)
  next
    case False
    have "kept_receipts db' w k = count_rows (\<lambda>x. pq_user x = w \<and> pq_course x = k) (add_row q (project_requests db0))"
      unfolding kept_receipts_def reqs by (rule count_other [OF False])
    also have "\<dots> = kept_receipts db0 w k" using False by (auto simp: kept_receipts_def count_rows_def add_row_def q_def)
    finally show ?thesis using few by simp
  qed
  moreover have "pq_revision x \<le> project_revision (project_of db' (pq_user x) (pq_course x))" if "x \<in> set (project_requests db')" for x
  proof -
    have "x = q \<or> x \<in> set (project_requests db0)" using that set_prune_projects by (fastforce simp: reqs row_simps)
    then show ?thesis using le [of x] change(4) by (auto simp: of' q_def project_revision_def project_row_def u_def)
  qed
  moreover have "unique_by project_key (projects db')" unfolding rows by (rule unique_by_upsert [OF un(1)])
  ultimately have "projects_ok db'" using uq by (simp add: projects_ok_def)
  moreover have "px_revision v = sv_expected d + 1 \<and> px_state v = sv_state d"
    using run change(2) by (auto simp: save_project_def write_project_def Let_def case_prod_beta result_simps project_receipt_def split: if_splits)
  ultimately show ?thesis using of' rec change(4) by (simp add: u_def q_def)
qed

section \<open>Histories of saves\<close>

type_synonym project_call = "env \<times> (json \<Rightarrow> int) \<times> string \<times> user \<times> project_save"

definition project_step :: "project_call \<Rightarrow> database \<Rightarrow> database" where
  "project_step q db = (case q of (e, sz, c, us, d) \<Rightarrow> if valid_project d then committed db (save_project e sz c us d db) else db)"

definition project_expected :: "project_call \<Rightarrow> int" where
  "project_expected q = (case q of (e, sz, c, us, d) \<Rightarrow> sv_expected d)"

lemma project_step_cases:
  obtains "project_step q db = db"
  | e sz c us d v where "q = (e, sz, c, us, d)" "save_project e sz c us d db = Inr (v, project_step q db)"
proof -
  obtain e sz c us d where q: "q = (e, sz, c, us, d)" by (cases q) auto
  show thesis
  proof (cases "save_project e sz c us d db")
    case (Inl er)
    then have "project_step q db = db" by (simp add: project_step_def q)
    then show thesis by (rule that(1))
  next
    case (Inr r)
    show thesis
    proof (cases "valid_project d")
      case True
      with Inr have "save_project e sz c us d db = Inr (fst r, project_step q db)"
        by (cases r) (simp add: project_step_def q)
      with q show thesis by (rule that(2))
    next
      case False
      then have "project_step q db = db" by (simp add: project_step_def q)
      then show thesis by (rule that(1))
    qed
  qed
qed

lemma project_step_ok: "projects_ok db \<Longrightarrow> projects_ok (project_step q db)"
  by (rule project_step_cases [of q db]) (auto dest: save_project_ok)

interpretation project_changes: revisioned project_step projects_ok "\<lambda>db. project_of db u c" project_revision project_expected for u c
proof (unfold_locales, goal_cases)
  case (1 db q)
  then show ?case by (rule project_step_ok)
next
  case (2 db q)
  show ?case
  proof (rule project_step_cases [of q db])
    assume "project_step q db = db"
    with 2(2) show ?thesis by simp
  next
    fix e sz k us d v
    assume q: "q = (e, sz, k, us, d)" and run: "save_project e sz k us d db = Inr (v, project_step q db)"
    have "project_of (snd (lock_user db (us_id us))) = project_of db" by (simp add: project_of_def fun_eq_iff)
    with save_project_ok [OF run 2(1)] 2(2) have "project_revision (project_of db (us_id us) k) = sv_expected d"
      "\<forall>w l. project_of (project_step q db) w l = (if (w, l) = (us_id us, k) then Some (project_row e (us_id us) k d) else project_of db w l)"
      by metis+
    with 2(2) show ?thesis
      by (auto simp: q project_expected_def project_revision_def project_row_def split: if_splits)
  qed
qed

fun project_swaps :: "string \<Rightarrow> string \<Rightarrow> project_call list \<Rightarrow> database \<Rightarrow> int list" where
  "project_swaps u c [] db = []"
| "project_swaps u c (q # qs) db = (if project_of (project_step q db) u c = project_of db u c then [] else [project_expected q]) @
     project_swaps u c qs (project_step q db)"

lemma project_swaps_changing: "project_swaps u c qs db = map project_expected (project_changes.changing u c qs db)"
  by (induction qs arbitrary: db) auto

text \<open>
  No save of a project is lost, and a retry is answered. After any history of saves by any learners the saves that
  changed a project expected consecutive revisions; at most sixteen receipts are kept per learner and course; and after
  a successful save the same request again, if it is still admitted, gets the same revision and state and changes
  nothing.
\<close>

theorem project_saves_kept:
  assumes "projects_ok db"
  shows "project_swaps u c qs db = map (\<lambda>k. project_revision (project_of db u c) + int k) [0..<length (project_swaps u c qs db)] \<and>
    project_revision (project_of (fold project_step qs db) u c) =
      project_revision (project_of db u c) + int (length (project_swaps u c qs db)) \<and>
    kept_receipts (fold project_step qs db) u c \<le> KEPT_RECEIPTS \<and>
    (\<forall>e sz us d v db1 v' db2. save_project e sz c us d (fold project_step qs db) = Inr (v, db1) \<longrightarrow>
      save_project e sz c us d db1 = Inr (v', db2) \<longrightarrow>
      px_revision v' = px_revision v \<and> px_state v' = px_state v \<and> db2 = snd (lock_user db1 (us_id us)))"
proof (intro conjI allI impI)
  note lost = project_changes.no_lost_update [OF assms, of u c qs]
  show "project_swaps u c qs db = map (\<lambda>k. project_revision (project_of db u c) + int k) [0..<length (project_swaps u c qs db)]"
    "project_revision (project_of (fold project_step qs db) u c) =
      project_revision (project_of db u c) + int (length (project_swaps u c qs db))"
    using lost by (simp_all add: project_swaps_changing)
  note ok = project_changes.ok_run [OF assms, of qs]
  then show "kept_receipts (fold project_step qs db) u c \<le> KEPT_RECEIPTS" by (simp add: projects_ok_def)
  fix e sz us d v db1 v' db2
  assume first: "save_project e sz c us d (fold project_step qs db) = Inr (v, db1)"
    and again: "save_project e sz c us d db1 = Inr (v', db2)"
  from save_project_ok [OF first ok] obtain q where q: "project_receipt db1 (us_id us) (sv_request d) = Some q"
    "pq_revision q = px_revision v" "px_state v = sv_state d" by blast
  from again have "px_revision v' = pq_revision q \<and> px_state v' = sv_state d \<and> db2 = snd (lock_user db1 (us_id us))"
  proof (cases rule: save_project_cases)
    case (replay r)
    with q(1) show ?thesis by simp
  next
    case (change t)
    with q(1) show ?thesis by simp
  qed
  with q show "px_revision v' = px_revision v" "px_state v' = px_state v" "db2 = snd (lock_user db1 (us_id us))" by simp_all
qed

section \<open>Erased accounts\<close>

lemma gone_save_project:
  assumes "save_project e sz c us d db = Inr (v, db')" "gone db w"
  shows "gone db' w"
  using assms(1)
proof (cases rule: save_project_cases)
  case (change t)
  have w: "us_id us \<noteq> w" using change(1) assms(2) gone_erased by auto
  have "no_row pr_user w t"
    using change(6) gone_row(6) [OF assms(2)] w
    by (cases "project_of db (us_id us) c") (auto simp: no_row_def row_simps project_row_def)
  moreover have "no_row pq_user w (project_requests db')"
    using gone_row(5) [OF assms(2)] w set_prune_projects
    by (fastforce simp: change(5) no_row_def row_simps)
  ultimately show ?thesis using assms(2) unfolding change(5) by (intro gone_write) simp_all
qed (use assms(2) in simp)

interpretation project_steps: guarded project_step
proof
  fix db u q
  assume "gone db u"
  then show "gone (project_step q db) u"
    by (cases rule: project_step_cases [of q db]) (auto elim: gone_save_project)
qed

section \<open>An example\<close>

text \<open>A free course on the path of the rooms, and two saves that both expect the first revision.\<close>

definition project_env :: env where
  "project_env = room_env\<lparr>en_courses := [example_course\<lparr>co_path := Some ''p'', co_price := 0\<rparr>]\<rparr>"

definition project_request_at :: "int \<Rightarrow> string \<Rightarrow> project_save" where
  "project_request_at n r = \<lparr>sv_request = r, sv_expected = n, sv_state = JObj []\<rparr>"

definition two_saves :: "project_call list" where
  "two_saves = [(project_env, \<lambda>v. 2, ''python'', example_user, project_request_at 0 ''r1''),
     (project_env, \<lambda>v. 2, ''python'', example_user, project_request_at 0 ''r2'')]"

lemma project_saves_kept_witness:
  "project_swaps ''u'' ''python'' two_saves empty_db = [0] \<and>
    project_revision (project_of (fold project_step two_saves empty_db) ''u'' ''python'') = 1 \<and>
    kept_receipts (fold project_step two_saves empty_db) ''u'' ''python'' \<le> KEPT_RECEIPTS"
proof -
  have ok: "projects_ok empty_db"
    by (simp add: projects_ok_def empty_db_def unique_by_def kept_receipts_def count_rows_def)
  have s: "project_swaps ''u'' ''python'' two_saves empty_db = [0]" by code_simp
  have "project_revision (project_of empty_db ''u'' ''python'') = 0" by code_simp
  with project_saves_kept [OF ok, of "''u''" "''python''" two_saves] show ?thesis unfolding s by simp
qed

end
