(* ===== verification/Queue.thy ===== *)
theory Queue
  imports Rooms
begin

text \<open>
  Which room comes next (\<^verbatim>\<open>services/rooms.py\<close>: \<open>next_room\<close>, \<open>next_course_room\<close>, \<open>continuous_room\<close>,
  \<open>course_learning\<close>). Every variant tries units in an order of its own until one can be opened; what stood in the way
  of the others decides the reason of an empty answer. The candidates of the continuous stream are the four rounds of
  the code one after the other, so trying them is one scan.
\<close>

section \<open>Trying one unit\<close>

definition queue_status :: "env \<Rightarrow> database \<Rightarrow> user \<Rightarrow> string option \<Rightarrow> daily_status option result" where
  "queue_status e db us ci = (if \<not> en_policy_enabled e then Inr None
     else case status e db us (Option.bind ci (course_by e)) None of
       Inr d \<Rightarrow> Inr (Some d)
     | Inl er \<Rightarrow> if is_access er then Inr None else Inl er)"

datatype try_result = Offered unit_def | Limited

definition attempt :: "env \<Rightarrow> database \<Rightarrow> user \<Rightarrow> catalogue \<Rightarrow> states \<Rightarrow> string option \<Rightarrow> bool \<Rightarrow> string \<Rightarrow> try_result result" where
  "attempt e db us content st ci pre i = bind_r (find_unit content i st pre) (\<lambda>un.
     bind_r (for_unit e db us i ci) (\<lambda>access.
     if (case access of None \<Rightarrow> False | Some d \<Rightarrow> \<not> dy_can_start d) then Inr Limited
     else bind_r (challenge_status e us un) (\<lambda>_. Inr (Offered un))))"

text \<open>What stood in the way so far: a missing introduction, the daily limit, an outage of the daily access.\<close>

record obstacles =
  ob_blocked :: bool
  ob_limited :: bool
  ob_outage :: "err option"

definition no_obstacles :: obstacles where
  "no_obstacles = \<lparr>ob_blocked = False, ob_limited = False, ob_outage = None\<rparr>"

text \<open>One refusal of the continuous stream, and of a course, where a 403 is raised.\<close>

definition note_refusal :: "err \<Rightarrow> obstacles \<Rightarrow> obstacles result" where
  "note_refusal er ob = (if is_access er \<and> status_code er = 503 then Inr (ob\<lparr>ob_outage := Some er\<rparr>)
     else if \<not> is_http er \<or> status_code er \<notin> {403, 404} then Inl er
     else Inr (ob\<lparr>ob_blocked := (ob_blocked ob \<or> status_code er = 403)\<rparr>))"

definition note_course_refusal :: "err \<Rightarrow> obstacles \<Rightarrow> obstacles result" where
  "note_course_refusal er ob = (if is_http er \<and> status_code er = 404 then Inr ob
     else if is_access er \<and> status_code er = 503 then Inr (ob\<lparr>ob_outage := Some er\<rparr>) else Inl er)"

fun scan :: "(err \<Rightarrow> obstacles \<Rightarrow> obstacles result) \<Rightarrow> (string \<Rightarrow> try_result result) \<Rightarrow> (string \<times> bool) list \<Rightarrow> obstacles \<Rightarrow>
    ((unit_def \<times> bool) option \<times> obstacles) result" where
  "scan refusal att [] ob = Inr (None, ob)"
| "scan refusal att ((i, review) # cs) ob = (case att i of
     Inr (Offered un) \<Rightarrow> Inr (Some (un, review), ob)
   | Inr Limited \<Rightarrow> scan refusal att cs (ob\<lparr>ob_limited := True\<rparr>)
   | Inl er \<Rightarrow> bind_r (refusal er ob) (\<lambda>ob. scan refusal att cs ob))"

section \<open>Answers\<close>

datatype empty_reason = Completed_reason | Unavailable_reason | Prerequisites_reason | Limit_reason

record rooms_view =
  rv_paths :: "path_def list"
  rv_path :: path_def
  rv_next :: "envelope option"
  rv_daily :: "daily_status option"
  rv_reason :: "empty_reason option"

text \<open>A path as the learner sees it, without its units.\<close>

definition learning_path :: "path_def \<Rightarrow> path_def" where
  "learning_path p = p\<lparr>pa_units := []\<rparr>"

definition offer_room :: "env \<Rightarrow> database \<Rightarrow> user \<Rightarrow> string option \<Rightarrow> unit_def \<Rightarrow> room_state option \<Rightarrow> bool \<Rightarrow> envelope result" where
  "offer_room e db us ci un row review = bind_r (public_unit_of e db un us ci) (\<lambda>pu. bind_r (progress_of row) (\<lambda>p.
     room_envelope e db us ci pu p review))"

section \<open>The continuous stream\<close>

definition unfinished :: "states \<Rightarrow> string \<Rightarrow> bool" where
  "unfinished st i \<longleftrightarrow> \<not> (case st i of None \<Rightarrow> False | Some r \<Rightarrow> finished (rs_status r))"

definition reviewing :: "room_state \<Rightarrow> bool" where
  "reviewing r \<longleftrightarrow> rs_review_id r \<noteq> None \<and> rs_review_status r = Some In_progress"

definition in_progress :: "states \<Rightarrow> string \<Rightarrow> bool" where
  "in_progress st i \<longleftrightarrow> (case st i of None \<Rightarrow> False | Some r \<Rightarrow> rs_status r = In_progress)"

definition resumed :: "states \<Rightarrow> string option \<Rightarrow> string list \<Rightarrow> (string \<times> bool) list" where
  "resumed st after ids = map (\<lambda>i. (i, False)) (filter (\<lambda>i. Some i \<noteq> after \<and>
     (case st i of None \<Rightarrow> False | Some r \<Rightarrow> rs_status r = In_progress \<or> reviewing r)) ids)"

definition begun_first :: "states \<Rightarrow> string list \<Rightarrow> string list" where
  "begun_first st ids = sort_key (\<lambda>i. if in_progress st i then 0 else 1 :: nat) ids"

definition index_in :: "string \<Rightarrow> string list \<Rightarrow> nat" where
  "index_in x xs = the (position x xs)"

definition path_order :: "states \<Rightarrow> string \<Rightarrow> string option \<Rightarrow> path_def \<Rightarrow> string list" where
  "path_order st path_id after p = (case after of
     Some a \<Rightarrow> if pa_id p = path_id
       then drop (index_in a (pa_units p) + 1) (pa_units p) @ take (index_in a (pa_units p)) (pa_units p) else pa_units p
   | None \<Rightarrow> begun_first st (pa_units p))"

definition fresh :: "states \<Rightarrow> string \<Rightarrow> string option \<Rightarrow> path_def list \<Rightarrow> (string \<times> bool) list" where
  "fresh st path_id after paths = map (\<lambda>i. (i, False)) (filter (unfinished st) (concat (map (path_order st path_id after) paths)))"

definition repeats :: "states \<Rightarrow> string option \<Rightarrow> string list \<Rightarrow> bool \<Rightarrow> (string \<times> bool) list" where
  "repeats st after ids resume = map (\<lambda>i. (i, \<not> resume)) (filter (\<lambda>i. case st i of None \<Rightarrow> False
     | Some r \<Rightarrow> finished (rs_status r) \<and> reviewing r = resume \<and> \<not> (reviewing r \<and> Some i = after)) ids)"

definition ordered_paths :: "string \<Rightarrow> path_def list \<Rightarrow> path_def list" where
  "ordered_paths path_id paths = dropWhile (\<lambda>p. pa_id p \<noteq> path_id) paths @ takeWhile (\<lambda>p. pa_id p \<noteq> path_id) paths"

definition stream :: "states \<Rightarrow> string \<Rightarrow> string option \<Rightarrow> path_def list \<Rightarrow> (string \<times> bool) list" where
  "stream st path_id after paths = (let ids = concat (map pa_units paths);
       cursor = (case after of None \<Rightarrow> 0 | Some a \<Rightarrow> index_in a ids + 1); again = drop cursor ids @ take cursor ids
     in resumed st after ids @ fresh st path_id after paths @ repeats st after again True @ repeats st after again False @
        (case after of None \<Rightarrow> [] | Some a \<Rightarrow> [(a, review_available (st a))]))"

definition stream_answer :: "env \<Rightarrow> database \<Rightarrow> user \<Rightarrow> catalogue \<Rightarrow> states \<Rightarrow> path_def \<Rightarrow> path_def list \<Rightarrow> daily_status option \<Rightarrow>
    (unit_def \<times> bool) option \<Rightarrow> obstacles \<Rightarrow> rooms_view result" where
  "stream_answer e db us content st first choices daily found ob = (case found of
     Some (un, review) \<Rightarrow> (case find (\<lambda>p. pa_id p = un_path un) (ct_paths content) of
         None \<Rightarrow> Inl (Crash ''StopIteration'')
       | Some p \<Rightarrow> bind_r (offer_room e db us None un (st (un_id un)) review) (\<lambda>en.
           Inr \<lparr>rv_paths = choices, rv_path = learning_path p, rv_next = Some en, rv_daily = daily, rv_reason = None\<rparr>))
   | None \<Rightarrow> (case ob_outage ob of Some er \<Rightarrow> Inl er
       | None \<Rightarrow> Inr \<lparr>rv_paths = choices, rv_path = learning_path first, rv_next = None, rv_daily = daily,
           rv_reason = Some (if ob_limited ob then Limit_reason else if ob_blocked ob then Prerequisites_reason
             else Unavailable_reason)\<rparr>))"

definition continuous_room :: "env \<Rightarrow> database \<Rightarrow> user \<Rightarrow> catalogue \<Rightarrow> states \<Rightarrow> string \<Rightarrow> string option \<Rightarrow> path_def list \<Rightarrow>
    rooms_view result" where
  "continuous_room e db us content st path_id after choices =
     (if path_id \<notin> pa_id ` set (ct_paths content) then Inl (Crash ''StopIteration'')
      else let paths = ordered_paths path_id (ct_paths content) in
        bind_r (queue_status e db us None) (\<lambda>daily.
        bind_r (scan note_refusal (attempt e db us content st None True) (stream st path_id after paths) no_obstacles)
          (\<lambda>(found, ob). stream_answer e db us content st (hd paths) choices daily found ob)))"

section \<open>A course\<close>

text \<open>Returning to a course resumes the latest own work, repeats included; then what is not finished, then the rest.\<close>

definition course_position :: "states \<Rightarrow> string list \<Rightarrow> string \<Rightarrow> int \<times> int" where
  "course_position st ids i = (case st i of
     None \<Rightarrow> (1, int (index_in i ids))
   | Some r \<Rightarrow> if rs_status r = In_progress \<or> reviewing r then (0, - rs_updated r)
       else (if finished (rs_status r) then 2 else 1, int (index_in i ids)))"

definition course_order :: "states \<Rightarrow> string option \<Rightarrow> bool \<Rightarrow> string list \<Rightarrow> string list" where
  "course_order st after continuous ids = (case after of
     Some a \<Rightarrow> drop (index_in a ids + 1) ids @ (if continuous then take (index_in a ids + 1) ids else [])
   | None \<Rightarrow> sort_key (course_position st ids) ids)"

definition next_course_room :: "env \<Rightarrow> database \<Rightarrow> user \<Rightarrow> catalogue \<Rightarrow> states \<Rightarrow> path_def \<Rightarrow> string option \<Rightarrow> bool \<Rightarrow>
    path_def list \<Rightarrow> string option \<Rightarrow> rooms_view result" where
  "next_course_room e db us content st p after continuous choices ci =
     bind_r (queue_status e db us ci) (\<lambda>daily.
     bind_r (scan note_course_refusal (attempt e db us content st ci False)
       (map (\<lambda>i. (i, review_available (st i))) (filter (\<lambda>i. continuous \<or> \<not> review_available (st i))
         (course_order st after continuous (pa_units p)))) no_obstacles) (\<lambda>(found, ob).
     let answer = (\<lambda>en reason. Inr \<lparr>rv_paths = choices, rv_path = learning_path p, rv_next = en, rv_daily = daily, rv_reason = reason\<rparr>) in
     case found of
       Some (un, review) \<Rightarrow> bind_r (offer_room e db us ci un (st (un_id un)) review) (\<lambda>en. answer (Some en) None)
     | None \<Rightarrow> (case ob_outage ob of Some er \<Rightarrow> Inl er
         | None \<Rightarrow> answer None (Some (if ob_limited ob then Limit_reason
             else if path_completed content st (pa_id p) then Completed_reason else Unavailable_reason)))))"

section \<open>The stream of one path\<close>

definition path_attempt :: "env \<Rightarrow> user \<Rightarrow> catalogue \<Rightarrow> states \<Rightarrow> string \<Rightarrow> try_result result" where
  "path_attempt e us content st i = bind_r (find_unit content i st True) (\<lambda>un.
     bind_r (challenge_status e us un) (\<lambda>_. Inr (Offered un)))"

definition note_path_refusal :: "err \<Rightarrow> obstacles \<Rightarrow> obstacles result" where
  "note_path_refusal er ob = (if is_http er \<and> status_code er \<in> {403, 404}
     then Inr (ob\<lparr>ob_blocked := (ob_blocked ob \<or> status_code er = 403)\<rparr>) else Inl er)"

definition path_room :: "env \<Rightarrow> database \<Rightarrow> user \<Rightarrow> catalogue \<Rightarrow> states \<Rightarrow> path_def \<Rightarrow> string option \<Rightarrow> path_def list \<Rightarrow>
    rooms_view result" where
  "path_room e db us content st p after choices =
     (let ids = (case after of Some a \<Rightarrow> drop (index_in a (pa_units p) + 1) (pa_units p) | None \<Rightarrow> begun_first st (pa_units p)) in
     bind_r (scan note_path_refusal (path_attempt e us content st) (map (\<lambda>i. (i, False)) (filter (unfinished st) ids)) no_obstacles)
       (\<lambda>(found, ob). bind_r (case found of None \<Rightarrow> Inr None
           | Some (un, review) \<Rightarrow> bind_r (offer_room e db us None un (st (un_id un)) False) (\<lambda>en. Inr (Some en))) (\<lambda>selected.
         Inr \<lparr>rv_paths = choices, rv_path = learning_path p, rv_next = selected, rv_daily = None,
           rv_reason = (if selected \<noteq> None then None
             else Some (if path_completed content st (pa_id p) then Completed_reason
               else if ob_blocked ob then Prerequisites_reason else Unavailable_reason))\<rparr>)))"

section \<open>The next room\<close>

record next_request =
  nr_path :: string
  nr_after :: "string option"
  nr_continuous :: bool
  nr_direction :: "string option"
  nr_course :: "string option"
  nr_unit :: "string option"

definition next_scope :: "path_def \<Rightarrow> next_request \<Rightarrow> string set option" where
  "next_scope p q = (if nr_course q = None then None
     else Some (case nr_unit q of Some i \<Rightarrow> {i} | None \<Rightarrow> set (pa_units p)))"

definition direction_scope :: "path_def \<Rightarrow> next_request \<Rightarrow> bool \<Rightarrow> string option" where
  "direction_scope p q continuous = (case nr_direction q of Some d \<Rightarrow> if d \<noteq> '''' then Some d else if continuous then pa_direction p else None
     | None \<Rightarrow> if continuous then pa_direction p else None)"

definition in_scope :: "string option \<Rightarrow> catalogue \<Rightarrow> catalogue" where
  "in_scope scope content = content\<lparr>ct_paths := filter (\<lambda>p. scope = None \<or> pa_direction p = scope) (ct_paths content)\<rparr>"

text \<open>After the checks: a chosen lesson of a course, the course, the continuous stream, or the path alone.\<close>

definition choose_next :: "env \<Rightarrow> database \<Rightarrow> user \<Rightarrow> catalogue \<Rightarrow> states \<Rightarrow> path_def \<Rightarrow> next_request \<Rightarrow> bool \<Rightarrow>
    daily_status option \<Rightarrow> rooms_view result" where
  "choose_next e db us content st p q continuous daily =
     (let choices = map learning_path (ct_paths content); scoped = in_scope (direction_scope p q continuous) content in
      case nr_course q of
        Some c \<Rightarrow> (case nr_unit q of
            Some i \<Rightarrow> if i \<notin> set (pa_units p) then Inl (Http 404 ''not part of that course'')
              else bind_r (get_room e db us i (Some c)) (\<lambda>en.
                Inr \<lparr>rv_paths = choices, rv_path = learning_path p, rv_next = Some en, rv_daily = daily, rv_reason = None\<rparr>)
          | None \<Rightarrow> next_course_room e db us content st p (nr_after q) continuous choices (Some c))
      | None \<Rightarrow> if continuous then continuous_room e db us scoped st (nr_path q) (nr_after q) choices
          else path_room e db us scoped st p (nr_after q) choices)"

definition next_room :: "env \<Rightarrow> database \<Rightarrow> user \<Rightarrow> next_request \<Rightarrow> rooms_view result" where
  "next_room e db us q = bind_r (catalogue_of e db False) (\<lambda>content.
     bind_r (queue_status e db us (nr_course q)) (\<lambda>daily.
     let at_limit = (case daily of None \<Rightarrow> False | Some d \<Rightarrow> dy_enforced d \<and> \<not> dy_can_start d);
         continuous = (nr_continuous q \<or> at_limit) in
     case find (\<lambda>p. pa_id p = nr_path q) (ct_paths content) of
       None \<Rightarrow> Inl (Http 404 ''path unavailable'')
     | Some p \<Rightarrow>
       if (case nr_after q of None \<Rightarrow> False | Some a \<Rightarrow> a \<notin> set (pa_units p)) then Inl (Http 404 ''path unavailable'')
       else if nr_direction q \<noteq> None \<and> pa_direction p \<noteq> nr_direction q then Inl (Http 404 ''direction unavailable'')
       else if nr_unit q \<noteq> None \<and> (nr_course q = None \<or> nr_after q \<noteq> None) then Inl (Http 422 ''choose a lesson'')
       else bind_r (read_states db (us_id us) (next_scope p q)) (\<lambda>st.
         bind_r (if nr_course q = None then Inr () else require_path_access e db us (pa_id p) (nr_course q) None) (\<lambda>_.
         bind_r (accessible_paths e db us content) (\<lambda>accessible.
         bind_r (if pa_id p \<in> set accessible then Inr ()
             else require_path_access e db us (pa_id p) (nr_course q) (nr_unit q)) (\<lambda>_.
         choose_next e db us (content\<lparr>ct_paths := filter (\<lambda>p. pa_id p \<in> set accessible) (ct_paths content)\<rparr>)
           st p q continuous daily))))))"

section \<open>The outline of a course\<close>

record learning_unit =
  lu_id :: string
  lu_chapter :: "string option"
  lu_title :: localized_text
  lu_room :: room
  lu_status :: room_status
  lu_result :: "result_kind option"
  lu_available :: bool
  lu_selectable :: bool

record course_outline =
  cq_path :: path_def
  cq_units :: "learning_unit list"
  cq_next :: "envelope option"
  cq_completed :: bool
  cq_reason :: "empty_reason option"

definition outline :: "catalogue \<Rightarrow> states \<Rightarrow> string \<Rightarrow> learning_unit option result" where
  "outline content st i = (case find (\<lambda>u. un_id u = i \<and> \<not> un_retired u) (ct_units content) of
     None \<Rightarrow> Inr None
   | Some un \<Rightarrow> bind_r (case find_unit content i st True of
         Inr _ \<Rightarrow> Inr True
       | Inl er \<Rightarrow> if is_http er \<and> status_code er \<in> {403, 404} then Inr False else Inl er) (\<lambda>available.
       Inr (Some \<lparr>lu_id = un_id un, lu_chapter = un_chapter un, lu_title = un_title un, lu_room = un_room un,
         lu_status = (case st i of None \<Rightarrow> New | Some r \<Rightarrow> rs_status r), lu_result = Option.bind (st i) rs_result,
         lu_available = available, lu_selectable = (un_completion un \<noteq> None \<or> un_exercise un \<noteq> None)\<rparr>)))"

definition course_learning :: "env \<Rightarrow> database \<Rightarrow> user \<Rightarrow> course \<Rightarrow> course_outline result" where
  "course_learning e db us c = bind_r (catalogue_of e db False) (\<lambda>content.
     case find (\<lambda>p. Some (pa_id p) = co_path c) (ct_paths content) of
       None \<Rightarrow> Inl (Http 404 ''no learning path yet'')
     | Some p \<Rightarrow> bind_r (require_path_access e db us (pa_id p) None None) (\<lambda>_.
         bind_r (read_states db (us_id us) None) (\<lambda>st.
         bind_r (map_r (outline content st) (pa_units p)) (\<lambda>units.
         bind_r (next_room e db us \<lparr>nr_path = pa_id p, nr_after = None, nr_continuous = False, nr_direction = None,
           nr_course = Some (co_id c), nr_unit = None\<rparr>) (\<lambda>selected.
         Inr \<lparr>cq_path = rv_path selected, cq_units = List.map_filter id units, cq_next = rv_next selected,
           cq_completed = path_completed content st (pa_id p), cq_reason = rv_reason selected\<rparr>)))))"

section \<open>What is offered can be opened\<close>

definition startable :: "env \<Rightarrow> database \<Rightarrow> user \<Rightarrow> string option \<Rightarrow> string \<Rightarrow> bool" where
  "startable e db us ci i \<longleftrightarrow> (case for_unit e db us i ci of
     Inl er \<Rightarrow> False | Inr None \<Rightarrow> True | Inr (Some d) \<Rightarrow> dy_can_start d)"

lemma attempt_Offered:
  "attempt e db us content st ci pre i = Inr (Offered un) \<longleftrightarrow>
    find_unit content i st pre = Inr un \<and> startable e db us ci i \<and> (\<exists>b. challenge_status e us un = Inr b)"
proof (cases "for_unit e db us i ci")
  case (Inr a)
  then show ?thesis by (cases a) (auto simp: attempt_def startable_def result_simps)
qed (auto simp: attempt_def startable_def result_simps)

lemma scan_found:
  "scan refusal att cs ob = Inr (Some (un, rv), ob') \<Longrightarrow> \<exists>i. (i, rv) \<in> set cs \<and> att i = Inr (Offered un)"
proof (induction refusal att cs ob rule: scan.induct)
  case (2 refusal att i review cs ob)
  then show ?case by (auto simp: result_simps split: sum.splits try_result.splits)
qed simp

lemma scan_nothing:
  "scan refusal att cs ob = Inr (None, ob') \<Longrightarrow> (i, rv) \<in> set cs \<Longrightarrow> att i \<noteq> Inr (Offered un)"
proof (induction refusal att cs ob rule: scan.induct)
  case (2 refusal att j review cs ob)
  then show ?case by (auto simp: result_simps split: sum.splits try_result.splits)
qed simp

lemma position_Some: "x \<in> set xs \<Longrightarrow> \<exists>n. position x xs = Some n \<and> n < length xs \<and> xs ! n = x"
  by (induction xs) (auto split: option.splits)

lemma around_index:
  assumes "a \<in> set xs" "x \<in> set xs" "x \<noteq> a"
  shows "x \<in> set (drop (index_in a xs + 1) xs @ take (index_in a xs) xs)"
proof -
  from position_Some [OF assms(1)] obtain n where n: "index_in a xs = n" "n < length xs" "xs ! n = a"
    by (auto simp: index_in_def)
  then have "xs = take n xs @ a # drop (n + 1) xs" by (metis Suc_eq_plus1 id_take_nth_drop)
  then have "x \<in> set (take n xs @ a # drop (n + 1) xs)" using assms(2) by metis
  with assms(3) n(1) show ?thesis by auto
qed

lemma set_begun_first [simp]: "set (begun_first st ids) = set ids"
  by (simp add: begun_first_def)

lemma set_rotated: "set (drop n xs @ take n xs) = set xs"
  by (metis append_take_drop_id set_append sup_commute)

lemma set_ordered_paths [simp]: "set (ordered_paths i ps) = set ps"
  unfolding ordered_paths_def by (metis set_append sup_commute takeWhile_dropWhile_id)

text \<open>The rounds of the continuous stream try every unit of its paths.\<close>

lemma stream_complete:
  assumes "p \<in> set paths" "i \<in> set (pa_units p)"
    and after: "\<And>a q. after = Some a \<Longrightarrow> q \<in> set paths \<Longrightarrow> pa_id q = path_id \<Longrightarrow> a \<in> set (pa_units q)"
  shows "\<exists>rv. (i, rv) \<in> set (stream st path_id after paths)"
proof (cases "after = Some i")
  case True
  then have "(i, review_available (st i)) \<in> set (stream st path_id after paths)" by (simp add: stream_def Let_def)
  then show ?thesis ..
next
  case False
  let ?ids = "concat (map pa_units paths)"
  have i: "i \<in> set ?ids" using assms(1,2) by auto
  show ?thesis
  proof (cases "unfinished st i")
    case True
    have "i \<in> set (path_order st path_id after p)"
    proof (cases "after = None \<or> pa_id p \<noteq> path_id")
      case True
      then show ?thesis using assms(2) by (auto simp: path_order_def split: option.split)
    next
      case no: False
      then obtain a where a: "after = Some a" "a \<in> set (pa_units p)" "pa_id p = path_id" using after assms(1) by auto
      with around_index [OF a(2) assms(2)] False no show ?thesis by (simp add: path_order_def)
    qed
    then have "(i, False) \<in> set (fresh st path_id after paths)"
      using True assms(1) by (auto simp: fresh_def image_iff)
    then show ?thesis by (auto simp: stream_def Let_def)
  next
    case no: False
    then obtain r where r: "st i = Some r" "finished (rs_status r)" by (auto simp: unfinished_def split: option.splits)
    define again where "again = (let cursor = (case after of None \<Rightarrow> 0 | Some a \<Rightarrow> index_in a ?ids + 1)
      in drop cursor ?ids @ take cursor ?ids)"
    have "i \<in> set again" using i set_rotated [of _ ?ids] by (simp add: again_def Let_def del: set_append)
    with r False have "(i, \<not> reviewing r) \<in> set (repeats st after again (reviewing r))" by (auto simp: repeats_def)
    moreover have "set (repeats st after again b) \<subseteq> set (stream st path_id after paths)" for b
      by (cases b) (auto simp: stream_def again_def Let_def)
    ultimately show ?thesis by blast
  qed
qed

text \<open>A unit the learner can open now: active, introduced (outside of a course), its exercise usable, the start allowed.\<close>

definition openable :: "env \<Rightarrow> database \<Rightarrow> user \<Rightarrow> catalogue \<Rightarrow> states \<Rightarrow> string option \<Rightarrow> string \<Rightarrow> bool" where
  "openable e db us content st ci i \<longleftrightarrow> (case find_unit content i st (ci = None) of
     Inl er \<Rightarrow> False | Inr un \<Rightarrow> (case challenge_status e us un of Inl er \<Rightarrow> False | Inr b \<Rightarrow> True)) \<and> startable e db us ci i"

lemma openable_attempt: "openable e db us content st ci i \<longleftrightarrow> (\<exists>un. attempt e db us content st ci (ci = None) i = Inr (Offered un))"
  by (auto simp: openable_def attempt_Offered split: sum.splits)

lemma offer_room_unit: "offer_room e db us ci un row rv = Inr en \<Longrightarrow> pb_id (re_unit en) = un_id un"
  by (auto simp: offer_room_def public_unit_of_def public_def result_simps dest!: room_envelope_progress
      split: if_splits option.splits)

lemma introduced_paths [simp]: "introduced_concepts (content\<lparr>ct_paths := ps\<rparr>) = introduced_concepts content"
  by (simp add: introduced_concepts_def fun_eq_iff)

lemma find_unit_paths [simp]: "find_unit (content\<lparr>ct_paths := ps\<rparr>) = find_unit content"
  by (simp add: find_unit_def fun_eq_iff split: option.split)

lemma attempt_paths [simp]: "attempt e db us (content\<lparr>ct_paths := ps\<rparr>) = attempt e db us content"
  by (simp add: attempt_def fun_eq_iff)

lemma attempt_unit: "attempt e db us content st ci pre i = Inr (Offered un) \<Longrightarrow> un_id un = i"
  by (auto simp: attempt_Offered dest: find_unit_Inr(2))

lemma continuous_room_offers:
  assumes run: "continuous_room e db us content st path_id after choices = Inr v"
    and after: "\<And>a q. after = Some a \<Longrightarrow> q \<in> set (ct_paths content) \<Longrightarrow> pa_id q = path_id \<Longrightarrow> a \<in> set (pa_units q)"
  shows "case rv_next v of
      Some en \<Rightarrow> openable e db us content st None (pb_id (re_unit en)) \<and>
        (\<exists>un \<in> set (ct_units content). un_id un = pb_id (re_unit en) \<and> un_path un \<in> pa_id ` set (ct_paths content))
    | None \<Rightarrow> \<forall>p\<in>set (ct_paths content). \<forall>i\<in>set (pa_units p). \<not> openable e db us content st None i"
proof -
  let ?paths = "ordered_paths path_id (ct_paths content)"
  from run obtain daily found ob where
    sc: "scan note_refusal (attempt e db us content st None True) (stream st path_id after ?paths) no_obstacles = Inr (found, ob)"
    and rest: "stream_answer e db us content st (hd ?paths) choices daily found ob = Inr v"
    by (auto simp: continuous_room_def Let_def result_simps split: if_splits)
  show ?thesis
  proof (cases found)
    case None
    with rest have none: "rv_next v = None" by (auto simp: stream_answer_def split: option.splits)
    have "\<not> openable e db us content st None i" if p: "p \<in> set (ct_paths content)" "i \<in> set (pa_units p)" for p i
    proof -
      from stream_complete [of p ?paths i after path_id st] p after
      obtain rv where "(i, rv) \<in> set (stream st path_id after ?paths)" by auto
      from scan_nothing [OF sc [unfolded None] this] show ?thesis by (simp add: openable_attempt)
    qed
    with none show ?thesis by simp
  next
    case (Some f)
    then obtain un review where f: "found = Some (un, review)" by (cases f) auto
    from scan_found [OF sc [unfolded f]] obtain i where i: "attempt e db us content st None True i = Inr (Offered un)" by blast
    note id = attempt_unit [OF i]
    from rest obtain p en where p: "find (\<lambda>p. pa_id p = un_path un) (ct_paths content) = Some p"
      "offer_room e db us None un (st (un_id un)) review = Inr en" "rv_next v = Some en"
      by (auto simp: f stream_answer_def result_simps split: option.splits)
    note en = offer_room_unit [OF p(2)]
    have "openable e db us content st None (pb_id (re_unit en))" using i id en by (auto simp: openable_attempt)
    moreover have "un \<in> set (ct_units content)" using i by (auto simp: attempt_Offered dest: find_unit_Inr(1))
    moreover have "un_path un \<in> pa_id ` set (ct_paths content)" using p(1) by (auto simp: find_Some_iff image_iff) (metis nth_mem)
    ultimately show ?thesis using en p(3) by auto
  qed
qed

lemma course_room_offers:
  assumes "next_course_room e db us content st p after continuous choices (Some c) = Inr v" "rv_next v = Some en"
    "\<And>a. after = Some a \<Longrightarrow> a \<in> set (pa_units p)"
  shows "openable e db us content st (Some c) (pb_id (re_unit en)) \<and> pb_id (re_unit en) \<in> set (pa_units p)"
proof -
  from assms(1,2) obtain un review ob where
    sc: "scan note_course_refusal (attempt e db us content st (Some c) False)
       (map (\<lambda>i. (i, review_available (st i))) (filter (\<lambda>i. continuous \<or> \<not> review_available (st i))
         (course_order st after continuous (pa_units p)))) no_obstacles = Inr (Some (un, review), ob)"
    and en: "offer_room e db us (Some c) un (st (un_id un)) review = Inr en"
    by (auto simp: next_course_room_def Let_def result_simps split: option.splits)
  from scan_found [OF sc] obtain i where i: "i \<in> set (course_order st after continuous (pa_units p))"
    "attempt e db us content st (Some c) False i = Inr (Offered un)" by auto
  have "i \<in> set (pa_units p)"
    using i(1) by (auto simp: course_order_def split: option.splits if_splits dest: in_set_dropD in_set_takeD)
  with i(2) attempt_unit [OF i(2)] offer_room_unit [OF en] show ?thesis by (auto simp: openable_attempt)
qed

lemma next_room_cases:
  assumes "next_room e db us q = Inr v" "nr_unit q = None" "nr_continuous q \<or> nr_course q \<noteq> None"
  obtains content st acc p continuous daily where "catalogue_of e db False = Inr content"
    "p \<in> set (ct_paths content)" "pa_id p = nr_path q" "find (\<lambda>p. pa_id p = nr_path q) (ct_paths content) = Some p"
    "\<And>a. nr_after q = Some a \<Longrightarrow> a \<in> set (pa_units p)"
    "nr_direction q = None \<or> pa_direction p = nr_direction q" "read_states db (us_id us) (next_scope p q) = Inr st"
    "nr_course q \<noteq> None \<Longrightarrow> require_path_access e db us (pa_id p) (nr_course q) None = Inr ()"
    "accessible_paths e db us content = Inr acc" "nr_course q = None \<Longrightarrow> continuous"
    "choose_next e db us (content\<lparr>ct_paths := filter (\<lambda>p. pa_id p \<in> set acc) (ct_paths content)\<rparr>) st p q continuous daily = Inr v"
proof -
  from assms(1) obtain content daily where c: "catalogue_of e db False = Inr content" "queue_status e db us (nr_course q) = Inr daily"
    by (auto simp: next_room_def result_simps)
  define continuous where "continuous = (nr_continuous q \<or> (case daily of None \<Rightarrow> False | Some d \<Rightarrow> dy_enforced d \<and> \<not> dy_can_start d))"
  from assms(1) c obtain p where p: "find (\<lambda>p. pa_id p = nr_path q) (ct_paths content) = Some p"
    by (auto simp: next_room_def Let_def split: option.splits)
  from assms(1,2) c p obtain st acc where r: "\<not> (case nr_after q of None \<Rightarrow> False | Some a \<Rightarrow> a \<notin> set (pa_units p))"
    "nr_direction q = None \<or> pa_direction p = nr_direction q" "read_states db (us_id us) (next_scope p q) = Inr st"
    "nr_course q = None \<or> require_path_access e db us (pa_id p) (nr_course q) None = Inr ()"
    "accessible_paths e db us content = Inr acc"
    "choose_next e db us (content\<lparr>ct_paths := filter (\<lambda>p. pa_id p \<in> set acc) (ct_paths content)\<rparr>) st p q continuous daily = Inr v"
    by (auto simp: next_room_def Let_def result_simps continuous_def [symmetric] split: if_splits)
  from p have "p \<in> set (ct_paths content)" "pa_id p = nr_path q" by (auto simp: find_Some_iff)
  moreover have "nr_course q = None \<Longrightarrow> continuous" using assms(3) by (auto simp: continuous_def)
  ultimately show thesis using that [OF c(1) _ _ p _ r(2,3) _ r(5) _ r(6)] r(1,4) by (auto split: option.splits)
qed

text \<open>The continuous stream over the paths a learner can open, within one subject.\<close>

lemma openable_paths [simp]: "openable e db us (content\<lparr>ct_paths := ps\<rparr>) st ci i = openable e db us content st ci i"
  by (simp add: openable_def)

lemma stream_offers:
  assumes run: "continuous_room e db us (in_scope d (content\<lparr>ct_paths := filter (\<lambda>p. pa_id p \<in> set acc) (ct_paths content)\<rparr>))
      st path after choices = Inr v"
    and p: "find (\<lambda>p. pa_id p = path) (ct_paths content) = Some p" "\<And>a. after = Some a \<Longrightarrow> a \<in> set (pa_units p)"
    and uniq: "distinct (map pa_id (ct_paths content))"
  shows "case rv_next v of
       Some en \<Rightarrow> openable e db us content st None (pb_id (re_unit en)) \<and>
         (\<exists>un \<in> set (ct_units content). un_id un = pb_id (re_unit en) \<and> un_path un \<in> set acc)
     | None \<Rightarrow> \<forall>p' \<in> set (ct_paths content). pa_id p' \<in> set acc \<longrightarrow> (d = None \<or> pa_direction p' = d) \<longrightarrow>
         (\<forall>i \<in> set (pa_units p'). \<not> openable e db us content st None i)"
proof -
  let ?here = "in_scope d (content\<lparr>ct_paths := filter (\<lambda>p. pa_id p \<in> set acc) (ct_paths content)\<rparr>)"
  have same: "p' = p" if "p' \<in> set (ct_paths content)" "pa_id p' = path" for p'
    using uniq p(1) that by (auto simp: find_Some_iff) (metis distinct_map inj_onD nth_mem)
  have paths: "set (ct_paths ?here) = {p' \<in> set (ct_paths content). pa_id p' \<in> set acc \<and> (d = None \<or> pa_direction p' = d)}"
    by (auto simp: in_scope_def)
  have "case rv_next v of
      Some en \<Rightarrow> openable e db us ?here st None (pb_id (re_unit en)) \<and>
        (\<exists>un \<in> set (ct_units ?here). un_id un = pb_id (re_unit en) \<and> un_path un \<in> pa_id ` set (ct_paths ?here))
    | None \<Rightarrow> \<forall>p\<in>set (ct_paths ?here). \<forall>i\<in>set (pa_units p). \<not> openable e db us ?here st None i"
    by (rule continuous_room_offers [OF run]) (use p(2) same paths in auto)
  moreover have "openable e db us ?here st ci i = openable e db us content st ci i" for ci i
    by (simp add: openable_def in_scope_def)
  moreover have "ct_units ?here = ct_units content" by (simp add: in_scope_def)
  ultimately show ?thesis by (cases "rv_next v") (auto simp: paths)
qed


text \<open>A new learner in the example path is offered its introduction.\<close>

definition stream_request :: next_request where
  "stream_request = \<lparr>nr_path = ''p'', nr_after = None, nr_continuous = True, nr_direction = None, nr_course = None, nr_unit = None\<rparr>"


end
