(* ===== verification/Courses.thy ===== *)
theory Courses
  imports Rewards Rooms
begin

text \<open>
  The course routes (\<^verbatim>\<open>endpoints/course.py\<close>): who may open a course, the list of courses with the learner's
  completion, watching a course, and completing a lecture, which pays experience points. The roles of a caller come
  from \<^verbatim>\<open>auth.py\<close>. Redis caches of answers are transparent; \<open>lower\<close> is Python's \<^verbatim>\<open>str.lower\<close>.
\<close>

section \<open>Who is calling\<close>

definition user_auth :: "user option \<Rightarrow> user result" where
  "user_auth us = (case us of None \<Rightarrow> Inl (Http 401 ''invalid token'') | Some u \<Rightarrow> Inr u)"

definition admin_auth :: "user \<Rightarrow> user result" where
  "admin_auth us = (if us_admin us then Inr us else Inl (Http 403 ''permission denied''))"

definition require_verified_email :: "user \<Rightarrow> unit result" where
  "require_verified_email us = guard_r (us_verified us \<or> us_admin us) (Http 403 ''email not verified'')"

text \<open>
  \<^verbatim>\<open>get_user\<close>: the account a path names; \<open>lower\<close> again as a parameter, \<open>known\<close> the answer of the auth service.
\<close>

definition self_or_admin :: "(string \<Rightarrow> string) \<Rightarrow> string \<Rightarrow> user \<Rightarrow> string result" where
  "self_or_admin lower uid us = (let uid = (if lower uid \<in> {''me'', ''self''} then us_id us else uid)
     in if us_id us \<noteq> uid \<and> \<not> us_admin us then Inl (Http 403 ''permission denied'') else Inr uid)"

definition named_user :: "(string \<Rightarrow> string) \<Rightarrow> (string \<Rightarrow> bool) option \<Rightarrow> string \<Rightarrow> user option \<Rightarrow> string result" where
  "named_user lower known uid us =
     (let uid = (case us of Some u \<Rightarrow> if lower uid \<in> {''me'', ''self''} then us_id u else uid | None \<Rightarrow> uid)
      in case known of Some k \<Rightarrow> if k uid then Inr uid else Inl (Http 404 ''user not found'') | None \<Rightarrow> Inr uid)"

definition privileged_user :: "(string \<Rightarrow> string) \<Rightarrow> (string \<Rightarrow> bool) option \<Rightarrow> string \<Rightarrow> user \<Rightarrow> string result" where
  "privileged_user lower known uid us = bind_r (self_or_admin lower uid us) (\<lambda>u. named_user lower known u None)"

section \<open>Access to a course\<close>

definition get_course :: "env \<Rightarrow> string \<Rightarrow> course result" where
  "get_course e c = (case course_by e c of None \<Rightarrow> Inl (Http 404 ''course not found'') | Some x \<Rightarrow> Inr x)"

text \<open>What the path of a request names besides the course.\<close>

datatype path_scope = Whole_course | Lesson_scope string | Lecture_scope string

definition scope_lesson :: "env \<Rightarrow> database \<Rightarrow> course \<Rightarrow> path_scope \<Rightarrow> lesson_def option result" where
  "scope_lesson e db c sc = (if \<not> en_policy_enabled e then Inr None else case sc of
       Whole_course \<Rightarrow> Inr None
     | Lesson_scope i \<Rightarrow> bind_r (lesson_definition e db c i) (\<lambda>l. Inr (Some l))
     | Lecture_scope i \<Rightarrow> bind_r (lecture_lesson e db c i) (\<lambda>l. Inr (Some l)))"

definition has_course_access :: "env \<Rightarrow> database \<Rightarrow> user \<Rightarrow> course \<Rightarrow> path_scope \<Rightarrow> unit result" where
  "has_course_access e db us c sc =
     (if free c \<or> us_admin us then Inr ()
      else if co_id c \<in> get_owned_courses db (us_id us) then Inr ()
      else bind_r (scope_lesson e db c sc) (\<lambda>l. bind_r (course_daily_access e db us c l) (\<lambda>b.
        if b then Inr () else bind_r (en_premium e (us_id us)) (\<lambda>p. guard_r p (Http 403 ''no course access'')))))"

text \<open>The guards of a course route: verified, known course, access.\<close>

definition open_course :: "env \<Rightarrow> database \<Rightarrow> user \<Rightarrow> string \<Rightarrow> path_scope \<Rightarrow> course result" where
  "open_course e db us c sc = bind_r (require_verified_email us) (\<lambda>_. bind_r (get_course e c) (\<lambda>co.
     bind_r (has_course_access e db us co sc) (\<lambda>_. Inr co)))"

definition every_course :: "env \<Rightarrow> database \<Rightarrow> user \<Rightarrow> bool result" where
  "every_course e db us = (if us_admin us then Inr True
     else bind_r (daily_course_access e us) (\<lambda>b. if b then Inr True else en_premium e (us_id us)))"

text \<open>One course while the policy is unknown: opened by known work in it.\<close>

definition known_access :: "env \<Rightarrow> database \<Rightarrow> user \<Rightarrow> course \<Rightarrow> bool result" where
  "known_access e db us c = (case course_daily_access e db us c None of Inr b \<Rightarrow> Inr b
     | Inl er \<Rightarrow> if is_access er then Inr False else Inl er)"

text \<open>A Python set of ids; here in the order of the content.\<close>

definition get_unlocked_courses :: "env \<Rightarrow> database \<Rightarrow> user \<Rightarrow> string list result" where
  "get_unlocked_courses e db us = (let owned = (\<lambda>c. co_id c \<in> get_owned_courses db (us_id us)) in
     case every_course e db us of
       Inr True \<Rightarrow> Inr (map co_id (en_courses e))
     | Inr False \<Rightarrow> Inr (map co_id (filter owned (en_courses e)))
     | Inl er \<Rightarrow> if \<not> is_access er then Inl er
         else bind_r (filter_r (\<lambda>c. bind_r (known_access e db us c) (\<lambda>b. Inr (b \<or> owned c))) (en_courses e))
           (\<lambda>cs. Inr (map co_id cs)))"

section \<open>Lists of courses\<close>

fun has_part :: "ustr \<Rightarrow> ustr \<Rightarrow> bool" where
  "has_part p [] = (p = [])"
| "has_part p (x # xs) = (take (length p) (x # xs) = p \<or> has_part p xs)"

record course_query =
  qy_search :: "ustr option"
  qy_language :: "ustr option"
  qy_author :: "ustr option"
  qy_free :: "bool option"
  qy_owned :: "bool option"
  qy_recent :: bool

text \<open>A filter that is absent or empty lets everything pass; an author without a name is a \<^verbatim>\<open>KeyError\<close>.\<close>

definition given :: "ustr option \<Rightarrow> (ustr \<Rightarrow> bool) \<Rightarrow> bool" where
  "given q P = (case q of None \<Rightarrow> True | Some s \<Rightarrow> s = [] \<or> P s)"

definition author_key :: ustr where
  "author_key = map of_char ''name''"

definition by_author :: "(ustr \<Rightarrow> ustr) \<Rightarrow> ustr option \<Rightarrow> course \<Rightarrow> bool result" where
  "by_author lower q c = (case q of None \<Rightarrow> Inr True | Some a \<Rightarrow> if a = [] then Inr True
     else any_r (\<lambda>d. case map_of d author_key of None \<Rightarrow> Inl (Crash ''KeyError'') | Some n \<Rightarrow> Inr (lower a = lower n))
       (co_authors c))"

definition by_text :: "(ustr \<Rightarrow> ustr) \<Rightarrow> course_query \<Rightarrow> course \<Rightarrow> bool" where
  "by_text lower q c \<longleftrightarrow> given (qy_search q) (\<lambda>s. has_part (lower s) (lower (co_title c))) \<and>
     given (qy_language q) (\<lambda>s. case co_language c of None \<Rightarrow> False | Some l \<Rightarrow> has_part (lower s) (lower l))"

definition by_owned :: "env \<Rightarrow> database \<Rightarrow> user option \<Rightarrow> bool option \<Rightarrow> course list \<Rightarrow> course list result" where
  "by_owned e db us q cs = (case q of None \<Rightarrow> Inr cs | Some o1 \<Rightarrow>
     bind_r (case us of None \<Rightarrow> Inr [] | Some u \<Rightarrow> get_unlocked_courses e db u) (\<lambda>ids.
       Inr (filter (\<lambda>c. (co_id c \<in> set ids) = o1) cs)))"

definition watched_at :: "database \<Rightarrow> string \<Rightarrow> course \<Rightarrow> int" where
  "watched_at db u c = (case first_row (\<lambda>w. lw_user w = u \<and> lw_course w = co_id c) (watches db) of
     None \<Rightarrow> 0 | Some w \<Rightarrow> lw_at w)"

text \<open>\<^verbatim>\<open>sorted(.., reverse=True)\<close> keeps the order of equal courses.\<close>

definition recent_order :: "database \<Rightarrow> user option \<Rightarrow> bool \<Rightarrow> course list \<Rightarrow> course list" where
  "recent_order db us recent cs = (case us of Some u \<Rightarrow> if recent then sort_key (\<lambda>c. - watched_at db (us_id u) c) cs else cs
     | None \<Rightarrow> cs)"

definition completed_by_rooms :: "(string \<times> bool option) list \<Rightarrow> (string \<times> bool) list \<Rightarrow> course \<Rightarrow> bool option" where
  "completed_by_rooms explicit learning c = (case map_of explicit (co_id c) of Some v \<Rightarrow> v
     | None \<Rightarrow> map_of learning (case co_path c of None \<Rightarrow> [] | Some p \<Rightarrow> p))"

definition summaries :: "env \<Rightarrow> database \<Rightarrow> user option \<Rightarrow> course list \<Rightarrow> course_summary list result" where
  "summaries e db us cs = bind_r (course_completions e db us) (\<lambda>learning.
     bind_r (completion_overrides e db us cs) (\<lambda>explicit.
     Inr (map (\<lambda>c. summary c (map_option (\<lambda>u. lecture_get_completed db (us_id u) (co_id c)) us)
       (completed_by_rooms explicit learning c)) cs)))"

definition list_courses :: "env \<Rightarrow> (ustr \<Rightarrow> ustr) \<Rightarrow> course_query \<Rightarrow> user option \<Rightarrow> database \<Rightarrow> course_summary list result" where
  "list_courses e lower q us db =
     bind_r (filter_r (\<lambda>c. if by_text lower q c then by_author lower (qy_author q) c else Inr False) (en_courses e)) (\<lambda>cs.
     bind_r (by_owned e db us (qy_owned q) (filter (\<lambda>c. qy_free q = None \<or> qy_free q = Some (free c)) cs)) (\<lambda>cs.
     summaries e db us (recent_order db us (qy_recent q) cs)))"

definition get_course_summary :: "env \<Rightarrow> string \<Rightarrow> user option \<Rightarrow> database \<Rightarrow> course_summary result" where
  "get_course_summary e c us db = bind_r (get_course e c) (\<lambda>co. bind_r (summaries e db us [co]) (\<lambda>xs. Inr (hd xs)))"

definition get_accessible_courses :: "env \<Rightarrow> user \<Rightarrow> database \<Rightarrow> course_summary list result" where
  "get_accessible_courses e us db = bind_r (require_verified_email us) (\<lambda>_. bind_r (get_unlocked_courses e db us) (\<lambda>ids.
     summaries e db (Some us) (filter (\<lambda>c. free c \<or> co_id c \<in> set ids) (en_courses e))))"

section \<open>One course\<close>

definition get_course_details :: "env \<Rightarrow> string \<Rightarrow> user \<Rightarrow> database \<Rightarrow>
    (course \<times> (course_section \<times> (lecture \<times> bool) list) list) result" where
  "get_course_details e c us db = bind_r (open_course e db us c Whole_course) (\<lambda>co.
     Inr (to_user_course co (lecture_get_completed db (us_id us) (co_id co))))"

definition next_unseen :: "env \<Rightarrow> string \<Rightarrow> user \<Rightarrow> database \<Rightarrow> (course_section \<times> lecture) result" where
  "next_unseen e c us db = bind_r (open_course e db us c Whole_course) (\<lambda>co.
     next_unseen_lecture co (lecture_get_completed db (us_id us) (co_id co)))"

definition watch_course :: "env \<Rightarrow> string \<Rightarrow> user \<Rightarrow> bool handler" where
  "watch_course e c us db = bind_r (open_course e db us c Whole_course) (\<lambda>co.
     Inr (True, last_watch_update db (en_now e) (us_id us) (co_id co)))"

section \<open>Completing a lecture\<close>

text \<open>The skills a course teaches, each paid once.\<close>

fun pay_skills :: "int \<Rightarrow> int \<Rightarrow> string \<Rightarrow> skill_course list \<Rightarrow> unit handler" where
  "pay_skills now xp u [] db = Inr ((), db)"
| "pay_skills now xp u (r # rs) db = bind_r (add_xp now u (sc_skill r) xp db) (\<lambda>(_, db). pay_skills now xp u rs db)"

definition complecte_lecture :: "env \<Rightarrow> int \<Rightarrow> user \<Rightarrow> course \<Rightarrow> lecture \<Rightarrow> bool handler" where
  "complecte_lecture e xp us c l db = (let u = us_id us in
     bind_r (if en_policy_enabled e then bind_r (lecture_lesson e db c (le_id l)) (\<lambda>lesson. start e us c lesson None False db)
       else Inr (None, db)) (\<lambda>(_, db).
     if lecture_is_completed db u (co_id c) (le_id l) then Inl (Http 403 ''already completed lecture'')
     else bind_r (pay_skills (en_now e) xp u (all_rows (\<lambda>r. sc_course r = co_id c) (skill_courses db))
         (lecture_set_completed db (en_now e) u (co_id c) (le_id l))) (\<lambda>(_, db). Inr (True, db))))"

definition complete_route :: "env \<Rightarrow> int \<Rightarrow> user \<Rightarrow> string \<Rightarrow> string \<Rightarrow> bool handler" where
  "complete_route e xp us c l db = bind_r (open_course e db us c (Lecture_scope l)) (\<lambda>co.
     bind_r (get_lecture co l) (\<lambda>le. complecte_lecture e xp us co le db))"

section \<open>What a completion changes\<close>

lemma lock_user_courses [simp]: "skill_courses (snd (lock_user db u)) = skill_courses db"
  by (simp add: lock_user_def Let_def split: option.splits)

lemma filter_update_first_other:
  "(\<And>r. P r \<Longrightarrow> \<not> Q r \<and> \<not> Q (f r)) \<Longrightarrow> filter Q (update_first P f t) = filter Q t"
  by (induction t) auto

lemma add_xp_frame:
  assumes "add_xp now u s n db = Inr (x, db')"
  shows "lectures db' = lectures db" "skill_courses db' = skill_courses db" "starts db' = starts db"
    "get_user_skill_xp db' v k = get_user_skill_xp db v k + (if v = u \<and> k = s then n else 0)"
proof -
  obtain t where t: "db' = snd (lock_user db u)\<lparr>xps := t\<rparr>" using add_xp_InrD(5) [OF assms] by blast
  then show "lectures db' = lectures db" "skill_courses db' = skill_courses db" "starts db' = starts db" by simp_all
  show "get_user_skill_xp db' v k = get_user_skill_xp db v k + (if v = u \<and> k = s then n else 0)"
  proof (cases "v = u \<and> k = s")
    case True
    with add_xp_InrD(2) [OF assms] show ?thesis by simp
  next
    case False
    have other: "filter (xp_of_row v k) (update_first (xp_of_row u s) (\<lambda>r. r\<lparr>xp_xp := xp_xp r + n, xp_updated := Some now\<rparr>) t) =
        filter (xp_of_row v k) t" for t
      by (rule filter_update_first_other) (use False in auto)
    from False have "filter (xp_of_row v k) (xps db') = filter (xp_of_row v k) (xps db)"
      using assms by (auto simp: add_xp_def Let_def case_prod_beta add_row_def other split: if_splits)
    then have "get_user_skill_xp db' v k = get_user_skill_xp db v k" by (simp add: get_user_skill_xp_def all_rows_def)
    with False show ?thesis by auto
  qed
qed

lemma pay_skills_effect:
  assumes "pay_skills now xp u rs db = Inr (x, db')"
  shows "lectures db' = lectures db \<and> skill_courses db' = skill_courses db \<and>
    get_user_skill_xp db' v k = get_user_skill_xp db v k + (if v = u then xp * int (count_rows (\<lambda>r. sc_skill r = k) rs) else 0)"
  using assms
proof (induction rs arbitrary: db)
  case (Cons r rs)
  then obtain db1 where 1: "add_xp now u (sc_skill r) xp db = Inr ((), db1)" and 2: "pay_skills now xp u rs db1 = Inr (x, db')"
    by (auto simp: result_simps)
  from Cons.IH [OF 2] add_xp_frame [OF 1] show ?case by (auto simp: count_rows_def algebra_simps)
qed (simp add: count_rows_def)

lemma start_frame:
  assumes "start e us c l req False db = Inr (d, db')"
  shows "lectures db' = lectures db \<and> xps db' = xps db \<and> skill_courses db' = skill_courses db"
proof -
  have frame: "lectures b = lectures a \<and> xps b = xps a \<and> skill_courses b = skill_courses a" if "same_but_starts a b" for a b
    using that unfolding same_but_starts_def by (cases a; cases b) simp
  show ?thesis
  proof (cases "en_policy_enabled e")
    case True
    with assms show ?thesis
    proof (cases rule: start_cases)
      case (receipt m)
      with frame [OF same_but_starts_confirm] show ?thesis by simp
    next
      case admit
      with frame [OF admit_start_frame [OF admit(2)]] show ?thesis by simp
    qed
  qed (use assms in \<open>simp add: start_def\<close>)
qed

lemma get_lecture_id: "get_lecture c l = Inr x \<Longrightarrow> le_id x = l"
  by (auto simp: get_lecture_def find_Some_iff split: option.splits)

lemma open_course_id: "open_course e db us c sc = Inr co \<Longrightarrow> co_id co = c"
  by (auto simp: open_course_def get_course_def result_simps dest: course_by_SomeD split: option.splits)

lemma complete_route_effect:
  assumes "complete_route e xp us c l db = Inr (x, db')"
  shows "\<not> lecture_is_completed db (us_id us) c l"
    "lectures db' = add_row \<lparr>lp_user = us_id us, lp_course = c, lp_lecture = l, lp_completed = en_now e\<rparr> (lectures db)"
    "skill_courses db' = skill_courses db"
    "get_user_skill_xp db' v k = get_user_skill_xp db v k +
      (if us_id us = v then xp * int (count_rows (\<lambda>r. sc_skill r = k \<and> sc_course r = c) (skill_courses db)) else 0)"
proof -
  obtain co le where co: "open_course e db us c (Lecture_scope l) = Inr co" and le: "get_lecture co l = Inr le"
    and run: "complecte_lecture e xp us co le db = Inr (x, db')"
    using assms by (auto simp: complete_route_def result_simps)
  note ids = open_course_id [OF co] get_lecture_id [OF le]
  obtain d db1 where
    1: "(if en_policy_enabled e then bind_r (lecture_lesson e db co l) (\<lambda>lesson. start e us co lesson None False db) else Inr (None, db)) = Inr (d, db1)"
    and 2: "\<not> lecture_is_completed db1 (us_id us) c l"
    and 3: "pay_skills (en_now e) xp (us_id us) (all_rows (\<lambda>r. sc_course r = c) (skill_courses db1))
      (lecture_set_completed db1 (en_now e) (us_id us) c l) = Inr ((), db')"
    using run by (auto simp: complecte_lecture_def Let_def ids result_simps split: if_splits)
  have f: "lectures db1 = lectures db \<and> xps db1 = xps db \<and> skill_courses db1 = skill_courses db"
    using 1 by (auto simp: result_simps split: if_splits dest: start_frame)
  from 2 f show "\<not> lecture_is_completed db (us_id us) c l" by (simp add: lecture_is_completed_def)
  have count: "count_rows (\<lambda>r. sc_skill r = k) (all_rows (\<lambda>r. sc_course r = c) t) = count_rows (\<lambda>r. sc_skill r = k \<and> sc_course r = c) t" for t
    by (simp add: count_rows_def all_rows_def conj_commute)
  from pay_skills_effect [OF 3, of v k] f
  show "lectures db' = add_row \<lparr>lp_user = us_id us, lp_course = c, lp_lecture = l, lp_completed = en_now e\<rparr> (lectures db)"
    "skill_courses db' = skill_courses db"
    "get_user_skill_xp db' v k = get_user_skill_xp db v k +
      (if us_id us = v then xp * int (count_rows (\<lambda>r. sc_skill r = k \<and> sc_course r = c) (skill_courses db)) else 0)"
    by (auto simp: lecture_set_completed_def count get_user_skill_xp_def)
qed

text \<open>A history of completions, by any learners: the requests that succeeded.\<close>

type_synonym lecture_call = "env \<times> int \<times> user \<times> string \<times> string"

definition complete_call :: "lecture_call \<Rightarrow> bool handler" where
  "complete_call q = (case q of (e, xp, us, c, l) \<Rightarrow> complete_route e xp us c l)"

definition complete_step :: "lecture_call \<Rightarrow> database \<Rightarrow> database" where
  "complete_step q db = committed db (complete_call q db)"

fun completions :: "lecture_call list \<Rightarrow> database \<Rightarrow> lecture_call list" where
  "completions [] db = []"
| "completions (q # qs) db = (case complete_call q db of Inl er \<Rightarrow> completions qs db
     | Inr (b, db') \<Rightarrow> q # completions qs db')"

definition completed_key :: "lecture_call \<Rightarrow> string \<times> string \<times> string" where
  "completed_key q = (case q of (e, xp, us, c, l) \<Rightarrow> (us_id us, c, l))"

definition payment :: "skill_course list \<Rightarrow> string \<Rightarrow> string \<Rightarrow> lecture_call \<Rightarrow> int" where
  "payment taught v k q = (case q of (e, xp, us, c, l) \<Rightarrow>
     if us_id us = v then xp * int (count_rows (\<lambda>r. sc_skill r = k \<and> sc_course r = c) taught) else 0)"

definition seen_lectures :: "database \<Rightarrow> (string \<times> string \<times> string) set" where
  "seen_lectures db = (\<lambda>r. (lp_user r, lp_course r, lp_lecture r)) ` set (lectures db)"

lemma complete_call_effect:
  assumes "complete_call q db = Inr (b, db')"
  shows "completed_key q \<notin> seen_lectures db" "seen_lectures db' = insert (completed_key q) (seen_lectures db)"
    "skill_courses db' = skill_courses db"
    "get_user_skill_xp db' v k = get_user_skill_xp db v k + payment (skill_courses db) v k q"
proof -
  obtain e xp us c l where q: "q = (e, xp, us, c, l)" by (cases q) auto
  note eff = complete_route_effect [OF assms [unfolded complete_call_def q prod.case]]
  from eff(1) show "completed_key q \<notin> seen_lectures db"
    by (auto simp: q completed_key_def seen_lectures_def lecture_is_completed_def row_simps)
  show "seen_lectures db' = insert (completed_key q) (seen_lectures db)"
    by (simp add: q completed_key_def seen_lectures_def eff(2) row_simps)
  show "skill_courses db' = skill_courses db" by (rule eff(3))
  show "get_user_skill_xp db' v k = get_user_skill_xp db v k + payment (skill_courses db) v k q"
    by (simp add: q payment_def eff(4))
qed

lemma completions_history:
  "distinct (map completed_key (completions qs db)) \<and> completed_key ` set (completions qs db) \<inter> seen_lectures db = {} \<and>
    seen_lectures (fold complete_step qs db) = seen_lectures db \<union> completed_key ` set (completions qs db) \<and>
    get_user_skill_xp (fold complete_step qs db) v k = get_user_skill_xp db v k +
      sum_list (map (payment (skill_courses db) v k) (completions qs db))"
proof (induction qs arbitrary: db)
  case (Cons q qs)
  show ?case
  proof (cases "complete_call q db")
    case (Inl er)
    with Cons show ?thesis by (simp add: complete_step_def)
  next
    case (Inr r)
    then obtain b db' where r: "complete_call q db = Inr (b, db')" by (cases r) auto
    have st: "complete_step q db = db'" by (simp add: complete_step_def r)
    note eff = complete_call_effect [OF r]
    from Cons.IH [of db'] eff(1,2,3) eff(4) [of v k] show ?thesis by (auto simp: st r)
  qed
qed simp

text \<open>
  C27: over every history of completed lectures, by any learners and with any policy answers, a lecture is completed
  at most once per learner, a completed one stays completed, and the experience points of a learner in a skill grow
  by exactly the payments of the completions that succeeded: the lecture's points for every skill the course teaches.
\<close>

theorem lecture_pays_once:
  "distinct (map completed_key (completions qs db)) \<and>
    seen_lectures (fold complete_step qs db) = seen_lectures db \<union> completed_key ` set (completions qs db) \<and>
    get_user_skill_xp (fold complete_step qs db) v k = get_user_skill_xp db v k +
      sum_list (map (payment (skill_courses db) v k) (completions qs db))"
  using completions_history [of qs db v k] by simp

section \<open>Erased accounts\<close>

text \<open>
  With the daily policy a completion passes the account lock of \<open>start\<close>; without it the lock of \<open>add_xp\<close> is the only
  one, and a course of no skill has none.
\<close>

lemma gone_pay_skills: "gone db v \<Longrightarrow> pay_skills now xp u rs db = Inr (x, db') \<Longrightarrow> gone db' v"
  by (induction rs arbitrary: db) (auto simp: result_simps intro: gone_add_xp)

lemma start_not_erased:
  assumes "start e us c l req False db = Inr (d, db')" "en_policy_enabled e"
  shows "\<not> erased db (us_id us)"
  using assms by (auto elim: start_cases)

lemma gone_complecte_lecture:
  assumes "gone db v" "us_id us \<noteq> v" "complecte_lecture e xp us c l db = Inr (b, db')"
  shows "gone db' v"
proof -
  obtain d db1 where
    1: "(if en_policy_enabled e then bind_r (lecture_lesson e db c (le_id l)) (\<lambda>lesson. start e us c lesson None False db) else Inr (None, db)) = Inr (d, db1)"
    and 2: "pay_skills (en_now e) xp (us_id us) (all_rows (\<lambda>r. sc_course r = co_id c) (skill_courses db1))
      (lecture_set_completed db1 (en_now e) (us_id us) (co_id c) (le_id l)) = Inr ((), db')"
    using assms(3) by (auto simp: complecte_lecture_def Let_def result_simps split: if_splits)
  have g: "gone db1 v" using 1 assms(1) by (auto simp: result_simps split: if_splits intro: gone_start)
  then have "gone (lecture_set_completed db1 (en_now e) (us_id us) (co_id c) (le_id l)) v"
    unfolding lecture_set_completed_def by (intro gone_write) (simp_all add: gone_row assms(2))
  with 2 show ?thesis by (rule gone_pay_skills [rotated])
qed

lemma gone_complete_route:
  assumes "gone db v" "complete_route e xp us c l db = Inr (b, db')"
    "en_policy_enabled e \<or> exists_row (\<lambda>r. sc_course r = c) (skill_courses db)"
  shows "gone db' v"
proof -
  obtain co le where co: "open_course e db us c (Lecture_scope l) = Inr co" and le: "get_lecture co l = Inr le"
    and run: "complecte_lecture e xp us co le db = Inr (b, db')"
    using assms(2) by (auto simp: complete_route_def result_simps)
  note ids = open_course_id [OF co] get_lecture_id [OF le]
  let ?u = "us_id us"
  obtain d db1 where
    1: "(if en_policy_enabled e then bind_r (lecture_lesson e db co l) (\<lambda>lesson. start e us co lesson None False db) else Inr (None, db)) = Inr (d, db1)"
    and 3: "pay_skills (en_now e) xp ?u (all_rows (\<lambda>r. sc_course r = c) (skill_courses db1))
      (lecture_set_completed db1 (en_now e) ?u c l) = Inr ((), db')"
    using run by (auto simp: complecte_lecture_def Let_def ids result_simps split: if_splits)
  have "?u \<noteq> v"
  proof (cases "en_policy_enabled e")
    case True
    with 1 have "\<not> erased db ?u" by (auto simp: result_simps dest: start_not_erased)
    with assms(1) show ?thesis by (auto simp: gone_def)
  next
    case False
    with 1 assms(3) have "all_rows (\<lambda>r. sc_course r = c) (skill_courses db1) \<noteq> []"
      by (auto simp: all_rows_def exists_row_iff filter_empty_conv)
    then obtain r rs where "all_rows (\<lambda>r. sc_course r = c) (skill_courses db1) = r # rs" by (meson list.exhaust)
    with 3 obtain db2 where "add_xp (en_now e) ?u (sc_skill r) xp (lecture_set_completed db1 (en_now e) ?u c l) = Inr ((), db2)"
      by (auto simp: result_simps)
    from add_xp_InrD(1) [OF this] False 1 assms(1) show ?thesis
      by (auto simp: gone_def erased_def lecture_set_completed_def)
  qed
  then show ?thesis by (rule gone_complecte_lecture [OF assms(1) _ run])
qed

interpretation lecture_steps: guarded "\<lambda>q db. if en_policy_enabled (fst q) then complete_step q db else db"
proof
  fix db u and q :: lecture_call
  assume g: "gone db u"
  obtain e xp us c l where q: "q = (e, xp, us, c, l)" by (cases q) auto
  show "gone (if en_policy_enabled (fst q) then complete_step q db else db) u"
    using g gone_complete_route [OF g]
    by (auto simp: q complete_step_def complete_call_def intro: gone_committed)
qed

text \<open>
  Watching a course has no such lock: with an access token issued before the erasure, the route writes a row for an
  account whose data is gone, and so does a completed lecture without the policy in a course of no skill.
\<close>

definition free_env :: env where
  "free_env = example_env\<lparr>en_policy_enabled := False, en_courses := [example_course\<lparr>co_price := 0\<rparr>]\<rparr>"

definition erased_db :: database where
  "erased_db = empty_db\<lparr>users := [\<lparr>pu_user = ''u'', pu_deleted = True\<rparr>]\<rparr>"

lemma erased_account_is_written:
  "gone erased_db ''u'' \<and>
    \<not> gone (committed erased_db (watch_course free_env ''python'' example_user erased_db)) ''u'' \<and>
    \<not> gone (committed erased_db (complete_route free_env 10 example_user ''python'' ''intro'' erased_db)) ''u''"
  by code_simp

end
