(* ===== verification/Videos.thy ===== *)
theory Videos
  imports Courses Rights
begin

text \<open>
  Lecture videos: bounded reads of a file (\<^verbatim>\<open>utils/mp4.py\<close>), the short-lived links to them
  (\<^verbatim>\<open>endpoints/course.py\<close>), and the routes of a learner whose account was replaced, who comes with a limited
  learning credential instead of an access token (\<^verbatim>\<open>endpoints/learning.py\<close>). The files, the token of a link and the
  answers of the shop about a credential are parameters; Redis is a map from keys to values with an expiry.
\<close>

section \<open>Byte ranges\<close>

definition READ_SIZE :: nat where "READ_SIZE = 64 * 1024"

text \<open>\<^verbatim>\<open>_chunks\<close>: the bytes of a file from a position, in reads of at most 64 KiB, to the end of the file at most.\<close>

function chunks :: "nat list \<Rightarrow> nat \<Rightarrow> nat \<Rightarrow> nat list list" where
  "chunks content pos len = (if len = 0 then [] else
     let data = take (min READ_SIZE len) (drop pos content)
     in if data = [] then [] else data # chunks content (pos + length data) (len - length data))"
  by pat_completeness auto

termination
  by (relation "measure (\<lambda>(content, pos, len). len)") auto

declare chunks.simps [simp del]

definition digits :: "string \<Rightarrow> bool" where
  "digits s \<longleftrightarrow> 1 \<le> length s \<and> length s \<le> 16 \<and> list_all (\<lambda>c. CHR ''0'' \<le> c \<and> c \<le> CHR ''9'') s"

definition decimal :: "string \<Rightarrow> nat" where
  "decimal s = foldl (\<lambda>n c. 10 * n + (of_char c - 48)) 0 s"

text \<open>\<^verbatim>\<open>bytes=([0-9]{1,16})-([0-9]{1,16})?\<close>, matched in full.\<close>

definition parse_range :: "string \<Rightarrow> (nat \<times> nat option) option" where
  "parse_range h = (let rest = drop 6 h; a = takeWhile (\<lambda>c. c \<noteq> CHR ''-'') rest; b = dropWhile (\<lambda>c. c \<noteq> CHR ''-'') rest
     in if take 6 h \<noteq> ''bytes='' \<or> \<not> digits a \<or> b = [] then None
        else if tl b = [] then Some (decimal a, None)
        else if digits (tl b) then Some (decimal a, Some (decimal (tl b))) else None)"

definition range_end :: "nat \<Rightarrow> nat \<Rightarrow> nat \<Rightarrow> nat option \<Rightarrow> nat" where
  "range_end chunk n a b = min (case b of Some x \<Rightarrow> x + 1 | None \<Rightarrow> a + chunk) n"

text \<open>
  The answer: 416, or 206 with the range of its \<^verbatim>\<open>Content-Range\<close> (first position, position after the last, size) and
  the parts of the body.
\<close>

datatype range_answer = Unsatisfiable nat | Partial nat nat nat "nat list list"

definition mp4_range_response :: "nat \<Rightarrow> nat list \<Rightarrow> string \<Rightarrow> range_answer" where
  "mp4_range_response chunk content h = (let n = length content in
     case parse_range h of None \<Rightarrow> Unsatisfiable n
     | Some (a, b) \<Rightarrow> let e = range_end chunk n a b in
         if n \<le> a \<or> e \<le> a then Unsatisfiable n else Partial a e n (chunks content a (e - a)))"

section \<open>Links\<close>

type_synonym files = "string \<Rightarrow> string \<Rightarrow> nat list option"

record scoped_link =
  sk_path :: "string \<times> string"
  sk_course :: string
  sk_subject :: string
  sk_authority :: string

datatype link_value = Plain_link "string \<times> string" | Scoped_link scoped_link

type_synonym redis = "string \<rightharpoonup> link_value \<times> int"

definition setex :: "int \<Rightarrow> string \<Rightarrow> int \<Rightarrow> link_value \<Rightarrow> redis \<Rightarrow> redis" where
  "setex now key ttl v r = r(key \<mapsto> (v, now + ttl))"

definition redis_get :: "int \<Rightarrow> string \<Rightarrow> redis \<Rightarrow> link_value option" where
  "redis_get now key r = (case r key of None \<Rightarrow> None | Some (v, t) \<Rightarrow> if now < t then Some v else None)"

definition link_key :: "string \<Rightarrow> string \<Rightarrow> string \<Rightarrow> string" where
  "link_key prefix token file = prefix @ '':'' @ token @ '':'' @ file"

definition file_name :: "course \<Rightarrow> lecture \<Rightarrow> string" where
  "file_name c l = co_id c @ ''_'' @ le_id l @ ''.mp4''"

definition lecture_missing :: err where
  "lecture_missing = Http 404 ''lecture not found''"

text \<open>Under the daily limit a video plays only after the lesson was started.\<close>

definition lecture_admission :: "env \<Rightarrow> database \<Rightarrow> user \<Rightarrow> course \<Rightarrow> lecture \<Rightarrow> unit result" where
  "lecture_admission e db us c l = (if \<not> en_policy_enabled e then Inr ()
     else bind_r (lecture_lesson e db c (le_id l)) (\<lambda>lesson. bind_r (optional_status e db us (Some c) (Some lesson)) (\<lambda>daily.
       case daily of None \<Rightarrow> Inr ()
       | Some d \<Rightarrow> if dy_mode d = Daily \<and> \<not> dy_started d
           then bind_r (require_available d) (\<lambda>_. Inl (Access 409 ''lesson_start_required'')) else Inr ())))"

definition get_mp4_lecture_link :: "env \<Rightarrow> files \<Rightarrow> string \<Rightarrow> int \<Rightarrow> string \<Rightarrow> string \<Rightarrow> user \<Rightarrow> database \<Rightarrow> redis \<Rightarrow>
    ((string \<times> string) \<times> redis) result" where
  "get_mp4_lecture_link e files token ttl c l us db r = bind_r (open_course e db us c (Lecture_scope l)) (\<lambda>co.
     bind_r (get_lecture co l) (\<lambda>le.
     if le_video le \<noteq> Mp4 \<or> files (co_id co) (le_id le) = None then Inl lecture_missing
     else bind_r (lecture_admission e db us co le) (\<lambda>_. let name = file_name co le in
       Inr ((token, name), setex (en_now e) (link_key ''mp4_lecture'' token name) ttl (Plain_link (co_id co, le_id le)) r))))"

definition send_file :: "files \<Rightarrow> nat \<Rightarrow> string \<times> string \<Rightarrow> string \<Rightarrow> range_answer result" where
  "send_file files chunk p header = (case files (fst p) (snd p) of None \<Rightarrow> Inl lecture_missing
     | Some content \<Rightarrow> Inr (mp4_range_response chunk content header))"

definition download_mp4_lecture :: "env \<Rightarrow> files \<Rightarrow> nat \<Rightarrow> string \<Rightarrow> string \<Rightarrow> string \<Rightarrow> redis \<Rightarrow> range_answer result" where
  "download_mp4_lecture e files chunk token file header r =
     (case redis_get (en_now e) (link_key ''mp4_lecture'' token file) r of
        Some (Plain_link p) \<Rightarrow> send_file files chunk p header
      | _ \<Rightarrow> Inl lecture_missing)"

section \<open>The limited learning credential\<close>

definition authority_unavailable :: err where
  "authority_unavailable = Http 503 ''current learning authority could not be checked''"

definition limited_authority :: "json \<Rightarrow> bool" where
  "limited_authority v \<longleftrightarrow> jget ''purpose'' v = Some (js ''retained_learning'') \<and>
     jget ''ordinary_authority'' v = Some (JBool False) \<and> jget ''financial_authority'' v = Some (JBool False) \<and>
     jget ''admin'' v = Some (JBool False) \<and> jget ''email_verified'' v = Some (JBool True)"

text \<open>
  \<^verbatim>\<open>learning_subject\<close>: the subject the shop names for a credential. A body that is neither null nor an object ends in
  an \<^verbatim>\<open>AttributeError\<close>, which the code does not catch.
\<close>

definition learning_subject :: "reply \<Rightarrow> user result" where
  "learning_subject answer = (case answer of
     No_reply \<Rightarrow> Inl authority_unavailable
   | Reply st body \<Rightarrow>
       if st \<in> {401, 403} then Inl (Http 401 ''limited learning authority unavailable'')
       else if st \<noteq> 200 then Inl authority_unavailable
       else (case body of None \<Rightarrow> Inl authority_unavailable
         | Some v \<Rightarrow>
             if v = JNull then Inl (Http 401 ''limited learning authority unavailable'')
             else if \<not> has_entries v then Inl (Crash ''AttributeError'')
             else if \<not> limited_authority v then Inl (Http 503 ''invalid scoped authority response'')
             else (case json_string (jget ''subject'' v) of None \<Rightarrow> Inl authority_unavailable
               | Some s \<Rightarrow> Inr \<lparr>us_id = s, us_admin = False, us_verified = True\<rparr>)))"

text \<open>The shop is asked twice, around the account lock; \<open>ask\<close> takes the number of the question.\<close>

type_synonym authority = "nat \<Rightarrow> string \<Rightarrow> reply"

definition key_digest :: "env \<Rightarrow> string \<Rightarrow> string" where
  "key_digest e key = en_sha256 e (map of_char key)"

definition learning_auth :: "env \<Rightarrow> authority \<Rightarrow> string \<Rightarrow> user handler" where
  "learning_auth e ask key db0 =
     (if \<not> (43 \<le> length key \<and> length key \<le> 256) then Inl (Http 401 ''limited learning credential required'')
      else bind_r (learning_subject (ask 0 (key_digest e key))) (\<lambda>us. let (account, db) = lock_user db0 (us_id us) in
        if pu_deleted account then Inl (Http 401 ''this service subject was erased'')
        else bind_r (learning_subject (ask 1 (key_digest e key))) (\<lambda>current.
          if us_id current \<noteq> us_id us then Inl (Http 503 ''scoped subject changed during admission'')
          else Inr (current, db))))"

text \<open>The daily policy does not apply to the subject of such a request.\<close>

definition scoped :: "env \<Rightarrow> user \<Rightarrow> env" where
  "scoped e us = e\<lparr>en_retained := us_id us # en_retained e\<rparr>"

definition open_scoped :: "env \<Rightarrow> authority \<Rightarrow> string \<Rightarrow> string \<Rightarrow> path_scope \<Rightarrow> (course \<times> user) handler" where
  "open_scoped e ask key c sc db = bind_r (get_course e c) (\<lambda>co. bind_r (learning_auth e ask key db) (\<lambda>(us, db).
     bind_r (has_course_access (scoped e us) db us co sc) (\<lambda>_. Inr ((co, us), db))))"

definition learning_courses :: "env \<Rightarrow> (ustr \<Rightarrow> ustr) \<Rightarrow> authority \<Rightarrow> string \<Rightarrow> course_summary list handler" where
  "learning_courses e lower ask key db = bind_r (learning_auth e ask key db) (\<lambda>(us, db).
     bind_r (list_courses (scoped e us) lower \<lparr>qy_search = None, qy_language = None, qy_author = None, qy_free = None,
       qy_owned = None, qy_recent = False\<rparr> (Some us) db) (\<lambda>cs. Inr (cs, db)))"

definition learning_course_access :: "env \<Rightarrow> authority \<Rightarrow> string \<Rightarrow> course_summary list handler" where
  "learning_course_access e ask key db = bind_r (learning_auth e ask key db) (\<lambda>(us, db).
     bind_r (get_accessible_courses (scoped e us) us db) (\<lambda>cs. Inr (cs, db)))"

definition learning_details :: "env \<Rightarrow> authority \<Rightarrow> string \<Rightarrow> string \<Rightarrow>
    (course \<times> (course_section \<times> (lecture \<times> bool) list) list) handler" where
  "learning_details e ask key c db = bind_r (open_scoped e ask key c Whole_course db) (\<lambda>((co, us), db).
     Inr (to_user_course co (lecture_get_completed db (us_id us) (co_id co)), db))"

definition learning_next_unseen :: "env \<Rightarrow> authority \<Rightarrow> string \<Rightarrow> string \<Rightarrow> (course_section \<times> lecture) handler" where
  "learning_next_unseen e ask key c db = bind_r (open_scoped e ask key c Whole_course db) (\<lambda>((co, us), db).
     bind_r (next_unseen_lecture co (lecture_get_completed db (us_id us) (co_id co))) (\<lambda>x. Inr (x, db)))"

definition learning_watch :: "env \<Rightarrow> authority \<Rightarrow> string \<Rightarrow> string \<Rightarrow> bool handler" where
  "learning_watch e ask key c db = bind_r (open_scoped e ask key c Whole_course db) (\<lambda>((co, us), db).
     Inr (True, last_watch_update db (en_now e) (us_id us) (co_id co)))"

definition learning_complete :: "env \<Rightarrow> int \<Rightarrow> authority \<Rightarrow> string \<Rightarrow> string \<Rightarrow> string \<Rightarrow> bool handler" where
  "learning_complete e xp ask key c l db = bind_r (open_scoped e ask key c (Lecture_scope l) db) (\<lambda>((co, us), db).
     bind_r (get_lecture co l) (\<lambda>le. complecte_lecture (scoped e us) xp us co le db))"

definition LINK_TTL :: int where "LINK_TTL = 900"

definition lecture_link :: "env \<Rightarrow> files \<Rightarrow> string \<Rightarrow> int \<Rightarrow> authority \<Rightarrow> string \<Rightarrow> string \<Rightarrow> string \<Rightarrow> redis \<Rightarrow>
    ((string \<times> string) \<times> redis) handler" where
  "lecture_link e files token ttl ask key c l r db = bind_r (open_scoped e ask key c (Lecture_scope l) db) (\<lambda>((co, us), db).
     bind_r (get_lecture co l) (\<lambda>le.
     if le_video le \<noteq> Mp4 \<or> files (co_id co) (le_id le) = None then Inl lecture_missing
     else let name = file_name co le in
       Inr (((token, name), setex (en_now e) (link_key ''learning_mp4'' token name) (min ttl LINK_TTL)
         (Scoped_link \<lparr>sk_path = (co_id co, le_id le), sk_course = co_id co, sk_subject = us_id us,
           sk_authority = key_digest e key\<rparr>) r), db)))"

text \<open>A video of a scoped link: the shop and the access to the course are asked again for every read.\<close>

definition stream_lecture :: "env \<Rightarrow> files \<Rightarrow> nat \<Rightarrow> authority \<Rightarrow> string \<Rightarrow> string \<Rightarrow> string \<Rightarrow> redis \<Rightarrow> database \<Rightarrow>
    range_answer result" where
  "stream_lecture e files chunk ask token file header r db =
     (case redis_get (en_now e) (link_key ''learning_mp4'' token file) r of
        Some (Scoped_link k) \<Rightarrow> bind_r (learning_subject (ask 0 (sk_authority k))) (\<lambda>us.
          if us_id us \<noteq> sk_subject k then Inl lecture_missing
          else case course_by e (sk_course k) of None \<Rightarrow> Inl lecture_missing
          | Some co \<Rightarrow> bind_r (has_course_access e db us co Whole_course) (\<lambda>_. send_file files chunk (sk_path k) header))
      | _ \<Rightarrow> Inl lecture_missing)"

section \<open>A range is exactly the bytes it names\<close>

lemma chunks_content:
  "concat (chunks content pos len) = take len (drop pos content)"
  "list_all (\<lambda>c. c \<noteq> [] \<and> length c \<le> READ_SIZE) (chunks content pos len)"
proof (induction content pos len rule: chunks.induct)
  case (1 content pos len)
  define data where "data = take (min READ_SIZE len) (drop pos content)"
  have short: "length data \<le> READ_SIZE" "length data \<le> len" by (simp_all add: data_def)
  {
    case 1
    show ?case
    proof (cases "len = 0 \<or> data = []")
      case True
      then have "take len (drop pos content) = []" by (auto simp: data_def READ_SIZE_def)
      with True show ?thesis by (subst chunks.simps) (auto simp: data_def Let_def)
    next
      case False
      then have "concat (chunks content pos len) = data @ take (len - length data) (drop (length data) (drop pos content))"
        using "1.IH"(1) [OF _ data_def] by (subst chunks.simps) (simp add: data_def [symmetric] Let_def add.commute)
      also have "\<dots> = take len (drop pos content)"
      proof -
        have "take (length (take n xs)) xs = take n xs" for n and xs :: "nat list" by (simp add: min_def)
        then have "data = take (length data) (drop pos content)" unfolding data_def by (rule sym)
        moreover have "take (length data) xs @ take (len - length data) (drop (length data) xs) = take len xs" for xs :: "nat list"
          using short(2) by (metis le_add_diff_inverse take_add)
        ultimately show ?thesis by metis
      qed
      finally show ?thesis .
    qed
  next
    case 2
    show ?case
    proof (cases "len = 0 \<or> data = []")
      case True
      then show ?thesis by (subst chunks.simps) (auto simp: data_def Let_def)
    next
      case False
      with short(1) "1.IH"(2) [OF _ data_def] show ?thesis
        by (subst chunks.simps) (simp add: data_def [symmetric] Let_def)
    qed
  }
qed

text \<open>
  C38: every request for a range of a video is answered: with the size of the file and nothing else when the header
  is no range or no byte of the file is asked for, otherwise with the range that was asked for, cut only at the end of the
  file (an open range at the size of a chunk), whose body, read in parts of at most 64 KiB, is exactly the bytes of the file in that range.
\<close>

theorem range_is_exact:
  "case mp4_range_response chunk content h of
     Unsatisfiable n \<Rightarrow> n = length content \<and>
       (case parse_range h of None \<Rightarrow> True | Some (a, None) \<Rightarrow> n \<le> a \<or> chunk = 0 | Some (a, Some y) \<Rightarrow> n \<le> a \<or> y < a)
   | Partial a z n parts \<Rightarrow> n = length content \<and> a < z \<and> z \<le> n \<and>
       (case parse_range h of None \<Rightarrow> False | Some (x, None) \<Rightarrow> a = x \<and> z = min (a + chunk) n
        | Some (x, Some y) \<Rightarrow> a = x \<and> z = min (y + 1) n) \<and>
       concat parts = take (z - a) (drop a content) \<and> length (concat parts) = z - a \<and>
       list_all (\<lambda>c. c \<noteq> [] \<and> length c \<le> READ_SIZE) parts"
  using chunks_content by (auto simp: mp4_range_response_def Let_def range_end_def split: option.splits)

section \<open>Who may watch through a scoped link\<close>

datatype link_request =
    Ordinary env files string int string string user database
  | Limited env files string int authority string string string database

fun link_step :: "link_request \<Rightarrow> redis \<Rightarrow> redis" where
  "link_step (Ordinary e files token ttl c l us db) r =
     (case get_mp4_lecture_link e files token ttl c l us db r of Inl er \<Rightarrow> r | Inr (url, r') \<Rightarrow> r')"
| "link_step (Limited e files token ttl ask key c l db) r =
     (case lecture_link e files token ttl ask key c l r db of Inl er \<Rightarrow> r | Inr ((url, r'), db') \<Rightarrow> r')"

text \<open>The request gave out this link: its credential was accepted twice, and its subject had access.\<close>

fun issues :: "link_request \<Rightarrow> string \<Rightarrow> scoped_link \<Rightarrow> int \<Rightarrow> bool" where
  "issues (Ordinary e files token ttl c l us db) name k until = False"
| "issues (Limited e files token ttl ask key c l db) name k until =
     (case open_scoped e ask key c (Lecture_scope l) db of Inl er \<Rightarrow> False
      | Inr ((co, us), db') \<Rightarrow> sk_path k = (c, l) \<and> sk_course k = c \<and> sk_subject k = us_id us \<and>
          sk_authority k = key_digest e key \<and> name = link_key ''learning_mp4'' token (c @ ''_'' @ l @ ''.mp4'') \<and>
          until = en_now e + min ttl LINK_TTL)"

lemma link_step_scoped:
  assumes "link_step q r (link_key ''learning_mp4'' token file) = Some (Scoped_link k, t)"
  shows "r (link_key ''learning_mp4'' token file) = Some (Scoped_link k, t) \<or> issues q (link_key ''learning_mp4'' token file) k t"
proof (cases q)
  case (Ordinary e files tok ttl c l us db)
  with assms show ?thesis
    by (auto simp: get_mp4_lecture_link_def result_simps setex_def Let_def link_key_def split: sum.splits if_splits)
next
  case (Limited e files tok ttl ask key c l db)
  show ?thesis
  proof (cases "lecture_link e files tok ttl ask key c l r db")
    case (Inl er)
    with assms Limited show ?thesis by simp
  next
    case (Inr x)
    obtain url r' db' where x: "x = ((url, r'), db')" by (cases x) auto
    with Inr obtain co us le where co: "open_scoped e ask key c (Lecture_scope l) db = Inr ((co, us), db')"
      and le: "get_lecture co l = Inr le"
      and r': "r' = setex (en_now e) (link_key ''learning_mp4'' tok (file_name co le)) (min ttl LINK_TTL)
        (Scoped_link \<lparr>sk_path = (co_id co, le_id le), sk_course = co_id co, sk_subject = us_id us, sk_authority = key_digest e key\<rparr>) r"
      by (auto simp: lecture_link_def result_simps Let_def split: if_splits)
    from co have "co_id co = c"
      by (auto simp: open_scoped_def get_course_def result_simps dest: course_by_SomeD split: option.splits)
    with assms Limited Inr x r' co le get_lecture_id [OF le] show ?thesis
      by (auto simp: setex_def file_name_def split: if_splits)
  qed
qed

lemma scoped_links_issued:
  "fold link_step qs r (link_key ''learning_mp4'' token file) = Some (Scoped_link k, t) \<Longrightarrow>
    r (link_key ''learning_mp4'' token file) = Some (Scoped_link k, t) \<or>
    (\<exists>q\<in>set qs. issues q (link_key ''learning_mp4'' token file) k t)"
proof (induction qs arbitrary: r)
  case (Cons q qs)
  from Cons.IH [of "link_step q r"] Cons.prems
  have "link_step q r (link_key ''learning_mp4'' token file) = Some (Scoped_link k, t) \<or>
      (\<exists>q\<in>set qs. issues q (link_key ''learning_mp4'' token file) k t)" by simp
  then show ?case by (auto dest: link_step_scoped)
qed simp

text \<open>
  C39: over every history of link requests, a scoped link plays a video only for fifteen minutes after a request whose
  credential and access were checked, and only while the shop still names the subject of that request for the same
  credential and the subject still has access to the course; what is sent is the range of that lecture's file.
\<close>

theorem scoped_video_needs_current_right:
  assumes "stream_lecture e files chunk ask token file header (fold link_step qs Map.empty) db = Inr a"
  shows "\<exists>q k t us co content. q \<in> set qs \<and> issues q (link_key ''learning_mp4'' token file) k t \<and> en_now e < t \<and>
    learning_subject (ask 0 (sk_authority k)) = Inr us \<and> us_id us = sk_subject k \<and>
    course_by e (sk_course k) = Some co \<and> has_course_access e db us co Whole_course = Inr () \<and>
    files (fst (sk_path k)) (snd (sk_path k)) = Some content \<and> a = mp4_range_response chunk content header"
proof -
  from assms obtain k us co content where
    get: "redis_get (en_now e) (link_key ''learning_mp4'' token file) (fold link_step qs Map.empty) = Some (Scoped_link k)"
    and rest: "learning_subject (ask 0 (sk_authority k)) = Inr us" "us_id us = sk_subject k"
      "course_by e (sk_course k) = Some co" "has_course_access e db us co Whole_course = Inr ()"
      "files (fst (sk_path k)) (snd (sk_path k)) = Some content" "a = mp4_range_response chunk content header"
    by (auto simp: stream_lecture_def send_file_def result_simps split: option.splits link_value.splits if_splits)
  from get obtain t where t: "fold link_step qs Map.empty (link_key ''learning_mp4'' token file) = Some (Scoped_link k, t)"
    "en_now e < t"
    by (auto simp: redis_get_def split: option.splits if_splits)
  from scoped_links_issued [OF t(1)] have "\<exists>q\<in>set qs. issues q (link_key ''learning_mp4'' token file) k t" by simp
  with t(2) rest show ?thesis by blast
qed

definition limited_answer :: authority where
  "limited_answer n d = Reply 200 (Some (jobj [(''purpose'', js ''retained_learning''), (''ordinary_authority'', JBool False),
     (''financial_authority'', JBool False), (''admin'', JBool False), (''email_verified'', JBool True), (''subject'', js ''u'')]))"

definition example_files :: files where
  "example_files c l = (if l = ''intro'' then Some [10, 20, 30, 40] else None)"

definition example_link :: link_request where
  "example_link = Limited free_env example_files ''t'' 3600 limited_answer (replicate 43 CHR ''k'') ''python'' ''intro'' empty_db"

lemma scoped_video_needs_current_right_witness:
  "stream_lecture (free_env\<lparr>en_now := 1899\<rparr>) example_files 2 limited_answer ''t'' ''python_intro.mp4'' ''bytes=1-''
      (fold link_step [example_link] Map.empty) empty_db = Inr (Partial 1 3 4 [[20, 30]]) \<and>
    (\<exists>q k t us co content. q \<in> set [example_link] \<and>
      issues q (link_key ''learning_mp4'' ''t'' ''python_intro.mp4'') k t \<and> en_now (free_env\<lparr>en_now := 1899\<rparr>) < t \<and>
      learning_subject (limited_answer 0 (sk_authority k)) = Inr us \<and> us_id us = sk_subject k \<and>
      course_by (free_env\<lparr>en_now := 1899\<rparr>) (sk_course k) = Some co \<and>
      has_course_access (free_env\<lparr>en_now := 1899\<rparr>) empty_db us co Whole_course = Inr () \<and>
      example_files (fst (sk_path k)) (snd (sk_path k)) = Some content \<and>
      Partial 1 3 4 [[20, 30]] = mp4_range_response 2 content ''bytes=1-'')"
proof -
  have "stream_lecture (free_env\<lparr>en_now := 1899\<rparr>) example_files 2 limited_answer ''t'' ''python_intro.mp4'' ''bytes=1-''
      (fold link_step [example_link] Map.empty) empty_db = Inr (Partial 1 3 4 [[20, 30]])"
    by code_simp
  with scoped_video_needs_current_right [OF this] show ?thesis by blast
qed

lemma expired_link_plays_nothing:
  "stream_lecture (free_env\<lparr>en_now := 1900\<rparr>) example_files 2 limited_answer ''t'' ''python_intro.mp4'' ''bytes=1-''
    (fold link_step [example_link] Map.empty) empty_db = Inl lecture_missing"
  by code_simp

section \<open>Erased accounts\<close>

text \<open>The routes of the limited credential pass the account lock, so they write nothing for an erased account.\<close>

lemma learning_auth_account:
  assumes "learning_auth e ask key db = Inr (us, db')"
  shows "\<not> erased db (us_id us)" "gone db v \<Longrightarrow> gone db' v" "erased db' v = erased db v"
  using assms by (auto simp: learning_auth_def Let_def case_prod_beta result_simps split: if_splits)

lemma open_scoped_account:
  assumes "open_scoped e ask key c sc db = Inr ((co, us), db')" "gone db v"
  shows "us_id us \<noteq> v" "gone db' v"
  using assms learning_auth_account [of e ask key db us db'] by (auto simp: open_scoped_def result_simps gone_def)

lemma gone_learning_watch:
  assumes "gone db v" "learning_watch e ask key c db = Inr (b, db')"
  shows "gone db' v"
proof -
  obtain co us db1 where o': "open_scoped e ask key c Whole_course db = Inr ((co, us), db1)"
    and db': "db' = last_watch_update db1 (en_now e) (us_id us) (co_id co)"
    using assms(2) by (auto simp: learning_watch_def result_simps)
  note g = open_scoped_account [OF o' assms(1)]
  show ?thesis
    unfolding db' last_watch_update_def
    by (intro gone_write g(2)) (use g gone_row [OF g(2)] in \<open>auto intro: no_row_intros\<close>)
qed

datatype learning_call =
    Watch_call env authority string string
  | Complete_call env int authority string string string

fun learning_step :: "learning_call \<Rightarrow> database \<Rightarrow> database" where
  "learning_step (Watch_call e ask key c) db = committed db (learning_watch e ask key c db)"
| "learning_step (Complete_call e xp ask key c l) db = committed db (learning_complete e xp ask key c l db)"

interpretation learning_steps: guarded learning_step
proof
  fix db u q
  assume g: "gone db u"
  show "gone (learning_step q db) u"
  proof (cases q)
    case (Watch_call e ask key c)
    with g show ?thesis by (auto intro: gone_committed gone_learning_watch)
  next
    case (Complete_call e xp ask key c l)
    have "gone db' u" if call: "learning_complete e xp ask key c l db = Inr (b, db')" for b db'
    proof -
      obtain co us db1 le where o': "open_scoped e ask key c (Lecture_scope l) db = Inr ((co, us), db1)"
        and run: "complecte_lecture (scoped e us) xp us co le db1 = Inr (b, db')"
        using call by (auto simp: learning_complete_def result_simps)
      note acc = open_scoped_account [OF o' g]
      show ?thesis by (rule gone_complecte_lecture [OF acc(2) acc(1) run])
    qed
    with Complete_call g show ?thesis by (auto intro: gone_committed)
  qed
qed

end
