(* ===== verification/Sweep.thy ===== *)
theory Sweep
  imports Rights
begin

text \<open>
  The sweep over deleted accounts (\<^verbatim>\<open>sweep.py\<close>): in batches by ascending user id, the auth service is asked for every
  account of which live data exists, and the data of an account it does not know is erased, each in a transaction of
  its own. The answers are a parameter (no status: the call failed); the pause between calls changes nothing.
\<close>

section \<open>The accounts with data\<close>

text \<open>The union over \<^verbatim>\<open>USER_MODELS\<close>.\<close>

definition data_users :: "database \<Rightarrow> string list" where
  "data_users db = map sb_user (submissions db) @ map ts_user (task_states db) @ map lr_user (start_receipts db) @
     map ls_user (starts db) @ map pq_user (project_requests db) @ map pr_user (projects db) @ map pl_user (plans db) @
     map ms_user (milestones db) @ map lv_user (verdicts db) @ map rq_user (room_requests db) @ map rs_user (rooms db) @
     map ca_user (accesses db) @ map lw_user (watches db) @ map lp_user (lectures db) @ map bm_user (bookmarks db) @
     map xp_user (xps db) @ map xo_user (xp_operations db)"

definition later :: "string option \<Rightarrow> string \<Rightarrow> bool" where
  "later after u = (case after of None \<Rightarrow> True | Some a \<Rightarrow> a < u)"

definition user_ids_query :: "string option \<Rightarrow> nat \<Rightarrow> database \<Rightarrow> string list" where
  "user_ids_query after limit db = take limit (filter (later after) (sorted_set (data_users db)))"

section \<open>The sweep\<close>

datatype outcome = Kept | Was_erased | Erasure_failed | Unknown

definition sweep_user :: "env \<Rightarrow> nat option \<Rightarrow> string \<Rightarrow> database \<Rightarrow> outcome \<times> database" where
  "sweep_user e answer u db = (case answer of None \<Rightarrow> (Unknown, db)
     | Some st \<Rightarrow> if st = 404
         then (case delete_user_data e u db of Inl er \<Rightarrow> (Erasure_failed, db) | Inr (_, db') \<Rightarrow> (Was_erased, db'))
         else if st = 200 then (Kept, db) else (Unknown, db))"

fun sweep_batch :: "(nat \<Rightarrow> env) \<Rightarrow> (nat \<Rightarrow> string \<Rightarrow> nat option) \<Rightarrow> nat \<Rightarrow> string list \<Rightarrow> database \<Rightarrow>
    (string \<times> outcome) list \<times> database" where
  "sweep_batch es ask k [] db = ([], db)"
| "sweep_batch es ask k (u # us) db = (let (r, db1) = sweep_user (es k) (ask k u) u db;
       (log, db2) = sweep_batch es ask (k + 1) us db1 in ((u, r) # log, db2))"

lemma delete_user_data_same:
  assumes "delete_user_data e u db = Inr (x, db')" "v \<noteq> u"
  shows "same_data v db' db"
  using assms(1)
proof (cases rule: delete_user_data_cases)
  case (1 new db1)
  then show ?thesis
    using assms(2) by (simp add: same_data_delete same_data_keeps suspend_purchases_def set_deleted_def release_rights_def)
qed

lemma data_users_clean: "u \<in> set (data_users db) \<longleftrightarrow> \<not> clean db u"
  unfolding data_users_def clean_def no_row_def by auto

lemma same_data_clean:
  assumes "same_data v db' db"
  shows "clean db' v = clean db v"
proof -
  have empty: "no_row own v t \<longleftrightarrow> all_rows (\<lambda>r. own r = v) t = []" for own :: "'r \<Rightarrow> string" and t
    by (auto simp: no_row_def all_rows_def filter_empty_conv)
  from assms show ?thesis by (simp add: clean_def empty same_data_def)
qed

lemma same_data_trans: "same_data v a b \<Longrightarrow> same_data v b c \<Longrightarrow> same_data v a c"
  by (simp add: same_data_def)

lemma sweep_user_effect:
  assumes "sweep_user e answer u db = (r, db')"
  shows "v \<noteq> u \<or> r \<noteq> Was_erased \<Longrightarrow> same_data v db' db" "r = Was_erased \<Longrightarrow> gone db' u"
    "r = Was_erased \<or> r = Erasure_failed \<longleftrightarrow> answer = Some 404" "gone db v \<Longrightarrow> gone db' v"
    "set (data_users db') = set (data_users db) - (if r = Was_erased then {u} else {})"
proof -
  have 1: "r = Was_erased \<and> answer = Some 404 \<and> (\<exists>x. delete_user_data e u db = Inr (x, db')) \<or>
      r \<noteq> Was_erased \<and> db' = db \<and> (r = Erasure_failed \<longleftrightarrow> answer = Some 404)"
    using assms by (auto simp: sweep_user_def split: option.splits if_splits sum.splits)
  then show "v \<noteq> u \<or> r \<noteq> Was_erased \<Longrightarrow> same_data v db' db"
    by (auto dest: delete_user_data_same)
  from 1 show g: "r = Was_erased \<Longrightarrow> gone db' u" by (auto dest: delete_user_data_gone)
  from 1 show "r = Was_erased \<or> r = Erasure_failed \<longleftrightarrow> answer = Some 404" by auto
  from 1 show "gone db v \<Longrightarrow> gone db' v" by (auto dest: delete_user_data_keeps_gone)
  show "set (data_users db') = set (data_users db) - (if r = Was_erased then {u} else {})"
  proof (cases "r = Was_erased")
    case True
    with 1 obtain x where x: "delete_user_data e u db = Inr (x, db')" by auto
    have "w \<in> set (data_users db') \<longleftrightarrow> w \<in> set (data_users db) \<and> w \<noteq> u" for w
      using g [OF True] same_data_clean [OF delete_user_data_same [OF x]] by (cases "w = u") (auto simp: data_users_clean gone_def)
    with True show ?thesis by auto
  qed (use 1 in auto)
qed

lemma sweep_batch_effect:
  assumes "sweep_batch es ask k us db = (log, db')"
  shows "map fst log = us" "set (data_users db') \<subseteq> set (data_users db)"
    "set (data_users db) - set us \<subseteq> set (data_users db')"
  using assms
proof (induction us arbitrary: k db log)
  case (Cons u us)
  {
    fix k db log
    assume "sweep_batch es ask k (u # us) db = (log, db')"
    then obtain r db1 log' where 1: "sweep_user (es k) (ask k u) u db = (r, db1)"
      and 2: "sweep_batch es ask (k + 1) us db1 = (log', db')" and log: "log = (u, r) # log'"
      by (auto simp: Let_def split: prod.splits)
    note e = sweep_user_effect(5) [OF 1]
    have "map fst log = u # us \<and> set (data_users db') \<subseteq> set (data_users db) \<and>
        set (data_users db) - set (u # us) \<subseteq> set (data_users db')"
      using Cons.IH [OF 2] e by (auto simp: log split: if_splits)
  }
  note step = this
  { case 1 then show ?case using step by blast }
  { case 2 then show ?case using step by blast }
  { case 3 then show ?case using step by blast }
qed auto

lemma query_members:
  "set (user_ids_query after limit db) \<subseteq> {u \<in> set (data_users db). later after u}"
  by (auto simp: user_ids_query_def dest: in_set_takeD)

text \<open>Every batch moves past an account, and no erasure creates data: the accounts still ahead get fewer.\<close>

function sweep :: "(nat \<Rightarrow> env) \<Rightarrow> (nat \<Rightarrow> string \<Rightarrow> nat option) \<Rightarrow> nat \<Rightarrow> nat \<Rightarrow> string option \<Rightarrow> database \<Rightarrow>
    (string \<times> outcome) list \<times> database" where
  "sweep es ask limit k after db = (let us = user_ids_query after limit db in
     if us = [] then ([], db)
     else let (log, db1) = sweep_batch es ask k us db;
              (rest, db2) = sweep es ask limit (k + length us) (Some (last us)) db1
          in (log @ rest, db2))"
  by pat_completeness auto

termination
proof (relation "measure (\<lambda>(es, ask, limit, k, after, db). card {u \<in> set (data_users db). later after u})", goal_cases)
  case (2 es ask limit k after db us p log db1)
  then have us: "us = user_ids_query after limit db" "us \<noteq> []" and run: "sweep_batch es ask k us db = (log, db1)" by auto
  have "last us \<in> {u \<in> set (data_users db). later after u}"
    by (rule subsetD [OF query_members [of after limit db]]) (use us in simp)
  then have last: "last us \<in> set (data_users db)" "later after (last us)" by auto
  have "{u \<in> set (data_users db1). later (Some (last us)) u} \<subset> {u \<in> set (data_users db). later after u}"
  proof
    show "{u \<in> set (data_users db1). later (Some (last us)) u} \<subseteq> {u \<in> set (data_users db). later after u}"
      using sweep_batch_effect(2) [OF run] last(2) by (auto simp: later_def split: option.splits)
    show "{u \<in> set (data_users db1). later (Some (last us)) u} \<noteq> {u \<in> set (data_users db). later after u}"
      using last by (auto simp: later_def)
  qed
  then show ?case by (simp add: psubset_card_mono)
qed simp

declare sweep.simps [simp del]

text \<open>The counters of the log message: checked, missing, deleted, errors.\<close>

definition sweep_counts :: "(string \<times> outcome) list \<Rightarrow> nat \<times> nat \<times> nat \<times> nat" where
  "sweep_counts log = (length log, count_rows (\<lambda>x. snd x \<in> {Was_erased, Erasure_failed}) log, count_rows (\<lambda>x. snd x = Was_erased) log,
     count_rows (\<lambda>x. snd x \<in> {Erasure_failed, Unknown}) log)"

definition sweep_deleted_users :: "(nat \<Rightarrow> env) \<Rightarrow> (nat \<Rightarrow> string \<Rightarrow> nat option) \<Rightarrow> nat \<Rightarrow> database \<Rightarrow>
    (string \<times> outcome) list \<times> database" where
  "sweep_deleted_users es ask limit db = sweep es ask limit 0 None db"

section \<open>What a sweep does\<close>

definition outcome_ok :: "(nat \<Rightarrow> string \<Rightarrow> nat option) \<Rightarrow> database \<Rightarrow> database \<Rightarrow> nat \<Rightarrow> string \<times> outcome \<Rightarrow> bool" where
  "outcome_ok ask db db' j x \<longleftrightarrow> (snd x \<in> {Was_erased, Erasure_failed}) = (ask j (fst x) = Some 404) \<and>
     (if snd x = Was_erased then gone db' (fst x) else same_data (fst x) db' db)"

definition log_ok :: "(nat \<Rightarrow> string \<Rightarrow> nat option) \<Rightarrow> nat \<Rightarrow> database \<Rightarrow> (string \<times> outcome) list \<Rightarrow> database \<Rightarrow> bool" where
  "log_ok ask k db log db' \<longleftrightarrow> (\<forall>j<length log. outcome_ok ask db db' (k + j) (log ! j)) \<and>
     (\<forall>v. v \<notin> fst ` set log \<longrightarrow> same_data v db' db) \<and> (\<forall>v. gone db v \<longrightarrow> gone db' v)"

lemma log_ok_Nil [simp]: "log_ok ask k db [] db"
  by (simp add: log_ok_def)

lemma outcome_later:
  "outcome_ok ask a b j x \<Longrightarrow> (gone b (fst x) \<Longrightarrow> gone c (fst x)) \<Longrightarrow> same_data (fst x) c b \<Longrightarrow> outcome_ok ask a c j x"
  by (auto simp: outcome_ok_def intro: same_data_trans split: if_splits)

lemma outcome_earlier: "outcome_ok ask b c j x \<Longrightarrow> same_data (fst x) b a \<Longrightarrow> outcome_ok ask a c j x"
  by (auto simp: outcome_ok_def intro: same_data_trans split: if_splits)

lemma log_ok_append:
  assumes "log_ok ask k db l1 db1" "log_ok ask (k + length l1) db1 l2 db2" "fst ` set l1 \<inter> fst ` set l2 = {}"
  shows "log_ok ask k db (l1 @ l2) db2"
  unfolding log_ok_def
proof (intro conjI allI impI)
  fix j assume j: "j < length (l1 @ l2)"
  show "outcome_ok ask db db2 (k + j) ((l1 @ l2) ! j)"
  proof (cases "j < length l1")
    case True
    then have "outcome_ok ask db db1 (k + j) (l1 ! j)" using assms(1) by (simp add: log_ok_def)
    moreover have "same_data (fst (l1 ! j)) db2 db1"
      using True assms(2,3) by (simp add: log_ok_def) (meson disjoint_iff image_eqI nth_mem)
    ultimately have "outcome_ok ask db db2 (k + j) (l1 ! j)"
      using assms(2) by (auto simp: log_ok_def intro: outcome_later)
    with True show ?thesis by (simp add: nth_append)
  next
    case False
    define i where "i = j - length l1"
    have i: "i < length l2" "k + j = k + length l1 + i" using j False by (auto simp: i_def)
    then have "outcome_ok ask db1 db2 (k + j) (l2 ! i)" using assms(2) unfolding log_ok_def i(2) by blast
    moreover have "same_data (fst (l2 ! i)) db1 db"
      using i(1) assms(1,3) by (simp add: log_ok_def) (meson disjoint_iff image_eqI nth_mem)
    ultimately have "outcome_ok ask db db2 (k + j) (l2 ! i)" by (rule outcome_earlier)
    with False show ?thesis by (simp add: nth_append i_def)
  qed
next
  fix v assume "v \<notin> fst ` set (l1 @ l2)"
  with assms(1,2) show "same_data v db2 db" by (simp add: log_ok_def image_Un) (meson same_data_trans)
next
  fix v assume "gone db v"
  with assms(1,2) show "gone db2 v" by (auto simp: log_ok_def)
qed

lemma sweep_user_log:
  assumes "sweep_user (es k) (ask k u) u db = (r, db')"
  shows "log_ok ask k db [(u, r)] db'"
  using sweep_user_effect [OF assms] by (auto simp: log_ok_def outcome_ok_def)

lemma sweep_batch_log:
  "distinct us \<Longrightarrow> sweep_batch es ask k us db = (log, db') \<Longrightarrow> log_ok ask k db log db'"
proof (induction us arbitrary: k db log)
  case (Cons u us)
  then obtain r db1 log' where 1: "sweep_user (es k) (ask k u) u db = (r, db1)"
    and 2: "sweep_batch es ask (k + 1) us db1 = (log', db')" and log: "log = [(u, r)] @ log'"
    by (auto simp: Let_def split: prod.splits)
  have "u \<notin> fst ` set log'" using sweep_batch_effect(1) [OF 2] Cons.prems(1) by (metis distinct.simps(2) set_map)
  moreover have "log_ok ask k db [(u, r)] db1" by (rule sweep_user_log) (rule 1)
  moreover have "log_ok ask (k + 1) db1 log' db'" by (rule Cons.IH [OF _ 2]) (use Cons.prems(1) in simp)
  ultimately show ?case unfolding log by (intro log_ok_append) simp_all
qed simp

lemma sorted_split:
  fixes xs :: "'a::linorder list"
  assumes "sorted xs" "distinct xs" "take n xs \<noteq> []"
  shows "set (drop n xs) = {x \<in> set xs. last (take n xs) < x}"
proof -
  have xs: "xs = take n xs @ drop n xs" by simp
  have parts: "sorted (take n xs @ drop n xs)" "distinct (take n xs @ drop n xs)" using assms(1,2) by simp_all
  define ys where "ys = take n xs"
  have "sorted ys" "ys \<noteq> []" using parts(1) assms(3) by (simp_all only: sorted_append ys_def) simp
  then have le: "\<forall>x\<in>set (take n xs). x \<le> last (take n xs)"
    unfolding ys_def [symmetric] by (cases ys rule: rev_cases) (auto simp: sorted_append)
  have gt: "\<forall>x\<in>set (take n xs). \<forall>y\<in>set (drop n xs). x < y"
    using parts unfolding sorted_append distinct_append by (metis disjoint_iff order_le_less)
  show ?thesis
  proof (intro equalityI subsetI)
    fix x assume "x \<in> set (drop n xs)"
    with gt last_in_set [OF assms(3)] show "x \<in> {x \<in> set xs. last (take n xs) < x}" by (auto dest: in_set_dropD)
  next
    fix x assume "x \<in> {x \<in> set xs. last (take n xs) < x}"
    with le have "x \<notin> set (take n xs)" by auto
    with \<open>x \<in> {x \<in> set xs. last (take n xs) < x}\<close> show "x \<in> set (drop n xs)" by (metis (mono_tags, lifting) Un_iff mem_Collect_eq set_append xs)
  qed
qed

lemma sweep_log:
  "0 < limit \<Longrightarrow> sweep es ask limit k after db = (log, db') \<Longrightarrow>
    map fst log = filter (later after) (sorted_set (data_users db)) \<and> log_ok ask k db log db'"
proof (induction es ask limit k after db arbitrary: log db' rule: sweep.induct)
  case (1 es ask limit k after db)
  define all where "all = filter (later after) (sorted_set (data_users db))"
  define us where "us = take limit all"
  have us: "user_ids_query after limit db = us" by (simp add: us_def all_def user_ids_query_def)
  have sd: "sorted all" "distinct all" by (simp_all add: all_def sorted_wrt_filter)
  show ?case
  proof (cases "us = []")
    case True
    with "1.prems"(2) have "log = [] \<and> db' = db" by (simp add: sweep.simps [of es] us)
    moreover from True "1.prems"(1) have "all = []" by (simp add: us_def)
    ultimately show ?thesis by (simp add: all_def [symmetric])
  next
    case False
    then obtain l1 db1 l2 where b: "sweep_batch es ask k us db = (l1, db1)"
      and r: "sweep es ask limit (k + length us) (Some (last us)) db1 = (l2, db')" and log: "log = l1 @ l2"
      using "1.prems"(2) by (auto simp: sweep.simps [of es ask limit k] us Let_def split: prod.splits)
    have ih: "map fst l2 = filter (later (Some (last us))) (sorted_set (data_users db1))" "log_ok ask (k + length us) db1 l2 db'"
      using "1.IH" [OF us [symmetric] False b [symmetric] refl "1.prems"(1) r] by simp_all
    note e = sweep_batch_effect [OF b]
    have above: "x \<notin> set us" if "last us < x" for x
    proof
      assume "x \<in> set us"
      then have "x \<in> set all" by (auto simp: us_def dest: in_set_takeD)
      with that have "x \<in> set (drop limit all)" using sorted_split [OF sd, of limit] False by (simp add: us_def)
      with \<open>x \<in> set us\<close> sd(2) show False by (metis us_def disjoint_iff set_take_disj_set_drop_if_distinct order_refl)
    qed
    have "set (drop limit all) = {x \<in> set all. last us < x}"
      using sorted_split [OF sd, of limit] False by (simp add: us_def)
    also have "\<dots> = {x \<in> set (data_users db1). last us < x}"
    proof -
      have "last us \<in> set all" using last_in_set [OF False] unfolding us_def by (rule in_set_takeD)
      then have "later after (last us)" by (simp add: all_def)
      then have "later after x" if "last us < x" for x
        using that by (auto simp: later_def split: option.splits)
      with e(2,3) above show ?thesis by (auto simp: all_def)
    qed
    finally have "set (drop limit all) = set (map fst l2)" by (simp add: ih(1) later_def)
    then have "map fst l2 = drop limit all"
      using sd by (intro sorted_distinct_set_unique) (simp_all add: ih(1) sorted_wrt_filter sorted_wrt_drop)
    then have names: "map fst log = all" by (simp add: log e(1) us_def)
    have "fst ` set l1 \<inter> fst ` set l2 = {}"
      using sd(2) names by (simp add: log distinct_append flip: names)
    moreover have "log_ok ask k db l1 db1"
      by (rule sweep_batch_log [OF _ b]) (simp add: us_def sd(2))
    moreover have "length l1 = length us" using e(1) by (metis length_map)
    ultimately have "log_ok ask k db log db'" unfolding log using ih(2) by (intro log_ok_append) simp_all
    with names show ?thesis by (simp add: all_def)
  qed
qed

text \<open>
  C40: a sweep ends, asks about every account that has data exactly once, in order, and erases exactly the ones the
  auth service answers 404 for, unless the erasure itself fails: an erased account is gone at the end, and the data of
  every account that was kept, could not be asked about or had none is what it was.
\<close>

theorem sweep_erases_the_missing:
  assumes "0 < limit" "sweep_deleted_users es ask limit db = (log, db')"
  shows "map fst log = sorted_set (data_users db) \<and>
    (\<forall>j<length log. case log ! j of (u, r) \<Rightarrow> (r \<in> {Was_erased, Erasure_failed}) = (ask j u = Some 404) \<and>
       (if r = Was_erased then gone db' u else same_data u db' db)) \<and>
    (\<forall>v. v \<in> set (data_users db) \<or> same_data v db' db)"
proof -
  have f: "filter (later None) xs = xs" for xs by (simp add: later_def)
  from sweep_log [OF assms(1) assms(2) [unfolded sweep_deleted_users_def]]
  have log: "map fst log = sorted_set (data_users db)" and ok: "log_ok ask 0 db log db'" by (simp_all add: f)
  from log have "fst ` set log = set (data_users db)" by (metis set_map set_sorted_set)
  with log ok show ?thesis by (auto simp: log_ok_def outcome_ok_def case_prod_beta)
qed

text \<open>Three accounts in batches of two: one is unknown to the auth service, one is kept, one could not be asked about.\<close>

definition sweep_db :: database where
  "sweep_db = empty_db\<lparr>watches := [\<lparr>lw_user = ''c'', lw_course = ''python'', lw_at = 1\<rparr>],
     bookmarks := [\<lparr>bm_user = ''a'', bm_root = ''r'', bm_sub = ''s''\<rparr>, \<lparr>bm_user = ''b'', bm_root = ''r'', bm_sub = ''s''\<rparr>]\<rparr>"

definition sweep_answers :: "nat \<Rightarrow> string \<Rightarrow> nat option" where
  "sweep_answers j u = (if u = ''c'' then Some 404 else if u = ''a'' then Some 200 else None)"

definition sweep_result :: "(string \<times> outcome) list \<times> database" where
  "sweep_result = sweep_deleted_users (\<lambda>k. example_env) sweep_answers 2 sweep_db"

lemma sweep_erases_the_missing_witness:
  "fst sweep_result = [(''a'', Kept), (''b'', Unknown), (''c'', Was_erased)] \<and> gone (snd sweep_result) ''c'' \<and>
    same_data ''a'' (snd sweep_result) sweep_db"
proof -
  have log: "fst sweep_result = [(''a'', Kept), (''b'', Unknown), (''c'', Was_erased)]"
    unfolding sweep_result_def sweep_deleted_users_def
    by (subst sweep.simps, code_simp)
  have "sweep_deleted_users (\<lambda>k. example_env) sweep_answers 2 sweep_db = (fst sweep_result, snd sweep_result)"
    by (simp add: sweep_result_def)
  from sweep_erases_the_missing [OF _ this] log show ?thesis
    by (auto simp: less_Suc_eq numeral_eq_Suc)
qed

end
