(* ===== verification/Published.thy ===== *)
theory Published
  imports Rewards Documents
begin

text \<open>
  The public leaderboard (\<^verbatim>\<open>services/publications.py\<close>, \<^verbatim>\<open>endpoints/internal/skills.py\<close>): who takes part is decided by
  the auth service. An answer is built from a snapshot of its participants and given out only if the publication epoch
  read afterwards is still that of the snapshot; anything else is closed. The answers of the auth service are a
  parameter, numbered in the order of the reads of one request; \<open>db\<close> is the database at each of them.
\<close>

section \<open>Epochs and snapshots\<close>

record epoch =
  ep_publication :: string
  ep_revision :: int
  ep_active :: bool
  ep_enabled :: bool

record participant =
  pp_user :: string
  pp_visibility :: int
  pp_name :: ustr

record publication_snapshot =
  ss_epoch :: epoch
  ss_participants :: "participant list"

definition SCOPE_VERSION :: string where "SCOPE_VERSION = ''academy-verified-v1''"

definition publication_unavailable :: err where
  "publication_unavailable = Http 503 ''profile publication temporarily unavailable''"

definition epoch_keys :: "string list" where
  "epoch_keys = [''scope_version'', ''publication_epoch'', ''epoch_revision'', ''policy_active'', ''publishing_enabled'']"

definition epoch_fields :: "env \<Rightarrow> json \<Rightarrow> epoch option" where
  "epoch_fields e v =
     Option.bind (require_that (\<lambda>s. s = SCOPE_VERSION) (json_string (jget ''scope_version'' v))) (\<lambda>_.
     Option.bind (Option.bind (json_string (jget ''publication_epoch'' v)) (en_uuid e)) (\<lambda>p.
     Option.bind (require_that (\<lambda>n. 0 \<le> n) (json_int (jget ''epoch_revision'' v))) (\<lambda>n.
     Option.bind (json_bool (jget ''policy_active'' v)) (\<lambda>a.
     Option.bind (json_bool (jget ''publishing_enabled'' v)) (\<lambda>b.
     require_that (\<lambda>x. \<not> ep_enabled x \<or> ep_active x)
       (Some \<lparr>ep_publication = p, ep_revision = n, ep_active = a, ep_enabled = b\<rparr>))))))"

definition parse_epoch :: "env \<Rightarrow> json \<Rightarrow> epoch option" where
  "parse_epoch e v = (if exact_keys epoch_keys v then epoch_fields e v else None)"

definition parse_participant :: "env \<Rightarrow> json \<Rightarrow> participant option" where
  "parse_participant e v = (if \<not> exact_keys [''user_id'', ''visibility_revision'', ''display_name'', ''avatar_url''] v then None else
     Option.bind (Option.bind (json_string (jget ''user_id'' v)) (en_uuid e)) (\<lambda>u.
     Option.bind (require_that (\<lambda>n. 1 \<le> n) (json_int (jget ''visibility_revision'' v))) (\<lambda>n.
     Option.bind (json_text (jget ''display_name'' v)) (\<lambda>d.
     if jget ''avatar_url'' v = Some JNull then Some \<lparr>pp_user = u, pp_visibility = n, pp_name = d\<rparr> else None))))"

definition parse_snapshot :: "env \<Rightarrow> json \<Rightarrow> publication_snapshot option" where
  "parse_snapshot e v = (if \<not> exact_keys (epoch_keys @ [''participants'']) v then None else
     Option.bind (epoch_fields e v) (\<lambda>ep.
     Option.bind (Option.bind (the_list (jget ''participants'' v)) (all_of (parse_participant e))) (\<lambda>ps.
     if distinct (map pp_user ps) then Some \<lparr>ss_epoch = ep, ss_participants = ps\<rparr> else None)))"

definition user_ids :: "publication_snapshot \<Rightarrow> string list" where
  "user_ids s = map pp_user (ss_participants s)"

section \<open>Reading the authority\<close>

text \<open>\<^verbatim>\<open>_read\<close>: whatever is not a valid answer closes the ranking.\<close>

definition read_authority :: "(json \<Rightarrow> 'a option) \<Rightarrow> reply \<Rightarrow> 'a result" where
  "read_authority parse answer = (case answer of
     Reply st (Some v) \<Rightarrow> if st \<noteq> 200 then Inl publication_unavailable
       else (case parse v of None \<Rightarrow> Inl publication_unavailable | Some x \<Rightarrow> Inr x)
   | _ \<Rightarrow> Inl publication_unavailable)"

record publications_env =
  pe_epoch :: "nat \<Rightarrow> reply"
  pe_snapshot :: "nat \<Rightarrow> reply"
  pe_enabled :: bool

definition require_enabled :: "publications_env \<Rightarrow> epoch \<Rightarrow> unit result" where
  "require_enabled pe ep = guard_r (ep_active ep \<and> ep_enabled ep \<and> pe_enabled pe) publication_unavailable"

definition current_epoch :: "env \<Rightarrow> publications_env \<Rightarrow> nat \<Rightarrow> epoch result" where
  "current_epoch e pe n = read_authority (parse_epoch e) (pe_epoch pe n)"

definition current_snapshot :: "env \<Rightarrow> publications_env \<Rightarrow> nat \<Rightarrow> publication_snapshot result" where
  "current_snapshot e pe n = bind_r (read_authority (parse_snapshot e) (pe_snapshot pe n)) (\<lambda>s.
     bind_r (require_enabled pe (ss_epoch s)) (\<lambda>_. Inr s))"

definition use_shared_rankings :: "env \<Rightarrow> publications_env \<Rightarrow> nat \<Rightarrow> bool result" where
  "use_shared_rankings e pe n = bind_r (current_epoch e pe n) (\<lambda>ep.
     if \<not> ep_active ep \<and> \<not> pe_enabled pe then Inr False else bind_r (require_enabled pe ep) (\<lambda>_. Inr True))"

section \<open>Rankings\<close>

text \<open>The publication the caller wants to page in, if any: another one is a conflict.\<close>

record wanted =
  wa_epoch :: "string option"
  wa_scope :: "string option"

definition same_publication :: "wanted \<Rightarrow> publication_snapshot \<Rightarrow> unit result" where
  "same_publication w s = guard_r ((wa_epoch w = None \<or> wa_epoch w = Some (ep_publication (ss_epoch s))) \<and>
     (wa_scope w = None \<or> wa_scope w = Some SCOPE_VERSION)) (Http 409 ''publication changed'')"

text \<open>
  Both rankings: a read from the database between a snapshot and the epoch, at most twice. \<open>rest\<close> is the number of
  tries left, \<open>n\<close> that of the next read.
\<close>

fun publish_read :: "env \<Rightarrow> publications_env \<Rightarrow> wanted \<Rightarrow> (nat \<Rightarrow> publication_snapshot \<Rightarrow> 'a) \<Rightarrow> nat \<Rightarrow> nat \<Rightarrow>
    ('a \<times> epoch) result" where
  "publish_read e pe w query 0 n = Inl publication_unavailable"
| "publish_read e pe w query (Suc rest) n = bind_r (current_snapshot e pe n) (\<lambda>s.
     bind_r (same_publication w s) (\<lambda>_.
     bind_r (current_epoch e pe n) (\<lambda>ep.
     if ep = ss_epoch s then Inr (query n s, ep) else publish_read e pe w query rest (n + 1))))"

record published_rank_view =
  pv_xp :: int
  pv_rank :: "int option"

definition published_leaderboard :: "env \<Rightarrow> publications_env \<Rightarrow> wanted \<Rightarrow> nat \<Rightarrow> nat \<Rightarrow> (nat \<Rightarrow> database) \<Rightarrow>
    (((string \<times> int \<times> int) list \<times> nat) \<times> epoch) result" where
  "published_leaderboard e pe w limit offset db = publish_read e pe w
     (\<lambda>n s. (get_leaderboard (db n) limit offset (Some (user_ids s)), count_users (db n) (Some (user_ids s)))) 2 0"

definition rank_view :: "database \<Rightarrow> string \<Rightarrow> publication_snapshot \<Rightarrow> published_rank_view" where
  "rank_view db u s = (let xp = get_user_xp db u
     in \<lparr>pv_xp = xp, pv_rank = (if u \<in> set (user_ids s) \<and> exists_row (\<lambda>x. xp_user x = u) (xps db)
         then Some (rank_of db xp (Some (user_ids s))) else None)\<rparr>)"

definition published_rank :: "env \<Rightarrow> publications_env \<Rightarrow> wanted \<Rightarrow> string \<Rightarrow> (nat \<Rightarrow> database) \<Rightarrow>
    (published_rank_view \<times> epoch) result" where
  "published_rank e pe w u db = publish_read e pe w (\<lambda>n s. rank_view (db n) u s) 2 0"

datatype leaderboard_answer =
    Shared_board "((string \<times> int \<times> int) list \<times> nat) \<times> epoch"
  | Legacy_board "(string \<times> int \<times> int) list \<times> nat"

text \<open>The epoch of \<^verbatim>\<open>use_shared_rankings\<close> is a read before the others; \<open>first\<close> holds its answer.\<close>

definition leaderboard_route :: "env \<Rightarrow> publications_env \<Rightarrow> publications_env \<Rightarrow> nat \<Rightarrow> nat \<Rightarrow> (nat \<Rightarrow> database) \<Rightarrow>
    leaderboard_answer result" where
  "leaderboard_route e first pe limit offset db = bind_r (use_shared_rankings e first 0) (\<lambda>shared.
     if shared
     then bind_r (published_leaderboard e pe \<lparr>wa_epoch = None, wa_scope = None\<rparr> limit offset db) (\<lambda>b. Inr (Shared_board b))
     else Inr (Legacy_board (get_leaderboard (db 0) limit offset None, count_users (db 0) None)))"

datatype rank_answer = Shared_rank "published_rank_view \<times> epoch" | Legacy_rank int int

definition rank_route :: "env \<Rightarrow> publications_env \<Rightarrow> publications_env \<Rightarrow> string \<Rightarrow> (nat \<Rightarrow> database) \<Rightarrow> rank_answer result" where
  "rank_route e first pe u db = bind_r (use_shared_rankings e first 0) (\<lambda>shared.
     if shared then bind_r (published_rank e pe \<lparr>wa_epoch = None, wa_scope = None\<rparr> u db) (\<lambda>r. Inr (Shared_rank r))
     else let xp = get_user_xp (db 0) u in Inr (Legacy_rank xp (rank_of (db 0) xp None)))"

definition add_skill_progress :: "int \<Rightarrow> string \<Rightarrow> string \<Rightarrow> int \<Rightarrow> bool handler" where
  "add_skill_progress now u s xp db = (if \<not> exists_row (\<lambda>k. sk_id k = s) (sub_skills db) then Inl (Http 404 ''skill not found'')
     else bind_r (add_xp now u s xp db) (\<lambda>(_, db). Inr (True, db)))"

section \<open>What is published\<close>

lemma publish_read_Inr:
  "publish_read e pe w query rest n = Inr (a, ep) \<Longrightarrow> \<exists>m s. n \<le> m \<and> m < n + rest \<and> current_snapshot e pe m = Inr s \<and>
    same_publication w s = Inr () \<and> current_epoch e pe m = Inr ep \<and> ss_epoch s = ep \<and> a = query m s"
proof (induction rest arbitrary: n)
  case (Suc rest)
  then obtain s ep' where s: "current_snapshot e pe n = Inr s" "same_publication w s = Inr ()" "current_epoch e pe n = Inr ep'"
    and next_try: "(if ep' = ss_epoch s then Inr (query n s, ep') else publish_read e pe w query rest (n + 1)) = Inr (a, ep)"
    by (auto simp: result_simps)
  show ?case
  proof (cases "ep' = ss_epoch s")
    case True
    with s next_try show ?thesis by (intro exI [of _ n] exI [of _ s]) auto
  next
    case False
    with next_try Suc.IH [of "n + 1"] obtain m s' where "n + 1 \<le> m" "m < n + 1 + rest" "current_snapshot e pe m = Inr s'"
      "same_publication w s' = Inr ()" "current_epoch e pe m = Inr ep" "ss_epoch s' = ep" "a = query m s'" by auto
    then show ?thesis by (intro exI [of _ m] exI [of _ s']) simp
  qed
qed simp

lemma page_ranks_users: "map fst (page_ranks pos rank rx rows) = map fst rows"
  by (induction pos rank rx rows rule: page_ranks.induct) (auto simp: Let_def split: if_splits)

lemma get_leaderboard_participants:
  "fst ` set (get_leaderboard db limit offset (Some us)) \<subseteq> set us"
proof -
  have "set (group_users (published_participants (Some us) (xps db))) \<subseteq> set us"
    by (auto simp: group_users_def published_participants_def row_simps)
  then have "fst ` set (take limit (drop offset (map (\<lambda>u. (u, user_total t u)) (sort_key k (group_users (published_participants (Some us) (xps db))))))) \<subseteq> set us"
    for t and k :: "string \<Rightarrow> int \<times> bool \<times> int \<times> string"
    by (auto dest!: in_set_takeD in_set_dropD)
  then show ?thesis
    by (simp add: get_leaderboard_def Let_def page_ranks_users flip: set_map)
qed

text \<open>
  A published board shows participants of one snapshot only, whose epoch was confirmed after the read, while the
  policy and the local switch allow publishing; and it belongs to the publication the caller pages in.
\<close>

lemma published_board_is_current:
  assumes "published_leaderboard e pe w limit offset db = Inr ((rows, k), ep)"
  shows "\<exists>n<2. \<exists>s. current_snapshot e pe n = Inr s \<and> current_epoch e pe n = Inr ep \<and> ss_epoch s = ep \<and>
    ep_active ep \<and> ep_enabled ep \<and> pe_enabled pe \<and> fst ` set rows \<subseteq> set (user_ids s) \<and>
    rows = get_leaderboard (db n) limit offset (Some (user_ids s)) \<and> (\<forall>p. wa_epoch w = Some p \<longrightarrow> ep_publication ep = p)"
proof -
  from publish_read_Inr [OF assms [unfolded published_leaderboard_def]] obtain n s where
    n: "n < 2" "current_snapshot e pe n = Inr s" "same_publication w s = Inr ()" "current_epoch e pe n = Inr ep" "ss_epoch s = ep"
    and rows: "rows = get_leaderboard (db n) limit offset (Some (user_ids s))" by (auto simp: numeral_2_eq_2)
  from n(2,5) have "ep_active ep \<and> ep_enabled ep \<and> pe_enabled pe"
    by (auto simp: current_snapshot_def require_enabled_def result_simps split: if_splits)
  moreover from n(3,5) have "\<forall>p. wa_epoch w = Some p \<longrightarrow> ep_publication ep = p"
    by (auto simp: same_publication_def result_simps)
  ultimately show ?thesis using n rows get_leaderboard_participants by blast
qed

text \<open>The owner of a score that is not published gets no rank.\<close>

lemma unpublished_has_no_rank:
  assumes "published_rank e pe w u db = Inr (v, ep)" "pv_rank v = Some r"
  shows "\<exists>n<2. \<exists>s. current_snapshot e pe n = Inr s \<and> u \<in> set (user_ids s)"
  using publish_read_Inr [OF assms(1) [unfolded published_rank_def]] assms(2)
  by (auto simp: rank_view_def Let_def numeral_2_eq_2 split: if_splits)

lemma gone_add_skill_progress: "gone db v \<Longrightarrow> add_skill_progress now u s xp db = Inr (b, db') \<Longrightarrow> gone db' v"
  by (auto simp: add_skill_progress_def result_simps intro: gone_add_xp split: if_splits)

interpretation progress_steps: guarded "\<lambda>(now, u, s, xp) db. committed db (add_skill_progress now u s xp db)"
  by unfold_locales (auto intro: gone_committed gone_add_skill_progress)

end
