(* ===== verification/Export.thy ===== *)
theory Export
  imports Sweep
begin

text \<open>
  The export of an account (\<^verbatim>\<open>services/user_export.py\<close>): its rows in every table, the frozen job of a submission
  reduced to a fixed list of keys, and the retained rights and grants it takes part in.
\<close>

text \<open>\<^verbatim>\<open>EXPORTED_JOB_KEYS\<close>: of the job only the revision, the public start and the band.\<close>

record exported_job =
  xj_revision :: string
  xj_start :: "public_start option"
  xj_band :: "string option"

record exported_submission =
  xs_id :: string
  xs_user :: string
  xs_unit :: string
  xs_goal :: string
  xs_open_goal :: "string option"
  xs_revision :: string
  xs_start :: string
  xs_input_hash :: string
  xs_input :: json
  xs_job :: exported_job
  xs_state :: submission_state
  xs_verdict :: "verdict option"
  xs_feedback :: "feedback option"
  xs_counts :: "bool option"
  xs_accepted :: int
  xs_booked :: "int option"
  xs_evaluating :: "int option"

definition exported :: "submission \<Rightarrow> exported_submission" where
  "exported s = \<lparr>xs_id = sb_id s, xs_user = sb_user s, xs_unit = sb_unit s, xs_goal = sb_goal s, xs_open_goal = sb_open_goal s,
     xs_revision = sb_revision s, xs_start = sb_start s, xs_input_hash = sb_input_hash s, xs_input = sb_input s,
     xs_job = \<lparr>xj_revision = jb_revision (sb_job s), xj_start = jb_start (sb_job s), xj_band = jb_band (sb_job s)\<rparr>,
     xs_state = sb_state s, xs_verdict = sb_verdict s, xs_feedback = sb_feedback s, xs_counts = sb_counts s,
     xs_accepted = sb_accepted s, xs_booked = sb_booked s, xs_evaluating = sb_evaluating s\<rparr>"

record user_data_export =
  ue_starts :: "lesson_start list"
  ue_start_receipts :: "start_receipt list"
  ue_purchases :: "course_purchase list"
  ue_rooms :: "room_state list"
  ue_room_requests :: "room_request list"
  ue_verdicts :: "llm_verdict list"
  ue_milestones :: "milestone_row list"
  ue_task_states :: "task_state list"
  ue_submissions :: "exported_submission list"
  ue_projects :: "course_project list"
  ue_project_requests :: "project_request list"
  ue_plans :: "learning_plan list"
  ue_users :: "purchase_user list"
  ue_rights :: "retained_right list"
  ue_grants :: "right_grant list"
  ue_xp_operations :: "xp_operation list"
  ue_accesses :: "string list"
  ue_watches :: "(string \<times> int) list"
  ue_lectures :: "(string \<times> string \<times> int) list"
  ue_bookmarks :: "(string \<times> string) list"
  ue_xps :: "(string \<times> int \<times> int option) list"

text \<open>The rights an account had, has or was granted; the grants it got and those of rights it left behind.\<close>

definition exported_rights :: "string \<Rightarrow> database \<Rightarrow> retained_right list" where
  "exported_rights u db = all_rows (\<lambda>r. rr_source r = u \<or> rr_subject r = Some u \<or>
     rr_id r \<in> set (map gr_right (all_rows (\<lambda>g. gr_subject g = u) (grants db)))) (rights db)"

definition exported_grants :: "string \<Rightarrow> database \<Rightarrow> right_grant list" where
  "exported_grants u db = all_rows (\<lambda>g. gr_subject g = u \<or>
     gr_right g \<in> set (map rr_id (all_rows (\<lambda>r. rr_source r = u) (rights db)))) (grants db)"

definition export_user_data :: "string \<Rightarrow> database \<Rightarrow> user_data_export" where
  "export_user_data u db = \<lparr>
     ue_starts = all_rows (\<lambda>r. ls_user r = u) (starts db), ue_start_receipts = all_rows (\<lambda>r. lr_user r = u) (start_receipts db),
     ue_purchases = all_rows (\<lambda>p. cp_user p = u) (purchases db), ue_rooms = all_rows (\<lambda>r. rs_user r = u) (rooms db),
     ue_room_requests = all_rows (\<lambda>r. rq_user r = u) (room_requests db), ue_verdicts = all_rows (\<lambda>r. lv_user r = u) (verdicts db),
     ue_milestones = all_rows (\<lambda>r. ms_user r = u) (milestones db), ue_task_states = all_rows (\<lambda>r. ts_user r = u) (task_states db),
     ue_submissions = map exported (all_rows (\<lambda>r. sb_user r = u) (submissions db)),
     ue_projects = all_rows (\<lambda>r. pr_user r = u) (projects db),
     ue_project_requests = all_rows (\<lambda>r. pq_user r = u) (project_requests db), ue_plans = all_rows (\<lambda>r. pl_user r = u) (plans db),
     ue_users = all_rows (\<lambda>g. pu_user g = u) (users db), ue_rights = exported_rights u db, ue_grants = exported_grants u db,
     ue_xp_operations = all_rows (\<lambda>r. xo_user r = u) (xp_operations db),
     ue_accesses = map ca_course (all_rows (\<lambda>r. ca_user r = u) (accesses db)),
     ue_watches = map (\<lambda>r. (lw_course r, lw_at r)) (all_rows (\<lambda>r. lw_user r = u) (watches db)),
     ue_lectures = map (\<lambda>r. (lp_course r, lp_lecture r, lp_completed r)) (all_rows (\<lambda>r. lp_user r = u) (lectures db)),
     ue_bookmarks = map (\<lambda>r. (bm_root r, bm_sub r)) (all_rows (\<lambda>r. bm_user r = u) (bookmarks db)),
     ue_xps = map (\<lambda>r. (xp_skill r, xp_xp r, xp_updated r)) (all_rows (\<lambda>r. xp_user r = u) (xps db))\<rparr>"

section \<open>Whose data an export shows\<close>

text \<open>Everything but the purchases, the guard, the rights and the grants.\<close>

definition learning_part :: "user_data_export \<Rightarrow> user_data_export" where
  "learning_part x = x\<lparr>ue_purchases := [], ue_users := [], ue_rights := [], ue_grants := []\<rparr>"

definition empty_export :: user_data_export where
  "empty_export = \<lparr>ue_starts = [], ue_start_receipts = [], ue_purchases = [], ue_rooms = [], ue_room_requests = [],
     ue_verdicts = [], ue_milestones = [], ue_task_states = [], ue_submissions = [], ue_projects = [], ue_project_requests = [],
     ue_plans = [], ue_users = [], ue_rights = [], ue_grants = [], ue_xp_operations = [], ue_accesses = [], ue_watches = [],
     ue_lectures = [], ue_bookmarks = [], ue_xps = []\<rparr>"

text \<open>The learning data shown depends on the rows of the account alone, whatever anybody else does.\<close>

lemma export_depends_on_own_rows: "same_data u db' db \<Longrightarrow> learning_part (export_user_data u db') = learning_part (export_user_data u db)"
  by (simp add: same_data_def learning_part_def export_user_data_def)

lemma export_clean: "learning_part (export_user_data u db) = empty_export \<longleftrightarrow> clean db u"
proof -
  have empty: "all_rows (\<lambda>r. own r = u) t = [] \<longleftrightarrow> no_row own u t" for own :: "'r \<Rightarrow> string" and t
    by (auto simp: no_row_def all_rows_def filter_empty_conv)
  show ?thesis
    by (simp add: learning_part_def export_user_data_def empty_export_def clean_def empty) blast
qed

text \<open>After an erasure nothing but the evidence is left to show, and nobody else's export loses anything.\<close>

lemma erased_export:
  assumes "delete_user_data e u db = Inr (x, db')"
  shows "learning_part (export_user_data u db') = empty_export"
    "v \<noteq> u \<Longrightarrow> learning_part (export_user_data v db') = learning_part (export_user_data v db)"
  using delete_user_data_gone [OF assms] delete_user_data_same [OF assms]
  by (simp_all add: export_clean gone_def export_depends_on_own_rows)

text \<open>
  The rights are the exception: the row of a right that another account continues names that account, and so does its
  grant.
\<close>

definition continued_db :: database where
  "continued_db = empty_db\<lparr>
     rights := [\<lparr>rr_id = ''r'', rr_source = ''old'', rr_course = ''python'', rr_observed = 0,
       rr_original = \<lparr>ro_source = ''old'', ro_course = ''python'', ro_access = True, ro_started = True, ro_purchases = []\<rparr>,
       rr_subject = Some ''new'', rr_generation = 1\<rparr>],
     grants := [\<lparr>gr_id = ''g'', gr_right = ''r'', gr_subject = ''new'',
       gr_request = \<lparr>gq_source = ''old'', gq_scope = \<lparr>rv_id = ''r'', rv_source = ''old'', rv_course = ''python'', rv_observed = 0,
         rv_original = \<lparr>ro_source = ''old'', ro_course = ''python'', ro_access = True, ro_started = True, ro_purchases = []\<rparr>\<rparr>,
         gq_grant = ''g'', gq_successor = ''new''\<rparr>,
       gr_state = ''granted'', gr_result = \<lparr>gs_course = ''python'',
         gs_scope = \<lparr>rv_id = ''r'', rv_source = ''old'', rv_course = ''python'', rv_observed = 0,
         rv_original = \<lparr>ro_source = ''old'', ro_course = ''python'', ro_access = True, ro_started = True, ro_purchases = []\<rparr>\<rparr>\<rparr>,
       gr_created = 0\<rparr>]\<rparr>"

lemma export_names_other_accounts:
  "map rr_subject (ue_rights (export_user_data ''old'' continued_db)) = [Some ''new''] \<and>
    map gr_subject (ue_grants (export_user_data ''old'' continued_db)) = [''new''] \<and>
    map rr_source (ue_rights (export_user_data ''new'' continued_db)) = [''old'']"
  by code_simp

end
