(* ===== verification/Areas.thy ===== *)
theory Areas
  imports Skilltree
begin

text \<open>
  Character areas (\<^verbatim>\<open>schemas/character_area.py\<close>, \<^verbatim>\<open>services/character_areas.py\<close>): groups of root skills that show one
  part of the skill tree each. The area file is a parameter (\<open>None\<close> when it cannot be read or is not valid).
\<close>

record area_def =
  ad_id :: string
  ad_title :: localized_text
  ad_roots :: "string list"
  ad_unassigned :: bool
  ad_rows :: "int option"
  ad_columns :: "int option"

definition valid_area :: "area_def \<Rightarrow> bool" where
  "valid_area a \<longleftrightarrow> slug (ad_id a) \<and> (case ad_rows a of None \<Rightarrow> True | Some n \<Rightarrow> 1 \<le> n) \<and>
     (case ad_columns a of None \<Rightarrow> True | Some n \<Rightarrow> 1 \<le> n)"

definition valid_areas :: "area_def list \<Rightarrow> bool" where
  "valid_areas as \<longleftrightarrow> list_all valid_area as \<and> distinct (map ad_id as) \<and> distinct (concat (map ad_roots as)) \<and>
     length (filter ad_unassigned as) \<le> 1"

record area_view =
  aw_id :: string
  aw_title :: localized_text
  aw_roots :: "string list"

definition areas_unavailable :: err where
  "areas_unavailable = Http 503 ''areas cannot be loaded''"

definition load_areas :: "area_def list option \<Rightarrow> area_def list result" where
  "load_areas file = (case file of Some as \<Rightarrow> if valid_areas as then Inr as else Inl areas_unavailable
     | None \<Rightarrow> Inl areas_unavailable)"

definition assigned :: "area_def list \<Rightarrow> string set" where
  "assigned as = set (concat (map ad_roots as))"

definition area_roots :: "area_def list \<Rightarrow> database \<Rightarrow> area_def \<Rightarrow> string list" where
  "area_roots as db a = sorted_set (ad_roots a @
     (if ad_unassigned a then filter (\<lambda>r. r \<notin> assigned as) (map rk_id (root_skills db)) else []))"

definition list_areas :: "area_def list option \<Rightarrow> database \<Rightarrow> area_view list result" where
  "list_areas file db = bind_r (load_areas file) (\<lambda>as.
     if \<not> assigned as \<subseteq> root_ids db then Inl areas_unavailable
     else Inr (map (\<lambda>a. \<lparr>aw_id = ad_id a, aw_title = ad_title a, aw_roots = area_roots as db a\<rparr>) as))"

section \<open>The tree of one area\<close>

text \<open>A root with the dependencies inside the area.\<close>

definition inside :: "string set \<Rightarrow> root_view \<Rightarrow> root_view" where
  "inside ids v = v\<lparr>rt_dependencies := filter (\<lambda>d. d \<in> ids) (rt_dependencies v), rt_dependents := filter (\<lambda>d. d \<in> ids) (rt_dependents v)\<rparr>"

definition shown_roots :: "area_view list \<Rightarrow> area_def \<Rightarrow> area_view \<Rightarrow> database \<Rightarrow> root_skill list" where
  "shown_roots views a v db = (if length views \<noteq> 1 \<or> \<not> ad_unassigned a
     then all_rows (\<lambda>r. rk_id r \<in> set (aw_roots v)) (root_skills db) else root_skills db)"

definition area_size :: "int option \<Rightarrow> (tree_settings \<Rightarrow> int) \<Rightarrow> database \<Rightarrow> int" where
  "area_size own field db = (case own of Some n \<Rightarrow> n | None \<Rightarrow> (case tree db of [] \<Rightarrow> 20 | t # _ \<Rightarrow> field t))"

definition get_skilltree :: "area_def list option \<Rightarrow> string \<Rightarrow> user option \<Rightarrow> database \<Rightarrow> (int \<times> int \<times> root_view list) result" where
  "get_skilltree file i us db = bind_r (list_areas file db) (\<lambda>views.
     case find (\<lambda>v. aw_id v = i) views of None \<Rightarrow> Inl (Http 404 ''no such area'')
     | Some v \<Rightarrow> bind_r (load_areas file) (\<lambda>as. case find (\<lambda>a. ad_id a = i) as of None \<Rightarrow> Inl (Crash ''StopIteration'')
       | Some a \<Rightarrow>
         let marked = (\<lambda>k. map_option (\<lambda>u. exists_row (\<lambda>b. bm_user b = us_id u \<and> bm_root b = k) (bookmarks db)) us)
         in Inr (area_size (ad_rows a) tr_rows db, area_size (ad_columns a) tr_columns db,
           map (\<lambda>r. (inside (set (aw_roots v)) (root_answer db r))\<lparr>rt_bookmarked := marked (rk_id r)\<rparr>) (shown_roots views a v db))))"

section \<open>Every root has its place\<close>

lemma concat_distinct_unique:
  "distinct (concat (map f as)) \<Longrightarrow> a \<in> set as \<Longrightarrow> b \<in> set as \<Longrightarrow> r \<in> set (f a) \<Longrightarrow> r \<in> set (f b) \<Longrightarrow> distinct as \<Longrightarrow> a = b"
  by (induction as) (auto simp: disjoint_iff)

lemma one_unassigned:
  "length (filter P as) \<le> 1 \<Longrightarrow> a \<in> set as \<Longrightarrow> b \<in> set as \<Longrightarrow> P a \<Longrightarrow> P b \<Longrightarrow> a = b"
  by (induction as) (auto simp: filter_empty_conv split: if_splits)

text \<open>
  A root is shown in at most one area, and in exactly one when some area takes the unassigned ones; the dependencies
  shown with a root lie in the same area.
\<close>

lemma area_of_root_unique:
  assumes "list_areas file db = Inr views" "v \<in> set views" "w \<in> set views" "r \<in> set (aw_roots v)" "r \<in> set (aw_roots w)"
  shows "v = w"
proof -
  from assms(1) obtain as where as: "valid_areas as" "views = map (\<lambda>a. \<lparr>aw_id = ad_id a, aw_title = ad_title a, aw_roots = area_roots as db a\<rparr>) as"
    by (auto simp: list_areas_def load_areas_def result_simps split: option.splits if_splits)
  from as(2) assms(2,3) obtain a b where a: "a \<in> set as" "b \<in> set as"
    "v = \<lparr>aw_id = ad_id a, aw_title = ad_title a, aw_roots = area_roots as db a\<rparr>"
    "w = \<lparr>aw_id = ad_id b, aw_title = ad_title b, aw_roots = area_roots as db b\<rparr>" by auto
  have d: "distinct as" using as(1) by (simp add: valid_areas_def distinct_map)
  have "r \<in> set (ad_roots a) \<and> r \<in> set (ad_roots b) \<or> r \<notin> assigned as \<and> ad_unassigned a \<and> ad_unassigned b"
    using assms(4,5) a by (auto simp: area_roots_def assigned_def split: if_splits)
  then have "a = b"
  proof
    assume "r \<in> set (ad_roots a) \<and> r \<in> set (ad_roots b)"
    with as(1) a(1,2) d show ?thesis by (auto simp: valid_areas_def intro: concat_distinct_unique)
  next
    assume "r \<notin> assigned as \<and> ad_unassigned a \<and> ad_unassigned b"
    with as(1) a(1,2) show ?thesis by (auto simp: valid_areas_def intro: one_unassigned)
  qed
  with a show ?thesis by simp
qed

lemma area_of_root_exists:
  assumes "list_areas file db = Inr views" "file = Some as" "a \<in> set as" "ad_unassigned a" "r \<in> root_ids db"
  shows "\<exists>v\<in>set views. r \<in> set (aw_roots v)"
proof -
  have views: "views = map (\<lambda>a. \<lparr>aw_id = ad_id a, aw_title = ad_title a, aw_roots = area_roots as db a\<rparr>) as"
    using assms(1,2) by (auto simp: list_areas_def load_areas_def result_simps split: if_splits)
  show ?thesis
  proof (cases "r \<in> assigned as")
    case True
    then obtain b where "b \<in> set as" "r \<in> set (ad_roots b)" by (auto simp: assigned_def)
    then show ?thesis by (auto simp: views area_roots_def)
  next
    case False
    with assms(3-5) show ?thesis by (auto simp: views area_roots_def root_ids_def)
  qed
qed

end
