(* ===== verification/Lessons.thy ===== *)
theory Lessons
  imports Courses
begin

text \<open>
  The lessons of a course as a learner sees them (\<^verbatim>\<open>services/curriculum.py\<close>: \<open>get_curriculum\<close>, \<open>get_lesson\<close>, behind the
  guards of \<^verbatim>\<open>endpoints/curriculum.py\<close>): the outline with the completion of every lesson, and one lesson with its
  activities, their content and the learner's progress.
\<close>

record lesson_summary =
  lz_id :: string
  lz_daily :: "daily_status option"
  lz_title :: localized_text
  lz_chapter :: "string option"
  lz_activities :: "string list"
  lz_completed :: bool

record curriculum_view =
  cw_course :: string
  cw_explicit :: bool
  cw_chapters :: "course_chapter list"
  cw_lessons :: "lesson_summary list"

datatype activity_content =
    Room_content json room "exercise option" "module_ref option" progress bool "completion_kind option"
  | Lecture_content lecture

record activity_view =
  av_id :: string
  av_kind :: activity_kind
  av_roles :: "activity_role list"
  av_title :: localized_text
  av_source :: activity_source
  av_content :: activity_content
  av_completed :: bool

record lesson_view =
  lw_initial :: "string option"
  lw_lesson_course :: string
  lw_daily :: "daily_status option"
  lw_explicit :: bool
  lw_id :: string
  lw_title :: localized_text
  lw_chapter :: "string option"
  lw_activities :: "activity_view list"
  lw_completed :: bool
  lw_practice :: "(string \<times> string \<times> string) option"

section \<open>The outline\<close>

definition lesson_line :: "env \<Rightarrow> database \<Rightarrow> user \<Rightarrow> course \<Rightarrow> states \<Rightarrow> string set \<Rightarrow> lesson_def \<Rightarrow> lesson_summary result" where
  "lesson_line e db us c st seen l = bind_r (optional_status e db us (Some c) (Some l)) (\<lambda>daily.
     Inr \<lparr>lz_id = ld_id l, lz_daily = daily, lz_title = ld_title l, lz_chapter = ld_chapter l,
       lz_activities = map ar_id (ld_activities l), lz_completed = lesson_completed l st seen\<rparr>)"

definition get_curriculum :: "env \<Rightarrow> database \<Rightarrow> course \<Rightarrow> user \<Rightarrow> curriculum_view result" where
  "get_curriculum e db c us =
     bind_r (if co_path c = None then Inr None else bind_r (catalogue_of e db False) (\<lambda>ct. Inr (Some ct))) (\<lambda>content.
     bind_r (definitions e db c content) (\<lambda>(cu, _).
     bind_r (room_states db (us_id us) (activities cu)) (\<lambda>st.
     bind_r (map_r (lesson_line e db us c st (lecture_get_completed db (us_id us) (co_id c))) (cu_lessons cu)) (\<lambda>ls.
     Inr \<lparr>cw_course = co_id c, cw_explicit = (co_curriculum c \<noteq> None), cw_chapters = cu_chapters cu, cw_lessons = ls\<rparr>))))"

section \<open>One lesson\<close>

definition roles_of :: "activity_ref \<Rightarrow> activity_role \<Rightarrow> activity_role list" where
  "roles_of a d = (case ar_roles a of Some rs \<Rightarrow> rs | None \<Rightarrow> [d])"

definition title_of :: "activity_ref \<Rightarrow> localized_text \<Rightarrow> localized_text" where
  "title_of a t = (case ar_title a of Some x \<Rightarrow> x | None \<Rightarrow> t)"

definition room_activity :: "env \<Rightarrow> database \<Rightarrow> user \<Rightarrow> course \<Rightarrow> catalogue option \<Rightarrow> states \<Rightarrow> string set \<Rightarrow> activity_ref \<Rightarrow>
    string \<Rightarrow> activity_view result" where
  "room_activity e db us c content st seen a i =
     (case Option.bind content (\<lambda>ct. unit_by (ct_units ct) i) of
        None \<Rightarrow> Inl (Crash ''KeyError'')
      | Some un \<Rightarrow>
        if un_completion un = None \<and> un_exercise un = None then Inl (Http 404 ''task unavailable'')
        else bind_r (challenge_status e us un) (\<lambda>_.
          bind_r (public_unit_of e db un us (Some (co_id c))) (\<lambda>pu.
          bind_r (room_kind un) (\<lambda>kind.
          bind_r (progress_of (st i)) (\<lambda>p.
          Inr \<lparr>av_id = ar_id a, av_kind = kind,
            av_roles = roles_of a (if un_exercise un \<noteq> None then Practice_role else Explanation),
            av_title = title_of a (un_title un), av_source = ar_source a,
            av_content = Room_content (pb_content pu) (un_room un) (pb_exercise pu) (pb_module pu) p
              (case un_completion un of None \<Rightarrow> False | Some k \<Rightarrow> allow_skip k) (pb_kind pu),
            av_completed = ref_completed a st seen\<rparr>)))))"

definition lecture_activity :: "course \<Rightarrow> string set \<Rightarrow> activity_ref \<Rightarrow> string \<Rightarrow> string \<Rightarrow> activity_view result" where
  "lecture_activity c seen a s l =
     (case find (\<lambda>p. se_id (fst p) = s \<and> le_id (snd p) = l)
         (concat (map (\<lambda>x. map (\<lambda>y. (x, y)) (se_lectures x)) (co_sections c))) of
        None \<Rightarrow> Inl (Crash ''KeyError'')
      | Some (_, le) \<Rightarrow> Inr \<lparr>av_id = ar_id a, av_kind = Video_kind, av_roles = roles_of a Explanation,
          av_title = title_of a (localized (le_title le)), av_source = ar_source a, av_content = Lecture_content le,
          av_completed = (l \<in> seen)\<rparr>)"

definition activity :: "env \<Rightarrow> database \<Rightarrow> user \<Rightarrow> course \<Rightarrow> catalogue option \<Rightarrow> states \<Rightarrow> string set \<Rightarrow> activity_ref \<Rightarrow>
    activity_view result" where
  "activity e db us c content st seen a = (case ar_source a of
     Room_source i \<Rightarrow> room_activity e db us c content st seen a i
   | Lecture_source _ s l \<Rightarrow> lecture_activity c seen a s l)"

definition legacy_practice :: "course \<Rightarrow> lesson_def \<Rightarrow> (string \<times> string \<times> string) option" where
  "legacy_practice c l = (case (co_curriculum c, ld_activities l) of
     (None, [a]) \<Rightarrow> (case ar_source a of Lecture_source _ s x \<Rightarrow> Some (co_id c, s, x) | Room_source _ \<Rightarrow> None)
   | _ \<Rightarrow> None)"

definition get_lesson :: "env \<Rightarrow> database \<Rightarrow> course \<Rightarrow> string \<Rightarrow> user \<Rightarrow> lesson_view result" where
  "get_lesson e db c i us = bind_r (definitions e db c None) (\<lambda>(_, content).
     bind_r (lesson_definition e db c i) (\<lambda>l.
     bind_r (room_states db (us_id us) (ld_activities l)) (\<lambda>st.
     let seen = lecture_get_completed db (us_id us) (co_id c) in
     bind_r (map_r (activity e db us c content st seen) (ld_activities l)) (\<lambda>as.
     bind_r (optional_status e db us (Some c) (Some l)) (\<lambda>daily.
     Inr \<lparr>lw_initial = (if i \<noteq> ld_id l then Some i else None), lw_lesson_course = co_id c, lw_daily = daily,
       lw_explicit = (co_curriculum c \<noteq> None), lw_id = ld_id l, lw_title = ld_title l, lw_chapter = ld_chapter l,
       lw_activities = as, lw_completed = list_all av_completed as, lw_practice = legacy_practice c l\<rparr>)))))"

definition curriculum_route :: "env \<Rightarrow> string \<Rightarrow> user \<Rightarrow> database \<Rightarrow> curriculum_view result" where
  "curriculum_route e c us db = bind_r (open_course e db us c Whole_course) (\<lambda>co. get_curriculum e db co us)"

definition lesson_route :: "env \<Rightarrow> string \<Rightarrow> string \<Rightarrow> user \<Rightarrow> database \<Rightarrow> lesson_view result" where
  "lesson_route e c i us db = bind_r (open_course e db us c (Lesson_scope i)) (\<lambda>co. get_lesson e db co i us)"

section \<open>A lesson and the outline agree\<close>

lemma activity_completed:
  assumes "activity e db us c content st seen a = Inr v"
  shows "av_completed v = ref_completed a st seen"
  using assms
  by (auto simp: activity_def room_activity_def lecture_activity_def ref_completed_def result_simps
      split: activity_source.splits option.splits if_splits)

text \<open>
  The lesson page calls a lesson completed exactly when the outline does, for every lesson and in every state, so the
  page never shows a lesson as finished that the course counts as open.
\<close>

lemma lesson_completion_agrees:
  assumes "get_lesson e db c i us = Inr v" "lesson_definition e db c i = Inr l"
  shows "\<exists>st. room_states db (us_id us) (ld_activities l) = Inr st \<and>
    lw_completed v = lesson_completed l st (lecture_get_completed db (us_id us) (co_id c))"
proof -
  from assms obtain content st as where st: "room_states db (us_id us) (ld_activities l) = Inr st"
    and as: "map_r (activity e db us c content st (lecture_get_completed db (us_id us) (co_id c))) (ld_activities l) = Inr as"
    and v: "lw_completed v = list_all av_completed as"
    by (auto simp: get_lesson_def result_simps Let_def)
  from as have "list_all2 (\<lambda>a x. av_completed x = ref_completed a st (lecture_get_completed db (us_id us) (co_id c))) (ld_activities l) as"
    unfolding map_r_Inr by (rule list_all2_mono) (rule activity_completed)
  then have "list_all av_completed as = list_all (\<lambda>a. ref_completed a st (lecture_get_completed db (us_id us) (co_id c))) (ld_activities l)"
    by (induction rule: list_all2_induct) auto
  with st v show ?thesis by (auto simp: lesson_completed_def)
qed

text \<open>A lesson on video lectures only is always presentable once its course is: no lookup of a lecture fails.\<close>

lemma lecture_activity_found:
  assumes "source_ok c content (Lecture_source k s l)"
  shows "\<exists>v. lecture_activity c seen a s l = Inr v"
proof -
  from assms obtain x y where "x \<in> set (co_sections c)" "y \<in> set (se_lectures x)" "se_id x = s" "le_id y = l"
    by (auto simp: source_ok_def course_lectures_def)
  then have "find (\<lambda>p. se_id (fst p) = s \<and> le_id (snd p) = l)
      (concat (map (\<lambda>x. map (\<lambda>y. (x, y)) (se_lectures x)) (co_sections c))) \<noteq> None"
    by (auto simp: find_None_iff)
  then show ?thesis by (auto simp: lecture_activity_def)
qed

end
