(* ===== verification/Packages.thy ===== *)
theory Packages
  imports Rooms Documents
begin

text \<open>
  The modules of custom rooms and their private packages: \<^verbatim>\<open>schemas/lesson_module.py\<close>,
  \<^verbatim>\<open>services/lesson_modules.py\<close>, \<^verbatim>\<open>services/private_lesson_modules.py\<close>,
  \<^verbatim>\<open>register_lesson_module.py\<close> and \<^verbatim>\<open>endpoints/lesson_assets.py\<close>. Text is the list of its UTF-8 bytes here.
  \<open>packages\<close> holds the settings and what is not part of the repository: the file below a directory opened without
  following links, JSON readers, SHA-256, the keyed token of a grant, the validity of a network location.
  \<open>None\<close> is any exception the callers turn into a refusal (\<^verbatim>\<open>OSError\<close>, \<^verbatim>\<open>ValueError\<close>,
  \<^verbatim>\<open>KeyError\<close>, \<^verbatim>\<open>TypeError\<close>). \<open>with_packages\<close> gives the rooms these checks in place of their parameters.
\<close>

type_synonym bytes = "nat list"

section \<open>Bytes of a URL\<close>

fun split_on :: "nat \<Rightarrow> bytes \<Rightarrow> bytes list" where
  "split_on c [] = [[]]"
| "split_on c (x # xs) = (if x = c then [] # split_on c xs
     else (case split_on c xs of [] \<Rightarrow> [[x]] | p # ps \<Rightarrow> (x # p) # ps))"

definition hex_value :: "nat \<Rightarrow> nat option" where
  "hex_value c = (if 48 \<le> c \<and> c \<le> 57 then Some (c - 48)
     else if 65 \<le> c \<and> c \<le> 70 then Some (c - 55) else if 97 \<le> c \<and> c \<le> 102 then Some (c - 87) else None)"

text \<open>\<^verbatim>\<open>unquote_to_bytes\<close>: a percent sign without two hexadecimal digits stays.\<close>

fun unquote :: "bytes \<Rightarrow> bytes" where
  "unquote [] = []"
| "unquote [a] = [a]"
| "unquote [a, b] = [a, b]"
| "unquote (a # x # y # r) = (if a = 37 \<and> hex_value x \<noteq> None \<and> hex_value y \<noteq> None
     then (16 * the (hex_value x) + the (hex_value y)) # unquote r else a # unquote (x # y # r))"

definition unreserved :: "nat \<Rightarrow> bool" where
  "unreserved c \<longleftrightarrow> 97 \<le> c \<and> c \<le> 122 \<or> 65 \<le> c \<and> c \<le> 90 \<or> 48 \<le> c \<and> c \<le> 57 \<or> c = 95 \<or> c = 46 \<or> c = 45 \<or> c = 126"

definition upper_hex :: "nat \<Rightarrow> nat" where
  "upper_hex d = (if d < 10 then 48 + d else 55 + d)"

definition quote :: "bytes \<Rightarrow> bytes \<Rightarrow> bytes" where
  "quote safe s = concat (map (\<lambda>c. if unreserved c \<or> c \<in> set safe then [c]
     else [37, upper_hex (c div 16), upper_hex (c mod 16)]) s)"

text \<open>The strict UTF-8 decoder: the bytes still to come and the bounds of the next one.\<close>

definition lead_byte :: "nat \<Rightarrow> (nat \<times> nat \<times> nat) option" where
  "lead_byte b = (if b < 128 then Some (0, 0, 0)
     else if 194 \<le> b \<and> b \<le> 223 then Some (1, 128, 191)
     else if b = 224 then Some (2, 160, 191)
     else if b = 237 then Some (2, 128, 159)
     else if 225 \<le> b \<and> b \<le> 239 then Some (2, 128, 191)
     else if b = 240 then Some (3, 144, 191)
     else if 241 \<le> b \<and> b \<le> 243 then Some (3, 128, 191)
     else if b = 244 then Some (3, 128, 143) else None)"

fun utf8_run :: "bytes \<Rightarrow> nat \<times> nat \<times> nat \<Rightarrow> bool" where
  "utf8_run [] (n, lo, hi) = (n = 0)"
| "utf8_run (b # bs) (n, lo, hi) =
     (if n = 0 then (case lead_byte b of None \<Rightarrow> False | Some s \<Rightarrow> utf8_run bs s)
      else lo \<le> b \<and> b \<le> hi \<and> utf8_run bs (n - 1, 128, 191))"

definition valid_utf8 :: "bytes \<Rightarrow> bool" where
  "valid_utf8 s = utf8_run s (0, 0, 0)"

text \<open>The parts of \<^verbatim>\<open>urlsplit\<close> after the network location.\<close>

definition after :: "nat \<Rightarrow> bytes \<Rightarrow> bytes" where
  "after c s = tl (dropWhile (\<lambda>x. x \<noteq> c) s)"

definition url_rest :: "bytes \<Rightarrow> bytes" where
  "url_rest url = (case dropWhile (\<lambda>c. c \<noteq> 58) url of
     _ # a # b # rest \<Rightarrow> if a = 47 \<and> b = 47 then dropWhile (\<lambda>c. c \<noteq> 47 \<and> c \<noteq> 63 \<and> c \<noteq> 35) rest else a # b # rest
   | r \<Rightarrow> tl r)"

definition url_path :: "bytes \<Rightarrow> bytes" where
  "url_path url = takeWhile (\<lambda>c. c \<noteq> 63 \<and> c \<noteq> 35) (url_rest url)"

definition url_query :: "bytes \<Rightarrow> bytes" where
  "url_query url = (case dropWhile (\<lambda>c. c \<noteq> 63 \<and> c \<noteq> 35) (url_rest url) of
     a # q \<Rightarrow> if a = 63 then takeWhile (\<lambda>c. c \<noteq> 35) q else [] | [] \<Rightarrow> [])"

definition url_fragment :: "bytes \<Rightarrow> bytes" where
  "url_fragment url = after 35 (url_rest url)"

definition url_port :: "bytes \<Rightarrow> bytes" where
  "url_port netloc = (if 91 \<in> set netloc then after 58 (after 93 (after 91 netloc)) else after 58 netloc)"

definition port_ok :: "bytes \<Rightarrow> bool" where
  "port_ok p \<longleftrightarrow> list_all (\<lambda>c. 48 \<le> c \<and> c \<le> 57) p \<and> foldl (\<lambda>n c. 10 * n + (c - 48)) 0 p \<le> 65535"

definition url_hostname :: "bytes \<Rightarrow> bytes" where
  "url_hostname netloc = map lower_ascii (if 91 \<in> set netloc then takeWhile (\<lambda>c. c \<noteq> 93) (after 91 netloc)
     else takeWhile (\<lambda>c. c \<noteq> 58) netloc)"

section \<open>Descriptors\<close>

record grant_binding =
  gb_user :: string
  gb_course :: string
  gb_unit :: string
  gb_module :: lesson_module

record packages =
  pk_origins :: "bytes list"
  pk_local :: bool
  pk_public :: bytes
  pk_root :: "(bool \<times> bytes list) option"
  pk_ttl :: int
  pk_open :: "bytes list \<Rightarrow> bytes option"
  pk_loads :: "bytes \<Rightarrow> json option"
  pk_model_json :: "bytes \<Rightarrow> json option"
  pk_float_text :: "nat \<Rightarrow> bytes"
  pk_sha256 :: "bytes \<Rightarrow> bytes"
  pk_netloc :: "bytes \<Rightarrow> bool"
  pk_token :: "grant_binding \<Rightarrow> bytes"

definition ends_with :: "string \<Rightarrow> bytes \<Rightarrow> bool" where
  "ends_with suffix s \<longleftrightarrow> length suffix \<le> length s \<and> drop (length s - length suffix) s = ustr suffix"

definition browser_module_url :: "packages \<Rightarrow> bytes \<Rightarrow> bool" where
  "browser_module_url pk url \<longleftrightarrow> pk_netloc pk (url_netloc url) \<and> port_ok (url_port (url_netloc url)) \<and>
     (url_scheme url = ustr ''https'' \<or> url_scheme url = ustr ''http'') \<and>
     url_hostname (url_netloc url) \<noteq> [] \<and> 64 \<notin> set (url_netloc url) \<and>
     url_query url = [] \<and> url_fragment url = [] \<and> 92 \<notin> set url \<and> list_all (\<lambda>c. 32 < c \<and> c \<noteq> 127) url \<and>
     list_all (\<lambda>p. p \<noteq> [46] \<and> p \<noteq> [46, 46]) (split_on 47 (unquote (url_path url))) \<and>
     (ends_with ''.mjs'' (url_path url) \<or> ends_with ''.js'' (url_path url))"

text \<open>The length of a text in characters: bytes that do not continue one.\<close>

definition char_count :: "bytes \<Rightarrow> nat" where
  "char_count s = length (filter (\<lambda>b. b < 128 \<or> 192 \<le> b) s)"

definition valid_module :: "packages \<Rightarrow> lesson_module \<Rightarrow> bool" where
  "valid_module pk m \<longleftrightarrow> slug (lm_id m) \<and> lm_api_version m = 1 \<and> char_count (ustr (lm_entry_url m)) \<le> 2048 \<and>
     browser_module_url pk (ustr (lm_entry_url m))"

text \<open>Numbers are read as texts (\<^verbatim>\<open>coerce_numbers_to_str\<close>).\<close>

definition text_field :: "packages \<Rightarrow> json \<Rightarrow> string option" where
  "text_field pk v = (case v of JStr s \<Rightarrow> Some (map char_of (utf8 s)) | JInt i \<Rightarrow> Some (map char_of (int_text i))
     | JFloat f \<Rightarrow> Some (map char_of (pk_float_text pk f)) | _ \<Rightarrow> None)"

definition parse_module :: "packages \<Rightarrow> json \<Rightarrow> lesson_module option" where
  "parse_module pk v = (if \<not> exact_keys [''id'', ''api_version'', ''entry_url''] v then None
     else case (Option.bind (jget ''id'' v) (text_field pk), jget ''api_version'' v, Option.bind (jget ''entry_url'' v) (text_field pk)) of
       (Some i, Some (JInt n), Some url) \<Rightarrow>
         (let m = \<lparr>lm_id = i, lm_api_version = n, lm_entry_url = url\<rparr> in if valid_module pk m then Some m else None)
     | _ \<Rightarrow> None)"

section \<open>References to private packages\<close>

definition hash64 :: "bytes \<Rightarrow> bool" where
  "hash64 s \<longleftrightarrow> length s = 64 \<and> list_all (\<lambda>c. 48 \<le> c \<and> c \<le> 57 \<or> 97 \<le> c \<and> c \<le> 102) s"

definition grant_text :: "bytes \<Rightarrow> bool" where
  "grant_text s \<longleftrightarrow> length s = 43 \<and>
     list_all (\<lambda>c. 97 \<le> c \<and> c \<le> 122 \<or> 65 \<le> c \<and> c \<le> 90 \<or> 48 \<le> c \<and> c \<le> 57 \<or> c = 95 \<or> c = 45) s"

definition part_ok :: "bytes \<Rightarrow> bool" where
  "part_ok p \<longleftrightarrow> p \<noteq> [] \<and> hd p \<noteq> 46 \<and> 92 \<notin> set p \<and> list_all (\<lambda>c. 32 \<le> c \<and> c \<noteq> 127) p"

definition asset_path :: "bytes \<Rightarrow> bool" where
  "asset_path s \<longleftrightarrow> s \<noteq> [] \<and> list_all part_ok (split_on 47 s)"

definition REFERENCE_PREFIX :: bytes where
  "REFERENCE_PREFIX = ustr ''/private-lesson-modules/''"

definition ACCEL_PREFIX :: bytes where
  "ACCEL_PREFIX = ustr ''/_private-lesson-modules/''"

definition REFERENCE_SAFE :: bytes where
  "REFERENCE_SAFE = map of_char [CHR ''/'', CHR ''-'', CHR ''.'', CHR ''_'', CHR ''~'', CHR ''!'', CHR 0x27, CHR ''('', CHR '')'', CHR ''*'']"

definition starts_with :: "bytes \<Rightarrow> bytes \<Rightarrow> bool" where
  "starts_with p s \<longleftrightarrow> take (length p) s = p"

text \<open>\<open>Some None\<close>: the URL is no private reference.\<close>

definition private_reference :: "packages \<Rightarrow> lesson_module \<Rightarrow> (bytes \<times> bytes) option option" where
  "private_reference pk m = (let url = ustr (lm_entry_url m) in
     if \<not> starts_with REFERENCE_PREFIX (url_path url) then Some None
     else let rest = drop (length REFERENCE_PREFIX) (url_path url);
              artifact = takeWhile (\<lambda>c. c \<noteq> 47) rest; encoded = after 47 rest; entry = unquote encoded in
       if 47 \<notin> set rest \<or> \<not> valid_utf8 entry \<or> \<not> hash64 artifact \<or> \<not> asset_path entry \<or>
          encoded \<noteq> quote REFERENCE_SAFE entry \<or>
          (url_scheme url, url_netloc url) \<noteq> (url_scheme (pk_public pk), url_netloc (pk_public pk))
       then None else Some (Some (artifact, entry)))"

definition checked_descriptor :: "packages \<Rightarrow> lesson_module \<Rightarrow> lesson_module option" where
  "checked_descriptor pk m = (let url = ustr (lm_entry_url m) in
     if url_scheme url @ ustr ''://'' @ url_netloc url \<notin> set (pk_origins pk) then None
     else if url_scheme url \<noteq> ustr ''https'' \<and>
       \<not> (pk_local pk \<and> url_hostname (url_netloc url) \<in> {ustr ''localhost'', ustr ''127.0.0.1'', ustr ''::1''})
     then None
     else if private_reference pk m = None then None else Some m)"

section \<open>Files of a package\<close>

definition package_file :: "packages \<Rightarrow> bytes \<Rightarrow> bytes \<Rightarrow> bytes option" where
  "package_file pk artifact name = (case pk_root pk of None \<Rightarrow> None
     | Some (absolute, parts) \<Rightarrow>
       if \<not> absolute \<or> \<not> hash64 artifact \<or> \<not> asset_path name then None
       else if list_ex (\<lambda>p. p = [] \<or> p = [46] \<or> p = [46, 46]) (parts @ [artifact] @ butlast (split_on 47 name)) then None
       else pk_open pk (parts @ [artifact] @ split_on 47 name))"

definition read_file :: "packages \<Rightarrow> bytes \<Rightarrow> bytes \<Rightarrow> nat \<Rightarrow> bytes option" where
  "read_file pk artifact name limit =
     Option.bind (package_file pk artifact name) (\<lambda>data. if limit < length data then None else Some data)"

definition MAX_MANIFEST_BYTES :: nat where
  "MAX_MANIFEST_BYTES = 1024 * 1024"

record asset =
  as_path :: bytes
  as_sha256 :: bytes
  as_size :: nat

definition text_of :: "json option \<Rightarrow> bytes option" where
  "text_of v = (case v of Some (JStr s) \<Rightarrow> Some (utf8 s) | _ \<Rightarrow> None)"

text \<open>Python's \<open>1 == True\<close> and \<open>1 == 1.0\<close>.\<close>

definition equals_one :: "json option \<Rightarrow> bool" where
  "equals_one v \<longleftrightarrow> v = Some (JInt 1) \<or> v = Some (JBool True) \<or> v = Some (JFloat 0x3FF0000000000000)"

definition parse_asset :: "json \<Rightarrow> asset option" where
  "parse_asset item = (case (text_of (obj_field ''path'' item), text_of (obj_field ''sha256'' item), obj_field ''bytes'' item) of
     (Some name, Some h, Some (JInt n)) \<Rightarrow>
       if \<not> asset_path name \<or> name = ustr ''module.json'' \<or> name = ustr ''manifest.json'' \<or> \<not> hash64 h \<or>
          n < 0 \<or> 512 * 1024 * 1024 < n then None
       else Some \<lparr>as_path = name, as_sha256 = h, as_size = nat n\<rparr>
   | _ \<Rightarrow> None)"

fun inventory :: "json list \<Rightarrow> asset list option" where
  "inventory [] = Some []"
| "inventory (v # vs) = Option.bind (parse_asset v) (\<lambda>a. Option.bind (inventory vs) (\<lambda>as. Some (a # as)))"

definition package_assets :: "packages \<Rightarrow> lesson_module \<Rightarrow> (bytes \<times> asset list) option" where
  "package_assets pk m = (case private_reference pk m of Some (Some (artifact, entry)) \<Rightarrow>
       Option.bind (Option.bind (read_file pk artifact (ustr ''manifest.json'') MAX_MANIFEST_BYTES) (pk_loads pk)) (\<lambda>manifest.
       Option.bind (Option.bind (Option.bind (read_file pk artifact (ustr ''module.json'') 8192) (pk_model_json pk)) (parse_module pk)) (\<lambda>published.
       Option.bind (obj_field ''definition'' manifest) (\<lambda>d.
         if published \<noteq> m \<or> text_of (obj_field ''artifact_sha256'' manifest) \<noteq> Some artifact \<or>
            text_of (obj_field ''id'' d) \<noteq> Some (ustr (lm_id m)) \<or>
            \<not> equals_one (obj_field ''api_version'' d) \<or>
            text_of (obj_field ''entry'' d) \<noteq> Some entry then None
         else case obj_field ''files'' manifest of Some (JArr items) \<Rightarrow>
             Option.bind (inventory items) (\<lambda>assets.
               if \<not> distinct (map as_path assets) \<or> entry \<notin> set (map as_path assets) then None
               else Some (artifact, assets))
           | _ \<Rightarrow> None)))
     | _ \<Rightarrow> None)"

definition checked_asset :: "packages \<Rightarrow> lesson_module \<Rightarrow> bytes \<Rightarrow> bytes option" where
  "checked_asset pk m name = Option.bind (package_assets pk m) (\<lambda>(artifact, assets).
     Option.bind (find (\<lambda>a. as_path a = name) assets) (\<lambda>a.
     Option.bind (package_file pk artifact name) (\<lambda>content.
       if length content \<noteq> as_size a \<or> pk_sha256 pk content \<noteq> as_sha256 a then None
       else Some (ACCEL_PREFIX @ artifact @ [47] @ quote [47] name))))"

section \<open>Grants\<close>

text \<open>
  What a room has to ask about a module, answered by the code above; a private module comes with the check of its
  entry file. A grant is kept in Redis under the hash of its token until it expires.
\<close>

definition module_ok :: "packages \<Rightarrow> lesson_module \<Rightarrow> bool" where
  "module_ok pk m \<longleftrightarrow> valid_module pk m \<and> checked_descriptor pk m \<noteq> None"

definition private_check :: "packages \<Rightarrow> lesson_module \<Rightarrow> bool option" where
  "private_check pk m = (case private_reference pk m of
     Some (Some (artifact, entry)) \<Rightarrow> Some (checked_asset pk m entry \<noteq> None) | _ \<Rightarrow> None)"

definition with_packages :: "packages \<Rightarrow> env \<Rightarrow> env" where
  "with_packages pk e = e\<lparr>en_module_ok := module_ok pk, en_private := private_check pk\<rparr>"

type_synonym grants = "bytes \<rightharpoonup> grant_binding \<times> int"

definition asset_grant_key :: "packages \<Rightarrow> bytes \<Rightarrow> bytes" where
  "asset_grant_key pk token = ustr ''private_lesson_grant:'' @ pk_sha256 pk token"

definition without_slashes :: "bytes \<Rightarrow> bytes" where
  "without_slashes s = rev (dropWhile (\<lambda>c. c = 47) (rev s))"

definition granted_url :: "packages \<Rightarrow> bytes \<Rightarrow> lesson_module \<Rightarrow> bytes" where
  "granted_url pk token m = (case private_reference pk m of
     Some (Some (artifact, entry)) \<Rightarrow>
       without_slashes (pk_public pk) @ ustr ''/lesson-assets/'' @ token @ [47] @ artifact @ [47] @ quote [47] entry
   | _ \<Rightarrow> ustr (lm_entry_url m))"

text \<open>\<^verbatim>\<open>resolve_module\<close> with the grant it stores: the URL for the browser and the new grants.\<close>

definition hand_out :: "packages \<Rightarrow> env \<Rightarrow> string \<Rightarrow> string \<Rightarrow> module_ref \<Rightarrow> grants \<Rightarrow> bytes \<times> grants" where
  "hand_out pk e u i r gs = (case r of Public_module m \<Rightarrow> (ustr (lm_entry_url m), gs)
     | Engine_package d \<Rightarrow> (ustr (pd_entry_url d), gs)
     | Private_module m c \<Rightarrow>
         let b = \<lparr>gb_user = u, gb_course = c, gb_unit = i, gb_module = m\<rparr>; token = pk_token pk b in
         (granted_url pk token m, gs(asset_grant_key pk token \<mapsto> (b, en_now e + pk_ttl pk))))"

definition open_module :: "packages \<Rightarrow> env \<Rightarrow> database \<Rightarrow> string \<Rightarrow> user \<Rightarrow> string \<Rightarrow> string option \<Rightarrow> grants \<Rightarrow> (bytes \<times> grants) result" where
  "open_module pk e db mid us i ci gs = bind_r (resolve_module (with_packages pk e) db mid us i ci) (\<lambda>r.
     Inr (hand_out pk e (us_id us) i r gs))"

definition asset_redirect :: "packages \<Rightarrow> int \<Rightarrow> database \<Rightarrow> grants \<Rightarrow> bytes \<Rightarrow> bytes \<Rightarrow> bytes \<Rightarrow> bytes option" where
  "asset_redirect pk now db gs token artifact name =
     (if \<not> grant_text token \<or> \<not> hash64 artifact \<or> \<not> asset_path name then None
      else case gs (asset_grant_key pk token) of None \<Rightarrow> None
      | Some (b, until) \<Rightarrow> if until \<le> now \<or> \<not> valid_module pk (gb_module b) then None
        else case private_reference pk (gb_module b) of
          Some (Some (a, entry)) \<Rightarrow> if a \<noteq> artifact then None
            else (case row_by lm_id (lm_id (gb_module b)) (modules db) of None \<Rightarrow> None
              | Some row \<Rightarrow> if lm_api_version row \<noteq> lm_api_version (gb_module b) \<or> erased db (gb_user b) then None
                  else checked_asset pk (gb_module b) name)
        | _ \<Rightarrow> None)"

text \<open>\<^verbatim>\<open>get_asset\<close>: the file for Nginx and its media type, or 404; the table of media types is a parameter.\<close>

definition file_suffix :: "bytes \<Rightarrow> bytes" where
  "file_suffix s = (let name = last (split_on 47 s); ext = rev (takeWhile (\<lambda>c. c \<noteq> 46) (rev name)) in
     if 46 \<notin> set name \<or> ext = [] then [] else map lower_ascii (46 # ext))"

definition get_asset :: "packages \<Rightarrow> (bytes \<Rightarrow> bytes option) \<Rightarrow> int \<Rightarrow> database \<Rightarrow> grants \<Rightarrow> bytes \<Rightarrow> bytes \<Rightarrow> bytes \<Rightarrow> (bytes \<times> bytes) result" where
  "get_asset pk media now db gs token artifact name = (case asset_redirect pk now db gs token artifact name of
     None \<Rightarrow> Inl (Http 404 ''asset'')
   | Some target \<Rightarrow> Inr (target, if file_suffix name = ustr ''.js'' \<or> file_suffix name = ustr ''.mjs''
       then ustr ''application/javascript''
       else case media name of Some t \<Rightarrow> t | None \<Rightarrow> ustr ''application/octet-stream''))"

section \<open>Registration\<close>

text \<open>\<^verbatim>\<open>register_module\<close> and the command line around it, with \<open>--check\<close> and \<open>--replace\<close>.\<close>

definition write_module :: "lesson_module \<Rightarrow> bool \<Rightarrow> database \<Rightarrow> database option" where
  "write_module m replace db = (case row_by lm_id (lm_id m) (modules db) of None \<Rightarrow> Some (db\<lparr>modules := modules db @ [m]\<rparr>)
     | Some row \<Rightarrow> if (lm_api_version row, lm_entry_url row) = (lm_api_version m, lm_entry_url m) then Some db
         else if \<not> replace then None
         else Some (db\<lparr>modules := modify_by lm_id (lm_id m)
           (\<lambda>r. r\<lparr>lm_api_version := lm_api_version m, lm_entry_url := lm_entry_url m\<rparr>) (modules db)\<rparr>))"

definition register_module :: "packages \<Rightarrow> lesson_module \<Rightarrow> bool \<Rightarrow> database \<Rightarrow> database option" where
  "register_module pk m replace db = Option.bind (checked_descriptor pk m) (\<lambda>m.
     if private_check pk m = Some False \<or> private_reference pk m = None then None else write_module m replace db)"

definition register_command :: "packages \<Rightarrow> bytes \<Rightarrow> bool \<Rightarrow> bool \<Rightarrow> database \<Rightarrow> database option" where
  "register_command pk manifest replace check_only db =
     Option.bind (Option.bind (Option.bind (pk_model_json pk manifest) (parse_module pk)) (checked_descriptor pk)) (\<lambda>m.
     if private_check pk m = Some False then None
     else if check_only then Some db else register_module pk m replace db)"

section \<open>Quoting\<close>

lemma hex_value_upper_hex [simp]: "d < 16 \<Longrightarrow> hex_value (upper_hex d) = Some d"
  by (auto simp: hex_value_def upper_hex_def)

lemma unquote_escape: "c < 256 \<Longrightarrow> unquote (37 # upper_hex (c div 16) # upper_hex (c mod 16) # r) = c # unquote r"
  by (simp add: div_less_iff_less_mult)

lemma unquote_plain: "c \<noteq> 37 \<Longrightarrow> unquote (c # r) = c # unquote r"
  by (cases r rule: list.exhaust; cases "tl r") auto

lemma unquote_quote:
  assumes "37 \<notin> set safe"
  shows "list_all (\<lambda>c. c < 256) s \<Longrightarrow> unquote (quote safe s) = s"
proof (induction s)
  case (Cons c s)
  then have "unquote (quote safe s) = s" "c < 256" by simp_all
  moreover have "c \<noteq> 37" if "unreserved c \<or> c \<in> set safe" using that assms by (auto simp: unreserved_def)
  ultimately show ?case by (auto simp: quote_def unquote_plain unquote_escape)
qed (simp add: quote_def)

lemma quote_no_escape: "unreserved c \<or> c \<in> set safe \<Longrightarrow> quote safe (c # s) = c # quote safe s"
  by (simp add: quote_def)

text \<open>A private reference determines the path of its URL: one package entry has one canonical path.\<close>

lemma private_reference_path:
  assumes "private_reference pk m = Some (Some (artifact, entry))"
  shows "url_path (ustr (lm_entry_url m)) = REFERENCE_PREFIX @ artifact @ [47] @ quote REFERENCE_SAFE entry"
    "hash64 artifact" "asset_path entry" "valid_utf8 entry"
proof -
  define rest where "rest = drop (length REFERENCE_PREFIX) (url_path (ustr (lm_entry_url m)))"
  from assms have p: "take (length REFERENCE_PREFIX) (url_path (ustr (lm_entry_url m))) = REFERENCE_PREFIX"
    and in_rest: "47 \<in> set rest" and a: "artifact = takeWhile (\<lambda>c. c \<noteq> 47) rest"
    and q: "after 47 rest = quote REFERENCE_SAFE entry"
    by (auto simp: private_reference_def starts_with_def Let_def rest_def split: if_splits)
  from assms show "hash64 artifact" "asset_path entry" "valid_utf8 entry"
    by (auto simp: private_reference_def Let_def split: if_splits)
  from in_rest have "dropWhile (\<lambda>c. c \<noteq> 47) rest \<noteq> []" by (auto simp: dropWhile_eq_Nil_conv)
  then have "dropWhile (\<lambda>c. c \<noteq> 47) rest = 47 # after 47 rest"
    using hd_dropWhile [of "\<lambda>c. c \<noteq> 47" rest] by (cases "dropWhile (\<lambda>c. c \<noteq> 47) rest") (auto simp: after_def)
  then have "rest = artifact @ 47 # quote REFERENCE_SAFE entry"
    using takeWhile_dropWhile_id [of "\<lambda>c. c \<noteq> 47" rest] a q by simp
  with p show "url_path (ustr (lm_entry_url m)) = REFERENCE_PREFIX @ artifact @ [47] @ quote REFERENCE_SAFE entry"
    using append_take_drop_id [of "length REFERENCE_PREFIX" "url_path (ustr (lm_entry_url m))"]
    by (simp add: rest_def)
qed

section \<open>What is served\<close>

text \<open>The path of a file of the package: the directory of the packages, the hash, the parts of the name.\<close>

lemma package_file_path:
  assumes "package_file pk artifact name = Some content"
  shows "\<exists>parts. pk_root pk = Some (True, parts) \<and> pk_open pk (parts @ [artifact] @ split_on 47 name) = Some content \<and>
    hash64 artifact \<and> list_all part_ok (split_on 47 name)"
  using assms by (auto simp: package_file_def asset_path_def split: option.splits if_splits)

lemma part_ok_no_dots: "part_ok p \<Longrightarrow> p \<noteq> [] \<and> p \<noteq> [46] \<and> p \<noteq> [46, 46]"
  by (auto simp: part_ok_def)

lemma checked_asset_reviewed:
  assumes "checked_asset pk m name = Some target"
  shows "\<exists>artifact assets a parts content. package_assets pk m = Some (artifact, assets) \<and> a \<in> set assets \<and> as_path a = name \<and>
    pk_root pk = Some (True, parts) \<and> pk_open pk (parts @ [artifact] @ split_on 47 name) = Some content \<and>
    list_all part_ok (split_on 47 name) \<and> length content = as_size a \<and> pk_sha256 pk content = as_sha256 a \<and>
    target = ACCEL_PREFIX @ artifact @ [47] @ quote [47] name"
proof -
  from assms obtain artifact assets a content where
    1: "package_assets pk m = Some (artifact, assets)" "find (\<lambda>a. as_path a = name) assets = Some a"
    and f: "package_file pk artifact name = Some content"
    and 2: "length content = as_size a" "pk_sha256 pk content = as_sha256 a"
      "target = ACCEL_PREFIX @ artifact @ [47] @ quote [47] name"
    by (auto simp: checked_asset_def bind_eq_Some_conv split: if_splits)
  from 1(2) have "a \<in> set assets" "as_path a = name" by (auto simp: find_Some_iff)
  with 1 2 package_file_path [OF f] show ?thesis by blast
qed

lemma package_assets_reference:
  assumes "package_assets pk m = Some (artifact, assets)"
  shows "\<exists>entry. private_reference pk m = Some (Some (artifact, entry)) \<and> entry \<in> set (map as_path assets) \<and>
    distinct (map as_path assets)"
  using assms by (auto simp: package_assets_def bind_eq_Some_conv split: option.splits if_splits json.splits)

text \<open>The grant was given out by a request: its learner had access to the path of the unit through the course.\<close>

record module_request =
  mr_packages :: packages
  mr_env :: env
  mr_db :: database
  mr_module :: string
  mr_user :: user
  mr_unit :: string
  mr_course :: "string option"

definition grant_step :: "module_request \<Rightarrow> grants \<Rightarrow> grants" where
  "grant_step q gs = (case open_module (mr_packages q) (mr_env q) (mr_db q) (mr_module q) (mr_user q) (mr_unit q) (mr_course q) gs of
     Inl er \<Rightarrow> gs | Inr (url, gs') \<Rightarrow> gs')"

definition grants_out :: "module_request \<Rightarrow> bytes \<Rightarrow> grant_binding \<Rightarrow> int \<Rightarrow> bool" where
  "grants_out q key b until \<longleftrightarrow> (let pk = mr_packages q; e = with_packages pk (mr_env q) in
     resolve_module e (mr_db q) (mr_module q) (mr_user q) (mr_unit q) (mr_course q) =
       Inr (Private_module (gb_module b) (gb_course b)) \<and>
     gb_user b = us_id (mr_user q) \<and> gb_unit b = mr_unit q \<and> key = asset_grant_key pk (pk_token pk b) \<and>
     until = en_now (mr_env q) + pk_ttl pk)"

lemma grant_step_out:
  assumes "grant_step q gs key = Some (b, t)"
  shows "gs key = Some (b, t) \<or> grants_out q key b t"
proof (cases "resolve_module (with_packages (mr_packages q) (mr_env q)) (mr_db q) (mr_module q) (mr_user q) (mr_unit q) (mr_course q)")
  case (Inl er)
  with assms show ?thesis by (simp add: grant_step_def open_module_def result_simps)
next
  case (Inr r)
  with assms show ?thesis
    by (cases r) (auto simp: grant_step_def open_module_def result_simps hand_out_def grants_out_def Let_def split: if_splits)
qed

lemma grants_given_out:
  "fold grant_step qs gs key = Some (b, t) \<Longrightarrow> gs key = Some (b, t) \<or> (\<exists>q\<in>set qs. grants_out q key b t)"
proof (induction qs arbitrary: gs)
  case (Cons q qs)
  then show ?case using grant_step_out [of q gs key b t] by auto
qed simp

lemma first_admitting_access:
  "first_admitting e db us p cs = Inr (Some c) \<Longrightarrow> c \<in> co_id ` set cs \<and> require_path_access e db us p (Some c) None = Inr ()"
  by (induction cs) (auto split: sum.splits if_splits)

lemma issue_module_grant_access:
  assumes "issue_module_grant e db m checks us i ci = Inr (Private_module m' c)"
  shows "\<exists>content un. m' = m \<and> checks \<and> catalogue_of e db False = Inr content \<and> un \<in> set (ct_units content) \<and> un_id un = i \<and>
    un_module un = Some (lm_id m) \<and> require_path_access e db us (un_path un) (Some c) None = Inr ()"
proof -
  from assms obtain content where 1: "catalogue_of e db False = Inr content"
    and r: "(case find (\<lambda>u. un_id u = i \<and> \<not> un_retired u) (ct_units content) of
          None \<Rightarrow> Inl (Http 404 ''lesson not available'')
        | Some un \<Rightarrow>
          if un_module un \<noteq> Some (lm_id m) then Inl (Http 404 ''lesson not available'')
          else bind_r (first_admitting e db us (un_path un) (linked_courses e (un_path un) ci)) (\<lambda>adm.
            case adm of None \<Rightarrow> Inl (Http 403 ''access to the course needed'')
            | Some c \<Rightarrow> if checks then Inr (Private_module m c) else Inl not_loaded)) = Inr (Private_module m' c)"
    by (auto simp: issue_module_grant_def result_simps split: if_splits)
  from r obtain un where 2: "find (\<lambda>u. un_id u = i \<and> \<not> un_retired u) (ct_units content) = Some un"
    by (cases "find (\<lambda>u. un_id u = i \<and> \<not> un_retired u) (ct_units content)") auto
  with r have 3: "un_module un = Some (lm_id m)" "first_admitting e db us (un_path un) (linked_courses e (un_path un) ci) = Inr (Some c)"
    "checks" "m' = m"
    by (auto simp: result_simps split: if_splits option.splits)
  from 2 have "un \<in> set (ct_units content)" "un_id un = i" by (auto simp: find_Some_iff)
  with 1 3 first_admitting_access [OF 3(2)] show ?thesis by blast
qed

lemma grants_out_access:
  assumes "grants_out q key b t"
  shows "\<exists>content un. catalogue_of (with_packages (mr_packages q) (mr_env q)) (mr_db q) False = Inr content \<and>
    un \<in> set (ct_units content) \<and> un_id un = gb_unit b \<and> un_module un = Some (lm_id (gb_module b)) \<and>
    require_path_access (with_packages (mr_packages q) (mr_env q)) (mr_db q) (mr_user q) (un_path un) (Some (gb_course b)) None = Inr ()"
proof -
  from assms obtain m checks where
    "issue_module_grant (with_packages (mr_packages q) (mr_env q)) (mr_db q) m checks (mr_user q) (mr_unit q) (mr_course q) =
      Inr (Private_module (gb_module b) (gb_course b))" and u: "gb_unit b = mr_unit q"
    by (auto simp: grants_out_def Let_def resolve_module_def split: option.splits if_splits)
  from issue_module_grant_access [OF this(1)] u show ?thesis by auto
qed

text \<open>
  C17: over every history of module requests, a file of a private package is served only for an unexpired grant whose
  learner had access to the unit's course, is not erased now and whose module is still registered; the file lies in the
  directory of exactly the granted package, its path has no dot or empty part, and its bytes have the size and the hash of
  the reviewed inventory.
\<close>

theorem asset_needs_current_grant:
  assumes "asset_redirect pk now db (fold grant_step qs Map.empty) token artifact name = Some target"
  shows "\<exists>q b t (un::unit_def) assets a parts content entry. q \<in> set qs \<and> grants_out q (asset_grant_key pk token) b t \<and> now < t \<and>
    un_id un = gb_unit b \<and> un_module un = Some (lm_id (gb_module b)) \<and>
    require_path_access (with_packages (mr_packages q) (mr_env q)) (mr_db q) (mr_user q) (un_path un) (Some (gb_course b)) None = Inr () \<and>
    \<not> erased db (gb_user b) \<and> row_by lm_id (lm_id (gb_module b)) (modules db) \<noteq> None \<and>
    private_reference pk (gb_module b) = Some (Some (artifact, entry)) \<and>
    package_assets pk (gb_module b) = Some (artifact, assets) \<and> a \<in> set assets \<and> as_path a = name \<and>
    pk_root pk = Some (True, parts) \<and> pk_open pk (parts @ [artifact] @ split_on 47 name) = Some content \<and>
    list_all part_ok (split_on 47 name) \<and> length content = as_size a \<and> pk_sha256 pk content = as_sha256 a \<and>
    target = ACCEL_PREFIX @ artifact @ [47] @ quote [47] name"
proof -
  from assms obtain b t entry where
    g: "fold grant_step qs Map.empty (asset_grant_key pk token) = Some (b, t)"
    and now: "now < t" "\<not> erased db (gb_user b)" "row_by lm_id (lm_id (gb_module b)) (modules db) \<noteq> None"
    and r: "private_reference pk (gb_module b) = Some (Some (artifact, entry))"
    and c: "checked_asset pk (gb_module b) name = Some target"
    by (auto simp: asset_redirect_def split: if_splits option.splits)
  from checked_asset_reviewed [OF c] obtain art assets a parts content where
    2: "package_assets pk (gb_module b) = Some (art, assets)" "a \<in> set assets" "as_path a = name"
      "pk_root pk = Some (True, parts)" "pk_open pk (parts @ [art] @ split_on 47 name) = Some content"
      "list_all part_ok (split_on 47 name)" "length content = as_size a" "pk_sha256 pk content = as_sha256 a"
      "target = ACCEL_PREFIX @ art @ [47] @ quote [47] name" by blast
  from package_assets_reference [OF 2(1)] r have "art = artifact" by auto
  moreover from grants_given_out [OF g] obtain q where q: "q \<in> set qs" "grants_out q (asset_grant_key pk token) b t" by auto
  moreover from grants_out_access [OF q(2)] obtain un :: unit_def where "un_id un = gb_unit b" "un_module un = Some (lm_id (gb_module b))"
    "require_path_access (with_packages (mr_packages q) (mr_env q)) (mr_db q) (mr_user q) (un_path un) (Some (gb_course b)) None = Inr ()"
    by blast
  ultimately show ?thesis using now r 2 by blast
qed

definition example_hash :: string where
  "example_hash = replicate 64 (CHR ''a'')"

definition example_module :: lesson_module where
  "example_module = \<lparr>lm_id = ''m'', lm_api_version = 1,
     lm_entry_url = ''https://s/private-lesson-modules/'' @ example_hash @ ''/a%20b.js''\<rparr>"

definition example_packages :: packages where
  "example_packages = \<lparr>pk_origins = [ustr ''https://s''], pk_local = False, pk_public = ustr ''https://s'',
     pk_root = Some (True, [ustr ''srv'']), pk_ttl = 3600,
     pk_open = (\<lambda>parts. if parts = [ustr ''srv'', ustr example_hash, ustr ''manifest.json''] then Some [1]
       else if parts = [ustr ''srv'', ustr example_hash, ustr ''module.json''] then Some [2]
       else if parts = [ustr ''srv'', ustr example_hash, ustr ''a b.js''] then Some [7, 7, 7] else None),
     pk_loads = (\<lambda>b. Some (jobj [(''artifact_sha256'', js example_hash),
       (''definition'', jobj [(''id'', js ''m''), (''api_version'', JInt 1), (''entry'', js ''a b.js'')]),
       (''files'', JArr [jobj [(''path'', js ''a b.js''), (''sha256'', js example_hash), (''bytes'', JInt 3)]])])),
     pk_model_json = (\<lambda>b. Some (jobj [(''id'', js ''m''), (''api_version'', JInt 1), (''entry_url'', js (lm_entry_url example_module))])),
     pk_float_text = (\<lambda>f. []), pk_sha256 = (\<lambda>b. ustr example_hash), pk_netloc = (\<lambda>n. True),
     pk_token = (\<lambda>b. replicate 43 65)\<rparr>"

definition module_unit :: unit_def where
  "module_unit = (example_unit ''lab'' ''one'')\<lparr>un_room := Custom_room, un_module := Some ''m'', un_completion := Some (Introduction (JObj []) False)\<rparr>"

definition module_env :: env where
  "module_env = example_env\<lparr>en_rooms_enabled := True, en_content := Some \<lparr>ct_paths = [], ct_units = [module_unit]\<rparr>,
     en_courses := [example_course\<lparr>co_price := 0, co_path := Some (un_path module_unit)\<rparr>]\<rparr>"

definition module_db :: database where
  "module_db = empty_db\<lparr>modules := [example_module]\<rparr>"

definition example_request :: module_request where
  "example_request = \<lparr>mr_packages = example_packages, mr_env = module_env, mr_db = module_db, mr_module = ''m'',
     mr_user = example_user, mr_unit = ''lab'', mr_course = None\<rparr>"

text \<open>The example package as it is registered and opened.\<close>

lemma example_registered:
  "register_command example_packages [] False False empty_db = Some module_db"
  by code_simp

lemma example_target:
  "asset_redirect example_packages 2000 module_db (fold grant_step [example_request] Map.empty) (replicate 43 65) (ustr example_hash) (ustr ''a b.js'') =
    Some (ACCEL_PREFIX @ ustr example_hash @ ustr ''/a%20b.js'')"
  by code_simp

lemma asset_needs_current_grant_witness:
  "asset_redirect example_packages 2000 module_db (fold grant_step [example_request] Map.empty) (replicate 43 65) (ustr example_hash) (ustr ''a b.js'') =
    Some (ACCEL_PREFIX @ ustr example_hash @ ustr ''/a%20b.js'') \<and>
  (\<exists>q b t. q \<in> set [example_request] \<and> grants_out q (asset_grant_key example_packages (replicate 43 65)) b t \<and> 2000 < t \<and>
    \<not> erased module_db (gb_user b))"
  using asset_needs_current_grant [OF example_target] example_target by blast

lemma expired_grant_serves_nothing:
  "asset_redirect example_packages 4600 module_db (fold grant_step [example_request] Map.empty) (replicate 43 65) (ustr example_hash) (ustr ''a b.js'') = None"
  by code_simp

text \<open>Every registered module has passed the checks of its descriptor, and its id is unique.\<close>

lemma parse_module_valid: "parse_module pk v = Some m \<Longrightarrow> valid_module pk m"
  by (auto simp: parse_module_def Let_def split: if_splits option.splits json.splits)

lemma checked_descriptor_same: "checked_descriptor pk m = Some m' \<Longrightarrow> m' = m"
  by (auto simp: checked_descriptor_def Let_def split: if_splits)

lemma register_keeps_checked:
  assumes "register_command pk manifest replace check_only db = Some db'"
    and "\<forall>m\<in>set (modules db). module_ok pk m" "unique_by lm_id (modules db)"
  shows "(\<forall>m\<in>set (modules db'). module_ok pk m) \<and> unique_by lm_id (modules db')"
proof (cases check_only)
  case True
  with assms show ?thesis by (auto simp: register_command_def bind_eq_Some_conv split: if_splits)
next
  case False
  with assms(1) obtain v m0 m where m: "parse_module pk v = Some m0" "checked_descriptor pk m0 = Some m"
    and r: "register_module pk m replace db = Some db'"
    by (auto simp: register_command_def bind_eq_Some_conv split: if_splits)
  have ok: "module_ok pk m"
    using m checked_descriptor_same [OF m(2)] parse_module_valid [OF m(1)] by (simp add: module_ok_def)
  from r have r: "write_module m replace db = Some db'"
    by (auto simp: register_module_def bind_eq_Some_conv dest!: checked_descriptor_same split: if_splits)
  show ?thesis
  proof (cases "row_by lm_id (lm_id m) (modules db)")
    case None
    with r assms(2,3) ok show ?thesis by (auto simp: write_module_def row_by_None unique_by_def)
  next
    case (Some row)
    have eq: "x\<lparr>lm_api_version := lm_api_version m, lm_entry_url := lm_entry_url m\<rparr> = m" if "lm_id x = lm_id m" for x :: lesson_module
      using that by simp
    from r Some have "modules db' = modules db \<or> modules db' = modify_by lm_id (lm_id m)
        (\<lambda>r. r\<lparr>lm_api_version := lm_api_version m, lm_entry_url := lm_entry_url m\<rparr>) (modules db)"
      by (auto simp: write_module_def split: if_splits)
    then show ?thesis
    proof
      assume "modules db' = modules db"
      with assms(2,3) show ?thesis by simp
    next
      assume u: "modules db' = modify_by lm_id (lm_id m)
        (\<lambda>r. r\<lparr>lm_api_version := lm_api_version m, lm_entry_url := lm_entry_url m\<rparr>) (modules db)"
      then have "unique_by lm_id (modules db')" using assms(3) by (simp add: modify_by_def unique_by_update)
      moreover have "module_ok pk x" if "x \<in> set (modules db')" for x
        using that u assms(2) ok by (auto simp: modify_by_def set_update_rows eq split: if_splits)
      ultimately show ?thesis by blast
    qed
  qed
qed

end
