(* ===== verification/Service.thy ===== *)
theory Service
  imports Daily Outages Titles_Example Skilltree Recommend Projects Queue Courses Videos Sweep Published Export Packages
begin

text \<open>
  The components together: one committed request after another, of any learner, administrator, service or background
  task, over one database. The requests are those of the components' own histories; each keeps an erased account gone
  (the interpretations of \<open>guarded\<close>), so every sequence of them does. Not among them are the requests that write
  without asking the account guard (\<open>unguarded_requests\<close>): they are admitted by the auth service alone.
\<close>

section \<open>Administration and background tasks\<close>

lemma gone_remove_sub_skills: "gone db v \<Longrightarrow> gone (remove_sub_skills is db) v"
  unfolding remove_sub_skills_def using gone_row(16) [of db v]
  by (simp add: gone_def clean_def erased_def) (auto intro: no_row_intros)

lemma gone_tree_settings: "gone db v \<Longrightarrow> gone (snd (tree_settings_get db)) v"
  by (auto simp: tree_settings_get_def Let_def split: list.splits)

interpretation tree_steps: guarded tree_step
proof
  fix db u q
  assume g: "gone db u"
  show "gone (tree_step q db) u"
  proof (cases q)
    case (Create_root d)
    with g show ?thesis by (auto simp: create_root_skill_def Let_def)
  next
    case (Update_root i d)
    with g show ?thesis
      by (auto simp: update_root_skill_def result_simps Let_def intro!: gone_committed split: option.splits)
  next
    case (Delete_root i)
    with g show ?thesis
      by (auto simp: delete_root_skill_def intro!: gone_committed gone_remove_sub_skills split: option.splits)
  next
    case (Create_sub e r d)
    with g show ?thesis
      by (auto simp: create_sub_skill_def Let_def intro!: gone_committed split: option.splits if_splits)
  next
    case (Update_sub e r i d)
    with g show ?thesis
      by (auto simp: update_sub_skill_def result_simps Let_def intro!: gone_committed split: option.splits)
  next
    case (Delete_sub r i)
    with g show ?thesis
      by (auto simp: delete_sub_skill_def intro!: gone_committed gone_remove_sub_skills split: option.splits)
  next
    case (Resize d)
    with g gone_tree_settings [OF g] show ?thesis
      by (auto simp: update_root_tree_settings_def Let_def case_prod_beta intro!: gone_committed)
  qed
qed

lemma gone_sweep_user: "gone db v \<Longrightarrow> gone (snd (sweep_user e a u db)) v"
  by (auto simp: sweep_user_def intro: delete_user_data_keeps_gone split: option.splits sum.splits)

lemma gone_configure: "gone db v \<Longrightarrow> gone (committed db (configure e d db)) v"
  by (auto simp: configure_def result_simps Let_def intro!: gone_committed split: if_splits)

lemma backfill_lessons_user: "backfill_lessons e u db ps = Inr rs \<Longrightarrow> r \<in> set rs \<Longrightarrow> ls_user r = u"
  by (induction e u db ps arbitrary: rs rule: backfill_lessons.induct) (auto simp: result_simps split: if_splits)

lemma gone_backfill_user: "gone db v \<Longrightarrow> gone (committed db (backfill_user e u db)) v"
proof (rule gone_committed)
  fix n db'
  assume g: "gone db v" and run: "backfill_user e u db = Inr (n, db')"
  obtain lock db1 where lu: "lock_user db u = (lock, db1)" by (cases "lock_user db u")
  have del: "pu_deleted lock = erased db u" using lu lock_user_deleted [of db u] by simp
  have g1: "gone db1 v" using g gone_lock_user [of db u v] lu by simp
  show "gone db' v"
  proof (cases "en_policy_enabled e \<and> \<not> erased db u")
    case False
    then have "db' = db \<or> db' = db1" using run by (auto simp: backfill_user_def lu del split: if_splits)
    with g g1 show ?thesis by auto
  next
    case True
    let ?ps = "map_r (\<lambda>c. bind_r (definitions e db1 c None) (\<lambda>(cu, _). Inr (map (\<lambda>l. (c, l)) (cu_lessons cu)))) (en_courses e)"
    from True have eq: "backfill_user e u db = bind_r ?ps (\<lambda>ps. bind_r (backfill_lessons e u db1 (concat ps))
        (\<lambda>rs. Inr (length rs, db1\<lparr>starts := starts db1 @ rs\<rparr>)))"
      by (simp add: backfill_user_def lu del)
    from run obtain ps rs where rs: "backfill_lessons e u db1 (concat ps) = Inr rs" "db' = db1\<lparr>starts := starts db1 @ rs\<rparr>"
      unfolding eq by (auto simp only: bind_r_Inr_iff sum.inject prod.inject)
    have "u \<noteq> v" using True g by (auto simp: gone_def)
    then have "no_row ls_user v (starts db1 @ rs)"
      using gone_row(4) [OF g1] backfill_lessons_user [OF rs(1)] by (auto simp: no_row_def)
    then show ?thesis unfolding rs(2) by (rule gone_write(4) [OF g1])
  qed
qed

lemma gone_register: "register_command pk m replace check_only db = Some db' \<Longrightarrow> gone db v \<Longrightarrow> gone db' v"
  by (auto simp: register_command_def register_module_def write_module_def bind_eq_Some_conv split: if_splits option.splits)

section \<open>Histories of the service\<close>

datatype service_request =
    Start_lesson env user course lesson_def "string option"
  | Send_milestone int int "string \<times> int \<times> string \<Rightarrow> reply" "string \<times> string"
  | Engine_task evaluation_event
  | Award_xp string xp_request award_env
  | Account account_request
  | Purchase purchase_request
  | Room_change room_call
  | Plan_save plan_request
  | Project_save project_call
  | Lecture_completed lecture_call
  | Limited_learning learning_call
  | Progress_booked int string string int
  | Tree_change tree_request
  | Publish_revision env revision_request
  | Configure_limit env limit_configuration
  | Backfill env string
  | Register_module packages bytes bool bool
  | Sweep_account env "nat option" string

fun service_step :: "service_request \<Rightarrow> database \<Rightarrow> database" where
  "service_step (Start_lesson e us c l req) db = committed db (start e us c l req False db)"
| "service_step (Send_milestone now t service key) db = deliver now t service key db"
| "service_step (Engine_task q) db = evaluation_step q db"
| "service_step (Award_xp op q env) db = committed db (apply_xp op q env db)"
| "service_step (Account q) db = account_step q db"
| "service_step (Purchase q) db = purchase_step q db"
| "service_step (Room_change q) db = room_step q db"
| "service_step (Plan_save q) db = plan_step q db"
| "service_step (Project_save q) db = project_step q db"
| "service_step (Lecture_completed q) db = (if en_policy_enabled (fst q) then complete_step q db else db)"
| "service_step (Limited_learning q) db = learning_step q db"
| "service_step (Progress_booked now u s xp) db = committed db (add_skill_progress now u s xp db)"
| "service_step (Tree_change q) db = tree_step q db"
| "service_step (Publish_revision e body) db = committed db (publish e body db)"
| "service_step (Configure_limit e d) db = committed db (configure e d db)"
| "service_step (Backfill e u) db = committed db (backfill_user e u db)"
| "service_step (Register_module pk m replace check_only) db =
     (case register_command pk m replace check_only db of None \<Rightarrow> db | Some db' \<Rightarrow> db')"
| "service_step (Sweep_account e a u) db = snd (sweep_user e a u db)"

lemma publish_document_revisions: "publish_document e d un mid doc db = Inr (p, db') \<Longrightarrow> \<exists>t. db' = db\<lparr>revisions := t\<rparr>"
  by (auto simp: publish_document_def result_simps Let_def split: if_splits option.splits)

lemma gone_publish: "gone db v \<Longrightarrow> gone (committed db (publish e d db)) v"
  by (rule gone_committed) (auto elim!: publish_Inr dest: publish_document_revisions)

lemma gone_complete_step: "gone db v \<Longrightarrow> en_policy_enabled (fst q) \<Longrightarrow> gone (complete_step q db) v"
  using lecture_steps.keeps_gone [of db v q] by simp

interpretation service: guarded service_step
proof
  fix db u q
  assume "gone db u"
  then show "gone (service_step q db) u"
    by (cases q)
      (auto simp: gone_complete_step gone_sweep_user gone_backfill_user gone_configure gone_publish
        intro: engine_steps.keeps_gone account_steps.keeps_gone purchase_steps.keeps_gone room_steps.keeps_gone
          plan_steps.keeps_gone project_steps.keeps_gone learning_steps.keeps_gone tree_steps.keeps_gone gone_register
          gone_committed gone_deliver gone_start gone_apply_xp gone_add_skill_progress
        split: option.splits)
qed


text \<open>An account with a bookmark is erased; a late award and a late start of a lecture change nothing.\<close>

definition learning_db :: database where
  "learning_db = empty_db\<lparr>sub_skills := [\<lparr>sk_id = ''loops'', sk_parent = ''py'', sk_name = ''Loops'', sk_row = 0, sk_column = 0, sk_icon = None\<rparr>],
     bookmarks := [\<lparr>bm_user = ''u'', bm_root = ''py'', bm_sub = ''loops''\<rparr>]\<rparr>"

definition late_requests :: "service_request list" where
  "late_requests = [Progress_booked 5 ''u'' ''loops'' 10, Progress_booked 6 ''v'' ''loops'' 10, Sweep_account example_env (Some 200) ''u'']"


section \<open>Requests without the guard\<close>

text \<open>
  Bookmarks, the viewing history, the administrator's XP and, without the daily limit, completions do not read the guard.
  A request that the auth service admitted before the erasure and that runs after it writes again.
\<close>

lemma unguarded_requests:
  assumes "erased db u" "exists_row (\<lambda>k. sk_id k = s \<and> sk_parent k = r) (sub_skills db)" "clean db u"
  shows "\<exists>db'. create_sub_skill_bookmark u r s db = Inr (True, db') \<and> \<not> clean db' u"
  using assms by (auto simp: create_sub_skill_bookmark_def bookmark_create_def clean_def no_row_def row_simps)

lemma unguarded_update_xp:
  "case delete_user_data example_env ''u'' learning_db of Inl er \<Rightarrow> False
    | Inr (x, db1) \<Rightarrow> map xp_user (xps (committed db1 (update_xp (Some 7) ''py'' ''loops'' ''u'' db1))) = [''u'']"
  by code_simp

end
