(* ===== verification/Authority.thy ===== *)
theory Authority
  imports Packages Courses
begin

text \<open>
  Who a request acts for: \<^verbatim>\<open>auth.py\<close>, \<^verbatim>\<open>services/auth.py\<close>, \<^verbatim>\<open>schemas/user.py\<close>,
  \<^verbatim>\<open>utils/jwt.py\<close> and two rules of \<^verbatim>\<open>settings.py\<close>. The JWT library, Redis and the auth service are the fields
  of \<open>auth_env\<close>: decoding with a secret, an audience and required claims, the revocation entries, the answer to
  \<^verbatim>\<open>POST /ordinary-authority\<close>. The account and its flags are those of the current answer, never those of the token.
\<close>

section \<open>Tokens\<close>

record auth_env =
  au_header :: string
  au_jwt :: "string \<Rightarrow> string list option \<Rightarrow> string list \<Rightarrow> string \<Rightarrow> json option"
  au_secret :: string
  au_service_secret :: "string \<Rightarrow> string"
  au_revoked :: "string \<Rightarrow> bool option"
  au_ordinary :: "string \<Rightarrow> reply"
  au_float_text :: "nat \<Rightarrow> string"
  au_lower :: "ustr \<Rightarrow> ustr"

definition get_token :: "auth_env \<Rightarrow> string" where
  "get_token a = (if take 7 (au_header a) = ''Bearer '' then drop 7 (au_header a) else au_header a)"

definition decode_jwt :: "auth_env \<Rightarrow> string list \<Rightarrow> string list option \<Rightarrow> string option \<Rightarrow> string \<Rightarrow> json option" where
  "decode_jwt a required audience key token =
     au_jwt a (case key of Some s \<Rightarrow> if s = [] then au_secret a else s | None \<Rightarrow> au_secret a) audience (''exp'' # required) token"

text \<open>An empty secret of an audience falls back to the ordinary one.\<close>

definition internal_jwt_secret :: "auth_env \<Rightarrow> string \<Rightarrow> string" where
  "internal_jwt_secret a audience =
     (let s = (if audience \<in> {''auth'', ''shop'', ''skills'', ''challenges''} then au_service_secret a audience else [])
      in if s = [] then au_secret a else s)"

definition INTERNAL_AUDIENCE :: string where
  "INTERNAL_AUDIENCE = ''skills''"

definition internal_auth :: "auth_env \<Rightarrow> unit result" where
  "internal_auth a = guard_r (decode_jwt a [] (Some [INTERNAL_AUDIENCE]) (Some (internal_jwt_secret a INTERNAL_AUDIENCE)) (get_token a) \<noteq> None)
     (Http 401 ''invalid token'')"

section \<open>Fields of a user\<close>

text \<open>Pydantic's lax reading of a boolean and of a text.\<close>

definition lax_bool :: "auth_env \<Rightarrow> json option \<Rightarrow> bool option" where
  "lax_bool a v = (case v of Some (JBool b) \<Rightarrow> Some b
     | Some (JInt i) \<Rightarrow> if i = 1 then Some True else if i = 0 then Some False else None
     | Some (JFloat f) \<Rightarrow> if f = 0x3FF0000000000000 then Some True else if f = 0 \<or> f = 0x8000000000000000 then Some False else None
     | Some (JStr s) \<Rightarrow>
         if au_lower a s \<in> set (map ustr [''1'', ''true'', ''t'', ''y'', ''yes'', ''on'']) then Some True
         else if au_lower a s \<in> set (map ustr [''0'', ''false'', ''f'', ''n'', ''no'', ''off'']) then Some False else None
     | _ \<Rightarrow> None)"

definition lax_text :: "auth_env \<Rightarrow> json option \<Rightarrow> string option" where
  "lax_text a v = (case v of Some (JInt i) \<Rightarrow> Some (map char_of (int_text i)) | Some (JFloat f) \<Rightarrow> Some (au_float_text a f)
     | _ \<Rightarrow> json_string v)"

record access_token =
  at_uid :: string
  at_rt :: string

text \<open>\<^verbatim>\<open>UserAccessToken.model_validate\<close>: the flags of a token have to be readable, and are not used.\<close>

definition parse_access_token :: "auth_env \<Rightarrow> json \<Rightarrow> access_token option" where
  "parse_access_token a v = (case (lax_text a (jget ''uid'' v), lax_text a (jget ''rt'' v), jget ''data'' v) of
     (Some u, Some r, Some d) \<Rightarrow>
       if lax_bool a (jget ''email_verified'' d) = None \<or> lax_bool a (jget ''admin'' d) = None then None
       else Some \<lparr>at_uid = u, at_rt = r\<rparr>
   | _ \<Rightarrow> None)"

definition parse_user :: "auth_env \<Rightarrow> json \<Rightarrow> user option" where
  "parse_user a v = (case (lax_text a (jget ''id'' v), lax_bool a (jget ''email_verified'' v), lax_bool a (jget ''admin'' v)) of
     (Some i, Some ok, Some adm) \<Rightarrow> Some \<lparr>us_id = i, us_admin = adm, us_verified = ok\<rparr> | _ \<Rightarrow> None)"

section \<open>The current account\<close>

definition account_unavailable :: err where
  "account_unavailable = Http 503 ''account authority temporarily unavailable''"

definition ordinary_authority :: "auth_env \<Rightarrow> string \<Rightarrow> string \<Rightarrow> user option result" where
  "ordinary_authority a token expected = (case au_ordinary a token of
     No_reply \<Rightarrow> Inl account_unavailable
   | Reply st body \<Rightarrow>
       if st \<in> {401, 403} then Inr None
       else if st \<noteq> 200 then Inl account_unavailable
       else (case Option.bind body (parse_user a) of None \<Rightarrow> Inl account_unavailable
         | Some u \<Rightarrow> if us_id u \<noteq> expected then Inl (Http 503 ''invalid authority response'') else Inr (Some u)))"

definition public_auth :: "auth_env \<Rightarrow> user option result" where
  "public_auth a = (case Option.bind (decode_jwt a [] None None (get_token a)) (parse_access_token a) of None \<Rightarrow> Inr None
     | Some t \<Rightarrow> (case au_revoked a (at_rt t) of None \<Rightarrow> Inl (Http 503 ''current ordinary authority could not be checked'')
         | Some True \<Rightarrow> Inr None
         | Some False \<Rightarrow> ordinary_authority a (get_token a) (at_uid t)))"

definition is_admin :: "auth_env \<Rightarrow> bool result" where
  "is_admin a = bind_r (public_auth a) (\<lambda>u. Inr (case u of None \<Rightarrow> False | Some us \<Rightarrow> us_admin us))"

definition signed_in :: "auth_env \<Rightarrow> user result" where
  "signed_in a = bind_r (public_auth a) user_auth"

definition verified :: "auth_env \<Rightarrow> user result" where
  "verified a = bind_r (signed_in a) (\<lambda>us. bind_r (require_verified_email us) (\<lambda>_. Inr us))"

definition administrator :: "auth_env \<Rightarrow> user result" where
  "administrator a = bind_r (signed_in a) admin_auth"

definition exists_user :: "env \<Rightarrow> string \<Rightarrow> bool" where
  "exists_user e u \<longleftrightarrow> en_user_status e u = 200"

section \<open>The origin of the lesson engine's packages\<close>

definition port_number :: "bytes \<Rightarrow> nat option" where
  "port_number netloc = (if url_port netloc = [] then None else Some (foldl (\<lambda>n c. 10 * n + (c - 48)) 0 (url_port netloc)))"

definition session_free_origin :: "(bytes \<Rightarrow> bool) \<Rightarrow> (bytes \<Rightarrow> bytes) \<Rightarrow> bytes \<Rightarrow> bool" where
  "session_free_origin netloc_ok lower value = (let s = url_scheme value; n = url_netloc value; host = url_hostname n in
     netloc_ok n \<and> list_all (\<lambda>c. c \<notin> {9, 10, 13}) value \<and> value = s @ ustr ''://'' @ n \<and>
     (s = ustr ''https'' \<or> s = ustr ''http'' \<and> host = ustr ''127.0.0.2'') \<and> 64 \<notin> set n \<and> host \<noteq> [] \<and> n = lower n \<and>
     port_ok (url_port n) \<and> port_number n \<noteq> Some (if s = ustr ''https'' then 443 else 80) \<and>
     host \<noteq> ustr ''bootstrap.academy'' \<and> host \<noteq> ustr ''test.bootstrap.academy'')"

section \<open>Only the current account\<close>

text \<open>
  C21: a request acts for an account only with a token that verifies under the service's key, whose session is not
  revoked, and whose account the auth service confirms at that moment; whether it is verified or administrates is what
  the auth service says then.
\<close>

theorem caller_is_current:
  assumes "signed_in a = Inr us"
  shows "\<exists>v t body. au_jwt a (au_secret a) None [''exp''] (get_token a) = Some v \<and> parse_access_token a v = Some t \<and>
    at_uid t = us_id us \<and> au_revoked a (at_rt t) = Some False \<and> au_ordinary a (get_token a) = Reply 200 (Some body) \<and>
    lax_text a (jget ''id'' body) = Some (us_id us) \<and> lax_bool a (jget ''email_verified'' body) = Some (us_verified us) \<and>
    lax_bool a (jget ''admin'' body) = Some (us_admin us)"
proof -
  from assms have p: "public_auth a = Inr (Some us)"
    by (auto simp: signed_in_def user_auth_def result_simps split: option.splits)
  then obtain v t where t: "decode_jwt a [] None None (get_token a) = Some v" "parse_access_token a v = Some t"
      "au_revoked a (at_rt t) = Some False" and o: "ordinary_authority a (get_token a) (at_uid t) = Inr (Some us)"
    by (auto simp: public_auth_def bind_eq_Some_conv split: option.splits bool.splits)
  from o obtain body where b: "au_ordinary a (get_token a) = Reply 200 (Some body)" "parse_user a body = Some us" "us_id us = at_uid t"
    by (auto simp: ordinary_authority_def bind_eq_Some_conv split: reply.splits option.splits if_splits)
  from b(2) have "lax_text a (jget ''id'' body) = Some (us_id us)" "lax_bool a (jget ''email_verified'' body) = Some (us_verified us)"
      "lax_bool a (jget ''admin'' body) = Some (us_admin us)"
    by (auto simp: parse_user_def split: option.splits)
  with t b show ?thesis by (auto simp: decode_jwt_def)
qed

text \<open>A token that calls itself an administrator's, of an account that lost the role.\<close>

definition stale_admin :: auth_env where
  "stale_admin = \<lparr>au_header = ''Bearer t'',
     au_jwt = (\<lambda>key audience required token. if token = ''t'' \<and> key = ''k'' then Some (jobj [(''uid'', js ''u''), (''rt'', js ''r''),
       (''data'', jobj [(''email_verified'', JBool True), (''admin'', JBool True)])]) else None),
     au_secret = ''k'', au_service_secret = (\<lambda>s. ''i''), au_revoked = (\<lambda>r. Some False),
     au_ordinary = (\<lambda>t. Reply 200 (Some (jobj [(''id'', js ''u''), (''email_verified'', JBool True), (''admin'', JBool False)]))),
     au_float_text = (\<lambda>f. []), au_lower = (\<lambda>s. s)\<rparr>"

lemma caller_is_current_witness:
  "signed_in stale_admin = Inr \<lparr>us_id = ''u'', us_admin = False, us_verified = True\<rparr> \<and>
    (\<exists>t::access_token. au_revoked stale_admin (at_rt t) = Some False \<and> at_uid t = ''u'')"
proof -
  have "signed_in stale_admin = Inr \<lparr>us_id = ''u'', us_admin = False, us_verified = True\<rparr>" by code_simp
  with caller_is_current [OF this] show ?thesis by auto
qed

lemma administrator_current: "administrator a = Inr us \<longleftrightarrow> signed_in a = Inr us \<and> us_admin us"
  by (auto simp: administrator_def admin_auth_def result_simps)

lemma verified_current: "verified a = Inr us \<longleftrightarrow> signed_in a = Inr us \<and> (us_verified us \<or> us_admin us)"
  by (auto simp: verified_def require_verified_email_def result_simps)

lemma stale_admin_refused: "administrator stale_admin = Inl (Http 403 ''permission denied'')"
  by code_simp

end
