(* ===== verification/Batch.thy ===== *)
theory Batch
  imports Daily
begin

text \<open>
  The batch of read-only admissions that Challenges asks for (\<^verbatim>\<open>ChallengeReadContext\<close> and the read path of
  \<^verbatim>\<open>challenge_admission\<close> in \<^verbatim>\<open>services/daily_limit.py\<close>, \<^verbatim>\<open>check_batch\<close> in
  \<^verbatim>\<open>endpoints/internal/daily_limit.py\<close>). One request shares the catalogue, the units of a task, the lessons of
  a unit and of a lecture, and the decisions. The theory shows that nobody can tell: each entry of the batch answers what
  the detailed check of that challenge alone answers.
\<close>

section \<open>The shared context\<close>

type_synonym decision_key = "string \<times> bool \<times> (string \<times> string) list \<times> string list"

record read_context =
  rx_content :: "catalogue option"
  rx_tasks :: "(string \<Rightarrow> unit_def list option) option"
  rx_units :: "string \<Rightarrow> (course \<times> lesson_def) list option"
  rx_lectures :: "string \<times> string \<Rightarrow> lesson_def option"
  rx_decisions :: "decision_key \<Rightarrow> admission result option"

definition empty_context :: read_context where
  "empty_context = \<lparr>rx_content = None, rx_tasks = None, rx_units = (\<lambda>_. None), rx_lectures = (\<lambda>_. None),
     rx_decisions = (\<lambda>_. None)\<rparr>"

text \<open>A read may fail and fills the context; what it filled in before failing stays.\<close>

type_synonym 'a reading = "read_context \<Rightarrow> 'a result \<times> read_context"

definition bind_c :: "'a reading \<Rightarrow> ('a \<Rightarrow> 'b reading) \<Rightarrow> 'b reading" where
  "bind_c m f x = (case m x of (Inl er, x') \<Rightarrow> (Inl er, x') | (Inr a, x') \<Rightarrow> f a x')"

fun map_c :: "('a \<Rightarrow> 'b reading) \<Rightarrow> 'a list \<Rightarrow> 'b list reading" where
  "map_c f [] = Pair (Inr [])"
| "map_c f (y # ys) = bind_c (f y) (\<lambda>b. bind_c (map_c f ys) (\<lambda>bs. Pair (Inr (b # bs))))"

definition read_catalogue :: "env \<Rightarrow> database \<Rightarrow> catalogue reading" where
  "read_catalogue e db x = (case rx_content x of Some c \<Rightarrow> (Inr c, x)
     | None \<Rightarrow> (case catalogue_of e db False of Inl er \<Rightarrow> (Inl er, x) | Inr c \<Rightarrow> (Inr c, x\<lparr>rx_content := Some c\<rparr>)))"

text \<open>\<^verbatim>\<open>unit_lessons\<close> over a catalogue at hand.\<close>

definition lessons_of_unit :: "env \<Rightarrow> database \<Rightarrow> catalogue \<Rightarrow> string \<Rightarrow> (course \<times> lesson_def) list result" where
  "lessons_of_unit e db ct i = (case unit_by (ct_units ct) i of None \<Rightarrow> Inr []
     | Some un \<Rightarrow> bind_r (map_r (\<lambda>c. bind_r (definitions e db c (Some ct)) (\<lambda>(cu, _).
           Inr (map (\<lambda>l. (c, l)) (filter (has_unit i) (cu_lessons cu)))))
         (filter (\<lambda>c. co_path c = Some (un_path un)) (sort_key co_id (en_courses e)))) (\<lambda>ps. Inr (concat ps)))"

definition read_unit :: "env \<Rightarrow> database \<Rightarrow> string \<Rightarrow> (course \<times> lesson_def) list reading" where
  "read_unit e db i x = (case rx_units x i of Some ps \<Rightarrow> (Inr ps, x)
     | None \<Rightarrow> bind_c (read_catalogue e db) (\<lambda>ct y. case lessons_of_unit e db ct i of Inl er \<Rightarrow> (Inl er, y)
         | Inr ps \<Rightarrow> (Inr ps, y\<lparr>rx_units := (rx_units y)(i \<mapsto> ps)\<rparr>)) x)"

definition group_unit :: "unit_def \<Rightarrow> (string \<Rightarrow> unit_def list option) \<Rightarrow> string \<Rightarrow> unit_def list option" where
  "group_unit un m = (case un_exercise un of None \<Rightarrow> m
     | Some x \<Rightarrow> if un_retired un then m
         else m(ex_task x \<mapsto> (case m (ex_task x) of None \<Rightarrow> [] | Some l \<Rightarrow> l) @ [un]))"

text \<open>The table of tasks is empty while it is built, also after a failure.\<close>

definition read_tasks :: "env \<Rightarrow> database \<Rightarrow> (string \<Rightarrow> unit_def list option) reading" where
  "read_tasks e db x = (case rx_tasks x of Some m \<Rightarrow> (Inr m, x)
     | None \<Rightarrow> bind_c (read_catalogue e db) (\<lambda>ct y. let m = fold group_unit (ct_units ct) Map.empty
         in (Inr m, y\<lparr>rx_tasks := Some m\<rparr>)) (x\<lparr>rx_tasks := Some Map.empty\<rparr>))"

definition of_subtask :: "string option \<Rightarrow> unit_def \<Rightarrow> bool" where
  "of_subtask sub un = (case un_exercise un of None \<Rightarrow> False | Some x \<Rightarrow> sub = None \<or> sub = Some (ex_subtask x))"

definition read_task :: "env \<Rightarrow> database \<Rightarrow> string \<Rightarrow> string option \<Rightarrow> unit_def list reading" where
  "read_task e db t sub = bind_c (read_tasks e db) (\<lambda>m. Pair (Inr (filter (of_subtask sub)
     (case m t of None \<Rightarrow> [] | Some us \<Rightarrow> us))))"

definition lesson_of_lecture :: "env \<Rightarrow> database \<Rightarrow> course \<Rightarrow> string \<Rightarrow> catalogue option \<Rightarrow> lesson_def result" where
  "lesson_of_lecture e db c i given = bind_r (definitions e db c given) (\<lambda>(cu, _).
     case find (\<lambda>l. list_ex (\<lambda>a. source_lecture (ar_source a) = Some i) (ld_activities l)) (cu_lessons cu) of
       Some l \<Rightarrow> Inr l | None \<Rightarrow> Inl no_lesson)"

definition read_lecture :: "env \<Rightarrow> database \<Rightarrow> course \<Rightarrow> string \<Rightarrow> lesson_def reading" where
  "read_lecture e db c i x = (case rx_lectures x (co_id c, i) of Some l \<Rightarrow> (Inr l, x)
     | None \<Rightarrow> bind_c (if co_path c = None then Pair (Inr None) else bind_c (read_catalogue e db) (\<lambda>ct. Pair (Inr (Some ct))))
         (\<lambda>given y. case lesson_of_lecture e db c i given of Inl er \<Rightarrow> (Inl er, y)
           | Inr l \<Rightarrow> (Inr l, y\<lparr>rx_lectures := (rx_lectures y)((co_id c, i) \<mapsto> l)\<rparr>)) x)"

section \<open>One entry of the batch\<close>

definition read_binding :: "env \<Rightarrow> database \<Rightarrow> lecture_binding \<Rightarrow> (course \<times> lesson_def option) reading" where
  "read_binding e db b = (case course_by e (lb_course b) of
       None \<Rightarrow> Pair (Inl (Http 404 ''course unavailable''))
     | Some c \<Rightarrow>
       if (case lb_section b of None \<Rightarrow> False | Some s \<Rightarrow> s \<notin> se_id ` set (co_sections c))
       then Pair (Inl (Http 404 ''course unavailable''))
       else case lb_lecture b of None \<Rightarrow> Pair (Inr (c, None))
       | Some l \<Rightarrow>
         if (case lb_section b of None \<Rightarrow> False | Some s \<Rightarrow>
               \<not> list_ex (\<lambda>x. se_id x = s \<and> l \<in> le_id ` set (se_lectures x)) (co_sections c))
         then Pair (Inl no_lesson) else bind_c (read_lecture e db c l) (\<lambda>d. Pair (Inr (c, Some d))))"

definition read_candidates :: "env \<Rightarrow> database \<Rightarrow> challenge_request \<Rightarrow> (course \<times> lesson_def) list reading" where
  "read_candidates e db d = (case (en_rooms_enabled e, cr_task d) of
       (True, Some t) \<Rightarrow> bind_c (read_task e db t (cr_subtask d)) (\<lambda>us.
         bind_c (map_c (\<lambda>un. read_unit e db (un_id un)) us) (\<lambda>ps. Pair (Inr (concat ps))))
     | _ \<Rightarrow> Pair (Inr []))"

definition decision_key :: "user \<Rightarrow> (course \<times> lesson_def) list \<Rightarrow> course list \<Rightarrow> decision_key" where
  "decision_key us ps bs = (us_id us, us_admin us, map (\<lambda>(c, l). (co_id c, ld_id l)) ps, map co_id bs)"

definition refusal :: "err \<Rightarrow> bool" where
  "refusal er \<longleftrightarrow> status_code er = 403 \<or> status_code er = 404"

definition read_decision :: "env \<Rightarrow> user \<Rightarrow> (course \<times> lesson_def) list \<Rightarrow> course list \<Rightarrow> database \<Rightarrow> admission reading" where
  "read_decision e us ps bs db x = (let k = decision_key us ps bs in case rx_decisions x k of Some r \<Rightarrow> (r, x)
     | None \<Rightarrow> (case challenge_scope_admission e us ps bs False None True db of
         Inl er \<Rightarrow> (Inl er, if refusal er then x\<lparr>rx_decisions := (rx_decisions x)(k \<mapsto> Inl er)\<rparr> else x)
       | Inr (a, _) \<Rightarrow> (Inr a, x\<lparr>rx_decisions := (rx_decisions x)(k \<mapsto> Inr a)\<rparr>)))"

definition read_admission :: "env \<Rightarrow> string \<Rightarrow> challenge_request \<Rightarrow> database \<Rightarrow> admission reading" where
  "read_admission e u d db = bind_c (read_candidates e db d) (\<lambda>candidates.
     bind_c (map_c (read_binding e db) (cr_bindings d)) (\<lambda>bs.
     read_decision e \<lparr>us_id = u, us_admin = cr_admin d, us_verified = True\<rparr>
       (candidates @ map (\<lambda>(c, l). (c, the l)) (filter (\<lambda>(c, l). l \<noteq> None) bs))
       (map fst (filter (\<lambda>(c, l). l = None) bs)) db))"

fun check_batch :: "env \<Rightarrow> string \<Rightarrow> challenge_request list \<Rightarrow> database \<Rightarrow> bool list reading" where
  "check_batch e u [] db x = (Inr [], x)"
| "check_batch e u (d # ds) db x = (case read_admission e u d db x of
     (Inl er, y) \<Rightarrow> if refusal er then bind_c (check_batch e u ds db) (\<lambda>bs. Pair (Inr (False # bs))) y else (Inl er, y)
   | (Inr _, y) \<Rightarrow> bind_c (check_batch e u ds db) (\<lambda>bs. Pair (Inr (True # bs))) y)"

text \<open>The reference: every challenge checked in detail, on its own.\<close>

definition check :: "env \<Rightarrow> string \<Rightarrow> challenge_request \<Rightarrow> database \<Rightarrow> admission result" where
  "check e u d db = map_sum id fst (challenge_admission e u d False False db)"

definition readable :: "env \<Rightarrow> string \<Rightarrow> database \<Rightarrow> challenge_request \<Rightarrow> bool result" where
  "readable e u db d = (case check e u d db of Inr _ \<Rightarrow> Inr True | Inl er \<Rightarrow> if refusal er then Inr False else Inl er)"

section \<open>What the context may hold\<close>

definition courses_ok :: "env \<Rightarrow> bool" where
  "courses_ok e \<longleftrightarrow> distinct (map co_id (en_courses e)) \<and>
     list_all (\<lambda>c. case co_curriculum c of None \<Rightarrow> True | Some cu \<Rightarrow> valid_curriculum cu) (en_courses e)"

definition catalogue_ready :: "env \<Rightarrow> database \<Rightarrow> bool" where
  "catalogue_ready e db \<longleftrightarrow> (en_rooms_enabled e \<longrightarrow> (case catalogue_of e db False of Inl _ \<Rightarrow> False | Inr _ \<Rightarrow> True))"

definition known_lesson :: "env \<Rightarrow> database \<Rightarrow> course \<times> lesson_def \<Rightarrow> bool" where
  "known_lesson e db p \<longleftrightarrow> fst p \<in> set (en_courses e) \<and>
     (\<exists>cu ct. definitions e db (fst p) None = Inr (cu, ct) \<and> snd p \<in> set (cu_lessons cu))"

definition decides :: "env \<Rightarrow> database \<Rightarrow> decision_key \<Rightarrow> admission result \<Rightarrow> bool" where
  "decides e db k r \<longleftrightarrow> (\<forall>us ps bs. decision_key us ps bs = k \<longrightarrow> us_verified us \<longrightarrow> (\<forall>p\<in>set ps. known_lesson e db p) \<longrightarrow>
     set bs \<subseteq> set (en_courses e) \<longrightarrow> map_sum id fst (challenge_scope_admission e us ps bs False None True db) = r)"

definition context_ok :: "env \<Rightarrow> database \<Rightarrow> read_context \<Rightarrow> bool" where
  "context_ok e db x \<longleftrightarrow>
     (\<forall>ct. rx_content x = Some ct \<longrightarrow> catalogue_of e db False = Inr ct) \<and>
     (\<forall>m. rx_tasks x = Some m \<longrightarrow> (\<exists>ct. catalogue_of e db False = Inr ct \<and> m = fold group_unit (ct_units ct) Map.empty)) \<and>
     (\<forall>i ps. rx_units x i = Some ps \<longrightarrow> unit_lessons e db i None = Inr ps) \<and>
     (\<forall>c i l. c \<in> set (en_courses e) \<longrightarrow> rx_lectures x (co_id c, i) = Some l \<longrightarrow> lecture_lesson e db c i = Inr l) \<and>
     (\<forall>k r. rx_decisions x k = Some r \<longrightarrow> decides e db k r)"

lemma context_ok_empty: "context_ok e db empty_context"
  by (simp add: context_ok_def empty_context_def)

text \<open>\<open>reads m r\<close>: on every sound context the read answers \<open>r\<close>, and leaves a sound one if the batch goes on.\<close>

definition reads :: "env \<Rightarrow> database \<Rightarrow> 'a reading \<Rightarrow> 'a result \<Rightarrow> bool" where
  "reads e db m r \<longleftrightarrow> (\<forall>x. context_ok e db x \<longrightarrow> fst (m x) = r \<and>
     ((case r of Inl er \<Rightarrow> refusal er | Inr _ \<Rightarrow> True) \<longrightarrow> context_ok e db (snd (m x))))"

lemma reads_Pair: "reads e db (Pair r) r"
  by (simp add: reads_def)

lemma reads_bind:
  assumes "reads e db m r" "\<And>a. r = Inr a \<Longrightarrow> reads e db (f a) (g a)"
  shows "reads e db (bind_c m f) (bind_r r g)"
  unfolding reads_def
proof (intro allI impI)
  fix x
  assume x: "context_ok e db x"
  obtain r' y where m: "m x = (r', y)" by (cases "m x")
  with assms(1) x have r': "r' = r" and y: "(case r of Inl er \<Rightarrow> refusal er | Inr _ \<Rightarrow> True) \<longrightarrow> context_ok e db y"
    by (force simp: reads_def)+
  show "fst (bind_c m f x) = bind_r r g \<and> ((case bind_r r g of Inl er \<Rightarrow> refusal er | Inr _ \<Rightarrow> True) \<longrightarrow> context_ok e db (snd (bind_c m f x)))"
  proof (cases r)
    case (Inl er)
    with m r' y show ?thesis by (simp add: bind_c_def)
  next
    case (Inr a)
    with y assms(2) have "context_ok e db y" "reads e db (f a) (g a)" by auto
    then have "fst (f a y) = g a" "(case g a of Inl er \<Rightarrow> refusal er | Inr _ \<Rightarrow> True) \<longrightarrow> context_ok e db (snd (f a y))"
      unfolding reads_def by blast+
    with Inr m r' show ?thesis by (simp add: bind_c_def)
  qed
qed

lemma reads_map: "(\<And>y. y \<in> set ys \<Longrightarrow> reads e db (f y) (g y)) \<Longrightarrow> reads e db (map_c f ys) (map_r g ys)"
  by (induction ys) (auto intro!: reads_bind reads_Pair)

lemma reads_cong: "reads e db m r \<Longrightarrow> r = r' \<Longrightarrow> reads e db m r'"
  by simp

section \<open>Each read answers as the code without the context\<close>

lemma catalogue_error: "en_rooms_enabled e \<Longrightarrow> catalogue_of e db b = Inl er \<Longrightarrow> \<not> refusal er"
proof -
  have "apply_refs refs us = Inl er \<Longrightarrow> \<not> refusal er" for refs us
    by (induction refs us rule: apply_refs.induct) (auto simp: refusal_def split: option.splits if_splits)
  then show "en_rooms_enabled e \<Longrightarrow> catalogue_of e db b = Inl er \<Longrightarrow> \<not> refusal er"
    by (auto simp: catalogue_of_def result_simps refusal_def split: option.splits)
qed

lemma reads_catalogue: "reads e db (read_catalogue e db) (catalogue_of e db False)"
  by (auto simp: reads_def read_catalogue_def context_ok_def split: option.splits sum.splits)

text \<open>A memo: what is in it is right, what is put into it is the answer.\<close>

lemma reads_memo:
  assumes "\<And>x v. context_ok e db x \<Longrightarrow> look x = Some v \<Longrightarrow> r = Inr v" "reads e db m r0" "r = bind_r r0 g"
    "\<And>y v. context_ok e db y \<Longrightarrow> r = Inr v \<Longrightarrow> context_ok e db (put v y)"
  shows "reads e db (\<lambda>x. case look x of Some v \<Rightarrow> (Inr v, x)
    | None \<Rightarrow> bind_c m (\<lambda>a y. case g a of Inl er \<Rightarrow> (Inl er, y) | Inr v \<Rightarrow> (Inr v, put v y)) x) r"
  unfolding reads_def
proof (intro allI impI)
  fix x
  assume x: "context_ok e db x"
  obtain r' y where run: "m x = (r', y)" by (cases "m x")
  with assms(2) x have r': "r' = r0" and y: "(case r0 of Inl er \<Rightarrow> refusal er | Inr _ \<Rightarrow> True) \<longrightarrow> context_ok e db y"
    by (force simp: reads_def)+
  let ?p = "case look x of Some v \<Rightarrow> (Inr v, x)
    | None \<Rightarrow> bind_c m (\<lambda>a y. case g a of Inl er \<Rightarrow> (Inl er, y) | Inr v \<Rightarrow> (Inr v, put v y)) x"
  show "fst ?p = r \<and> ((case r of Inl er \<Rightarrow> refusal er | Inr _ \<Rightarrow> True) \<longrightarrow> context_ok e db (snd ?p))"
  proof (cases "look x")
    case (Some v)
    with assms(1) [OF x] x show ?thesis by simp
  next
    case None
    show ?thesis
    proof (cases r0)
      case (Inl er)
      with None run r' y assms(3) show ?thesis by (simp add: bind_c_def)
    next
      case (Inr a)
      with None run r' y assms(3,4) show ?thesis by (cases "g a") (auto simp: bind_c_def)
    qed
  qed
qed

lemma fold_group_unit:
  "fold group_unit us m t = (let new = filter (\<lambda>un. \<not> un_retired un \<and> (case un_exercise un of None \<Rightarrow> False | Some x \<Rightarrow> ex_task x = t)) us
     in if new = [] then m t else Some ((case m t of None \<Rightarrow> [] | Some l \<Rightarrow> l) @ new))"
  by (induction us arbitrary: m) (auto simp: group_unit_def Let_def split: option.splits)

definition task_units :: "catalogue \<Rightarrow> string \<Rightarrow> string option \<Rightarrow> unit_def list" where
  "task_units ct t sub = filter (\<lambda>un. \<not> un_retired un \<and> (case un_exercise un of None \<Rightarrow> False
     | Some x \<Rightarrow> ex_task x = t \<and> (sub = None \<or> sub = Some (ex_subtask x)))) (ct_units ct)"

lemma grouped_task_units:
  "filter (of_subtask sub) (case fold group_unit (ct_units ct) Map.empty t of None \<Rightarrow> [] | Some us \<Rightarrow> us) = task_units ct t sub"
proof -
  have "(case fold group_unit (ct_units ct) Map.empty t of None \<Rightarrow> [] | Some us \<Rightarrow> us) =
      filter (\<lambda>un. \<not> un_retired un \<and> (case un_exercise un of None \<Rightarrow> False | Some x \<Rightarrow> ex_task x = t)) (ct_units ct)"
    by (simp add: fold_group_unit Let_def)
  then show ?thesis
    by (auto simp: task_units_def of_subtask_def intro!: filter_cong split: option.splits)
qed

lemma reads_tasks:
  assumes "en_rooms_enabled e"
  shows "reads e db (read_tasks e db) (bind_r (catalogue_of e db False) (\<lambda>ct. Inr (fold group_unit (ct_units ct) Map.empty)))"
  unfolding reads_def
proof (intro allI impI)
  fix x
  assume x: "context_ok e db x"
  show "fst (read_tasks e db x) = bind_r (catalogue_of e db False) (\<lambda>ct. Inr (fold group_unit (ct_units ct) Map.empty)) \<and>
      ((case bind_r (catalogue_of e db False) (\<lambda>ct. Inr (fold group_unit (ct_units ct) Map.empty)) of Inl er \<Rightarrow> refusal er | Inr _ \<Rightarrow> True) \<longrightarrow>
        context_ok e db (snd (read_tasks e db x)))"
  proof (cases "rx_tasks x")
    case (Some m)
    with x obtain ct where "catalogue_of e db False = Inr ct" "m = fold group_unit (ct_units ct) Map.empty"
      by (auto simp: context_ok_def)
    with Some x show ?thesis by (simp add: read_tasks_def)
  next
    case None
    have content: "rx_content x = Some ct \<Longrightarrow> catalogue_of e db False = Inr ct" for ct using x by (simp add: context_ok_def)
    show ?thesis
    proof (cases "catalogue_of e db False")
      case (Inl er)
      with content have "rx_content x = None" by (cases "rx_content x") auto
      with None Inl catalogue_error [OF assms Inl] show ?thesis
        by (simp add: read_tasks_def bind_c_def read_catalogue_def)
    next
      case (Inr ct)
      with None content x show ?thesis
        by (cases "rx_content x") (auto simp: read_tasks_def bind_c_def read_catalogue_def context_ok_def Let_def)
    qed
  qed
qed

lemma reads_task:
  "en_rooms_enabled e \<Longrightarrow> reads e db (read_task e db t sub) (bind_r (catalogue_of e db False) (\<lambda>ct. Inr (task_units ct t sub)))"
  unfolding read_task_def
  by (rule reads_cong [OF reads_bind [OF reads_tasks reads_Pair]]) (simp_all add: bind_r_assoc grouped_task_units)

lemma unit_lessons_in: "unit_lessons e db i None = bind_r (catalogue_of e db False) (\<lambda>ct. lessons_of_unit e db ct i)"
  by (auto simp: unit_lessons_def lessons_of_unit_def intro!: bind_r_cong split: option.split)

lemma reads_unit: "reads e db (read_unit e db i) (unit_lessons e db i None)"
  unfolding read_unit_def
  by (rule reads_memo [OF _ reads_catalogue unit_lessons_in]) (auto simp: context_ok_def)

lemma definitions_given: "definitions e db c None = bind_r (if co_path c = None then Inr None
     else bind_r (catalogue_of e db False) (\<lambda>ct. Inr (Some ct))) (\<lambda>g. definitions e db c g)"
  by (auto simp: definitions_def bind_r_assoc intro!: bind_r_cong split: option.splits)

lemma lecture_lesson_given: "lecture_lesson e db c i = bind_r (if co_path c = None then Inr None
     else bind_r (catalogue_of e db False) (\<lambda>ct. Inr (Some ct))) (\<lambda>g. lesson_of_lecture e db c i g)"
  unfolding lecture_lesson_def lesson_of_lecture_def
  by (subst definitions_given) (simp only: bind_r_assoc)


lemma course_id_inj: "courses_ok e \<Longrightarrow> c \<in> set (en_courses e) \<Longrightarrow> c' \<in> set (en_courses e) \<Longrightarrow> co_id c = co_id c' \<Longrightarrow> c = c'"
  by (auto simp: courses_ok_def distinct_map inj_on_def)

lemma reads_lecture:
  assumes "courses_ok e" "c \<in> set (en_courses e)"
  shows "reads e db (read_lecture e db c i) (lecture_lesson e db c i)"
  unfolding read_lecture_def
proof (rule reads_memo [OF _ _ lecture_lesson_given])
  show "context_ok e db x \<Longrightarrow> rx_lectures x (co_id c, i) = Some v \<Longrightarrow> lecture_lesson e db c i = Inr v" for x v
    using assms(2) by (simp add: context_ok_def)
  show "reads e db (if co_path c = None then Pair (Inr None) else bind_c (read_catalogue e db) (\<lambda>ct. Pair (Inr (Some ct))))
      (if co_path c = None then Inr None else bind_r (catalogue_of e db False) (\<lambda>ct. Inr (Some ct)))"
    by (auto intro: reads_Pair reads_bind [OF reads_catalogue])
  show "context_ok e db y \<Longrightarrow> lecture_lesson e db c i = Inr v \<Longrightarrow>
      context_ok e db (y\<lparr>rx_lectures := (rx_lectures y)((co_id c, i) \<mapsto> v)\<rparr>)" for y v
    using course_id_inj [OF assms(1) _ assms(2)] by (auto simp: context_ok_def)
qed

lemma reads_binding:
  assumes "courses_ok e"
  shows "reads e db (read_binding e db b) (candidate_of_binding e db b)"
  by (auto simp: read_binding_def candidate_of_binding_def
      intro!: reads_Pair reads_bind reads_lecture [OF assms] dest: course_by_SomeD split: option.split)

lemma reads_candidates: "reads e db (read_candidates e db d) (task_candidates e db d)"
proof (cases "en_rooms_enabled e \<and> cr_task d \<noteq> None")
  case True
  then obtain t where t: "en_rooms_enabled e" "cr_task d = Some t" by auto
  have "reads e db (bind_c (read_task e db t (cr_subtask d)) (\<lambda>us.
         bind_c (map_c (\<lambda>un. read_unit e db (un_id un)) us) (\<lambda>ps. Pair (Inr (concat ps)))))
      (bind_r (bind_r (catalogue_of e db False) (\<lambda>ct. Inr (task_units ct t (cr_subtask d)))) (\<lambda>us.
         bind_r (map_r (\<lambda>un. unit_lessons e db (un_id un) None) us) (\<lambda>ps. Inr (concat ps))))"
    by (intro reads_bind reads_task reads_map reads_unit reads_Pair t)
  moreover have "bind_r (bind_r (catalogue_of e db False) (\<lambda>ct. Inr (task_units ct t (cr_subtask d)))) (\<lambda>us.
         bind_r (map_r (\<lambda>un. unit_lessons e db (un_id un) None) us) (\<lambda>ps. Inr (concat ps))) = task_candidates e db d"
    by (simp add: task_candidates_def t bind_r_assoc task_units_def)
  ultimately show ?thesis by (simp add: read_candidates_def t)
next
  case False
  then show ?thesis by (cases "en_rooms_enabled e"; cases "cr_task d") (simp_all add: read_candidates_def task_candidates_def reads_Pair)
qed

section \<open>Decisions\<close>

lemma definitions_distinct:
  assumes "courses_ok e" "c \<in> set (en_courses e)" "definitions e db c g = Inr (cu, ct)"
  shows "distinct (map ld_id (cu_lessons cu))"
proof -
  have hide: "distinct (map ld_id (cu_lessons k)) \<Longrightarrow> distinct (map ld_id (cu_lessons (without_unavailable_engine_units k content)))" for k content
    by (simp add: without_unavailable_engine_units_def Let_def distinct_map_filter comp_def)
  have adapted: "adapted_curriculum e c content = Inr k \<Longrightarrow> distinct (map ld_id (cu_lessons k))" for content k
    by (auto simp: adapted_curriculum_def result_simps Let_def valid_curriculum_def valid_structure_def split: option.splits if_splits)
  have explicit: "co_curriculum c = Some k \<Longrightarrow> distinct (map ld_id (cu_lessons k))" for k
    using assms(1,2) by (force simp: courses_ok_def list_all_iff valid_curriculum_def valid_structure_def)
  from assms(3) show ?thesis
    by (auto simp: definitions_def result_simps split: option.splits if_splits intro: hide adapted explicit)
qed

lemma known_lesson_inj:
  assumes "courses_ok e" "known_lesson e db p" "known_lesson e db q"
    "(\<lambda>(c, l). (co_id c, ld_id l)) p = (\<lambda>(c, l). (co_id c, ld_id l)) q"
  shows "p = q"
proof -
  obtain c l c' l' where p: "p = (c, l)" "q = (c', l')" by (cases p; cases q)
  have c: "c' = c" using assms p course_id_inj [OF assms(1), of c' c] by (auto simp: known_lesson_def)
  from assms(2,3) p c obtain cu ct where d: "definitions e db c None = Inr (cu, ct)" "l \<in> set (cu_lessons cu)" "l' \<in> set (cu_lessons cu)"
    by (auto simp: known_lesson_def)
  have "distinct (map ld_id (cu_lessons cu))"
    by (rule definitions_distinct [OF assms(1) _ d(1)]) (use assms(2) p in \<open>simp add: known_lesson_def\<close>)
  with d assms(4) p c show ?thesis by (auto simp: distinct_map inj_on_def)
qed

lemma decision_key_inj:
  assumes "courses_ok e" "decision_key us ps bs = decision_key us' ps' bs'" "us_verified us" "us_verified us'"
    "\<forall>p\<in>set ps. known_lesson e db p" "\<forall>p\<in>set ps'. known_lesson e db p"
    "set bs \<subseteq> set (en_courses e)" "set bs' \<subseteq> set (en_courses e)"
  shows "us = us' \<and> ps = ps' \<and> bs = bs'"
proof -
  have "ps = ps'"
  proof (rule list.inj_map_strong [of ps ps' "\<lambda>(c, l). (co_id c, ld_id l)" "\<lambda>(c, l). (co_id c, ld_id l)"])
    fix p q
    assume "p \<in> set ps" "q \<in> set ps'" "(\<lambda>(c, l). (co_id c, ld_id l)) p = (\<lambda>(c, l). (co_id c, ld_id l)) q"
    with assms(5,6) show "p = q" using known_lesson_inj [OF assms(1), of db p q] by blast
  qed (use assms(2) in \<open>simp add: decision_key_def\<close>)
  moreover have "bs = bs'"
  proof (rule list.inj_map_strong [of bs bs' co_id co_id])
    fix c c'
    assume "c \<in> set bs" "c' \<in> set bs'" "co_id c = co_id c'"
    with assms(7,8) show "c = c'" using course_id_inj [OF assms(1), of c c'] by blast
  qed (use assms(2) in \<open>simp add: decision_key_def\<close>)
  moreover have "us = us'" using assms(2-4) by (cases us; cases us') (simp add: decision_key_def)
  ultimately show ?thesis by simp
qed

lemma reads_decision:
  assumes "courses_ok e" "us_verified us" "\<forall>p\<in>set ps. known_lesson e db p" "set bs \<subseteq> set (en_courses e)"
  shows "reads e db (read_decision e us ps bs db) (map_sum id fst (challenge_scope_admission e us ps bs False None True db))"
proof -
  let ?k = "decision_key us ps bs" and ?s = "challenge_scope_admission e us ps bs False None True db"
  have new: "decides e db ?k (map_sum id fst ?s)"
    using decision_key_inj [OF assms(1)] assms(2-4) unfolding decides_def by blast
  have put: "context_ok e db x \<Longrightarrow> context_ok e db (x\<lparr>rx_decisions := (rx_decisions x)(?k \<mapsto> map_sum id fst ?s)\<rparr>)" for x
    using new by (simp add: context_ok_def)
  show ?thesis unfolding reads_def
  proof (intro allI impI)
    fix x
    assume x: "context_ok e db x"
    show "fst (read_decision e us ps bs db x) = map_sum id fst ?s \<and>
      ((case map_sum id fst ?s of Inl er \<Rightarrow> refusal er | Inr _ \<Rightarrow> True) \<longrightarrow> context_ok e db (snd (read_decision e us ps bs db x)))"
    proof (cases "rx_decisions x ?k")
      case (Some r)
      with x have "decides e db ?k r" unfolding context_ok_def by blast
      with assms have "map_sum id fst ?s = r" unfolding decides_def by blast
      with Some x show ?thesis by (simp add: read_decision_def)
    next
      case None
      with put [OF x] x show ?thesis by (cases ?s) (auto simp: read_decision_def)
    qed
  qed
qed

lemma map_r_member: "map_r f xs = Inr ys \<Longrightarrow> y \<in> set ys \<Longrightarrow> \<exists>x\<in>set xs. f x = Inr y"
  by (induction xs arbitrary: ys) (auto simp: result_simps)

lemma unit_lessons_known:
  assumes "unit_lessons e db i None = Inr ps" "p \<in> set ps"
  shows "known_lesson e db p"
proof -
  obtain ct where ct: "catalogue_of e db False = Inr ct" "lessons_of_unit e db ct i = Inr ps"
    using assms(1) by (auto simp: unit_lessons_in result_simps)
  then obtain un where "unit_by (ct_units ct) i = Some un"
    using assms(2) by (cases "unit_by (ct_units ct) i") (auto simp: lessons_of_unit_def)
  with ct(2) obtain pss where pss: "map_r (\<lambda>c. bind_r (definitions e db c (Some ct)) (\<lambda>(cu, _).
           Inr (map (\<lambda>l. (c, l)) (filter (has_unit i) (cu_lessons cu)))))
      (filter (\<lambda>c. co_path c = Some (un_path un)) (sort_key co_id (en_courses e))) = Inr pss" "ps = concat pss"
    by (auto simp: lessons_of_unit_def result_simps)
  from assms(2) pss(2) obtain qs where "qs \<in> set pss" "p \<in> set qs" by auto
  with map_r_member [OF pss(1), of qs] obtain c cu x where c: "c \<in> set (en_courses e)" "co_path c = Some (un_path un)"
      and d: "definitions e db c (Some ct) = Inr (cu, x)" "p \<in> set (map (\<lambda>l. (c, l)) (filter (has_unit i) (cu_lessons cu)))"
    by (auto simp: result_simps)
  have "definitions e db c None = Inr (cu, x)" using d(1) c(2) ct(1) by (simp add: definitions_given [of e db c])
  with d(2) c(1) show ?thesis by (auto simp: known_lesson_def)
qed

lemma task_candidates_eq:
  "en_rooms_enabled e \<Longrightarrow> cr_task d = Some t \<Longrightarrow> task_candidates e db d = bind_r (catalogue_of e db False) (\<lambda>ct.
     bind_r (map_r (\<lambda>un. unit_lessons e db (un_id un) None) (task_units ct t (cr_subtask d))) (\<lambda>ps. Inr (concat ps)))"
  by (simp add: task_candidates_def task_units_def)

lemma task_candidates_known:
  assumes "task_candidates e db d = Inr ps"
  shows "\<forall>p\<in>set ps. known_lesson e db p"
proof (cases "en_rooms_enabled e \<and> cr_task d \<noteq> None")
  case True
  then obtain t where t: "en_rooms_enabled e" "cr_task d = Some t" by auto
  from assms [unfolded task_candidates_eq [OF t]] obtain ct pss where
    "map_r (\<lambda>un. unit_lessons e db (un_id un) None) (task_units ct t (cr_subtask d)) = Inr pss" "ps = concat pss"
    by (auto simp: result_simps)
  then show ?thesis by (auto dest!: map_r_member intro: unit_lessons_known)
next
  case False
  with assms show ?thesis by (cases "en_rooms_enabled e"; cases "cr_task d") (simp_all add: task_candidates_def)
qed

lemma lecture_lesson_known: "lecture_lesson e db c i = Inr l \<Longrightarrow> c \<in> set (en_courses e) \<Longrightarrow> known_lesson e db (c, l)"
  by (auto simp: lecture_lesson_def known_lesson_def result_simps find_Some_iff split: option.splits) (metis nth_mem)

lemma candidate_known:
  assumes "candidate_of_binding e db b = Inr (c, x)"
  shows "c \<in> set (en_courses e)" "x = Some l \<Longrightarrow> known_lesson e db (c, l)"
  using assms by (auto simp: candidate_of_binding_def result_simps intro: lecture_lesson_known
      dest: course_by_SomeD split: option.splits if_splits)

lemma bindings_known:
  assumes "map_r (candidate_of_binding e db) xs = Inr bs" "q \<in> set bs"
  shows "fst q \<in> set (en_courses e)" "snd q = Some l \<Longrightarrow> known_lesson e db (fst q, l)"
proof -
  from map_r_member [OF assms] obtain b where "candidate_of_binding e db b = Inr q" by blast
  then have b: "candidate_of_binding e db b = Inr (fst q, snd q)" by simp
  from candidate_known [OF b] show "fst q \<in> set (en_courses e)" "snd q = Some l \<Longrightarrow> known_lesson e db (fst q, l)" by auto
qed

text \<open>An entry of the batch answers what the read path of the admission answers.\<close>

lemma reads_admission:
  assumes "courses_ok e"
  shows "reads e db (read_admission e u d db) (map_sum id fst (challenge_admission e u d False True db))"
proof -
  let ?us = "\<lparr>us_id = u, us_admin = cr_admin d, us_verified = True\<rparr>"
  let ?ps = "\<lambda>cs bs. cs @ map (\<lambda>(c, l). (c, the l)) (filter (\<lambda>(c :: course, l :: lesson_def option). l \<noteq> None) bs)"
  let ?bs = "\<lambda>bs. map fst (filter (\<lambda>(c :: course, l :: lesson_def option). l = None) bs)"
  have "reads e db (read_admission e u d db) (bind_r (task_candidates e db d) (\<lambda>cs.
      bind_r (map_r (candidate_of_binding e db) (cr_bindings d)) (\<lambda>bs.
      map_sum id fst (challenge_scope_admission e ?us (?ps cs bs) (?bs bs) False None True db))))"
    unfolding read_admission_def
  proof (rule reads_bind [OF reads_candidates], rule reads_bind [OF reads_map [OF reads_binding [OF assms]]])
    fix cs bs
    assume r: "task_candidates e db d = Inr cs" "map_r (candidate_of_binding e db) (cr_bindings d) = Inr bs"
    have "known_lesson e db p" if "p \<in> set (?ps cs bs)" for p
      using that task_candidates_known [OF r(1)] bindings_known(2) [OF r(2)] by auto
    moreover have "set (?bs bs) \<subseteq> set (en_courses e)" using bindings_known(1) [OF r(2)] by auto
    ultimately show "reads e db (read_decision e ?us (?ps cs bs) (?bs bs) db)
        (map_sum id fst (challenge_scope_admission e ?us (?ps cs bs) (?bs bs) False None True db))"
      by (intro reads_decision assms ballI) simp_all
  qed
  moreover have scope: "challenge_scope_admission e us ps bs False q True db = challenge_scope_admission e us ps bs False None True db" for us ps bs q
    unfolding challenge_scope_admission_def by (simp only: if_True)
  have "bind_r (task_candidates e db d) (\<lambda>cs. bind_r (map_r (candidate_of_binding e db) (cr_bindings d)) (\<lambda>bs.
      map_sum id fst (challenge_scope_admission e ?us (?ps cs bs) (?bs bs) False None True db))) =
      map_sum id fst (challenge_admission e u d False True db)"
    by (cases "task_candidates e db d"; cases "map_r (candidate_of_binding e db) (cr_bindings d)")
      (simp_all add: challenge_admission_def scope [of _ _ _ "cr_request d"])
  ultimately show ?thesis by simp
qed

section \<open>The read path and the detailed check\<close>

lemma scan_ready:
  assumes "catalogue_ready e db"
  shows "\<exists>r. scan_activities e db u c as ex le = Inr r"
proof (induction as arbitrary: ex le)
  case (Cons a as)
  show ?case
  proof (cases "catalogue_of e db False")
    case (Inl er)
    with assms have "\<not> en_rooms_enabled e" by (simp add: catalogue_ready_def)
    with Cons show ?thesis by (auto split: activity_source.split)
  next
    case (Inr ct)
    with Cons show ?thesis by (auto split: activity_source.split option.split)
  qed
qed simp

lemma history_ready:
  assumes "catalogue_ready e db" "challenge_history e db u = Inl er"
  shows "er = history_unavailable"
proof -
  have "\<exists>es. history_entries e db = Inr es"
    using assms(1) by (cases "catalogue_of e db False") (auto simp: history_entries_def catalogue_ready_def Let_def)
  moreover have "map_r (\<lambda>b. read_history_batch e u (lefts b) (rights_of b)) bs = Inl er \<Longrightarrow> er = history_unavailable" for bs
    by (induction bs) (auto simp: read_history_batch_def result_simps split: option.splits if_splits)
  ultimately show ?thesis using assms(2) by (auto simp: challenge_history_def result_simps split: if_splits)
qed

lemma historical_ready:
  assumes "catalogue_ready e db"
  shows "historical_progress e db u c l b = Inl er \<Longrightarrow> b \<and> er = history_unavailable"
proof -
  obtain r where r: "scan_activities e db u (co_id c) (ld_activities l) [] [] = Inr r" using scan_ready [OF assms] by blast
  show "historical_progress e db u c l b = Inl er \<Longrightarrow> b \<and> er = history_unavailable"
    using history_ready [OF assms, of u er]
    by (cases r) (auto simp: historical_progress_def r result_simps split: if_splits)
qed

lemma choose_ready:
  assumes "catalogue_ready e db"
  shows "\<exists>p. choose_lesson e db us ps = Inr p \<and> (p = None \<longleftrightarrow> ps = [])"
proof -
  have 1: "\<exists>p. choose_known e db u ps = Inr p" for u ps
  proof (induction ps)
    case (Cons q ps)
    obtain c l where q: "q = (c, l)" by (cases q)
    show ?case
    proof (cases "historical_progress e db u c l False")
      case (Inl er)
      with historical_ready [OF assms Inl] show ?thesis by simp
    next
      case (Inr b)
      with Cons show ?thesis by (auto simp: q)
    qed
  qed simp
  have 2: "\<exists>p. choose_begun e db u ps = Inr p" for u ps
  proof (induction ps)
    case (Cons q ps)
    obtain c l where q: "q = (c, l)" by (cases q)
    have "begun e db u c l = Inl er \<Longrightarrow> is_access er" for er
      using historical_ready [OF assms, of u c l True er] by (auto simp: begun_def history_unavailable_def split: if_splits)
    with Cons show ?case by (auto simp: q split: sum.split bool.split)
  qed simp
  have 3: "choose_known e db u [] = Inr None" "choose_begun e db u [] = Inr None" for u by simp_all
  from 1 [of "us_id us" ps] 2 [of "us_id us" ps] obtain p1 p2 where
    "choose_known e db (us_id us) ps = Inr p1" "choose_begun e db (us_id us) ps = Inr p2" by blast
  then show ?thesis by (cases p1; cases p2; cases ps) (auto simp: choose_lesson_def)
qed

lemma status_ready:
  assumes "catalogue_ready e db"
  shows "\<not> erased db (us_id us) \<Longrightarrow> policy_of e (us_id us) = Inr p \<Longrightarrow> status e db us co le = Inl er \<Longrightarrow> er = history_unavailable"
  using historical_ready [OF assms, of "us_id us" _ _ _ er]
  by (auto simp: status_def Let_def result_simps split: option.splits prod.splits if_splits)

lemma policy_error: "policy_of e u = Inl er \<Longrightarrow> en_policy_enabled e \<and> (er = access_unavailable \<or> er = Http 401 ''account gone'')"
  by (auto simp: policy_of_def split: if_splits policy_answer.splits)

lemma optional_status_ready:
  assumes "catalogue_ready e db"
  shows "map_sum id (\<lambda>_. ()) (optional_status e db us co le) =
    (if en_policy_enabled e \<and> erased db (us_id us) then Inl (Http 401 ''account gone'')
     else map_sum id (\<lambda>_. ()) (confirmed_policy_mode e (us_id us)))"
proof (cases "en_policy_enabled e \<and> \<not> erased db (us_id us)")
  case False
  then show ?thesis
    by (cases "en_policy_enabled e") (simp_all add: optional_status_def status_def confirmed_policy_mode_def policy_of_def)
next
  case True
  show ?thesis
  proof (cases "policy_of e (us_id us)")
    case (Inl er)
    with True policy_error [OF Inl] show ?thesis
      by (auto simp: optional_status_def status_def confirmed_policy_mode_def access_unavailable_def)
  next
    case (Inr p)
    with True status_ready [OF assms _ Inr, of co le] show ?thesis
      by (cases "status e db us co le") (auto simp: optional_status_def confirmed_policy_mode_def history_unavailable_def)
  qed
qed

lemma heart_policy_total: "map_sum id (\<lambda>_. ()) (heart_policy e db us pair) = map_sum id (\<lambda>_. ()) (confirmed_policy_mode e (us_id us))"
  by (cases "confirmed_policy_mode e (us_id us)") (auto simp: heart_policy_def Let_def split: option.split prod.split)

lemma scope_checks_agree:
  assumes "catalogue_ready e db"
  shows "map_sum id (\<lambda>_. ()) (challenge_scope_admission e us ps bs False q False db) =
    map_sum id (\<lambda>_. ()) (challenge_scope_admission e us ps bs False q True db)"
proof (cases "ps = [] \<and> bs = []")
  case True
  then show ?thesis by (simp add: challenge_scope_admission_def)
next
  case False
  obtain r1 where r1: "filter_r (\<lambda>(c, l). admitted e db us c (Some l)) ps = r1" by blast
  obtain r2 where r2: "filter_r (\<lambda>c. admitted e db us c None) bs = r2" by blast
  show ?thesis
  proof (cases "r1 = Inl (projl r1) \<or> r2 = Inl (projl r2)")
    case True
    with False r1 r2 show ?thesis
      by (cases r1; cases r2) (auto simp: challenge_scope_admission_def)
  next
    case refused: False
    then obtain pairs broad where ok: "filter_r (\<lambda>(c, l). admitted e db us c (Some l)) ps = Inr pairs"
        "filter_r (\<lambda>c. admitted e db us c None) bs = Inr broad"
      using r1 r2 by (cases r1; cases r2) auto
    obtain p where p: "choose_lesson e db us pairs = Inr p" "p = None \<longleftrightarrow> pairs = []" using choose_ready [OF assms] by blast
    let ?st = "if en_policy_enabled e \<and> erased db (us_id us) then Inl (Http 401 ''account gone'')
     else map_sum id (\<lambda>_. ()) (confirmed_policy_mode e (us_id us))"
    have opt: "map_sum id (\<lambda>_. ()) (bind_r (optional_status e db us co le) (\<lambda>d.
        bind_r (heart_policy e db us pair) (\<lambda>h. Inr (k d h, db)))) = ?st" for co le pair and k :: "daily_status option \<Rightarrow> policy_mode option \<Rightarrow> admission"
      using optional_status_ready [OF assms, of us co le] heart_policy_total [of e db us pair]
      by (cases "optional_status e db us co le"; cases "heart_policy e db us pair"; cases "confirmed_policy_mode e (us_id us)")
        (auto split: if_splits)
    have rd: "map_sum id (\<lambda>_. ()) (challenge_scope_admission e us ps bs False q True db) =
        (if pairs = [] \<and> broad = [] then Inl (Http 403 ''course access needed'') else ?st)"
      using False by (cases "confirmed_policy_mode e (us_id us)") (auto simp: challenge_scope_admission_def ok Let_def)
    show ?thesis
    proof (cases p)
      case None
      then show ?thesis using False p rd opt [of None None None "\<lambda>d h. \<lparr>ad_lesson = None, ad_daily = d, ad_heart = h\<rparr>"]
        by (auto simp: challenge_scope_admission_def ok Let_def)
    next
      case (Some cl)
      obtain c l where cl: "cl = (c, l)" by (cases cl)
      show ?thesis using False p Some cl rd
          opt [of "Some c" "Some l" "Some (c, l)" "\<lambda>d h. \<lparr>ad_lesson = Some (co_id c, ld_id l), ad_daily = d, ad_heart = h\<rparr>"]
        by (auto simp: challenge_scope_admission_def ok Let_def bind_r_assoc)
    qed
  qed
qed

lemma checks_agree:
  assumes "catalogue_ready e db"
  shows "map_sum id (\<lambda>_. ()) (challenge_admission e u d False False db) = map_sum id (\<lambda>_. ()) (challenge_admission e u d False True db)"
  by (cases "task_candidates e db d"; cases "map_r (candidate_of_binding e db) (cr_bindings d)")
    (simp_all add: challenge_admission_def scope_checks_agree [OF assms])

lemma readable_batch:
  assumes "catalogue_ready e db"
  shows "readable e u db d = (case map_sum id fst (challenge_admission e u d False True db) of Inr _ \<Rightarrow> Inr True
    | Inl er \<Rightarrow> if refusal er then Inr False else Inl er)"
  using checks_agree [OF assms, of u d]
  by (cases "challenge_admission e u d False False db"; cases "challenge_admission e u d False True db")
    (auto simp: readable_def check_def)

lemma reads_batch:
  assumes "courses_ok e" "catalogue_ready e db"
  shows "reads e db (check_batch e u ds db) (map_r (readable e u db) ds)"
proof (induction ds)
  case Nil
  then show ?case by (simp add: reads_def)
next
  case (Cons d ds)
  let ?r = "map_sum id fst (challenge_admission e u d False True db)"
  have rest: "reads e db (bind_c (check_batch e u ds db) (\<lambda>bs. Pair (Inr (b # bs)))) (bind_r (map_r (readable e u db) ds) (\<lambda>bs. Inr (b # bs)))" for b
    by (rule reads_bind [OF Cons reads_Pair])
  show ?case unfolding reads_def
  proof (intro allI impI)
    fix x
    assume x: "context_ok e db x"
    obtain r y where run: "read_admission e u d db x = (r, y)" by (cases "read_admission e u d db x")
    with reads_admission [OF assms(1), of db u d] x have r: "r = ?r"
      and y: "(case r of Inl er \<Rightarrow> refusal er | Inr _ \<Rightarrow> True) \<longrightarrow> context_ok e db y" by (force simp: reads_def)+
    show "fst (check_batch e u (d # ds) db x) = map_r (readable e u db) (d # ds) \<and>
      ((case map_r (readable e u db) (d # ds) of Inl er \<Rightarrow> refusal er | Inr _ \<Rightarrow> True) \<longrightarrow>
        context_ok e db (snd (check_batch e u (d # ds) db x)))"
    proof (cases r)
      case (Inr a)
      with y have "context_ok e db y" by simp
      with rest [of True] have "fst (bind_c (check_batch e u ds db) (\<lambda>bs. Pair (Inr (True # bs))) y) =
          bind_r (map_r (readable e u db) ds) (\<lambda>bs. Inr (True # bs))" "(case bind_r (map_r (readable e u db) ds) (\<lambda>bs. Inr (True # bs)) of
          Inl er \<Rightarrow> refusal er | Inr _ \<Rightarrow> True) \<longrightarrow> context_ok e db (snd (bind_c (check_batch e u ds db) (\<lambda>bs. Pair (Inr (True # bs))) y))"
        unfolding reads_def by blast+
      with Inr run r show ?thesis by (simp add: readable_batch [OF assms(2)])
    next
      case (Inl er)
      show ?thesis
      proof (cases "refusal er")
        case True
        with Inl y have "context_ok e db y" by simp
        with rest [of False] have "fst (bind_c (check_batch e u ds db) (\<lambda>bs. Pair (Inr (False # bs))) y) =
          bind_r (map_r (readable e u db) ds) (\<lambda>bs. Inr (False # bs))" "(case bind_r (map_r (readable e u db) ds) (\<lambda>bs. Inr (False # bs)) of
          Inl er \<Rightarrow> refusal er | Inr _ \<Rightarrow> True) \<longrightarrow> context_ok e db (snd (bind_c (check_batch e u ds db) (\<lambda>bs. Pair (Inr (False # bs))) y))"
          unfolding reads_def by blast+
        with Inl True run r show ?thesis by (simp add: readable_batch [OF assms(2)])
      next
        case False
        with Inl run r show ?thesis by (simp add: readable_batch [OF assms(2)])
      qed
    qed
  qed
qed

text \<open>
  C12: a batch tells Challenges for every task exactly what the detailed check of that task alone would tell: readable if
  the check answers, not readable if it refuses with 403 or 404, and the first other failure ends the batch. The catalogue,
  the tables of lessons and the decisions that the entries share, and the shorter read path, change no answer.
\<close>

theorem batch_reads_as_checks:
  assumes "courses_ok e" "catalogue_ready e db"
  shows "fst (check_batch e u ds db empty_context) = map_r (readable e u db) ds"
  using reads_batch [OF assms, of u ds] context_ok_empty by (simp add: reads_def)

text \<open>A learner who bought one of two courses; the batch asks twice about it, about the other one and about an unknown one.\<close>

definition batch_env :: env where
  "batch_env = example_env\<lparr>en_courses := [example_course, example_course\<lparr>co_id := ''java''\<rparr>],
     en_policy := (\<lambda>u. Policy_answer \<lparr>po_mode = Legacy, po_premium = False, po_single_sales = True, po_heart_sales = True\<rparr>)\<rparr>"

definition batch_db :: database where
  "batch_db = empty_db\<lparr>accesses := [\<lparr>ca_user = ''u'', ca_course = ''python''\<rparr>]\<rparr>"

definition asked :: "string \<Rightarrow> string option \<Rightarrow> challenge_request" where
  "asked c l = \<lparr>cr_task = None, cr_subtask = None, cr_bindings = [\<lparr>lb_course = c, lb_lecture = l, lb_section = None\<rparr>],
     cr_admin = False, cr_request = None\<rparr>"

definition asked_batch :: "challenge_request list" where
  "asked_batch = [asked ''python'' (Some ''intro''), asked ''java'' (Some ''intro''), asked ''python'' (Some ''intro''), asked ''ruby'' None]"

lemma batch_reads_as_checks_witness:
  "fst (check_batch batch_env ''u'' asked_batch batch_db empty_context) = Inr [True, False, True, False]"
proof -
  have "courses_ok batch_env" "catalogue_ready batch_env batch_db" by code_simp+
  moreover have "map_r (readable batch_env ''u'' batch_db) asked_batch = Inr [True, False, True, False]" by code_simp
  ultimately show ?thesis by (simp add: batch_reads_as_checks)
qed

end
