(* ===== verification/Isolation.thy ===== *)
theory Isolation
  imports Service
begin

text \<open>
  Nobody but the account itself: the requests a learner sends leave the learning data of every other account as it was
  (\<open>same_data\<close>). One lemma per operation, over its cases.
\<close>

section \<open>Rows of somebody else\<close>

lemma all_rows_add [simp]: "\<not> P x \<Longrightarrow> all_rows P (add_row x t) = all_rows P t"
  by (simp add: all_rows_def add_row_def)

lemma all_rows_update: "(\<And>r. Q r \<Longrightarrow> \<not> P r \<and> \<not> P (f r)) \<Longrightarrow> all_rows P (update_rows Q f t) = all_rows P t"
  by (induction t) (auto simp: all_rows_def update_rows_def)

lemma all_rows_update_in:
  "(\<And>r. r \<in> set t \<Longrightarrow> Q r \<Longrightarrow> \<not> P r \<and> \<not> P (f r)) \<Longrightarrow> all_rows P (update_rows Q f t) = all_rows P t"
  by (induction t) (auto simp: all_rows_def update_rows_def)

lemma all_rows_delete: "(\<And>r. r \<in> set t \<Longrightarrow> Q r \<Longrightarrow> \<not> P r) \<Longrightarrow> all_rows P (delete_rows Q t) = all_rows P t"
  by (induction t) (auto simp: all_rows_def delete_rows_def)

lemma all_rows_update_first: "(\<And>r. Q r \<Longrightarrow> \<not> P r \<and> \<not> P (f r)) \<Longrightarrow> all_rows P (update_first Q f t) = all_rows P t"
  by (induction t) (auto simp: all_rows_def)

lemma same_data_write:
  assumes "same_data v a db"
  shows "all_rows (\<lambda>r. sb_user r = v) t0 = all_rows (\<lambda>r. sb_user r = v) (submissions db) \<Longrightarrow> same_data v a (db\<lparr>submissions := t0\<rparr>)"
    "all_rows (\<lambda>r. ts_user r = v) t1 = all_rows (\<lambda>r. ts_user r = v) (task_states db) \<Longrightarrow> same_data v a (db\<lparr>task_states := t1\<rparr>)"
    "all_rows (\<lambda>r. lr_user r = v) t2 = all_rows (\<lambda>r. lr_user r = v) (start_receipts db) \<Longrightarrow> same_data v a (db\<lparr>start_receipts := t2\<rparr>)"
    "all_rows (\<lambda>r. ls_user r = v) t3 = all_rows (\<lambda>r. ls_user r = v) (starts db) \<Longrightarrow> same_data v a (db\<lparr>starts := t3\<rparr>)"
    "all_rows (\<lambda>r. pq_user r = v) t4 = all_rows (\<lambda>r. pq_user r = v) (project_requests db) \<Longrightarrow> same_data v a (db\<lparr>project_requests := t4\<rparr>)"
    "all_rows (\<lambda>r. pr_user r = v) t5 = all_rows (\<lambda>r. pr_user r = v) (projects db) \<Longrightarrow> same_data v a (db\<lparr>projects := t5\<rparr>)"
    "all_rows (\<lambda>r. pl_user r = v) t6 = all_rows (\<lambda>r. pl_user r = v) (plans db) \<Longrightarrow> same_data v a (db\<lparr>plans := t6\<rparr>)"
    "all_rows (\<lambda>r. ms_user r = v) t7 = all_rows (\<lambda>r. ms_user r = v) (milestones db) \<Longrightarrow> same_data v a (db\<lparr>milestones := t7\<rparr>)"
    "all_rows (\<lambda>r. lv_user r = v) t8 = all_rows (\<lambda>r. lv_user r = v) (verdicts db) \<Longrightarrow> same_data v a (db\<lparr>verdicts := t8\<rparr>)"
    "all_rows (\<lambda>r. rq_user r = v) t9 = all_rows (\<lambda>r. rq_user r = v) (room_requests db) \<Longrightarrow> same_data v a (db\<lparr>room_requests := t9\<rparr>)"
    "all_rows (\<lambda>r. rs_user r = v) t10 = all_rows (\<lambda>r. rs_user r = v) (rooms db) \<Longrightarrow> same_data v a (db\<lparr>rooms := t10\<rparr>)"
    "all_rows (\<lambda>r. ca_user r = v) t11 = all_rows (\<lambda>r. ca_user r = v) (accesses db) \<Longrightarrow> same_data v a (db\<lparr>accesses := t11\<rparr>)"
    "all_rows (\<lambda>r. lw_user r = v) t12 = all_rows (\<lambda>r. lw_user r = v) (watches db) \<Longrightarrow> same_data v a (db\<lparr>watches := t12\<rparr>)"
    "all_rows (\<lambda>r. lp_user r = v) t13 = all_rows (\<lambda>r. lp_user r = v) (lectures db) \<Longrightarrow> same_data v a (db\<lparr>lectures := t13\<rparr>)"
    "all_rows (\<lambda>r. bm_user r = v) t14 = all_rows (\<lambda>r. bm_user r = v) (bookmarks db) \<Longrightarrow> same_data v a (db\<lparr>bookmarks := t14\<rparr>)"
    "all_rows (\<lambda>r. xp_user r = v) t15 = all_rows (\<lambda>r. xp_user r = v) (xps db) \<Longrightarrow> same_data v a (db\<lparr>xps := t15\<rparr>)"
    "all_rows (\<lambda>r. xo_user r = v) t16 = all_rows (\<lambda>r. xo_user r = v) (xp_operations db) \<Longrightarrow> same_data v a (db\<lparr>xp_operations := t16\<rparr>)"
  using assms by (simp_all add: same_data_def)

lemma same_data_after [simp]:
  "same_data v a (db\<lparr>purchases := x0\<rparr>) = same_data v a db" "same_data v a (db\<lparr>users := x1\<rparr>) = same_data v a db"
  "same_data v a (db\<lparr>rights := x2\<rparr>) = same_data v a db" "same_data v a (db\<lparr>grants := x3\<rparr>) = same_data v a db"
  "same_data v a (snd (lock_user db u)) = same_data v a db" "same_data v a (set_deleted db u) = same_data v a db"
  by (simp_all add: same_data_def set_deleted_def)

section \<open>Lessons and rooms\<close>

lemma same_confirm: "same_data v a db \<Longrightarrow> u \<noteq> v \<Longrightarrow> same_data v a (confirm_start db u c l m)"
  by (auto simp: confirm_start_def intro!: same_data_write all_rows_update split: option.splits)

lemma same_receipt: "same_data v a db \<Longrightarrow> u \<noteq> v \<Longrightarrow> same_data v a (add_receipt e u req c l db)"
  by (auto simp: add_receipt_def intro!: same_data_write split: option.splits)

lemma same_record_start:
  assumes "same_data v a db" "us_id us \<noteq> v" "record_start e us c l req daily mode db = Inr (d, db')"
  shows "same_data v a db'"
  using assms(3)
proof (cases rule: record_start_cases)
  case (again m)
  with assms show ?thesis by (simp add: same_confirm same_receipt)
next
  case (first old m)
  have "same_data v a (db\<lparr>starts := add_row (start_row e us c l old daily mode m) (starts db)\<rparr>)"
    using assms(1,2) by (intro same_data_write) (simp_all add: start_row_def Let_def)
  with assms(2) first show ?thesis by (simp add: same_receipt)
qed

lemma same_admit_start:
  assumes "same_data v a db" "us_id us \<noteq> v" "admit_start e us c l req db = Inr (d, db')"
  shows "same_data v a db'"
  using assms(3)
proof (cases rule: admit_start_cases)
  case unknown
  show ?thesis by (rule same_record_start [OF assms(1,2) unknown(3)])
next
  case (legacy s)
  with assms show ?thesis by simp
next
  case (known s)
  show ?thesis by (rule same_record_start [OF assms(1,2) known(3)])
qed

lemma same_start:
  assumes "same_data v a db" "us_id us \<noteq> v" "start e us c l req False db = Inr (d, db')"
  shows "same_data v a db'"
proof (cases "en_policy_enabled e")
  case False
  with assms show ?thesis by (simp add: start_def)
next
  case True
  from assms(3) True show ?thesis
  proof (cases rule: start_cases)
    case (receipt m)
    with assms show ?thesis by (simp add: same_confirm)
  next
    case admit
    from same_admit_start [OF _ assms(2) admit(2)] assms(1) show ?thesis by simp
  qed
qed

lemma same_start_unit:
  assumes "same_data v a db" "us_id us \<noteq> v" "start_unit e us i ci True db = Inr (d, db')"
  shows "same_data v a db'"
proof -
  have "same_data v a db'" if "start e us c l None True db = Inr (d, db')" for c l d
    using that assms(1,2) by (auto simp: start_def Let_def split: if_splits intro: same_admit_start)
  with assms show ?thesis by (auto simp: start_unit_def result_simps split: if_splits option.splits)
qed

lemma same_enqueue: "same_data v a db \<Longrightarrow> u \<noteq> v \<Longrightarrow> same_data v a (enqueue t u un c db)"
  by (auto simp: enqueue_def intro!: same_data_write split: option.splits)

lemma all_rows_prune: "u \<noteq> v \<Longrightarrow> all_rows (\<lambda>r. rq_user r = v) (prune_receipts u i t) = all_rows (\<lambda>r. rq_user r = v) t"
  by (auto simp: prune_receipts_def Let_def intro!: all_rows_delete)

lemma same_save_room:
  assumes "same_data v a db" "u \<noteq> v" "save_room e u i m fp row p verdict db = Inr db'"
  shows "same_data v a db'"
proof -
  define add where "add = (\<lambda>db :: database. (let db = (case verdict of None \<Rightarrow> db | Some c \<Rightarrow> db\<lparr>verdicts := add_row (verdict_row e u i c) (verdicts db)\<rparr>)
     in db\<lparr>room_requests := prune_receipts u i (add_row \<lparr>rq_user = u, rq_request = mu_request m, rq_unit = i,
       rq_revision = pg_revision p, rq_fingerprint = fp, rq_progress = p, rq_created = en_now e\<rparr> (room_requests db))\<rparr>))"
  have add: "same_data v a db \<Longrightarrow> same_data v a (add db)" for db
    unfolding add_def Let_def using assms(2)
    by (cases verdict) (auto intro!: same_data_write simp: verdict_row_def all_rows_prune)
  from assms(3) obtain t where t: "db' = add (db\<lparr>rooms := t\<rparr>)" "all_rows (\<lambda>r. rs_user r = v) t = all_rows (\<lambda>r. rs_user r = v) (rooms db)"
  proof (cases row)
    case None
    with assms show ?thesis
      by (intro that [of "add_row (room_row e u i (mu_op m) None p) (rooms db)"])
        (cases verdict; simp add: save_room_def Let_def add_def room_row_def)+
  next
    case (Some r)
    have "all_rows (\<lambda>r. rs_user r = v) (update_rows (\<lambda>x. rs_user x = u \<and> rs_unit x = i \<and> rs_revision x = mu_expected m)
        (\<lambda>x. room_row e u i (mu_op m) (Some x) p) (rooms db)) = all_rows (\<lambda>r. rs_user r = v) (rooms db)"
      by (rule all_rows_update) (use assms(2) in \<open>auto simp: room_row_def Let_def\<close>)
    with Some assms(3) show ?thesis
      by (intro that [of "update_rows (\<lambda>x. rs_user x = u \<and> rs_unit x = i \<and> rs_revision x = mu_expected m)
        (\<lambda>x. room_row e u i (mu_op m) (Some x) p) (rooms db)"])
        (cases verdict; simp add: save_room_def Let_def add_def split: if_splits)+
  qed
  with assms(1) show ?thesis by (simp add: add same_data_write)
qed

lemma same_mutate_room:
  assumes "us_id us \<noteq> v" "mutate_room e l us i ci m db = Inr (en, db')"
  shows "same_data v db db'"
  using assms(2)
proof (cases rule: mutate_room_cases)
  case (change content un solved cur p verdict db2 db3)
  have "same_data v db db2" using change(12)
    by (cases rule: apply_op_cases) (use assms(1) in \<open>auto intro: same_enqueue\<close>)
  then have "same_data v db db3" using change(14) assms(1) same_start_unit by auto
  from same_save_room [OF this assms(1) change(15)] show ?thesis .
qed simp_all

section \<open>Plans, projects, courses\<close>

lemma same_save_plan:
  assumes "us_id us \<noteq> w" "save_plan e ts us lang d db = Inr (v, db')"
  shows "same_data w db db'"
  using assms(2)
proof (cases rule: save_plan_cases)
  case (change t fp)
  have "all_rows (\<lambda>r. pl_user r = w) t = all_rows (\<lambda>r. pl_user r = w) (plans db)"
    using change(6) assms(1)
    by (cases "plan_row db (us_id us)") (auto simp: saved_plan_row_def intro!: all_rows_update)
  then show ?thesis unfolding change(5) by (intro same_data_write) simp_all
qed simp

lemma same_save_project:
  assumes "us_id us \<noteq> w" "save_project e sz c us d db = Inr (v, db')"
  shows "same_data w db db'"
  using assms(2)
proof (cases rule: save_project_cases)
  case (change t)
  have "all_rows (\<lambda>r. pr_user r = w) t = all_rows (\<lambda>r. pr_user r = w) (projects db)"
    using change(6) assms(1)
    by (cases "project_of db (us_id us) c") (auto simp: project_row_def intro!: all_rows_update)
  moreover have "all_rows (\<lambda>r. pq_user r = w) (prune_projects (us_id us) c t') = all_rows (\<lambda>r. pq_user r = w) t'" for t'
    using assms(1) by (auto simp: prune_projects_def Let_def intro!: all_rows_delete)
  ultimately show ?thesis using assms(1) unfolding change(5) by (intro same_data_write) simp_all
qed simp

lemma same_add_xp:
  assumes "same_data v a db" "u \<noteq> v" "add_xp now u s n db = Inr (x, db')"
  shows "same_data v a db'"
proof -
  define f where "f = (\<lambda>r :: xp_row. r\<lparr>xp_xp := xp_xp r + n, xp_updated := Some now\<rparr>)"
  have bump: "all_rows (\<lambda>r. xp_user r = v) (update_first (xp_of_row u s) f t) = all_rows (\<lambda>r. xp_user r = v) t" for t
    by (rule all_rows_update_first) (use assms(2) in \<open>auto simp: f_def\<close>)
  show ?thesis
    using assms by (auto simp: add_xp_def Let_def case_prod_beta f_def [symmetric] bump intro!: same_data_write split: if_splits)
qed

lemma same_pay_skills:
  "same_data v a db \<Longrightarrow> u \<noteq> v \<Longrightarrow> pay_skills now xp u rs db = Inr (x, db') \<Longrightarrow> same_data v a db'"
  by (induction rs arbitrary: db) (auto simp: result_simps intro: same_add_xp)

lemma same_complecte_lecture:
  assumes "same_data v a db" "us_id us \<noteq> v" "complecte_lecture e xp us c l db = Inr (b, db')"
  shows "same_data v a db'"
proof -
  obtain d db1 where
    1: "(if en_policy_enabled e then bind_r (lecture_lesson e db c (le_id l)) (\<lambda>lesson. start e us c lesson None False db) else Inr (None, db)) = Inr (d, db1)"
    and 2: "pay_skills (en_now e) xp (us_id us) (all_rows (\<lambda>r. sc_course r = co_id c) (skill_courses db1))
      (lecture_set_completed db1 (en_now e) (us_id us) (co_id c) (le_id l)) = Inr ((), db')"
    using assms(3) by (auto simp: complecte_lecture_def Let_def result_simps split: if_splits)
  have "same_data v a db1" using 1 assms(1,2) by (auto simp: result_simps split: if_splits intro: same_start)
  then have "same_data v a (lecture_set_completed db1 (en_now e) (us_id us) (co_id c) (le_id l))"
    using assms(2) unfolding lecture_set_completed_def by (intro same_data_write) simp_all
  from same_pay_skills [OF this assms(2) 2] show ?thesis .
qed

lemma same_complete_route:
  assumes "us_id us \<noteq> v" "complete_route e xp us c l db = Inr (b, db')"
  shows "same_data v db db'"
  using assms by (auto simp: complete_route_def result_simps intro: same_complecte_lecture [OF same_data_refl])

lemma same_watch: "same_data v a db \<Longrightarrow> u \<noteq> v \<Longrightarrow> same_data v a (last_watch_update db t u c)"
  by (auto simp: last_watch_update_def intro!: same_data_write all_rows_update split: option.splits)

lemma same_watch_course:
  assumes "us_id us \<noteq> v" "watch_course e c us db = Inr (b, db')"
  shows "same_data v db db'"
  using assms by (auto simp: watch_course_def result_simps intro: same_watch)

lemma same_bookmark_create: "same_data v a db \<Longrightarrow> u \<noteq> v \<Longrightarrow> same_data v a (committed db (bookmark_create u r s db))"
  by (auto simp: bookmark_create_def Let_def intro!: same_data_write)

lemma same_bookmark_delete:
  assumes "same_data v a db" "u \<noteq> v"
  shows "same_data v a (committed db (bookmark_delete u r s db))"
proof (cases "first_row (\<lambda>b. bm_user b = u \<and> bm_sub b = s \<and> bm_root b = r) (bookmarks db)")
  case None
  with assms show ?thesis by (simp add: bookmark_delete_def)
next
  case (Some b)
  then have "bm_user b = u" by (auto dest: first_row_SomeD)
  then have "all_rows (\<lambda>r. bm_user r = v) (remove1 b (bookmarks db)) = all_rows (\<lambda>r. bm_user r = v) (bookmarks db)"
    using assms(2) by (auto simp: all_rows_def filter_remove1)
  with Some assms show ?thesis by (auto simp: bookmark_delete_def intro!: same_data_write)
qed

lemma same_fold:
  assumes "\<And>x d. same_data v a d \<Longrightarrow> same_data v a (f x d)"
  shows "same_data v a db \<Longrightarrow> same_data v a (fold f xs db)"
  by (induction xs arbitrary: db) (auto intro: assms)

lemma same_bookmarks:
  "u \<noteq> v \<Longrightarrow> create_sub_skill_bookmark u r s db = Inr (b, db') \<Longrightarrow> same_data v db db'"
  "u \<noteq> v \<Longrightarrow> delete_sub_skill_bookmark u r s db = Inr (b, db') \<Longrightarrow> same_data v db db'"
  "u \<noteq> v \<Longrightarrow> create_bookmark u r db = Inr (b, db') \<Longrightarrow> same_data v db db'"
  "u \<noteq> v \<Longrightarrow> delete_bookmark u r db = Inr (b, db') \<Longrightarrow> same_data v db db'"
  using same_bookmark_create [of v db db u r s] same_bookmark_delete [of v db db u r s]
  by (auto simp: create_sub_skill_bookmark_def delete_sub_skill_bookmark_def create_bookmark_def delete_bookmark_def
      intro!: same_fold same_bookmark_create same_bookmark_delete split: if_splits)

section \<open>Purchases\<close>

lemma same_offer: "offer e sh u c db = Inr (a, db') \<Longrightarrow> same_data v db db'"
  by (erule offer_cases) simp_all

lemma same_accept: "accept_order e sh u c x db = Inr (r, db') \<Longrightarrow> same_data v db db'"
  by (erule accept_order_cases) simp_all

lemma same_grant_access: "same_data v a db \<Longrightarrow> u \<noteq> v \<Longrightarrow> same_data v a (grant_access u c db)"
  by (auto simp: grant_access_def course_access_create_def intro!: same_data_write)

lemma same_put_order [simp]: "same_data v a (put_order p db) = same_data v a db"
  by (simp add: put_order_def)

lemma same_deliver_commit:
  assumes "deliver_commit e sh i db = Inr (b, db')" "\<forall>p. row_by cp_id i (purchases db) = Some p \<longrightarrow> cp_user p \<noteq> v"
  shows "same_data v db db'"
  using assms(1)
proof (cases rule: deliver_commit_cases)
  case (change p p')
  then show ?thesis by auto
next
  case (access p p' w)
  with assms(2) show ?thesis by (simp add: same_grant_access)
qed simp_all

section \<open>The lesson engine\<close>

text \<open>The primary keys of submissions, XP operations and orders; an operation belongs to the account of its request.\<close>

definition keys_ok :: "database \<Rightarrow> bool" where
  "keys_ok db \<longleftrightarrow> unique_by sb_id (submissions db) \<and> unique_by xo_id (xp_operations db) \<and> unique_by cp_id (purchases db) \<and>
     list_all (\<lambda>r. xo_user r = xq_user (xo_request r)) (xp_operations db)"

lemma same_put_task: "same_data v a db \<Longrightarrow> ts_user t \<noteq> v \<Longrightarrow> same_data v a (put_task t db)"
  by (auto simp: put_task_def modify_by_def task_key_def intro!: same_data_write all_rows_update)

lemma same_put_submission:
  assumes "same_data v a db" "unique_by sb_id (submissions db)" "s \<in> set (submissions db)" "sb_user s \<noteq> v"
    "sb_user s' = sb_user s" "sb_id s' = sb_id s"
  shows "same_data v a (put_submission s' db)"
proof -
  have "r = s" if "r \<in> set (submissions db)" "sb_id r = sb_id s" for r
    using unique_by_inj [OF assms(2) that(1) assms(3) that(2)] .
  then show ?thesis using assms
    by (auto simp: put_submission_def modify_by_def intro!: same_data_write all_rows_update_in)
qed

lemma operation_owner:
  assumes "apply_xp op q env db = Inr x" "keys_ok db" "r \<in> set (xp_operations (claim_operation now op q db))" "xo_id r = op"
  shows "xo_user r = xq_user q"
proof (cases "xo_with op db")
  case None
  then have "op \<notin> xo_id ` set (xp_operations db)" by (simp add: xo_with_def row_by_None)
  with None assms(3,4) have "r = \<lparr>xo_id = op, xo_user = xq_user q, xo_request = q, xo_result = None, xo_received = now, xo_completed = None\<rparr>"
    by (auto simp: claim_operation_def add_row_def)
  then show ?thesis by (metis xp_operation.select_convs(2))
next
  case (Some r0)
  note r0 = row_by_SomeD [OF Some [unfolded xo_with_def]]
  have "r = r0" using unique_by_inj [of xo_id "xp_operations db" r r0] assms(2-4) r0 claim_other [of op db] Some
    by (simp add: keys_ok_def)
  moreover have "xo_request r0 = q"
    using assms(1) Some by (auto simp: apply_xp_def Let_def xo_with_claim split: if_splits)
  ultimately show ?thesis using assms(2) r0 by (auto simp: keys_ok_def list_all_iff)
qed

lemma same_apply_xp:
  assumes "same_data v a db" "keys_ok db" "xq_user q \<noteq> v" "apply_xp op q env db = Inr (x, db')"
  shows "same_data v a db'"
  using assms(4)
proof (cases rule: apply_xp_cases)
  case (replayed r)
  with assms show ?thesis by simp
next
  case refused
  have "all_rows (\<lambda>r. xo_user r = v) (drop_by xo_id op (xp_operations db)) = all_rows (\<lambda>r. xo_user r = v) (xp_operations db)"
    unfolding drop_by_def
  proof (rule all_rows_delete)
    fix r
    assume r: "r \<in> set (xp_operations db)" "xo_id r = op"
    then have "r \<in> set (xp_operations (claim_operation 0 op q db))" by (simp add: claim_operation_def add_row_def)
    from operation_owner [OF assms(4,2) this r(2)] assms(3) show "xo_user r \<noteq> v" by simp
  qed
  with refused(4) assms(1) show ?thesis
    by (auto simp: Let_def claim_and_drop drop_claimed intro!: same_data_write)
next
  case (applied db1)
  let ?d = "claim_operation (ae_now env) op q db"
  have "same_data v a (snd (lock_user ?d (xq_user q)))"
    using assms(1,3) by (auto simp: claim_operation_def intro!: same_data_write)
  from same_add_xp [OF this assms(3) applied(4)] have 1: "same_data v a db1" .
  have t: "xp_operations db1 = xp_operations ?d" using add_xp_InrD(3) [OF applied(4)] by simp
  have "xo_user r \<noteq> v" if "r \<in> set (xp_operations db1)" "xo_id r = op" for r
    using operation_owner [OF assms(4,2) that(1) [unfolded t] that(2)] assms(3) by simp
  then show ?thesis unfolding applied(5) modify_by_def
    by (intro same_data_write [OF 1] all_rows_update_in) auto
qed

lemma same_book:
  assumes "same_data v a db" "keys_ok db" "u \<noteq> v" "book e sid u ev db = Inr (x, db')"
  shows "same_data v a db'"
  using assms(4)
proof (cases rule: book_cases)
  case (old row)
  with assms show ?thesis by simp
next
  case (booked row rv t tm op db1 state counters completed)
  let ?s = "booked_submission (en_now e) ev t row"
  let ?t = "booked_task (en_now e) op tm (ev_verdict ev = V_passed) counters (sb_start row) state"
  have 1: "same_data v a db1" using booked(8) assms(1-3)
    by (auto simp: book_award_def split: if_splits sum.splits dest: same_apply_xp [rotated 3])
  note row = submission_of_SomeD [OF booked(1)] and task = task_of_SomeD [OF booked(10)]
  have 2: "same_data v a (put_task ?t (snd (lock_user db1 u)))"
    using 1 task assms(3) by (intro same_put_task) (auto simp: booked_task_def task_key_def Let_def)
  have 3: "same_data v a (put_submission ?s (put_task ?t (snd (lock_user db1 u))))"
    using row assms(2,3) book_award_frame [OF booked(8)]
    by (intro same_put_submission [OF 2, where s = row]) (auto simp: put_task_def keys_ok_def booked_submission_def)
  from booked(12) 3 assms(3) show ?thesis
    by (auto simp: complete_unit_def Let_def intro!: same_data_write all_rows_update split: if_splits)
qed

lemma same_settle:
  assumes "same_data v a db" "keys_ok db" "row_by sb_id (sb_id row) (submissions db) = Some s" "sb_user s = u" "u \<noteq> v"
    "same_data v a base" "settle e e' sa row u base db = (x, db')"
  shows "same_data v a db'"
proof (cases "settle_begin e row db")
  case (Inl er)
  with assms show ?thesis by (simp add: settle_def)
next
  case (Inr p)
  obtain y db1 where run: "settle_begin e row db = Inr (y, db1)" using Inr by (cases p) simp
  then show ?thesis
  proof (cases rule: settle_begin_Inr)
    case held
    with run assms show ?thesis by (simp add: settle_def)
  next
    case (claimed c c' doc job)
    have c: "c = s" using claimed(1) assms(3) by simp
    note cs = row_by_SomeD [OF assms(3)] claim_evaluation_Some [OF claimed(2)]
    have 1: "same_data v a db1" unfolding claimed(4)
      by (rule same_put_submission [OF assms(1), where s = s]) (use assms(2,4,5) cs c in \<open>auto simp: keys_ok_def\<close>)
    have k: "keys_ok db1" using assms(2) claimed(4) by (simp add: keys_ok_def put_submission_def unique_put)
    from assms(7) run claimed(3) 1 same_book [OF 1 k assms(5)] show ?thesis
      by (auto simp: settle_def settle_end_def split: option.splits sum.splits no_booking.splits)
  qed
qed

lemma same_submission_status:
  assumes "keys_ok db" "us_id us \<noteq> v" "submission_status e e' sa aid us db = (x, db')"
  shows "same_data v db db'"
proof (cases "submission_of db aid (us_id us)")
  case None
  with assms show ?thesis by (simp add: submission_status_def)
next
  case (Some row)
  note row = submission_of_SomeD [OF Some]
  have "row_by sb_id (sb_id row) (submissions db) = Some row"
    by (rule unique_by_row) (use assms(1) row in \<open>auto simp: keys_ok_def\<close>)
  with assms Some row show ?thesis
    by (auto simp: submission_status_def intro: same_settle [OF same_data_refl _ _ _ _ same_data_refl] split: if_splits)
qed

lemma same_submit:
  assumes "keys_ok db" "us_id us \<noteq> v" "submit e e' sa i g d us db = (x, db')"
  shows "same_data v db db'"
proof (cases "accept_plan e i g d us db")
  case (Inl er)
  with assms show ?thesis by (simp add: submit_def)
next
  case (Inr p)
  obtain y db1 where run: "accept_plan e i g d us db = Inr (y, db1)" using Inr by (cases p) simp
  then show ?thesis
  proof (cases rule: accept_plan_Inr)
    case (again same)
    then have "db' = snd (lock_user db (us_id us))" using run assms(3) by (auto simp: submit_def)
    then show ?thesis by simp
  next
    case (fresh db2 un state r)
    let ?row = "projr y"
    have row: "sb_user ?row = us_id us" "y = Inr ?row" unfolding fresh(6) by (simp_all add: new_submission_def)
    have new: "sb_id ?row \<notin> sb_id ` set (submissions db2)" using fresh(7) by (auto simp: submission_collides_def exists_row_iff)
    have 1: "same_data v db db1" unfolding fresh(8)
      by (intro same_data_write) (use fresh(1) row assms(2) in auto)
    have k: "keys_ok db1" using assms(1) fresh(1,8) new by (simp add: keys_ok_def unique_by_add)
    have "row_by sb_id (sb_id ?row) (submissions db1) = Some ?row"
      by (rule unique_by_row) (use k in \<open>auto simp: keys_ok_def fresh(8) add_row_def\<close>)
    note settled = same_settle [OF 1 k this row(1) assms(2) same_data_refl]
    show ?thesis using assms(3) run row(2) settled
      by (cases "settle e e' sa ?row (us_id us) db db1") (auto simp: submit_def split: sum.splits)
  qed
qed

lemma same_start_task:
  assumes "us_id us \<noteq> v" "start_task e i g d us db0 = Inr (x, db')"
  shows "same_data v db0 db'"
proof -
  obtain db and un :: unit_def and r t old s where st: "db = snd (lock_user db0 (us_id us))" "old = task_of db (us_id us) (un_id un) g"
    "with_start e r t (sq_request d) (continued_task e (us_id us) (un_id un) g r
       (case old of None \<Rightarrow> False | Some s \<Rightarrow> ts_start s \<noteq> None \<and> ts_start_request s = Some (sq_request d))
       (pending_of db (us_id us) (un_id un) g \<noteq> None) old) = Inr s"
    "\<exists>x. start_unit e us (un_id un) (sq_course d) True (save_task old (s\<lparr>ts_updated := en_now e\<rparr>) db) = Inr (x, db')"
    using assms(2) by (rule start_task_Inr) blast
  have "old = None \<or> (\<exists>s. old = Some s \<and> task_key s = (us_id us, un_id un, g))"
    unfolding st(2) by (cases "task_of db (us_id us) (un_id un) g") (auto dest: task_of_SomeD)
  from continued_task_key [OF this] have "ts_user s = us_id us"
    using st(3) by (auto simp: with_start_def public_start_def task_key_def result_simps split: if_splits option.splits)
  then have "same_data v db0 (save_task old (s\<lparr>ts_updated := en_now e\<rparr>) db)"
    using assms(1) st(1) by (auto simp: save_task_def intro!: same_put_task same_data_write split: option.splits)
  with same_start_unit assms(1) st(4) show ?thesis by blast
qed

end
