(* ===== verification/Routes.thy ===== *)
theory Routes
  imports Service Isolation Authority Batch Lessons Areas
begin

text \<open>
  The routes over the operations of the components: \<^verbatim>\<open>endpoints/rooms.py\<close>, \<^verbatim>\<open>engine.py\<close>,
  \<^verbatim>\<open>daily_limit.py\<close>, \<^verbatim>\<open>learning_plan.py\<close>, \<^verbatim>\<open>course_project.py\<close>, the guards of \<^verbatim>\<open>course.py\<close>,
  \<^verbatim>\<open>bookmarks.py\<close>, \<^verbatim>\<open>xp.py\<close>, \<^verbatim>\<open>skill.py\<close> and the internal ones. A route asks for the account of the request
  (\<open>signed_in\<close>, \<open>verified\<close>, \<open>administrator\<close>, \<open>internal_auth\<close>), then runs its handler for that account. What a learner's
  request can change follows: rows of that account only.
\<close>

text \<open>What a running service is configured with.\<close>

record host =
  ho_env :: env
  ho_next :: env
  ho_llm :: llm_env
  ho_sandbox :: sandbox
  ho_shop :: shop
  ho_tracks :: tracks
  ho_areas :: "area_def list option"
  ho_lower :: "string \<Rightarrow> string"
  ho_lecture_xp :: int
  ho_state_size :: "json \<Rightarrow> int"

section \<open>Rooms\<close>

definition rooms_enabled :: "host \<Rightarrow> unit result" where
  "rooms_enabled h = guard_r (en_rooms_enabled (ho_env h)) (Http 404 ''rooms unavailable'')"

definition route_capabilities :: "host \<Rightarrow> bool" where
  "route_capabilities h = en_rooms_enabled (ho_env h)"

definition in_rooms :: "auth_env \<Rightarrow> host \<Rightarrow> user result" where
  "in_rooms a h = bind_r (rooms_enabled h) (\<lambda>_. verified a)"

definition route_next_room :: "auth_env \<Rightarrow> host \<Rightarrow> next_request \<Rightarrow> database \<Rightarrow> rooms_view result" where
  "route_next_room a h q db = bind_r (in_rooms a h) (\<lambda>us. next_room (ho_env h) db us q)"

definition route_get_room :: "auth_env \<Rightarrow> host \<Rightarrow> string \<Rightarrow> string option \<Rightarrow> database \<Rightarrow> envelope result" where
  "route_get_room a h i ci db = bind_r (in_rooms a h) (\<lambda>us. get_room (ho_env h) db us i ci)"

definition route_save_state :: "auth_env \<Rightarrow> host \<Rightarrow> string \<Rightarrow> string option \<Rightarrow> string \<Rightarrow> int \<Rightarrow> string option \<Rightarrow> json \<Rightarrow>
    envelope handler" where
  "route_save_state a h i ci req expected review st db = bind_r (in_rooms a h) (\<lambda>us.
     mutate_room (ho_env h) (ho_llm h) us i ci \<lparr>mu_request = req, mu_expected = expected, mu_op = Save_state review st\<rparr> db)"

text \<open>A completion also names the milestone it queued, which is sent after the commit.\<close>

definition queued_milestone :: "string \<Rightarrow> database \<Rightarrow> database \<Rightarrow> (string \<times> string) option" where
  "queued_milestone u db db' = map_option milestone_key (find (\<lambda>r. ms_user r = u \<and> milestone_of db u (ms_unit r) = None) (milestones db'))"

definition route_complete :: "auth_env \<Rightarrow> host \<Rightarrow> string \<Rightarrow> string option \<Rightarrow> string \<Rightarrow> int \<Rightarrow> complete_data \<Rightarrow>
    (envelope \<times> (string \<times> string) option) handler" where
  "route_complete a h i ci req expected d db = bind_r (in_rooms a h) (\<lambda>us.
     bind_r (mutate_room (ho_env h) (ho_llm h) us i ci \<lparr>mu_request = req, mu_expected = expected, mu_op = Complete_room d\<rparr> db)
       (\<lambda>(en, db'). Inr ((en, queued_milestone (us_id us) db db'), db')))"

definition route_review :: "auth_env \<Rightarrow> host \<Rightarrow> string \<Rightarrow> string option \<Rightarrow> string \<Rightarrow> int \<Rightarrow> envelope handler" where
  "route_review a h i ci req expected db = bind_r (in_rooms a h) (\<lambda>us.
     mutate_room (ho_env h) (ho_llm h) us i ci \<lparr>mu_request = req, mu_expected = expected, mu_op = Start_review\<rparr> db)"

definition route_llm_grant :: "auth_env \<Rightarrow> host \<Rightarrow> string \<Rightarrow> string option \<Rightarrow> database \<Rightarrow> grant result" where
  "route_llm_grant a h i ci db = bind_r (in_rooms a h) (\<lambda>us. issue_llm_grant (ho_env h) (ho_llm h) db us i ci)"

section \<open>The lesson engine\<close>

definition engine_enabled :: "host \<Rightarrow> unit result" where
  "engine_enabled h = guard_r (en_engine_enabled (ho_env h)) (Http 404 ''engine unavailable'')"

definition in_engine :: "auth_env \<Rightarrow> host \<Rightarrow> bool \<Rightarrow> user result" where
  "in_engine a h path_ok = bind_r (engine_enabled h) (\<lambda>_. bind_r (verified a) (\<lambda>us.
     bind_r (guard_r path_ok (Http 422 ''invalid path'')) (\<lambda>_. Inr us)))"

definition route_publish :: "auth_env \<Rightarrow> host \<Rightarrow> revision_request \<Rightarrow> (published \<times> nat) handler" where
  "route_publish a h d db = bind_r (engine_enabled h) (\<lambda>_. bind_r (administrator a) (\<lambda>_.
     bind_r (publish (ho_env h) d db) (\<lambda>(p, db'). Inr ((p, if pu_created p then 201 else 200), db'))))"

definition route_start_task :: "auth_env \<Rightarrow> host \<Rightarrow> string \<Rightarrow> string \<Rightarrow> start_request \<Rightarrow>
    (public_start option \<times> assessment list) handler" where
  "route_start_task a h i g d db = bind_r (in_engine a h (slug i \<and> slug g)) (\<lambda>us. start_task (ho_env h) i g d us db)"

definition route_submit :: "auth_env \<Rightarrow> host \<Rightarrow> string \<Rightarrow> string \<Rightarrow> submit_request \<Rightarrow> database \<Rightarrow> (assessment \<times> nat) result \<times> database" where
  "route_submit a h i g d db = (case in_engine a h (slug i \<and> slug g) of Inl er \<Rightarrow> (Inl er, db)
     | Inr us \<Rightarrow> submit (ho_env h) (ho_next h) (ho_sandbox h) i g d us db)"

definition assessment_path :: "string \<Rightarrow> bool" where
  "assessment_path s \<longleftrightarrow> length s = 36 \<and> set s \<subseteq> set ''0123456789abcdef-''"

definition route_submission :: "auth_env \<Rightarrow> host \<Rightarrow> string \<Rightarrow> database \<Rightarrow> assessment result \<times> database" where
  "route_submission a h aid db = (case in_engine a h (assessment_path aid) of Inl er \<Rightarrow> (Inl er, db)
     | Inr us \<Rightarrow> submission_status (ho_env h) (ho_next h) (ho_sandbox h) aid us db)"

section \<open>Lessons, plan, project\<close>

definition route_daily_status :: "auth_env \<Rightarrow> host \<Rightarrow> database \<Rightarrow> daily_status result" where
  "route_daily_status a h db = bind_r (verified a) (\<lambda>us. status (ho_env h) db us None None)"

definition route_start_lesson :: "auth_env \<Rightarrow> host \<Rightarrow> string \<Rightarrow> string \<Rightarrow> string \<Rightarrow> (bool \<times> daily_status option) handler" where
  "route_start_lesson a h c l req db = bind_r (signed_in a) (\<lambda>us. bind_r (open_course (ho_env h) db us c (Lesson_scope l)) (\<lambda>co.
     bind_r (lesson_definition (ho_env h) db co l) (\<lambda>lesson.
     bind_r (start (ho_env h) us co lesson (Some req) False db) (\<lambda>(d, db'). Inr ((True, d), db')))))"

definition route_get_plan :: "auth_env \<Rightarrow> host \<Rightarrow> language \<Rightarrow> database \<Rightarrow> plan_view result" where
  "route_get_plan a h lang db = bind_r (verified a) (\<lambda>us. get_plan (ho_env h) (ho_tracks h) us lang db)"

definition route_save_plan :: "auth_env \<Rightarrow> host \<Rightarrow> language \<Rightarrow> plan_save \<Rightarrow> plan_view handler" where
  "route_save_plan a h lang d db = bind_r (verified a) (\<lambda>us. save_plan (ho_env h) (ho_tracks h) us lang d db)"

definition route_suggestions :: "auth_env \<Rightarrow> host \<Rightarrow> language \<Rightarrow> database \<Rightarrow> (suggestion \<times> ustr) list result" where
  "route_suggestions a h lang db = bind_r (verified a) (\<lambda>us. suggestions (ho_env h) (ho_tracks h) us lang db)"

definition route_get_project :: "auth_env \<Rightarrow> host \<Rightarrow> string \<Rightarrow> database \<Rightarrow> project_view result" where
  "route_get_project a h c db = bind_r (in_rooms a h) (\<lambda>us. get_project (ho_env h) c us db)"

definition route_save_project :: "auth_env \<Rightarrow> host \<Rightarrow> string \<Rightarrow> project_save \<Rightarrow> project_view handler" where
  "route_save_project a h c d db = bind_r (in_rooms a h) (\<lambda>us. save_project (ho_env h) (ho_state_size h) c us d db)"

section \<open>Courses, bookmarks, XP\<close>

definition route_watch :: "auth_env \<Rightarrow> host \<Rightarrow> string \<Rightarrow> bool handler" where
  "route_watch a h c db = bind_r (signed_in a) (\<lambda>us. watch_course (ho_env h) c us db)"

definition route_complete_lecture :: "auth_env \<Rightarrow> host \<Rightarrow> string \<Rightarrow> string \<Rightarrow> bool handler" where
  "route_complete_lecture a h c l db = bind_r (signed_in a) (\<lambda>us. Courses.complete_route (ho_env h) (ho_lecture_xp h) us c l db)"

definition route_buy :: "auth_env \<Rightarrow> host \<Rightarrow> string \<Rightarrow> acceptance \<Rightarrow> database \<Rightarrow> order_view result \<times> database" where
  "route_buy a h c d db = (case bind_r (verified a) (\<lambda>us. bind_r (get_course (ho_env h) c) (\<lambda>co. Inr (us, co))) of
     Inl er \<Rightarrow> (Inl er, db) | Inr (us, co) \<Rightarrow> buy (ho_env h) (ho_shop h) (us_id us) co d db)"

definition route_offer :: "auth_env \<Rightarrow> host \<Rightarrow> string \<Rightarrow> offer_answer handler" where
  "route_offer a h c db = bind_r (verified a) (\<lambda>us. bind_r (get_course (ho_env h) c) (\<lambda>co.
     offer (ho_env h) (ho_shop h) (us_id us) co db))"

definition for_learner :: "auth_env \<Rightarrow> (string \<Rightarrow> 'a handler) \<Rightarrow> 'a handler" where
  "for_learner a f db = bind_r (verified a) (\<lambda>us. f (us_id us) db)"

definition route_get_xp :: "auth_env \<Rightarrow> host \<Rightarrow> string \<Rightarrow> database \<Rightarrow> xp_response result" where
  "route_get_xp a h uid db = bind_r (verified a) (\<lambda>us. bind_r (privileged_user (ho_lower h) None uid us) (\<lambda>u. get_xp db u))"

definition route_update_xp :: "auth_env \<Rightarrow> host \<Rightarrow> string \<Rightarrow> string \<Rightarrow> string \<Rightarrow> int option \<Rightarrow> sub_skill_xp handler" where
  "route_update_xp a h uid r s n db = bind_r (administrator a) (\<lambda>us.
     bind_r (named_user (ho_lower h) None uid (Some us)) (\<lambda>u. update_xp n r s u db))"

definition route_track :: "auth_env \<Rightarrow> host \<Rightarrow> string \<Rightarrow> language \<Rightarrow> database \<Rightarrow>
    (item_view track_view + (item_view \<times> item_status) track_view) result" where
  "route_track a h i lang db = bind_r (public_auth a) (\<lambda>us. get_track (ho_env h) (ho_tracks h) us i lang db)"

definition route_area_tree :: "auth_env \<Rightarrow> host \<Rightarrow> string \<Rightarrow> database \<Rightarrow> (int \<times> int \<times> root_view list) result" where
  "route_area_tree a h i db = bind_r (public_auth a) (\<lambda>us. get_skilltree (ho_areas h) i us db)"

text \<open>The changes of the skill tree.\<close>

definition route_tree_change :: "auth_env \<Rightarrow> tree_request \<Rightarrow> database \<Rightarrow> database" where
  "route_tree_change a q db = (case administrator a of Inl er \<Rightarrow> db | Inr us \<Rightarrow> tree_step q db)"

section \<open>Internal routes\<close>

definition for_service :: "auth_env \<Rightarrow> 'a handler \<Rightarrow> 'a handler" where
  "for_service a f db = bind_r (internal_auth a) (\<lambda>_. f db)"

definition route_configuration :: "auth_env \<Rightarrow> host \<Rightarrow> database \<Rightarrow> ((limit_mode \<times> int) \<times> issue list) result" where
  "route_configuration a h db = bind_r (internal_auth a) (\<lambda>_. bind_r (activation_issues (ho_env h) db) (\<lambda>iss. Inr (configuration db, iss)))"

definition route_configure :: "auth_env \<Rightarrow> host \<Rightarrow> limit_configuration \<Rightarrow> limit_configuration handler" where
  "route_configure a h d = for_service a (configure (ho_env h) d)"

definition route_check :: "auth_env \<Rightarrow> host \<Rightarrow> string \<Rightarrow> challenge_request \<Rightarrow> admission handler" where
  "route_check a h u d = for_service a (challenge_admission (ho_env h) u d False False)"

definition route_check_batch :: "auth_env \<Rightarrow> host \<Rightarrow> string \<Rightarrow> challenge_request list \<Rightarrow> database \<Rightarrow> bool list result" where
  "route_check_batch a h u ds db = bind_r (internal_auth a) (\<lambda>_. fst (check_batch (ho_env h) u ds db empty_context))"

definition route_start :: "auth_env \<Rightarrow> host \<Rightarrow> string \<Rightarrow> challenge_request \<Rightarrow> admission handler" where
  "route_start a h u d = for_service a (challenge_admission (ho_env h) u d True False)"

definition route_backfill :: "auth_env \<Rightarrow> host \<Rightarrow> string \<Rightarrow> nat handler" where
  "route_backfill a h u = for_service a (backfill_user (ho_env h) u)"

definition route_export :: "auth_env \<Rightarrow> string \<Rightarrow> database \<Rightarrow> user_data_export result" where
  "route_export a u db = bind_r (internal_auth a) (\<lambda>_. Inr (export_user_data u db))"

definition route_delete :: "auth_env \<Rightarrow> host \<Rightarrow> string \<Rightarrow> unit handler" where
  "route_delete a h u = for_service a (delete_user_data (ho_env h) u)"

definition route_rights :: "auth_env \<Rightarrow> host \<Rightarrow> claims_env \<Rightarrow> string \<Rightarrow> string \<Rightarrow> json \<Rightarrow> right_answer handler" where
  "route_rights a h ce u op body = for_service a (course_rights (ho_env h) ce u op body)"

definition route_award :: "auth_env \<Rightarrow> host \<Rightarrow> string \<Rightarrow> xp_request \<Rightarrow> xp_receipt handler" where
  "route_award a h op q = for_service a (apply_xp op q
     \<lparr>ae_now = en_now (ho_env h), ae_status = en_user_status (ho_env h) (xq_user q)\<rparr>)"

definition route_progress :: "auth_env \<Rightarrow> host \<Rightarrow> string \<Rightarrow> string \<Rightarrow> int \<Rightarrow> bool handler" where
  "route_progress a h u s xp = for_service a (add_skill_progress (en_now (ho_env h)) u s xp)"

section \<open>What a learner's request changes\<close>

datatype learner_request =
    Start_lesson_of string string string
  | Save_room string "string option" string int "string option" json
  | Complete_unit string "string option" string int complete_data
  | Review_unit string "string option" string int
  | Start_engine_task string string start_request
  | Submit_engine_plan string string submit_request
  | Read_engine_submission string
  | Put_plan language plan_save
  | Put_project string project_save
  | Watch string
  | Complete_lecture string string
  | Ask_offer string
  | Buy string acceptance
  | Add_bookmarks string
  | Drop_bookmarks string
  | Add_bookmark string string
  | Drop_bookmark string string

fun serve :: "auth_env \<Rightarrow> host \<Rightarrow> learner_request \<Rightarrow> database \<Rightarrow> database" where
  "serve a h (Start_lesson_of c l req) db = committed db (route_start_lesson a h c l req db)"
| "serve a h (Save_room i ci req n review st) db = committed db (route_save_state a h i ci req n review st db)"
| "serve a h (Complete_unit i ci req n d) db = committed db (route_complete a h i ci req n d db)"
| "serve a h (Review_unit i ci req n) db = committed db (route_review a h i ci req n db)"
| "serve a h (Start_engine_task i g d) db = committed db (route_start_task a h i g d db)"
| "serve a h (Submit_engine_plan i g d) db = snd (route_submit a h i g d db)"
| "serve a h (Read_engine_submission aid) db = snd (route_submission a h aid db)"
| "serve a h (Put_plan lang d) db = committed db (route_save_plan a h lang d db)"
| "serve a h (Put_project c d) db = committed db (route_save_project a h c d db)"
| "serve a h (Watch c) db = committed db (route_watch a h c db)"
| "serve a h (Complete_lecture c l) db = committed db (route_complete_lecture a h c l db)"
| "serve a h (Ask_offer c) db = committed db (route_offer a h c db)"
| "serve a h (Buy c d) db = snd (route_buy a h c d db)"
| "serve a h (Add_bookmarks r) db = committed db (for_learner a (\<lambda>u. create_bookmark u r) db)"
| "serve a h (Drop_bookmarks r) db = committed db (for_learner a (\<lambda>u. delete_bookmark u r) db)"
| "serve a h (Add_bookmark r s) db = committed db (for_learner a (\<lambda>u. create_sub_skill_bookmark u r s) db)"
| "serve a h (Drop_bookmark r s) db = committed db (for_learner a (\<lambda>u. delete_sub_skill_bookmark u r s) db)"

lemma same_committed: "(\<And>x db'. r = Inr (x, db') \<Longrightarrow> same_data v db db') \<Longrightarrow> same_data v db (committed db r)"
  by (cases r) auto

lemma same_deliver_order:
  assumes "deliver_order e sh i db = (r, db')" "\<forall>p. row_by cp_id i (purchases db) = Some p \<longrightarrow> cp_user p \<noteq> v"
  shows "same_data v db db'"
proof (cases "deliver_commit e sh i db")
  case (Inl er)
  with assms(1) show ?thesis by (simp add: deliver_order_def)
next
  case (Inr q)
  obtain b db1 where run: "deliver_commit e sh i db = Inr (b, db1)" using Inr by (cases q) simp
  note s = same_deliver_commit [OF run assms(2)]
  have "same_data v db1 db2" if "report_order sh i db1 = Inr (x, db2)" for x db2
    using that by (cases rule: report_order_cases) simp_all
  then have "same_data v db db2" if "report_order sh i db1 = Inr (x, db2)" for x db2
    using that s by (auto simp: same_data_def)
  with assms(1) run s show ?thesis by (auto simp: deliver_order_def split: if_splits sum.splits)
qed

lemma accept_owner:
  assumes "accept_order e sh u c d db = Inr (Order i, db1)" "unique_by cp_id (purchases db)"
    "row_by cp_id i (purchases db1) = Some q"
  shows "cp_user q = u"
proof -
  obtain p where p: "first_row (\<lambda>p. cp_id p = ac_order d \<and> cp_user p = u \<and> cp_course p = co_id c) (purchases db) = Some p"
    using assms(1) by (auto simp: accept_order_def Let_def case_prod_beta split: option.splits)
  note pd = first_row_SomeD [OF p]
  have i: "i = cp_id p"
    and t: "purchases db1 = purchases db \<or> purchases db1 = modify_by cp_id (cp_id p) (accept_row u (co_id c) d) (purchases db)"
    using assms(1) p by (auto simp: accept_order_def Let_def case_prod_beta result_simps split: if_splits option.splits)
  have row: "row_by cp_id i (purchases db) = Some p" using unique_by_row [OF assms(2), of p] pd i by simp
  from t show ?thesis
  proof
    assume "purchases db1 = purchases db"
    with row assms(3) pd show ?thesis by simp
  next
    assume m: "purchases db1 = modify_by cp_id (cp_id p) (accept_row u (co_id c) d) (purchases db)"
    have "q \<in> set (purchases db1)" "cp_id q = i" using row_by_SomeD [OF assms(3)] by auto
    then obtain x where "x \<in> set (purchases db)" "cp_id x = i" "cp_user q = cp_user x"
      unfolding m by (auto simp: modify_by_def update_rows_def accept_row_def split: if_splits)
    with unique_by_inj [OF assms(2), of x p] pd i show ?thesis by simp
  qed
qed

lemma same_buy:
  assumes "buy e sh u c d db = (r, db')" "u \<noteq> v" "unique_by cp_id (purchases db)"
  shows "same_data v db db'"
proof (cases "accept_order e sh u c d db")
  case (Inl er)
  with assms show ?thesis by (simp add: buy_def)
next
  case (Inr q)
  obtain o1 db1 where run: "accept_order e sh u c d db = Inr (o1, db1)" using Inr by (cases q) simp
  note s = same_accept [OF run, of v]
  show ?thesis
  proof (cases o1)
    case (Existing w)
    with assms(1) run s show ?thesis by (simp add: buy_def)
  next
    case (Order i)
    have "cp_user p \<noteq> v" if "row_by cp_id i (purchases db1) = Some p" for p
      using accept_owner [OF run [unfolded Order] assms(3) that] assms(2) by simp
    then show ?thesis using assms(1) run Order s same_deliver_order [of e sh i db1] same_data_trans [OF s]
      by (cases "deliver_order e sh i db1") (auto simp: buy_def split: sum.splits option.splits)
  qed
qed

lemma same_start_lesson:
  assumes "us_id us \<noteq> v" "start e us c l (Some req) False db = Inr (d, db')"
  shows "same_data v db db'"
  using same_start [OF same_data_refl assms] .

text \<open>A request of a caller who is not \<open>v\<close>.\<close>

definition not_caller :: "auth_env \<Rightarrow> string \<Rightarrow> bool" where
  "not_caller a v \<longleftrightarrow> (case signed_in a of Inl er \<Rightarrow> True | Inr us \<Rightarrow> us_id us \<noteq> v)"

lemma not_caller_verified: "not_caller a v \<Longrightarrow> verified a = Inr us \<Longrightarrow> us_id us \<noteq> v"
  by (auto simp: not_caller_def verified_current)

lemma in_rooms_verified: "in_rooms a h = Inr us \<Longrightarrow> verified a = Inr us"
  by (auto simp: in_rooms_def result_simps)

lemma in_engine_verified: "in_engine a h ok = Inr us \<Longrightarrow> verified a = Inr us"
  by (auto simp: in_engine_def result_simps split: if_splits)

lemma serve_rooms:
  assumes "not_caller a v"
  shows "same_data v db (serve a h (Save_room i ci req n review st) db)" "same_data v db (serve a h (Complete_unit i ci req n d) db)"
    "same_data v db (serve a h (Review_unit i ci req n) db)"
  by (auto simp: route_save_state_def route_complete_def route_review_def result_simps intro!: same_committed intro: same_mutate_room
      dest!: in_rooms_verified not_caller_verified [OF assms])

lemma serve_engine:
  assumes "not_caller a v" "keys_ok db"
  shows "same_data v db (serve a h (Start_engine_task i g q) db)" "same_data v db (serve a h (Submit_engine_plan i g d) db)"
    "same_data v db (serve a h (Read_engine_submission aid) db)"
proof -
  show "same_data v db (serve a h (Start_engine_task i g q) db)"
    by (auto simp: route_start_task_def result_simps intro!: same_committed intro: same_start_task
      dest!: in_engine_verified not_caller_verified [OF assms(1)])
  show "same_data v db (serve a h (Submit_engine_plan i g d) db)"
  proof (cases "in_engine a h (slug i \<and> slug g)")
    case (Inr us)
    with not_caller_verified [OF assms(1) in_engine_verified [OF Inr]] show ?thesis
      by (cases "submit (ho_env h) (ho_next h) (ho_sandbox h) i g d us db") (auto simp: route_submit_def intro: same_submit [OF assms(2)])
  qed (simp add: route_submit_def)
  show "same_data v db (serve a h (Read_engine_submission aid) db)"
  proof (cases "in_engine a h (assessment_path aid)")
    case (Inr us)
    with not_caller_verified [OF assms(1) in_engine_verified [OF Inr]] show ?thesis
      by (cases "submission_status (ho_env h) (ho_next h) (ho_sandbox h) aid us db")
        (auto simp: route_submission_def intro: same_submission_status [OF assms(2)])
  qed (simp add: route_submission_def)
qed

lemma not_caller_signed: "not_caller a v \<Longrightarrow> signed_in a = Inr us \<Longrightarrow> us_id us \<noteq> v"
  by (simp add: not_caller_def)

lemma serve_courses:
  assumes "not_caller a v" "keys_ok db"
  shows "same_data v db (serve a h (Start_lesson_of c l req) db)" "same_data v db (serve a h (Watch c) db)"
    "same_data v db (serve a h (Complete_lecture c l) db)" "same_data v db (serve a h (Ask_offer c) db)"
    "same_data v db (serve a h (Buy c d) db)"
proof -
  show "same_data v db (serve a h (Buy c d) db)"
  proof (cases "bind_r (verified a) (\<lambda>us. bind_r (get_course (ho_env h) c) (\<lambda>co. Inr (us, co)))")
    case (Inr p)
    obtain us co where p: "p = (us, co)" by (cases p)
    with Inr have "us_id us \<noteq> v" using not_caller_verified [OF assms(1)] by (auto simp: result_simps)
    with Inr p assms(2) show ?thesis
      by (cases "buy (ho_env h) (ho_shop h) (us_id us) co d db") (auto simp: route_buy_def keys_ok_def intro: same_buy)
  qed (simp add: route_buy_def)
qed (auto simp: route_start_lesson_def route_watch_def route_complete_lecture_def route_offer_def result_simps
      intro!: same_committed intro: same_start_lesson same_watch_course same_complete_route same_offer
      dest!: not_caller_signed [OF assms(1)] not_caller_verified [OF assms(1)])

lemma serve_own:
  assumes "not_caller a v"
  shows "same_data v db (serve a h (Put_plan lang p) db)" "same_data v db (serve a h (Put_project c s) db)"
    "same_data v db (serve a h (Add_bookmarks r) db)" "same_data v db (serve a h (Drop_bookmarks r) db)"
    "same_data v db (serve a h (Add_bookmark r k) db)" "same_data v db (serve a h (Drop_bookmark r k) db)"
  by (auto simp: route_save_plan_def route_save_project_def for_learner_def result_simps
      intro!: same_committed intro: same_save_plan same_save_project same_bookmarks
      dest!: in_rooms_verified not_caller_verified [OF assms])

lemma serve_refused:
  assumes "verified a = Inl er"
  shows "serve a h r db = db"
proof -
  have open_refused: "signed_in a = Inr us \<Longrightarrow> open_course e db us c sc = Inl er" for us e c sc
    using assms by (cases "require_verified_email us") (auto simp: verified_def open_course_def)
  have course: "bind_r (signed_in a) (\<lambda>us. bind_r (open_course e db us c sc) (f us)) = Inl er" for e c sc and f :: "user \<Rightarrow> course \<Rightarrow> ('b \<times> database) result"
    using assms open_refused by (cases "signed_in a") (auto simp: verified_def)
  obtain er' where rooms: "in_rooms a h = Inl er'"
    using assms by (cases "rooms_enabled h") (simp_all add: in_rooms_def)
  have engine: "\<exists>er. in_engine a h ok = Inl er" for ok
    using assms by (cases "engine_enabled h") (simp_all add: in_engine_def)
  show ?thesis
  proof (cases r)
    case (Submit_engine_plan i g d)
    then show ?thesis using engine [of "slug i \<and> slug g"] by (auto simp: route_submit_def)
  next
    case (Read_engine_submission aid)
    then show ?thesis using engine [of "assessment_path aid"] by (auto simp: route_submission_def)
  next
    case (Start_engine_task i g d)
    then show ?thesis using engine [of "slug i \<and> slug g"] by (auto simp: route_start_task_def)
  next
    case (Complete_lecture c l)
    then show ?thesis by (simp add: route_complete_lecture_def Courses.complete_route_def course)
  qed (simp_all add: assms route_start_lesson_def route_watch_def watch_course_def course route_offer_def route_buy_def for_learner_def
      route_save_state_def route_complete_def route_review_def route_save_project_def rooms route_save_plan_def)
qed

text \<open>
  C4: nobody but the account itself. Whatever a caller sends - starts, room changes, tasks and submissions, plans,
  projects, completed lectures, purchases, bookmarks - the learning data of every account the request does not come from
  stays as it was; and a request without a current, verified account changes nothing at all.
\<close>

theorem request_changes_own_data:
  assumes "keys_ok db" "not_caller a v"
  shows "same_data v db (serve a h r db) \<and> (case verified a of Inl er \<Rightarrow> serve a h r db = db | Inr us \<Rightarrow> us_id us \<noteq> v)"
proof -
  have "same_data v db (serve a h r db)"
    by (cases r) (auto intro: serve_rooms [OF assms(2)] serve_engine [OF assms(2,1)] serve_courses [OF assms(2,1)] serve_own [OF assms(2)]
      simp del: serve.simps)
  moreover have "case verified a of Inl er \<Rightarrow> serve a h r db = db | Inr us \<Rightarrow> us_id us \<noteq> v"
    using serve_refused not_caller_verified [OF assms(2)] by (auto split: sum.split)
  ultimately show ?thesis by simp
qed

text \<open>A learner bookmarks a skill; another one, who did so before, keeps the bookmark and nothing else.\<close>

definition example_host :: host where
  "example_host = \<lparr>ho_env = example_env, ho_next = example_env, ho_llm = example_llm, ho_sandbox = dead_sandbox, ho_shop = paying_shop,
     ho_tracks = [], ho_areas = None, ho_lower = (\<lambda>s. s), ho_lecture_xp = 10, ho_state_size = (\<lambda>v. 0)\<rparr>"

definition shared_db :: database where
  "shared_db = learning_db\<lparr>bookmarks := [\<lparr>bm_user = ''v'', bm_root = ''py'', bm_sub = ''loops''\<rparr>]\<rparr>"

lemma request_changes_own_data_witness:
  "same_data ''v'' shared_db (serve stale_admin example_host (Add_bookmark ''py'' ''loops'') shared_db) \<and>
    map bm_user (bookmarks (serve stale_admin example_host (Add_bookmark ''py'' ''loops'') shared_db)) = [''v'', ''u'']"
proof -
  have "keys_ok shared_db" "not_caller stale_admin ''v''" by code_simp+
  note own = request_changes_own_data [OF this, of example_host "Add_bookmark ''py'' ''loops''"]
  have "map bm_user (bookmarks (serve stale_admin example_host (Add_bookmark ''py'' ''loops'') shared_db)) = [''v'', ''u'']"
    by code_simp
  with own show ?thesis by blast
qed

text \<open>The privileged routes: without the role, or the service's own token, nothing is changed and nothing answered.\<close>

lemma administration_refused:
  assumes "administrator a = Inl er"
  shows "route_tree_change a q db = db" "committed db (route_publish a h d db) = db" "committed db (route_update_xp a h uid r s n db) = db"
  using assms by (cases "engine_enabled h"; simp add: route_tree_change_def route_publish_def route_update_xp_def)+

lemma services_refused:
  assumes "internal_auth a = Inl er"
  shows "for_service a f db = Inl er" "route_export a u db = Inl er" "route_check_batch a h u ds db = Inl er"
    "route_configuration a h db = Inl er"
  using assms by (simp_all add: for_service_def route_export_def route_check_batch_def route_configuration_def)

text \<open>The counters of an account are shown to itself and to administrators.\<close>

lemma xp_shown_to:
  assumes "route_get_xp a h uid db = Inr x"
  shows "\<exists>us u. signed_in a = Inr us \<and> (u = us_id us \<or> us_admin us) \<and> get_xp db u = Inr x"
  using assms by (auto simp: route_get_xp_def privileged_user_def self_or_admin_def named_user_def verified_current result_simps Let_def
      split: if_splits)

end
