(* ===== verification/Sync.thy ===== *)
theory Sync
  imports Skilltree "HOL-Library.AList"
begin

text \<open>
  The maintenance script \<^verbatim>\<open>scripts/sync_skills.py\<close>: it reads the descriptions of the skill tree, checks them and
  brings the tree of a running service in line with them, one request at a time. Every request is committed on its
  own, so a refusal leaves the requests before it in place: a script is a function from the database to its result and
  the database it leaves.

  The order in which Python visits a set is arbitrary. It is a parameter \<open>visit\<close> of the model that rearranges the
  members. YAML and file reading are not part of the model: the script gets the parsed files.
\<close>

section \<open>Descriptions\<close>

record sub_description =
  dsub_name :: string
  dsub_deps :: "string list"
  dsub_courses :: "string list"

record root_description =
  droot_name :: string
  droot_deps :: "string list"
  droot_skills :: "(string \<times> sub_description) list"

type_synonym descriptions = "(string \<times> root_description) list"

definition id_char :: "char \<Rightarrow> bool" where
  "id_char c \<longleftrightarrow> CHR ''a'' \<le> c \<and> c \<le> CHR ''z'' \<or> CHR ''0'' \<le> c \<and> c \<le> CHR ''9'' \<or> c = CHR ''_''"

definition valid_id :: "string \<Rightarrow> bool" where
  "valid_id s \<longleftrightarrow> s \<noteq> [] \<and> list_all id_char s"

definition valid_course_id :: "string \<Rightarrow> bool" where
  "valid_course_id s = (case s of [] \<Rightarrow> False
     | c # cs \<Rightarrow> id_char c \<and> c \<noteq> CHR ''_'' \<and> list_all (\<lambda>c. id_char c \<or> c = CHR ''-'') cs)"

definition valid_sub_description :: "sub_description \<Rightarrow> bool" where
  "valid_sub_description d \<longleftrightarrow> list_all valid_id (dsub_deps d) \<and> list_all valid_course_id (dsub_courses d)"

definition valid_root_description :: "root_description \<Rightarrow> bool" where
  "valid_root_description d \<longleftrightarrow> list_all valid_id (droot_deps d) \<and>
     list_all (\<lambda>(i, s). valid_id i \<and> valid_sub_description s) (droot_skills d)"

definition without_suffix :: "string \<Rightarrow> string \<Rightarrow> string" where
  "without_suffix suf s = (let n = length s - length suf in
     if length suf \<le> length s \<and> drop n s = suf then take n s else s)"

text \<open>The files by name, in the order of the directory; each holds one root skill.\<close>

fun load_skills :: "(string \<times> root_description) list \<Rightarrow> descriptions \<Rightarrow> descriptions result" where
  "load_skills [] loaded = Inr loaded"
| "load_skills ((file, d) # files) loaded =
     (if \<not> valid_root_description d then Inl (Crash ''ValidationError'')
      else load_skills files (AList.update (without_suffix ''.yml'' file) d loaded))"

section \<open>Checks\<close>

fun check_sub_definitions :: "string list \<Rightarrow> string set \<Rightarrow> string set result" where
  "check_sub_definitions [] seen = Inr seen"
| "check_sub_definitions (i # is) seen =
     (if i \<in> seen then Inl (Crash ''sub skill defined multiple times'') else check_sub_definitions is (insert i seen))"

fun check_definitions :: "descriptions \<Rightarrow> string set \<Rightarrow> string set \<Rightarrow> unit result" where
  "check_definitions [] roots subs = Inr ()"
| "check_definitions ((i, d) # ds) roots subs =
     (if i \<in> roots then Inl (Crash ''root skill defined multiple times'')
      else bind_r (check_sub_definitions (map fst (droot_skills d)) subs) (\<lambda>subs. check_definitions ds (insert i roots) subs))"

definition known :: "err \<Rightarrow> string list \<Rightarrow> string list \<Rightarrow> unit result" where
  "known er names xs = guard_r (list_all (\<lambda>x. x \<in> set names) xs) er"

definition check_dependencies :: "descriptions \<Rightarrow> unit result" where
  "check_dependencies ds = bind_r (map_r (\<lambda>(i, d).
     bind_r (known (Crash ''root dependency not defined'') (map fst ds) (droot_deps d)) (\<lambda>_.
     map_r (\<lambda>(j, s). known (Crash ''sub dependency not defined'') (map fst (droot_skills d)) (dsub_deps s)) (droot_skills d))) ds)
     (\<lambda>_. Inr ())"

definition check_courses :: "env \<Rightarrow> descriptions \<Rightarrow> unit result" where
  "check_courses e ds = bind_r (map_r (\<lambda>(i, d).
     map_r (\<lambda>(j, s). known (Crash ''course not defined'') (map co_id (en_courses e)) (dsub_courses s)) (droot_skills d)) ds)
     (\<lambda>_. Inr ())"

section \<open>Positions\<close>

definition hex_digit_value :: "char \<Rightarrow> nat" where
  "hex_digit_value c = (let n = of_char c :: nat in if n < 58 then n - 48 else n - 87)"

definition hex_number :: "string \<Rightarrow> nat" where
  "hex_number s = foldl (\<lambda>n c. 16 * n + hex_digit_value c) 0 s"

definition get_position :: "env \<Rightarrow> string \<Rightarrow> int \<times> int" where
  "get_position e name = (let part = (\<lambda>p. int (hex_number (en_sha256 e (map of_char (p @ name))) mod 20))
     in (part ''row:'', part ''col:''))"

section \<open>The order of creation\<close>

text \<open>
  \<^verbatim>\<open>TopologicalSorter.static_order\<close>: batch by batch, the nodes all of whose predecessors are done; a graph with a cycle
  is refused before anything is yielded.
\<close>

lemma filter_rest: "filter P xs \<noteq> [] \<Longrightarrow> length (filter (\<lambda>x. \<not> P x) xs) < length xs"
  using sum_length_filter_compl [of P xs] by (cases "filter P xs") auto

function topo_batches ::
  "(string list \<Rightarrow> string list) \<Rightarrow> string set \<Rightarrow> (string \<times> string list) list \<Rightarrow> string list result" where
  "topo_batches visit finished rest =
     (if rest = [] then Inr []
      else let ready = filter (\<lambda>p. set (snd p) \<subseteq> finished) rest in
        if ready = [] then Inl (Crash ''CycleError'')
        else bind_r (topo_batches visit (finished \<union> fst ` set ready) (filter (\<lambda>p. \<not> set (snd p) \<subseteq> finished) rest))
          (\<lambda>order. Inr (visit (map fst ready) @ order)))"
  by pat_completeness auto

termination
  by (relation "measure (\<lambda>(visit, finished, rest). length rest)") (auto intro!: filter_rest)

declare topo_batches.simps [simp del]

definition static_order :: "(string list \<Rightarrow> string list) \<Rightarrow> (string \<times> string list) list \<Rightarrow> string list result" where
  "static_order visit graph = topo_batches visit {} graph"

section \<open>Requests of a script\<close>

type_synonym 'a script = "database \<Rightarrow> 'a result \<times> database"

definition bind_s :: "'a script \<Rightarrow> ('a \<Rightarrow> 'b script) \<Rightarrow> 'b script" where
  "bind_s m f db = (case m db of (Inl er, db) \<Rightarrow> (Inl er, db) | (Inr a, db) \<Rightarrow> f a db)"

definition lift_s :: "'a result \<Rightarrow> 'a script" where
  "lift_s r db = (r, db)"

definition ask_s :: "'a handler \<Rightarrow> 'a script" where
  "ask_s h db = (case h db of Inl er \<Rightarrow> (Inl er, db) | Inr (a, db') \<Rightarrow> (Inr a, db'))"

text \<open>A request with a body: the service refuses a body outside its schema; in a dry run nothing is sent.\<close>

definition send :: "bool \<Rightarrow> bool \<Rightarrow> 'a handler \<Rightarrow> unit script" where
  "send dry valid h = (if dry then lift_s (Inr ()) else if \<not> valid then lift_s (Inl (Http 422 ''invalid''))
     else bind_s (ask_s h) (\<lambda>_. lift_s (Inr ())))"

fun for_each :: "('a \<Rightarrow> unit script) \<Rightarrow> 'a list \<Rightarrow> unit script" where
  "for_each f [] = lift_s (Inr ())"
| "for_each f (x # xs) = bind_s (f x) (\<lambda>_. for_each f xs)"


section \<open>The script\<close>

record sync_options =
  so_list :: bool
  so_dry :: bool
  so_positions :: bool
  so_host :: string
  so_token :: string

definition described :: "(string \<times> 'a) list \<Rightarrow> string \<Rightarrow> 'a result" where
  "described ds i = (case map_of ds i of None \<Rightarrow> Inl (Crash ''KeyError'') | Some d \<Rightarrow> Inr d)"

text \<open>Nothing is sent for a value that is as described.\<close>

definition differs :: "bool \<Rightarrow> 'a \<Rightarrow> 'a option" where
  "differs b x = (if b then Some x else None)"

definition root_body :: "env \<Rightarrow> string \<Rightarrow> root_description \<Rightarrow> create_root" where
  "root_body e i d = \<lparr>cr_id = i, cr_name = droot_name d, cr_deps = droot_deps d, cr_row = fst (get_position e i),
     cr_column = snd (get_position e i), cr_sub_rows = 20, cr_sub_columns = 20, cr_icon = None\<rparr>"

definition add_root :: "sync_options \<Rightarrow> env \<Rightarrow> descriptions \<Rightarrow> string \<Rightarrow> unit script" where
  "add_root opt e ds i = bind_s (lift_s (described ds i)) (\<lambda>d.
     send (so_dry opt) (valid_create_root (root_body e i d)) (create_root_skill (root_body e i d)))"

definition root_diff :: "sync_options \<Rightarrow> env \<Rightarrow> string \<Rightarrow> root_description \<Rightarrow> root_view \<Rightarrow> update_root" where
  "root_diff opt e i d v = (let moved = so_positions opt \<and> get_position e i \<noteq> (rk_row (rt_skill v), rk_column (rt_skill v)) in
     \<lparr>ur_name = differs (droot_name d \<noteq> rk_name (rt_skill v)) (droot_name d),
       ur_deps = differs (set (droot_deps d) \<noteq> set (rt_dependencies v)) (droot_deps d),
       ur_row = differs moved (fst (get_position e i)), ur_column = differs moved (snd (get_position e i)),
       ur_sub_rows = None, ur_sub_columns = None, ur_icon = None\<rparr>)"

definition no_root_diff :: "update_root \<Rightarrow> bool" where
  "no_root_diff u \<longleftrightarrow> ur_name u = None \<and> ur_deps u = None \<and> ur_row u = None"

definition sync_root :: "sync_options \<Rightarrow> env \<Rightarrow> descriptions \<Rightarrow> (string \<Rightarrow> root_view option) \<Rightarrow> string \<Rightarrow> unit script" where
  "sync_root opt e ds remote i = bind_s (lift_s (described ds i)) (\<lambda>d. case remote i of
       None \<Rightarrow> lift_s (Inl (Crash ''KeyError''))
     | Some v \<Rightarrow> let diff = root_diff opt e i d v in
         if no_root_diff diff then lift_s (Inr ())
         else send (so_dry opt) (valid_update_root diff) (update_root_skill i diff))"

definition sub_position :: "env \<Rightarrow> string \<Rightarrow> string \<Rightarrow> int \<times> int" where
  "sub_position e i j = get_position e (i @ ''/'' @ j)"

definition sub_body :: "env \<Rightarrow> string \<Rightarrow> string \<Rightarrow> sub_description \<Rightarrow> create_sub" where
  "sub_body e i j s = \<lparr>cs_id = j, cs_name = dsub_name s, cs_deps = dsub_deps s, cs_courses = dsub_courses s,
     cs_row = fst (sub_position e i j), cs_column = snd (sub_position e i j), cs_icon = None\<rparr>"

definition add_sub :: "sync_options \<Rightarrow> env \<Rightarrow> string \<Rightarrow> (string \<times> sub_description) list \<Rightarrow> string \<Rightarrow> unit script" where
  "add_sub opt e i ss j = bind_s (lift_s (described ss j)) (\<lambda>s.
     send (so_dry opt) (valid_create_sub (sub_body e i j s)) (create_sub_skill e i (sub_body e i j s)))"

definition sub_diff :: "sync_options \<Rightarrow> env \<Rightarrow> string \<Rightarrow> string \<Rightarrow> sub_description \<Rightarrow> sub_view \<Rightarrow> update_sub" where
  "sub_diff opt e i j s v = (let moved = so_positions opt \<and> sub_position e i j \<noteq> (sk_row (sv_skill v), sk_column (sv_skill v)) in
     \<lparr>us_name = differs (dsub_name s \<noteq> sk_name (sv_skill v)) (dsub_name s),
       us_deps = differs (set (dsub_deps s) \<noteq> set (sv_dependencies v)) (dsub_deps s),
       us_courses = differs (set (dsub_courses s) \<noteq> set (sv_courses v)) (dsub_courses s),
       us_row = differs moved (fst (sub_position e i j)), us_column = differs moved (snd (sub_position e i j)),
       us_icon = None\<rparr>)"

definition no_sub_diff :: "update_sub \<Rightarrow> bool" where
  "no_sub_diff u \<longleftrightarrow> us_name u = None \<and> us_deps u = None \<and> us_courses u = None \<and> us_row u = None"

definition sync_sub :: "sync_options \<Rightarrow> env \<Rightarrow> string \<Rightarrow> (string \<times> sub_description) list \<Rightarrow> (string \<Rightarrow> sub_view option) \<Rightarrow>
    string \<Rightarrow> unit script" where
  "sync_sub opt e i ss remote j = bind_s (lift_s (described ss j)) (\<lambda>s. case remote j of
       None \<Rightarrow> lift_s (Inl (Crash ''KeyError''))
     | Some v \<Rightarrow> let diff = sub_diff opt e i j s v in
         if no_sub_diff diff then lift_s (Inr ())
         else send (so_dry opt) (valid_update_sub diff) (update_sub_skill e i j diff))"

definition by_id :: "('v \<Rightarrow> string) \<Rightarrow> 'v list \<Rightarrow> string \<Rightarrow> 'v option" where
  "by_id key vs = map_of (map (\<lambda>v. (key v, v)) vs)"

text \<open>What is new, what stays, what goes; and the graph of the new ones.\<close>

definition added :: "(string \<times> 'a) list \<Rightarrow> string list \<Rightarrow> string list" where
  "added ds remote = filter (\<lambda>i. i \<notin> set remote) (map fst ds)"

definition kept :: "(string \<times> 'a) list \<Rightarrow> string list \<Rightarrow> string list" where
  "kept ds remote = filter (\<lambda>i. i \<in> set remote) (map fst ds)"

definition stale :: "(string \<times> 'a) list \<Rightarrow> string list \<Rightarrow> string list" where
  "stale ds remote = filter (\<lambda>i. i \<notin> fst ` set ds) remote"

definition new_graph :: "(string list \<Rightarrow> string list) \<Rightarrow> ('a \<Rightarrow> string list) \<Rightarrow> (string \<times> 'a) list \<Rightarrow> string list \<Rightarrow>
    (string \<times> string list) list" where
  "new_graph visit deps ds remote = map (\<lambda>i. (i, filter (\<lambda>d. d \<in> set (added ds remote))
     (case map_of ds i of None \<Rightarrow> [] | Some d \<Rightarrow> deps d))) (visit (added ds remote))"

definition sync_subs :: "sync_options \<Rightarrow> (string list \<Rightarrow> string list) \<Rightarrow> env \<Rightarrow> string \<Rightarrow> descriptions \<Rightarrow> string list \<Rightarrow>
    string \<Rightarrow> unit script" where
  "sync_subs opt visit e me ds new i = bind_s (lift_s (described ds i)) (\<lambda>d.
     bind_s (if i \<in> set new then lift_s (Inr [])
       else (\<lambda>db. lift_s (bind_r (list_sub_skills i (Some me) db) (\<lambda>a. Inr (fst a))) db)) (\<lambda>views.
     let ss = droot_skills d; remote = map (\<lambda>v. sk_id (sv_skill v)) views in
     bind_s (lift_s (static_order visit (new_graph visit dsub_deps ss remote))) (\<lambda>order.
     bind_s (for_each (add_sub opt e i ss) order) (\<lambda>_.
     bind_s (for_each (sync_sub opt e i ss (by_id (\<lambda>v. sk_id (sv_skill v)) views)) (visit (kept ss remote))) (\<lambda>_.
     for_each (\<lambda>j. send (so_dry opt) True (delete_sub_skill i j)) (visit (stale ss remote)))))))"

definition synchronise :: "sync_options \<Rightarrow> (string list \<Rightarrow> string list) \<Rightarrow> env \<Rightarrow> string \<Rightarrow> descriptions \<Rightarrow> unit script" where
  "synchronise opt visit e me ds = bind_s (ask_s (list_root_skills (Some me))) (\<lambda>(views, t).
     let remote = map (\<lambda>v. rk_id (rt_skill v)) views in
     bind_s (lift_s (static_order visit (new_graph visit droot_deps ds remote))) (\<lambda>order.
     bind_s (for_each (add_root opt e ds) order) (\<lambda>_.
     bind_s (for_each (sync_root opt e ds (by_id (\<lambda>v. rk_id (rt_skill v)) views)) (visit (kept ds remote))) (\<lambda>_.
     bind_s (for_each (sync_subs opt visit e me ds (added ds remote)) (visit (added ds remote @ kept ds remote))) (\<lambda>_.
     for_each (\<lambda>i. send (so_dry opt) True (delete_root_skill i)) (visit (stale ds remote)))))))"

definition checked_skills :: "env \<Rightarrow> (string \<times> root_description) list \<Rightarrow> descriptions result" where
  "checked_skills e files = bind_r (load_skills files []) (\<lambda>ds.
     bind_r (check_definitions ds {} {}) (\<lambda>_.
     bind_r (check_dependencies ds) (\<lambda>_.
     bind_r (check_courses e ds) (\<lambda>_. Inr ds))))"

definition sync_main :: "sync_options \<Rightarrow> (string list \<Rightarrow> string list) \<Rightarrow> env \<Rightarrow> string \<Rightarrow> (string \<times> root_description) list \<Rightarrow>
    unit script" where
  "sync_main opt visit e me files = bind_s (lift_s (checked_skills e files)) (\<lambda>ds.
     if so_list opt \<or> so_host opt = [] \<or> so_token opt = [] then lift_s (Inr ()) else synchronise opt visit e me ds)"


section \<open>What can be seen of the tree\<close>

text \<open>
  A skill as the script compares it: its name, its dependencies and its position, for a sub skill also its courses.
\<close>

definition root_seen :: "database \<Rightarrow> string \<Rightarrow> (string \<times> string set \<times> int \<times> int) option" where
  "root_seen db i = map_option (\<lambda>r. (rk_name r, set (deps_of (root_deps db) i), rk_row r, rk_column r)) (root_by db i)"

definition sub_seen :: "database \<Rightarrow> string \<Rightarrow> string \<Rightarrow> (string \<times> string set \<times> string set \<times> int \<times> int) option" where
  "sub_seen db i j = map_option (\<lambda>s. (sk_name s, set (deps_of (sub_deps db) j), set (courses_of db j), sk_row s, sk_column s))
     (sub_by db i j)"

lemma own_rows: "filter (\<lambda>r. key r = j) (filter (\<lambda>r. key r \<noteq> i) t) = (if j = i then [] else filter (\<lambda>r. key r = j) t)"
  by (induction t) auto

lemma deps_of_set [simp]: "set (deps_of (set_deps i ds t) j) = (if j = i then set ds else set (deps_of t j))"
  by (simp add: deps_of_def set_deps_def all_rows_def delete_rows_def own_rows filter_map o_def del: filter_filter)

lemma deps_of_drop [simp]: "set (deps_of (drop_deps is t) j) = (if j \<in> is then {} else set (deps_of t j) - is)"
  by (auto simp: deps_of_def drop_deps_def row_simps image_iff)

lemma courses_of_set:
  "set (map sc_course (all_rows (\<lambda>c. sc_skill c = j) (set_courses i cs t))) =
    (if j = i then set cs else set (map sc_course (all_rows (\<lambda>c. sc_skill c = j) t)))"
  by (simp add: set_courses_def all_rows_def delete_rows_def own_rows filter_map o_def del: filter_filter)

lemma new_deps_set:
  assumes "new_deps ids t i v = Inr t'"
  shows "set (deps_of t' j) = (if j = i then set (change v (deps_of t i)) else set (deps_of t j))"
  using assms by (auto simp: new_deps_def checked_deps_def change_def split: option.splits sum.splits if_splits)

lemma root_seen_None: "root_seen db i = None \<longleftrightarrow> i \<notin> root_ids db"
  unfolding root_seen_def root_by_ids [symmetric] by simp

lemma sub_seen_None: "sub_seen db i j = None \<longleftrightarrow> j \<notin> sub_ids db i"
  by (auto simp: sub_seen_def sub_by_def first_row_None in_sub_ids)

lemma sub_seen_root: "tree_ok db \<Longrightarrow> sub_seen db i j \<noteq> None \<Longrightarrow> i \<in> root_ids db"
  by (auto simp: sub_seen_None in_sub_ids simp del: not_None_eq dest: tree_okD(3))

section \<open>What the requests change\<close>

lemma create_root_effect:
  assumes "create_root_skill d db = Inr (a, db')"
  shows "root_seen db' = (root_seen db)(cr_id d \<mapsto> (cr_name d, set (cr_deps d), cr_row d, cr_column d))"
    "sub_seen db' = sub_seen db" "tree db' = tree db"
proof -
  from assms have new: "root_by db (cr_id d) = None"
    and db': "db' = db\<lparr>root_skills := add_row (new_root d) (root_skills db), root_deps := set_deps (cr_id d) (cr_deps d) (root_deps db)\<rparr>"
    by (auto simp: create_root_skill_def Let_def split: if_splits)
  have "root_by db' i = (if i = cr_id d then Some (new_root d) else root_by db i)" for i
    using new by (simp add: db' root_by_def rows.get_put new_root_def)
  then show "root_seen db' = (root_seen db)(cr_id d \<mapsto> (cr_name d, set (cr_deps d), cr_row d, cr_column d))"
    by (auto simp: root_seen_def fun_eq_iff db' new_root_def)
  show "sub_seen db' = sub_seen db" by (auto simp: sub_seen_def fun_eq_iff db' sub_by_def courses_of_def)
  show "tree db' = tree db" by (simp add: db')
qed

lemma update_root_effect:
  assumes "update_root_skill i d db = Inr (a, db')"
  shows "\<exists>n ds r c. root_seen db i = Some (n, ds, r, c) \<and> root_seen db' = (root_seen db)(i \<mapsto>
      (change (ur_name d) n, change (map_option set (ur_deps d)) ds, change (ur_row d) r, change (ur_column d) c))"
    "sub_seen db' = sub_seen db" "tree db' = tree db"
proof -
  from assms obtain r t where r: "root_by db i = Some r" "new_deps (root_ids db) (root_deps db) i (ur_deps d) = Inr t"
    and db': "db' = db\<lparr>root_skills := modify_by rk_id i (changed_root d) (root_skills db), root_deps := t\<rparr>"
    by (auto simp: update_root_skill_def Let_def result_simps split: option.splits)
  have "rk_id (changed_root d x) = rk_id x" for x by (simp add: changed_root_def)
  then have "root_by db' j = (if j = i then Some (changed_root d r) else root_by db j)" for j
    using r(1) by (simp add: db' root_by_def rows.get_modify)
  then have "root_seen db' = (root_seen db)(i \<mapsto> (change (ur_name d) (rk_name r),
      change (map_option set (ur_deps d)) (set (deps_of (root_deps db) i)), change (ur_row d) (rk_row r), change (ur_column d) (rk_column r)))"
    using new_deps_set [OF r(2)]
    by (auto simp: root_seen_def fun_eq_iff db' changed_root_def change_def split: option.splits)
  with r(1) show "\<exists>n ds r c. root_seen db i = Some (n, ds, r, c) \<and> root_seen db' = (root_seen db)(i \<mapsto>
      (change (ur_name d) n, change (map_option set (ur_deps d)) ds, change (ur_row d) r, change (ur_column d) c))"
    by (simp add: root_seen_def)
  show "sub_seen db' = sub_seen db" by (auto simp: sub_seen_def fun_eq_iff db' sub_by_def courses_of_def)
  show "tree db' = tree db" by (simp add: db')
qed

lemma create_sub_effect:
  assumes "create_sub_skill e i d db = Inr (a, db')"
  shows "sub_seen db' = (sub_seen db)(i := (sub_seen db i)(cs_id d \<mapsto>
      (cs_name d, set (cs_deps d), set (cs_courses d), cs_row d, cs_column d)))"
    "root_seen db' = root_seen db" "tree db' = tree db"
proof -
  from assms have new: "row_by sk_id (cs_id d) (sub_skills db) = None"
    and db': "db' = db\<lparr>sub_skills := add_row (new_sub i d) (sub_skills db),
              sub_deps := set_deps (cs_id d) (cs_deps d) (sub_deps db),
              skill_courses := set_courses (cs_id d) (cs_courses d) (skill_courses db)\<rparr>"
    by (auto simp: create_sub_skill_def Let_def split: option.splits if_splits)
  from new have none: "sub_by db i' (cs_id d) = None" for i'
    by (auto simp: sub_by_def first_row_None row_by_None image_iff)
  then have "sub_by db' i' j = (if i' = i \<and> j = cs_id d then Some (new_sub i d) else sub_by db i' j)" for i' j
    by (cases "sub_by db i' j") (auto simp: db' sub_by_def first_row_add_row new_sub_def)
  moreover have "set (courses_of db' j) = (if j = cs_id d then set (cs_courses d) else set (courses_of db j))" for j
    by (simp add: db' courses_of_def courses_of_set del: set_map)
  ultimately show "sub_seen db' = (sub_seen db)(i := (sub_seen db i)(cs_id d \<mapsto>
      (cs_name d, set (cs_deps d), set (cs_courses d), cs_row d, cs_column d)))"
    using none by (auto simp: sub_seen_def fun_eq_iff db' new_sub_def)
  show "root_seen db' = root_seen db" by (simp add: root_seen_def fun_eq_iff db' root_by_def)
  show "tree db' = tree db" by (simp add: db')
qed


lemma changed_sub_row:
  "first_row (\<lambda>s. sk_id s = j \<and> sk_parent s = i) (modify_by sk_id j (changed_sub d) t) =
    map_option (changed_sub d) (first_row (\<lambda>s. sk_id s = j \<and> sk_parent s = i) t)"
  by (induction t) (auto simp: modify_by_def update_rows_def changed_sub_def)

lemma update_sub_effect:
  assumes "update_sub_skill e i j d db = Inr (a, db')" "tree_ok db"
  shows "\<exists>n ds cs r c. sub_seen db i j = Some (n, ds, cs, r, c) \<and> sub_seen db' = (sub_seen db)(i := (sub_seen db i)(j \<mapsto>
      (change (us_name d) n, change (map_option set (us_deps d)) ds, change (map_option set (us_courses d)) cs,
       change (us_row d) r, change (us_column d) c)))"
    "root_seen db' = root_seen db" "tree db' = tree db"
proof -
  from assms(1) obtain s t ct where s: "sub_by db i j = Some s" "new_deps (sub_ids db i) (sub_deps db) j (us_deps d) = Inr t"
    and ct: "(case us_courses d of None \<Rightarrow> Inr (skill_courses db)
         | Some cs \<Rightarrow> if set cs = set (courses_of db j) then Inr (skill_courses db)
             else if list_ex (\<lambda>c. course_by e c = None) cs then Inl (Http 404 ''course not found'')
             else Inr (set_courses j cs (skill_courses db))) = Inr ct"
    and db': "db' = db\<lparr>sub_skills := modify_by sk_id j (changed_sub d) (sub_skills db), sub_deps := t, skill_courses := ct\<rparr>"
    by (auto simp: update_sub_skill_def Let_def result_simps split: option.splits)
  have c: "set (courses_of db' k) = (if k = j then change (map_option set (us_courses d)) (set (courses_of db j))
      else set (courses_of db k))" for k
  proof -
    have "set (map sc_course (all_rows (\<lambda>c. sc_skill c = k) ct)) = (if k = j then change (map_option set (us_courses d)) (set (courses_of db j))
        else set (courses_of db k))"
      using ct by (auto simp: change_def courses_of_def courses_of_set simp del: set_map split: option.splits if_splits)
    then show ?thesis by (simp add: courses_of_def db')
  qed
  have here: "sub_by db i' j = None" if "i' \<noteq> i" for i'
  proof (rule ccontr)
    assume "sub_by db i' j \<noteq> None"
    then show False
    using that s(1) sub_ids_unique [OF tree_okD(2) [OF assms(2)], of j i' i] sub_seen_None [of db i' j] sub_seen_None [of db i j]
    by (auto simp: sub_seen_def)
  qed
  have "sub_by db' i' k = (if k = j then map_option (changed_sub d) (sub_by db i' k) else sub_by db i' k)" for i' k
  proof (cases "k = j")
    case True
    then show ?thesis by (simp add: db' sub_by_def changed_sub_row)
  next
    case False
    then have "sub_by db' i' k = sub_by db i' k"
      unfolding sub_by_def by (simp add: db' modify_by_def, intro first_row_update_disjoint) (auto simp: changed_sub_def)
    with False show ?thesis by simp
  qed
  then have "sub_seen db' = (sub_seen db)(i := (sub_seen db i)(j \<mapsto> (change (us_name d) (sk_name s),
      change (map_option set (us_deps d)) (set (deps_of (sub_deps db) j)), change (map_option set (us_courses d)) (set (courses_of db j)),
      change (us_row d) (sk_row s), change (us_column d) (sk_column s))))"
    using s(1) new_deps_set [OF s(2)] here
    by (auto simp: sub_seen_def fun_eq_iff db' [THEN arg_cong [of _ _ sub_deps]] c changed_sub_def change_def split: option.splits)
  with s(1) show "\<exists>n ds cs r c. sub_seen db i j = Some (n, ds, cs, r, c) \<and> sub_seen db' = (sub_seen db)(i := (sub_seen db i)(j \<mapsto>
      (change (us_name d) n, change (map_option set (us_deps d)) ds, change (map_option set (us_courses d)) cs,
       change (us_row d) r, change (us_column d) c)))"
    by (simp add: sub_seen_def)
  show "root_seen db' = root_seen db" by (simp add: root_seen_def fun_eq_iff db' root_by_def)
  show "tree db' = tree db" by (simp add: db')
qed

lemma removed_subs_seen:
  assumes "tree_ok db" "\<And>j. j \<in> is \<Longrightarrow> j \<in> sub_ids db i" "db' = remove_sub_skills is db"
  shows "sub_seen db' r j = (if r = i \<and> j \<in> is then None
    else if r = i then map_option (\<lambda>(n, ds, v). (n, ds - is, v)) (sub_seen db r j) else sub_seen db r j)"
proof -
  have other: "j \<notin> is \<and> set (deps_of (sub_deps db) j) \<inter> is = {}" if "sub_by db r j \<noteq> None" "r \<noteq> i"
  proof -
    from that(1) have j: "j \<in> sub_ids db r" using sub_seen_None [of db r j] by (auto simp: sub_seen_def)
    with that(2) assms(1,2) have "j \<notin> is" using sub_ids_unique tree_okD(2) by blast
    moreover have "x \<notin> is" if "x \<in> set (deps_of (sub_deps db) j)" for x
    proof -
      from that have "(j, x) \<in> deps_rel (sub_deps db)" by (auto simp: deps_rel_def deps_of_def row_simps)
      then have "x \<in> sub_ids db r" using sub_level [OF assms(1)] j by blast
      with \<open>r \<noteq> i\<close> assms(1,2) show ?thesis using sub_ids_unique tree_okD(2) by blast
    qed
    ultimately show ?thesis by auto
  qed
  have s: "sub_by db' r j = (if j \<in> is then None else sub_by db r j)"
    by (auto simp: assms(3) remove_sub_skills_def sub_by_def first_row_None row_simps intro: first_row_delete_disjoint)
  have d: "sub_deps db' = drop_deps is (sub_deps db)" by (simp add: assms(3) remove_sub_skills_def)
  have "j \<notin> is \<Longrightarrow> set (courses_of db' j) = set (courses_of db j)"
    by (auto simp: assms(3) remove_sub_skills_def courses_of_def row_simps)
  with s d other show ?thesis by (cases "sub_by db r j") (auto simp: sub_seen_def)
qed

lemma delete_sub_effect:
  assumes "delete_sub_skill i j db = Inr (a, db')" "tree_ok db"
  shows "sub_seen db' r k = (if r = i \<and> k = j then None
      else if r = i then map_option (\<lambda>(n, ds, v). (n, ds - {j}, v)) (sub_seen db r k) else sub_seen db r k)"
    "root_seen db' = root_seen db" "tree db' = tree db"
proof -
  from assms(1) obtain s where s: "sub_by db i j = Some s" and db': "db' = remove_sub_skills {j} db"
    by (auto simp: delete_sub_skill_def split: option.splits)
  then have "j \<in> sub_ids db i" using sub_seen_None [of db i j] by (auto simp: sub_seen_def)
  with removed_subs_seen [OF assms(2) _ db', of i r k] show "sub_seen db' r k = (if r = i \<and> k = j then None
      else if r = i then map_option (\<lambda>(n, ds, v). (n, ds - {j}, v)) (sub_seen db r k) else sub_seen db r k)" by auto
  show "root_seen db' = root_seen db" by (simp add: root_seen_def fun_eq_iff db' root_by_def remove_sub_skills_def)
  show "tree db' = tree db" by (simp add: db' remove_sub_skills_def)
qed

lemma delete_root_effect:
  assumes "delete_root_skill i db = Inr (a, db')" "tree_ok db"
  shows "root_seen db' k = (if k = i then None else map_option (\<lambda>(n, ds, v). (n, ds - {i}, v)) (root_seen db k))"
    "r \<noteq> i \<Longrightarrow> sub_seen db' r j = sub_seen db r j" "tree db' = tree db"
proof -
  let ?rest = "remove_sub_skills (sub_ids db i) db"
  from assms(1) have db': "db' = ?rest\<lparr>root_skills := drop_by rk_id i (root_skills db), root_deps := drop_deps {i} (root_deps db)\<rparr>"
    by (auto simp: delete_root_skill_def sub_ids_def split: option.splits)
  have "root_by db' k = (if k = i then None else root_by db k)" by (simp add: db' root_by_def rows.get_drop)
  then show "root_seen db' k = (if k = i then None else map_option (\<lambda>(n, ds, v). (n, ds - {i}, v)) (root_seen db k))"
    by (cases "root_by db k") (auto simp: root_seen_def db')
  have "sub_seen db' = sub_seen ?rest" by (simp add: sub_seen_def fun_eq_iff db' sub_by_def courses_of_def)
  then show "sub_seen db' r j = sub_seen db r j" if "r \<noteq> i"
    using that removed_subs_seen [OF assms(2) _ refl, of "sub_ids db i" i r j] by simp
  show "tree db' = tree db" by (simp add: db' remove_sub_skills_def)
qed


section \<open>Loops of requests\<close>

named_theorems script_simps \<open>successful requests\<close>

lemma bind_s_Inr [script_simps]: "bind_s m f db = (Inr b, db') \<longleftrightarrow> (\<exists>a s. m db = (Inr a, s) \<and> f a s = (Inr b, db'))"
  by (auto simp: bind_s_def split: prod.splits sum.splits)

lemma lift_s_Inr [script_simps]: "lift_s r db = (Inr a, db') \<longleftrightarrow> r = Inr a \<and> db' = db"
  by (auto simp: lift_s_def)

lemma ask_s_Inr [script_simps]: "ask_s h db = (Inr a, db') \<longleftrightarrow> h db = Inr (a, db')"
  by (auto simp: ask_s_def split: sum.splits)

lemma send_Inr [script_simps]: "\<not> dry \<Longrightarrow> send dry valid h db = (Inr u, db') \<longleftrightarrow> valid \<and> (\<exists>a. h db = Inr (a, db'))"
  by (auto simp: send_def script_simps)

lemma described_Inr [script_simps]: "described ds i = Inr d \<longleftrightarrow> map_of ds i = Some d"
  by (simp add: described_def split: option.splits)

text \<open>
  A loop that settles the members of its list one by one: each pass settles its own member and leaves what is seen of
  the others, so in the end all are settled.
\<close>

lemma settle_all:
  assumes "for_each f xs db = (Inr (), db')" "distinct xs" "I db"
    and "\<And>x a b. x \<in> set xs \<Longrightarrow> I a \<Longrightarrow> seen a x = seen db x \<Longrightarrow> f x a = (Inr (), b) \<Longrightarrow>
      I b \<and> good x (seen b x) \<and> (\<forall>y. y \<noteq> x \<longrightarrow> seen b y = seen a y)"
  shows "I db'" "x \<in> set xs \<Longrightarrow> good x (seen db' x)" "x \<notin> set xs \<Longrightarrow> seen db' x = seen db x"
proof -
  have "I db' \<and> (\<forall>x. if x \<in> set xs then good x (seen db' x) else seen db' x = seen db x)"
    using assms
  proof (induction xs arbitrary: db)
    case Nil
    then show ?case by (simp add: script_simps)
  next
    case (Cons x xs)
    from Cons.prems(1) obtain a where a: "f x db = (Inr (), a)" "for_each f xs a = (Inr (), db')" by (auto simp: script_simps)
    with Cons.prems have s: "I a" "good x (seen a x)" "\<And>y. y \<noteq> x \<Longrightarrow> seen a y = seen db y" by auto
    have "I db' \<and> (\<forall>y. if y \<in> set xs then good y (seen db' y) else seen db' y = seen a y)"
    proof (rule Cons.IH [OF a(2) _ s(1)])
      show "distinct xs" using Cons.prems(2) by simp
      fix y p b
      assume y: "y \<in> set xs" "I p" "seen p y = seen a y" "f y p = (Inr (), b)"
      then have "y \<noteq> x" using Cons.prems(2) by auto
      with y(3) s(3) have same: "seen p y = seen db y" by simp
      show "I b \<and> good y (seen b y) \<and> (\<forall>z. z \<noteq> y \<longrightarrow> seen b z = seen p z)"
        by (rule Cons.prems(4) [OF _ y(2) same y(4)]) (simp add: y(1))
    qed
    with s Cons.prems(2) show ?case by auto
  qed
  then show "I db'" "x \<in> set xs \<Longrightarrow> good x (seen db' x)" "x \<notin> set xs \<Longrightarrow> seen db' x = seen db x" by auto
qed

definition rearranges :: "(string list \<Rightarrow> string list) \<Rightarrow> bool" where
  "rearranges visit \<longleftrightarrow> (\<forall>xs. set (visit xs) = set xs \<and> (distinct xs \<longrightarrow> distinct (visit xs)))"

lemma topo_batches_members:
  assumes "rearranges visit" "topo_batches visit finished rest = Inr order"
  shows "set order = fst ` set rest" "distinct (map fst rest) \<Longrightarrow> distinct order"
proof -
  have "set order = fst ` set rest \<and> (distinct (map fst rest) \<longrightarrow> distinct order)"
    using assms
  proof (induction visit finished rest arbitrary: order rule: topo_batches.induct)
    case (1 visit finished rest)
    define ready where "ready = filter (\<lambda>p. set (snd p) \<subseteq> finished) rest"
    define later_ones where "later_ones = filter (\<lambda>p. \<not> set (snd p) \<subseteq> finished) rest"
    show ?case
    proof (cases "rest = []")
      case True
      with 1(3) show ?thesis by (simp add: topo_batches.simps)
    next
      case False
      from 1(3) False obtain tail where ne: "ready \<noteq> []"
        and t: "topo_batches visit (finished \<union> fst ` set ready) later_ones = Inr tail" "order = visit (map fst ready) @ tail"
        by (subst (asm) topo_batches.simps) (auto simp: Let_def result_simps ready_def later_ones_def split: if_splits)
      from 1(1) [OF False ready_def _ 1(2), folded later_ones_def, OF ne t(1)]
      have ih: "set tail = fst ` set later_ones" "distinct (map fst later_ones) \<Longrightarrow> distinct tail" by auto
      have v: "set (visit (map fst ready)) = fst ` set ready" "distinct (map fst ready) \<Longrightarrow> distinct (visit (map fst ready))"
        using 1(2) by (auto simp: rearranges_def)
      have "fst ` set ready \<union> fst ` set later_ones = fst ` set rest" by (auto simp: ready_def later_ones_def)
      moreover have "distinct order" if d: "distinct (map fst rest)"
      proof -
        have "fst ` set ready \<inter> fst ` set later_ones = {}"
          using d by (auto simp: ready_def later_ones_def distinct_map inj_on_def)
        with d v ih show ?thesis by (auto simp: t(2) ready_def later_ones_def distinct_map_filter)
      qed
      ultimately show ?thesis using v(1) ih(1) by (auto simp: t(2))
    qed
  qed
  then show "set order = fst ` set rest" "distinct (map fst rest) \<Longrightarrow> distinct order" by auto
qed


section \<open>What each step achieves\<close>

definition root_fits :: "sync_options \<Rightarrow> env \<Rightarrow> string \<Rightarrow> root_description \<Rightarrow> (string \<times> string set \<times> int \<times> int) option \<Rightarrow> bool" where
  "root_fits opt e i d v = (case v of None \<Rightarrow> False
     | Some (n, deps, p) \<Rightarrow> n = droot_name d \<and> deps = set (droot_deps d) \<and> (so_positions opt \<longrightarrow> p = get_position e i))"

definition sub_fits :: "sync_options \<Rightarrow> env \<Rightarrow> string \<Rightarrow> string \<Rightarrow> sub_description \<Rightarrow>
    (string \<times> string set \<times> string set \<times> int \<times> int) option \<Rightarrow> bool" where
  "sub_fits opt e i j s v = (case v of None \<Rightarrow> False
     | Some (n, deps, cs, p) \<Rightarrow> n = dsub_name s \<and> deps = set (dsub_deps s) \<and> cs = set (dsub_courses s) \<and>
         (so_positions opt \<longrightarrow> p = sub_position e i j))"

definition root_view_seen :: "root_view \<Rightarrow> string \<times> string set \<times> int \<times> int" where
  "root_view_seen v = (rk_name (rt_skill v), set (rt_dependencies v), rk_row (rt_skill v), rk_column (rt_skill v))"

definition sub_view_seen :: "sub_view \<Rightarrow> string \<times> string set \<times> string set \<times> int \<times> int" where
  "sub_view_seen v = (sk_name (sv_skill v), set (sv_dependencies v), set (sv_courses v), sk_row (sv_skill v), sk_column (sv_skill v))"

lemma change_simps [simp]: "change None x = x" "change (Some y) x = y"
  by (simp_all add: change_def)

lemma differs_simps [simp]:
  "differs b x = None \<longleftrightarrow> \<not> b" "change (differs b x) y = (if b then x else y)"
  "change (map_option g (differs b x)) z = (if b then g x else z)"
  by (simp_all add: differs_def)

lemma tree_kept:
  assumes "tree_ok db"
  shows "create_root_skill c db = Inr (a, db') \<Longrightarrow> tree_ok db'" "update_root_skill i u db = Inr (a, db') \<Longrightarrow> tree_ok db'"
    "create_sub_skill e i d db = Inr (v, db') \<Longrightarrow> tree_ok db'" "update_sub_skill e i j w db = Inr (v, db') \<Longrightarrow> tree_ok db'"
    "delete_sub_skill i j db = Inr (t, db') \<Longrightarrow> tree_ok db'" "delete_root_skill i db = Inr (t, db') \<Longrightarrow> tree_ok db'"
  using tree_step_ok [OF assms, of "Create_root c"] tree_step_ok [OF assms, of "Update_root i u"]
    tree_step_ok [OF assms, of "Create_sub e i d"] tree_step_ok [OF assms, of "Update_sub e i j w"]
    tree_step_ok [OF assms, of "Delete_sub i j"] tree_step_ok [OF assms, of "Delete_root i"] by auto

lemma add_root_step:
  assumes "add_root opt e ds i db = (Inr (), db')" "\<not> so_dry opt" "tree_ok db"
  shows "tree_ok db' \<and> tree db' = tree db \<and> sub_seen db' = sub_seen db" "k \<noteq> i \<Longrightarrow> root_seen db' k = root_seen db k"
    "\<exists>d. map_of ds i = Some d \<and> root_fits opt e i d (root_seen db' i)"
proof -
  from assms(1,2) obtain d a where d: "map_of ds i = Some d" and run: "create_root_skill (root_body e i d) db = Inr (a, db')"
    by (auto simp: add_root_def script_simps)
  note c = create_root_effect [OF run]
  show "tree_ok db' \<and> tree db' = tree db \<and> sub_seen db' = sub_seen db" using c(2,3) tree_kept(1) [OF assms(3) run] by simp
  show "k \<noteq> i \<Longrightarrow> root_seen db' k = root_seen db k" by (simp add: c(1) root_body_def)
  show "\<exists>d. map_of ds i = Some d \<and> root_fits opt e i d (root_seen db' i)"
    using d by (simp add: c(1) root_body_def root_fits_def)
qed

lemma sync_root_step:
  assumes "sync_root opt e ds remote i db = (Inr (), db')" "\<not> so_dry opt" "tree_ok db"
    and seen: "root_seen db i = map_option root_view_seen (remote i)"
  shows "tree_ok db' \<and> tree db' = tree db \<and> sub_seen db' = sub_seen db" "k \<noteq> i \<Longrightarrow> root_seen db' k = root_seen db k"
    "\<exists>d. map_of ds i = Some d \<and> root_fits opt e i d (root_seen db' i)"
proof -
  from assms(1,2) obtain d v where d: "map_of ds i = Some d" "remote i = Some v"
    and cases: "no_root_diff (root_diff opt e i d v) \<and> db' = db \<or>
      (\<exists>a. update_root_skill i (root_diff opt e i d v) db = Inr (a, db'))"
    by (auto simp: sync_root_def script_simps Let_def split: option.splits if_splits)
  have "tree_ok db' \<and> tree db' = tree db \<and> sub_seen db' = sub_seen db \<and> (\<forall>k. k \<noteq> i \<longrightarrow> root_seen db' k = root_seen db k) \<and>
      root_fits opt e i d (root_seen db' i)"
    using cases
  proof
    assume "no_root_diff (root_diff opt e i d v) \<and> db' = db"
    with assms(3) seen d show ?thesis
      by (auto simp: no_root_diff_def root_diff_def Let_def root_fits_def root_view_seen_def)
  next
    assume "\<exists>a. update_root_skill i (root_diff opt e i d v) db = Inr (a, db')"
    then obtain a where run: "update_root_skill i (root_diff opt e i d v) db = Inr (a, db')" ..
    from tree_kept(2) [OF assms(3) run] update_root_effect [OF run] seen d show ?thesis
      by (auto simp: root_diff_def Let_def root_fits_def root_view_seen_def)
  qed
  with d show "tree_ok db' \<and> tree db' = tree db \<and> sub_seen db' = sub_seen db" "k \<noteq> i \<Longrightarrow> root_seen db' k = root_seen db k"
    "\<exists>d. map_of ds i = Some d \<and> root_fits opt e i d (root_seen db' i)" by auto
qed

lemma add_sub_step:
  assumes "add_sub opt e i ss j db = (Inr (), db')" "\<not> so_dry opt" "tree_ok db"
  shows "tree_ok db' \<and> tree db' = tree db \<and> root_seen db' = root_seen db \<and> (\<forall>r. r \<noteq> i \<longrightarrow> sub_seen db' r = sub_seen db r)"
    "k \<noteq> j \<Longrightarrow> sub_seen db' i k = sub_seen db i k" "\<exists>s. map_of ss j = Some s \<and> sub_fits opt e i j s (sub_seen db' i j)"
proof -
  from assms(1,2) obtain s a where s: "map_of ss j = Some s" and run: "create_sub_skill e i (sub_body e i j s) db = Inr (a, db')"
    by (auto simp: add_sub_def script_simps)
  note c = create_sub_effect [OF run]
  show "tree_ok db' \<and> tree db' = tree db \<and> root_seen db' = root_seen db \<and> (\<forall>r. r \<noteq> i \<longrightarrow> sub_seen db' r = sub_seen db r)"
    using c tree_kept(3) [OF assms(3) run] by simp
  show "k \<noteq> j \<Longrightarrow> sub_seen db' i k = sub_seen db i k" by (simp add: c(1) sub_body_def)
  show "\<exists>s. map_of ss j = Some s \<and> sub_fits opt e i j s (sub_seen db' i j)"
    using s by (simp add: c(1) sub_body_def sub_fits_def)
qed

lemma sync_sub_step:
  assumes "sync_sub opt e i ss remote j db = (Inr (), db')" "\<not> so_dry opt" "tree_ok db"
    and seen: "sub_seen db i j = map_option sub_view_seen (remote j)"
  shows "tree_ok db' \<and> tree db' = tree db \<and> root_seen db' = root_seen db \<and> (\<forall>r. r \<noteq> i \<longrightarrow> sub_seen db' r = sub_seen db r)"
    "k \<noteq> j \<Longrightarrow> sub_seen db' i k = sub_seen db i k" "\<exists>s. map_of ss j = Some s \<and> sub_fits opt e i j s (sub_seen db' i j)"
proof -
  from assms(1,2) obtain s v where s: "map_of ss j = Some s" "remote j = Some v"
    and cases: "no_sub_diff (sub_diff opt e i j s v) \<and> db' = db \<or>
      (\<exists>a. update_sub_skill e i j (sub_diff opt e i j s v) db = Inr (a, db'))"
    by (auto simp: sync_sub_def script_simps Let_def split: option.splits if_splits)
  have "tree_ok db' \<and> tree db' = tree db \<and> root_seen db' = root_seen db \<and> (\<forall>r. r \<noteq> i \<longrightarrow> sub_seen db' r = sub_seen db r) \<and>
      (\<forall>k. k \<noteq> j \<longrightarrow> sub_seen db' i k = sub_seen db i k) \<and> sub_fits opt e i j s (sub_seen db' i j)"
    using cases
  proof
    assume "no_sub_diff (sub_diff opt e i j s v) \<and> db' = db"
    with assms(3) seen s show ?thesis
      by (auto simp: no_sub_diff_def sub_diff_def Let_def sub_fits_def sub_view_seen_def)
  next
    assume "\<exists>a. update_sub_skill e i j (sub_diff opt e i j s v) db = Inr (a, db')"
    then obtain a where run: "update_sub_skill e i j (sub_diff opt e i j s v) db = Inr (a, db')" ..
    from tree_kept(4) [OF assms(3) run] update_sub_effect [OF run assms(3)] seen s show ?thesis
      by (auto simp: sub_diff_def Let_def sub_fits_def sub_view_seen_def)
  qed
  with s show "tree_ok db' \<and> tree db' = tree db \<and> root_seen db' = root_seen db \<and> (\<forall>r. r \<noteq> i \<longrightarrow> sub_seen db' r = sub_seen db r)"
    "k \<noteq> j \<Longrightarrow> sub_seen db' i k = sub_seen db i k" "\<exists>s. map_of ss j = Some s \<and> sub_fits opt e i j s (sub_seen db' i j)" by auto
qed


section \<open>What the script reads\<close>

lemma by_id_map: "by_id key (map f rows) k = map_option f (row_by (\<lambda>r. key (f r)) k rows)"
  by (induction rows) (auto simp: by_id_def row_by_def)

lemma first_row_filter: "first_row P (filter Q t) = first_row (\<lambda>r. P r \<and> Q r) t"
  by (induction t) auto

lemma root_views:
  assumes "list_root_skills u db = Inr ((views, t), db')"
  shows "map_option root_view_seen (by_id (\<lambda>v. rk_id (rt_skill v)) views i) = root_seen db i"
    "map (\<lambda>v. rk_id (rt_skill v)) views = map rk_id (root_skills db)"
    "root_seen db' = root_seen db" "sub_seen db' = sub_seen db" "tree_ok db' = tree_ok db" "tree db' \<noteq> []"
    "tree db \<noteq> [] \<Longrightarrow> db' = db"
proof -
  let ?view = "\<lambda>r m. (root_answer db r)\<lparr>rt_bookmarked := m\<rparr>"
  define m where "m = (\<lambda>r :: root_skill. map_option (\<lambda>u. exists_row (\<lambda>b. bm_user b = u \<and> bm_root b = rk_id r) (bookmarks db')) u)"
  have db': "db' = snd (tree_settings_get db)" and v0: "views = map (\<lambda>r. (root_answer db' r)\<lparr>rt_bookmarked := m r\<rparr>) (root_skills db')"
    using assms by (auto simp: list_root_skills_def Let_def m_def case_prod_beta)
  have same: "root_skills db' = root_skills db" "root_deps db' = root_deps db" "sub_skills db' = sub_skills db" "sub_deps db' = sub_deps db"
      "skill_courses db' = skill_courses db"
    by (simp_all add: db' tree_settings_get_def Let_def split: list.split)
  have v: "views = map (\<lambda>r. ?view r (m r)) (root_skills db)"
    by (simp add: v0 same root_answer_def sub_skills_of_def)
  have view: "rk_id (rt_skill (?view r b)) = rk_id r" "root_view_seen (?view r b) = (rk_name r, set (deps_of (root_deps db) (rk_id r)), rk_row r, rk_column r)" for r b
    by (simp_all add: root_answer_def root_view_seen_def)
  show "map_option root_view_seen (by_id (\<lambda>v. rk_id (rt_skill v)) views i) = root_seen db i"
    unfolding v by_id_map view
    by (auto simp: root_seen_def root_by_def option.map_comp o_def view dest: row_by_SomeD intro!: option.map_cong)
  show "map (\<lambda>v. rk_id (rt_skill v)) views = map rk_id (root_skills db)"
    unfolding v by (simp add: root_answer_def)
  show "root_seen db' = root_seen db" "sub_seen db' = sub_seen db"
    by (simp_all add: fun_eq_iff root_seen_def root_by_def sub_seen_def sub_by_def courses_of_def same)
  show "tree_ok db' = tree_ok db" by (rule tree_ok_cong) (simp_all add: same)
  show "tree db' \<noteq> []" "tree db \<noteq> [] \<Longrightarrow> db' = db"
    by (auto simp: db' tree_settings_get_def Let_def add_row_def split: list.splits)
qed

lemma sub_views:
  assumes "list_sub_skills i u db = Inr (views, x)"
  shows "map_option sub_view_seen (by_id (\<lambda>v. sk_id (sv_skill v)) views j) = sub_seen db i j"
    "map (\<lambda>v. sk_id (sv_skill v)) views = map sk_id (sub_skills_of db i)"
proof -
  let ?view = "\<lambda>s m. (sub_answer db s)\<lparr>sv_bookmarked := m\<rparr>"
  define m where "m = (\<lambda>s :: sub_skill. map_option (\<lambda>u. exists_row (\<lambda>b. bm_user b = u \<and> bm_root b = i \<and> bm_sub b = sk_id s) (bookmarks db)) u)"
  have v: "views = map (\<lambda>s. ?view s (m s)) (sub_skills_of db i)"
    using assms by (auto simp: list_sub_skills_def Let_def m_def split: option.splits)
  have view: "sk_id (sv_skill (?view s b)) = sk_id s"
      "sub_view_seen (?view s b) = (sk_name s, set (deps_of (sub_deps db) (sk_id s)), set (courses_of db (sk_id s)), sk_row s, sk_column s)" for s b
    by (simp_all add: sub_answer_def sub_view_seen_def)
  have row: "row_by sk_id j (sub_skills_of db i) = sub_by db i j"
    by (simp add: row_by_def sub_by_def sub_skills_of_def all_rows_def first_row_filter)
  show "map_option sub_view_seen (by_id (\<lambda>v. sk_id (sv_skill v)) views j) = sub_seen db i j"
    unfolding v by_id_map view row
    by (auto simp: sub_seen_def option.map_comp o_def view sub_by_def dest: first_row_SomeD intro!: option.map_cong)
  show "map (\<lambda>v. sk_id (sv_skill v)) views = map sk_id (sub_skills_of db i)" unfolding v by (simp add: sub_answer_def)
qed

lemma members [simp]:
  "set (added ds remote) = fst ` set ds - set remote" "set (kept ds remote) = fst ` set ds \<inter> set remote"
  "set (stale ds remote) = set remote - fst ` set ds"
  by (auto simp: added_def kept_def stale_def)

lemma distinct_members:
  "distinct (map fst ds) \<Longrightarrow> distinct (added ds remote)" "distinct (map fst ds) \<Longrightarrow> distinct (kept ds remote)"
  "distinct remote \<Longrightarrow> distinct (stale ds remote)"
  by (simp_all add: added_def kept_def stale_def)

lemma new_order:
  assumes "rearranges visit" "static_order visit (new_graph visit deps ds remote) = Inr order"
  shows "set order = fst ` set ds - set remote" "distinct (map fst ds) \<Longrightarrow> distinct order"
proof -
  have g: "map fst (new_graph visit deps ds remote) = visit (added ds remote)" by (simp add: new_graph_def o_def)
  have v: "set (visit (added ds remote)) = set (added ds remote)" "distinct (added ds remote) \<Longrightarrow> distinct (visit (added ds remote))"
    using assms(1) by (auto simp: rearranges_def)
  from topo_batches_members [OF assms(1) assms(2) [unfolded static_order_def]] v
  show "set order = fst ` set ds - set remote" "distinct (map fst ds) \<Longrightarrow> distinct order"
    by (simp_all add: g set_map [symmetric] distinct_members del: set_map)
qed


section \<open>The loops\<close>

text \<open>A description is closed when the dictionaries have no key twice and dependencies name described siblings.\<close>

definition closed_subs :: "(string \<times> sub_description) list \<Rightarrow> bool" where
  "closed_subs ss \<longleftrightarrow> distinct (map fst ss) \<and> list_all (\<lambda>(j, s). set (dsub_deps s) \<subseteq> fst ` set ss) ss"

definition closed_roots :: "descriptions \<Rightarrow> bool" where
  "closed_roots ds \<longleftrightarrow> distinct (map fst ds) \<and>
     list_all (\<lambda>(i, d). set (droot_deps d) \<subseteq> fst ` set ds \<and> closed_subs (droot_skills d)) ds"

definition subs_fit :: "sync_options \<Rightarrow> env \<Rightarrow> string \<Rightarrow> (string \<times> sub_description) list \<Rightarrow>
    (string \<Rightarrow> (string \<times> string set \<times> string set \<times> int \<times> int) option) \<Rightarrow> bool" where
  "subs_fit opt e i ss f \<longleftrightarrow> (\<forall>j. case map_of ss j of None \<Rightarrow> f j = None | Some s \<Rightarrow> sub_fits opt e i j s (f j))"

lemma described_key: "map_of ds i = Some d \<Longrightarrow> i \<in> fst ` set ds"
  by (auto dest: map_of_SomeD simp: image_iff intro!: bexI)

lemma delete_subs:
  assumes run: "for_each (\<lambda>j. send False True (delete_sub_skill i j)) xs db = (Inr (), db')"
    and ok: "distinct xs" "tree_ok db" "closed_subs ss" "set xs \<inter> fst ` set ss = {}"
    and fit: "\<And>j s. map_of ss j = Some s \<Longrightarrow> sub_fits opt e i j s (sub_seen db i j)"
  shows "tree_ok db' \<and> tree db' = tree db \<and> root_seen db' = root_seen db \<and> (\<forall>r. r \<noteq> i \<longrightarrow> sub_seen db' r = sub_seen db r) \<and>
      (\<forall>j s. map_of ss j = Some s \<longrightarrow> sub_seen db' i j = sub_seen db i j)"
    "j \<in> set xs \<Longrightarrow> sub_seen db' i j = None" "j \<notin> set xs \<Longrightarrow> sub_seen db' i j = None \<longleftrightarrow> sub_seen db i j = None"
proof -
  let ?I = "\<lambda>s. tree_ok s \<and> tree s = tree db \<and> root_seen s = root_seen db \<and> (\<forall>r. r \<noteq> i \<longrightarrow> sub_seen s r = sub_seen db r) \<and>
      (\<forall>j d. map_of ss j = Some d \<longrightarrow> sub_seen s i j = sub_seen db i j)"
  let ?seen = "\<lambda>s j. sub_seen s i j = None"
  have step: "?I b \<and> ?seen b x \<and> (\<forall>y. y \<noteq> x \<longrightarrow> ?seen b y = ?seen a y)"
    if x: "x \<in> set xs" and I: "?I a" and "?seen a x = ?seen db x" and f: "send False True (delete_sub_skill i x) a = (Inr (), b)" for x a b
  proof -
    from f obtain v where v: "delete_sub_skill i x a = Inr (v, b)" by (auto simp: script_simps)
    note d = delete_sub_effect [OF v I [THEN conjunct1]]
    have "sub_seen b i j = sub_seen db i j" if "map_of ss j = Some s" for j s
    proof -
      from that ok(3) have "set (dsub_deps s) \<subseteq> fst ` set ss" by (auto simp: closed_subs_def list_all_iff dest: map_of_SomeD)
      with x ok(4) have "x \<notin> set (dsub_deps s)" "j \<noteq> x" using described_key [OF that] by auto
      with d(1) [of i j] I fit [OF that] that show ?thesis by (auto simp: sub_fits_def split: option.splits)
    qed
    with d I tree_kept(5) [OF I [THEN conjunct1] v] show ?thesis by (auto simp: fun_eq_iff split: if_splits)
  qed
  have "?I db" using ok(2) by simp
  note s = settle_all [where I = ?I and seen = ?seen and good = "\<lambda>x v. v", OF run ok(1) this step]
  show "tree_ok db' \<and> tree db' = tree db \<and> root_seen db' = root_seen db \<and> (\<forall>r. r \<noteq> i \<longrightarrow> sub_seen db' r = sub_seen db r) \<and>
      (\<forall>j s. map_of ss j = Some s \<longrightarrow> sub_seen db' i j = sub_seen db i j)" by (rule s(1))
  show "j \<in> set xs \<Longrightarrow> sub_seen db' i j = None" by (rule s(2))
  show "j \<notin> set xs \<Longrightarrow> sub_seen db' i j = None \<longleftrightarrow> sub_seen db i j = None" by (rule s(3))
qed

lemma delete_roots:
  assumes run: "for_each (\<lambda>i. send False True (delete_root_skill i)) xs db = (Inr (), db')"
    and ok: "distinct xs" "tree_ok db" "closed_roots ds" "set xs \<inter> fst ` set ds = {}"
    and fit: "\<And>i d. map_of ds i = Some d \<Longrightarrow> root_fits opt e i d (root_seen db i)"
  shows "tree_ok db' \<and> tree db' = tree db \<and>
      (\<forall>i d. map_of ds i = Some d \<longrightarrow> root_seen db' i = root_seen db i \<and> sub_seen db' i = sub_seen db i)"
    "i \<in> set xs \<Longrightarrow> root_seen db' i = None" "i \<notin> set xs \<Longrightarrow> root_seen db' i = None \<longleftrightarrow> root_seen db i = None"
proof -
  let ?I = "\<lambda>s. tree_ok s \<and> tree s = tree db \<and>
      (\<forall>i d. map_of ds i = Some d \<longrightarrow> root_seen s i = root_seen db i \<and> sub_seen s i = sub_seen db i)"
  let ?seen = "\<lambda>s i. root_seen s i = None"
  have step: "?I b \<and> ?seen b x \<and> (\<forall>y. y \<noteq> x \<longrightarrow> ?seen b y = ?seen a y)"
    if x: "x \<in> set xs" and I: "?I a" and "?seen a x = ?seen db x" and f: "send False True (delete_root_skill x) a = (Inr (), b)" for x a b
  proof -
    from f obtain v where v: "delete_root_skill x a = Inr (v, b)" by (auto simp: script_simps)
    note d = delete_root_effect [OF v I [THEN conjunct1]]
    have "root_seen b i = root_seen db i \<and> sub_seen b i = sub_seen db i" if "map_of ds i = Some s" for i s
    proof -
      from that ok(3) have "set (droot_deps s) \<subseteq> fst ` set ds" by (auto simp: closed_roots_def list_all_iff dest: map_of_SomeD)
      with x ok(4) have "x \<notin> set (droot_deps s)" "i \<noteq> x" using described_key [OF that] by auto
      with d(1) [of i] d(2) [of i] I fit [OF that] that show ?thesis by (auto simp: root_fits_def fun_eq_iff split: option.splits)
    qed
    with d I tree_kept(6) [OF I [THEN conjunct1] v] show ?thesis by (auto split: if_splits)
  qed
  have "?I db" using ok(2) by simp
  note s = settle_all [where I = ?I and seen = ?seen and good = "\<lambda>x v. v", OF run ok(1) this step]
  show "tree_ok db' \<and> tree db' = tree db \<and>
      (\<forall>i d. map_of ds i = Some d \<longrightarrow> root_seen db' i = root_seen db i \<and> sub_seen db' i = sub_seen db i)" by (rule s(1))
  show "i \<in> set xs \<Longrightarrow> root_seen db' i = None" by (rule s(2))
  show "i \<notin> set xs \<Longrightarrow> root_seen db' i = None \<longleftrightarrow> root_seen db i = None" by (rule s(3))
qed


lemma rearranged:
  assumes "rearranges visit"
  shows "set (visit xs) = set xs" "distinct xs \<Longrightarrow> distinct (visit xs)"
  using assms by (auto simp: rearranges_def)

text \<open>The first two loops over the sub skills of one root: creation, then changes.\<close>

lemma write_subs:
  assumes add: "for_each (add_sub opt e i ss) xs db = (Inr (), db1)" and upd: "for_each (sync_sub opt e i ss remote) ys db1 = (Inr (), db2)"
    and ok: "\<not> so_dry opt" "tree_ok db" "distinct xs" "distinct ys" "set xs \<inter> set ys = {}" "set xs \<union> set ys = fst ` set ss"
    and seen: "\<And>j. map_option sub_view_seen (remote j) = sub_seen db i j"
  shows "tree_ok db2 \<and> tree db2 = tree db \<and> root_seen db2 = root_seen db \<and> (\<forall>r. r \<noteq> i \<longrightarrow> sub_seen db2 r = sub_seen db r)"
    "map_of ss j = Some s \<Longrightarrow> sub_fits opt e i j s (sub_seen db2 i j)"
    "j \<notin> fst ` set ss \<Longrightarrow> sub_seen db2 i j = sub_seen db i j"
proof -
  let ?I = "\<lambda>d s. tree_ok s \<and> tree s = tree d \<and> root_seen s = root_seen d \<and> (\<forall>r. r \<noteq> i \<longrightarrow> sub_seen s r = sub_seen d r)"
  let ?seen = "\<lambda>s. sub_seen s i"
  let ?good = "\<lambda>j v. \<exists>s. map_of ss j = Some s \<and> sub_fits opt e i j s v"
  have step1: "?I db b \<and> ?good x (?seen b x) \<and> (\<forall>y. y \<noteq> x \<longrightarrow> ?seen b y = ?seen a y)"
    if "x \<in> set xs" and I: "?I db a" and "?seen a x = ?seen db x" and f: "add_sub opt e i ss x a = (Inr (), b)" for x a b
  proof -
    note t = add_sub_step [OF f ok(1) I [THEN conjunct1]]
    from t(1) I have "?I db b" by simp
    with t(2,3) show ?thesis by blast
  qed
  have "?I db db" using ok(2) by simp
  note s = settle_all [where I = "?I db" and seen = ?seen and good = ?good, OF add ok(3) this step1]
  have kept1: "?I db db1" by (rule s(1))
  have good1: "\<And>x. x \<in> set xs \<Longrightarrow> ?good x (?seen db1 x)" by (rule s(2))
  have same1: "\<And>x. x \<notin> set xs \<Longrightarrow> ?seen db1 x = ?seen db x" by (rule s(3))
  have step2: "?I db1 b \<and> ?good x (?seen b x) \<and> (\<forall>y. y \<noteq> x \<longrightarrow> ?seen b y = ?seen a y)"
    if "x \<in> set ys" and I: "?I db1 a" and same: "?seen a x = ?seen db1 x" and f: "sync_sub opt e i ss remote x a = (Inr (), b)" for x a b
  proof -
    from that(1) ok(5) have "x \<notin> set xs" by auto
    from same same1 [OF this] have "sub_seen a i x = sub_seen db i x" by (rule trans)
    then have "sub_seen a i x = map_option sub_view_seen (remote x)" by (simp only: seen)
    note t = sync_sub_step [OF f ok(1) I [THEN conjunct1] this]
    from t(1) I have "?I db1 b" by simp
    with t(2,3) show ?thesis by blast
  qed
  have "?I db1 db1" using kept1 by simp
  note s = settle_all [where I = "?I db1" and seen = ?seen and good = ?good, OF upd ok(4) this step2]
  have kept2: "?I db1 db2" by (rule s(1))
  have good2: "\<And>x. x \<in> set ys \<Longrightarrow> ?good x (?seen db2 x)" by (rule s(2))
  have same2: "\<And>x. x \<notin> set ys \<Longrightarrow> ?seen db2 x = ?seen db1 x" by (rule s(3))
  show "tree_ok db2 \<and> tree db2 = tree db \<and> root_seen db2 = root_seen db \<and> (\<forall>r. r \<noteq> i \<longrightarrow> sub_seen db2 r = sub_seen db r)"
    using kept1 kept2 by simp
  show "sub_fits opt e i j s (sub_seen db2 i j)" if j: "map_of ss j = Some s"
  proof (cases "j \<in> set ys")
    case True
    from good2 [OF this] j show ?thesis by simp
  next
    case False
    with described_key [OF j] ok(6) have "j \<in> set xs" by auto
    from good1 [OF this] j same2 [OF False] show ?thesis by simp
  qed
  show "sub_seen db2 i j = sub_seen db i j" if "j \<notin> fst ` set ss"
  proof -
    from that ok(6) have "j \<notin> set ys" "j \<notin> set xs" by auto
    then show ?thesis using same1 same2 by (blast intro: trans)
  qed
qed

lemma sync_subs_step:
  assumes run: "sync_subs opt visit e me ds new i db = (Inr (), db')"
    and ok: "\<not> so_dry opt" "rearranges visit" "tree_ok db" "closed_roots ds"
    and fresh: "i \<in> set new \<Longrightarrow> sub_seen db i = (\<lambda>j. None)"
  shows "tree_ok db' \<and> tree db' = tree db \<and> root_seen db' = root_seen db" "r \<noteq> i \<Longrightarrow> sub_seen db' r = sub_seen db r"
    "\<exists>d. map_of ds i = Some d \<and> subs_fit opt e i (droot_skills d) (sub_seen db' i)"
proof -
  from run obtain d views x where d: "map_of ds i = Some d"
    and views: "if i \<in> set new then views = [] else list_sub_skills i (Some me) db = Inr (views, x)"
    and rest: "bind_s (lift_s (static_order visit (new_graph visit dsub_deps (droot_skills d) (map (\<lambda>v. sk_id (sv_skill v)) views)))) (\<lambda>order.
     bind_s (for_each (add_sub opt e i (droot_skills d)) order) (\<lambda>_.
     bind_s (for_each (sync_sub opt e i (droot_skills d) (by_id (\<lambda>v. sk_id (sv_skill v)) views))
       (visit (kept (droot_skills d) (map (\<lambda>v. sk_id (sv_skill v)) views)))) (\<lambda>_.
     for_each (\<lambda>j. send (so_dry opt) True (delete_sub_skill i j)) (visit (stale (droot_skills d) (map (\<lambda>v. sk_id (sv_skill v)) views)))))) db
       = (Inr (), db')"
    unfolding sync_subs_def Let_def bind_s_Inr [of "lift_s (described ds i)"] bind_s_Inr [of "if _ then _ else _"] lift_s_Inr described_Inr
    by (auto simp: lift_s_Inr bind_r_Inr_iff split: if_splits)
  define ss remote where "ss = droot_skills d" and "remote = map (\<lambda>v. sk_id (sv_skill v)) views"
  from ok(4) d have ss: "closed_subs ss" by (auto simp: closed_roots_def list_all_iff ss_def dest: map_of_SomeD)
  then have dss: "distinct (map fst ss)" by (simp add: closed_subs_def)
  have seen: "map_option sub_view_seen (by_id (\<lambda>v. sk_id (sv_skill v)) views j) = sub_seen db i j" for j
    using views sub_views(1) fresh by (auto simp: by_id_def split: if_splits)
  have rem: "distinct remote \<and> (\<forall>j. j \<in> set remote \<longleftrightarrow> sub_seen db i j \<noteq> None)"
  proof (cases "i \<in> set new")
    case True
    with views fresh show ?thesis by (simp add: remote_def)
  next
    case False
    with views sub_views(2) have "remote = map sk_id (sub_skills_of db i)" by (simp add: remote_def)
    with tree_okD(2) [OF ok(3)] show ?thesis
      by (auto simp: sub_seen_None sub_ids_def sub_skills_of_def all_rows_def unique_by_def distinct_map_filter)
  qed
  from rest ok(1) obtain order db1 db2 where order: "static_order visit (new_graph visit dsub_deps ss remote) = Inr order"
    and add: "for_each (add_sub opt e i ss) order db = (Inr (), db1)"
    and upd: "for_each (sync_sub opt e i ss (by_id (\<lambda>v. sk_id (sv_skill v)) views)) (visit (kept ss remote)) db1 = (Inr (), db2)"
    and del: "for_each (\<lambda>j. send False True (delete_sub_skill i j)) (visit (stale ss remote)) db2 = (Inr (), db')"
    by (auto simp: bind_s_Inr lift_s_Inr ss_def [symmetric] remote_def [symmetric])
  note vis = rearranged [OF ok(2)]
  have o: "set order = fst ` set ss - set remote" "distinct order" using new_order [OF ok(2) order] dss by auto
  have parts: "set order \<inter> set (visit (kept ss remote)) = {}" "set order \<union> set (visit (kept ss remote)) = fst ` set ss"
    using o(1) vis(1) by auto
  note w1 = write_subs [OF add upd ok(1,3) o(2) vis(2) [OF distinct_members(2) [OF dss]] parts seen]
  have "set (visit (stale ss remote)) \<inter> fst ` set ss = {}" using vis(1) by auto
  note x = delete_subs [OF del vis(2) [OF distinct_members(3)] w1(1) [THEN conjunct1] ss this w1(2), OF rem [THEN conjunct1]]
  have "subs_fit opt e i ss (sub_seen db' i)"
    unfolding subs_fit_def
  proof
    fix j
    show "case map_of ss j of None \<Rightarrow> sub_seen db' i j = None | Some s \<Rightarrow> sub_fits opt e i j s (sub_seen db' i j)"
    proof (cases "map_of ss j")
      case None
      then have j: "j \<notin> fst ` set ss" by (simp add: map_of_eq_None_iff)
      have "sub_seen db' i j = None"
        using x(2) [of j] x(3) [of j] w1(3) [OF j] rem j vis(1) by (cases "j \<in> set remote") auto
      with None show ?thesis by simp
    next
      case (Some s)
      with x(1) w1(2) [OF Some] show ?thesis by simp
    qed
  qed
  with d show "\<exists>d. map_of ds i = Some d \<and> subs_fit opt e i (droot_skills d) (sub_seen db' i)" by (simp add: ss_def)
  show "tree_ok db' \<and> tree db' = tree db \<and> root_seen db' = root_seen db" "r \<noteq> i \<Longrightarrow> sub_seen db' r = sub_seen db r"
    using x(1) w1(1) by auto
qed


lemma write_roots:
  assumes add: "for_each (add_root opt e ds) xs db = (Inr (), db1)" and upd: "for_each (sync_root opt e ds remote) ys db1 = (Inr (), db2)"
    and ok: "\<not> so_dry opt" "tree_ok db" "distinct xs" "distinct ys" "set xs \<inter> set ys = {}" "set xs \<union> set ys = fst ` set ds"
    and seen: "\<And>i. map_option root_view_seen (remote i) = root_seen db i"
  shows "tree_ok db2 \<and> tree db2 = tree db \<and> sub_seen db2 = sub_seen db"
    "map_of ds i = Some d \<Longrightarrow> root_fits opt e i d (root_seen db2 i)"
    "i \<notin> fst ` set ds \<Longrightarrow> root_seen db2 i = root_seen db i"
proof -
  let ?I = "\<lambda>d s. tree_ok s \<and> tree s = tree d \<and> sub_seen s = sub_seen d"
  let ?good = "\<lambda>i v. \<exists>d. map_of ds i = Some d \<and> root_fits opt e i d v"
  have step1: "?I db b \<and> ?good x (root_seen b x) \<and> (\<forall>y. y \<noteq> x \<longrightarrow> root_seen b y = root_seen a y)"
    if "x \<in> set xs" and I: "?I db a" and "root_seen a x = root_seen db x" and f: "add_root opt e ds x a = (Inr (), b)" for x a b
  proof -
    note t = add_root_step [OF f ok(1) I [THEN conjunct1]]
    from t(1) I have "?I db b" by simp
    with t(2,3) show ?thesis by blast
  qed
  have "?I db db" using ok(2) by simp
  note s = settle_all [where I = "?I db" and seen = root_seen and good = ?good, OF add ok(3) this step1]
  have kept1: "?I db db1" by (rule s(1))
  have good1: "\<And>x. x \<in> set xs \<Longrightarrow> ?good x (root_seen db1 x)" by (rule s(2))
  have same1: "\<And>x. x \<notin> set xs \<Longrightarrow> root_seen db1 x = root_seen db x" by (rule s(3))
  have step2: "?I db1 b \<and> ?good x (root_seen b x) \<and> (\<forall>y. y \<noteq> x \<longrightarrow> root_seen b y = root_seen a y)"
    if "x \<in> set ys" and I: "?I db1 a" and same: "root_seen a x = root_seen db1 x" and f: "sync_root opt e ds remote x a = (Inr (), b)" for x a b
  proof -
    from that(1) ok(5) have "x \<notin> set xs" by auto
    from same same1 [OF this] have "root_seen a x = root_seen db x" by (rule trans)
    then have "root_seen a x = map_option root_view_seen (remote x)" by (simp only: seen)
    note t = sync_root_step [OF f ok(1) I [THEN conjunct1] this]
    from t(1) I have "?I db1 b" by simp
    with t(2,3) show ?thesis by blast
  qed
  have "?I db1 db1" using kept1 by simp
  note s = settle_all [where I = "?I db1" and seen = root_seen and good = ?good, OF upd ok(4) this step2]
  have kept2: "?I db1 db2" by (rule s(1))
  have good2: "\<And>x. x \<in> set ys \<Longrightarrow> ?good x (root_seen db2 x)" by (rule s(2))
  have same2: "\<And>x. x \<notin> set ys \<Longrightarrow> root_seen db2 x = root_seen db1 x" by (rule s(3))
  show "tree_ok db2 \<and> tree db2 = tree db \<and> sub_seen db2 = sub_seen db" using kept1 kept2 by simp
  show "root_fits opt e i d (root_seen db2 i)" if i: "map_of ds i = Some d"
  proof (cases "i \<in> set ys")
    case True
    from good2 [OF this] i show ?thesis by simp
  next
    case False
    with described_key [OF i] ok(6) have "i \<in> set xs" by auto
    from good1 [OF this] i same2 [OF False] show ?thesis by simp
  qed
  show "root_seen db2 i = root_seen db i" if "i \<notin> fst ` set ds"
  proof -
    from that ok(6) have "i \<notin> set ys" "i \<notin> set xs" by auto
    then show ?thesis using same1 same2 by (blast intro: trans)
  qed
qed

text \<open>The third loop: the sub skills of every described root.\<close>

lemma write_all_subs:
  assumes run: "for_each (sync_subs opt visit e me ds new) xs db = (Inr (), db')"
    and ok: "\<not> so_dry opt" "rearranges visit" "tree_ok db" "closed_roots ds" "distinct xs"
    and fresh: "\<And>i. i \<in> set new \<Longrightarrow> sub_seen db i = (\<lambda>j. None)"
  shows "tree_ok db' \<and> tree db' = tree db \<and> root_seen db' = root_seen db"
    "i \<in> set xs \<Longrightarrow> \<exists>d. map_of ds i = Some d \<and> subs_fit opt e i (droot_skills d) (sub_seen db' i)"
proof -
  let ?I = "\<lambda>s. tree_ok s \<and> tree s = tree db \<and> root_seen s = root_seen db"
  let ?good = "\<lambda>i v. \<exists>d. map_of ds i = Some d \<and> subs_fit opt e i (droot_skills d) v"
  have step: "?I b \<and> ?good x (sub_seen b x) \<and> (\<forall>y. y \<noteq> x \<longrightarrow> sub_seen b y = sub_seen a y)"
    if "x \<in> set xs" and I: "?I a" and same: "sub_seen a x = sub_seen db x" and f: "sync_subs opt visit e me ds new x a = (Inr (), b)" for x a b
  proof -
    have "x \<in> set new \<Longrightarrow> sub_seen a x = (\<lambda>j. None)" using same fresh [of x] by (rule trans)
    note t = sync_subs_step [OF f ok(1,2) I [THEN conjunct1] ok(4) this]
    from t(1) I have "?I b" by simp
    with t(2,3) show ?thesis by blast
  qed
  have "?I db" using ok(3) by simp
  note s = settle_all [where I = ?I and seen = sub_seen and good = ?good, OF run ok(5) this step]
  show "?I db'" by (rule s(1))
  show "i \<in> set xs \<Longrightarrow> ?good i (sub_seen db' i)" by (rule s(2))
qed

section \<open>The tree is as described\<close>

definition mirrors :: "sync_options \<Rightarrow> env \<Rightarrow> descriptions \<Rightarrow> database \<Rightarrow> bool" where
  "mirrors opt e ds db \<longleftrightarrow> (\<forall>i. case map_of ds i of
       None \<Rightarrow> root_seen db i = None \<and> (\<forall>j. sub_seen db i j = None)
     | Some d \<Rightarrow> root_fits opt e i d (root_seen db i) \<and> subs_fit opt e i (droot_skills d) (sub_seen db i))"

lemma no_root_no_subs: "tree_ok db \<Longrightarrow> root_seen db i = None \<Longrightarrow> sub_seen db i j = None"
  using sub_seen_root [of db i j] unfolding root_seen_None by blast

lemma synchronise_mirrors:
  assumes run: "synchronise opt visit e me ds db = (Inr (), db')"
    and ok: "\<not> so_dry opt" "rearranges visit" "tree_ok db" "closed_roots ds"
  shows "tree_ok db' \<and> tree db' \<noteq> [] \<and> mirrors opt e ds db'"
proof -
  from run obtain views t db0 where views: "list_root_skills (Some me) db = Inr ((views, t), db0)"
    by (auto simp: synchronise_def bind_s_Inr ask_s_Inr)
  define remote where "remote = map (\<lambda>v. rk_id (rt_skill v)) views"
  from run ok(1) views obtain order db1 db2 db3 where order: "static_order visit (new_graph visit droot_deps ds remote) = Inr order"
    and add: "for_each (add_root opt e ds) order db0 = (Inr (), db1)"
    and upd: "for_each (sync_root opt e ds (by_id (\<lambda>v. rk_id (rt_skill v)) views)) (visit (kept ds remote)) db1 = (Inr (), db2)"
    and subs: "for_each (sync_subs opt visit e me ds (added ds remote)) (visit (added ds remote @ kept ds remote)) db2 = (Inr (), db3)"
    and del: "for_each (\<lambda>i. send False True (delete_root_skill i)) (visit (stale ds remote)) db3 = (Inr (), db')"
    by (auto simp: synchronise_def bind_s_Inr ask_s_Inr lift_s_Inr Let_def remote_def [symmetric])
  note rv = root_views [OF views]
  have ok0: "tree_ok db0" using ok(3) rv(5) by simp
  have dds: "distinct (map fst ds)" using ok(4) by (simp add: closed_roots_def)
  have rem: "distinct remote" "\<And>i. i \<notin> set remote \<longleftrightarrow> root_seen db0 i = None"
    using tree_okD(1) [OF ok(3)] rv(2,3) by (auto simp: remote_def unique_by_def root_seen_None root_ids_def)
  note vis = rearranged [OF ok(2)]
  have o: "set order = fst ` set ds - set remote" "distinct order" using new_order [OF ok(2) order] dds by auto
  have parts: "set order \<inter> set (visit (kept ds remote)) = {}" "set order \<union> set (visit (kept ds remote)) = fst ` set ds"
    using o(1) vis(1) by auto
  have "map_option root_view_seen (by_id (\<lambda>v. rk_id (rt_skill v)) views i) = root_seen db0 i" for i using rv(1,3) by simp
  note w = write_roots [OF add upd ok(1) ok0 o(2) vis(2) [OF distinct_members(2) [OF dds]] parts this]
  have fresh: "sub_seen db2 i = (\<lambda>j. None)" if "i \<in> set (added ds remote)" for i
  proof -
    from that rem(2) have "root_seen db0 i = None" by auto
    then have "sub_seen db0 i j = None" for j by (rule no_root_no_subs [OF ok0])
    then show ?thesis using w(1) by auto
  qed
  have "distinct (added ds remote @ kept ds remote)" using distinct_members [OF dds] by auto
  note s = write_all_subs [OF subs ok(1,2) w(1) [THEN conjunct1] ok(4) vis(2) [OF this] fresh]
  have s1: "tree_ok db3" "tree db3 = tree db2" "root_seen db3 = root_seen db2"
    and s2: "\<And>i. i \<in> fst ` set ds \<Longrightarrow> \<exists>d. map_of ds i = Some d \<and> subs_fit opt e i (droot_skills d) (sub_seen db3 i)"
    using s vis(1) by auto
  have "set (visit (stale ds remote)) \<inter> fst ` set ds = {}" using vis(1) by auto
  note d = delete_roots [OF del vis(2) [OF distinct_members(3) [OF rem(1)]] s1(1) ok(4) this]
  have fit: "\<And>i d. map_of ds i = Some d \<Longrightarrow> root_fits opt e i d (root_seen db3 i)" using w(2) s1(3) by simp
  note end_state = d(1) [OF fit]
  have "mirrors opt e ds db'"
    unfolding mirrors_def
  proof
    fix i
    show "case map_of ds i of None \<Rightarrow> root_seen db' i = None \<and> (\<forall>j. sub_seen db' i j = None)
       | Some d \<Rightarrow> root_fits opt e i d (root_seen db' i) \<and> subs_fit opt e i (droot_skills d) (sub_seen db' i)"
    proof (cases "map_of ds i")
      case None
      then have i: "i \<notin> fst ` set ds" by (simp add: map_of_eq_None_iff)
      have "root_seen db' i = None"
      proof (cases "i \<in> set remote")
        case True
        with i vis(1) d(2) [OF fit] show ?thesis by simp
      next
        case False
        with rem(2) w(3) [OF i] s1(3) have "root_seen db3 i = None" by simp
        with False vis(1) d(3) [OF fit] show ?thesis by simp
      qed
      with None no_root_no_subs [OF end_state [THEN conjunct1]] show ?thesis by simp
    next
      case (Some d)
      with end_state fit [OF Some] s2 [OF described_key [OF Some]] show ?thesis by auto
    qed
  qed
  moreover have "tree db' \<noteq> []" using end_state s1(2) w(1) rv(6) by simp
  ultimately show ?thesis using end_state by blast
qed


section \<open>A second run\<close>

lemma for_each_skip: "(\<And>x. x \<in> set xs \<Longrightarrow> f x db = (Inr (), db)) \<Longrightarrow> for_each f xs db = (Inr (), db)"
  by (induction xs) (auto simp: bind_s_def lift_s_def)

lemma bind_s_run: "m db = (Inr a, s) \<Longrightarrow> bind_s m f db = f a s"
  by (simp add: bind_s_def)

lemma nothing_new:
  assumes "rearranges visit" "fst ` set ds \<subseteq> set remote"
  shows "added ds remote = []" "static_order visit (new_graph visit deps ds remote) = Inr []"
proof -
  show a: "added ds remote = []" using assms(2) by (auto simp: added_def filter_empty_conv)
  have "visit [] = []" using rearranged(1) [OF assms(1), of "[]"] by simp
  then show "static_order visit (new_graph visit deps ds remote) = Inr []"
    by (simp add: new_graph_def a static_order_def topo_batches.simps)
qed

lemma fits_None [simp]: "\<not> root_fits opt e i d None" "\<not> sub_fits opt e i j s None"
  by (simp_all add: root_fits_def sub_fits_def)

lemma subs_fitD:
  assumes "subs_fit opt e i ss f"
  shows "map_of ss j = Some s \<Longrightarrow> sub_fits opt e i j s (f j)" "f j = None \<longleftrightarrow> map_of ss j = None"
proof -
  from assms have j: "case map_of ss j of None \<Rightarrow> f j = None | Some s \<Rightarrow> sub_fits opt e i j s (f j)" by (simp add: subs_fit_def)
  then show "map_of ss j = Some s \<Longrightarrow> sub_fits opt e i j s (f j)" by simp
  from j show "f j = None \<longleftrightarrow> map_of ss j = None" by (cases "map_of ss j"; cases "f j") auto
qed

lemma mirrorsD:
  assumes "mirrors opt e ds db"
  shows "map_of ds i = Some d \<Longrightarrow> root_fits opt e i d (root_seen db i) \<and> subs_fit opt e i (droot_skills d) (sub_seen db i)"
    "root_seen db i = None \<longleftrightarrow> map_of ds i = None"
proof -
  from assms have i: "case map_of ds i of None \<Rightarrow> root_seen db i = None \<and> (\<forall>j. sub_seen db i j = None)
     | Some d \<Rightarrow> root_fits opt e i d (root_seen db i) \<and> subs_fit opt e i (droot_skills d) (sub_seen db i)" by (simp add: mirrors_def)
  then show "map_of ds i = Some d \<Longrightarrow> root_fits opt e i d (root_seen db i) \<and> subs_fit opt e i (droot_skills d) (sub_seen db i)" by simp
  from i show "root_seen db i = None \<longleftrightarrow> map_of ds i = None" by (cases "map_of ds i"; cases "root_seen db i") auto
qed

lemma same_root_skipped:
  assumes "map_of ds i = Some d" "map_option root_view_seen (remote i) = root_seen db i" "root_fits opt e i d (root_seen db i)"
  shows "sync_root opt e ds remote i db = (Inr (), db)"
  using assms(1,3) unfolding assms(2) [symmetric]
  by (cases "remote i") (auto simp: sync_root_def described_def bind_s_def lift_s_def root_fits_def root_view_seen_def root_diff_def no_root_diff_def Let_def)

lemma same_sub_skipped:
  assumes "map_of ss j = Some s" "map_option sub_view_seen (remote j) = sub_seen db i j" "sub_fits opt e i j s (sub_seen db i j)"
  shows "sync_sub opt e i ss remote j db = (Inr (), db)"
  using assms(1,3) unfolding assms(2) [symmetric]
  by (cases "remote j") (auto simp: sync_sub_def described_def bind_s_def lift_s_def sub_fits_def sub_view_seen_def sub_diff_def no_sub_diff_def Let_def)

lemma same_subs_skipped:
  assumes d: "map_of ds i = Some d" and fit: "subs_fit opt e i (droot_skills d) (sub_seen db i)" and ok: "rearranges visit"
    and root: "root_seen db i \<noteq> None" "closed_roots ds"
  shows "sync_subs opt visit e me ds [] i db = (Inr (), db)"
proof -
  define ss where "ss = droot_skills d"
  from root(1) obtain views x where v: "list_sub_skills i (Some me) db = Inr (views, x)"
    by (auto simp: list_sub_skills_def Let_def root_seen_def)
  let ?remote = "map (\<lambda>v. sk_id (sv_skill v)) views"
  note sv = sub_views [OF v]
  have "distinct (map fst ss)" using root(2) d by (auto simp: closed_roots_def closed_subs_def list_all_iff ss_def dest: map_of_SomeD)
  have rem: "j \<in> set ?remote \<longleftrightarrow> j \<in> fst ` set ss" for j
  proof -
    have "j \<notin> set ?remote \<longleftrightarrow> sub_seen db i j = None" unfolding sv(2) by (simp add: sub_seen_None sub_ids_def)
    with subs_fitD(2) [OF fit] show ?thesis unfolding ss_def by (metis map_of_eq_None_iff)
  qed
  then have same: "fst ` set ss \<subseteq> set ?remote" "set (stale ss ?remote) = {}" by auto
  note n = nothing_new [OF ok same(1)]
  have "for_each (sync_sub opt e i ss (by_id (\<lambda>v. sk_id (sv_skill v)) views)) (visit (kept ss ?remote)) db = (Inr (), db)"
  proof (rule for_each_skip)
    fix j
    assume "j \<in> set (visit (kept ss ?remote))"
    then have "j \<in> fst ` set ss" using rearranged(1) [OF ok] by auto
    then obtain s where s: "map_of ss j = Some s" by (metis map_of_eq_None_iff option.exhaust)
    from s sv(1) subs_fitD(1) [OF fit [folded ss_def] s]
    show "sync_sub opt e i ss (by_id (\<lambda>v. sk_id (sv_skill v)) views) j db = (Inr (), db)" by (rule same_sub_skipped)
  qed
  moreover have "visit (stale ss ?remote) = []" using same(2) rearranged(1) [OF ok] by (metis set_empty)
  ultimately show ?thesis
    using d v n(2) by (simp add: sync_subs_def ss_def [symmetric] described_def bind_s_run lift_s_def Let_def)
qed

lemma synchronise_again:
  assumes fit: "mirrors opt e ds db" and db: "tree db \<noteq> []" and ok: "rearranges visit" "closed_roots ds"
  shows "synchronise opt visit e me ds db = (Inr (), db)"
proof -
  obtain views t db0 where l: "list_root_skills (Some me) db = Inr ((views, t), db0)"
    by (simp add: list_root_skills_def case_prod_beta)
  note rv = root_views [OF l]
  from rv(7) db l have views: "list_root_skills (Some me) db = Inr ((views, t), db)" by simp
  let ?remote = "map (\<lambda>v. rk_id (rt_skill v)) views"
  have rem: "i \<in> set ?remote \<longleftrightarrow> i \<in> fst ` set ds" for i
  proof -
    have "i \<notin> set ?remote \<longleftrightarrow> root_seen db i = None" unfolding rv(2) by (simp add: root_seen_None root_ids_def)
    with mirrorsD(2) [OF fit] show ?thesis by (metis map_of_eq_None_iff)
  qed
  then have same: "fst ` set ds \<subseteq> set ?remote" "set (stale ds ?remote) = {}" by auto
  note n = nothing_new [OF ok(1) same(1)]
  note vis = rearranged(1) [OF ok(1)]
  have desc: "\<exists>d. map_of ds i = Some d" if "i \<in> set (visit (kept ds ?remote))" for i
  proof -
    from that vis have "i \<in> fst ` set ds" by simp
    then show ?thesis by (metis map_of_eq_None_iff option.exhaust)
  qed
  have "for_each (sync_root opt e ds (by_id (\<lambda>v. rk_id (rt_skill v)) views)) (visit (kept ds ?remote)) db = (Inr (), db)"
  proof (rule for_each_skip)
    fix i
    assume "i \<in> set (visit (kept ds ?remote))"
    then obtain d where d: "map_of ds i = Some d" using desc by blast
    from d rv(1) mirrorsD(1) [OF fit d, THEN conjunct1]
    show "sync_root opt e ds (by_id (\<lambda>v. rk_id (rt_skill v)) views) i db = (Inr (), db)" by (rule same_root_skipped)
  qed
  moreover have "for_each (sync_subs opt visit e me ds []) (visit (kept ds ?remote)) db = (Inr (), db)"
  proof (rule for_each_skip)
    fix i
    assume "i \<in> set (visit (kept ds ?remote))"
    then obtain d where d: "map_of ds i = Some d" using desc by blast
    then have "root_seen db i \<noteq> None" using mirrorsD(2) [OF fit] by simp
    from d mirrorsD(1) [OF fit d, THEN conjunct2] ok(1) this ok(2)
    show "sync_subs opt visit e me ds [] i db = (Inr (), db)" by (rule same_subs_skipped)
  qed
  moreover have "visit (stale ds ?remote) = []" using same(2) vis by (metis set_empty)
  ultimately show ?thesis
    using views n by (simp add: synchronise_def ask_s_def bind_s_run lift_s_def Let_def)
qed


section \<open>What every run keeps\<close>

text \<open>
  An invariant of the requests is an invariant of the script, however far it gets: a refused request stops it and
  leaves the requests before it in place. In a dry run nothing but the tree settings is ever written.
\<close>

definition keeps :: "(database \<Rightarrow> bool) \<Rightarrow> 'a script \<Rightarrow> bool" where
  "keeps P m \<longleftrightarrow> (\<forall>db. P db \<longrightarrow> P (snd (m db)))"

lemma keeps_lift [simp, intro]: "keeps P (lift_s r)"
  by (simp add: keeps_def lift_s_def)

lemma keeps_bind [intro]: "keeps P m \<Longrightarrow> (\<And>a. keeps P (f a)) \<Longrightarrow> keeps P (bind_s m f)"
  unfolding keeps_def bind_s_def by (fastforce split: prod.splits sum.splits)

lemma keeps_ask [intro]: "(\<And>db a db'. P db \<Longrightarrow> h db = Inr (a, db') \<Longrightarrow> P db') \<Longrightarrow> keeps P (ask_s h)"
  by (auto simp: keeps_def ask_s_def split: sum.splits)

lemma keeps_read [simp, intro]: "keeps P (\<lambda>db. lift_s (r db) db)"
  by (simp add: keeps_def lift_s_def)

lemma keeps_each [intro]: "(\<And>x. keeps P (f x)) \<Longrightarrow> keeps P (for_each f xs)"
  by (induction xs) auto

lemma keeps_cases:
  "keeps P m \<Longrightarrow> keeps P n \<Longrightarrow> keeps P (if b then m else n)"
  "keeps P m \<Longrightarrow> (\<And>x. keeps P (f x)) \<Longrightarrow> keeps P (case v of None \<Rightarrow> m | Some x \<Rightarrow> f x)"
  "(\<And>x y. keeps P (g x y)) \<Longrightarrow> keeps P (case p of (x, y) \<Rightarrow> g x y)"
  by (auto split: option.split prod.split)

lemmas keeps_rules = keeps_cases keeps_bind keeps_each keeps_lift keeps_read

locale request_invariant =
  fixes P :: "database \<Rightarrow> bool" and dry :: bool
  assumes read: "P db \<Longrightarrow> list_root_skills u db = Inr (v, db') \<Longrightarrow> P db'"
    and root_created: "\<not> dry \<Longrightarrow> P db \<Longrightarrow> create_root_skill c db = Inr (r, db') \<Longrightarrow> P db'"
    and root_changed: "\<not> dry \<Longrightarrow> P db \<Longrightarrow> update_root_skill i w db = Inr (r, db') \<Longrightarrow> P db'"
    and root_deleted: "\<not> dry \<Longrightarrow> P db \<Longrightarrow> delete_root_skill i db = Inr (b, db') \<Longrightarrow> P db'"
    and sub_created: "\<not> dry \<Longrightarrow> P db \<Longrightarrow> create_sub_skill e i s db = Inr (t, db') \<Longrightarrow> P db'"
    and sub_changed: "\<not> dry \<Longrightarrow> P db \<Longrightarrow> update_sub_skill e i j x db = Inr (t, db') \<Longrightarrow> P db'"
    and sub_deleted: "\<not> dry \<Longrightarrow> P db \<Longrightarrow> delete_sub_skill i j db = Inr (b, db') \<Longrightarrow> P db'"
begin

lemma keeps_send: "(\<And>db a db'. \<not> dry \<Longrightarrow> P db \<Longrightarrow> h db = Inr (a, db') \<Longrightarrow> P db') \<Longrightarrow> keeps P (send dry valid h)"
  by (cases dry) (auto simp: send_def intro!: keeps_bind keeps_ask)

lemma requests_keep:
  "keeps P (ask_s (list_root_skills u))" "keeps P (send dry v (create_root_skill c))" "keeps P (send dry v (update_root_skill i w))"
  "keeps P (send dry v (delete_root_skill i))" "keeps P (send dry v (create_sub_skill e i s))"
  "keeps P (send dry v (update_sub_skill e i j x))" "keeps P (send dry v (delete_sub_skill i j))"
  by (rule keeps_ask, erule (1) read)
    (rule keeps_send, erule (2) root_created root_changed root_deleted sub_created sub_changed sub_deleted)+

lemma synchronise_keeps:
  assumes "so_dry opt = dry"
  shows "keeps P (synchronise opt visit e me ds)"
  unfolding synchronise_def add_root_def sync_root_def sync_subs_def add_sub_def sync_sub_def Let_def assms
  by (intro keeps_rules requests_keep)

lemma script_keeps: "so_dry opt = dry \<Longrightarrow> P db \<Longrightarrow> P (snd (sync_main opt visit e me files db))"
proof -
  assume d: "so_dry opt = dry" and p: "P db"
  have "keeps P (sync_main opt visit e me files)"
    unfolding sync_main_def by (intro keeps_rules synchronise_keeps d)
  with p show ?thesis by (simp add: keeps_def)
qed

end

interpretation orderly: request_invariant tree_ok dry for dry
proof unfold_locales
  show "tree_ok db \<Longrightarrow> list_root_skills u db = Inr (v, db') \<Longrightarrow> tree_ok db'" for db u v db'
    by (cases v) (simp add: root_views(5))
qed (blast intro: tree_kept)+

lemma settings_once: "snd (tree_settings_get (snd (tree_settings_get db))) = snd (tree_settings_get db)"
  by (simp add: tree_settings_get_def add_row_def Let_def split: list.split)

interpretation untouched: request_invariant "\<lambda>s. s = db \<or> s = snd (tree_settings_get db)" True for db
proof unfold_locales
  fix s u v s'
  assume "s = db \<or> s = snd (tree_settings_get db)" "list_root_skills u s = Inr (v, s')"
  moreover from this(2) have "s' = snd (tree_settings_get s)" by (auto simp: list_root_skills_def case_prod_beta)
  ultimately show "s' = db \<or> s' = snd (tree_settings_get db)" by (elim disjE) (simp_all add: settings_once)
qed simp_all

lemma script_keeps_tree: "tree_ok db \<Longrightarrow> tree_ok (snd (sync_main opt visit e me files db))"
  by (rule orderly.script_keeps [OF refl])

lemma dry_run_writes_nothing:
  "so_dry opt \<Longrightarrow> snd (sync_main opt visit e me files db) \<in> {db, snd (tree_settings_get db)}"
  using untouched.script_keeps [of opt db db visit e me files] by simp

section \<open>Checked descriptions\<close>

lemma known_Inr: "known er names xs = Inr u \<longleftrightarrow> set xs \<subseteq> set names"
  by (auto simp: known_def guard_r_def list_all_iff)

lemma map_r_each: "map_r f xs = Inr ys \<Longrightarrow> x \<in> set xs \<Longrightarrow> \<exists>y. f x = Inr y"
  by (induction xs arbitrary: ys) (auto simp: result_simps)

lemma set_dict_update: "set (AList.update k v al) \<subseteq> insert (k, v) (set al)"
  by (induction al) auto

lemma load_skills_keys:
  assumes "load_skills files loaded = Inr ds" "distinct (map fst loaded)"
  shows "distinct (map fst ds)" "set (map snd ds) \<subseteq> set (map snd files) \<union> set (map snd loaded)"
proof -
  have "distinct (map fst ds) \<and> set (map snd ds) \<subseteq> set (map snd files) \<union> set (map snd loaded)"
    using assms
  proof (induction files loaded rule: load_skills.induct)
    case (2 name d files loaded)
    let ?new = "AList.update (without_suffix ''.yml'' name) d loaded"
    have "distinct (map fst ?new)" using 2(3) by (rule distinct_update)
    with 2(1,2) have "distinct (map fst ds) \<and> set (map snd ds) \<subseteq> set (map snd files) \<union> set (map snd ?new)"
      by (auto split: if_splits)
    moreover have "set (map snd ?new) \<subseteq> insert d (set (map snd loaded))"
      using set_dict_update [of "without_suffix ''.yml'' name" d loaded] by force
    ultimately show ?case by (simp, blast)
  qed auto
  then show "distinct (map fst ds)" "set (map snd ds) \<subseteq> set (map snd files) \<union> set (map snd loaded)" by auto
qed

text \<open>The keys of a YAML mapping are distinct.\<close>

definition mappings :: "(string \<times> root_description) list \<Rightarrow> bool" where
  "mappings files \<longleftrightarrow> list_all (\<lambda>(f, d). distinct (map fst (droot_skills d))) files"

lemma checked_closed:
  assumes "checked_skills e files = Inr ds" "mappings files"
  shows "closed_roots ds"
proof -
  from assms(1) have l: "load_skills files [] = Inr ds" and c: "check_dependencies ds = Inr ()"
    by (auto simp: checked_skills_def result_simps)
  note keys = load_skills_keys [OF l]
  have "set (droot_deps d) \<subseteq> fst ` set ds \<and> closed_subs (droot_skills d)" if "(i, d) \<in> set ds" for i d
  proof -
    from c obtain ys where m: "map_r (\<lambda>(i, d).
       bind_r (known (Crash ''root dependency not defined'') (map fst ds) (droot_deps d)) (\<lambda>_.
       map_r (\<lambda>(j, s). known (Crash ''sub dependency not defined'') (map fst (droot_skills d)) (dsub_deps s)) (droot_skills d))) ds = Inr ys"
      by (auto simp: check_dependencies_def result_simps)
    from map_r_each [OF m that] obtain zs where r: "set (droot_deps d) \<subseteq> fst ` set ds"
      and s: "map_r (\<lambda>(j, s). known (Crash ''sub dependency not defined'') (map fst (droot_skills d)) (dsub_deps s)) (droot_skills d) = Inr zs"
      by (auto simp: bind_r_Inr_iff known_Inr)
    have "set (dsub_deps s) \<subseteq> fst ` set (droot_skills d)" if "(j, s) \<in> set (droot_skills d)" for j s
      using map_r_each [OF s that] by (auto simp: known_Inr)
    moreover have "distinct (map fst (droot_skills d))"
      using keys(2) that assms(2) by (force simp: mappings_def list_all_iff)
    ultimately show ?thesis using r by (auto simp: closed_subs_def list_all_iff)
  qed
  with keys(1) show ?thesis by (auto simp: closed_roots_def list_all_iff)
qed



section \<open>An example\<close>

text \<open>The tree has \<open>a\<close> and \<open>b\<close>, which depends on \<open>a\<close>; the files describe \<open>b\<close>, depending on a new skill \<open>c\<close> with two sub skills.\<close>

declare dependents_loop.simps [code]

definition live_options :: sync_options where
  "live_options = \<lparr>so_list = False, so_dry = False, so_positions = False, so_host = ''h'', so_token = ''t''\<rparr>"

definition described_root :: "string list \<Rightarrow> (string \<times> sub_description) list \<Rightarrow> root_description" where
  "described_root ds ss = \<lparr>droot_name = ''n'', droot_deps = ds, droot_skills = ss\<rparr>"

definition described_sub :: "string list \<Rightarrow> sub_description" where
  "described_sub ds = \<lparr>dsub_name = ''n'', dsub_deps = ds, dsub_courses = []\<rparr>"

definition example_files :: "(string \<times> root_description) list" where
  "example_files = [(''b.yml'', described_root [''c''] []),
     (''c.yml'', described_root [] [(''x'', described_sub [''y'']), (''y'', described_sub [])])]"

lemma small_tree_ok: "tree_ok small_tree"
  by (simp add: small_tree_def tree_step_ok empty_tree_ok del: tree_step.simps)


text \<open>
  The order of the changes decides whether a valid description is accepted. To turn the dependency of \<open>b\<close> on \<open>a\<close>
  around, \<open>a\<close> must lose its dependents first: when Python's set yields the other order, the service refuses a cycle.
  A sub skill that moves to another root is refused as long as its old place exists.
\<close>

definition turned_files :: "(string \<times> root_description) list" where
  "turned_files = [(''b.yml'', described_root [] []), (''a.yml'', described_root [''b''] [])]"

lemma order_decides:
  "fst (sync_main live_options (\<lambda>xs. xs) example_env ''op'' turned_files small_tree) = Inr ()"
  "fst (sync_main live_options rev example_env ''op'' turned_files small_tree) = Inl skill_cycle"
  by code_simp+

definition moved_files :: "bool \<Rightarrow> (string \<times> root_description) list" where
  "moved_files old = (let ss = [(''x'', described_sub [])] in
     [(''a.yml'', described_root [] (if old then [] else ss)), (''b.yml'', described_root [] (if old then ss else []))])"

lemma moved_sub_refused:
  "fst (sync_main live_options (\<lambda>xs. xs) example_env ''op'' (moved_files False)
     (snd (sync_main live_options (\<lambda>xs. xs) example_env ''op'' (moved_files True) small_tree))) = Inl skill_exists"
  by code_simp

end
