(* ===== verification/Spec2Isabelle.thy ===== *)
theory Spec2Isabelle
  imports Prelude Levels Json Rewards Daily Rooms Outages Titles_Example Skilltree Recommend Projects Queue Courses Videos Sweep Published Export Areas Lessons Packages Service Authority Batch Isolation Routes Sync
begin

text \<open>
  Verification of the skills service of Bootstrap Academy (\<^verbatim>\<open>src/api\<close>): the FastAPI service that keeps what its
  learners know and do - experience points and the skill tree, courses and their videos, learning rooms and the lesson
  engine, the daily lesson limit, purchases, plans and projects - over one SQL database, with Redis for links and grants
  and with the services auth, shop, challenges, llm-ms and a sandbox behind it.

  \<^bold>\<open>How the code is read.\<close> A request is a function on the database: \<open>database \<Rightarrow> err + (answer \<times> database)\<close>
  (\<open>handler\<close> in \<open>Store\<close>). \<open>Inl\<close> is an exception, after which the session is rolled back; \<open>Inr\<close> is the answer with the
  database that the middleware commits. Where a function commits in between (deliveries, evaluations, sweeps), each
  transaction is a definition of its own and the whole is their composition. The database is a record of tables, a table
  the list of its rows, a row a record with the columns of its class under \<^verbatim>\<open>src/api/models\<close> (\<open>Rows\<close>). The row lock of
  the account (\<open>lock_user\<close>) makes the transactions of one learner run one after the other; the interleavings that remain
  are sequences of transactions, over which the histories of the theorems quantify. Times are whole seconds, ids are
  \<open>string\<close> (ASCII), texts of learners and authors are lists of code points (\<open>ustr\<close>), files and URLs of packages
  lists of bytes, floats that are only stored are their 64 bits, and the square root of a level is the correctly rounded
  binary64 one. Error details are short tags instead of the German sentences; codes and classes are those of the code.

  \<^bold>\<open>Parameters.\<close> What is not in the repository is an argument: \<open>env\<close> (\<open>Env\<close>) has the settings, the parsed content, the
  clock and the answers of shop, auth, challenges and the sandbox's switch, SHA-256, uuid5, JSON text and the civil day
  of Berlin; \<open>llm_env\<close> the keys and the decoding of a signed verdict, \<open>auth_env\<close> the decoding of an access token,
  its revocation and the answer about the account, \<open>sandbox\<close>, \<open>shop\<close>, \<open>claims_env\<close>, \<open>publications_env\<close>, \<open>authority\<close>
  and \<open>packages\<close> the answers of their services and files. Every theorem holds for all of them; hypotheses about them are
  named (\<open>keys_ok\<close>, \<open>catalogue_ready\<close>, \<open>courses_ok\<close>, ...) and each has a witness.

  \<^bold>\<open>The theories\<close>, in the order in which they build on each other.

  \<^item> \<open>Prelude\<close>: errors, sequencing (\<open>bind_r\<close>), the row operations of \<^verbatim>\<open>database/database.py\<close> on lists, the locale
    \<open>keyed_table\<close>. \<open>Rows\<close>, \<open>Store\<close>: row classes, the database, account guard, course access, viewing history, lecture
    progress, bookmarks; the locale \<open>guarded\<close>: steps that keep an erased account gone. \<open>Revisions\<close>: the locale
    \<open>revisioned\<close>, compare-and-swap by revision, with instances for rooms, projects and plans.
  \<^item> \<open>Levels\<close> (\<^verbatim>\<open>services/xp.py\<close>; locale \<open>level_curve\<close>): reading a level is exact. \<open>Json\<close> (\<^verbatim>\<open>utils/canonical.py\<close>):
    canonical bytes decide equality. \<open>Rewards\<close> (\<^verbatim>\<open>models/xp.py\<close>, \<^verbatim>\<open>services/benefits.py\<close>, \<^verbatim>\<open>endpoints/xp.py\<close>,
    \<^verbatim>\<open>bookmarks.py\<close>; locale \<open>receipt_log\<close>): keyed awards are booked once. \<open>Published\<close>
    (\<^verbatim>\<open>services/publications.py\<close>): the rankings read between two equal epochs.
  \<^item> \<open>Content\<close>, \<open>Catalogue\<close>, \<open>Env\<close>, \<open>Curriculum\<close> (\<^verbatim>\<open>schemas/course.py\<close>, \<^verbatim>\<open>rooms.py\<close>, \<^verbatim>\<open>curriculum.py\<close>,
    \<^verbatim>\<open>services/curriculum.py\<close>): courses, units and paths with their validators, the lessons of a course. \<open>Lessons\<close>: the
    outline and one lesson as a learner sees them. \<open>Areas\<close>: character areas.
  \<^item> \<open>Daily\<close> (\<^verbatim>\<open>services/daily_limit.py\<close>): policy, status, start of a lesson, admission of challenges, backfill; the
    limit holds and begun lessons stay open. \<open>Batch\<close>: the batch of read-only admissions with its shared context answers
    as the detailed checks.
  \<^item> \<open>Llm\<close>, \<open>Milestones\<close>, \<open>Rooms\<close>, \<open>Queue\<close> (\<^verbatim>\<open>services/llm.py\<close>, \<^verbatim>\<open>lesson_milestones.py\<close>, \<^verbatim>\<open>rooms.py\<close>): graded
    verdicts, the outbox of milestones (locale \<open>leased_work\<close>), every change of a room, the choice of the next one.
  \<^item> \<open>Documents\<close>, \<open>Plans\<close>, \<open>Verdicts\<close>, \<open>Tasks\<close>, \<open>Engine\<close>, \<open>Assessment\<close>, \<open>Outages\<close> (\<^verbatim>\<open>services/engine.py\<close>,
    \<^verbatim>\<open>engine_tasks.py\<close>, \<^verbatim>\<open>engine_verdicts.py\<close>, \<^verbatim>\<open>sandbox.py\<close>, \<^verbatim>\<open>schemas/engine.py\<close>): published revisions, tasks,
    submissions, evaluation under a lease, booking, completion of a unit; the constraints of the tables are an invariant
    of every history, XP are paid once, a failure books nothing.
  \<^item> \<open>Purchases\<close>, \<open>Rights\<close>, \<open>Entitlements\<close>, \<open>Titles_Example\<close> (\<^verbatim>\<open>services/purchases.py\<close>,
    \<^verbatim>\<open>retained_rights.py\<close>, \<^verbatim>\<open>user_deletion.py\<close>): orders and their delivery, erasure, retained rights and their
    continuation; one live order per course, access only with a title, recovery. \<open>Sweep\<close>: the sweep over deleted
    accounts. \<open>Export\<close>: the export of an account.
  \<^item> \<open>Skilltree\<close> (\<^verbatim>\<open>endpoints/skill.py\<close>): administration of the tree stays acyclic. \<open>Sync\<close>
    (\<^verbatim>\<open>scripts/sync_skills.py\<close>; locale \<open>request_invariant\<close>): a successful run leaves the described tree. \<open>Tracks\<close>, \<open>Learnplan\<close>,
    \<open>Recommend\<close> (\<^verbatim>\<open>services/tracks.py\<close>, \<^verbatim>\<open>course_progress.py\<close>, \<^verbatim>\<open>learning_plan.py\<close>, \<^verbatim>\<open>recommendations.py\<close>): tracks,
    the learner's plan, suggestions. \<open>Projects\<close> (\<^verbatim>\<open>services/course_project.py\<close>): the project of a course.
  \<^item> \<open>Courses\<close>, \<open>Videos\<close>, \<open>Packages\<close> (\<^verbatim>\<open>endpoints/course.py\<close>, \<^verbatim>\<open>learning.py\<close>, \<^verbatim>\<open>utils/mp4.py\<close>,
    \<^verbatim>\<open>services/private_lesson_modules.py\<close>): course routes, byte ranges and links of videos, the limited learning access,
    private packages and their grants.
  \<^item> \<open>Authority\<close> (\<^verbatim>\<open>auth.py\<close>, \<^verbatim>\<open>services/auth.py\<close>): who a request acts for. \<open>Service\<close>: one history over all
    components; an erased account stays gone. \<open>Isolation\<close>, \<open>Routes\<close> (\<^verbatim>\<open>endpoints/*.py\<close>): the routes, and that a
    learner's request changes no learning data of anybody else.

  \<^bold>\<open>Bounds and termination.\<close> Loops over rows and lists are structural. The search for dependents in the skill tree is a
  \<^verbatim>\<open>partial_function (option)\<close>, proved to return on every level; the depth of a root skill recurses over the roots
  not yet visited; the sweep ends because each batch starts after the last id of the one before; reading parts of a video and
  batches of 500 history entries shrink their argument. The topological sorting of new skills shrinks its
  rest by a batch. The search for a free id of a lesson (\<open>adapter_loop\<close>) gets one round
  more than there are occupied ids, which suffices because its candidates are distinct; the two reads of a published
  ranking are counted by 2, as in the code. Counters are checked against the range
  of a SQL \<^verbatim>\<open>BIGINT\<close> where they are written.

  \<^bold>\<open>Left out on purpose inside the model.\<close> Caches of a session and of Redis (\<^verbatim>\<open>redis_cached\<close>, \<^verbatim>\<open>clear_cache\<close>, the
  snapshot of the daily limit) hold what a read returns and are transparent, except the context of \<open>Batch\<close>, which is
  modelled and proved transparent. Surrogate keys that are never read are dropped. The scoped learning access puts its
  subject into \<open>en_retained\<close>, which is what its context variable does.

  \<^bold>\<open>Not modelled.\<close> Start-up and wiring of the ASGI application, middleware, logging, telemetry, e-mail, OpenAPI texts
  (\<^verbatim>\<open>app.py\<close>, \<^verbatim>\<open>logger.py\<close>, \<^verbatim>\<open>telemetry.py\<close>, \<^verbatim>\<open>utils/email.py\<close>, \<^verbatim>\<open>utils/docs.py\<close>, \<^verbatim>\<open>utils/debug.py\<close>): no logic
  of the domain. The SQLAlchemy layer (\<^verbatim>\<open>database/\<close>) appears only through the meaning of its queries, the migrations
  (\<^verbatim>\<open>alembic/\<close>) only through the constraints that the code relies on. Reading YAML and JSON files of courses, tracks,
  rooms and areas, parsing of \<^verbatim>\<open>Accept-Language\<close> and of request bodies by Pydantic (their validators are modelled where
  they decide something), JWT signatures, HTTP transport, Redis failures and the pauses between calls. The scripts that
  check dependencies of the build (\<^verbatim>\<open>scripts/audit_dependencies.py\<close>) are no part of the service.
\<close>

end
